(* ===== verification/Gas_Prelude.thy ===== *)
theory Gas_Prelude
  imports Main "HOL-Library.AList"
begin

text \<open>
  Shared vocabulary of the development: the result type of fallible Go functions, the
  collections of facts the component proofs draw on, and generic lemmas on lists, maps and
  association lists that more than one component needs.

  A Go function returning \<open>(T, error)\<close> becomes a function into \<open>'e + 'a\<close>, the error on
  the left. A Go map whose iteration order matters nowhere becomes \<open>'k \<rightharpoonup> 'v\<close>; where the
  code ranges over it and the order can show, the model takes the order as a list.
\<close>

named_theorems gas_inv \<open>preservation facts of the component invariants\<close>
named_theorems gas_simp \<open>defining equations the component proofs unfold together\<close>

type_synonym ('e, 'a) result = "'e + 'a"

abbreviation ok :: "'a \<Rightarrow> ('e, 'a) result" where
  "ok x \<equiv> Inr x"

abbreviation fail :: "'e \<Rightarrow> ('e, 'a) result" where
  "fail e \<equiv> Inl e"

definition is_ok :: "('e, 'a) result \<Rightarrow> bool" where
  [simp]: "is_ok r \<longleftrightarrow> (case r of Inl _ \<Rightarrow> False | Inr _ \<Rightarrow> True)"

section \<open>Positions in duplicate-free lists\<close>

text \<open>
  \<open>before xs a b\<close>: some occurrence of a stands in front of some occurrence of b. Start-up and
  shutdown orders are stated with it.
\<close>

definition before :: "'a list \<Rightarrow> 'a \<Rightarrow> 'a \<Rightarrow> bool" where
  "before xs a b \<longleftrightarrow> (\<exists>us vs. xs = us @ b # vs \<and> a \<in> set us)"

lemma before_append_left: "before xs a b \<Longrightarrow> before (xs @ ys) a b"
  by (fastforce simp: before_def)

lemma before_append_right: "before ys a b \<Longrightarrow> before (xs @ ys) a b"
  unfolding before_def by (metis append.assoc Un_iff set_append)

lemma before_snoc: "a \<in> set xs \<Longrightarrow> before (xs @ [b]) a b"
  by (auto simp: before_def)

lemma before_mem: "before xs a b \<Longrightarrow> a \<in> set xs \<and> b \<in> set xs"
  by (auto simp: before_def)

lemma before_Nil [simp]: "\<not> before [] a b"
  by (simp add: before_def)

lemma before_Cons [simp]: "before (x # xs) a b \<longleftrightarrow> (x = a \<and> b \<in> set xs) \<or> before xs a b"
proof
  assume "before (x # xs) a b"
  then obtain us vs where "x # xs = us @ b # vs" and "a \<in> set us"
    by (auto simp: before_def)
  then show "(x = a \<and> b \<in> set xs) \<or> before xs a b"
    by (cases us) (auto simp: before_def)
next
  assume "(x = a \<and> b \<in> set xs) \<or> before xs a b"
  then show "before (x # xs) a b"
  proof
    assume "x = a \<and> b \<in> set xs"
    then obtain us vs where "xs = us @ b # vs" by (auto dest: split_list)
    with \<open>x = a \<and> b \<in> set xs\<close> have "x # xs = (x # us) @ b # vs \<and> a \<in> set (x # us)" by simp
    then show ?thesis unfolding before_def by blast
  next
    assume "before xs a b"
    then show ?thesis using before_append_right [of xs a b "[x]"] by simp
  qed
qed

lemma before_rev: "distinct xs \<Longrightarrow> before (rev xs) a b = before xs b a"
proof (induction xs)
  case Nil
  then show ?case by simp
next
  case (Cons x xs)
  have "before (rev xs @ [x]) a b \<longleftrightarrow> before (rev xs) a b \<or> (a \<in> set xs \<and> b = x)"
  proof
    assume "before (rev xs @ [x]) a b"
    then obtain us vs where *: "rev xs @ [x] = us @ b # vs" "a \<in> set us"
      by (auto simp: before_def)
    show "before (rev xs) a b \<or> (a \<in> set xs \<and> b = x)"
    proof (cases vs rule: rev_cases)
      case Nil
      with * show ?thesis by (metis append1_eq_conv set_rev)
    next
      case (snoc ws w)
      with * have "rev xs = us @ b # ws" by simp
      with * show ?thesis by (auto simp: before_def)
    qed
  next
    assume "before (rev xs) a b \<or> (a \<in> set xs \<and> b = x)"
    then show "before (rev xs @ [x]) a b"
      using before_append_left before_snoc [of a "rev xs"] by auto
  qed
  with Cons show ?case by auto
qed

section \<open>Association lists\<close>

lemma map_fst_update:
  "map fst (AList.update k v ps) = (if k \<in> fst ` set ps then map fst ps else map fst ps @ [k])"
  by (induction ps) auto

lemma filter_neq_remove1:
  "distinct xs \<Longrightarrow> filter (\<lambda>y. y \<noteq> x) xs = remove1 x xs"
  by (induction xs) (auto intro: filter_True)

lemma distinct_map_filter: "distinct (map f xs) \<Longrightarrow> distinct (map f (filter P xs))"
  by (induction xs) auto

end
