(* ===== verification/Ordered_Map.thy ===== *)
theory Ordered_Map
  imports Gas_Prelude
begin

text \<open>
  internal/ordered_map.go: a map that iterates in insertion order. The struct holds a Go map
  and the slice of its keys; the invariant \<open>om_inv\<close> says the slice lists every key once. The
  abstraction \<open>om_all\<close> (what All yields) is an association list, and Set and Remove refine the
  library's update and delete on it. The locale \<open>keyed_seq\<close> is the interface the service
  container relies on.
\<close>

record ('k, 'v) omap =
  om_m :: "'k \<rightharpoonup> 'v"
  om_keys :: "'k list"

definition om_empty :: "('k, 'v) omap" where
  "om_empty = \<lparr>om_m = Map.empty, om_keys = []\<rparr>"

definition om_len :: "('k, 'v) omap \<Rightarrow> nat" where
  "om_len m = card (dom (om_m m))"

definition om_has :: "('k, 'v) omap \<Rightarrow> 'k \<Rightarrow> bool" where
  "om_has m k \<longleftrightarrow> om_m m k \<noteq> None"

definition om_get :: "('k, 'v) omap \<Rightarrow> 'k \<Rightarrow> 'v option" where
  "om_get m k = om_m m k"

definition om_set :: "'k \<Rightarrow> 'v \<Rightarrow> ('k, 'v) omap \<Rightarrow> ('k, 'v) omap" where
  "om_set k v m =
     (let m' = (if om_m m k = None then m\<lparr>om_keys := om_keys m @ [k]\<rparr> else m)
      in m'\<lparr>om_m := (om_m m')(k \<mapsto> v)\<rparr>)"

text \<open>Remove deletes the first index slices.Index finds, which is \<open>remove1\<close>.\<close>

definition om_remove :: "'k \<Rightarrow> ('k, 'v) omap \<Rightarrow> ('k, 'v) omap" where
  "om_remove k m =
     (if om_m m k = None then m
      else m\<lparr>om_m := (om_m m)(k := None), om_keys := remove1 k (om_keys m)\<rparr>)"

text \<open>
  The iterators call the loop body (yield) until it returns false; the body is a function on
  the loop's own state. A full range over All is the list \<open>om_all\<close>.
\<close>

fun om_iter :: "('x \<Rightarrow> 's \<Rightarrow> bool \<times> 's) \<Rightarrow> 'x list \<Rightarrow> 's \<Rightarrow> 's" where
  "om_iter body [] s = s"
| "om_iter body (x # xs) s =
     (case body x s of (go, s') \<Rightarrow> if go then om_iter body xs s' else s')"

definition om_all :: "('k, 'v) omap \<Rightarrow> ('k \<times> 'v) list" where
  "om_all m = map (\<lambda>k. (k, the (om_m m k))) (om_keys m)"

definition om_values :: "('k, 'v) omap \<Rightarrow> 'v list" where
  "om_values m = map (\<lambda>k. the (om_m m k)) (om_keys m)"

definition om_clone :: "('k, 'v) omap \<Rightarrow> ('k, 'v) omap" where
  "om_clone m = \<lparr>om_m = om_m m, om_keys = om_keys m\<rparr>"

definition om_inv :: "('k, 'v) omap \<Rightarrow> bool" where
  "om_inv m \<longleftrightarrow> distinct (om_keys m) \<and> set (om_keys m) = dom (om_m m)"

lemmas om_defs = om_len_def om_has_def om_get_def om_set_def om_remove_def om_all_def
  om_values_def om_empty_def om_clone_def

section \<open>The invariant and the basic laws\<close>

lemma om_inv_empty [simp, gas_inv]: "om_inv om_empty"
  by (simp add: om_inv_def om_empty_def)

lemma om_inv_set [gas_inv]: "om_inv m \<Longrightarrow> om_inv (om_set k v m)"
  by (auto simp: om_inv_def om_set_def)

lemma om_inv_remove [gas_inv]: "om_inv m \<Longrightarrow> om_inv (om_remove k m)"
  by (auto simp: om_inv_def om_remove_def)

lemma om_get_empty [simp]: "om_get om_empty k = None"
  by (simp add: om_defs)

lemma om_get_set [simp]: "om_get (om_set k v m) k' = (if k' = k then Some v else om_get m k')"
  by (simp add: om_defs)

lemma om_get_remove [simp]: "om_get (om_remove k m) k' = (if k' = k then None else om_get m k')"
  by (simp add: om_defs)

lemma om_keys_empty [simp]: "om_keys om_empty = []"
  by (simp add: om_defs)

lemma om_keys_set:
  "om_keys (om_set k v m) = (if om_get m k = None then om_keys m @ [k] else om_keys m)"
  by (simp add: om_defs)

lemma om_keys_remove: "om_inv m \<Longrightarrow> om_keys (om_remove k m) = remove1 k (om_keys m)"
  by (cases "k \<in> set (om_keys m)") (auto simp: om_inv_def om_remove_def remove1_idem)

lemma om_has_iff [simp]: "om_has m k \<longleftrightarrow> om_get m k \<noteq> None"
  by (simp add: om_defs)

lemma om_clone_id [simp]: "om_clone m = m"
  by (simp add: om_clone_def)

lemma om_keys_iff: "om_inv m \<Longrightarrow> k \<in> set (om_keys m) \<longleftrightarrow> om_get m k \<noteq> None"
  by (auto simp: om_inv_def om_get_def)

lemma om_distinct_keys: "om_inv m \<Longrightarrow> distinct (om_keys m)"
  by (simp add: om_inv_def)

lemma om_len_keys: "om_inv m \<Longrightarrow> om_len m = length (om_keys m)"
  by (metis om_inv_def om_len_def distinct_card)

lemma om_keys_all: "map fst (om_all m) = om_keys m"
  by (simp add: om_all_def comp_def)

lemma om_values_all: "om_values m = map snd (om_all m)"
  by (simp add: om_values_def om_all_def)

lemma om_all_mem: "om_inv m \<Longrightarrow> (k, v) \<in> set (om_all m) \<longleftrightarrow> om_get m k = Some v"
  by (auto simp: om_inv_def om_all_def om_get_def image_iff)

lemma om_map_of_all: "om_inv m \<Longrightarrow> map_of (om_all m) = om_get m"
proof
  fix k
  assume inv: "om_inv m"
  then have d: "distinct (map fst (om_all m))"
    by (simp add: om_keys_all om_distinct_keys)
  show "map_of (om_all m) k = om_get m k"
  proof (cases "om_get m k")
    case None
    with inv have "k \<notin> fst ` set (om_all m)" by (auto simp: om_all_mem)
    with None show ?thesis by (simp add: map_of_eq_None_iff)
  next
    case (Some v)
    with inv d show ?thesis by (simp add: om_all_mem map_of_eq_Some_iff)
  qed
qed

text \<open>A full range runs the body on every entry; a body that stops sees a prefix.\<close>

lemma om_iter_full: "(\<And>x s. fst (body x s)) \<Longrightarrow>
  om_iter body xs s = fold (\<lambda>x s. snd (body x s)) xs s"
  by (induction xs arbitrary: s) (auto simp: case_prod_beta)

section \<open>Refinement to association lists\<close>

lemma update_map_absent:
  "k \<notin> set ks \<Longrightarrow> AList.update k v (map (\<lambda>k'. (k', f k')) ks) = map (\<lambda>k'. (k', f k')) ks @ [(k, v)]"
  by (induction ks) auto

lemma update_map_present:
  "k \<in> set ks \<Longrightarrow> distinct ks \<Longrightarrow>
     AList.update k v (map (\<lambda>k'. (k', f k')) ks) = map (\<lambda>k'. (k', if k' = k then v else f k')) ks"
proof (induction ks)
  case Nil
  then show ?case by simp
next
  case (Cons a ks)
  then show ?case by (cases "a = k") (auto intro!: map_cong)
qed

lemma om_all_set: "om_inv m \<Longrightarrow> om_all (om_set k v m) = AList.update k v (om_all m)"
proof (cases "om_m m k")
  case None
  assume inv: "om_inv m"
  with None have "k \<notin> set (om_keys m)" by (auto simp: om_inv_def)
  with None show ?thesis
    by (auto simp: om_all_def om_set_def update_map_absent intro!: map_cong)
next
  case (Some w)
  assume inv: "om_inv m"
  with Some have "k \<in> set (om_keys m)" "distinct (om_keys m)" by (auto simp: om_inv_def)
  with Some show ?thesis
    by (auto simp: om_all_def om_set_def update_map_present intro!: map_cong)
qed

lemma om_all_remove: "om_inv m \<Longrightarrow> om_all (om_remove k m) = AList.delete k (om_all m)"
proof (cases "om_m m k")
  case None
  assume inv: "om_inv m"
  with None have "k \<notin> set (om_keys m)" by (auto simp: om_inv_def)
  with None show ?thesis
    by (simp add: om_all_def om_remove_def image_iff AList.delete_idem)
next
  case (Some w)
  assume inv: "om_inv m"
  have "AList.delete k (om_all m) = map (\<lambda>k'. (k', the (om_m m k'))) (filter (\<lambda>k'. k' \<noteq> k) (om_keys m))"
    by (simp add: om_all_def AList.delete_eq filter_map comp_def eq_commute [of k])
  with Some inv show ?thesis
    by (auto simp: om_all_def om_remove_def om_inv_def filter_neq_remove1 intro!: map_cong)
qed

section \<open>The interface the container uses\<close>

text \<open>
  What a client of the ordered map may rely on, over any implementation. The facts proved in
  the locale are about replaying registrations: the order of the keys is the order of their
  first Set, and the last Set of a key decides its value.
\<close>

locale keyed_seq =
  fixes empty :: "'m" and get :: "'m \<Rightarrow> 'k \<Rightarrow> 'v option"
    and put :: "'k \<Rightarrow> 'v \<Rightarrow> 'm \<Rightarrow> 'm" and keys :: "'m \<Rightarrow> 'k list" and inv :: "'m \<Rightarrow> bool"
  assumes get_empty: "get empty k = None"
    and get_put: "inv m \<Longrightarrow> get (put k v m) k' = (if k' = k then Some v else get m k')"
    and keys_empty: "keys empty = []"
    and keys_put: "inv m \<Longrightarrow> keys (put k v m) = (if get m k = None then keys m @ [k] else keys m)"
    and keys_get: "inv m \<Longrightarrow> k \<in> set (keys m) \<longleftrightarrow> get m k \<noteq> None"
    and inv_empty: "inv empty"
    and inv_put: "inv m \<Longrightarrow> inv (put k v m)"
begin

lemma inv_fold: "inv m \<Longrightarrow> inv (fold (\<lambda>(k, v). put k v) ps m)"
  by (induction ps arbitrary: m) (auto simp: inv_put)

lemma get_fold:
  "inv m \<Longrightarrow> get (fold (\<lambda>(k, v). put k v) ps m) k =
     (case map_of (rev ps) k of None \<Rightarrow> get m k | Some v \<Rightarrow> Some v)"
proof (induction ps arbitrary: m)
  case Nil
  then show ?case by simp
next
  case (Cons p ps)
  obtain a b where p: "p = (a, b)" by fastforce
  from Cons.prems have "inv (put a b m)" by (rule inv_put)
  with Cons.IH [of "put a b m"] Cons.prems show ?case
    by (auto simp: p get_put map_add_def split: option.splits)
qed

lemma keys_prefix: "inv m \<Longrightarrow> \<exists>ks. keys (fold (\<lambda>(k, v). put k v) ps m) = keys m @ ks"
proof (induction ps arbitrary: m)
  case Nil
  then show ?case by simp
next
  case (Cons p ps)
  obtain a b where p: "p = (a, b)" by fastforce
  from Cons.IH [of "put a b m"] Cons.prems obtain ks
    where "keys (fold (\<lambda>(k, v). put k v) ps (put a b m)) = keys (put a b m) @ ks"
    by (auto simp: inv_put)
  with Cons.prems show ?case by (auto simp: p keys_put split: if_splits)
qed

lemma distinct_keys_fold:
  "inv m \<Longrightarrow> distinct (keys m) \<Longrightarrow> distinct (keys (fold (\<lambda>(k, v). put k v) ps m))"
  by (induction ps arbitrary: m) (auto simp: inv_put keys_put keys_get)

lemma put_keeps_position: "inv m \<Longrightarrow> before (keys m) a b \<Longrightarrow> before (keys (put k v m)) a b"
  by (auto simp: keys_put before_append_left)

end

interpretation om: keyed_seq om_empty om_get om_set om_keys om_inv
  by unfold_locales (auto simp: om_keys_set om_inv_set om_keys_iff)

end
