(* ===== verification/Di_Container.thy ===== *)
theory Di_Container
  imports Ordered_Map
begin

text \<open>
  The dependency injection container: service_registry.go, di_errors.go and the cycle guard of
  di_guard.go. Types are their names. What reflect says about a type, and what the user's
  constructors, Init and Close do, are parameters (\<open>world\<close>, and the constructor stored in a
  registration); the container's own decisions are the definitions. A goroutine's stack of
  constructors under way (c.stacks) is an argument of the resolution functions: leaveBuild is
  deferred right after enterBuild, so every call leaves the stack as it found it.
\<close>

type_synonym rtype = string

datatype lifetime = Singleton | Scoped | Transient | UnknownLifetime nat

text \<open>ServiceLifetime.String\<close>

fun lifetime_string :: "lifetime \<Rightarrow> string" where
  "lifetime_string Singleton = ''singleton''"
| "lifetime_string Scoped = ''scoped''"
| "lifetime_string Transient = ''transient''"
| "lifetime_string (UnknownLifetime _) = ''unknown''"

text \<open>
  A reflect.Value as the container sees it: the zero Value, a nil interface, or an object with
  its dynamic type and an identity.
\<close>

datatype rvalue = Invalid | NilIface | Obj (dyn_type: rtype) (oid: nat)

text \<open>
  The errors of the container, one constructor per message, with the data the message shows.
  \<open>UserErr\<close> is an error of a constructor, Init or Close; its flag says whether it wraps
  context.DeadlineExceeded.
\<close>

datatype gerr =
    NotRegistered rtype
  | NotRegisteredAlias rtype rtype
  | Circular "rtype list"
  | CircularSelf rtype
  | CircularWait rtype
  | TooDeep rtype
  | CircularTopo
  | Captive lifetime rtype rtype
  | ScopeRequired rtype
  | NoConstructor rtype
  | InvalidLifetime rtype
  | PointerShape rtype
  | InvalidShape rtype "string list" "string list"
  | UserErr string bool
  | DeadlineExceeded
  | Building rtype gerr
  | ResolvingDep rtype rtype gerr
  | InitFailed rtype gerr
  | InitNegative rtype int
  | InitTimedOut rtype int "gerr list"
  | CloseLate rtype gerr
  | CloseFailed string gerr
  | Joined "gerr list"
  | WrongType rtype
  | PanicZeroValue rtype

datatype sentinel =
    ErrNotRegistered | ErrCircularDependency | ErrCaptiveDependency | ErrScopeRequired
  | ErrNoConstructor | ErrInvalidLifetime | ErrInvalidServiceShape | ErrDeadlineExceeded

text \<open>errors.Is along Unwrap: diError.Unwrap yields the sentinel, fmt.Errorf wraps with w verbs.\<close>

fun err_is :: "gerr \<Rightarrow> sentinel \<Rightarrow> bool" where
  "err_is (NotRegistered _) x = (x = ErrNotRegistered)"
| "err_is (NotRegisteredAlias _ _) x = (x = ErrNotRegistered)"
| "err_is (Circular _) x = (x = ErrCircularDependency)"
| "err_is (CircularSelf _) x = (x = ErrCircularDependency)"
| "err_is (CircularWait _) x = (x = ErrCircularDependency)"
| "err_is (TooDeep _) x = (x = ErrCircularDependency)"
| "err_is CircularTopo x = (x = ErrCircularDependency)"
| "err_is (Captive _ _ _) x = (x = ErrCaptiveDependency)"
| "err_is (ScopeRequired _) x = (x = ErrScopeRequired)"
| "err_is (NoConstructor _) x = (x = ErrNoConstructor)"
| "err_is (InvalidLifetime _) x = (x = ErrInvalidLifetime)"
| "err_is (PointerShape _) x = (x = ErrInvalidServiceShape)"
| "err_is (InvalidShape _ _ _) x = (x = ErrInvalidServiceShape)"
| "err_is (UserErr _ d) x = (d \<and> x = ErrDeadlineExceeded)"
| "err_is DeadlineExceeded x = (x = ErrDeadlineExceeded)"
| "err_is (Building _ e) x = err_is e x"
| "err_is (ResolvingDep _ _ e) x = err_is e x"
| "err_is (InitFailed _ e) x = err_is e x"
| "err_is (InitNegative _ _) x = False"
| "err_is (InitTimedOut _ _ es) x = (\<exists>e\<in>set es. err_is e x)"
| "err_is (CloseLate _ e) x = err_is e x"
| "err_is (CloseFailed _ e) x = err_is e x"
| "err_is (Joined es) x = (\<exists>e\<in>set es. err_is e x)"
| "err_is (WrongType _) x = False"
| "err_is (PanicZeroValue _) x = False"

section \<open>What reflect and user code supply\<close>

text \<open>
  One run of a service's Init as initService observes it: the InitTimeout the service declares,
  the error Init returned, whether the caller's context had ended, and whether the added
  deadline had passed when Init returned. \<open>w_close\<close> is what the service's Close returns.
\<close>

record init_run =
  ir_timeout :: "int option"
  ir_err :: "gerr option"
  ir_ctx_done :: bool
  ir_deadline :: bool

record world =
  w_implements :: "rtype \<Rightarrow> rtype \<Rightarrow> bool"
  w_assignable :: "rtype \<Rightarrow> rtype \<Rightarrow> bool"
  w_iface :: "rtype \<Rightarrow> bool"
  w_pointer :: "rtype \<Rightarrow> bool"
  w_ptr_to :: "rtype \<Rightarrow> rtype"
  w_method :: "rtype \<Rightarrow> string \<Rightarrow> (rtype list \<times> rtype list) option"
  w_init :: "rvalue \<Rightarrow> init_run"
  w_close :: "rvalue \<Rightarrow> gerr option"
  w_timeout :: int

definition service_type :: rtype where "service_type = ''gas.Service''"
definition error_type :: rtype where "error_type = ''error''"

text \<open>v.Interface().(Service): panics on the zero Value, false on a nil interface.\<close>

fun as_service :: "world \<Rightarrow> rvalue \<Rightarrow> bool" where
  "as_service w (Obj d _) = w_implements w d service_type"
| "as_service w _ = False"

section \<open>Constructors and registrations\<close>

text \<open>
  A constructor as RegisterService is given it: the shape reflect reports (\<open>None\<close> for a value
  that is no function) and the call.
\<close>

record ctor =
  ct_func :: bool
  ct_variadic :: bool
  ct_ins :: "rtype list"
  ct_outs :: "rtype list"
  ct_call :: "rvalue list \<Rightarrow> (gerr, rvalue) result"

record registration =
  reg_ctor :: ctor
  reg_lifetime :: lifetime

datatype ctor_panic =
    NotAFunction | Variadic | BadNumOut nat | BadResult rtype | BadSecondResult rtype

text \<open>validateCtorShape: \<open>None\<close> when the container can call the constructor.\<close>

definition validate_ctor_shape :: "world \<Rightarrow> rtype \<Rightarrow> ctor \<Rightarrow> ctor_panic option" where
  "validate_ctor_shape w t c =
     (if \<not> ct_func c then Some NotAFunction
      else if ct_variadic c then Some Variadic
      else if length (ct_outs c) \<noteq> 1 \<and> length (ct_outs c) \<noteq> 2 then Some (BadNumOut (length (ct_outs c)))
      else if \<not> (w_assignable w (ct_outs c ! 0) t \<or> (w_iface w t \<and> w_implements w (ct_outs c ! 0) t))
        then Some (BadResult (ct_outs c ! 0))
      else if length (ct_outs c) = 2 \<and> \<not> w_implements w (ct_outs c ! 1) error_type
        then Some (BadSecondResult (ct_outs c ! 1))
      else None)"

section \<open>The container\<close>

datatype di_event = EvCtor rtype | EvInit rtype rvalue bool | EvClose rvalue

text \<open>
  ServiceContainer, with the state of the Scope in use (resolved, order) beside it. \<open>building\<close>
  holds the singletons under construction on this goroutine (c.builds); \<open>evs\<close> records the
  calls into user code, newest last, an Init with whether initService accepted it.
\<close>

record di =
  registrations :: "(rtype, registration) omap"
  instances :: "(rtype, rvalue) omap"
  inited :: "rtype set"
  aliases :: "(rtype, rtype) omap"
  building :: "rtype set"
  resolved :: "rtype \<rightharpoonup> rvalue"
  sorder :: "rtype list"
  evs :: "di_event list"

definition new_container :: di where
  "new_container = \<lparr>registrations = om_empty, instances = om_empty, inited = {},
     aliases = om_empty, building = {}, resolved = Map.empty, sorder = [], evs = []\<rparr>"

definition new_scope :: "di \<Rightarrow> di" where
  "new_scope s = s\<lparr>resolved := Map.empty, sorder := []\<rparr>"

definition alias_target :: "di \<Rightarrow> rtype \<Rightarrow> rtype" where
  "alias_target s t = (case om_get (aliases s) t of Some t' \<Rightarrow> t' | None \<Rightarrow> t)"

datatype reg_panic =
    CtorPanic ctor_panic | TransientService | RegisteredAsAlias
  | AliasNotInterface | AliasOwnTarget | TargetLacksAlias
  | AliasIsService | TargetIsAlias | AliasIsTarget rtype

definition register_service ::
  "world \<Rightarrow> rtype \<Rightarrow> ctor \<Rightarrow> lifetime \<Rightarrow> di \<Rightarrow> (reg_panic, di) result" where
  "register_service w t c l s =
     (case validate_ctor_shape w t c of
        Some p \<Rightarrow> Inl (CtorPanic p)
      | None \<Rightarrow>
          if l = Transient \<and>
             (w_implements w t service_type \<or> (w_pointer w t \<and> w_implements w t service_type))
          then Inl TransientService
          else if om_has (aliases s) t then Inl RegisteredAsAlias
          else Inr (s\<lparr>registrations :=
                        om_set t \<lparr>reg_ctor = c, reg_lifetime = l\<rparr> (registrations s)\<rparr>))"

definition set_instance :: "rtype \<Rightarrow> rvalue \<Rightarrow> di \<Rightarrow> (bool \<times> di)" where
  "set_instance t v s =
     (if om_has (aliases s) t then (False, s)
      else (True, s\<lparr>instances := om_set t v (instances s)\<rparr>))"

definition register_instance :: "rtype \<Rightarrow> rvalue \<Rightarrow> di \<Rightarrow> (reg_panic, di) result" where
  "register_instance t v s =
     (case set_instance t v s of
        (False, _) \<Rightarrow> Inl RegisteredAsAlias
      | (True, s') \<Rightarrow> Inr s')"

definition validate_alias :: "world \<Rightarrow> rtype \<Rightarrow> rtype \<Rightarrow> reg_panic option" where
  "validate_alias w t a =
     (if \<not> w_iface w a then Some AliasNotInterface
      else if t = a then Some AliasOwnTarget
      else if \<not> w_implements w t a then Some TargetLacksAlias
      else None)"

definition check_alias :: "rtype \<Rightarrow> rtype \<Rightarrow> di \<Rightarrow> reg_panic option" where
  "check_alias t a s =
     (if om_has (registrations s) a \<or> om_has (instances s) a then Some AliasIsService
      else if om_has (aliases s) t then Some TargetIsAlias
      else (case List.find (\<lambda>(other, target). target = a) (om_all (aliases s)) of
              Some (other, _) \<Rightarrow> Some (AliasIsTarget other)
            | None \<Rightarrow> None))"

definition register_alias :: "world \<Rightarrow> rtype \<Rightarrow> rtype \<Rightarrow> di \<Rightarrow> (reg_panic, di) result" where
  "register_alias w t a s =
     (case validate_alias w t a of
        Some p \<Rightarrow> Inl p
      | None \<Rightarrow> (case check_alias t a s of
                   Some p \<Rightarrow> Inl p
                 | None \<Rightarrow> Inr (s\<lparr>aliases := om_set a t (aliases s)\<rparr>)))"

section \<open>Service shapes\<close>

text \<open>concreteType: the dynamic type behind a value, nil (\<open>None\<close>) for the zero Value and nil.\<close>

fun concrete_type :: "rvalue \<Rightarrow> rtype option" where
  "concrete_type (Obj d _) = Some d"
| "concrete_type _ = None"

definition declared_lifecycle_methods :: "world \<Rightarrow> rtype \<Rightarrow> string list" where
  "declared_lifecycle_methods w t = filter (\<lambda>n. w_method w t n \<noteq> None) [''Init'', ''Close'']"

text \<open>
  serviceMethodProblem: does the method exist with exactly these parameters and result? The
  method type of a concrete type carries the receiver as its first parameter.
\<close>

definition service_method_ok :: "world \<Rightarrow> rtype \<Rightarrow> string \<Rightarrow> rtype list \<Rightarrow> rtype \<Rightarrow> bool" where
  "service_method_ok w t name ins out =
     (case w_method w t name of
        None \<Rightarrow> False
      | Some (mins, mouts) \<Rightarrow>
          (let fst_ix = (if w_iface w t then 0 else 1)
           in length mins - fst_ix = length ins \<and> fst_ix \<le> length mins \<and>
              mouts = [out] \<and> drop fst_ix mins = ins))"

definition service_problems :: "world \<Rightarrow> rtype \<Rightarrow> string list" where
  "service_problems w t =
     map (\<lambda>(n, _, _). n)
       (filter (\<lambda>(n, ins, out). \<not> service_method_ok w t n ins out)
          [(''Name'', [], ''string''), (''Init'', [''context.Context''], ''error''),
           (''Close'', [''context.Context''], ''error'')])"

definition validate_service_shape :: "world \<Rightarrow> rtype option \<Rightarrow> gerr option" where
  "validate_service_shape w ot =
     (case ot of
        None \<Rightarrow> None
      | Some t \<Rightarrow>
          if w_implements w t service_type then None
          else if \<not> w_pointer w t \<and> \<not> w_iface w t \<and> w_implements w (w_ptr_to w t) service_type
            then Some (PointerShape t)
          else if declared_lifecycle_methods w t = [] then None
          else Some (InvalidShape t (declared_lifecycle_methods w t) (service_problems w t)))"

section \<open>Init under its deadline\<close>

text \<open>
  initService. The result says whether Init ran and whether the service was closed again, as
  the events it logs. An InitTimeout below zero fails before Init runs.
\<close>

definition init_service ::
  "world \<Rightarrow> rtype \<Rightarrow> rvalue \<Rightarrow> di \<Rightarrow> (gerr option \<times> di)" where
  "init_service w t v s =
     (let run = w_init w v;
          timeout = (case ir_timeout run of Some d \<Rightarrow> d | None \<Rightarrow> w_timeout w)
      in if ir_timeout run \<noteq> None \<and> timeout < 0 then (Some (InitNegative t timeout), s)
         else if ir_ctx_done run \<or> \<not> (timeout > 0 \<and> ir_deadline run) then
           (case ir_err run of
              Some e \<Rightarrow> (Some (InitFailed t e), s\<lparr>evs := evs s @ [EvInit t v False]\<rparr>)
            | None \<Rightarrow> (None, s\<lparr>evs := evs s @ [EvInit t v True]\<rparr>))
         else
           (case ir_err run of
              Some e \<Rightarrow>
                (Some (if err_is e ErrDeadlineExceeded then InitTimedOut t timeout [e]
                       else InitTimedOut t timeout [DeadlineExceeded, e]),
                 s\<lparr>evs := evs s @ [EvInit t v False]\<rparr>)
            | None \<Rightarrow>
                (let timeout_err = InitTimedOut t timeout [DeadlineExceeded]
                 in (Some (case w_close w v of
                             Some ce \<Rightarrow> Joined [timeout_err, CloseLate t ce]
                           | None \<Rightarrow> timeout_err),
                     s\<lparr>evs := evs s @ [EvInit t v False, EvClose v]\<rparr>))))"

definition init_instance ::
  "world \<Rightarrow> rtype \<Rightarrow> rvalue \<Rightarrow> di \<Rightarrow> (gerr, rvalue) result \<times> di" where
  "init_instance w t v s =
     (case validate_service_shape w (concrete_type v) of
        Some e \<Rightarrow> (Inl e, s)
      | None \<Rightarrow>
          if \<not> as_service w v then (Inr v, s)
          else (case init_service w t v s of
                  (Some e, s') \<Rightarrow> (Inl e, s')
                | (None, s') \<Rightarrow> (Inr v, s')))"

section \<open>The cycle guard\<close>

definition max_resolve_depth :: nat where
  "max_resolve_depth = 256"

text \<open>cycleIn: the types from the first occurrence on, and t again.\<close>

fun cycle_in :: "rtype list \<Rightarrow> rtype \<Rightarrow> gerr option" where
  "cycle_in [] t = None"
| "cycle_in (x # stk) t = (if x = t then Some (Circular ((x # stk) @ [t])) else cycle_in stk t)"

definition enter_build :: "rtype list \<Rightarrow> rtype \<Rightarrow> (gerr, rtype list) result" where
  "enter_build stk t =
     (case cycle_in stk t of
        Some e \<Rightarrow> Inl e
      | None \<Rightarrow> if length stk \<ge> max_resolve_depth then Inl (TooDeep t) else Inr (stk @ [t]))"

lemma cycle_in_iff: "cycle_in stk t \<noteq> None \<longleftrightarrow> t \<in> set stk"
  by (induction stk) auto

lemma enter_build_Inr:
  "enter_build stk t = Inr stk' \<Longrightarrow>
     stk' = stk @ [t] \<and> t \<notin> set stk \<and> length stk < max_resolve_depth"
  using cycle_in_iff [of stk t]
  by (auto simp: enter_build_def split: option.splits if_splits)

section \<open>Resolution\<close>

datatype resolver = FromContainer | FromScope

definition not_registered :: "rtype \<Rightarrow> rtype \<Rightarrow> gerr" where
  "not_registered asked t =
     (if asked \<noteq> t then NotRegisteredAlias t asked else NotRegistered t)"

text \<open>
  resolveType of the container and of the scope, resolveSingleton, invoke and resolveCtorArgs.
  The guard bounds the nesting, so the functions are total: each constructor call pushes on the
  stack, and the stack never exceeds \<open>max_resolve_depth\<close>.
\<close>

function resolve_type ::
    "world \<Rightarrow> resolver \<Rightarrow> rtype list \<Rightarrow> rtype \<Rightarrow> di \<Rightarrow> (gerr, rvalue) result \<times> di"
  and resolve_singleton ::
    "world \<Rightarrow> rtype list \<Rightarrow> rtype \<Rightarrow> di \<Rightarrow> (gerr, rvalue) result \<times> di"
  and invoke ::
    "world \<Rightarrow> resolver \<Rightarrow> rtype list \<Rightarrow> rtype \<Rightarrow> di \<Rightarrow> (gerr, rvalue) result \<times> di"
  and resolve_ctor_args ::
    "world \<Rightarrow> resolver \<Rightarrow> rtype list \<Rightarrow> rtype \<Rightarrow> rtype list \<Rightarrow> di \<Rightarrow>
       (gerr, rvalue list) result \<times> di"
where
  "resolve_type w r stk t s =
     (let t' = alias_target s t in
      case (if r = FromScope then resolved s t' else None) of
        Some v \<Rightarrow> (Inr v, s)
      | None \<Rightarrow>
          (case om_get (instances s) t' of
             Some v \<Rightarrow> (Inr v, s)
           | None \<Rightarrow>
               (case om_get (registrations s) t' of
                  None \<Rightarrow> (Inl (not_registered t t'), s)
                | Some reg \<Rightarrow>
                    (case reg_lifetime reg of
                       Singleton \<Rightarrow>
                         (if r = FromScope then resolve_type w FromContainer stk t' s
                          else resolve_singleton w stk t' s)
                     | Transient \<Rightarrow> invoke w r stk t' s
                     | Scoped \<Rightarrow>
                         (if r = FromContainer then (Inl (ScopeRequired t'), s)
                          else (case invoke w r stk t' s of
                                  (Inl e, s') \<Rightarrow> (Inl e, s')
                                | (Inr v, s') \<Rightarrow>
                                    (Inr v, s'\<lparr>resolved := (resolved s')(t' \<mapsto> v),
                                                sorder := sorder s' @ [t']\<rparr>)))
                     | UnknownLifetime n \<Rightarrow> (Inl (InvalidLifetime t'), s)))))"
| "resolve_singleton w stk t s =
     (case om_get (instances s) t of
        Some v \<Rightarrow> (Inr v, s)
      | None \<Rightarrow>
          (if t \<in> building s then
             (Inl (case cycle_in stk t of Some e \<Rightarrow> e | None \<Rightarrow> CircularSelf t), s)
           else
             (case invoke w FromContainer stk t (s\<lparr>building := insert t (building s)\<rparr>) of
                (Inl e, s1) \<Rightarrow> (Inl e, s1\<lparr>building := building s1 - {t}\<rparr>)
              | (Inr v, s1) \<Rightarrow>
                  (Inr v, s1\<lparr>instances := om_set t v (instances s1),
                              building := building s1 - {t}\<rparr>))))"
| "invoke w r stk t s =
     (case om_get (registrations s) t of
        None \<Rightarrow> (Inl (NoConstructor t), s)
      | Some reg \<Rightarrow>
          (case enter_build stk t of
             Inl e \<Rightarrow> (Inl e, s)
           | Inr stk' \<Rightarrow>
               (case resolve_ctor_args w r stk' t (ct_ins (reg_ctor reg)) s of
                  (Inl e, s1) \<Rightarrow> (Inl e, s1)
                | (Inr args, s1) \<Rightarrow>
                    (case ct_call (reg_ctor reg) args of
                       Inl e \<Rightarrow> (Inl e, s1\<lparr>evs := evs s1 @ [EvCtor t]\<rparr>)
                     | Inr v \<Rightarrow> init_instance w t v (s1\<lparr>evs := evs s1 @ [EvCtor t]\<rparr>)))))"
| "resolve_ctor_args w r stk t [] s = (Inr [], s)"
| "resolve_ctor_args w r stk t (d # ds) s =
     (case resolve_type w r stk d s of
        (Inl e, s1) \<Rightarrow> (Inl (ResolvingDep d t e), s1)
      | (Inr v, s1) \<Rightarrow>
          (case resolve_ctor_args w r stk t ds s1 of
             (Inl e, s2) \<Rightarrow> (Inl e, s2)
           | (Inr vs, s2) \<Rightarrow> (Inr (v # vs), s2)))"
  by pat_completeness auto
termination
  by (relation "measures
       [\<lambda>x. max_resolve_depth - (case x of
            Inl (Inl (w, r, stk, t, s)) \<Rightarrow> length stk
          | Inl (Inr (w, stk, t, s)) \<Rightarrow> length stk
          | Inr (Inl (w, r, stk, t, s)) \<Rightarrow> length stk
          | Inr (Inr (w, r, stk, t, ds, s)) \<Rightarrow> length stk),
        \<lambda>x. case x of
            Inl (Inl (w, r, stk, t, s)) \<Rightarrow> if r = FromScope then 3 else 2
          | Inl (Inr (w, stk, t, s)) \<Rightarrow> 1
          | Inr (Inl (w, r, stk, t, s)) \<Rightarrow> 0
          | Inr (Inr (w, r, stk, t, ds, s)) \<Rightarrow> 4 + length ds]")
     (auto dest: enter_build_Inr)

declare resolve_type.simps [simp del] resolve_singleton.simps [simp del] invoke.simps [simp del]

end
