(* ===== verification/Di_Resolution.thy ===== *)
theory Di_Resolution
  imports Di_Container
begin

text \<open>
  What resolution does to the container: the invariant \<open>wf_di\<close> of the registries, the frame
  \<open>grows\<close> every resolution stays in (registrations, aliases and cached values never change, new
  instances go to the end), and the order property \<open>deps_first\<close> (a singleton is cached after the
  singletons it was built from). The rest of Scope (Close, replaceScoped) and the typed entry
  points are here too.
\<close>

section \<open>Typed entry points and the scope\<close>

text \<open>resolveFrom: the final type assertion of a resolved value.\<close>

definition is_instance_of :: "world \<Rightarrow> rvalue \<Rightarrow> rtype \<Rightarrow> bool" where
  "is_instance_of w v t =
     (case v of Obj d _ \<Rightarrow> d = t \<or> (w_iface w t \<and> w_implements w d t) | _ \<Rightarrow> False)"

definition resolve_from ::
  "world \<Rightarrow> resolver \<Rightarrow> rtype list \<Rightarrow> rtype \<Rightarrow> di \<Rightarrow> (gerr, rvalue) result \<times> di" where
  "resolve_from w r stk t s =
     (case resolve_type w r stk t s of
        (Inl e, s') \<Rightarrow> (Inl e, s')
      | (Inr v, s') \<Rightarrow> (if is_instance_of w v t then Inr v else Inl (WrongType t), s'))"

definition resolve_built :: "world \<Rightarrow> rtype \<Rightarrow> di \<Rightarrow> rvalue option" where
  "resolve_built w t s =
     (case om_get (instances s) (alias_target s t) of
        None \<Rightarrow> None
      | Some v \<Rightarrow> if is_instance_of w v t then Some v else None)"

definition can_resolve_type :: "rtype \<Rightarrow> di \<Rightarrow> bool" where
  "can_resolve_type t s =
     (let t' = alias_target s t
      in om_get (instances s) t' \<noteq> None \<or> om_get (registrations s) t' \<noteq> None)"

text \<open>Scope.Close: newest first, every Close error kept.\<close>

fun scope_close_loop :: "world \<Rightarrow> rtype list \<Rightarrow> di \<Rightarrow> gerr list \<times> di" where
  "scope_close_loop w [] s = ([], s)"
| "scope_close_loop w (t # ts) s =
     (case resolved s t of
        None \<Rightarrow> scope_close_loop w ts s
      | Some v \<Rightarrow>
          (if as_service w v then
             (case scope_close_loop w ts (s\<lparr>evs := evs s @ [EvClose v]\<rparr>) of
                (es, s') \<Rightarrow> ((case w_close w v of None \<Rightarrow> es | Some e \<Rightarrow> e # es), s'))
           else scope_close_loop w ts s))"

definition scope_close :: "world \<Rightarrow> di \<Rightarrow> gerr list \<times> di" where
  "scope_close w s = scope_close_loop w (rev (sorder s)) s"

definition replace_scoped :: "world \<Rightarrow> rtype \<Rightarrow> rvalue \<Rightarrow> di \<Rightarrow> bool \<times> di" where
  "replace_scoped w t v s =
     (case om_get (registrations s) t of
        None \<Rightarrow> (False, s)
      | Some reg \<Rightarrow>
          if reg_lifetime reg \<noteq> Scoped then (False, s)
          else (case (resolved s t, v) of
                  (Some cur, Obj d _) \<Rightarrow>
                    if \<not> w_assignable w d t then (False, s)
                    else if as_service w cur then (False, s)
                    else (True, s\<lparr>resolved := (resolved s)(t \<mapsto> v)\<rparr>)
                | _ \<Rightarrow> (False, s)))"

section \<open>The registry invariant\<close>

text \<open>An alias is no service, and no alias points at an alias.\<close>

definition wf_di :: "di \<Rightarrow> bool" where
  "wf_di s \<longleftrightarrow>
     om_inv (registrations s) \<and> om_inv (instances s) \<and> om_inv (aliases s) \<and>
     (\<forall>a t. om_get (aliases s) a = Some t \<longrightarrow>
        om_get (registrations s) a = None \<and> om_get (instances s) a = None \<and>
        om_get (aliases s) t = None)"

lemma wf_new_container [simp]: "wf_di new_container"
  by (simp add: wf_di_def new_container_def)

lemma register_service_cases:
  "register_service w t c l s = Inr s' \<Longrightarrow>
     om_get (aliases s) t = None \<and> validate_ctor_shape w t c = None \<and>
     s' = s\<lparr>registrations := om_set t \<lparr>reg_ctor = c, reg_lifetime = l\<rparr> (registrations s)\<rparr>"
  by (auto simp: register_service_def split: option.splits if_splits)

lemma register_instance_cases:
  "register_instance t v s = Inr s' \<Longrightarrow>
     om_get (aliases s) t = None \<and> s' = s\<lparr>instances := om_set t v (instances s)\<rparr>"
  by (auto simp: register_instance_def set_instance_def split: if_splits)

lemma check_alias_None:
  "check_alias t a s = None \<Longrightarrow>
     om_get (registrations s) a = None \<and> om_get (instances s) a = None \<and>
     om_get (aliases s) t = None \<and> (\<forall>p\<in>set (om_all (aliases s)). snd p \<noteq> a)"
  by (auto simp: check_alias_def find_None_iff split: if_splits option.splits prod.splits)

lemma register_alias_cases:
  "register_alias w t a s = Inr s' \<Longrightarrow>
     validate_alias w t a = None \<and> check_alias t a s = None \<and>
     s' = s\<lparr>aliases := om_set a t (aliases s)\<rparr>"
  by (auto simp: register_alias_def split: option.splits)

lemma wf_register_service [gas_inv]:
  "wf_di s \<Longrightarrow> register_service w t c l s = Inr s' \<Longrightarrow> wf_di s'"
  by (auto simp: wf_di_def om_inv_set dest!: register_service_cases)

lemma wf_register_instance [gas_inv]:
  "wf_di s \<Longrightarrow> register_instance t v s = Inr s' \<Longrightarrow> wf_di s'"
  by (auto simp: wf_di_def om_inv_set dest!: register_instance_cases)

lemma wf_register_alias [gas_inv]:
  assumes wf: "wf_di s" and reg: "register_alias w t a s = Inr s'"
  shows "wf_di s'"
proof -
  from reg have v: "t \<noteq> a" and c: "check_alias t a s = None"
    and s': "s' = s\<lparr>aliases := om_set a t (aliases s)\<rparr>"
    by (auto dest!: register_alias_cases simp: validate_alias_def split: if_splits)
  from wf have inv: "om_inv (aliases s)" by (simp add: wf_di_def)
  have tgt: "om_get (aliases s) b = Some u \<Longrightarrow> u \<noteq> a" for b u
    using check_alias_None [OF c] om_all_mem [OF inv, of b u] by fastforce
  show ?thesis
    using wf v check_alias_None [OF c] tgt by (auto simp: wf_di_def s' om_inv_set)
qed

text \<open>Under the invariant one hop reaches the target.\<close>

lemma alias_target_idem: "wf_di s \<Longrightarrow> alias_target s (alias_target s t) = alias_target s t"
  by (auto simp: wf_di_def alias_target_def split: option.splits)

section \<open>The frame of a resolution\<close>

definition grows :: "di \<Rightarrow> di \<Rightarrow> bool" where
  "grows s s' \<longleftrightarrow>
     registrations s' = registrations s \<and> aliases s' = aliases s \<and> inited s' = inited s \<and>
     building s' = building s \<and>
     (om_inv (instances s) \<longrightarrow> om_inv (instances s')) \<and>
     (\<exists>ks. om_keys (instances s') = om_keys (instances s) @ ks) \<and>
     (\<forall>t v. om_get (instances s) t = Some v \<longrightarrow> om_get (instances s') t = Some v) \<and>
     (\<exists>es. evs s' = evs s @ es)"

lemma grows_refl [simp, intro]: "grows s s"
  by (simp add: grows_def)

lemma grows_trans: "grows s s1 \<Longrightarrow> grows s1 s2 \<Longrightarrow> grows s s2"
  unfolding grows_def by (metis append.assoc)

lemma grows_evs [simp]: "grows s (s\<lparr>evs := evs s @ es\<rparr>)"
  by (simp add: grows_def)

lemma grows_scope [simp]: "grows s (s\<lparr>resolved := m, sorder := ts\<rparr>)"
  by (simp add: grows_def)

lemma grows_init_service: "grows s (snd (init_service w t v s))"
  by (auto simp: init_service_def Let_def grows_def split: option.splits)

lemma grows_init_instance: "grows s (snd (init_instance w t v s))"
proof -
  have "grows s s'" if "init_service w t v s = (x, s')" for x s'
    using grows_init_service [of s w t v] that by simp
  then show ?thesis by (auto simp: init_instance_def split: option.splits prod.splits)
qed

lemma init_instance_instances [simp]: "instances (snd (init_instance w t v s)) = instances s"
  by (auto simp: init_instance_def init_service_def Let_def split: option.splits prod.splits)

lemma init_instance_frame:
  "init_instance w t v s = (res, s') \<Longrightarrow>
     instances s' = instances s \<and> registrations s' = registrations s \<and> aliases s' = aliases s \<and>
     building s' = building s \<and> resolved s' = resolved s"
  by (auto simp: init_instance_def init_service_def Let_def
           split: option.splits prod.splits if_splits)

section \<open>Reasoning about resolutions\<close>

text \<open>
  The branches of the four functions as elimination rules, and one induction rule over them:
  a case per way a resolution can end.
\<close>

definition scope_lookup :: "resolver \<Rightarrow> di \<Rightarrow> rtype \<Rightarrow> rvalue option" where
  "scope_lookup r s t = (if r = FromScope then resolved s t else None)"

lemma resolve_type_unfold:
  "resolve_type w r stk t s =
     (let t' = alias_target s t in
      case scope_lookup r s t' of
        Some v \<Rightarrow> (Inr v, s)
      | None \<Rightarrow>
          (case om_get (instances s) t' of
             Some v \<Rightarrow> (Inr v, s)
           | None \<Rightarrow>
               (case om_get (registrations s) t' of
                  None \<Rightarrow> (Inl (not_registered t t'), s)
                | Some reg \<Rightarrow>
                    (case reg_lifetime reg of
                       Singleton \<Rightarrow>
                         (if r = FromScope then resolve_type w FromContainer stk t' s
                          else resolve_singleton w stk t' s)
                     | Transient \<Rightarrow> invoke w r stk t' s
                     | Scoped \<Rightarrow>
                         (if r = FromContainer then (Inl (ScopeRequired t'), s)
                          else (case invoke w r stk t' s of
                                  (Inl e, s') \<Rightarrow> (Inl e, s')
                                | (Inr v, s') \<Rightarrow>
                                    (Inr v, s'\<lparr>resolved := (resolved s')(t' \<mapsto> v),
                                                sorder := sorder s' @ [t']\<rparr>)))
                     | UnknownLifetime n \<Rightarrow> (Inl (InvalidLifetime t'), s)))))"
  unfolding scope_lookup_def by (rule resolve_type.simps)

lemma resolve_type_cases:
  assumes "resolve_type w r stk t s = (res, s')"
  obtains (scope_hit) v where "r = FromScope" "resolved s (alias_target s t) = Some v"
      "res = Inr v" "s' = s"
    | (hit) v where "scope_lookup r s (alias_target s t) = None"
      "om_get (instances s) (alias_target s t) = Some v" "res = Inr v" "s' = s"
    | (error) e where "scope_lookup r s (alias_target s t) = None"
      "om_get (instances s) (alias_target s t) = None" "res = Inl e" "s' = s"
    | (delegate) reg where "r = FromScope" "scope_lookup r s (alias_target s t) = None"
      "om_get (instances s) (alias_target s t) = None"
      "om_get (registrations s) (alias_target s t) = Some reg" "reg_lifetime reg = Singleton"
      "resolve_type w FromContainer stk (alias_target s t) s = (res, s')"
    | (singleton) reg where "r = FromContainer" "om_get (instances s) (alias_target s t) = None"
      "om_get (registrations s) (alias_target s t) = Some reg" "reg_lifetime reg = Singleton"
      "resolve_singleton w stk (alias_target s t) s = (res, s')"
    | (transient) reg where "scope_lookup r s (alias_target s t) = None"
      "om_get (instances s) (alias_target s t) = None"
      "om_get (registrations s) (alias_target s t) = Some reg" "reg_lifetime reg = Transient"
      "invoke w r stk (alias_target s t) s = (res, s')"
    | (scoped_error) reg e where "r = FromScope" "scope_lookup r s (alias_target s t) = None"
      "om_get (instances s) (alias_target s t) = None"
      "om_get (registrations s) (alias_target s t) = Some reg" "reg_lifetime reg = Scoped"
      "invoke w FromScope stk (alias_target s t) s = (Inl e, s')" "res = Inl e"
    | (scoped) reg v s1 where "r = FromScope" "scope_lookup r s (alias_target s t) = None"
      "om_get (instances s) (alias_target s t) = None"
      "om_get (registrations s) (alias_target s t) = Some reg" "reg_lifetime reg = Scoped"
      "invoke w FromScope stk (alias_target s t) s = (Inr v, s1)" "res = Inr v"
      "s' = s1\<lparr>resolved := (resolved s1)(alias_target s t \<mapsto> v),
               sorder := sorder s1 @ [alias_target s t]\<rparr>"
proof (cases "scope_lookup r s (alias_target s t)")
  case (Some v)
  with assms have "r = FromScope" "resolved s (alias_target s t) = Some v" "res = Inr v" "s' = s"
    by (auto simp: resolve_type_unfold scope_lookup_def split: if_splits)
  then show thesis by (rule scope_hit)
next
  case none: None
  show thesis
  proof (cases "om_get (instances s) (alias_target s t)")
    case (Some v)
    with assms none have "res = Inr v" "s' = s" by (auto simp: resolve_type_unfold)
    with none Some show thesis by (rule hit)
  next
    case no_inst: None
    note eqs = assms [unfolded resolve_type_unfold [of w r stk t s] Let_def] none no_inst
    show thesis
    proof (cases "om_get (registrations s) (alias_target s t)")
      case None
      with eqs show thesis by (auto intro: error [OF none no_inst])
    next
      case (Some reg)
      show thesis
      proof (cases "reg_lifetime reg")
        case Singleton
        with eqs Some show thesis
          by (cases r) (auto intro: singleton [OF _ no_inst Some] delegate [OF _ none no_inst Some])
      next
        case Scoped
        show thesis
        proof (cases r)
          case FromContainer
          with eqs Some Scoped show thesis by (auto intro: error [OF none no_inst])
        next
          case FromScope
          obtain x s1 where inv: "invoke w FromScope stk (alias_target s t) s = (x, s1)"
            by (meson surj_pair)
          show thesis
          proof (cases x)
            case (Inl e)
            with eqs Some Scoped FromScope inv show thesis
              by (auto intro: scoped_error [OF FromScope none no_inst Some Scoped])
          next
            case (Inr v)
            with eqs Some Scoped FromScope inv show thesis
              by (auto intro: scoped [OF FromScope none no_inst Some Scoped])
          qed
        qed
      next
        case Transient
        with eqs Some show thesis by (auto intro: transient [OF none no_inst Some])
      next
        case (UnknownLifetime n)
        with eqs Some show thesis by (auto intro: error [OF none no_inst])
      qed
    qed
  qed
qed

lemma resolve_singleton_cases:
  assumes "resolve_singleton w stk t s = (res, s')"
  obtains (hit) v where "om_get (instances s) t = Some v" "res = Inr v" "s' = s"
    | (cycle) e where "om_get (instances s) t = None" "t \<in> building s" "res = Inl e" "s' = s"
    | (failed) e s1 where "om_get (instances s) t = None" "t \<notin> building s"
      "invoke w FromContainer stk t (s\<lparr>building := insert t (building s)\<rparr>) = (Inl e, s1)"
      "res = Inl e" "s' = s1\<lparr>building := building s1 - {t}\<rparr>"
    | (built) v s1 where "om_get (instances s) t = None" "t \<notin> building s"
      "invoke w FromContainer stk t (s\<lparr>building := insert t (building s)\<rparr>) = (Inr v, s1)"
      "res = Inr v"
      "s' = s1\<lparr>instances := om_set t v (instances s1), building := building s1 - {t}\<rparr>"
  using assms
  by (subst (asm) resolve_singleton.simps)
    (auto split: option.splits prod.splits sum.splits if_splits)

lemma invoke_cases:
  assumes "invoke w r stk t s = (res, s')"
  obtains (refused) e where "res = Inl e" "s' = s"
    | (args_failed) reg stk' e where "om_get (registrations s) t = Some reg"
      "enter_build stk t = Inr stk'"
      "resolve_ctor_args w r stk' t (ct_ins (reg_ctor reg)) s = (Inl e, s')" "res = Inl e"
    | (ctor_failed) reg stk' args s1 e where "om_get (registrations s) t = Some reg"
      "enter_build stk t = Inr stk'"
      "resolve_ctor_args w r stk' t (ct_ins (reg_ctor reg)) s = (Inr args, s1)"
      "ct_call (reg_ctor reg) args = Inl e" "res = Inl e" "s' = s1\<lparr>evs := evs s1 @ [EvCtor t]\<rparr>"
    | (constructed) reg stk' args s1 v where "om_get (registrations s) t = Some reg"
      "enter_build stk t = Inr stk'"
      "resolve_ctor_args w r stk' t (ct_ins (reg_ctor reg)) s = (Inr args, s1)"
      "ct_call (reg_ctor reg) args = Inr v"
      "init_instance w t v (s1\<lparr>evs := evs s1 @ [EvCtor t]\<rparr>) = (res, s')"
proof (cases "om_get (registrations s) t")
  case None
  with assms show thesis by (auto simp: invoke.simps intro: refused)
next
  case reg: (Some reg)
  show thesis
  proof (cases "enter_build stk t")
    case (Inl e)
    with assms reg show thesis by (auto simp: invoke.simps intro: refused)
  next
    case enter: (Inr stk')
    obtain x s1 where args: "resolve_ctor_args w r stk' t (ct_ins (reg_ctor reg)) s = (x, s1)"
      by (meson surj_pair)
    show thesis
    proof (cases x)
      case (Inl e)
      with assms reg enter args show thesis
        by (auto simp: invoke.simps intro: args_failed [OF reg enter])
    next
      case (Inr vs)
      show thesis
      proof (cases "ct_call (reg_ctor reg) vs")
        case (Inl e)
        with assms reg enter args \<open>x = Inr vs\<close> show thesis
          by (auto simp: invoke.simps intro: ctor_failed [OF reg enter _ Inl])
      next
        case (Inr v)
        with assms reg enter args \<open>x = Inr vs\<close> show thesis
          by (auto simp: invoke.simps intro: constructed [OF reg enter _ Inr])
      qed
    qed
  qed
qed

lemma resolve_ctor_args_cases:
  assumes "resolve_ctor_args w r stk t (d # ds) s = (res, s')"
  obtains (first_failed) e where "resolve_type w r stk d s = (Inl e, s')"
      "res = Inl (ResolvingDep d t e)"
    | (rest_failed) v s1 e where "resolve_type w r stk d s = (Inr v, s1)"
      "resolve_ctor_args w r stk t ds s1 = (Inl e, s')" "res = Inl e"
    | (all) v s1 vs where "resolve_type w r stk d s = (Inr v, s1)"
      "resolve_ctor_args w r stk t ds s1 = (Inr vs, s')" "res = Inr (v # vs)"
  using assms by (auto split: prod.splits sum.splits)

lemma invoke_registered:
  "invoke w r stk t s = (Inr v, s') \<Longrightarrow> om_get (registrations s) t \<noteq> None"
  by (auto elim: invoke_cases)

text \<open>
  A relation on states that is kept by the four elementary steps is kept by a resolution. The
  steps: recording a scoped instance, an event, an Init, and caching a finished build.
\<close>

locale resolution_frame =
  fixes R :: "di \<Rightarrow> di \<Rightarrow> bool"
  assumes R_refl: "R s s"
    and R_trans: "R s s1 \<Longrightarrow> R s1 s2 \<Longrightarrow> R s s2"
    and R_scoped: "R s (s\<lparr>resolved := m, sorder := ts\<rparr>)"
    and R_ctor: "R s (s\<lparr>evs := evs s @ [EvCtor t]\<rparr>)"
    and R_init: "R s (snd (init_instance w t v s))"
    and R_cached: "R (s\<lparr>building := insert t (building s)\<rparr>) s1 \<Longrightarrow> t \<notin> building s \<Longrightarrow>
      om_get (instances s) t = None \<Longrightarrow> om_get (registrations s) t \<noteq> None \<Longrightarrow>
      R s (s1\<lparr>instances := om_set t v (instances s1), building := building s1 - {t}\<rparr>)"
    and R_uncached: "R (s\<lparr>building := insert t (building s)\<rparr>) s1 \<Longrightarrow> t \<notin> building s \<Longrightarrow>
      om_get (instances s) t = None \<Longrightarrow> R s (s1\<lparr>building := building s1 - {t}\<rparr>)"
begin

lemma resolution_R:
  shows resolve_type_R: "\<And>res s'. resolve_type w r stk t s = (res, s') \<Longrightarrow> R s s'"
    and resolve_singleton_R: "\<And>res s'. resolve_singleton w stk t s = (res, s') \<Longrightarrow> R s s'"
    and invoke_R: "\<And>res s'. invoke w r stk t s = (res, s') \<Longrightarrow> R s s'"
    and resolve_ctor_args_R: "\<And>res s'. resolve_ctor_args w r stk t ds s = (res, s') \<Longrightarrow> R s s'"
proof (induction w r stk t s and w stk t s and w r stk t s and w r stk t ds s
    rule: resolve_type_resolve_singleton_invoke_resolve_ctor_args.induct)
  case (1 w r stk t s)
  from "1.prems" show ?case
  proof (cases rule: resolve_type_cases)
    case (scoped reg v s1)
    with 1 have "R s s1" by (auto simp: scope_lookup_def)
    with scoped show ?thesis by (auto intro: R_trans [OF _ R_scoped])
  qed (use 1 in \<open>auto simp: R_refl scope_lookup_def split: if_splits\<close>)
next
  case (2 w stk t s)
  from "2.prems" show ?case
  proof (cases rule: resolve_singleton_cases)
    case (built v s1)
    from invoke_registered [OF built(3)] 2 built show ?thesis by (auto intro: R_cached)
  qed (use 2 in \<open>auto simp: R_refl R_uncached\<close>)
next
  case (3 w r stk t s)
  from "3.prems" show ?case
  proof (cases rule: invoke_cases)
    case (constructed reg stk' args s1 v)
    have "R s1 s'" using R_trans [OF R_ctor R_init] constructed(5) by (metis snd_conv)
    moreover have "R s s1" using 3 constructed by auto
    ultimately show ?thesis by (blast intro: R_trans)
  next
    case (ctor_failed reg stk' args s1 e)
    with 3 have "R s s1" by auto
    with ctor_failed show ?thesis by (auto intro: R_trans [OF _ R_ctor])
  qed (use 3 in \<open>auto simp: R_refl\<close>)
next
  case (4 w r stk t s)
  then show ?case by (simp add: R_refl)
next
  case (5 w r stk t d ds s)
  from "5.prems" show ?case
    by (cases rule: resolve_ctor_args_cases) (use 5 in \<open>auto intro: R_trans\<close>)
qed

end

lemma grows_cached:
  assumes "grows (s\<lparr>building := insert t (building s)\<rparr>) s1"
    and "t \<notin> building s" and "om_get (instances s) t = None"
  shows "grows s (s1\<lparr>instances := om_set t v (instances s1), building := building s1 - {t}\<rparr>)"
    and "grows s (s1\<lparr>building := building s1 - {t}\<rparr>)"
  using assms by (auto simp: grows_def om_keys_set om_inv_set)

interpretation growing: resolution_frame grows
  by (unfold_locales; (rule grows_refl grows_scope grows_evs grows_init_instance
    | erule (1) grows_trans | erule (2) grows_cached))

section \<open>Dependencies are cached first\<close>

text \<open>
  A type that is, or will become, a cached instance: it has one, or is registered as a
  singleton.
\<close>

definition singleton_dep :: "di \<Rightarrow> rtype \<Rightarrow> bool" where
  "singleton_dep s d \<longleftrightarrow> om_get (instances s) d \<noteq> None \<or>
     (\<exists>reg. om_get (registrations s) d = Some reg \<and> reg_lifetime reg = Singleton)"

definition deps_of :: "di \<Rightarrow> rtype \<Rightarrow> rtype list" where
  "deps_of s t = (case om_get (registrations s) t of
     None \<Rightarrow> [] | Some reg \<Rightarrow> map (alias_target s) (ct_ins (reg_ctor reg)))"

definition inst_keys :: "di \<Rightarrow> rtype list" where
  "inst_keys s = om_keys (instances s)"

definition deps_first :: "di \<Rightarrow> di \<Rightarrow> bool" where
  "deps_first s s' \<longleftrightarrow>
     (\<forall>t \<in> set (inst_keys s') - set (inst_keys s).
        \<forall>d \<in> set (deps_of s t). singleton_dep s d \<longrightarrow> before (inst_keys s') d t)"

lemma alias_target_cong: "aliases s = aliases s' \<Longrightarrow> alias_target s = alias_target s'"
  by (simp add: alias_target_def fun_eq_iff)

lemma deps_of_cong:
  "registrations s = registrations s' \<Longrightarrow> aliases s = aliases s' \<Longrightarrow> deps_of s = deps_of s'"
  using alias_target_cong [of s s'] by (intro ext) (simp add: deps_of_def split: option.split)

lemma singleton_dep_building [simp]: "singleton_dep (s\<lparr>building := b\<rparr>) = singleton_dep s"
  by (auto simp: singleton_dep_def fun_eq_iff)

lemma deps_of_building [simp]: "deps_of (s\<lparr>building := b\<rparr>) = deps_of s"
  by (rule deps_of_cong) simp_all

lemma deps_first_building [simp]:
  "deps_first (s\<lparr>building := b\<rparr>) s' = deps_first s s'"
  "deps_first s (s'\<lparr>building := b\<rparr>) = deps_first s s'"
  "deps_first s (s'\<lparr>evs := es\<rparr>) = deps_first s s'"
  "deps_first s (s'\<lparr>resolved := m, sorder := ts\<rparr>) = deps_first s s'"
  by (simp_all add: deps_first_def inst_keys_def)

lemma inst_keys_upd [simp]:
  "inst_keys (s\<lparr>building := b\<rparr>) = inst_keys s"
  "inst_keys (s\<lparr>evs := es\<rparr>) = inst_keys s"
  "inst_keys (s\<lparr>resolved := m, sorder := ts\<rparr>) = inst_keys s"
  by (simp_all add: inst_keys_def)

lemma grows_deps_of: "grows s s1 \<Longrightarrow> deps_of s1 = deps_of s"
  by (rule deps_of_cong) (simp_all add: grows_def)

lemma grows_alias_target: "grows s s1 \<Longrightarrow> alias_target s1 = alias_target s"
  by (rule alias_target_cong) (simp add: grows_def)

lemma grows_singleton_dep: "grows s s1 \<Longrightarrow> singleton_dep s d \<Longrightarrow> singleton_dep s1 d"
  by (auto simp: grows_def singleton_dep_def)

lemma grows_keys: "grows s s1 \<Longrightarrow> set (inst_keys s) \<subseteq> set (inst_keys s1)"
  by (auto simp: grows_def inst_keys_def)

lemma grows_before: "grows s s1 \<Longrightarrow> before (inst_keys s) a b \<Longrightarrow> before (inst_keys s1) a b"
  by (auto simp: grows_def inst_keys_def before_append_left)

lemma deps_first_refl [simp]: "deps_first s s"
  by (simp add: deps_first_def)

lemma deps_first_same: "inst_keys s' = inst_keys s \<Longrightarrow> deps_first s s'"
  by (simp add: deps_first_def)

lemma deps_first_trans:
  assumes "deps_first s s1" and "deps_first s1 s2" and "grows s s1" and "grows s1 s2"
  shows "deps_first s s2"
  unfolding deps_first_def
proof (intro ballI impI)
  fix t d
  assume t: "t \<in> set (inst_keys s2) - set (inst_keys s)"
    and d: "d \<in> set (deps_of s t)" "singleton_dep s d"
  show "before (inst_keys s2) d t"
  proof (cases "t \<in> set (inst_keys s1)")
    case True
    with assms(1) t d have "before (inst_keys s1) d t" by (auto simp: deps_first_def)
    with assms(4) show ?thesis by (rule grows_before)
  next
    case False
    with assms t d show ?thesis
      by (auto simp: deps_first_def grows_deps_of grows_singleton_dep)
  qed
qed

lemma keys_cached:
  "set (inst_keys (s\<lparr>instances := om_set t v (instances s)\<rparr>)) = insert t (set (inst_keys s))"
  if "om_inv (instances s)"
  using that om_keys_iff [OF that, of t] by (auto simp: inst_keys_def om_keys_set)

lemma deps_first_cached:
  assumes "deps_first s s1" and "om_inv (instances s1)"
    and "\<forall>d \<in> set (deps_of s t). singleton_dep s d \<longrightarrow> d \<in> set (inst_keys s1)"
  shows "deps_first s (s1\<lparr>instances := om_set t v (instances s1)\<rparr>)"
  using assms om_keys_iff [OF assms(2), of t]
  by (auto simp: deps_first_def inst_keys_def om_keys_set before_append_left before_snoc)

lemma om_inv_grows: "grows s s1 \<Longrightarrow> om_inv (instances s) \<Longrightarrow> om_inv (instances s1)"
  by (simp add: grows_def)

text \<open>
  Every resolution keeps \<open>deps_first\<close>; a successful one from the container leaves the singletons
  it needed in the cache.
\<close>

lemma resolution_deps_first:
  shows "\<And>res s'. resolve_type w r stk t s = (res, s') \<Longrightarrow> om_inv (instances s) \<Longrightarrow>
      deps_first s s' \<and> (is_ok res \<and> r = FromContainer \<and> singleton_dep s (alias_target s t) \<longrightarrow>
        alias_target s t \<in> set (inst_keys s'))"
    and "\<And>res s'. resolve_singleton w stk t s = (res, s') \<Longrightarrow> om_inv (instances s) \<Longrightarrow>
      deps_first s s' \<and> (is_ok res \<longrightarrow> t \<in> set (inst_keys s'))"
    and "\<And>res s'. invoke w r stk t s = (res, s') \<Longrightarrow> om_inv (instances s) \<Longrightarrow>
      deps_first s s' \<and> (is_ok res \<and> r = FromContainer \<longrightarrow>
        (\<forall>d \<in> set (deps_of s t). singleton_dep s d \<longrightarrow> d \<in> set (inst_keys s')))"
    and "\<And>res s'. resolve_ctor_args w r stk t ds s = (res, s') \<Longrightarrow> om_inv (instances s) \<Longrightarrow>
      deps_first s s' \<and> (is_ok res \<and> r = FromContainer \<longrightarrow>
        (\<forall>d \<in> alias_target s ` set ds. singleton_dep s d \<longrightarrow> d \<in> set (inst_keys s')))"
proof (induction w r stk t s and w stk t s and w r stk t s and w r stk t ds s
    rule: resolve_type_resolve_singleton_invoke_resolve_ctor_args.induct)
  case (1 w r stk t s)
  from "1.prems"(1) show ?case
  proof (cases rule: resolve_type_cases)
    case (hit v)
    with "1.prems"(2) show ?thesis by (simp add: inst_keys_def om_keys_iff)
  next
    case (singleton reg)
    with 1 show ?thesis by (simp add: scope_lookup_def)
  next
    case (transient reg)
    with 1 show ?thesis by (auto simp: scope_lookup_def singleton_dep_def)
  next
    case (scoped reg v s1)
    with 1 have "deps_first s s1" by (auto simp: scope_lookup_def)
    with scoped show ?thesis by simp
  qed (use 1 in \<open>auto simp: scope_lookup_def\<close>)
next
  case (2 w stk t s)
  from "2.prems"(1) show ?case
  proof (cases rule: resolve_singleton_cases)
    case (hit v)
    with "2.prems"(2) show ?thesis by (simp add: inst_keys_def om_keys_iff)
  next
    case (failed e s1)
    with 2 show ?thesis by auto
  next
    case (built v s1)
    have inv: "om_inv (instances s1)"
      using growing.invoke_R [OF built(3)] "2.prems"(2) by (simp add: grows_def)
    have IH: "deps_first s s1" "\<forall>d \<in> set (deps_of s t). singleton_dep s d \<longrightarrow> d \<in> set (inst_keys s1)"
      using 2 built by auto
    from deps_first_cached [OF IH(1) inv IH(2), of v] keys_cached [OF inv, of t v] built(4,5)
    show ?thesis by (auto simp: inst_keys_def deps_first_def deps_of_def singleton_dep_def)
  qed auto
next
  case (3 w r stk t s)
  from "3.prems"(1) show ?case
  proof (cases rule: invoke_cases)
    case (constructed reg stk' args s1 v)
    have "inst_keys s' = inst_keys s1"
      using init_instance_frame [OF constructed(5)] by (simp add: inst_keys_def)
    moreover have "deps_first s s1 \<and> (r = FromContainer \<longrightarrow>
      (\<forall>d \<in> alias_target s ` set (ct_ins (reg_ctor reg)). singleton_dep s d \<longrightarrow> d \<in> set (inst_keys s1)))"
      using 3 constructed by fastforce
    ultimately show ?thesis
      using constructed(1) by (auto simp: deps_first_def deps_of_def)
  qed (use 3 in \<open>auto\<close>)
next
  case (4 w r stk t s)
  then show ?case by simp
next
  case (5 w r stk t d ds s)
  have rest: ?case if "resolve_type w r stk d s = (Inr v, s1)"
    and "resolve_ctor_args w r stk t ds s1 = (res', s')" and "is_ok res \<longrightarrow> is_ok res'" for v s1 res'
  proof -
    have g: "grows s s1" "grows s1 s'"
      using that growing.resolve_type_R growing.resolve_ctor_args_R by blast+
    have inv: "om_inv (instances s1)" using om_inv_grows [OF g(1)] "5.prems"(2) by blast
    have a: "deps_first s s1 \<and> (r = FromContainer \<and> singleton_dep s (alias_target s d) \<longrightarrow>
        alias_target s d \<in> set (inst_keys s1))"
      using "5.IH"(1) [OF that(1) "5.prems"(2)] by simp
    have b: "deps_first s1 s' \<and> (is_ok res' \<and> r = FromContainer \<longrightarrow>
        (\<forall>d \<in> alias_target s ` set ds. singleton_dep s1 d \<longrightarrow> d \<in> set (inst_keys s')))"
      using "5.IH"(2) [OF _ _ that(2) inv] that(1) grows_alias_target [OF g(1)] by simp
    have "deps_first s s'" using deps_first_trans [OF _ _ g] a b by blast
    then show ?thesis
      using a b that(3) grows_keys [OF g(2)] grows_singleton_dep [OF g(1)] by auto
  qed
  from "5.prems"(1) show ?case
  proof (cases rule: resolve_ctor_args_cases)
    case (first_failed e)
    with 5 show ?thesis by auto
  next
    case (rest_failed v s1 e)
    then show ?thesis by (intro rest) auto
  next
    case (all v s1 vs)
    then show ?thesis by (intro rest) auto
  qed
qed

end
