(* ===== verification/Di_Topo.thy ===== *)
theory Di_Topo
  imports Di_Container
begin

text \<open>
  The build order: topoSort and topoSortOrder of service_registry.go (Kahn's algorithm over the
  registered constructors). A run's invariant \<open>kahn_inv\<close> says that the remaining in-degree of a
  type is the number of its dependencies not yet in the order; from it come the two directions
  of correctness: the order is a topological order of all registrations, and the sort fails
  exactly when the dependency graph has a cycle.
\<close>

section \<open>The algorithm\<close>

text \<open>The dependencies of each type, aliases replaced by their targets, in registration order.\<close>

definition collect_deps ::
  "(rtype \<Rightarrow> rtype) \<Rightarrow> (rtype \<times> registration) list \<Rightarrow> (rtype, rtype list) omap" where
  "collect_deps target regs =
     fold (\<lambda>(t, reg) deps.
         fold (\<lambda>inp deps. om_set t ((case om_get deps t of None \<Rightarrow> [] | Some v \<Rightarrow> v) @ [target inp]) deps)
           (ct_ins (reg_ctor reg)) deps)
       regs om_empty"

definition in_degrees ::
  "(rtype, registration) omap \<Rightarrow> (rtype, rtype list) omap \<Rightarrow> (rtype, int) omap" where
  "in_degrees regs deps =
     fold (\<lambda>t deg.
         fold (\<lambda>d deg. if om_get regs d \<noteq> None
                        then om_set t ((case om_get deg t of None \<Rightarrow> 0 | Some v \<Rightarrow> v) + 1) deg
                        else deg)
           (case om_get deps t of None \<Rightarrow> [] | Some v \<Rightarrow> v)
           (if om_has deg t then deg else om_set t 0 deg))
       (om_keys regs) om_empty"

definition degree :: "(rtype, int) omap \<Rightarrow> rtype \<Rightarrow> int" where
  "degree deg t = (case om_get deg t of None \<Rightarrow> 0 | Some v \<Rightarrow> v)"

text \<open>The two inner loops: every occurrence of the popped type among t's dependencies.\<close>

fun relax_deps ::
  "rtype \<Rightarrow> rtype \<Rightarrow> rtype list \<Rightarrow> (rtype, int) omap \<times> rtype list \<Rightarrow> (rtype, int) omap \<times> rtype list"
where
  "relax_deps cur t [] st = st"
| "relax_deps cur t (dep # ds) (deg, queue) =
     (if dep = cur then
        (let v = degree deg t - 1 in
         relax_deps cur t ds (om_set t v deg, if v = 0 then queue @ [t] else queue))
      else relax_deps cur t ds (deg, queue))"

fun relax_all ::
  "rtype \<Rightarrow> (rtype \<times> rtype list) list \<Rightarrow> (rtype, int) omap \<times> rtype list \<Rightarrow>
     (rtype, int) omap \<times> rtype list"
where
  "relax_all cur [] st = st"
| "relax_all cur ((t, ds) # ps) st = relax_all cur ps (relax_deps cur t ds st)"

text \<open>
  A type enters the queue only when its degree drops to 0, so the queue and the types of positive
  degree together shrink with every step: the loop ends on any input.
\<close>

definition positives :: "(rtype \<times> rtype list) list \<Rightarrow> (rtype, int) omap \<Rightarrow> rtype set" where
  "positives ps deg = {t \<in> fst ` set ps. degree deg t > 0}"

lemma finite_positives [simp]: "finite (positives ps deg)"
  by (simp add: positives_def)

lemma degree_set [simp]: "degree (om_set t v deg) t' = (if t' = t then v else degree deg t')"
  by (simp add: degree_def)

lemma positives_set:
  "t \<in> fst ` set ps \<Longrightarrow>
   positives ps (om_set t v deg) = (if v > 0 then insert t (positives ps deg) else positives ps deg - {t})"
  by (auto simp: positives_def)

lemma relax_deps_size:
  "t \<in> fst ` set ps \<Longrightarrow> relax_deps cur t ds (deg, q) = (deg', q') \<Longrightarrow>
     length q' + card (positives ps deg') \<le> length q + card (positives ps deg)"
proof (induction ds arbitrary: deg q)
  case Nil
  then show ?case by simp
next
  case (Cons dep ds)
  show ?case
  proof (cases "dep = cur")
    case False
    with Cons show ?thesis by simp
  next
    case True
    let ?v = "degree deg t - 1"
    let ?deg = "om_set t ?v deg" and ?q = "if ?v = 0 then q @ [t] else q"
    from True Cons.prems have "relax_deps cur t ds (?deg, ?q) = (deg', q')"
      by (simp add: Let_def)
    with Cons.IH Cons.prems(1)
    have "length q' + card (positives ps deg') \<le> length ?q + card (positives ps ?deg)" by blast
    moreover have "length ?q + card (positives ps ?deg) \<le> length q + card (positives ps deg)"
    proof (cases "degree deg t > 0")
      case pos: True
      with Cons.prems(1) have t: "t \<in> positives ps deg" by (simp add: positives_def)
      then have "card (positives ps deg - {t}) = card (positives ps deg) - 1"
        and "card (positives ps deg) > 0"
        by (auto simp: card_gt_0_iff)
      with pos Cons.prems(1) t show ?thesis
        by (auto simp: positives_set insert_absorb)
    next
      case False
      with Cons.prems(1) have "t \<notin> positives ps deg" by (simp add: positives_def)
      with False Cons.prems(1) show ?thesis by (auto simp: positives_set)
    qed
    ultimately show ?thesis by simp
  qed
qed

lemma relax_all_size:
  "set qs \<subseteq> set ps \<Longrightarrow> relax_all cur qs (deg, q) = (deg', q') \<Longrightarrow>
     length q' + card (positives ps deg') \<le> length q + card (positives ps deg)"
proof (induction qs arbitrary: deg q)
  case Nil
  then show ?case by simp
next
  case (Cons p qs)
  obtain t ds where p: "p = (t, ds)" by fastforce
  obtain deg1 q1 where 1: "relax_deps cur t ds (deg, q) = (deg1, q1)" by fastforce
  have "t \<in> fst ` set ps" using Cons.prems(1) p by force
  from relax_deps_size [OF this 1] Cons.IH [of deg1 q1] Cons.prems 1 p
  show ?case by simp
qed

function topo_loop ::
  "(rtype \<times> rtype list) list \<Rightarrow> rtype list \<Rightarrow> (rtype, int) omap \<Rightarrow> rtype list \<Rightarrow> rtype list"
where
  "topo_loop ps [] deg order = order"
| "topo_loop ps (cur # queue) deg order =
     (case relax_all cur ps (deg, queue) of
        (deg', queue') \<Rightarrow> topo_loop ps queue' deg' (order @ [cur]))"
  by pat_completeness auto
termination
  by (relation "measure (\<lambda>(ps, queue, deg, order). length queue + card (positives ps deg))")
    (auto simp: less_Suc_eq_le dest: relax_all_size [OF subset_refl, OF sym]
       relax_all_size [OF subset_refl])

declare topo_loop.simps [simp]

definition topo_order :: "di \<Rightarrow> rtype list" where
  "topo_order s =
     (let regs = registrations s;
          deps = collect_deps (alias_target s) (om_all regs);
          deg = in_degrees regs deps;
          queue = map fst (filter (\<lambda>(t, d). d = 0) (om_all deg))
      in topo_loop (om_all deps) queue deg [])"

definition topo_sort :: "di \<Rightarrow> (gerr, rtype list) result" where
  "topo_sort s =
     (if length (topo_order s) \<noteq> om_len (registrations s) then Inl CircularTopo
      else Inr (topo_order s))"

section \<open>What the two passes compute\<close>

lemma collect_inner:
  assumes "om_inv m"
  shows "om_inv (fold (\<lambda>inp m. om_set t ((case om_get m t of None \<Rightarrow> [] | Some v \<Rightarrow> v) @ [f inp]) m) ins m)"
    and "om_get (fold (\<lambda>inp m. om_set t ((case om_get m t of None \<Rightarrow> [] | Some v \<Rightarrow> v) @ [f inp]) m) ins m) t' =
      (if t' = t \<and> ins \<noteq> [] then Some ((case om_get m t of None \<Rightarrow> [] | Some v \<Rightarrow> v) @ map f ins)
       else om_get m t')"
  using assms
  by (induction ins arbitrary: m) (auto simp: om_inv_set)

lemma collect_deps_spec:
  assumes "distinct (map fst ps)"
  shows "om_inv (collect_deps f ps)"
    and "om_get (collect_deps f ps) t =
      (case map_of ps t of None \<Rightarrow> None
       | Some reg \<Rightarrow> if ct_ins (reg_ctor reg) = [] then None else Some (map f (ct_ins (reg_ctor reg))))"
proof -
  define F :: "rtype \<times> registration \<Rightarrow> (rtype, rtype list) omap \<Rightarrow> (rtype, rtype list) omap"
    where "F = (\<lambda>(t, reg) deps.
         fold (\<lambda>inp deps. om_set t ((case om_get deps t of None \<Rightarrow> [] | Some v \<Rightarrow> v) @ [f inp]) deps)
           (ct_ins (reg_ctor reg)) deps)"
  have eq: "collect_deps f ps = fold F ps om_empty"
    unfolding collect_deps_def F_def by (rule refl)
  have step: "om_inv (F (a, reg) m)" "om_get (F (a, reg) m) t' =
      (if t' = a \<and> ct_ins (reg_ctor reg) \<noteq> [] then Some (map f (ct_ins (reg_ctor reg))) else om_get m t')"
    if "om_inv m" "om_get m a = None" for a reg m t'
    using collect_inner [OF that(1), where t = a and f = f and ins = "ct_ins (reg_ctor reg)"] that(2)
    by (auto simp: F_def)
  have gen: "om_inv (fold F ps m) \<and> om_get (fold F ps m) t =
      (case map_of ps t of None \<Rightarrow> om_get m t
       | Some reg \<Rightarrow> if ct_ins (reg_ctor reg) = [] then om_get m t
                      else Some (map f (ct_ins (reg_ctor reg))))"
    if "om_inv m" "distinct (map fst ps)" "\<forall>p\<in>set ps. om_get m (fst p) = None" for m
    using that
  proof (induction ps arbitrary: m)
    case Nil
    then show ?case by simp
  next
    case (Cons p ps)
    obtain a reg where p: "p = (a, reg)" by fastforce
    have m: "om_get m a = None" using Cons.prems(3) p by simp
    have a: "map_of ps a = None" using Cons.prems(2) p by (simp add: map_of_eq_None_iff)
    have fresh: "\<forall>q\<in>set ps. om_get (F p m) (fst q) = None"
    proof
      fix q assume "q \<in> set ps"
      with Cons.prems(2) p have "fst q \<noteq> a" by force
      with \<open>q \<in> set ps\<close> Cons.prems(3) show "om_get (F p m) (fst q) = None"
        by (simp add: p step(2) [OF Cons.prems(1) m])
    qed
    have "om_inv (F p m)" unfolding p by (rule step(1) [OF Cons.prems(1) m])
    from Cons.IH [OF this _ fresh] Cons.prems(2) a show ?case
      by (auto simp: p step(2) [OF Cons.prems(1) m] m split: option.splits)
  qed
  show "om_inv (collect_deps f ps)"
    and "om_get (collect_deps f ps) t =
      (case map_of ps t of None \<Rightarrow> None
       | Some reg \<Rightarrow> if ct_ins (reg_ctor reg) = [] then None else Some (map f (ct_ins (reg_ctor reg))))"
    using gen [of om_empty] assms unfolding eq by (auto split: option.splits)
qed

lemma degree_inner:
  fixes P :: "rtype \<Rightarrow> bool"
  assumes "om_inv m" and "om_get m t \<noteq> None"
  defines "F \<equiv> (\<lambda>d deg. if P d then om_set t ((case om_get deg t of None \<Rightarrow> 0 | Some v \<Rightarrow> v) + 1) deg else deg)"
  shows "om_inv (fold F ds m) \<and> om_keys (fold F ds m) = om_keys m \<and>
     degree (fold F ds m) = (degree m)(t := degree m t + int (length (filter P ds)))"
  using assms(1,2)
proof (induction ds arbitrary: m)
  case Nil
  then show ?case by (simp add: fun_eq_iff)
next
  case (Cons d ds)
  let ?m = "F d m"
  have "om_inv ?m" and "om_get ?m t \<noteq> None" and "om_keys ?m = om_keys m"
    and "degree ?m = (degree m)(t := degree m t + (if P d then 1 else 0))"
    using Cons.prems by (auto simp: F_def om_inv_set om_keys_set degree_def fun_eq_iff)
  with Cons.IH [of ?m] show ?case by (auto simp: fun_eq_iff)
qed

lemma in_degrees_spec:
  assumes "om_inv regs"
  shows "om_inv (in_degrees regs deps)" and "om_keys (in_degrees regs deps) = om_keys regs"
    and "t \<in> set (om_keys regs) \<Longrightarrow> degree (in_degrees regs deps) t =
      int (length (filter (\<lambda>d. om_get regs d \<noteq> None)
        (case om_get deps t of None \<Rightarrow> [] | Some v \<Rightarrow> v)))"
proof -
  define P where "P d \<longleftrightarrow> om_get regs d \<noteq> None" for d
  define D where "D t = (case om_get deps t of None \<Rightarrow> [] | Some v \<Rightarrow> v)" for t
  define F :: "rtype \<Rightarrow> (rtype, int) omap \<Rightarrow> (rtype, int) omap" where "F = (\<lambda>t deg.
         fold (\<lambda>d deg. if P d
                        then om_set t ((case om_get deg t of None \<Rightarrow> 0 | Some v \<Rightarrow> v) + 1) deg
                        else deg) (D t) (if om_has deg t then deg else om_set t 0 deg))"
  have eq: "in_degrees regs deps = fold F (om_keys regs) om_empty"
    unfolding in_degrees_def F_def P_def D_def by (rule refl)
  have step: "om_inv (F a m) \<and> om_keys (F a m) = om_keys m @ [a] \<and>
       degree (F a m) = (degree m)(a := int (length (filter P (D a))))"
    if inv: "om_inv m" and fresh: "om_get m a = None" for a m
  proof -
    let ?m0 = "om_set a 0 m"
    have 0: "om_inv ?m0" "om_get ?m0 a \<noteq> None" "om_keys ?m0 = om_keys m @ [a]"
      "degree ?m0 = (degree m)(a := 0)"
      using inv fresh by (auto simp: om_inv_set om_keys_set degree_def fun_eq_iff)
    have "(if om_has m a then m else ?m0) = ?m0" using fresh by simp
    with degree_inner [OF 0(1,2), of P "D a"] 0(3,4) show ?thesis
      unfolding F_def by simp
  qed
  have gen: "om_inv (fold F ts m) \<and> om_keys (fold F ts m) = om_keys m @ ts \<and>
      (\<forall>t. degree (fold F ts m) t = (if t \<in> set ts then int (length (filter P (D t))) else degree m t))"
    if "om_inv m" "distinct ts" "\<forall>t\<in>set ts. om_get m t = None" for ts m
    using that
  proof (induction ts arbitrary: m)
    case Nil
    then show ?case by simp
  next
    case (Cons a ts)
    have 1: "om_inv (F a m) \<and> om_keys (F a m) = om_keys m @ [a] \<and>
       degree (F a m) = (degree m)(a := int (length (filter P (D a))))"
      using step Cons.prems by simp
    have 2: "\<forall>t\<in>set ts. om_get (F a m) t = None"
    proof
      fix t assume "t \<in> set ts"
      then have "t \<notin> set (om_keys (F a m))"
        using 1 Cons.prems om_keys_iff [OF Cons.prems(1)] by auto
      with om_keys_iff [OF 1 [THEN conjunct1], of t] show "om_get (F a m) t = None" by simp
    qed
    from 1 Cons.prems(2) have "om_inv (F a m)" "distinct ts" by simp_all
    from Cons.IH [OF this 2] 1 Cons.prems(2) show ?case by auto
  qed
  have g: "om_inv (in_degrees regs deps) \<and> om_keys (in_degrees regs deps) = om_keys regs \<and>
      (\<forall>t. degree (in_degrees regs deps) t =
         (if t \<in> set (om_keys regs) then int (length (filter P (D t))) else degree om_empty t))"
    unfolding eq using gen [of om_empty "om_keys regs"] om_distinct_keys [OF assms] by simp
  have P: "P = (\<lambda>d. om_get regs d \<noteq> None)" by (rule ext) (simp add: P_def)
  show "om_inv (in_degrees regs deps)" by (rule g [THEN conjunct1])
  show "om_keys (in_degrees regs deps) = om_keys regs" by (rule g [THEN conjunct2, THEN conjunct1])
  assume "t \<in> set (om_keys regs)"
  then have "degree (in_degrees regs deps) t = int (length (filter P (D t)))"
    using g [THEN conjunct2, THEN conjunct2, rule_format, of t] by simp
  then show "degree (in_degrees regs deps) t =
      int (length (filter (\<lambda>d. om_get regs d \<noteq> None)
        (case om_get deps t of None \<Rightarrow> [] | Some v \<Rightarrow> v)))"
    unfolding P D_def .
qed

lemma om_all_degree: "om_inv m \<Longrightarrow> om_all m = map (\<lambda>t. (t, degree m t)) (om_keys m)"
proof -
  assume "om_inv m"
  then have "\<forall>t\<in>set (om_keys m). om_get m t \<noteq> None" by (simp add: om_keys_iff)
  then show ?thesis by (auto simp: om_all_def degree_def om_get_def)
qed

section \<open>The inner loops\<close>

lemma relax_deps_spec:
  "int (count_list ds cur) \<le> degree deg t \<Longrightarrow> relax_deps cur t ds (deg, q) = (deg', q') \<Longrightarrow>
     degree deg' = (degree deg)(t := degree deg t - int (count_list ds cur)) \<and>
     q' = q @ (if count_list ds cur > 0 \<and> degree deg t = int (count_list ds cur) then [t] else [])"
proof (induction ds arbitrary: deg q)
  case Nil
  then show ?case by (simp add: fun_eq_iff)
next
  case (Cons d ds)
  show ?case
  proof (cases "d = cur")
    case False
    with Cons show ?thesis by auto
  next
    case True
    let ?v = "degree deg t - 1"
    have le: "int (count_list ds cur) \<le> degree (om_set t ?v deg) t"
      using Cons.prems(1) True by simp
    have step: "relax_deps cur t ds (om_set t ?v deg, if ?v = 0 then q @ [t] else q) = (deg', q')"
      using Cons.prems(2) True by (simp add: Let_def)
    from Cons.IH [OF le step] Cons.prems(1) True show ?thesis
      by (auto simp: fun_eq_iff)
  qed
qed

lemma relax_all_spec:
  assumes "distinct (map fst ps)" and "\<forall>(t, ds) \<in> set ps. int (count_list ds cur) \<le> degree deg t"
    and "relax_all cur ps (deg, q) = (deg', q')"
  shows "(\<forall>t. degree deg' t = degree deg t - (case map_of ps t of None \<Rightarrow> 0 | Some ds \<Rightarrow> int (count_list ds cur))) \<and>
     q' = q @ map fst (filter (\<lambda>(t, ds). count_list ds cur > 0 \<and> degree deg t = int (count_list ds cur)) ps)"
  using assms
proof (induction ps arbitrary: deg q)
  case Nil
  then show ?case by simp
next
  case (Cons p ps)
  obtain t ds where p: "p = (t, ds)" by fastforce
  obtain deg1 q1 where 1: "relax_deps cur t ds (deg, q) = (deg1, q1)" by fastforce
  have s1: "degree deg1 = (degree deg)(t := degree deg t - int (count_list ds cur))"
    and q1: "q1 = q @ (if count_list ds cur > 0 \<and> degree deg t = int (count_list ds cur) then [t] else [])"
    using relax_deps_spec [OF _ 1] Cons.prems(2) p by auto
  have t: "t \<notin> fst ` set ps" and dps: "distinct (map fst ps)" using Cons.prems(1) p by auto
  have same: "u \<noteq> t" if "(u, us) \<in> set ps" for u us using t that by force
  have le: "\<forall>(u, us) \<in> set ps. int (count_list us cur) \<le> degree deg1 u"
    using Cons.prems(2) same by (force simp: s1)
  have flt: "filter (\<lambda>(u, us). count_list us cur > 0 \<and> degree deg1 u = int (count_list us cur)) ps =
      filter (\<lambda>(u, us). count_list us cur > 0 \<and> degree deg u = int (count_list us cur)) ps"
    by (rule filter_cong) (auto simp: s1 same)
  have "relax_all cur ps (deg1, q1) = (deg', q')" using Cons.prems(3) 1 p by simp
  from Cons.IH [OF dps le this] have
    ih: "\<And>u. degree deg' u = degree deg1 u - (case map_of ps u of None \<Rightarrow> 0 | Some ds \<Rightarrow> int (count_list ds cur))"
    and ih2: "q' = q1 @ map fst (filter (\<lambda>(t, ds). count_list ds cur > 0 \<and> degree deg t = int (count_list ds cur)) ps)"
    unfolding flt by blast+
  have "map_of ps t = None" using t by (simp add: map_of_eq_None_iff)
  then have "degree deg' u = degree deg u - (case map_of (p # ps) u of None \<Rightarrow> 0 | Some ds \<Rightarrow> int (count_list ds cur))" for u
    by (cases "u = t") (simp_all add: ih s1 p)
  moreover have "q' = q @ map fst (filter (\<lambda>(t, ds). count_list ds cur > 0 \<and> degree deg t = int (count_list ds cur)) (p # ps))"
    by (simp add: ih2 q1 p)
  ultimately show ?case by blast
qed

section \<open>Kahn's invariant\<close>

text \<open>
  Over a finite set R of types with dependency lists D: the degrees count the dependencies not
  yet placed, the queue holds the types of degree 0 not yet placed, and everything placed has
  its dependencies in front of it.
\<close>

definition kahn_inv ::
  "rtype set \<Rightarrow> (rtype \<Rightarrow> rtype list) \<Rightarrow> rtype list \<Rightarrow> (rtype, int) omap \<Rightarrow> rtype list \<Rightarrow> bool" where
  "kahn_inv R D queue deg order \<longleftrightarrow>
     distinct (order @ queue) \<and> set (order @ queue) = {t \<in> R. degree deg t = 0} \<and>
     (\<forall>t\<in>R. degree deg t = int (length (filter (\<lambda>d. d \<in> R \<and> d \<notin> set order) (D t)))) \<and>
     (\<forall>t\<in>set order. \<forall>d\<in>set (D t) \<inter> R. before order d t)"

lemma filter_place:
  "c \<in> R \<Longrightarrow> c \<notin> set order \<Longrightarrow>
     length (filter (\<lambda>d. d \<in> R \<and> d \<notin> set order) ds) =
     length (filter (\<lambda>d. d \<in> R \<and> d \<notin> set (order @ [c])) ds) + count_list ds c"
  by (induction ds) auto

lemma kahn_step:
  assumes inv: "kahn_inv R D (cur # queue) deg order"
    and ps: "distinct (map fst ps)" "\<And>t. map_of ps t = (if t \<in> R \<and> D t \<noteq> [] then Some (D t) else None)"
    and rel: "relax_all cur ps (deg, queue) = (deg', queue')"
  shows "kahn_inv R D queue' deg' (order @ [cur])"
proof -
  from inv have cur: "cur \<in> R" "cur \<notin> set order" "cur \<notin> set queue" "degree deg cur = 0"
    and dist: "distinct (order @ cur # queue)"
    and zero: "set (order @ cur # queue) = {t \<in> R. degree deg t = 0}"
    and cnt: "\<And>t. t \<in> R \<Longrightarrow> degree deg t = int (length (filter (\<lambda>d. d \<in> R \<and> d \<notin> set order) (D t)))"
    and pre: "\<And>t d. t \<in> set order \<Longrightarrow> d \<in> set (D t) \<inter> R \<Longrightarrow> before order d t"
    by (auto simp: kahn_inv_def)
  let ?rest = "\<lambda>t. int (length (filter (\<lambda>d. d \<in> R \<and> d \<notin> set (order @ [cur])) (D t)))"
  have split: "degree deg t = ?rest t + int (count_list (D t) cur)" if "t \<in> R" for t
    using cnt [OF that] filter_place [OF cur(1,2), of "D t"] by simp
  have le: "\<forall>(t, ds) \<in> set ps. int (count_list ds cur) \<le> degree deg t"
  proof clarify
    fix t ds assume "(t, ds) \<in> set ps"
    with ps(1) have "map_of ps t = Some ds" by simp
    then have "t \<in> R" "ds = D t" by (auto simp: ps(2) split: if_splits)
    with split show "int (count_list ds cur) \<le> degree deg t" by simp
  qed
  let ?new = "map fst (filter (\<lambda>(t, ds). count_list ds cur > 0 \<and> degree deg t = int (count_list ds cur)) ps)"
  from relax_all_spec [OF ps(1) le rel]
  have deg': "\<And>t. degree deg' t = degree deg t - (case map_of ps t of None \<Rightarrow> 0 | Some ds \<Rightarrow> int (count_list ds cur))"
    and queue': "queue' = queue @ ?new" by auto
  have new: "t \<in> set ?new \<longleftrightarrow> t \<in> R \<and> count_list (D t) cur > 0 \<and> degree deg t = int (count_list (D t) cur)" for t
  proof -
    have "t \<in> set ?new \<longleftrightarrow> (\<exists>ds. map_of ps t = Some ds \<and> count_list ds cur > 0 \<and>
        degree deg t = int (count_list ds cur))"
      by (force simp: map_of_eq_Some_iff [OF ps(1)])
    also have "\<dots> \<longleftrightarrow> t \<in> R \<and> count_list (D t) cur > 0 \<and> degree deg t = int (count_list (D t) cur)"
      by (auto simp: ps(2))
    finally show ?thesis .
  qed
  have deg'R: "degree deg' t = ?rest t" if "t \<in> R" for t
    using split [OF that] that by (auto simp: deg' ps(2))
  have "distinct ?new" using ps(1) by (rule distinct_map_filter)
  moreover have "set ?new \<inter> set (order @ cur # queue) = {}"
    unfolding zero using new by auto
  ultimately have "distinct ((order @ [cur]) @ queue')" using dist queue' by auto
  moreover have "set ((order @ [cur]) @ queue') = {t \<in> R. degree deg' t = 0}"
  proof (intro set_eqI iffI)
    fix t
    assume t: "t \<in> set ((order @ [cur]) @ queue')"
    show "t \<in> {t \<in> R. degree deg' t = 0}"
    proof (cases "t \<in> set ?new")
      case True
      then show ?thesis using new [of t] split [of t] deg'R [of t] by simp
    next
      case False
      with t queue' have "t \<in> set (order @ cur # queue)" by auto
      then have t: "t \<in> R" "degree deg t = 0" unfolding zero by auto
      with split [of t] have "?rest t = 0" by linarith
      with t deg'R [of t] show ?thesis by simp
    qed
  next
    fix t
    assume "t \<in> {t \<in> R. degree deg' t = 0}"
    then have t: "t \<in> R" "degree deg t = int (count_list (D t) cur)"
      using split [of t] deg'R [of t] by auto
    show "t \<in> set ((order @ [cur]) @ queue')"
    proof (cases "count_list (D t) cur > 0")
      case True
      with t have "t \<in> set ?new" using new by blast
      with queue' show ?thesis by simp
    next
      case False
      with t have "t \<in> set (order @ cur # queue)" unfolding zero by simp
      with queue' show ?thesis by auto
    qed
  qed
  moreover have "before (order @ [cur]) d t" if "t \<in> set (order @ [cur])" "d \<in> set (D t) \<inter> R" for t d
  proof (cases "t = cur")
    case True
    have "filter (\<lambda>d. d \<in> R \<and> d \<notin> set order) (D cur) = []"
      using cnt [OF cur(1)] cur(4) by simp
    with that True have "d \<in> set order" by (auto simp: filter_empty_conv)
    with True show ?thesis by (simp add: before_snoc)
  next
    case False
    with that pre show ?thesis by (auto intro: before_append_left)
  qed
  ultimately show ?thesis using deg'R by (auto simp: kahn_inv_def)
qed

lemma topo_loop_inv:
  assumes "kahn_inv R D queue deg order"
    and "distinct (map fst ps)" "\<And>t. map_of ps t = (if t \<in> R \<and> D t \<noteq> [] then Some (D t) else None)"
  shows "\<exists>deg'. kahn_inv R D [] deg' (topo_loop ps queue deg order)"
  using assms
proof (induction ps queue deg order rule: topo_loop.induct)
  case (1 ps deg order)
  then show ?case by auto
next
  case (2 ps cur queue deg order)
  obtain deg' queue' where r: "relax_all cur ps (deg, queue) = (deg', queue')" by fastforce
  with 2 kahn_step [OF "2.prems"(1) "2.prems"(2,3) r] show ?case by simp
qed

lemma kahn_stuck:
  assumes "kahn_inv R D [] deg order" and "t \<in> R - set order"
  shows "\<exists>d \<in> R - set order. d \<in> set (D t)"
proof -
  from assms(1) have "set order = {t \<in> R. degree deg t = 0}"
    and deg: "\<forall>t\<in>R. degree deg t = int (length (filter (\<lambda>d. d \<in> R \<and> d \<notin> set order) (D t)))"
    unfolding kahn_inv_def append_Nil2 by blast+
  with assms(2) have "degree deg t \<noteq> 0" by blast
  with deg assms(2) have "filter (\<lambda>d. d \<in> R \<and> d \<notin> set order) (D t) \<noteq> []" by fastforce
  then show ?thesis by (auto simp: filter_empty_conv)
qed

section \<open>The sort is right, and fails exactly on a cycle\<close>

text \<open>An edge (d, t): the constructor registered for t takes the registered type d.\<close>

definition dep_rel :: "di \<Rightarrow> (rtype \<times> rtype) set" where
  "dep_rel s = {(d, t). om_get (registrations s) d \<noteq> None \<and>
     (\<exists>reg. om_get (registrations s) t = Some reg \<and>
        d \<in> alias_target s ` set (ct_ins (reg_ctor reg)))}"

definition reg_keys :: "di \<Rightarrow> rtype list" where
  "reg_keys s = om_keys (registrations s)"

lemma topo_sort_eval:
  "om_inv (registrations s) \<Longrightarrow>
     topo_sort s = (if length (topo_order s) \<noteq> length (reg_keys s) then Inl CircularTopo
                    else Inr (topo_order s))"
  by (simp add: topo_sort_def om_len_keys reg_keys_def)

lemma topo_sort_kahn:
  assumes "om_inv (registrations s)"
  obtains D deg order where
    "topo_sort s = (if length order \<noteq> length (reg_keys s) then Inl CircularTopo else Inr order)"
    "kahn_inv (set (reg_keys s)) D [] deg order"
    "\<And>t. D t = (case om_get (registrations s) t of None \<Rightarrow> []
                 | Some reg \<Rightarrow> map (alias_target s) (ct_ins (reg_ctor reg)))"
proof -
  let ?regs = "registrations s"
  let ?deps = "collect_deps (alias_target s) (om_all ?regs)"
  let ?deg = "in_degrees ?regs ?deps"
  let ?queue = "map fst (filter (\<lambda>(t, d). d = 0) (om_all ?deg))"
  let ?D = "\<lambda>t. case om_get ?regs t of None \<Rightarrow> []
                 | Some reg \<Rightarrow> map (alias_target s) (ct_ins (reg_ctor reg))"
  let ?R = "set (reg_keys s)"
  note dist = om_distinct_keys [OF assms]
  have d: "distinct (map fst (om_all ?regs))" using dist by (simp add: om_keys_all)
  have deps: "om_get ?deps t = (case om_get ?regs t of None \<Rightarrow> None
       | Some reg \<Rightarrow> if ct_ins (reg_ctor reg) = [] then None
                      else Some (map (alias_target s) (ct_ins (reg_ctor reg))))" for t
    using collect_deps_spec(2) [OF d] om_map_of_all [OF assms] by metis
  have inv_deps: "om_inv ?deps" by (rule collect_deps_spec(1) [OF d])
  have R: "t \<in> ?R \<longleftrightarrow> om_get ?regs t \<noteq> None" for t
    using om_keys_iff [OF assms] by (simp add: reg_keys_def)
  have Dlist: "(case om_get ?deps t of None \<Rightarrow> [] | Some v \<Rightarrow> v) = ?D t" for t
    by (auto simp: deps split: option.splits)
  have deg: "degree ?deg t = int (length (filter (\<lambda>d. om_get ?regs d \<noteq> None) (?D t)))" if "t \<in> ?R" for t
    using in_degrees_spec(3) [OF assms, of t ?deps] that Dlist by (simp add: reg_keys_def)
  have keys: "om_keys ?deg = reg_keys s"
    using in_degrees_spec(2) [OF assms] by (simp add: reg_keys_def)
  have deg_all: "om_all ?deg = map (\<lambda>t. (t, degree ?deg t)) (reg_keys s)"
    using om_all_degree [OF in_degrees_spec(1) [OF assms]] by (simp only: keys)
  have queue: "?queue = filter (\<lambda>t. degree ?deg t = 0) (reg_keys s)"
    by (simp add: deg_all filter_map comp_def)
  have init: "kahn_inv ?R ?D ?queue ?deg []"
    unfolding kahn_inv_def queue using dist deg by (auto simp: reg_keys_def R [unfolded reg_keys_def])
  have ps: "distinct (map fst (om_all ?deps))"
    using om_distinct_keys [OF inv_deps] by (simp add: om_keys_all)
  have mps: "map_of (om_all ?deps) t = (if t \<in> ?R \<and> ?D t \<noteq> [] then Some (?D t) else None)" for t
    using R by (auto simp: om_map_of_all [OF inv_deps] deps split: option.splits)
  let ?order = "topo_loop (om_all ?deps) ?queue ?deg []"
  obtain deg' where fin: "kahn_inv ?R ?D [] deg' ?order"
    using topo_loop_inv [OF init ps mps] by blast
  have "topo_sort s = (if length ?order \<noteq> length (reg_keys s) then Inl CircularTopo else Inr ?order)"
    by (simp add: topo_sort_def topo_order_def Let_def om_len_keys [OF assms] reg_keys_def)
  then show thesis using fin by (rule that) simp
qed

lemma distinct_full:
  "distinct xs \<Longrightarrow> set xs \<subseteq> set ys \<Longrightarrow> distinct ys \<Longrightarrow> length xs = length ys \<Longrightarrow> set xs = set ys"
  by (metis card_subset_eq distinct_card finite_set)

lemma topo_sort_order:
  assumes "om_inv (registrations s)" and "topo_sort s = Inr order"
  shows "distinct order" and "set order = set (reg_keys s)"
    and "(d, t) \<in> dep_rel s \<Longrightarrow> before order d t"
proof -
  obtain D deg order' where *:
    "topo_sort s = (if length order' \<noteq> length (reg_keys s) then Inl CircularTopo else Inr order')"
    "kahn_inv (set (reg_keys s)) D [] deg order'"
    "\<And>t. D t = (case om_get (registrations s) t of None \<Rightarrow> []
                 | Some reg \<Rightarrow> map (alias_target s) (ct_ins (reg_ctor reg)))"
    by (rule topo_sort_kahn [OF assms(1)], rule that)
  from *(1) assms(2) have o: "order' = order" "length order = length (reg_keys s)"
    by (auto split: if_splits)
  from *(2) o show d: "distinct order" by (simp add: kahn_inv_def)
  from *(2) o have "set order \<subseteq> set (reg_keys s)" by (auto simp: kahn_inv_def)
  with d o om_distinct_keys [OF assms(1)] show full: "set order = set (reg_keys s)"
    by (intro distinct_full) (simp_all add: reg_keys_def)
  assume "(d, t) \<in> dep_rel s"
  then have "d \<in> set (D t) \<inter> set (reg_keys s)" "t \<in> set order"
    using *(3) om_keys_iff [OF assms(1)] full by (auto simp: dep_rel_def reg_keys_def)
  with *(2) o show "before order d t" by (auto simp: kahn_inv_def)
qed

lemma before_takeWhile:
  assumes "distinct xs" and "before xs a b"
  shows "length (takeWhile (\<lambda>x. x \<noteq> a) xs) < length (takeWhile (\<lambda>x. x \<noteq> b) xs)"
proof -
  from assms(2) obtain us vs where xs: "xs = us @ b # vs" and a: "a \<in> set us"
    by (auto simp: before_def)
  from assms(1) xs have "b \<notin> set us" by simp
  then have "takeWhile (\<lambda>x. x \<noteq> b) xs = us" by (simp add: xs takeWhile_tail) (induction us, auto)
  moreover have "takeWhile (\<lambda>x. x \<noteq> a) xs = takeWhile (\<lambda>x. x \<noteq> a) us"
    using a by (simp add: xs takeWhile_append1)
  moreover have "length (takeWhile (\<lambda>x. x \<noteq> a) us) < length us"
    using a by (induction us) auto
  ultimately show ?thesis by simp
qed

lemma topo_sort_acyclic:
  assumes "om_inv (registrations s)"
  shows "is_ok (topo_sort s) \<longleftrightarrow> acyclic (dep_rel s)"
proof
  assume "is_ok (topo_sort s)"
  then obtain order where ok: "topo_sort s = Inr order" by (auto split: sum.splits)
  let ?pos = "\<lambda>t. length (takeWhile (\<lambda>x. x \<noteq> t) order)"
  have "dep_rel s \<subseteq> measure ?pos"
    using topo_sort_order(3) [OF assms ok] before_takeWhile [OF topo_sort_order(1) [OF assms ok]]
    by auto
  then show "acyclic (dep_rel s)" by (meson acyclic_subset wf_acyclic wf_measure)
next
  assume acyc: "acyclic (dep_rel s)"
  obtain D deg order where *:
    "topo_sort s = (if length order \<noteq> length (reg_keys s) then Inl CircularTopo else Inr order)"
    "kahn_inv (set (reg_keys s)) D [] deg order"
    "\<And>t. D t = (case om_get (registrations s) t of None \<Rightarrow> []
                 | Some reg \<Rightarrow> map (alias_target s) (ct_ins (reg_ctor reg)))"
    by (rule topo_sort_kahn [OF assms], rule that)
  let ?S = "set (reg_keys s) - set order"
  have edge: "(d, t) \<in> dep_rel s" if "t \<in> ?S" "d \<in> ?S" "d \<in> set (D t)" for d t
    using that *(3) om_keys_iff [OF assms] by (auto simp: dep_rel_def reg_keys_def split: option.splits)
  have "dep_rel s \<subseteq> set (reg_keys s) \<times> set (reg_keys s)"
    using om_keys_iff [OF assms] by (auto simp: dep_rel_def reg_keys_def)
  then have "finite (dep_rel s)" by (rule finite_subset) simp
  then have wf: "wf (dep_rel s)" using acyc by (rule finite_acyclic_wf)
  have "?S = {}"
  proof (rule ccontr)
    assume "?S \<noteq> {}"
    then obtain t where t: "t \<in> ?S" "\<And>d. (d, t) \<in> dep_rel s \<Longrightarrow> d \<notin> ?S"
      using wf unfolding wf_eq_minimal by blast
    from kahn_stuck [OF *(2) t(1)] edge t show False by blast
  qed
  moreover have "set order \<subseteq> set (reg_keys s)" and "distinct order"
    using *(2) unfolding kahn_inv_def append_Nil2 by blast+
  ultimately have "set order = set (reg_keys s)" by blast
  then have "length order = length (reg_keys s)"
    using \<open>distinct order\<close> om_distinct_keys [OF assms] by (metis distinct_card reg_keys_def)
  with *(1) show "is_ok (topo_sort s)" by simp
qed

end
