(* ===== verification/Di_Build.thy ===== *)
theory Di_Build
  imports Di_Resolution Di_Topo
begin

text \<open>
  BuildAll: the validations, the Init of pre-registered instances, and the eager build of every
  singleton in topological order; and initializedServices, which a failed start-up uses to
  close what had been initialized.
\<close>

section \<open>The operations\<close>

definition validate_aliases :: "di \<Rightarrow> gerr option" where
  "validate_aliases s =
     (case List.find (\<lambda>(a, t). om_get (registrations s) t = None \<and> om_get (instances s) t = None)
             (om_all (aliases s)) of
        Some (a, t) \<Rightarrow> Some (NotRegisteredAlias t a)
      | None \<Rightarrow> None)"

text \<open>The first offending dependency of a constructor, and the first offending constructor.\<close>

fun captive_in :: "di \<Rightarrow> rtype \<Rightarrow> lifetime \<Rightarrow> rtype list \<Rightarrow> gerr option" where
  "captive_in s t l [] = None"
| "captive_in s t l (d # ds) =
     (let d' = alias_target s d in
      if om_get (instances s) d' \<noteq> None then captive_in s t l ds
      else (case om_get (registrations s) d' of
              None \<Rightarrow> captive_in s t l ds
            | Some dreg \<Rightarrow>
                if l = Singleton \<and> reg_lifetime dreg = Scoped then Some (Captive Scoped t d')
                else if l = Singleton \<and> reg_lifetime dreg = Transient then Some (Captive Transient t d')
                else captive_in s t l ds))"

fun validate_lifetimes_loop :: "di \<Rightarrow> (rtype \<times> registration) list \<Rightarrow> gerr option" where
  "validate_lifetimes_loop s [] = None"
| "validate_lifetimes_loop s ((t, reg) # ps) =
     (case captive_in s t (reg_lifetime reg) (ct_ins (reg_ctor reg)) of
        Some e \<Rightarrow> Some e
      | None \<Rightarrow> validate_lifetimes_loop s ps)"

definition validate_lifetimes :: "di \<Rightarrow> gerr option" where
  "validate_lifetimes s = validate_lifetimes_loop s (om_all (registrations s))"

fun first_error :: "('a \<Rightarrow> gerr option) \<Rightarrow> 'a list \<Rightarrow> gerr option" where
  "first_error f [] = None"
| "first_error f (x # xs) = (case f x of Some e \<Rightarrow> Some e | None \<Rightarrow> first_error f xs)"

definition validate_service_shapes :: "world \<Rightarrow> di \<Rightarrow> gerr option" where
  "validate_service_shapes w s =
     (case first_error (\<lambda>t. validate_service_shape w (Some t)) (om_keys (registrations s)) of
        Some e \<Rightarrow> Some e
      | None \<Rightarrow> first_error (\<lambda>v. validate_service_shape w (concrete_type v)) (om_values (instances s)))"

text \<open>claimInstanceInit: v.Interface() panics on the zero Value of a nil instance.\<close>

datatype claim = NotClaimed | Claimed rvalue | ClaimPanics

definition claim_instance_init :: "world \<Rightarrow> rtype \<Rightarrow> di \<Rightarrow> claim \<times> di" where
  "claim_instance_init w t s =
     (if t \<in> inited s then (NotClaimed, s)
      else (case om_get (instances s) t of
              None \<Rightarrow> (NotClaimed, s)
            | Some Invalid \<Rightarrow> (ClaimPanics, s)
            | Some v \<Rightarrow> if as_service w v then (Claimed v, s\<lparr>inited := insert t (inited s)\<rparr>)
                        else (NotClaimed, s)))"

fun init_instances_loop :: "world \<Rightarrow> rtype list \<Rightarrow> di \<Rightarrow> gerr option \<times> di" where
  "init_instances_loop w [] s = (None, s)"
| "init_instances_loop w (t # ts) s =
     (case claim_instance_init w t s of
        (NotClaimed, s1) \<Rightarrow> init_instances_loop w ts s1
      | (ClaimPanics, s1) \<Rightarrow> (Some (PanicZeroValue t), s1)
      | (Claimed v, s1) \<Rightarrow>
          (case init_service w t v s1 of
             (Some e, s2) \<Rightarrow> (Some e, s2\<lparr>inited := inited s2 - {t}\<rparr>)
           | (None, s2) \<Rightarrow> init_instances_loop w ts s2))"

definition init_instances :: "world \<Rightarrow> di \<Rightarrow> gerr option \<times> di" where
  "init_instances w s = init_instances_loop w (om_keys (instances s)) s"

text \<open>
  initializedServices, \<open>None\<close> where v.Interface() panics. A value seen before is dropped.
\<close>

fun initialized_loop :: "world \<Rightarrow> di \<Rightarrow> (rtype \<times> rvalue) list \<Rightarrow> rvalue list \<Rightarrow> rvalue list option" where
  "initialized_loop w s [] out = Some out"
| "initialized_loop w s ((t, v) # ps) out =
     (if v = Invalid then None
      else if \<not> as_service w v then initialized_loop w s ps out
      else (let is_inited = t \<in> inited s;
                built = (case om_get (registrations s) t of
                           Some reg \<Rightarrow> reg_lifetime reg = Singleton | None \<Rightarrow> False)
            in if \<not> is_inited \<and> \<not> built then initialized_loop w s ps out
               else if v \<in> set out then initialized_loop w s ps out
               else initialized_loop w s ps (out @ [v])))"

definition initialized_services :: "world \<Rightarrow> di \<Rightarrow> rvalue list option" where
  "initialized_services w s = initialized_loop w s (om_all (instances s)) []"

fun build_loop :: "world \<Rightarrow> rtype list \<Rightarrow> di \<Rightarrow> gerr option \<times> di" where
  "build_loop w [] s = (None, s)"
| "build_loop w (t # ts) s =
     (if om_get (instances s) t \<noteq> None then build_loop w ts s
      else (case om_get (registrations s) t of
              None \<Rightarrow> build_loop w ts s
            | Some reg \<Rightarrow>
                if reg_lifetime reg \<noteq> Singleton then build_loop w ts s
                else (case resolve_singleton w [] t s of
                        (Inl e, s1) \<Rightarrow> (Some (Building t e), s1)
                      | (Inr v, s1) \<Rightarrow> build_loop w ts s1)))"

definition build_all :: "world \<Rightarrow> di \<Rightarrow> gerr option \<times> di" where
  "build_all w s =
     (case validate_service_shapes w s of
        Some e \<Rightarrow> (Some e, s)
      | None \<Rightarrow>
     (case validate_aliases s of
        Some e \<Rightarrow> (Some e, s)
      | None \<Rightarrow>
     (case validate_lifetimes s of
        Some e \<Rightarrow> (Some e, s)
      | None \<Rightarrow>
     (case init_instances w s of
        (Some e, s1) \<Rightarrow> (Some e, s1)
      | (None, s1) \<Rightarrow>
     (case topo_sort s1 of
        Inl e \<Rightarrow> (Some e, s1)
      | Inr order \<Rightarrow> build_loop w order s1)))))"

section \<open>The validations\<close>

lemma captive_in_None:
  "captive_in s t Singleton ds = None \<Longrightarrow> d \<in> set ds \<Longrightarrow>
     om_get (instances s) (alias_target s d) = None \<Longrightarrow>
     om_get (registrations s) (alias_target s d) = Some dreg \<Longrightarrow>
     reg_lifetime dreg \<noteq> Scoped \<and> reg_lifetime dreg \<noteq> Transient"
  by (induction ds) (auto simp: Let_def split: if_splits option.splits)

lemma validate_lifetimes_loop_None:
  "validate_lifetimes_loop s ps = None \<Longrightarrow> (t, reg) \<in> set ps \<Longrightarrow>
     captive_in s t (reg_lifetime reg) (ct_ins (reg_ctor reg)) = None"
  by (induction ps) (auto split: option.splits)

text \<open>No singleton depends on a scoped or transient service that has no instance.\<close>

definition dep_ok :: "di \<Rightarrow> rtype \<Rightarrow> bool" where
  "dep_ok s d \<longleftrightarrow> om_get (instances s) d \<noteq> None \<or>
     (\<forall>reg. om_get (registrations s) d = Some reg \<longrightarrow>
        reg_lifetime reg \<noteq> Scoped \<and> reg_lifetime reg \<noteq> Transient)"

definition captive_free :: "di \<Rightarrow> bool" where
  "captive_free s \<longleftrightarrow>
     (\<forall>t reg d. om_get (registrations s) t = Some reg \<longrightarrow> reg_lifetime reg = Singleton \<longrightarrow>
        d \<in> set (deps_of s t) \<longrightarrow> dep_ok s d)"

lemma validate_lifetimes_captive_free:
  assumes "om_inv (registrations s)" and "validate_lifetimes s = None"
  shows "captive_free s"
  unfolding captive_free_def dep_ok_def
proof (intro allI impI)
  fix t reg d
  assume reg: "om_get (registrations s) t = Some reg" "reg_lifetime reg = Singleton"
    and d: "d \<in> set (deps_of s t)"
  from reg assms have "captive_in s t Singleton (ct_ins (reg_ctor reg)) = None"
    by (metis om_all_mem validate_lifetimes_def validate_lifetimes_loop_None)
  with captive_in_None [OF this] d reg(1)
  show "om_get (instances s) d \<noteq> None \<or>
    (\<forall>reg. om_get (registrations s) d = Some reg \<longrightarrow>
        reg_lifetime reg \<noteq> Scoped \<and> reg_lifetime reg \<noteq> Transient)"
    by (auto simp: deps_of_def)
qed

lemma dep_ok_grows: "dep_ok s d \<Longrightarrow> grows s s' \<Longrightarrow> dep_ok s' d"
  unfolding dep_ok_def grows_def by (metis option.exhaust)

lemma captive_free_grows:
  assumes "captive_free s" and g: "grows s s'"
  shows "captive_free s'"
proof -
  have "registrations s' = registrations s" using g by (simp add: grows_def)
  with assms show ?thesis
    unfolding captive_free_def grows_deps_of [OF g] using dep_ok_grows [OF _ g] by metis
qed

lemma captive_free_cong:
  "registrations s' = registrations s \<Longrightarrow> aliases s' = aliases s \<Longrightarrow> instances s' = instances s \<Longrightarrow>
   captive_free s' = captive_free s"
  using deps_of_cong [of s' s] by (simp add: captive_free_def dep_ok_def)

section \<open>Init of the pre-registered instances\<close>

lemma init_service_frame:
  "init_service w t v s = (r, s') \<Longrightarrow> s' = s\<lparr>evs := evs s'\<rparr> \<and> (\<exists>es. evs s' = evs s @ es)"
  by (auto simp: init_service_def Let_def split: if_splits option.splits)

lemma init_instances_loop_frame:
  "init_instances_loop w ts s = (r, s') \<Longrightarrow>
     registrations s' = registrations s \<and> instances s' = instances s \<and> aliases s' = aliases s \<and>
     building s' = building s"
proof (induction ts arbitrary: s)
  case Nil
  then show ?case by simp
next
  case (Cons t ts)
  show ?case
  proof (cases "claim_instance_init w t s")
    case (Pair c s1)
    then have s1: "registrations s1 = registrations s \<and> instances s1 = instances s \<and>
        aliases s1 = aliases s \<and> building s1 = building s"
      by (auto simp: claim_instance_init_def split: if_splits option.splits rvalue.splits)
    show ?thesis
    proof (cases c)
      case NotClaimed
      with Cons Pair s1 show ?thesis by auto
    next
      case ClaimPanics
      with Cons Pair s1 show ?thesis by auto
    next
      case (Claimed v)
      obtain x s2 where i: "init_service w t v s1 = (x, s2)" by fastforce
      with init_service_frame [OF i] have s2: "registrations s2 = registrations s1 \<and>
          instances s2 = instances s1 \<and> aliases s2 = aliases s1 \<and> building s2 = building s1"
        by (metis (no_types, lifting) di.select_convs di.surjective di.update_convs(8))
      with Cons.IH [of s2] Cons.prems Pair Claimed i s1 show ?thesis
        by (auto split: option.splits)
    qed
  qed
qed

section \<open>The build loop\<close>

lemma build_loop_spec:
  assumes "build_loop w ts s = (r, s')" and "om_inv (instances s)"
  shows "grows s s'" and "deps_first s s'"
    and "r = None \<Longrightarrow> t \<in> set ts \<Longrightarrow> om_get (registrations s) t = Some reg \<Longrightarrow>
         reg_lifetime reg = Singleton \<Longrightarrow> t \<in> set (inst_keys s')"
proof -
  have "grows s s' \<and> deps_first s s' \<and> (r = None \<longrightarrow> (\<forall>t\<in>set ts. \<forall>reg.
      om_get (registrations s) t = Some reg \<longrightarrow> reg_lifetime reg = Singleton \<longrightarrow> t \<in> set (inst_keys s')))"
    using assms
  proof (induction ts arbitrary: s)
    case Nil
    then show ?case by simp
  next
    case (Cons t ts)
    show ?case
    proof (cases "om_get (instances s) t = None \<and>
        (\<exists>reg. om_get (registrations s) t = Some reg \<and> reg_lifetime reg = Singleton)")
      case False
      then have eq: "build_loop w ts s = (r, s')"
        using Cons.prems(1) by (auto split: if_splits option.splits)
      from Cons.IH [OF eq Cons.prems(2)] have IH: "grows s s'" "deps_first s s'"
        "r = None \<Longrightarrow> (\<forall>t\<in>set ts. \<forall>reg. om_get (registrations s) t = Some reg \<longrightarrow>
           reg_lifetime reg = Singleton \<longrightarrow> t \<in> set (inst_keys s'))"
        by blast+
      have "t \<in> set (inst_keys s')" if "om_get (registrations s) t = Some reg"
        "reg_lifetime reg = Singleton" for reg
        using False that grows_keys [OF IH(1)] om_keys_iff [OF Cons.prems(2), of t]
        by (auto simp: inst_keys_def)
      with IH show ?thesis by auto
    next
      case True
      obtain x s1 where r1: "resolve_singleton w [] t s = (x, s1)" by fastforce
      have g1: "grows s s1" by (rule growing.resolve_singleton_R [OF r1])
      have d1: "deps_first s s1" "is_ok x \<longrightarrow> t \<in> set (inst_keys s1)"
        using resolution_deps_first(2) [OF r1 Cons.prems(2)] by blast+
      show ?thesis
      proof (cases x)
        case (Inl e)
        with Cons.prems(1) True r1 g1 d1 show ?thesis by (auto split: option.splits)
      next
        case (Inr v)
        have inv1: "om_inv (instances s1)" by (rule om_inv_grows [OF g1 Cons.prems(2)])
        have eq: "build_loop w ts s1 = (r, s')"
          using Cons.prems(1) True r1 Inr by (auto split: option.splits)
        from Cons.IH [OF eq inv1] have IH: "grows s1 s'" "deps_first s1 s'"
          "r = None \<Longrightarrow> (\<forall>t\<in>set ts. \<forall>reg. om_get (registrations s1) t = Some reg \<longrightarrow>
             reg_lifetime reg = Singleton \<longrightarrow> t \<in> set (inst_keys s'))"
          by blast+
        have "registrations s1 = registrations s" using g1 by (simp add: grows_def)
        moreover have "t \<in> set (inst_keys s')" using d1 Inr grows_keys [OF IH(1)] by auto
        ultimately show ?thesis
          using IH grows_trans [OF g1 IH(1)] deps_first_trans [OF d1(1) IH(2) g1 IH(1)] by auto
      qed
    qed
  qed
  then show "grows s s'" "deps_first s s'"
    "r = None \<Longrightarrow> t \<in> set ts \<Longrightarrow> om_get (registrations s) t = Some reg \<Longrightarrow>
         reg_lifetime reg = Singleton \<Longrightarrow> t \<in> set (inst_keys s')"
    by blast+
qed

text \<open>The phases of a BuildAll that succeeds.\<close>

lemma build_all_phases:
  assumes "build_all w s = (None, s')"
  obtains s1 order where "validate_service_shapes w s = None" "validate_aliases s = None"
    "validate_lifetimes s = None" "init_instances w s = (None, s1)" "topo_sort s1 = Inr order"
    "build_loop w order s1 = (None, s')"
  using assms by (auto simp: build_all_def split: option.splits prod.splits sum.splits)

end
