(* ===== verification/Di_Lifecycle.thy ===== *)
theory Di_Lifecycle
  imports Di_Build
begin

text \<open>
  The life of a container: the states reachable by registering, resolving and building, the
  invariants they keep, and what BuildAll, initializedServices and Scope.Close promise the
  application's start-up and shutdown.
\<close>

section \<open>Reachable containers\<close>

lemma wf_cached:
  assumes "wf_di s \<longrightarrow> wf_di s1" and "registrations s1 = registrations s"
    and "om_get (registrations s) t \<noteq> None" and "wf_di s"
  shows "wf_di (s1\<lparr>instances := om_set t v (instances s1), building := b\<rparr>)"
proof -
  from assms have wf: "wf_di s1" by simp
  have no_alias: "om_get (aliases s1) t = None"
  proof (cases "om_get (aliases s1) t")
    case (Some u)
    with wf have "om_get (registrations s1) t = None" by (simp add: wf_di_def)
    with assms(2,3) show ?thesis by simp
  qed
  then have "om_get (aliases s1) a = Some u \<Longrightarrow> a \<noteq> t" for a u by auto
  with wf show ?thesis by (auto simp: wf_di_def om_inv_set)
qed

definition keeps_wf :: "di \<Rightarrow> di \<Rightarrow> bool" where
  "keeps_wf s s' \<longleftrightarrow> registrations s' = registrations s \<and> (wf_di s \<longrightarrow> wf_di s')"

lemma wf_di_upd [simp]:
  "wf_di (s\<lparr>building := b\<rparr>) = wf_di s" "wf_di (s\<lparr>evs := es\<rparr>) = wf_di s"
  "wf_di (s\<lparr>inited := i\<rparr>) = wf_di s" "wf_di (s\<lparr>resolved := m, sorder := ts\<rparr>) = wf_di s"
  by (simp_all add: wf_di_def)

lemma wf_di_cong:
  "registrations s' = registrations s \<Longrightarrow> instances s' = instances s \<Longrightarrow> aliases s' = aliases s \<Longrightarrow>
     wf_di s' = wf_di s"
  by (simp add: wf_di_def)

lemma keeps_wf_init_instance: "keeps_wf s (snd (init_instance w t v s))"
proof (cases "init_instance w t v s")
  case (Pair r s')
  from init_instance_frame [OF this] wf_di_cong [of s' s] show ?thesis
    by (simp add: Pair keeps_wf_def)
qed

interpretation wf_kept: resolution_frame keeps_wf
proof (unfold_locales, goal_cases)
  case 5
  show ?case by (rule keeps_wf_init_instance)
next
  case 6
  then show ?case unfolding keeps_wf_def
    by (metis (no_types, lifting) di.select_convs(1) di.surjective di.update_convs(2,5)
        wf_cached wf_di_upd(1))
qed (simp_all add: keeps_wf_def)

lemma wf_init_instances:
  "init_instances w s = (r, s') \<Longrightarrow> wf_di s' = wf_di s"
  unfolding init_instances_def using init_instances_loop_frame wf_di_cong by blast

lemma wf_build_loop: "build_loop w ts s = (r, s') \<Longrightarrow> wf_di s \<Longrightarrow> wf_di s'"
proof (induction ts arbitrary: s)
  case Nil
  then show ?case by simp
next
  case (Cons t ts)
  obtain x s1 where r: "resolve_singleton w [] t s = (x, s1)" by fastforce
  have "wf_di s1" using wf_kept.resolve_singleton_R [OF r] Cons.prems(2) by (simp add: keeps_wf_def)
  with Cons r show ?case by (auto split: if_splits option.splits sum.splits)
qed

lemma wf_build_all: "build_all w s = (r, s') \<Longrightarrow> wf_di s \<Longrightarrow> wf_di s'"
  by (auto simp: build_all_def wf_init_instances
           split: option.splits sum.splits prod.splits intro: wf_build_loop)

inductive di_step :: "world \<Rightarrow> di \<Rightarrow> di \<Rightarrow> bool" for w :: world where
  service: "register_service w t c l s = Inr s' \<Longrightarrow> di_step w s s'"
| value_of: "register_instance t v s = Inr s' \<Longrightarrow> di_step w s s'"
| alias_of: "register_alias w t a s = Inr s' \<Longrightarrow> di_step w s s'"
| build: "build_all w s = (r, s') \<Longrightarrow> di_step w s s'"
| resolve: "resolve_from w k stk t s = (res, s') \<Longrightarrow> di_step w s s'"
| scope_new: "di_step w s (new_scope s)"
| scope_closed: "scope_close w s = (es, s') \<Longrightarrow> di_step w s s'"

inductive di_reachable :: "world \<Rightarrow> di \<Rightarrow> bool" for w :: world where
  start: "di_reachable w new_container"
| step: "di_reachable w s \<Longrightarrow> di_step w s s' \<Longrightarrow> di_reachable w s'"

lemma resolve_from_frame:
  "resolve_from w k stk t s = (res, s') \<Longrightarrow> \<exists>res'. resolve_type w k stk t s = (res', s')"
  by (auto simp: resolve_from_def split: sum.splits prod.splits)

lemma scope_close_loop_spec:
  "scope_close_loop w ts s = (es, s') \<Longrightarrow>
     es = List.map_filter (w_close w) (filter (as_service w) (List.map_filter (resolved s) ts)) \<and>
     s' = s\<lparr>evs := evs s @ map EvClose (filter (as_service w) (List.map_filter (resolved s) ts))\<rparr>"
proof (induction ts arbitrary: s es s')
  case Nil
  then show ?case by (simp add: map_filter_simps)
next
  case (Cons t ts)
  show ?case
  proof (cases "resolved s t")
    case None
    with Cons show ?thesis by (simp add: map_filter_simps)
  next
    case (Some v)
    show ?thesis
    proof (cases "as_service w v")
      case False
      with Cons Some show ?thesis by (simp add: map_filter_simps)
    next
      case True
      obtain es1 s1 where r: "scope_close_loop w ts (s\<lparr>evs := evs s @ [EvClose v]\<rparr>) = (es1, s1)"
        by fastforce
      from Cons.IH [OF r] Cons.prems True Some r show ?thesis
        by (auto simp: map_filter_simps split: option.splits)
    qed
  qed
qed

lemma wf_di_step: "di_step w s s' \<Longrightarrow> wf_di s \<Longrightarrow> wf_di s'"
proof (induction rule: di_step.induct)
  case (resolve k stk t s res s')
  then show ?case
    using resolve_from_frame wf_kept.resolve_type_R by (metis keeps_wf_def)
next
  case (scope_closed s es s')
  then show ?case by (simp add: scope_close_def) (drule scope_close_loop_spec, simp)
next
  case (scope_new s)
  then show ?case by (simp add: new_scope_def)
qed (auto intro: wf_build_all wf_register_service wf_register_instance wf_register_alias)

lemma reachable_wf: "di_reachable w s \<Longrightarrow> wf_di s"
  by (induction rule: di_reachable.induct) (auto intro: wf_di_step)

section \<open>Which services have been initialized\<close>

definition inits :: "di \<Rightarrow> rvalue set" where
  "inits s = {v. \<exists>t. EvInit t v True \<in> set (evs s)}"

text \<open>
  The services among the cached instances whose type is in A or a singleton; with A the inited
  types these are the ones initializedServices looks for.
\<close>

definition live_on :: "world \<Rightarrow> rtype set \<Rightarrow> di \<Rightarrow> rtype \<Rightarrow> rvalue \<Rightarrow> bool" where
  "live_on w A s t v \<longleftrightarrow> om_get (instances s) t = Some v \<and> as_service w v \<and>
     (t \<in> A \<or> (\<exists>reg. om_get (registrations s) t = Some reg \<and> reg_lifetime reg = Singleton))"

definition lives_on :: "world \<Rightarrow> rtype set \<Rightarrow> di \<Rightarrow> rvalue set" where
  "lives_on w A s = {v. \<exists>t. live_on w A s t v}"

definition lives :: "world \<Rightarrow> di \<Rightarrow> rvalue set" where
  "lives w s = lives_on w (inited s) s"

definition service_set :: "world \<Rightarrow> rvalue \<Rightarrow> rvalue set" where
  "service_set w v = (if as_service w v then {v} else {})"

text \<open>No type has both a pre-registered instance and a singleton constructor.\<close>

definition exclusive :: "di \<Rightarrow> bool" where
  "exclusive s \<longleftrightarrow> (\<forall>t reg. om_get (instances s) t \<noteq> None \<longrightarrow>
     om_get (registrations s) t = Some reg \<longrightarrow> reg_lifetime reg \<noteq> Singleton)"

lemma inits_upd [simp]:
  "inits (s\<lparr>building := b\<rparr>) = inits s" "inits (s\<lparr>inited := i\<rparr>) = inits s"
  "inits (s\<lparr>instances := m\<rparr>) = inits s" "inits (s\<lparr>evs := evs s @ [EvCtor t]\<rparr>) = inits s"
  "inits (s\<lparr>evs := evs s @ [EvInit t v False]\<rparr>) = inits s"
  "inits (s\<lparr>evs := evs s @ [EvInit t v False, EvClose v]\<rparr>) = inits s"
  "inits (s\<lparr>evs := evs s @ [EvInit t v True]\<rparr>) = insert v (inits s)"
  by (auto simp: inits_def)

lemma lives_upd [simp]:
  "lives_on w A (s\<lparr>building := b\<rparr>) = lives_on w A s" "lives_on w A (s\<lparr>evs := es\<rparr>) = lives_on w A s"
  "lives_on w A (s\<lparr>inited := i\<rparr>) = lives_on w A s" "lives w (s\<lparr>evs := es\<rparr>) = lives w s"
  by (simp_all add: lives_def lives_on_def live_on_def)

lemma lives_cached:
  assumes "om_get (instances s) t = None"
    and "om_get (registrations s) t = Some reg" and "reg_lifetime reg = Singleton"
  shows "lives_on w A (s\<lparr>instances := om_set t v (instances s), building := b\<rparr>) =
    lives_on w A s \<union> service_set w v"
proof -
  have "live_on w A (s\<lparr>instances := om_set t v (instances s), building := b\<rparr>) t' v' \<longleftrightarrow>
      live_on w A s t' v' \<or> (t' = t \<and> v' = v \<and> as_service w v)" for t' v'
    using assms by (auto simp: live_on_def)
  then show ?thesis by (auto simp: lives_on_def service_set_def)
qed

lemma initialized_loop_spec:
  "initialized_loop w s ps out = Some vs \<Longrightarrow>
     set vs = set out \<union> {v. \<exists>t. (t, v) \<in> set ps \<and> as_service w v \<and> (t \<in> inited s \<or>
       (\<exists>reg. om_get (registrations s) t = Some reg \<and> reg_lifetime reg = Singleton))} \<and>
     (distinct out \<longrightarrow> distinct vs)"
proof (induction ps arbitrary: out)
  case Nil
  then show ?case by simp
next
  case (Cons p ps)
  obtain t v where p: "p = (t, v)" by fastforce
  define built where "built \<longleftrightarrow>
    (\<exists>reg. om_get (registrations s) t = Some reg \<and> reg_lifetime reg = Singleton)"
  have b: "(case om_get (registrations s) t of Some reg \<Rightarrow> reg_lifetime reg = Singleton
      | None \<Rightarrow> False) = built"
    by (auto simp: built_def split: option.splits)
  show ?case
  proof (cases "as_service w v \<and> (t \<in> inited s \<or> built) \<and> v \<notin> set out")
    case True
    with Cons.prems have "initialized_loop w s ps (out @ [v]) = Some vs"
      by (auto simp: p b Let_def split: if_splits)
    from Cons.IH [OF this] True show ?thesis by (auto simp: p built_def)
  next
    case False
    with Cons.prems have "initialized_loop w s ps out = Some vs"
      by (auto simp: p b Let_def split: if_splits)
    from Cons.IH [OF this] False show ?thesis by (auto simp: p built_def)
  qed
qed

lemma initialized_services_lives:
  "om_inv (instances s) \<Longrightarrow> initialized_services w s = Some vs \<Longrightarrow>
     set vs = lives w s \<and> distinct vs"
  unfolding initialized_services_def
  by (drule initialized_loop_spec) (auto simp: om_all_mem lives_def lives_on_def live_on_def)

lemma init_instance_inits:
  assumes "init_instance w t v s = (res, s')"
  shows "res = Inr v' \<Longrightarrow> v' = v \<and> inits s' = inits s \<union> service_set w v"
    and "res = Inl e \<Longrightarrow> inits s' = inits s"
  using assms
  by (auto simp: init_instance_def init_service_def service_set_def Let_def
           split: option.splits prod.splits if_splits)

text \<open>A type under construction is cached by its own build alone.\<close>

definition keeps_guard :: "di \<Rightarrow> di \<Rightarrow> bool" where
  "keeps_guard s s' \<longleftrightarrow> building s' = building s \<and>
     (\<forall>t \<in> building s. om_get (instances s) t = None \<longrightarrow> om_get (instances s') t = None)"

lemma keeps_guard_init_instance: "keeps_guard s (snd (init_instance w t v s))"
  using init_instance_frame [of w t v s] by (cases "init_instance w t v s") (simp add: keeps_guard_def)

interpretation guarded: resolution_frame keeps_guard
proof (unfold_locales, goal_cases)
  case 5
  show ?case by (rule keeps_guard_init_instance)
next
  case 6
  then show ?case by (auto simp: keeps_guard_def)
qed (simp_all add: keeps_guard_def)

lemma captive_free_building [simp]:
  "captive_free (s\<lparr>building := b\<rparr>) = captive_free s"
  by (rule captive_free_cong) simp_all

lemma dep_ok_building [simp]: "dep_ok (s\<lparr>building := b\<rparr>) = dep_ok s"
  by (simp add: dep_ok_def fun_eq_iff)

lemma resolution_lives:
  shows "\<And>res s'. resolve_type w r stk t s = (res, s') \<Longrightarrow> r = FromContainer \<Longrightarrow>
      captive_free s \<Longrightarrow> dep_ok s (alias_target s t) \<Longrightarrow> inits s = lives_on w A s \<Longrightarrow> inits s' = lives_on w A s'"
    and "\<And>res s' reg. resolve_singleton w stk t s = (res, s') \<Longrightarrow> captive_free s \<Longrightarrow>
      om_get (registrations s) t = Some reg \<Longrightarrow> reg_lifetime reg = Singleton \<Longrightarrow>
      inits s = lives_on w A s \<Longrightarrow> inits s' = lives_on w A s'"
    and "\<And>res s' reg. invoke w r stk t s = (res, s') \<Longrightarrow> r = FromContainer \<Longrightarrow> captive_free s \<Longrightarrow>
      om_get (registrations s) t = Some reg \<Longrightarrow> reg_lifetime reg = Singleton \<Longrightarrow>
      inits s = lives_on w A s \<Longrightarrow>
      inits s' = lives_on w A s' \<union> (case res of Inl _ \<Rightarrow> {} | Inr v \<Rightarrow> service_set w v)"
    and "\<And>res s'. resolve_ctor_args w r stk t ds s = (res, s') \<Longrightarrow> r = FromContainer \<Longrightarrow>
      captive_free s \<Longrightarrow> \<forall>d\<in>set ds. dep_ok s (alias_target s d) \<Longrightarrow>
      inits s = lives_on w A s \<Longrightarrow> inits s' = lives_on w A s'"
proof (induction w r stk t s and w stk t s and w r stk t s and w r stk t ds s
    rule: resolve_type_resolve_singleton_invoke_resolve_ctor_args.induct)
  case (1 w r stk t s)
  from "1.prems"(1) show ?case
  proof (cases rule: resolve_type_cases)
    case (singleton reg)
    with 1 show ?thesis by (simp add: scope_lookup_def)
  next
    case (transient reg)
    with 1 show ?thesis by (auto simp: dep_ok_def)
  qed (use "1.prems" in simp_all)
next
  case (2 w stk t s)
  from "2.prems"(1) show ?case
  proof (cases rule: resolve_singleton_cases)
    case (failed e s1)
    with 2 show ?thesis by auto
  next
    case (built v s1)
    have g: "keeps_guard (s\<lparr>building := insert t (building s)\<rparr>) s1"
      by (rule guarded.invoke_R [OF built(3)])
    have "registrations s1 = registrations s" using growing.invoke_R [OF built(3)] by (simp add: grows_def)
    moreover have "om_get (instances s1) t = None" using g built(1) by (simp add: keeps_guard_def)
    moreover have "inits s1 = lives_on w A s1 \<union> service_set w v" using 2 built by auto
    ultimately show ?thesis using built(5) 2 lives_cached [of s1 t] by simp
  qed (use 2 in auto)
next
  case (3 w r stk t s)
  have ok: "\<forall>d\<in>set (ct_ins (reg_ctor reg)). dep_ok s (alias_target s d)"
    using 3 by (auto simp: captive_free_def deps_of_def)
  from "3.prems"(1) show ?case
  proof (cases rule: invoke_cases)
    case (args_failed reg' stk' e)
    with 3 ok show ?thesis by auto
  next
    case (ctor_failed reg' stk' args s1 e)
    with 3 ok show ?thesis by auto
  next
    case (constructed reg' stk' args s1 v)
    have IH: "inits s1 = lives_on w A s1" using 3 ok constructed by auto
    have fr: "instances s' = instances s1" "registrations s' = registrations s1"
      using init_instance_frame [OF constructed(5)] by simp_all
    have "grows s1 s'" using constructed(5)
      by (metis grows_evs grows_init_instance grows_trans snd_conv)
    with fr have "lives_on w A s' = lives_on w A s1" by (simp add: lives_on_def live_on_def)
    then show ?thesis
      using IH init_instance_inits [OF constructed(5)] by (cases res) auto
  qed (use 3 in auto)
next
  case (4 w r stk t s)
  then show ?case by simp
next
  case (5 w r stk t d ds s)
  have rest: ?case if "resolve_type w r stk d s = (Inr v, s1)"
    and "resolve_ctor_args w r stk t ds s1 = (res', s')" for v s1 res'
  proof -
    have g: "grows s s1" by (rule growing.resolve_type_R [OF that(1)])
    have "inits s1 = lives_on w A s1" using 5 that by auto
    moreover have "\<forall>d\<in>set ds. dep_ok s1 (alias_target s1 d)"
      using "5.prems"(4) dep_ok_grows [OF _ g] grows_alias_target [OF g] by auto
    ultimately show ?thesis
      using "5.IH"(2) [OF that(1) [symmetric] refl that(2)] "5.prems" captive_free_grows [OF _ g] that by auto
  qed
  from "5.prems"(1) show ?case
  proof (cases rule: resolve_ctor_args_cases)
    case (first_failed e)
    with 5 show ?thesis by auto
  next
    case (rest_failed v s1 e)
    show ?thesis by (rule rest [OF rest_failed(1,2)])
  next
    case (all v s1 vs)
    show ?thesis by (rule rest [OF all(1,2)])
  qed
qed

section \<open>Init of instances and the eager build\<close>

lemma live_inited:
  assumes "exclusive s" and "om_get (instances s) t = Some v" and "as_service w v"
  shows "lives w (s\<lparr>inited := insert t (inited s)\<rparr>) = insert v (lives w s)"
  using assms by (auto simp: lives_def lives_on_def live_on_def)

lemma exclusive_upd [simp]:
  "exclusive (s\<lparr>inited := i\<rparr>) = exclusive s" "exclusive (s\<lparr>evs := es\<rparr>) = exclusive s"
  by (simp_all add: exclusive_def)

lemma init_service_inits:
  "init_service w t v s = (r, s') \<Longrightarrow>
     inits s' = inits s \<union> (if r = None then {v} else {}) \<and> lives w s' = lives w s"
  by (auto simp: init_service_def Let_def split: option.splits if_splits)

lemma lives_of_service_evs:
  "init_service w t v s = (r, s') \<Longrightarrow> s' = s\<lparr>evs := evs s'\<rparr>"
  by (drule init_service_frame) simp

lemma init_instances_lives:
  "init_instances_loop w ts s = (r, s') \<Longrightarrow> exclusive s \<Longrightarrow> inits s = lives w s \<Longrightarrow>
     inits s' = lives w s'"
proof (induction ts arbitrary: s)
  case Nil
  then show ?case by simp
next
  case (Cons t ts)
  show ?case
  proof (cases "fst (claim_instance_init w t s)")
    case NotClaimed
    then have "claim_instance_init w t s = (NotClaimed, s)"
      by (auto simp: claim_instance_init_def split: if_splits option.splits rvalue.splits)
    with Cons show ?thesis by simp
  next
    case ClaimPanics
    then have "claim_instance_init w t s = (ClaimPanics, s)"
      by (auto simp: claim_instance_init_def split: if_splits option.splits rvalue.splits)
    with Cons show ?thesis by simp
  next
    case (Claimed v)
    then have c: "claim_instance_init w t s = (Claimed v, s\<lparr>inited := insert t (inited s)\<rparr>)"
      and v: "om_get (instances s) t = Some v" "as_service w v" "t \<notin> inited s"
      by (auto simp: claim_instance_init_def split: if_splits option.splits rvalue.splits)
    obtain x s2 where i: "init_service w t v (s\<lparr>inited := insert t (inited s)\<rparr>) = (x, s2)" by fastforce
    note l = live_inited [OF Cons.prems(2) v(1,2)]
    note e = init_service_inits [OF i] lives_of_service_evs [OF i]
    show ?thesis
    proof (cases x)
      case None
      have "inits s2 = lives w s2" using e(1) l None Cons.prems(3) by simp
      moreover have "exclusive s2" using e(2) Cons.prems(2) by (metis exclusive_upd)
      ultimately show ?thesis using Cons c i None by simp
    next
      case (Some err)
      have "s2\<lparr>inited := inited s2 - {t}\<rparr> = s\<lparr>evs := evs s2\<rparr>"
        using e(2) v(3) by (metis (no_types, lifting) Diff_insert_absorb di.select_convs(3)
            di.surjective di.update_convs(3,8))
      then have "lives w (s2\<lparr>inited := inited s2 - {t}\<rparr>) = lives w s" by simp
      moreover have "inits s2 = inits s" using e(1) Some by simp
      ultimately show ?thesis using Cons c i Some by auto
    qed
  qed
qed

lemma build_loop_lives:
  "build_loop w ts s = (r, s') \<Longrightarrow> captive_free s \<Longrightarrow> inits s = lives_on w A s \<Longrightarrow> inits s' = lives_on w A s'"
proof (induction ts arbitrary: s)
  case Nil
  then show ?case by simp
next
  case (Cons t ts)
  show ?case
  proof (cases "om_get (instances s) t = None \<and>
      (\<exists>reg. om_get (registrations s) t = Some reg \<and> reg_lifetime reg = Singleton)")
    case False
    with Cons show ?thesis by (auto split: if_splits option.splits)
  next
    case True
    obtain x s1 where r1: "resolve_singleton w [] t s = (x, s1)" by fastforce
    have "inits s1 = lives_on w A s1" using resolution_lives(2) [OF r1] True Cons.prems by blast
    moreover have "captive_free s1"
      using captive_free_grows [OF Cons.prems(2)] growing.resolve_singleton_R [OF r1] by blast
    ultimately show ?thesis using Cons True r1 by (auto split: option.splits sum.splits)
  qed
qed

lemma build_loop_grows: "build_loop w ts s = (r, s') \<Longrightarrow> grows s s'"
proof (induction ts arbitrary: s)
  case Nil
  then show ?case by simp
next
  case (Cons t ts)
  obtain x s1 where r: "resolve_singleton w [] t s = (x, s1)" by fastforce
  from growing.resolve_singleton_R [OF r] Cons r show ?case
    by (auto split: if_splits option.splits sum.splits intro: grows_trans)
qed

lemma build_all_lives:
  assumes "build_all w s = (r, s')" and "wf_di s" and "exclusive s" and "inits s = lives w s"
  shows "inits s' = lives w s'"
proof (cases "validate_service_shapes w s = None \<and> validate_aliases s = None \<and>
    validate_lifetimes s = None")
  case False
  with assms show ?thesis by (auto simp: build_all_def split: option.splits)
next
  case True
  obtain x s1 where i: "init_instances w s = (x, s1)" by fastforce
  have l1: "inits s1 = lives w s1"
    using init_instances_lives i assms(3,4) unfolding init_instances_def by blast
  have "captive_free s" using validate_lifetimes_captive_free assms(2) True by (simp add: wf_di_def)
  then have c1: "captive_free s1"
    using init_instances_loop_frame i captive_free_cong unfolding init_instances_def by metis
  from assms(1) True i have "s' = s1 \<or> (\<exists>order. build_loop w order s1 = (r, s'))"
    by (auto simp: build_all_def split: option.splits sum.splits)
  then show ?thesis
  proof
    assume "\<exists>order. build_loop w order s1 = (r, s')"
    then obtain order where b: "build_loop w order s1 = (r, s')" by blast
    have "inited s' = inited s1" using build_loop_grows [OF b] by (simp add: grows_def)
    then show ?thesis using build_loop_lives [OF b c1 l1 [unfolded lives_def]] by (simp add: lives_def)
  qed (use l1 in simp)
qed

section \<open>What a successful BuildAll leaves\<close>

text \<open>No Close so far.\<close>

definition unclosed :: "di \<Rightarrow> bool" where
  "unclosed s \<longleftrightarrow> (\<forall>v. EvClose v \<notin> set (evs s))"

lemma unclosed_upd [simp]:
  "unclosed (s\<lparr>building := b\<rparr>) = unclosed s" "unclosed (s\<lparr>inited := i\<rparr>) = unclosed s"
  "unclosed (s\<lparr>instances := m\<rparr>) = unclosed s" "unclosed (s\<lparr>evs := evs s @ [EvCtor t]\<rparr>) = unclosed s"
  "unclosed (s\<lparr>resolved := r, sorder := ts\<rparr>) = unclosed s"
  by (simp_all add: unclosed_def)

lemma init_service_unclosed:
  "init_service w t v s = (None, s') \<Longrightarrow> unclosed s' = unclosed s"
  by (auto simp: init_service_def unclosed_def Let_def split: if_splits option.splits)

lemma init_instance_unclosed:
  "init_instance w t v s = (Inr v', s') \<Longrightarrow> unclosed s' = unclosed s"
  by (auto simp: init_instance_def init_service_unclosed split: if_splits option.splits prod.splits)

lemma resolution_unclosed:
  shows "\<And>v s'. resolve_type w r stk t s = (Inr v, s') \<Longrightarrow> unclosed s \<Longrightarrow> unclosed s'"
    and "\<And>v s'. resolve_singleton w stk t s = (Inr v, s') \<Longrightarrow> unclosed s \<Longrightarrow> unclosed s'"
    and "\<And>v s'. invoke w r stk t s = (Inr v, s') \<Longrightarrow> unclosed s \<Longrightarrow> unclosed s'"
    and "\<And>vs s'. resolve_ctor_args w r stk t ds s = (Inr vs, s') \<Longrightarrow> unclosed s \<Longrightarrow> unclosed s'"
proof (induction w r stk t s and w stk t s and w r stk t s and w r stk t ds s
    rule: resolve_type_resolve_singleton_invoke_resolve_ctor_args.induct)
  case (1 w r stk t s)
  from "1.prems"(1) show ?case
    by (cases rule: resolve_type_cases) (use 1 in \<open>auto simp: scope_lookup_def\<close>)
next
  case (2 w stk t s)
  from "2.prems"(1) show ?case
    by (cases rule: resolve_singleton_cases) (use 2 in auto)
next
  case (3 w r stk t s)
  from "3.prems"(1) show ?case
  proof (cases rule: invoke_cases)
    case (constructed reg stk' args s1 v')
    with 3 have "unclosed s1" by auto
    then show ?thesis using constructed(5) by (auto dest: init_instance_unclosed)
  qed simp_all
next
  case (4 w r stk t s)
  then show ?case by simp
next
  case (5 w r stk t d ds s)
  from "5.prems"(1) show ?case
    by (cases rule: resolve_ctor_args_cases) (use 5 in auto)
qed

lemma build_loop_unclosed: "build_loop w ts s = (None, s') \<Longrightarrow> unclosed s \<Longrightarrow> unclosed s'"
proof (induction ts arbitrary: s)
  case Nil
  then show ?case by simp
next
  case (Cons t ts)
  obtain x s1 where r: "resolve_singleton w [] t s = (x, s1)" by fastforce
  with resolution_unclosed(2) Cons show ?case
    by (auto split: if_splits option.splits sum.splits)
qed

lemma init_instances_all:
  "init_instances_loop w ts s = (None, s') \<Longrightarrow> unclosed s \<Longrightarrow>
     unclosed s' \<and> inited s \<subseteq> inited s' \<and>
     (\<forall>t v. t \<in> set ts \<longrightarrow> om_get (instances s) t = Some v \<longrightarrow> as_service w v \<longrightarrow> t \<in> inited s')"
proof (induction ts arbitrary: s)
  case Nil
  then show ?case by simp
next
  case (Cons t ts)
  show ?case
  proof (cases "fst (claim_instance_init w t s)")
    case NotClaimed
    then have c: "claim_instance_init w t s = (NotClaimed, s)" and
      t: "\<forall>v. om_get (instances s) t = Some v \<longrightarrow> as_service w v \<longrightarrow> t \<in> inited s"
      by (auto simp: claim_instance_init_def split: if_splits option.splits rvalue.splits)
    with Cons.IH [of s] Cons.prems show ?thesis by auto
  next
    case ClaimPanics
    then have "claim_instance_init w t s = (ClaimPanics, s)"
      by (auto simp: claim_instance_init_def split: if_splits option.splits rvalue.splits)
    with Cons show ?thesis by simp
  next
    case (Claimed v)
    then have c: "claim_instance_init w t s = (Claimed v, s\<lparr>inited := insert t (inited s)\<rparr>)"
      by (auto simp: claim_instance_init_def split: if_splits option.splits rvalue.splits)
    obtain x s2 where i: "init_service w t v (s\<lparr>inited := insert t (inited s)\<rparr>) = (x, s2)" by fastforce
    with Cons.prems(1) c have x: "x = None" and rest: "init_instances_loop w ts s2 = (None, s')"
      by (auto split: option.splits)
    have "s2 = s\<lparr>inited := insert t (inited s), evs := evs s2\<rparr>"
      using init_service_frame [OF i] by simp
    then have "inited s2 = insert t (inited s)" "instances s2 = instances s"
      by (metis di.select_convs(3) di.surjective di.update_convs(3,8),
          metis di.select_convs(2) di.surjective di.update_convs(3,8))
    with Cons.IH [OF rest] init_service_unclosed [OF i [unfolded x]] Cons.prems(2)
    show ?thesis by auto
  qed
qed

lemma build_all_success:
  assumes "build_all w s = (None, s')" and "wf_di s" and "exclusive s" and "inits s = lives w s"
    and "unclosed s"
  shows "unclosed s' \<and> inits s' = lives_on w UNIV s'"
proof -
  obtain s1 order where v: "validate_lifetimes s = None" and i: "init_instances w s = (None, s1)"
    and o: "topo_sort s1 = Inr order" and b: "build_loop w order s1 = (None, s')"
    by (rule build_all_phases [OF assms(1)], rule that)
  note il = i [unfolded init_instances_def]
  have "captive_free s" using validate_lifetimes_captive_free assms(2) v by (simp add: wf_di_def)
  then have c1: "captive_free s1" using init_instances_loop_frame [OF il] captive_free_cong by metis
  have inv: "om_inv (instances s)" using assms(2) by (simp add: wf_di_def)
  have all: "om_get (instances s1) t = Some v \<Longrightarrow> as_service w v \<Longrightarrow> t \<in> inited s1" for t v
    using init_instances_all [OF il assms(5)] init_instances_loop_frame [OF il] om_keys_iff [OF inv, of t]
    by auto
  have "inits s1 = lives w s1" by (rule init_instances_lives [OF il assms(3,4)])
  also have "\<dots> = lives_on w UNIV s1" using all by (auto simp: lives_def lives_on_def live_on_def)
  finally have "inits s' = lives_on w UNIV s'" by (rule build_loop_lives [OF b c1])
  then show ?thesis
    using init_instances_all [OF il assms(5)] build_loop_unclosed [OF b] by blast
qed

section \<open>The scope's bookkeeping\<close>

definition scope_ok :: "di \<Rightarrow> bool" where
  "scope_ok s \<longleftrightarrow> distinct (sorder s) \<and> set (sorder s) = dom (resolved s)"

text \<open>A type whose constructor is running is not recorded in the scope by anybody else.\<close>

definition scope_kept :: "rtype set \<Rightarrow> di \<Rightarrow> di \<Rightarrow> bool" where
  "scope_kept U s s' \<longleftrightarrow> (scope_ok s \<longrightarrow> scope_ok s') \<and>
     (\<forall>u\<in>U. resolved s u = None \<longrightarrow> resolved s' u = None)"

lemma scope_kept_refl [simp]: "scope_kept U s s"
  by (simp add: scope_kept_def)

lemma scope_kept_trans: "scope_kept U s s1 \<Longrightarrow> scope_kept U s1 s2 \<Longrightarrow> scope_kept U s s2"
  by (simp add: scope_kept_def)

lemma scope_kept_mono: "scope_kept U s s' \<Longrightarrow> V \<subseteq> U \<Longrightarrow> scope_kept V s s'"
  by (auto simp: scope_kept_def)

lemma scope_kept_upd [simp]:
  "scope_kept U (s\<lparr>building := b\<rparr>) s' = scope_kept U s s'"
  "scope_kept U s (s'\<lparr>building := b\<rparr>) = scope_kept U s s'"
  "scope_kept U s (s'\<lparr>instances := m, building := b\<rparr>) = scope_kept U s s'"
  "scope_kept U s (s'\<lparr>evs := es\<rparr>) = scope_kept U s s'"
  "scope_kept U s (s'\<lparr>instances := m\<rparr>) = scope_kept U s s'"
  by (simp_all add: scope_kept_def scope_ok_def)

lemma scope_kept_init_instance: "init_instance w t v s = (res, s') \<Longrightarrow> scope_kept U s s'"
  by (auto simp: init_instance_def init_service_def Let_def split: option.splits prod.splits if_splits)

lemma scope_kept_recorded:
  assumes "scope_kept (insert t U) s s1" and "resolved s t = None" and "t \<notin> U"
  shows "scope_kept U s (s1\<lparr>resolved := (resolved s1)(t \<mapsto> v), sorder := sorder s1 @ [t]\<rparr>)"
  using assms by (auto simp: scope_kept_def scope_ok_def)

lemma invoke_not_on_stack: "invoke w r stk t s = (Inr v, s') \<Longrightarrow> t \<notin> set stk"
  by (auto elim!: invoke_cases dest: enter_build_Inr)

lemma resolution_scope:
  shows "\<And>res s'. resolve_type w r stk t s = (res, s') \<Longrightarrow> scope_kept (set stk) s s'"
    and "\<And>res s'. resolve_singleton w stk t s = (res, s') \<Longrightarrow> scope_kept (set stk) s s'"
    and "\<And>res s'. invoke w r stk t s = (res, s') \<Longrightarrow> scope_kept (insert t (set stk)) s s'"
    and "\<And>res s'. resolve_ctor_args w r stk t ds s = (res, s') \<Longrightarrow> scope_kept (set stk) s s'"
proof (induction w r stk t s and w stk t s and w r stk t s and w r stk t ds s
    rule: resolve_type_resolve_singleton_invoke_resolve_ctor_args.induct)
  case (1 w r stk t s)
  from "1.prems" show ?case
  proof (cases rule: resolve_type_cases)
    case (scoped reg v s1)
    have "scope_kept (insert (alias_target s t) (set stk)) s s1"
      using 1 scoped by (auto simp: scope_lookup_def)
    moreover have "alias_target s t \<notin> set stk" using scoped(6) by (rule invoke_not_on_stack)
    ultimately show ?thesis
      using scoped scope_kept_recorded by (simp add: scope_lookup_def)
  next
    case (transient reg)
    with 1 have "scope_kept (insert (alias_target s t) (set stk)) s s'" by (simp add: scope_lookup_def)
    then show ?thesis by (rule scope_kept_mono) auto
  next
    case (scoped_error reg e)
    with 1 have "scope_kept (insert (alias_target s t) (set stk)) s s'" by (simp add: scope_lookup_def)
    then show ?thesis by (rule scope_kept_mono) auto
  qed (use 1 in \<open>auto simp: scope_lookup_def\<close>)
next
  case (2 w stk t s)
  from "2.prems" show ?case
  proof (cases rule: resolve_singleton_cases)
    case (failed e s1)
    with 2 have "scope_kept (insert t (set stk)) s s1" by auto
    then show ?thesis using failed(5) scope_kept_mono [of _ s s1 "set stk"] by auto
  next
    case (built v s1)
    with 2 have "scope_kept (insert t (set stk)) s s1" by auto
    then show ?thesis using built(5) scope_kept_mono [of _ s s1 "set stk"] by auto
  qed auto
next
  case (3 w r stk t s)
  from "3.prems" show ?case
  proof (cases rule: invoke_cases)
    case (args_failed reg stk' e)
    with 3 have "scope_kept (set stk') s s'" by auto
    with enter_build_Inr [OF args_failed(2)] show ?thesis by simp
  next
    case (ctor_failed reg stk' args s1 e)
    with 3 have "scope_kept (set stk') s s1" by auto
    with enter_build_Inr [OF ctor_failed(2)] ctor_failed show ?thesis by simp
  next
    case (constructed reg stk' args s1 v)
    with 3 have "scope_kept (set stk') s s1" by auto
    with enter_build_Inr [OF constructed(2)] have "scope_kept (insert t (set stk)) s s1" by simp
    moreover have "scope_kept (insert t (set stk)) (s1\<lparr>evs := evs s1 @ [EvCtor t]\<rparr>) s'"
      by (rule scope_kept_init_instance [OF constructed(5)])
    ultimately show ?thesis
      by (metis scope_kept_refl scope_kept_trans scope_kept_upd(4))
  qed simp
next
  case (4 w r stk t s)
  then show ?case by simp
next
  case (5 w r stk t d ds s)
  from "5.prems" show ?case
    by (cases rule: resolve_ctor_args_cases) (use 5 in \<open>auto intro: scope_kept_trans\<close>)
qed

end
