(* ===== verification/Di_Properties.thy ===== *)
theory Di_Properties
  imports Di_Lifecycle
begin

text \<open>
  The properties of the container: build order, cycles and captive dependencies, which services
  a failed start has to close, stability of singletons, the scope's close order, and the
  behaviour of an Init that outlives its deadline. The witnesses run the model on a container
  of an API service that takes a database service and a logger.
\<close>

section \<open>A concrete container\<close>

definition demo_world :: world where
  "demo_world = \<lparr>w_implements = (\<lambda>d t. t = service_type \<and> d \<in> {''*Db'', ''*Api''}),
     w_assignable = (=), w_iface = (\<lambda>_. False), w_pointer = (\<lambda>_. True), w_ptr_to = (\<lambda>t. ''*'' @ t),
     w_method = (\<lambda>_ _. None),
     w_init = (\<lambda>v. \<lparr>ir_timeout = None, ir_err = None, ir_ctx_done = False,
                    ir_deadline = (v = Obj ''*Api'' 9)\<rparr>),
     w_close = (\<lambda>_. None), w_timeout = 5\<rparr>"

definition demo_ctor :: "rtype \<Rightarrow> nat \<Rightarrow> rtype list \<Rightarrow> ctor" where
  "demo_ctor t n ins = \<lparr>ct_func = True, ct_variadic = False, ct_ins = ins, ct_outs = [t],
     ct_call = (\<lambda>_. Inr (Obj t n))\<rparr>"

definition demo_di :: di where
  "demo_di = new_container\<lparr>registrations :=
     om_set ''*Db'' \<lparr>reg_ctor = demo_ctor ''*Db'' 1 [''*Log''], reg_lifetime = Singleton\<rparr>
       (om_set ''*Api'' \<lparr>reg_ctor = demo_ctor ''*Api'' 2 [''*Db''], reg_lifetime = Singleton\<rparr> om_empty),
     instances := om_set ''*Log'' (Obj ''*Log'' 0) om_empty\<rparr>"

lemma demo_reachable: "di_reachable demo_world demo_di"
proof -
  let ?s1 = "new_container\<lparr>registrations :=
    om_set ''*Api'' \<lparr>reg_ctor = demo_ctor ''*Api'' 2 [''*Db''], reg_lifetime = Singleton\<rparr> om_empty\<rparr>"
  let ?s2 = "?s1\<lparr>registrations :=
    om_set ''*Db'' \<lparr>reg_ctor = demo_ctor ''*Db'' 1 [''*Log''], reg_lifetime = Singleton\<rparr> (registrations ?s1)\<rparr>"
  have 1: "di_step demo_world new_container ?s1"
    by (rule di_step.service [of _ "''*Api''" "demo_ctor ''*Api'' 2 [''*Db'']" Singleton])
      (simp add: register_service_def validate_ctor_shape_def demo_ctor_def demo_world_def
        new_container_def om_defs)
  have 2: "di_step demo_world ?s1 ?s2"
    by (rule di_step.service [of _ "''*Db''" "demo_ctor ''*Db'' 1 [''*Log'']" Singleton])
      (simp add: register_service_def validate_ctor_shape_def demo_ctor_def demo_world_def
        new_container_def om_defs)
  have "di_step demo_world ?s2 demo_di"
    by (rule di_step.value_of [of "''*Log''" "Obj ''*Log'' 0"])
      (simp add: register_instance_def set_instance_def demo_di_def new_container_def om_defs)
  with 1 2 show ?thesis by (meson di_reachable.start di_reachable.step)
qed

lemma demo_wf: "wf_di demo_di"
  using demo_reachable by (rule reachable_wf)

lemma demo_phases:
  "validate_service_shapes demo_world demo_di = None" "validate_aliases demo_di = None"
  "validate_lifetimes demo_di = None"
  by code_simp+

lemma demo_init: "init_instances demo_world demo_di = (None, demo_di)"
  by (simp add: init_instances_def claim_instance_init_def demo_di_def new_container_def om_defs
      demo_world_def service_type_def)

lemma demo_topo: "topo_sort demo_di = Inr [''*Db'', ''*Api'']"
proof -
  have "topo_order demo_di = [''*Db'', ''*Api'']" "reg_keys demo_di = [''*Api'', ''*Db'']"
    by code_simp+
  then show ?thesis using topo_sort_eval [of demo_di] demo_wf by (simp add: wf_di_def)
qed

lemma demo_build_all:
  "build_all demo_world demo_di = build_loop demo_world [''*Db'', ''*Api''] demo_di"
  by (simp add: build_all_def demo_phases demo_init demo_topo)

lemma demo_build:
  "fst (build_all demo_world demo_di) = None"
  "inst_keys (snd (build_all demo_world demo_di)) = [''*Log'', ''*Db'', ''*Api'']"
  "evs (snd (build_all demo_world demo_di)) =
     [EvCtor ''*Db'', EvInit ''*Db'' (Obj ''*Db'' 1) True,
      EvCtor ''*Api'', EvInit ''*Api'' (Obj ''*Api'' 2) True]"
  unfolding demo_build_all by code_simp+

section \<open>Build order\<close>

text \<open>C1: the build order is right, and refused exactly for a dependency cycle. For every
  container the registration API can produce, topoSort succeeds if and only if the graph of
  constructor dependencies (aliases followed) is acyclic, and an order it returns lists every
  registered type once, with each type after all of its registered dependencies.\<close>

theorem topo_sort_correct:
  assumes "di_reachable w s"
  shows "(is_ok (topo_sort s) \<longleftrightarrow> acyclic (dep_rel s)) \<and>
    (\<forall>order. topo_sort s = Inr order \<longrightarrow> distinct order \<and> set order = set (reg_keys s) \<and>
       (\<forall>(d, t) \<in> dep_rel s. before order d t))"
proof -
  have inv: "om_inv (registrations s)" using reachable_wf [OF assms] by (simp add: wf_di_def)
  have "distinct order \<and> set order = set (reg_keys s) \<and> (\<forall>(d, t) \<in> dep_rel s. before order d t)"
    if o: "topo_sort s = Inr order" for order
  proof (intro conjI)
    show "distinct order" by (rule topo_sort_order(1) [OF inv o])
    show "set order = set (reg_keys s)" by (rule topo_sort_order(2) [OF inv o])
    show "\<forall>(d, t) \<in> dep_rel s. before order d t"
      by (rule ballI, rule case_prodI2) (simp add: topo_sort_order(3) [OF inv o])
  qed
  then show ?thesis by (intro conjI [OF topo_sort_acyclic [OF inv]] allI impI)
qed

theorem topo_sort_correct_witness:
  "topo_sort demo_di = Inr [''*Db'', ''*Api''] \<and> acyclic (dep_rel demo_di) \<and>
   dep_rel demo_di \<subseteq> {(d, t). before [''*Db'', ''*Api''] d t}"
proof -
  note c = topo_sort_correct [OF demo_reachable]
  from c have "acyclic (dep_rel demo_di)" unfolding demo_topo by simp
  moreover from c have "\<forall>(d, t) \<in> dep_rel demo_di. before [''*Db'', ''*Api''] d t"
    using demo_topo by blast
  then have "dep_rel demo_di \<subseteq> {(d, t). before [''*Db'', ''*Api''] d t}" by blast
  ultimately show ?thesis using demo_topo by (intro conjI)
qed

text \<open>C2: a successful BuildAll has cached every singleton after its dependencies. When BuildAll
  returns nil, each type registered as a singleton has an instance, and each one BuildAll built
  stands in the cache behind every instance and singleton its constructor takes, so shutting
  down in reverse order closes a service before what it uses.\<close>

theorem build_all_dependency_order:
  assumes "di_reachable w s" and "build_all w s = (None, s')"
    and "om_get (registrations s) t = Some reg" and "reg_lifetime reg = Singleton"
  shows "t \<in> set (inst_keys s') \<and>
    (om_get (instances s) t = None \<longrightarrow>
       (\<forall>d \<in> set (deps_of s t). singleton_dep s d \<longrightarrow> before (rev (inst_keys s')) t d))"
proof -
  have inv: "om_inv (registrations s)" "om_inv (instances s)"
    using reachable_wf [OF assms(1)] by (simp_all add: wf_di_def)
  obtain s1 order where i: "init_instances w s = (None, s1)" and o: "topo_sort s1 = Inr order"
    and b: "build_loop w order s1 = (None, s')"
    by (rule build_all_phases [OF assms(2)], rule that)
  have eq: "registrations s1 = registrations s" "instances s1 = instances s" "aliases s1 = aliases s"
    using init_instances_loop_frame i unfolding init_instances_def by blast+
  have deps: "deps_of s1 = deps_of s" by (rule deps_of_cong) (simp_all add: eq)
  from eq have same: "singleton_dep s1 = singleton_dep s"
    "inst_keys s1 = inst_keys s" "reg_keys s1 = reg_keys s"
    by (auto simp: singleton_dep_def inst_keys_def reg_keys_def fun_eq_iff)
  have inv1: "om_inv (registrations s1)" "om_inv (instances s1)" using inv eq by simp_all
  have "t \<in> set order"
    using topo_sort_order(2) [OF inv1(1) o] assms(3) om_keys_iff [OF inv(1), of t] same
    by (simp add: reg_keys_def)
  then have t: "t \<in> set (inst_keys s')"
    using build_loop_spec(3) [OF b inv1(2)] assms(3,4) eq by simp
  have dist: "distinct (inst_keys s')"
    using om_inv_grows [OF build_loop_spec(1) [OF b inv1(2)] inv1(2)]
    by (simp add: inst_keys_def om_distinct_keys)
  have "before (inst_keys s') d t"
    if "om_get (instances s) t = None" "d \<in> set (deps_of s t)" "singleton_dep s d" for d
    using build_loop_spec(2) [OF b inv1(2)] t that deps same om_keys_iff [OF inv(2), of t]
    by (auto simp: deps_first_def inst_keys_def)
  then show ?thesis using t dist by (simp add: before_rev)
qed

theorem build_all_dependency_order_witness:
  "before (rev (inst_keys (snd (build_all demo_world demo_di)))) ''*Api'' ''*Db'' \<and>
   before (rev (inst_keys (snd (build_all demo_world demo_di)))) ''*Db'' ''*Log''"
proof -
  have b: "build_all demo_world demo_di = (None, snd (build_all demo_world demo_di))"
    using demo_build(1) by (simp add: prod_eq_iff)
  have regs: "om_get (registrations demo_di) ''*Api'' =
      Some \<lparr>reg_ctor = demo_ctor ''*Api'' 2 [''*Db''], reg_lifetime = Singleton\<rparr>"
    "om_get (registrations demo_di) ''*Db'' =
      Some \<lparr>reg_ctor = demo_ctor ''*Db'' 1 [''*Log''], reg_lifetime = Singleton\<rparr>"
    by (simp_all add: demo_di_def)
  show ?thesis
    using build_all_dependency_order [OF demo_reachable b regs(1)]
      build_all_dependency_order [OF demo_reachable b regs(2)]
    by (simp add: deps_of_def singleton_dep_def alias_target_def demo_di_def demo_ctor_def
        new_container_def)
qed

text \<open>BuildAll accepts no cycle and no captive dependency. When it returns nil, the
  dependency graph is acyclic, and no singleton takes a scoped or transient service that is not
  pre-registered as an instance.\<close>

theorem build_all_rejects_bad_graphs:
  assumes "di_reachable w s" and "build_all w s = (None, s')"
  shows "acyclic (dep_rel s') \<and> captive_free s'"
proof -
  have inv: "om_inv (registrations s)" "om_inv (instances s)"
    using reachable_wf [OF assms(1)] by (simp_all add: wf_di_def)
  obtain s1 order where v: "validate_lifetimes s = None" and i: "init_instances w s = (None, s1)"
    and o: "topo_sort s1 = Inr order" and b: "build_loop w order s1 = (None, s')"
    by (rule build_all_phases [OF assms(2)], rule that)
  have eq: "registrations s1 = registrations s" "instances s1 = instances s" "aliases s1 = aliases s"
    using init_instances_loop_frame i unfolding init_instances_def by blast+
  have g: "grows s1 s'" using build_loop_spec(1) [OF b] inv eq by simp
  have "captive_free s1" using validate_lifetimes_captive_free [OF inv(1) v] captive_free_cong eq by metis
  then have "captive_free s'" using g by (rule captive_free_grows)
  moreover have "acyclic (dep_rel s1)" using topo_sort_acyclic [of s1] o inv eq by simp
  moreover have "dep_rel s' = dep_rel s1"
    using grows_alias_target [OF g] g by (simp add: dep_rel_def grows_def)
  ultimately show ?thesis by simp
qed

theorem build_all_rejects_bad_graphs_witness:
  "captive_free (snd (build_all demo_world demo_di))"
proof -
  have b: "build_all demo_world demo_di = (None, snd (build_all demo_world demo_di))"
    using demo_build(1) by (simp add: prod_eq_iff)
  show ?thesis using build_all_rejects_bad_graphs [OF demo_reachable b] by simp
qed

section \<open>What a failed start closes\<close>



text \<open>InitializedServices can name a service that was never initialized. A value registered
  with RegisterServiceInstance for a type that also has a singleton constructor counts as built,
  so when the Init of another instance fails before its own ran, it is reported all the same,
  and the start-up failure path closes a service that was never initialized.\<close>

definition overlap_world :: world where
  "overlap_world = demo_world\<lparr>w_init := (\<lambda>v. \<lparr>ir_timeout = None,
     ir_err = (if v = Obj ''*Db'' 1 then Some (UserErr ''no route'' False) else None),
     ir_ctx_done = False, ir_deadline = False\<rparr>)\<rparr>"

definition overlap_di :: di where
  "overlap_di = new_container\<lparr>registrations :=
       om_set ''*Api'' \<lparr>reg_ctor = demo_ctor ''*Api'' 2 [], reg_lifetime = Singleton\<rparr> om_empty,
     instances := om_set ''*Api'' (Obj ''*Api'' 7) (om_set ''*Db'' (Obj ''*Db'' 1) om_empty)\<rparr>"

lemma overlap_step: "init_instances overlap_world overlap_di =
  (Some (InitFailed ''*Db'' (UserErr ''no route'' False)),
   overlap_di\<lparr>evs := [EvInit ''*Db'' (Obj ''*Db'' 1) False]\<rparr>)"
  by (simp add: init_instances_def claim_instance_init_def overlap_di_def new_container_def om_defs
      overlap_world_def demo_world_def service_type_def init_service_def)

lemma overlap_valid:
  "validate_service_shapes overlap_world overlap_di = None" "validate_aliases overlap_di = None"
  "validate_lifetimes overlap_di = None"
  by code_simp+

theorem initialized_services_overlap:
  "\<exists>s'. build_all overlap_world overlap_di =
       (Some (InitFailed ''*Db'' (UserErr ''no route'' False)), s') \<and>
     initialized_services overlap_world s' = Some [Obj ''*Api'' 7] \<and>
     (\<forall>t b. EvInit t (Obj ''*Api'' 7) b \<notin> set (evs s'))"
proof -
  have "initialized_services overlap_world
      (overlap_di\<lparr>evs := [EvInit ''*Db'' (Obj ''*Db'' 1) False]\<rparr>) = Some [Obj ''*Api'' 7]"
    by code_simp
  moreover have "build_all overlap_world overlap_di =
      (Some (InitFailed ''*Db'' (UserErr ''no route'' False)),
       overlap_di\<lparr>evs := [EvInit ''*Db'' (Obj ''*Db'' 1) False]\<rparr>)"
    by (simp add: build_all_def overlap_valid overlap_step)
  ultimately show ?thesis by auto
qed

section \<open>Resolution\<close>

lemma resolve_type_caches:
  assumes "resolve_type w FromContainer stk t s = (Inr v, s1)" and "singleton_dep s (alias_target s t)"
  shows "om_get (instances s1) (alias_target s t) = Some v"
  using assms(1)
proof (cases rule: resolve_type_cases)
  case (singleton reg)
  from singleton(5) show ?thesis by (cases rule: resolve_singleton_cases) simp_all
qed (use assms(2) in \<open>auto simp: singleton_dep_def\<close>)

text \<open>A singleton is built once. After the container has resolved a type that is an instance
  or a singleton, resolving it again, from a state reached through any other resolution, yields
  the same value, changes nothing and calls no user code.\<close>

theorem singleton_stable:
  assumes "resolve_type w FromContainer stk t s = (Inr v, s1)"
    and "singleton_dep s (alias_target s t)"
    and "resolve_type w k stk2 u s1 = (res, s2)"
  shows "resolve_type w FromContainer stk3 t s2 = (Inr v, s2)"
proof -
  have g: "grows s s2"
    using growing.resolve_type_R [OF assms(1)] growing.resolve_type_R [OF assms(3)] by (rule grows_trans)
  have "om_get (instances s2) (alias_target s2 t) = Some v"
    using resolve_type_caches [OF assms(1,2)] growing.resolve_type_R [OF assms(3)]
      grows_alias_target [OF g] by (simp add: grows_def)
  then show ?thesis by (simp add: resolve_type.simps Let_def)
qed

theorem singleton_stable_witness:
  "\<exists>s1 s2. resolve_type demo_world FromContainer [] ''*Db'' demo_di = (Inr (Obj ''*Db'' 1), s1) \<and>
     resolve_type demo_world FromContainer [] ''*Api'' s1 = (Inr (Obj ''*Api'' 2), s2) \<and>
     resolve_type demo_world FromContainer [] ''*Db'' s2 = (Inr (Obj ''*Db'' 1), s2)"
proof -
  let ?r1 = "resolve_type demo_world FromContainer [] ''*Db'' demo_di"
  let ?r2 = "resolve_type demo_world FromContainer [] ''*Api'' (snd ?r1)"
  have "fst ?r1 = Inr (Obj ''*Db'' 1)" "fst ?r2 = Inr (Obj ''*Api'' 2)" by code_simp+
  then have 1: "?r1 = (Inr (Obj ''*Db'' 1), snd ?r1)" and 2: "?r2 = (Inr (Obj ''*Api'' 2), snd ?r2)"
    by (simp_all add: prod_eq_iff)
  have "singleton_dep demo_di (alias_target demo_di ''*Db'')"
    by (simp add: singleton_dep_def alias_target_def demo_di_def new_container_def)
  from singleton_stable [OF 1 this 2] 1 2 show ?thesis by blast
qed

text \<open>A dependency cycle is an error, not a hang. Asking the container for a type whose
  constructor is already running on this goroutine, with no instance to answer it, returns an
  error that errors.Is identifies as ErrCircularDependency and leaves the container as it was.\<close>

theorem resolve_cycle_detected:
  assumes "alias_target s t \<in> set stk" and "om_get (instances s) (alias_target s t) = None"
    and "om_get (registrations s) (alias_target s t) = Some reg"
    and "reg_lifetime reg = Singleton \<or> reg_lifetime reg = Transient"
  shows "\<exists>e. resolve_type w FromContainer stk t s = (Inl e, s) \<and> err_is e ErrCircularDependency"
proof -
  let ?t = "alias_target s t"
  have circ: "\<exists>e. cycle_in stk ?t = Some e \<and> err_is e ErrCircularDependency"
    using assms(1) by (induction stk) auto
  then obtain e where e: "cycle_in stk ?t = Some e" "err_is e ErrCircularDependency" by blast
  have inv: "invoke w FromContainer stk ?t s' = (Inl e, s')"
    if "registrations s' = registrations s" for s'
    using that assms(3) e(1) by (simp add: invoke.simps enter_build_def)
  have "resolve_singleton w stk ?t s = (Inl e, s)" if "?t \<notin> building s"
    using that assms(2) inv [of "s\<lparr>building := insert ?t (building s)\<rparr>"]
    by (simp add: resolve_singleton.simps)
  moreover have "resolve_singleton w stk ?t s = (Inl e, s)" if "?t \<in> building s"
    using that assms(2) e(1) by (simp add: resolve_singleton.simps)
  ultimately have "resolve_singleton w stk ?t s = (Inl e, s)" by blast
  then show ?thesis
    using assms(2-4) inv [of s] e(2) by (auto simp: resolve_type.simps Let_def)
qed

theorem resolve_cycle_detected_witness:
  "\<exists>e. resolve_type demo_world FromContainer [''*Api'', ''*Db''] ''*Api'' demo_di = (Inl e, demo_di) \<and>
     err_is e ErrCircularDependency"
  by (rule resolve_cycle_detected [where reg = "\<lparr>reg_ctor = demo_ctor ''*Api'' 2 [''*Db''],
        reg_lifetime = Singleton\<rparr>"])
    (simp_all add: alias_target_def demo_di_def new_container_def)

text \<open>An alias is one hop. In every container the API can produce, the target of an alias is
  not itself an alias and no alias has a registration or an instance of its own, so resolving
  through the target or through the alias reaches the same service.\<close>

theorem alias_single_hop:
  assumes "di_reachable w s"
  shows "alias_target s (alias_target s t) = alias_target s t \<and>
    (alias_target s t \<noteq> t \<longrightarrow> om_get (registrations s) t = None \<and> om_get (instances s) t = None) \<and>
    (is_ok (fst (resolve_type w k stk t s)) \<longrightarrow>
       resolve_type w k stk (alias_target s t) s = resolve_type w k stk t s)"
proof -
  note wf = reachable_wf [OF assms]
  note idem = alias_target_idem [OF wf, of t]
  have "alias_target s t \<noteq> t \<longrightarrow> om_get (registrations s) t = None \<and> om_get (instances s) t = None"
    using wf by (auto simp: wf_di_def alias_target_def split: option.splits)
  moreover have "is_ok (fst (resolve_type w k stk t s)) \<longrightarrow>
      resolve_type w k stk (alias_target s t) s = resolve_type w k stk t s"
    by (simp add: resolve_type.simps [of w k stk t] resolve_type.simps [of w k stk "alias_target s t"]
        idem Let_def split: option.split)
  ultimately show ?thesis using idem by (intro conjI)
qed

theorem alias_single_hop_witness:
  "alias_target demo_di (alias_target demo_di ''*Api'') = alias_target demo_di ''*Api''"
  by (rule alias_single_hop [OF demo_reachable, THEN conjunct1])

section \<open>Init under a deadline, and the scope\<close>

text \<open>A service whose Init returned no error is either accepted or closed. initService
  returns nil only after an Init without error, and when Init succeeded but overran the added
  deadline, the service is closed at once and the error is a context.DeadlineExceeded, joined
  with what Close returned.\<close>

theorem init_accepted_or_closed:
  assumes "init_service w t v s = (r, s')"
  shows "(r = None \<longrightarrow> ir_err (w_init w v) = None \<and> evs s' = evs s @ [EvInit t v True]) \<and>
    (\<forall>e. r = Some e \<longrightarrow> ir_err (w_init w v) = None \<longrightarrow>
       (\<exists>d. ir_timeout (w_init w v) = Some d \<and> d < 0) \<and> evs s' = evs s \<or>
       evs s' = evs s @ [EvInit t v False, EvClose v] \<and> err_is e ErrDeadlineExceeded \<and>
       (\<forall>ce. w_close w v = Some ce \<longrightarrow> (\<exists>es. e = Joined (es @ [CloseLate t ce]))))"
proof (intro conjI impI allI)
  assume "r = None"
  with assms show "ir_err (w_init w v) = None" and "evs s' = evs s @ [EvInit t v True]"
    by (auto simp: init_service_def Let_def split: if_splits option.splits)
next
  fix e
  assume r: "r = Some e" and ok: "ir_err (w_init w v) = None"
  let ?timeout = "case ir_timeout (w_init w v) of Some d \<Rightarrow> d | None \<Rightarrow> w_timeout w"
  show "(\<exists>d. ir_timeout (w_init w v) = Some d \<and> d < 0) \<and> evs s' = evs s \<or>
       evs s' = evs s @ [EvInit t v False, EvClose v] \<and> err_is e ErrDeadlineExceeded \<and>
       (\<forall>ce. w_close w v = Some ce \<longrightarrow> (\<exists>es. e = Joined (es @ [CloseLate t ce])))"
  proof (cases "ir_timeout (w_init w v) \<noteq> None \<and> ?timeout < 0")
    case True
    with assms show ?thesis by (auto simp: init_service_def Let_def)
  next
    case False
    let ?te = "InitTimedOut t ?timeout [DeadlineExceeded]"
    have e: "e = (case w_close w v of Some ce \<Rightarrow> Joined [?te, CloseLate t ce] | None \<Rightarrow> ?te) \<and>
        evs s' = evs s @ [EvInit t v False, EvClose v]"
      using assms r ok False by (auto simp: init_service_def Let_def split: if_splits)
    have "\<exists>es. Joined [?te, CloseLate t ce] = Joined (es @ [CloseLate t ce])" for ce
      by (rule exI [of _ "[?te]"]) simp
    with e show ?thesis by (cases "w_close w v") auto
  qed
qed

theorem init_accepted_or_closed_witness:
  "evs (snd (init_service demo_world ''*Api'' (Obj ''*Api'' 9) demo_di)) =
     [EvInit ''*Api'' (Obj ''*Api'' 9) False, EvClose (Obj ''*Api'' 9)] \<and>
   err_is (the (fst (init_service demo_world ''*Api'' (Obj ''*Api'' 9) demo_di))) ErrDeadlineExceeded"
  using init_accepted_or_closed [of demo_world "''*Api''" "Obj ''*Api'' 9" demo_di]
  by (cases "init_service demo_world ''*Api'' (Obj ''*Api'' 9) demo_di")
    (auto simp: init_service_def demo_world_def demo_di_def new_container_def)

text \<open>Closing a scope closes what the scope created, newest first, each service once. A scope
  that starts empty records every type it resolved once, whatever order of nested resolutions
  filled it; Close then calls Close on exactly the recorded services in reverse order of
  creation, and returns every error they gave.\<close>

theorem scope_close_reverse:
  assumes "resolve_type w k [] t (new_scope s) = (res, s1)" and "resolve_type w k2 [] u s1 = (res2, s2)"
    and "scope_close w s2 = (es, s3)"
  shows "distinct (sorder s2) \<and> set (sorder s2) = dom (resolved s2) \<and>
    evs s3 = evs s2 @ map EvClose (filter (as_service w) (rev (map (the \<circ> resolved s2) (sorder s2)))) \<and>
    es = List.map_filter (w_close w) (filter (as_service w) (rev (map (the \<circ> resolved s2) (sorder s2))))"
proof -
  have "scope_ok (new_scope s)" by (simp add: scope_ok_def new_scope_def)
  then have ok: "scope_ok s2"
    using resolution_scope(1) [OF assms(1)] resolution_scope(1) [OF assms(2)]
    by (simp add: scope_kept_def)
  have mf: "List.map_filter (resolved s2) ts = map (the \<circ> resolved s2) ts"
    if "set ts \<subseteq> dom (resolved s2)" for ts
    using that by (induction ts) (auto simp: map_filter_simps)
  have "List.map_filter (resolved s2) (rev (sorder s2)) = rev (map (the \<circ> resolved s2) (sorder s2))"
    using mf [of "rev (sorder s2)"] ok by (simp add: scope_ok_def rev_map)
  with scope_close_loop_spec [of w "rev (sorder s2)" s2 es s3] assms(3) ok show ?thesis
    by (simp add: scope_close_def scope_ok_def)
qed

definition demo_scoped :: di where
  "demo_scoped = demo_di\<lparr>registrations :=
     om_set ''*Db'' \<lparr>reg_ctor = demo_ctor ''*Db'' 1 [], reg_lifetime = Scoped\<rparr>
       (om_set ''*Api'' \<lparr>reg_ctor = demo_ctor ''*Api'' 2 [''*Db''], reg_lifetime = Scoped\<rparr> om_empty)\<rparr>"

theorem scope_close_reverse_witness:
  "\<exists>s1 s2 s3. resolve_type demo_world FromScope [] ''*Api'' (new_scope demo_scoped) = (Inr (Obj ''*Api'' 2), s1) \<and>
     resolve_type demo_world FromScope [] ''*Db'' s1 = (Inr (Obj ''*Db'' 1), s2) \<and>
     scope_close demo_world s2 = ([], s3) \<and>
     evs s3 = evs s2 @ [EvClose (Obj ''*Api'' 2), EvClose (Obj ''*Db'' 1)]"
proof -
  let ?r1 = "resolve_type demo_world FromScope [] ''*Api'' (new_scope demo_scoped)"
  let ?r2 = "resolve_type demo_world FromScope [] ''*Db'' (snd ?r1)"
  have "fst ?r1 = Inr (Obj ''*Api'' 2)" "fst ?r2 = Inr (Obj ''*Db'' 1)" by code_simp+
  then have 1: "?r1 = (Inr (Obj ''*Api'' 2), snd ?r1)" and 2: "?r2 = (Inr (Obj ''*Db'' 1), snd ?r2)"
    by (simp_all add: prod_eq_iff)
  have 3: "sorder (snd ?r2) = [''*Db'', ''*Api'']"
    "resolved (snd ?r2) ''*Api'' = Some (Obj ''*Api'' 2)" "resolved (snd ?r2) ''*Db'' = Some (Obj ''*Db'' 1)"
    by code_simp+
  have svc: "w_implements demo_world ''*Api'' service_type" "w_implements demo_world ''*Db'' service_type"
    by code_simp+
  have f: "filter (as_service demo_world) (rev (map (the \<circ> resolved (snd ?r2)) (sorder (snd ?r2)))) =
      [Obj ''*Api'' 2, Obj ''*Db'' 1]"
    unfolding 3(1) by (simp add: 3(2,3) svc)
  obtain es s3 where c: "scope_close demo_world (snd ?r2) = (es, s3)" by fastforce
  have "evs s3 = evs (snd ?r2) @ [EvClose (Obj ''*Api'' 2), EvClose (Obj ''*Db'' 1)] \<and> es = []"
    using scope_close_reverse [OF 1 2 c] unfolding f by (simp add: map_filter_simps demo_world_def)
  with 1 2 c show ?thesis by blast
qed

end
