(* ===== verification/Di_Concurrency.thy ===== *)
theory Di_Concurrency
  imports Di_Container
begin

text \<open>
  Concurrent resolution of singletons: resolveSingleton and awaitBuild of service_registry.go,
  enterBuild, leaveBuild and waitsOn of di_guard.go. Each critical section of c.mu is a function
  on the shared state, a goroutine's place in the code is its \<open>pc\<close>, and a run is a sequence of
  actions of any goroutines in any order. What a constructor resolves and what it returns is the
  choice of the actions. A singletonBuild is a number into the table of all builds ever made.
\<close>

section \<open>State\<close>

type_synonym gid = nat
type_synonym bid = nat

record build =
  bd_gid :: gid
  bd_result :: "(gerr, rvalue) result option"
  bd_closed :: bool

text \<open>
  Where a goroutine is: in code of the user (\<open>Idle\<close>), in invoke before enterBuild, in
  resolveSingleton after invoke returned (before and after the second critical section), or
  receiving from the done channel of a build.
\<close>

datatype pc =
    Idle
  | Invoking rtype "bid option"
  | Storing rtype bid "(gerr, rvalue) result"
  | Closing rtype bid "(gerr, rvalue) result"
  | Waiting rtype bid

text \<open>
  \<open>cc_waiting\<close> has one entry per key, as a Go map; its length is the map's. \<open>cc_frames\<close> are the constructors under way on a goroutine, innermost first, each with the build
  it runs for (\<open>None\<close> for a transient); \<open>cc_out\<close> records what resolveSingleton returned to whom.
\<close>

record conc =
  cc_instances :: "(rtype, rvalue) omap"
  cc_builds :: "rtype \<Rightarrow> bid option"
  cc_waiting :: "(gid \<times> bid) list"
  cc_stacks :: "gid \<Rightarrow> rtype list"
  cc_table :: "bid \<Rightarrow> build"
  cc_next :: bid
  cc_pc :: "gid \<Rightarrow> pc"
  cc_frames :: "gid \<Rightarrow> (rtype \<times> bid option) list"
  cc_out :: "(gid \<times> rtype \<times> (gerr, rvalue) result) list"

definition fresh_build :: "gid \<Rightarrow> build" where
  "fresh_build g = \<lparr>bd_gid = g, bd_result = None, bd_closed = False\<rparr>"

definition no_resolutions :: conc where
  "no_resolutions = \<lparr>cc_instances = om_empty, cc_builds = Map.empty, cc_waiting = [],
     cc_stacks = (\<lambda>_. []), cc_table = (\<lambda>_. fresh_build 0), cc_next = 0, cc_pc = (\<lambda>_. Idle),
     cc_frames = (\<lambda>_. []), cc_out = []\<rparr>"

abbreviation owner :: "conc \<Rightarrow> bid \<Rightarrow> gid" where
  "owner s b \<equiv> bd_gid (cc_table s b)"

section \<open>The critical sections\<close>

text \<open>waitsOn: follow the waits from b, at most one more than there are waiting goroutines.\<close>

fun waits_loop :: "nat \<Rightarrow> conc \<Rightarrow> bid \<Rightarrow> gid \<Rightarrow> bool" where
  "waits_loop 0 s b g = False"
| "waits_loop (Suc n) s b g =
     (if owner s b = g then True
      else (case map_of (cc_waiting s) (owner s b) of
              None \<Rightarrow> False
            | Some b' \<Rightarrow> waits_loop n s b' g))"

definition waits_on :: "conc \<Rightarrow> bid \<Rightarrow> gid \<Rightarrow> bool" where
  "waits_on s b g = waits_loop (length (cc_waiting s) + 1) s b g"

definition set_pc :: "gid \<Rightarrow> pc \<Rightarrow> conc \<Rightarrow> conc" where
  "set_pc g p s = s\<lparr>cc_pc := (cc_pc s)(g := p)\<rparr>"

text \<open>A resolution is over: the goroutine goes on in user code with its result.\<close>

definition answer :: "gid \<Rightarrow> rtype \<Rightarrow> (gerr, rvalue) result \<Rightarrow> conc \<Rightarrow> conc" where
  "answer g t r s = set_pc g Idle (s\<lparr>cc_out := cc_out s @ [(g, t, r)]\<rparr>)"

definition await_build :: "rtype \<Rightarrow> bid \<Rightarrow> gid \<Rightarrow> conc \<Rightarrow> conc" where
  "await_build t b g s =
     (if owner s b = g then
        answer g t (Inl (case cycle_in (cc_stacks s g) t of Some e \<Rightarrow> e | None \<Rightarrow> CircularSelf t)) s
      else if waits_on s b g then answer g t (Inl (CircularWait t)) s
      else set_pc g (Waiting t b) (s\<lparr>cc_waiting := AList.update g b (cc_waiting s)\<rparr>))"

definition ask_singleton :: "rtype \<Rightarrow> gid \<Rightarrow> conc \<Rightarrow> conc" where
  "ask_singleton t g s =
     (case om_get (cc_instances s) t of
        Some v \<Rightarrow> answer g t (Inr v) s
      | None \<Rightarrow>
          (case cc_builds s t of
             Some b \<Rightarrow> await_build t b g s
           | None \<Rightarrow>
               set_pc g (Invoking t (Some (cc_next s)))
                 (s\<lparr>cc_table := (cc_table s)(cc_next s := fresh_build g),
                    cc_builds := (cc_builds s)(t \<mapsto> cc_next s), cc_next := Suc (cc_next s)\<rparr>)))"

text \<open>What follows a return of invoke: resolveSingleton's second half, or the caller.\<close>

definition invoke_returned :: "rtype \<Rightarrow> bid option \<Rightarrow> (gerr, rvalue) result \<Rightarrow> gid \<Rightarrow> conc \<Rightarrow> conc" where
  "invoke_returned t ob r g s =
     set_pc g (case ob of Some b \<Rightarrow> Storing t b r | None \<Rightarrow> Idle) s"

definition enter_invoke :: "rtype \<Rightarrow> bid option \<Rightarrow> gid \<Rightarrow> conc \<Rightarrow> conc" where
  "enter_invoke t ob g s =
     (case enter_build (cc_stacks s g) t of
        Inl e \<Rightarrow> invoke_returned t ob (Inl e) g s
      | Inr stk \<Rightarrow>
          set_pc g Idle (s\<lparr>cc_stacks := (cc_stacks s)(g := stk),
                           cc_frames := (cc_frames s)(g := (t, ob) # cc_frames s g)\<rparr>))"

text \<open>leaveBuild; an entry with an empty stack and no entry are the same here.\<close>

definition leave_build :: "gid \<Rightarrow> conc \<Rightarrow> conc" where
  "leave_build g s =
     s\<lparr>cc_stacks := (cc_stacks s)(g := (if length (cc_stacks s g) \<le> 1 then [] else butlast (cc_stacks s g)))\<rparr>"

definition pop_frame :: "gid \<Rightarrow> conc \<Rightarrow> conc" where
  "pop_frame g s = leave_build g (s\<lparr>cc_frames := (cc_frames s)(g := tl (cc_frames s g))\<rparr>)"

text \<open>The second critical section of resolveSingleton.\<close>

definition store_result :: "rtype \<Rightarrow> bid \<Rightarrow> (gerr, rvalue) result \<Rightarrow> gid \<Rightarrow> conc \<Rightarrow> conc" where
  "store_result t b r g s =
     set_pc g (Closing t b r)
       (s\<lparr>cc_instances := (case r of Inr v \<Rightarrow> om_set t v (cc_instances s) | Inl e \<Rightarrow> cc_instances s),
          cc_builds := (cc_builds s)(t := None),
          cc_table := (cc_table s)(b := (cc_table s b)\<lparr>bd_result := Some r\<rparr>)\<rparr>)"

definition close_done :: "rtype \<Rightarrow> bid \<Rightarrow> (gerr, rvalue) result \<Rightarrow> gid \<Rightarrow> conc \<Rightarrow> conc" where
  "close_done t b r g s =
     answer g t r (s\<lparr>cc_table := (cc_table s)(b := (cc_table s b)\<lparr>bd_closed := True\<rparr>)\<rparr>)"

text \<open>The end of awaitBuild; a build without a result would give the zero Value and no error.\<close>

definition wake :: "rtype \<Rightarrow> bid \<Rightarrow> gid \<Rightarrow> conc \<Rightarrow> conc" where
  "wake t b g s =
     answer g t (case bd_result (cc_table s b) of Some r \<Rightarrow> r | None \<Rightarrow> Inr Invalid)
       (s\<lparr>cc_waiting := AList.delete g (cc_waiting s)\<rparr>)"

section \<open>Actions\<close>

text \<open>
  \<open>Ask\<close> resolves a singleton and \<open>Construct\<close> invokes the constructor of a transient, both from user
  code; \<open>Return\<close> ends the innermost constructor with its Init, \<open>Panic\<close> unwinds it; the others are
  the steps of the container. An action that is not possible where the goroutine is gives None.
\<close>

datatype action =
    Ask gid rtype | Construct gid rtype | Enter gid | Return gid "(gerr, rvalue) result"
  | Panic gid | Store gid | CloseDone gid | Wake gid

fun conc_step :: "action \<Rightarrow> conc \<Rightarrow> conc option" where
  "conc_step (Ask g t) s = (if cc_pc s g = Idle then Some (ask_singleton t g s) else None)"
| "conc_step (Construct g t) s =
     (if cc_pc s g = Idle then Some (set_pc g (Invoking t None) s) else None)"
| "conc_step (Enter g) s =
     (case cc_pc s g of Invoking t ob \<Rightarrow> Some (enter_invoke t ob g s) | _ \<Rightarrow> None)"
| "conc_step (Return g r) s =
     (case (cc_pc s g, cc_frames s g) of
        (Idle, (t, ob) # fs) \<Rightarrow> Some (invoke_returned t ob r g (pop_frame g s))
      | _ \<Rightarrow> None)"
| "conc_step (Panic g) s =
     (if cc_pc s g = Idle \<and> cc_frames s g \<noteq> [] then Some (pop_frame g s) else None)"
| "conc_step (Store g) s =
     (case cc_pc s g of Storing t b r \<Rightarrow> Some (store_result t b r g s) | _ \<Rightarrow> None)"
| "conc_step (CloseDone g) s =
     (case cc_pc s g of Closing t b r \<Rightarrow> Some (close_done t b r g s) | _ \<Rightarrow> None)"
| "conc_step (Wake g) s =
     (case cc_pc s g of
        Waiting t b \<Rightarrow> if bd_closed (cc_table s b) then Some (wake t b g s) else None
      | _ \<Rightarrow> None)"

fun conc_run :: "action list \<Rightarrow> conc \<Rightarrow> conc option" where
  "conc_run [] s = Some s"
| "conc_run (a # as) s = (case conc_step a s of None \<Rightarrow> None | Some s' \<Rightarrow> conc_run as s')"

fun is_panic :: "action \<Rightarrow> bool" where
  "is_panic (Panic g) = True"
| "is_panic a = False"

fun is_request :: "action \<Rightarrow> bool" where
  "is_request (Ask g t) = True"
| "is_request (Construct g t) = True"
| "is_request a = False"

definition blocked :: "conc \<Rightarrow> gid \<Rightarrow> bool" where
  "blocked s g = (case cc_pc s g of Waiting t b \<Rightarrow> \<not> bd_closed (cc_table s b) | _ \<Rightarrow> False)"

end
