(* ===== verification/Di_Concurrency_Invariant.thy ===== *)
theory Di_Concurrency_Invariant
  imports Di_Concurrency
begin

text \<open>
  The invariant of concurrent resolution: the graph of the waits and what waitsOn finds in it,
  which builds a goroutine is inside of, and that every action keeps the shared tables and the
  goroutines' places in agreement.
\<close>

section \<open>The wait graph\<close>

definition wait_edges :: "conc \<Rightarrow> (gid \<times> gid) set" where
  "wait_edges s = {(g, owner s b) | g b. map_of (cc_waiting s) g = Some b}"

lemma wait_edges_image:
  "wait_edges s = (\<lambda>g. (g, owner s (the (map_of (cc_waiting s) g)))) ` dom (map_of (cc_waiting s))"
  by (force simp: wait_edges_def dom_def image_def)

lemma finite_wait_edges [simp]: "finite (wait_edges s)"
  by (simp add: wait_edges_image finite_dom_map_of)

lemma card_wait_edges: "card (wait_edges s) \<le> length (cc_waiting s)"
proof -
  have "card (wait_edges s) \<le> card (dom (map_of (cc_waiting s)))"
    unfolding wait_edges_image by (rule card_image_le) (simp add: finite_dom_map_of)
  also have "\<dots> = card (fst ` set (cc_waiting s))"
    by (simp add: dom_map_of_conv_image_fst)
  also have "\<dots> \<le> length (cc_waiting s)"
    using card_image_le [of "set (cc_waiting s)" fst] card_length [of "cc_waiting s"] by simp
  finally show ?thesis .
qed

lemma waits_loop_sound: "waits_loop n s b g \<Longrightarrow> (owner s b, g) \<in> (wait_edges s)\<^sup>*"
proof (induction n arbitrary: b)
  case (Suc n)
  show ?case
  proof (cases "owner s b = g")
    case False
    with Suc.prems obtain b' where w: "map_of (cc_waiting s) (owner s b) = Some b'"
      and l: "waits_loop n s b' g"
      by (auto split: option.splits)
    from w have "(owner s b, owner s b') \<in> wait_edges s"
      by (auto simp: wait_edges_def)
    with Suc.IH [OF l] show ?thesis by (rule converse_rtrancl_into_rtrancl [rotated])
  qed simp
qed simp

lemma waits_loop_complete:
  "(owner s b, g) \<in> wait_edges s ^^ k \<Longrightarrow> k < n \<Longrightarrow> waits_loop n s b g"
proof (induction k arbitrary: b n)
  case 0
  then show ?case by (cases n) auto
next
  case (Suc k)
  then obtain n' where n: "n = Suc n'" "k < n'" by (cases n) auto
  from Suc.prems(1) obtain y where y: "(owner s b, y) \<in> wait_edges s" "(y, g) \<in> wait_edges s ^^ k"
    by (meson relpow_Suc_D2)
  then obtain b' where "map_of (cc_waiting s) (owner s b) = Some b'" "y = owner s b'"
    by (auto simp: wait_edges_def)
  with Suc.IH [of b' n'] y n show ?case by simp
qed

lemma waits_on_iff: "waits_on s b g \<longleftrightarrow> (owner s b, g) \<in> (wait_edges s)\<^sup>*"
proof
  assume "waits_on s b g"
  then show "(owner s b, g) \<in> (wait_edges s)\<^sup>*"
    unfolding waits_on_def by (rule waits_loop_sound)
next
  assume "(owner s b, g) \<in> (wait_edges s)\<^sup>*"
  then obtain k where "(owner s b, g) \<in> wait_edges s ^^ k"
    using rtrancl_imp_relpow by blast
  then obtain n where "(owner s b, g) \<in> wait_edges s ^^ n" "n \<le> card (wait_edges s)"
    using relpow_finite_bounded [of "wait_edges s" k] by auto
  moreover from this(2) have "n < length (cc_waiting s) + 1"
    using card_wait_edges [of s] by simp
  ultimately show "waits_on s b g"
    unfolding waits_on_def by (intro waits_loop_complete) auto
qed

section \<open>The invariant\<close>

fun pc_held :: "pc \<Rightarrow> (rtype \<times> bid) list" where
  "pc_held (Invoking t (Some b)) = [(t, b)]"
| "pc_held (Storing t b r) = [(t, b)]"
| "pc_held p = []"

fun frames_held :: "(rtype \<times> bid option) list \<Rightarrow> (rtype \<times> bid) list" where
  "frames_held [] = []"
| "frames_held ((t, Some b) # fs) = (t, b) # frames_held fs"
| "frames_held ((t, None) # fs) = frames_held fs"

text \<open>The builds a goroutine is inside of.\<close>

definition held :: "conc \<Rightarrow> gid \<Rightarrow> (rtype \<times> bid) list" where
  "held s g = pc_held (cc_pc s g) @ frames_held (cc_frames s g)"

definition answered :: "conc \<Rightarrow> rtype \<Rightarrow> (gerr, rvalue) result \<Rightarrow> bool" where
  "answered s t r \<longleftrightarrow> (\<forall>v. r = Inr v \<longrightarrow> om_get (cc_instances s) t = Some v)"

definition waits_inv :: "conc \<Rightarrow> bool" where
  "waits_inv s \<longleftrightarrow>
     (\<forall>g b. map_of (cc_waiting s) g = Some b \<longleftrightarrow> (\<exists>t. cc_pc s g = Waiting t b)) \<and>
     acyclic (wait_edges s)"

definition builds_inv :: "conc \<Rightarrow> bool" where
  "builds_inv s \<longleftrightarrow>
     (\<forall>t b. cc_builds s t = Some b \<longrightarrow> b < cc_next s \<and> bd_result (cc_table s b) = None \<and>
        \<not> bd_closed (cc_table s b) \<and> om_get (cc_instances s) t = None) \<and>
     (\<forall>t t' b. cc_builds s t = Some b \<longrightarrow> cc_builds s t' = Some b \<longrightarrow> t = t')"

definition held_inv :: "conc \<Rightarrow> bool" where
  "held_inv s \<longleftrightarrow>
     (\<forall>g. distinct (held s g)) \<and>
     (\<forall>g t b. (t, b) \<in> set (held s g) \<longrightarrow> cc_builds s t = Some b \<and> owner s b = g)"

definition results_inv :: "conc \<Rightarrow> bool" where
  "results_inv s \<longleftrightarrow>
     (\<forall>g t b r. cc_pc s g = Closing t b r \<longrightarrow> owner s b = g \<and> b < cc_next s \<and>
        bd_result (cc_table s b) = Some r \<and> answered s t r) \<and>
     (\<forall>g t b. cc_pc s g = Waiting t b \<longrightarrow> b < cc_next s \<and>
        (cc_builds s t = Some b \<or>
         (\<exists>r. bd_result (cc_table s b) = Some r \<and> answered s t r))) \<and>
     (\<forall>b. bd_closed (cc_table s b) \<longrightarrow> bd_result (cc_table s b) \<noteq> None) \<and>
     (\<forall>(g, t, r)\<in>set (cc_out s). answered s t r)"

definition conc_inv :: "conc \<Rightarrow> bool" where
  "conc_inv s \<longleftrightarrow> waits_inv s \<and> builds_inv s \<and> held_inv s \<and> results_inv s"

lemmas conc_ops = set_pc_def answer_def await_build_def ask_singleton_def invoke_returned_def
  enter_invoke_def leave_build_def pop_frame_def store_result_def close_done_def wake_def

lemma conc_inv_init: "conc_inv no_resolutions"
  by (auto simp: conc_inv_def waits_inv_def builds_inv_def held_inv_def results_inv_def
      no_resolutions_def held_def wait_edges_def fresh_build_def acyclic_def)

lemma wait_edges_iff:
  "(g, h) \<in> wait_edges s \<longleftrightarrow> (\<exists>b. map_of (cc_waiting s) g = Some b \<and> owner s b = h)"
  by (auto simp: wait_edges_def)

lemma wait_edges_cong:
  "cc_waiting s' = cc_waiting s \<Longrightarrow>
   (\<And>g b. map_of (cc_waiting s) g = Some b \<Longrightarrow> owner s' b = owner s b) \<Longrightarrow>
     wait_edges s' = wait_edges s"
  by (auto simp: wait_edges_iff)

lemma held_invI:
  "(\<And>g. distinct (held s g)) \<Longrightarrow>
   (\<And>g t b. (t, b) \<in> set (held s g) \<Longrightarrow> cc_builds s t = Some b \<and> owner s b = g) \<Longrightarrow> held_inv s"
  unfolding held_inv_def by blast

lemma held_distinct: "conc_inv s \<Longrightarrow> distinct (held s g)"
  by (simp add: conc_inv_def held_inv_def)

lemma held_owned:
  "conc_inv s \<Longrightarrow> (t, b) \<in> set (held s g) \<Longrightarrow> cc_builds s t = Some b \<and> owner s b = g"
  by (simp add: conc_inv_def held_inv_def)

lemma builds_fresh:
  "conc_inv s \<Longrightarrow> cc_builds s t = Some b \<Longrightarrow>
     b < cc_next s \<and> bd_result (cc_table s b) = None \<and> \<not> bd_closed (cc_table s b) \<and>
     om_get (cc_instances s) t = None"
  by (simp add: conc_inv_def builds_inv_def)

lemma results_invI:
  "(\<And>g t b r. cc_pc s g = Closing t b r \<Longrightarrow> owner s b = g \<and> b < cc_next s \<and>
      bd_result (cc_table s b) = Some r \<and> answered s t r) \<Longrightarrow>
   (\<And>g t b. cc_pc s g = Waiting t b \<Longrightarrow> b < cc_next s \<and>
      (cc_builds s t = Some b \<or> (\<exists>r. bd_result (cc_table s b) = Some r \<and> answered s t r))) \<Longrightarrow>
   (\<And>b. bd_closed (cc_table s b) \<Longrightarrow> bd_result (cc_table s b) \<noteq> None) \<Longrightarrow>
   (\<And>g t r. (g, t, r) \<in> set (cc_out s) \<Longrightarrow> answered s t r) \<Longrightarrow> results_inv s"
  unfolding results_inv_def by fast

lemma closing_result:
  "conc_inv s \<Longrightarrow> cc_pc s g = Closing t b r \<Longrightarrow> owner s b = g \<and> b < cc_next s \<and>
     bd_result (cc_table s b) = Some r \<and> answered s t r"
  unfolding conc_inv_def results_inv_def by blast

lemma waiting_build:
  "conc_inv s \<Longrightarrow> cc_pc s g = Waiting t b \<Longrightarrow> b < cc_next s \<and>
     (cc_builds s t = Some b \<or> (\<exists>r. bd_result (cc_table s b) = Some r \<and> answered s t r))"
  unfolding conc_inv_def results_inv_def by blast

lemma closed_result: "conc_inv s \<Longrightarrow> bd_closed (cc_table s b) \<Longrightarrow> bd_result (cc_table s b) \<noteq> None"
  unfolding conc_inv_def results_inv_def by blast

lemma out_answered: "conc_inv s \<Longrightarrow> (g, t, r) \<in> set (cc_out s) \<Longrightarrow> answered s t r"
  unfolding conc_inv_def results_inv_def by blast

lemma answered_mono:
  "(\<And>u v. om_get (cc_instances s) u = Some v \<Longrightarrow> om_get (cc_instances s') u = Some v) \<Longrightarrow>
     answered s t r \<Longrightarrow> answered s' t r"
  by (simp add: answered_def)

lemma answer_inv:
  assumes "conc_inv s" and "\<forall>t b. cc_pc s g \<noteq> Waiting t b" and "pc_held (cc_pc s g) = []"
    and "answered s t r"
  shows "conc_inv (answer g t r s)"
proof -
  have e: "wait_edges (answer g t r s) = wait_edges s"
    by (rule wait_edges_cong) (simp_all add: conc_ops)
  have h: "held (answer g t r s) g' = held s g'" for g'
    using assms(3) by (simp add: conc_ops held_def)
  have "waits_inv (answer g t r s)"
    using assms(1,2) unfolding conc_inv_def waits_inv_def e by (simp add: conc_ops)
  moreover have "builds_inv (answer g t r s)"
    using assms(1) unfolding conc_inv_def builds_inv_def by (simp add: conc_ops)
  moreover have "held_inv (answer g t r s)"
    using assms(1) unfolding conc_inv_def held_inv_def h by (simp add: conc_ops)
  moreover have "results_inv (answer g t r s)"
    using assms(1,4) unfolding conc_inv_def results_inv_def answered_def
    by (auto simp: conc_ops split: prod.splits)
  ultimately show ?thesis by (simp add: conc_inv_def)
qed

lemma answered_Inl [simp]: "answered s t (Inl e)"
  by (simp add: answered_def)

lemma await_build_inv:
  assumes inv: "conc_inv s" and pc: "cc_pc s g = Idle" and b: "cc_builds s t = Some b"
  shows "conc_inv (await_build t b g s)"
proof (cases "owner s b = g \<or> waits_on s b g")
  case True
  then show ?thesis
    using inv pc by (auto simp: await_build_def intro!: answer_inv)
next
  case False
  let ?s = "set_pc g (Waiting t b) (s\<lparr>cc_waiting := AList.update g b (cc_waiting s)\<rparr>)"
  have no: "map_of (cc_waiting s) g = None"
    using inv pc by (auto simp: conc_inv_def waits_inv_def intro: option.exhaust)
  have h: "held ?s g' = held s g'" for g'
    using pc by (simp add: conc_ops held_def)
  have e: "wait_edges ?s = insert (g, owner s b) (wait_edges s)"
    using no unfolding wait_edges_def by (auto simp: conc_ops update_conv' split: if_splits)
  have "acyclic (wait_edges ?s)"
    using False inv unfolding e by (simp add: acyclic_insert waits_on_iff conc_inv_def waits_inv_def)
  then have "waits_inv ?s"
    using inv by (auto simp: conc_inv_def waits_inv_def update_conv' conc_ops)
  moreover have "builds_inv ?s"
    using inv unfolding conc_inv_def builds_inv_def by (simp add: conc_ops)
  moreover have "held_inv ?s"
    using inv unfolding conc_inv_def held_inv_def h by (simp add: conc_ops)
  moreover have "b < cc_next s"
    using inv b by (simp add: conc_inv_def builds_inv_def)
  with inv b have "results_inv ?s"
    unfolding conc_inv_def results_inv_def answered_def by (auto simp: conc_ops)
  ultimately show ?thesis
    using False by (simp add: conc_inv_def await_build_def)
qed

lemma ask_inv:
  assumes inv: "conc_inv s" and pc: "cc_pc s g = Idle"
  shows "conc_inv (ask_singleton t g s)"
proof (cases "om_get (cc_instances s) t")
  case (Some v)
  then show ?thesis
    using inv pc by (auto simp: ask_singleton_def answered_def intro!: answer_inv)
next
  case None
  show ?thesis
  proof (cases "cc_builds s t")
    case (Some b)
    with None await_build_inv [OF inv pc this] show ?thesis by (simp add: ask_singleton_def)
  next
    case nb: None
    let ?n = "cc_next s"
    let ?s = "set_pc g (Invoking t (Some ?n))
                 (s\<lparr>cc_table := (cc_table s)(?n := fresh_build g),
                    cc_builds := (cc_builds s)(t \<mapsto> ?n), cc_next := Suc ?n\<rparr>)"
    have lt: "cc_builds s t' = Some b \<Longrightarrow> b < ?n" for t' b
      using inv by (simp add: conc_inv_def builds_inv_def)
    have wlt: "map_of (cc_waiting s) g' = Some b \<Longrightarrow> b < ?n" for g' b
      using inv by (auto simp: conc_inv_def waits_inv_def results_inv_def)
    have e: "wait_edges ?s = wait_edges s"
      by (rule wait_edges_cong) (auto simp: conc_ops dest: wlt)
    have h: "held ?s g' = (if g' = g then [(t, ?n)] else []) @ held s g'" for g'
      using pc by (simp add: conc_ops held_def)
    have hlt: "(t', b) \<in> set (held s g') \<Longrightarrow> b < ?n \<and> cc_builds s t' = Some b \<and> owner s b = g'" for t' b g'
      using inv lt [of t' b] by (simp add: conc_inv_def held_inv_def)
    have "waits_inv ?s"
      using inv pc unfolding conc_inv_def waits_inv_def e by (auto simp: conc_ops)
    moreover have "builds_inv ?s"
      using inv None unfolding conc_inv_def builds_inv_def
      by (auto simp: conc_ops fresh_build_def dest: lt intro: less_SucI)
    moreover have "held_inv ?s"
    proof (rule held_invI)
      fix g'
      show "distinct (held ?s g')"
        using held_distinct [OF inv, of g'] unfolding h by (auto dest: hlt)
    next
      fix g' t' b
      assume "(t', b) \<in> set (held ?s g')"
      then have "t' = t \<and> b = ?n \<and> g' = g \<or> (t', b) \<in> set (held s g')"
        unfolding h by (auto split: if_splits)
      then show "cc_builds ?s t' = Some b \<and> owner ?s b = g'"
        using nb by (auto simp: conc_ops fresh_build_def dest: hlt)
    qed
    moreover have "results_inv ?s"
    proof (rule results_invI)
      fix g' u b r assume "cc_pc ?s g' = Closing u b r"
      then show "owner ?s b = g' \<and> b < cc_next ?s \<and> bd_result (cc_table ?s b) = Some r \<and> answered ?s u r"
        using closing_result [OF inv, of g' u b r] by (auto simp: conc_ops answered_def split: if_splits)
    next
      fix g' u b assume "cc_pc ?s g' = Waiting u b"
      then show "b < cc_next ?s \<and> (cc_builds ?s u = Some b \<or>
          (\<exists>r. bd_result (cc_table ?s b) = Some r \<and> answered ?s u r))"
        using waiting_build [OF inv, of g' u b] nb by (auto simp: conc_ops answered_def split: if_splits)
    next
      fix b show "bd_closed (cc_table ?s b) \<Longrightarrow> bd_result (cc_table ?s b) \<noteq> None"
        using closed_result [OF inv, of b] by (auto simp: conc_ops fresh_build_def split: if_splits)
    next
      fix g' u r show "(g', u, r) \<in> set (cc_out ?s) \<Longrightarrow> answered ?s u r"
        using out_answered [OF inv, of g' u r] by (simp add: conc_ops answered_def)
    qed
    ultimately show ?thesis
      using None nb by (simp add: conc_inv_def ask_singleton_def)
  qed
qed

lemma invoke_returned_inv:
  assumes "conc_inv s" and "\<forall>t b. cc_pc s g \<noteq> Waiting t b"
    and "\<And>b. ob = Some b \<Longrightarrow> cc_builds s t = Some b \<and> owner s b = g \<and> (t, b) \<notin> set (frames_held (cc_frames s g))"
  shows "conc_inv (invoke_returned t ob r g s)"
proof -
  let ?s = "invoke_returned t ob r g s"
  have e: "wait_edges ?s = wait_edges s"
    by (rule wait_edges_cong) (simp_all add: conc_ops)
  have pc: "cc_pc ?s = (cc_pc s)(g := (case ob of Some b \<Rightarrow> Storing t b r | None \<Rightarrow> Idle))"
    by (simp add: conc_ops)
  have same [simp]: "cc_builds ?s = cc_builds s" "cc_table ?s = cc_table s" "cc_next ?s = cc_next s"
    "cc_instances ?s = cc_instances s" "cc_waiting ?s = cc_waiting s" "cc_frames ?s = cc_frames s"
    "cc_out ?s = cc_out s" "cc_stacks ?s = cc_stacks s"
    by (simp_all add: conc_ops)
  have "waits_inv ?s"
    using assms(1,2) unfolding conc_inv_def waits_inv_def e pc
    by (auto split: option.splits)
  moreover have "builds_inv ?s"
    using assms(1) unfolding conc_inv_def builds_inv_def by simp
  moreover have "held_inv ?s"
    using assms unfolding conc_inv_def held_inv_def held_def pc
    by (auto split: option.splits)
  moreover have "results_inv ?s"
    using assms unfolding conc_inv_def results_inv_def answered_def pc
    by (auto split: option.splits)
  ultimately show ?thesis by (simp add: conc_inv_def)
qed

lemma enter_inv:
  assumes inv: "conc_inv s" and pc: "cc_pc s g = Invoking t ob"
  shows "conc_inv (enter_invoke t ob g s)"
proof -
  have ob: "cc_builds s t = Some b \<and> owner s b = g \<and> (t, b) \<notin> set (frames_held (cc_frames s g))"
    if "ob = Some b" for b
    using held_owned [OF inv, of t b g] held_distinct [OF inv, of g] pc that by (simp add: held_def)
  show ?thesis
  proof (cases "enter_build (cc_stacks s g) t")
    case (Inl e)
    with inv pc ob show ?thesis by (simp add: enter_invoke_def invoke_returned_inv)
  next
    case (Inr stk)
    let ?s = "enter_invoke t ob g s"
    have s: "?s = set_pc g Idle (s\<lparr>cc_stacks := (cc_stacks s)(g := stk),
        cc_frames := (cc_frames s)(g := (t, ob) # cc_frames s g)\<rparr>)"
      using Inr by (simp add: enter_invoke_def)
    have e: "wait_edges ?s = wait_edges s"
      by (rule wait_edges_cong) (simp_all add: s set_pc_def)
    have h: "held ?s g' = held s g'" for g'
      unfolding s held_def using pc by (cases ob) (simp_all add: set_pc_def)
    have "waits_inv ?s"
      using inv pc unfolding conc_inv_def waits_inv_def e by (auto simp: s set_pc_def)
    moreover have "builds_inv ?s"
      using inv unfolding conc_inv_def builds_inv_def by (simp add: s set_pc_def)
    moreover have "held_inv ?s"
      using inv unfolding conc_inv_def held_inv_def h by (simp add: s set_pc_def)
    moreover have "results_inv ?s"
      using inv unfolding conc_inv_def results_inv_def answered_def by (simp add: s set_pc_def)
    ultimately show ?thesis by (simp add: conc_inv_def)
  qed
qed

lemma pop_inv:
  assumes inv: "conc_inv s" and pc: "cc_pc s g = Idle" and fs: "cc_frames s g = (t, ob) # fs"
  shows "conc_inv (pop_frame g s)"
    and "\<And>b. ob = Some b \<Longrightarrow> cc_builds (pop_frame g s) t = Some b \<and> owner (pop_frame g s) b = g \<and>
           (t, b) \<notin> set (frames_held (cc_frames (pop_frame g s) g))"
proof -
  let ?s = "pop_frame g s"
  have e: "wait_edges ?s = wait_edges s"
    by (rule wait_edges_cong) (simp_all add: conc_ops)
  have h: "held s g = (case ob of Some b \<Rightarrow> [(t, b)] | None \<Rightarrow> []) @ held ?s g"
    using pc fs by (cases ob) (simp_all add: held_def conc_ops)
  have h': "g' \<noteq> g \<Longrightarrow> held ?s g' = held s g'" for g'
    by (simp add: held_def conc_ops)
  note old = held_distinct [OF inv] held_owned [OF inv]
  have sub: "set (held ?s g') \<subseteq> set (held s g')" and d: "distinct (held ?s g')" for g'
    using old(1) [of g'] h h' [of g'] by (cases "g' = g"; auto)+
  have "waits_inv ?s"
    using inv unfolding conc_inv_def waits_inv_def e by (simp add: conc_ops)
  moreover have "builds_inv ?s"
    using inv unfolding conc_inv_def builds_inv_def by (simp add: conc_ops)
  moreover have "held_inv ?s"
  proof (rule held_invI)
    show "distinct (held ?s g')" for g' by (rule d)
    fix g' u c assume "(u, c) \<in> set (held ?s g')"
    with sub [of g'] old(2) [of u c g'] have "cc_builds s u = Some c \<and> owner s c = g'" by blast
    then show "cc_builds ?s u = Some c \<and> owner ?s c = g'" by (simp add: conc_ops)
  qed
  moreover have "results_inv ?s"
    using inv unfolding conc_inv_def results_inv_def answered_def by (simp add: conc_ops)
  ultimately show "conc_inv ?s" by (simp add: conc_inv_def)
  fix b assume "ob = Some b"
  with h old(1) [of g] old(2) [of t b g]
  show "cc_builds ?s t = Some b \<and> owner ?s b = g \<and> (t, b) \<notin> set (frames_held (cc_frames ?s g))"
    by (auto simp: conc_ops held_def)
qed

lemma store_inv:
  assumes inv: "conc_inv s" and pc: "cc_pc s g = Storing t b r"
  shows "conc_inv (store_result t b r g s)"
proof -
  let ?s = "store_result t b r g s"
  have tb: "cc_builds s t = Some b" "owner s b = g" "(t, b) \<notin> set (frames_held (cc_frames s g))"
    using held_owned [OF inv, of t b g] held_distinct [OF inv, of g] pc by (simp_all add: held_def)
  note new = builds_fresh [OF inv tb(1)]
  have inj: "cc_builds s t' = Some b \<Longrightarrow> t' = t" for t'
    using inv tb(1) unfolding conc_inv_def builds_inv_def by blast
  have inst: "om_get (cc_instances ?s) u = (if u = t \<and> \<not> isl r then Some (projr r) else om_get (cc_instances s) u)" for u
    by (cases r) (simp_all add: conc_ops)
  have e: "wait_edges ?s = wait_edges s"
    by (rule wait_edges_cong) (simp_all add: conc_ops)
  have h: "held ?s g' = (if g' = g then frames_held (cc_frames s g) else held s g')" for g'
    by (simp add: held_def conc_ops)
  note hs = held_owned [OF inv]
  have fh: "set (frames_held (cc_frames s g)) \<subseteq> set (held s g)"
    by (simp add: held_def)
  have "waits_inv ?s"
    using inv pc unfolding conc_inv_def waits_inv_def e by (auto simp: conc_ops)
  moreover have "builds_inv ?s"
    using inv inj unfolding conc_inv_def builds_inv_def inst by (auto simp: conc_ops)
  moreover have "held_inv ?s"
  proof (rule held_invI)
    fix g'
    show "distinct (held ?s g')"
      using held_distinct [OF inv, of g'] unfolding h by (auto simp: held_def)
  next
    fix g' u c
    assume "(u, c) \<in> set (held ?s g')"
    then have a: "(u, c) \<in> set (if g' = g then frames_held (cc_frames s g) else held s g')"
      by (simp only: h)
    with fh have "(u, c) \<in> set (held s g')" by (auto split: if_splits)
    moreover have "u \<noteq> t"
    proof
      assume "u = t"
      with a tb calculation hs [of u c g'] show False by (auto split: if_splits)
    qed
    ultimately show "cc_builds ?s u = Some c \<and> owner ?s c = g'"
      using hs [of u c g'] by (auto simp: conc_ops)
  qed
  moreover have "results_inv ?s"
  proof (rule results_invI)
    have mono: "answered s u q \<Longrightarrow> answered ?s u q" for u q
      using new by (auto simp: answered_def inst)
    have mine: "answered ?s t r"
      unfolding answered_def inst by auto
    {
      fix g' u c q assume "cc_pc ?s g' = Closing u c q"
      then show "owner ?s c = g' \<and> c < cc_next ?s \<and> bd_result (cc_table ?s c) = Some q \<and> answered ?s u q"
        using closing_result [OF inv, of g' u c q] new tb mine mono by (auto simp: conc_ops split: if_splits)
    next
      fix g' u c assume "cc_pc ?s g' = Waiting u c"
      then have "cc_pc s g' = Waiting u c" by (simp add: conc_ops split: if_splits)
      note w = waiting_build [OF inv this]
      have n: "cc_next ?s = cc_next s" by (simp add: conc_ops)
      show "c < cc_next ?s \<and> (cc_builds ?s u = Some c \<or>
          (\<exists>q. bd_result (cc_table ?s c) = Some q \<and> answered ?s u q))"
      proof (cases "c = b")
        case True
        with w new have "cc_builds s u = Some b" by auto
        then have "u = t" by (rule inj)
        moreover have "bd_result (cc_table ?s c) = Some r" using True by (simp add: conc_ops)
        ultimately show ?thesis using w mine n by auto
      next
        case False
        have "cc_builds s u = Some c \<Longrightarrow> cc_builds ?s u = Some c"
          using False tb(1) by (auto simp: conc_ops)
        moreover have "bd_result (cc_table ?s c) = bd_result (cc_table s c)"
          using False by (simp add: conc_ops)
        ultimately show ?thesis using w mono [of u] n by auto
      qed
    next
      fix c show "bd_closed (cc_table ?s c) \<Longrightarrow> bd_result (cc_table ?s c) \<noteq> None"
        using closed_result [OF inv, of c] by (auto simp: conc_ops split: if_splits)
    next
      fix g' u q show "(g', u, q) \<in> set (cc_out ?s) \<Longrightarrow> answered ?s u q"
        using out_answered [OF inv, of g' u q] mono by (simp add: conc_ops)
    }
  qed
  ultimately show ?thesis by (simp add: conc_inv_def)
qed

lemma close_inv:
  assumes inv: "conc_inv s" and pc: "cc_pc s g = Closing t b r"
  shows "conc_inv (close_done t b r g s)"
proof -
  let ?s = "s\<lparr>cc_table := (cc_table s)(b := (cc_table s b)\<lparr>bd_closed := True\<rparr>)\<rparr>"
  note c = closing_result [OF inv pc]
  have e: "wait_edges ?s = wait_edges s"
    by (rule wait_edges_cong) simp_all
  have h: "held ?s g' = held s g'" for g'
    by (simp add: held_def)
  have nb: "cc_builds s u \<noteq> Some b" for u
    using builds_fresh [OF inv, of u b] c by auto
  have "waits_inv ?s"
    using inv unfolding conc_inv_def waits_inv_def e by simp
  moreover have "builds_inv ?s"
    using inv nb unfolding conc_inv_def builds_inv_def by auto
  moreover have "held_inv ?s"
    using inv unfolding conc_inv_def held_inv_def h by simp
  moreover have "results_inv ?s"
  proof (rule results_invI)
    fix g' u d q assume "cc_pc ?s g' = Closing u d q"
    then show "owner ?s d = g' \<and> d < cc_next ?s \<and> bd_result (cc_table ?s d) = Some q \<and> answered ?s u q"
      using closing_result [OF inv, of g' u d q] by (auto simp: answered_def)
  next
    fix g' u d assume "cc_pc ?s g' = Waiting u d"
    then show "d < cc_next ?s \<and> (cc_builds ?s u = Some d \<or>
        (\<exists>q. bd_result (cc_table ?s d) = Some q \<and> answered ?s u q))"
      using waiting_build [OF inv, of g' u d] by (auto simp: answered_def)
  next
    fix d show "bd_closed (cc_table ?s d) \<Longrightarrow> bd_result (cc_table ?s d) \<noteq> None"
      using closed_result [OF inv, of d] c by (auto split: if_splits)
  next
    fix g' u q show "(g', u, q) \<in> set (cc_out ?s) \<Longrightarrow> answered ?s u q"
      using out_answered [OF inv, of g' u q] by (simp add: answered_def)
  qed
  ultimately have "conc_inv ?s" by (simp add: conc_inv_def)
  then show ?thesis
    unfolding close_done_def using c pc by (intro answer_inv) (simp_all add: answered_def)
qed

lemma wake_inv:
  assumes inv: "conc_inv s" and pc: "cc_pc s g = Waiting t b" and cl: "bd_closed (cc_table s b)"
  shows "conc_inv (wake t b g s)"
proof -
  let ?s = "wake t b g s"
  obtain r where r: "bd_result (cc_table s b) = Some r" "answered s t r"
    using closed_result [OF inv cl] waiting_build [OF inv pc] builds_fresh [OF inv, of t b] by auto
  have s: "?s = answer g t r (s\<lparr>cc_waiting := AList.delete g (cc_waiting s)\<rparr>)"
    using r by (simp add: wake_def)
  have "wait_edges ?s \<subseteq> wait_edges s"
    by (auto simp: wait_edges_def s conc_ops delete_conv' split: if_splits)
  then have "waits_inv ?s"
    using inv unfolding conc_inv_def waits_inv_def
    by (auto simp: s conc_ops delete_conv' intro: acyclic_subset)
  moreover have "builds_inv ?s"
    using inv unfolding conc_inv_def builds_inv_def by (simp add: s conc_ops)
  moreover have "held_inv ?s"
    using inv pc unfolding conc_inv_def held_inv_def held_def by (auto simp: s conc_ops)
  moreover have "results_inv ?s"
    using inv r unfolding conc_inv_def results_inv_def answered_def
    by (auto simp: s conc_ops split: prod.splits)
  ultimately show ?thesis by (simp add: conc_inv_def)
qed

lemma construct_inv:
  assumes inv: "conc_inv s" and pc: "cc_pc s g = Idle"
  shows "conc_inv (set_pc g (Invoking t None) s)"
proof -
  let ?s = "set_pc g (Invoking t None) s"
  have e: "wait_edges ?s = wait_edges s"
    by (rule wait_edges_cong) (simp_all add: conc_ops)
  have h: "held ?s g' = held s g'" for g'
    using pc by (simp add: held_def conc_ops)
  have "waits_inv ?s"
    using inv pc unfolding conc_inv_def waits_inv_def e by (auto simp: conc_ops)
  moreover have "builds_inv ?s"
    using inv unfolding conc_inv_def builds_inv_def by (simp add: conc_ops)
  moreover have "held_inv ?s"
    using inv unfolding conc_inv_def held_inv_def h by (simp add: conc_ops)
  moreover have "results_inv ?s"
    using inv unfolding conc_inv_def results_inv_def answered_def by (simp add: conc_ops)
  ultimately show ?thesis by (simp add: conc_inv_def)
qed

lemma conc_step_inv: "conc_step a s = Some s' \<Longrightarrow> conc_inv s \<Longrightarrow> conc_inv s'"
proof (cases a)
  case (Return g r)
  assume "conc_step a s = Some s'" "conc_inv s"
  with Return obtain t ob fs where *: "cc_pc s g = Idle" "cc_frames s g = (t, ob) # fs"
      "s' = invoke_returned t ob r g (pop_frame g s)"
    by (auto split: pc.splits list.splits)
  moreover have "cc_pc (pop_frame g s) g = Idle"
    using *(1) by (simp add: conc_ops)
  ultimately show ?thesis
    using pop_inv [OF \<open>conc_inv s\<close> *(1,2)] by (auto intro!: invoke_returned_inv)
next
  case (Panic g)
  assume "conc_step a s = Some s'" "conc_inv s"
  with Panic show ?thesis
    by (cases "cc_frames s g") (auto split: if_splits intro: pop_inv(1))
qed (auto split: if_splits pc.splits
      intro: ask_inv construct_inv enter_inv store_inv close_inv wake_inv)

lemma conc_run_inv: "conc_run as s = Some s' \<Longrightarrow> conc_inv s \<Longrightarrow> conc_inv s'"
  by (induction as arbitrary: s) (auto split: option.splits dest: conc_step_inv)

lemma conc_run_append:
  "conc_run (as @ bs) s = (case conc_run as s of None \<Rightarrow> None | Some s1 \<Rightarrow> conc_run bs s1)"
  by (induction as arbitrary: s) (auto split: option.splits)

end
