(* ===== verification/Di_Concurrency_Properties.thy ===== *)
theory Di_Concurrency_Properties
  imports Di_Concurrency_Invariant
begin

text \<open>
  What concurrent resolution promises: waitsOn finds exactly the waits that lead back to the
  caller, every caller of a singleton gets the one instance, no goroutine waits forever while
  constructors return, and the one report of a cycle that is none.
\<close>

section \<open>The deadlock check\<close>

text \<open>WaitsOn is exact: with its bound of one step more than there are waiting goroutines, it
answers true for a build and a goroutine exactly when the builder is that goroutine or waits,
directly or through any chain of builds waiting on builds, for one that is. This holds in every
state of the table of waits, cyclic ones included.\<close>

theorem waits_on_exact: "waits_on s b g \<longleftrightarrow> (owner s b, g) \<in> (wait_edges s)\<^sup>*"
  by (rule waits_on_iff)

section \<open>Every singleton is built once at a time and shared\<close>

lemma frames_held_iff: "(t, b) \<in> set (frames_held fs) \<longleftrightarrow> (t, Some b) \<in> set fs"
  by (induction fs rule: frames_held.induct) auto

lemma frame_owned:
  "conc_inv s \<Longrightarrow> (t, Some b) \<in> set (cc_frames s g) \<Longrightarrow> cc_builds s t = Some b \<and> owner s b = g"
  by (rule held_owned) (simp_all add: held_def frames_held_iff)

text \<open>C15: however goroutines interleave, and also when constructors fail or panic, all callers of a
singleton share one instance: every successful answer any of them ever got for a type is the
instance the container has cached for it. A constructor of the type runs only while there is no
instance, and at any moment in one place: on one goroutine, for one build.\<close>

theorem concurrent_singleton_shared:
  assumes "conc_run as no_resolutions = Some s"
  shows "(\<forall>g t v. (g, t, Inr v) \<in> set (cc_out s) \<longrightarrow> om_get (cc_instances s) t = Some v) \<and>
         (\<forall>g t b. (t, Some b) \<in> set (cc_frames s g) \<longrightarrow> om_get (cc_instances s) t = None) \<and>
         (\<forall>g g' t b b'. (t, Some b) \<in> set (cc_frames s g) \<longrightarrow> (t, Some b') \<in> set (cc_frames s g') \<longrightarrow>
            g' = g \<and> b' = b)"
proof (intro conjI)
  have inv: "conc_inv s"
    using conc_run_inv [OF assms conc_inv_init] .
  show "\<forall>g t v. (g, t, Inr v) \<in> set (cc_out s) \<longrightarrow> om_get (cc_instances s) t = Some v"
    using out_answered [OF inv] by (fastforce simp: answered_def)
  show "\<forall>g t b. (t, Some b) \<in> set (cc_frames s g) \<longrightarrow> om_get (cc_instances s) t = None"
    using frame_owned [OF inv] builds_fresh [OF inv] by blast
  show "\<forall>g g' t b b'. (t, Some b) \<in> set (cc_frames s g) \<longrightarrow> (t, Some b') \<in> set (cc_frames s g') \<longrightarrow>
           g' = g \<and> b' = b"
  proof (intro allI impI)
    fix g g' t b b' assume "(t, Some b) \<in> set (cc_frames s g)" "(t, Some b') \<in> set (cc_frames s g')"
    then show "g' = g \<and> b' = b"
      using frame_owned [OF inv, of t b g] frame_owned [OF inv, of t b' g'] by simp
  qed
qed

definition demo_actions :: "action list" where
  "demo_actions = [Ask 1 ''A'', Enter 1, Ask 2 ''B'', Enter 2, Ask 2 ''A'',
     Return 1 (Inr (Obj ''A'' 1)), Store 1, CloseDone 1, Wake 2]"

definition demo_state :: conc where
  "demo_state = the (conc_run demo_actions no_resolutions)"

lemma demo_run: "conc_run demo_actions no_resolutions = Some demo_state"
  by (simp add: demo_state_def demo_actions_def conc_ops no_resolutions_def fresh_build_def
      enter_build_def max_resolve_depth_def waits_on_def)

lemma demo_out: "cc_out demo_state = [(1, ''A'', Inr (Obj ''A'' 1)), (2, ''A'', Inr (Obj ''A'' 1))]"
  and demo_frames: "cc_frames demo_state 2 = [(''B'', Some 1)]"
  by (simp_all add: demo_state_def demo_actions_def conc_ops no_resolutions_def fresh_build_def
      enter_build_def max_resolve_depth_def waits_on_def)

theorem concurrent_singleton_shared_witness:
  "cc_out demo_state = [(1, ''A'', Inr (Obj ''A'' 1)), (2, ''A'', Inr (Obj ''A'' 1))] \<and>
   om_get (cc_instances demo_state) ''A'' = Some (Obj ''A'' 1) \<and>
   om_get (cc_instances demo_state) ''B'' = None"
proof (intro conjI)
  show "om_get (cc_instances demo_state) ''A'' = Some (Obj ''A'' 1)"
    using concurrent_singleton_shared [OF demo_run] demo_out by simp
  show "om_get (cc_instances demo_state) ''B'' = None"
    using concurrent_singleton_shared [OF demo_run] demo_frames by (metis list.set_intros(1))
qed (rule demo_out)

section \<open>Nobody waits forever\<close>

definition live_inv :: "conc \<Rightarrow> bool" where
  "live_inv s \<longleftrightarrow>
     (\<forall>t b. cc_builds s t = Some b \<longrightarrow> (t, b) \<in> set (held s (owner s b))) \<and>
     (\<forall>b < cc_next s. bd_closed (cc_table s b) \<or> b \<in> ran (cc_builds s) \<or>
        (\<exists>t r. cc_pc s (owner s b) = Closing t b r))"

definition busy :: "conc \<Rightarrow> gid \<Rightarrow> bool" where
  "busy s g \<longleftrightarrow> cc_pc s g \<noteq> Idle \<or> cc_frames s g \<noteq> []"

lemma live_init: "live_inv no_resolutions"
  by (simp add: live_inv_def no_resolutions_def)

lemma live_invI:
  "(\<And>t b. cc_builds s t = Some b \<Longrightarrow> (t, b) \<in> set (held s (owner s b))) \<Longrightarrow>
   (\<And>b. b < cc_next s \<Longrightarrow> \<not> bd_closed (cc_table s b) \<Longrightarrow> b \<notin> ran (cc_builds s) \<Longrightarrow>
      \<exists>t r. cc_pc s (owner s b) = Closing t b r) \<Longrightarrow> live_inv s"
  unfolding live_inv_def by blast

lemma live_held: "live_inv s \<Longrightarrow> cc_builds s t = Some b \<Longrightarrow> (t, b) \<in> set (held s (owner s b))"
  by (simp add: live_inv_def)

lemma live_open:
  "live_inv s \<Longrightarrow> b < cc_next s \<Longrightarrow> \<not> bd_closed (cc_table s b) \<Longrightarrow> b \<notin> ran (cc_builds s) \<Longrightarrow>
     \<exists>t r. cc_pc s (owner s b) = Closing t b r"
  unfolding live_inv_def by blast

text \<open>A step that touches no build and keeps what its goroutine is inside of.\<close>

lemma live_cong:
  assumes "live_inv s" and "cc_builds s' = cc_builds s" and "cc_table s' = cc_table s"
    and "cc_next s' = cc_next s" and "\<And>h. set (held s h) \<subseteq> set (held s' h)"
    and "\<And>h t b r. cc_pc s h = Closing t b r \<Longrightarrow> cc_pc s' h = Closing t b r"
  shows "live_inv s'"
proof (rule live_invI)
  fix t b assume "cc_builds s' t = Some b"
  then show "(t, b) \<in> set (held s' (owner s' b))"
    using live_held [OF assms(1), of t b] assms(2,3,5) by auto
next
  fix b assume "b < cc_next s'" "\<not> bd_closed (cc_table s' b)" "b \<notin> ran (cc_builds s')"
  then show "\<exists>t r. cc_pc s' (owner s' b) = Closing t b r"
    using live_open [OF assms(1), of b] assms(2,3,4,6) by auto
qed

lemma held_set_pc:
  "pc_held (cc_pc s g) = [] \<Longrightarrow> set (held s h) \<subseteq> set (held (set_pc g p s) h)"
  by (auto simp: held_def set_pc_def)

lemma live_step:
  assumes st: "conc_step a s = Some s'" and inv: "conc_inv s" and live: "live_inv s"
    and np: "\<not> is_panic a"
  shows "live_inv s'"
  using np
proof (cases a)
  case (Ask g t)
  with st have pc: "cc_pc s g = Idle" and s': "s' = ask_singleton t g s" by (auto split: if_splits)
  show ?thesis
  proof (cases "om_get (cc_instances s) t = None \<and> cc_builds s t = None")
    case False
    then show ?thesis
      by (intro live_cong [OF live])
        (use pc in \<open>auto simp: s' ask_singleton_def await_build_def answer_def set_pc_def held_def
            split: option.splits\<close>)
  next
    case True
    have lt: "cc_builds s u = Some b \<Longrightarrow> b < cc_next s" for u b
      using builds_fresh [OF inv, of u b] by simp
    show ?thesis
    proof (rule live_invI)
      fix u b assume "cc_builds s' u = Some b"
      then show "(u, b) \<in> set (held s' (owner s' b))"
        using True pc live_held [OF live, of u b] lt [of u b]
        by (auto simp: s' ask_singleton_def set_pc_def held_def fresh_build_def split: if_splits)
    next
      fix b assume b: "b < cc_next s'" "\<not> bd_closed (cc_table s' b)" "b \<notin> ran (cc_builds s')"
      moreover have ran: "ran (cc_builds s') = insert (cc_next s) (ran (cc_builds s))"
        using True by (simp add: s' ask_singleton_def set_pc_def ran_map_upd)
      ultimately have "b \<noteq> cc_next s" by blast
      with b True have "b \<notin> ran (cc_builds s)" "b < cc_next s" "\<not> bd_closed (cc_table s b)"
        unfolding ran by (auto simp: s' ask_singleton_def set_pc_def)
      with live_open [OF live this(2,3,1)] \<open>b \<noteq> cc_next s\<close> True pc
      show "\<exists>t r. cc_pc s' (owner s' b) = Closing t b r"
        by (auto simp: s' ask_singleton_def set_pc_def)
    qed
  qed
next
  case (Construct g t)
  with st show ?thesis
    by (intro live_cong [OF live]) (auto simp: set_pc_def held_def split: if_splits)
next
  case (Enter g)
  with st obtain t ob where pc: "cc_pc s g = Invoking t ob" and s': "s' = enter_invoke t ob g s"
    by (auto split: pc.splits)
  show ?thesis
    by (intro live_cong [OF live])
      (cases ob; use pc in \<open>auto simp: s' enter_invoke_def invoke_returned_def set_pc_def held_def
          frames_held_iff split: sum.splits\<close>)+
next
  case (Return g r)
  with st obtain t ob fs where pc: "cc_pc s g = Idle" "cc_frames s g = (t, ob) # fs"
      and s': "s' = invoke_returned t ob r g (pop_frame g s)"
    by (auto split: pc.splits list.splits)
  show ?thesis
    by (intro live_cong [OF live])
      (use pc in \<open>auto simp: s' conc_ops held_def frames_held_iff split: option.splits\<close>)
next
  case (Store g)
  with st obtain t b r where pc: "cc_pc s g = Storing t b r" and s': "s' = store_result t b r g s"
    by (auto split: pc.splits)
  have tb: "cc_builds s t = Some b" "owner s b = g"
    using held_owned [OF inv, of t b g] pc by (simp_all add: held_def)
  have inj: "cc_builds s u = Some c \<Longrightarrow> u \<noteq> t \<Longrightarrow> c \<noteq> b" for u c
    using inv tb(1) unfolding conc_inv_def builds_inv_def by blast
  show ?thesis
  proof (rule live_invI)
    fix u c assume "cc_builds s' u = Some c"
    then show "(u, c) \<in> set (held s' (owner s' c))"
      using live_held [OF live, of u c] pc inj [of u c]
      by (auto simp: s' store_result_def set_pc_def held_def split: if_splits)
  next
    fix c assume c: "c < cc_next s'" "\<not> bd_closed (cc_table s' c)" "c \<notin> ran (cc_builds s')"
    show "\<exists>t r. cc_pc s' (owner s' c) = Closing t c r"
    proof (cases "c = b")
      case True
      then show ?thesis using tb by (simp add: s' store_result_def set_pc_def)
    next
      case False
      have "c \<notin> ran (cc_builds s)"
      proof
        assume "c \<in> ran (cc_builds s)"
        then obtain u where u: "cc_builds s u = Some c" by (auto simp: ran_def)
        with False tb(1) have "cc_builds s' u = Some c"
          by (auto simp: s' store_result_def set_pc_def)
        with c(3) show False by (simp add: ranI)
      qed
      with c False pc show ?thesis
        using live_open [OF live, of c] by (auto simp: s' store_result_def set_pc_def)
    qed
  qed
next
  case (CloseDone g)
  with st obtain t b r where pc: "cc_pc s g = Closing t b r" and s': "s' = close_done t b r g s"
    by (auto split: pc.splits)
  show ?thesis
  proof (rule live_invI)
    fix u c assume "cc_builds s' u = Some c"
    then show "(u, c) \<in> set (held s' (owner s' c))"
      using live_held [OF live, of u c] pc
      by (auto simp: s' close_done_def answer_def set_pc_def held_def split: if_splits)
  next
    fix c assume "c < cc_next s'" "\<not> bd_closed (cc_table s' c)" "c \<notin> ran (cc_builds s')"
    then show "\<exists>t r. cc_pc s' (owner s' c) = Closing t c r"
      using live_open [OF live, of c] pc
      by (auto simp: s' close_done_def answer_def set_pc_def split: if_splits)
  qed
next
  case (Wake g)
  with st obtain t b where pc: "cc_pc s g = Waiting t b" and s': "s' = wake t b g s"
    by (auto split: pc.splits if_splits)
  show ?thesis
    by (intro live_cong [OF live])
      (use pc in \<open>auto simp: s' wake_def answer_def set_pc_def held_def\<close>)
qed simp

lemma live_run:
  "conc_run as s = Some s' \<Longrightarrow> conc_inv s \<Longrightarrow> live_inv s \<Longrightarrow> list_all (\<lambda>a. \<not> is_panic a) as \<Longrightarrow>
     live_inv s'"
  by (induction as arbitrary: s) (auto split: option.splits dest: live_step conc_step_inv)

text \<open>Follow the waits from a busy goroutine to one that can go on.\<close>

lemma unblocked_exists:
  assumes inv: "conc_inv s" and live: "live_inv s" and g: "busy s g"
  shows "\<exists>h. (g, h) \<in> (wait_edges s)\<^sup>* \<and> busy s h \<and> \<not> blocked s h"
proof -
  have wf: "wf ((wait_edges s)\<inverse>)"
    using inv by (intro finite_acyclic_wf_converse) (simp_all add: conc_inv_def waits_inv_def)
  from wf g show ?thesis
  proof (induction g rule: wf_induct_rule)
    case (less g)
    show ?case
    proof (cases "blocked s g")
      case False
      with less.prems show ?thesis by blast
    next
      case True
      then obtain t b where pc: "cc_pc s g = Waiting t b" and nc: "\<not> bd_closed (cc_table s b)"
        by (auto simp: blocked_def split: pc.splits)
      have w: "map_of (cc_waiting s) g = Some b"
        using inv pc by (simp add: conc_inv_def waits_inv_def)
      then have e: "(g, owner s b) \<in> wait_edges s" by (simp add: wait_edges_iff)
      have "busy s (owner s b)"
      proof (cases "b \<in> ran (cc_builds s)")
        case True
        then obtain u where "(u, b) \<in> set (held s (owner s b))"
          using live_held [OF live] by (auto simp: ran_def)
        then show ?thesis by (auto simp: busy_def held_def)
      next
        case False
        with live_open [OF live _ nc] waiting_build [OF inv pc] show ?thesis
          by (auto simp: busy_def)
      qed
      with less.IH [of "owner s b"] e obtain h where
        "(owner s b, h) \<in> (wait_edges s)\<^sup>*" "busy s h" "\<not> blocked s h" by auto
      with e show ?thesis by (meson converse_rtrancl_into_rtrancl)
    qed
  qed
qed

fun is_progress :: "action \<Rightarrow> bool" where
  "is_progress a = (\<not> is_panic a \<and> \<not> is_request a)"

lemma unblocked_steps:
  assumes "busy s h" and "\<not> blocked s h"
  shows "\<exists>a. is_progress a \<and> conc_step a s \<noteq> None"
proof (cases "cc_pc s h")
  case Idle
  with assms(1) obtain t ob fs where "cc_frames s h = (t, ob) # fs"
    by (cases "cc_frames s h") (auto simp: busy_def)
  with Idle have "conc_step (Return h (Inr Invalid)) s \<noteq> None" by simp
  then show ?thesis by (intro exI [of _ "Return h (Inr Invalid)"]) simp
next
  case (Invoking t ob)
  then show ?thesis by (intro exI [of _ "Enter h"]) simp
next
  case (Storing t b r)
  then show ?thesis by (intro exI [of _ "Store h"]) simp
next
  case (Closing t b r)
  then show ?thesis by (intro exI [of _ "CloseDone h"]) simp
next
  case (Waiting t b)
  with assms(2) show ?thesis by (intro exI [of _ "Wake h"]) (simp add: blocked_def)
qed

text \<open>How many steps of its own a goroutine is away from having nothing left to do.\<close>

fun pc_weight :: "pc \<Rightarrow> nat" where
  "pc_weight Idle = 0"
| "pc_weight (Invoking t ob) = 4"
| "pc_weight (Storing t b r) = 2"
| "pc_weight (Closing t b r) = 1"
| "pc_weight (Waiting t b) = 1"

definition weight :: "conc \<Rightarrow> gid \<Rightarrow> nat" where
  "weight s g = pc_weight (cc_pc s g) + 3 * length (cc_frames s g)"

fun actor :: "action \<Rightarrow> gid" where
  "actor (Ask g t) = g" | "actor (Construct g t) = g" | "actor (Enter g) = g"
| "actor (Return g r) = g" | "actor (Panic g) = g" | "actor (Store g) = g"
| "actor (CloseDone g) = g" | "actor (Wake g) = g"

lemma step_weight:
  assumes "conc_step a s = Some s'"
  shows "h \<noteq> actor a \<Longrightarrow> weight s' h = weight s h"
    and "weight s' (actor a) \<le> weight s (actor a) + 4"
    and "\<not> is_request a \<Longrightarrow> weight s' (actor a) < weight s (actor a)"
  using assms
  by (cases a; auto simp: weight_def conc_ops split: if_splits pc.splits option.splits sum.splits list.splits)+

definition work :: "nat \<Rightarrow> conc \<Rightarrow> nat" where
  "work n s = (\<Sum>g<n. weight s g)"

lemma work_step:
  assumes "conc_step a s = Some s'" and "actor a < n"
  shows "work n s' \<le> work n s + 4" and "\<not> is_request a \<Longrightarrow> work n s' < work n s"
proof -
  have split: "work n x = weight x (actor a) + (\<Sum>g\<in>{..<n} - {actor a}. weight x g)" for x
    unfolding work_def using assms(2) by (simp add: sum.remove)
  have same: "(\<Sum>g\<in>{..<n} - {actor a}. weight s' g) = (\<Sum>g\<in>{..<n} - {actor a}. weight s g)"
    using step_weight(1) [OF assms(1)] by (intro sum.cong) auto
  show "work n s' \<le> work n s + 4"
    using step_weight(2) [OF assms(1)] split [of s] split [of s'] same by simp
  show "\<not> is_request a \<Longrightarrow> work n s' < work n s"
    using step_weight(3) [OF assms(1)] split [of s] split [of s'] same by simp
qed

lemma work_run:
  assumes "conc_run as s = Some s'" and "\<forall>a\<in>set as. actor a < n"
  shows "work n s' \<le> work n s + 4 * length as"
  using assms
proof (induction as arbitrary: s)
  case (Cons a as)
  then obtain s1 where st: "conc_step a s = Some s1" "conc_run as s1 = Some s'"
    by (auto split: option.splits)
  with Cons.prems work_step(1) [OF st(1), of n] Cons.IH [OF st(2)] show ?case by simp
qed simp

lemma progress_run:
  assumes "conc_run bs s = Some s'" and "\<forall>a\<in>set bs. actor a < n" and "list_all is_progress bs"
  shows "work n s' + length bs \<le> work n s"
  using assms
proof (induction bs arbitrary: s)
  case (Cons a bs)
  then obtain s1 where st: "conc_step a s = Some s1" "conc_run bs s1 = Some s'"
    by (auto split: option.splits)
  with Cons.prems work_step(2) [OF st(1), of n] Cons.IH [of s1] show ?case by simp
qed simp

definition quiescent :: "conc \<Rightarrow> bool" where
  "quiescent s \<longleftrightarrow> (\<forall>g. cc_pc s g = Idle \<and> cc_frames s g = [])"

text \<open>C14: resolution cannot deadlock and always comes to an end. Take any interleaving in which no
constructor panics, and let it go on without new requests, the constructors under way returning
whatever they like. Then it goes on for at most four steps per step made so far, and it stops
only when every goroutine has its answer: as long as some goroutine waits or builds, some
goroutine can make a step. The bound uses that each request costs at most four steps (enter,
return, store, close) and that waits never form a cycle.\<close>

theorem resolution_terminates:
  assumes "conc_run as no_resolutions = Some s" and "list_all (\<lambda>a. \<not> is_panic a) as"
    and "conc_run bs s = Some s'" and "list_all is_progress bs"
  shows "length bs \<le> 4 * length as \<and>
         (quiescent s' \<or> (\<exists>a. is_progress a \<and> conc_step a s' \<noteq> None))"
proof
  define n where "n = Suc (Max (insert 0 (actor ` set (as @ bs))))"
  have "actor a < n" if "a \<in> set as \<union> set bs" for a
    unfolding n_def less_Suc_eq_le by (rule Max_ge) (use that in auto)
  then have a: "\<forall>a\<in>set as. actor a < n" and b: "\<forall>a\<in>set bs. actor a < n" by auto
  have "work n no_resolutions = 0"
    by (simp add: work_def weight_def no_resolutions_def)
  then show "length bs \<le> 4 * length as"
    using work_run [OF assms(1) a] progress_run [OF assms(3) b assms(4)] by simp
  have np: "list_all (\<lambda>a. \<not> is_panic a) bs"
    using assms(4) by (simp add: list_all_iff)
  have inv: "conc_inv s" and live: "live_inv s"
    using conc_run_inv [OF assms(1) conc_inv_init]
      live_run [OF assms(1) conc_inv_init live_init assms(2)] .
  have inv': "conc_inv s'" and live': "live_inv s'"
    using conc_run_inv [OF assms(3) inv] live_run [OF assms(3) inv live np] .
  show "quiescent s' \<or> (\<exists>a. is_progress a \<and> conc_step a s' \<noteq> None)"
  proof (cases "quiescent s'")
    case False
    then obtain g where "busy s' g" by (auto simp: quiescent_def busy_def)
    then obtain h where "busy s' h" "\<not> blocked s' h"
      using unblocked_exists [OF inv' live'] by blast
    then show ?thesis using unblocked_steps by blast
  qed simp
qed

theorem resolution_terminates_witness:
  "\<exists>s s'. conc_run [Ask 1 ''A'', Enter 1, Ask 2 ''A''] no_resolutions = Some s \<and>
     conc_run [Return 1 (Inr (Obj ''A'' 1)), Store 1, CloseDone 1, Wake 2] s = Some s' \<and>
     (quiescent s' \<or> (\<exists>a. is_progress a \<and> conc_step a s' \<noteq> None))"
proof -
  let ?as = "[Ask 1 ''A'', Enter 1, Ask 2 ''A'']"
  let ?bs = "[Return 1 (Inr (Obj ''A'' 1)), Store 1, CloseDone 1, Wake 2]"
  have "conc_run (?as @ ?bs) no_resolutions \<noteq> None"
    by (simp add: conc_ops no_resolutions_def fresh_build_def enter_build_def
        max_resolve_depth_def waits_on_def)
  then obtain s s' where "conc_run ?as no_resolutions = Some s" "conc_run ?bs s = Some s'"
    unfolding conc_run_append by (auto split: option.splits simp del: conc_run.simps)
  moreover from resolution_terminates [OF this(1) _ this(2)] have
    "quiescent s' \<or> (\<exists>a. is_progress a \<and> conc_step a s' \<noteq> None)" by simp
  ultimately show ?thesis by blast
qed

section \<open>A report of a cycle that is none\<close>

text \<open>AwaitBuild can report a deadlock that does not exist. Goroutine 2 builds B and waits for A,
which goroutine 1 builds. Goroutine 1 finishes A and closes the build, so nobody is blocked any
more, and asks for B before goroutine 2 has run again and taken itself out of the table of waits:
its request fails with ErrCircularDependency. Had goroutine 2 run first, the same request would
have waited and got B.\<close>

theorem ended_build_reported_as_cycle:
  "\<exists>s e s2. conc_run [Ask 1 ''A'', Enter 1, Ask 2 ''B'', Enter 2, Ask 2 ''A'',
       Return 1 (Inr (Obj ''A'' 1)), Store 1, CloseDone 1] no_resolutions = Some s \<and>
     (\<forall>g. \<not> blocked s g) \<and>
     map_option (\<lambda>s'. last (cc_out s')) (conc_step (Ask 1 ''B'') s) = Some (1, ''B'', Inl e) \<and>
     err_is e ErrCircularDependency \<and>
     conc_run [Wake 2, Ask 1 ''B'', Return 2 (Inr (Obj ''B'' 2)), Store 2, CloseDone 2, Wake 1] s = Some s2 \<and>
     last (cc_out s2) = (1, ''B'', Inr (Obj ''B'' 2))"
  by (simp add: conc_ops no_resolutions_def fresh_build_def enter_build_def max_resolve_depth_def
      waits_on_def blocked_def)

section \<open>A panic in a constructor\<close>

text \<open>A build whose goroutine is no longer inside of it.\<close>

definition abandoned :: "conc \<Rightarrow> rtype \<Rightarrow> bid \<Rightarrow> bool" where
  "abandoned s t b \<longleftrightarrow> cc_builds s t = Some b \<and> (\<forall>g. (t, b) \<notin> set (held s g))"

lemma frames_from:
  "conc_step a s = Some s' \<Longrightarrow> (t, Some b) \<in> set (cc_frames s' h) \<Longrightarrow>
     (t, Some b) \<in> set (cc_frames s h) \<or> cc_pc s h = Invoking t (Some b)"
  by (cases a)
    (auto simp: conc_ops split: if_splits pc.splits option.splits sum.splits list.splits
      dest: list.set_sel(2) [rotated])

lemma pc_from:
  "conc_step a s = Some s' \<Longrightarrow> (t, b) \<in> set (pc_held (cc_pc s' h)) \<Longrightarrow>
     (t, b) \<in> set (pc_held (cc_pc s h)) \<or> (t, Some b) \<in> set (cc_frames s h) \<or> b = cc_next s"
  by (cases a)
    (auto simp: conc_ops split: if_splits pc.splits option.splits sum.splits list.splits)

lemma abandoned_step:
  assumes st: "conc_step a s = Some s'" and inv: "conc_inv s" and ab: "abandoned s t b"
  shows "abandoned s' t b"
proof -
  from ab have b: "cc_builds s t = Some b" and nh: "(t, b) \<notin> set (held s g)" for g
    by (auto simp: abandoned_def)
  have lt: "b < cc_next s" using builds_fresh [OF inv b] by simp
  have nf: "(t, Some b) \<notin> set (cc_frames s g)" for g
    using nh [of g] by (simp add: held_def frames_held_iff)
  have np: "(t, b) \<notin> set (pc_held (cc_pc s g))" for g
    using nh [of g] by (simp add: held_def)
  have store: "cc_pc s g = Storing u c r \<Longrightarrow> u \<noteq> t" for g u c r
    using held_owned [OF inv, of u c g] np [of g] b by (auto simp: held_def)
  have "cc_builds s' t = Some b"
    using st b store
    by (cases a) (auto simp: conc_ops split: if_splits pc.splits option.splits sum.splits list.splits dest: store)
  moreover have "(t, b) \<notin> set (held s' h)" for h
  proof -
    have "(t, Some b) \<notin> set (cc_frames s' h)"
      using frames_from [OF st, of t b h] nf [of h] np [of h] by auto
    moreover have "(t, b) \<notin> set (pc_held (cc_pc s' h))"
      using pc_from [OF st, of t b h] nf [of h] np [of h] lt by auto
    ultimately show ?thesis by (simp add: held_def frames_held_iff)
  qed
  ultimately show ?thesis by (simp add: abandoned_def)
qed

lemma abandoned_run:
  "conc_run as s = Some s' \<Longrightarrow> conc_inv s \<Longrightarrow> abandoned s t b \<Longrightarrow> abandoned s' t b"
  by (induction as arbitrary: s) (auto split: option.splits dest: abandoned_step conc_step_inv)

text \<open>
  A panic that unwinds the constructor of a singleton skips resolveSingleton's second half, so,
  when it is recovered further up, the build stays registered and its channel open: whatever
  happens afterwards the singleton is never built, and a goroutine that waits for it waits forever.
\<close>

theorem panic_leaves_build:
  assumes "conc_run as no_resolutions = Some s" and "cc_frames s g = (t, Some b) # fs"
    and "conc_step (Panic g) s = Some s1" and "conc_run bs s1 = Some s'"
  shows "om_get (cc_instances s') t = None \<and> (\<forall>h. cc_pc s' h = Waiting t b \<longrightarrow> blocked s' h)"
proof -
  have inv: "conc_inv s" using conc_run_inv [OF assms(1) conc_inv_init] .
  have inv1: "conc_inv s1" using conc_step_inv [OF assms(3) inv] .
  have pc: "cc_pc s g = Idle" and s1: "s1 = pop_frame g s"
    using assms(3) by (auto split: if_splits)
  have "cc_builds s1 t = Some b" and "owner s1 b = g"
    and "(t, b) \<notin> set (frames_held (cc_frames s1 g))"
    using pop_inv(2) [OF inv pc assms(2), of b] by (simp_all add: s1)
  moreover have "cc_pc s1 g = Idle" using pc by (simp add: s1 conc_ops)
  ultimately have "abandoned s1 t b"
    using held_owned [OF inv1, of t b] unfolding abandoned_def held_def
    by (metis append_Nil pc_held.simps(3))
  then have ab: "abandoned s' t b" by (rule abandoned_run [OF assms(4) inv1])
  have "conc_inv s'" using conc_run_inv [OF assms(4) inv1] .
  from builds_fresh [OF this, of t b] ab show ?thesis
    by (auto simp: abandoned_def blocked_def)
qed

end
