(* ===== verification/Event_Bus.thy ===== *)
theory Event_Bus
  imports Gas_Prelude
begin

text \<open>
  The event bus of eventbus.go: subscriptions per event type with their owning service, delivery
  to a snapshot, and removal by owner. An event type is its name; a subscription is its owner
  and an identity for the handler closure. What a handler does with a payload is the caller's:
  delivery takes it as a function that says which handlers panic.
\<close>

record subscription =
  sub_owner :: string
  sub_handler :: nat

type_synonym event = string
type_synonym bus = "event \<rightharpoonup> subscription list"

definition new_event_bus :: bus where
  "new_event_bus = Map.empty"

definition subscribers_of :: "bus \<Rightarrow> event \<Rightarrow> subscription list" where
  "subscribers_of b e = (case b e of None \<Rightarrow> [] | Some subs \<Rightarrow> subs)"

definition subscribe :: "event \<Rightarrow> nat \<Rightarrow> bus \<Rightarrow> bus" where
  "subscribe e h b = b(e \<mapsto> subscribers_of b e @ [\<lparr>sub_owner = '''', sub_handler = h\<rparr>])"

definition subscribe_with_owner :: "event \<Rightarrow> string \<Rightarrow> nat \<Rightarrow> bus \<Rightarrow> bus" where
  "subscribe_with_owner e service h b =
     b(e \<mapsto> subscribers_of b e @ [\<lparr>sub_owner = service, sub_handler = h\<rparr>])"

text \<open>The snapshot Emit starts a goroutine for, one per subscription.\<close>

definition emit_snapshot :: "event \<Rightarrow> bus \<Rightarrow> subscription list" where
  "emit_snapshot e b = subscribers_of b e"

text \<open>
  One Emit: every handler of the snapshot runs, a panic is recovered and reported with the event
  and the owner, and the wait group ends once all have returned. The result is the calls made
  and the reports.
\<close>

definition emit ::
  "(subscription \<Rightarrow> 'd \<Rightarrow> string option) \<Rightarrow> event \<Rightarrow> 'd \<Rightarrow> bus \<Rightarrow> nat list \<times> (event \<times> string \<times> string) list"
where
  "emit run e d b =
     (let subs = emit_snapshot e b in
      (map sub_handler subs,
       List.map_filter (\<lambda>s. case run s d of None \<Rightarrow> None | Some rec \<Rightarrow> Some (e, sub_owner s, rec)) subs))"

text \<open>
  RemoveByService filters each event's list in place and deletes an event whose list became
  empty. Deleting the key under range is allowed in Go, and no other key is touched, so the
  range amounts to one step on every key.
\<close>

definition remove_subscriber :: "string \<Rightarrow> subscription list \<Rightarrow> subscription list option" where
  "remove_subscriber name subs =
     (let filtered = filter (\<lambda>s. sub_owner s \<noteq> name) subs
      in if filtered = [] then None else Some filtered)"

definition remove_by_service :: "string \<Rightarrow> bus \<Rightarrow> bus" where
  "remove_by_service name b = (\<lambda>e. case b e of None \<Rightarrow> None | Some subs \<Rightarrow> remove_subscriber name subs)"

definition bus_inv :: "bus \<Rightarrow> bool" where
  "bus_inv b \<longleftrightarrow> (\<forall>e. b e \<noteq> Some [])"

lemma bus_inv_new [simp, gas_inv]: "bus_inv new_event_bus"
  by (simp add: bus_inv_def new_event_bus_def)

lemma bus_inv_subscribe [gas_inv]:
  "bus_inv b \<Longrightarrow> bus_inv (subscribe e h b)" "bus_inv b \<Longrightarrow> bus_inv (subscribe_with_owner e n h b)"
  by (auto simp: bus_inv_def subscribe_def subscribe_with_owner_def)

lemma bus_inv_remove [gas_inv]: "bus_inv (remove_by_service name b)"
  by (auto simp: bus_inv_def remove_by_service_def remove_subscriber_def Let_def split: option.splits)

lemma subscribers_of_remove:
  "subscribers_of (remove_by_service name b) e = filter (\<lambda>s. sub_owner s \<noteq> name) (subscribers_of b e)"
  by (simp add: subscribers_of_def remove_by_service_def remove_subscriber_def Let_def split: option.split)

lemma subscribers_of_subscribe [simp]:
  "subscribers_of (subscribe_with_owner e n h b) e' =
     (if e' = e then subscribers_of b e @ [\<lparr>sub_owner = n, sub_handler = h\<rparr>] else subscribers_of b e')"
  "subscribers_of (subscribe e h b) e' =
     (if e' = e then subscribers_of b e @ [\<lparr>sub_owner = '''', sub_handler = h\<rparr>] else subscribers_of b e')"
  by (simp_all add: subscribers_of_def subscribe_with_owner_def subscribe_def)

lemma remove_subscriber_twice:
  "(case remove_subscriber m subs of None \<Rightarrow> None | Some s \<Rightarrow> remove_subscriber n s) =
     (let f = filter (\<lambda>s. sub_owner s \<noteq> m \<and> sub_owner s \<noteq> n) subs in if f = [] then None else Some f)"
proof -
  let ?f = "filter (\<lambda>s. sub_owner s \<noteq> m) subs"
  have f: "filter (\<lambda>s. sub_owner s \<noteq> m \<and> sub_owner s \<noteq> n) subs = filter (\<lambda>s. sub_owner s \<noteq> n) ?f"
    by (simp add: conj_commute)
  show ?thesis unfolding f by (cases "?f = []") (simp_all add: remove_subscriber_def Let_def)
qed

lemma remove_twice:
  "remove_by_service n (remove_by_service m b) e =
     (case b e of None \<Rightarrow> None | Some subs \<Rightarrow>
        (let f = filter (\<lambda>s. sub_owner s \<noteq> m \<and> sub_owner s \<noteq> n) subs in if f = [] then None else Some f))"
  using remove_subscriber_twice by (simp add: remove_by_service_def split: option.split)

text \<open>Removal by service is exact. After RemoveByService the handlers an Emit of any event
  runs are those it ran before, in order, without the named service's; no event keeps an empty
  list, a second removal changes nothing, and removals of two services commute.\<close>

theorem remove_by_service_exact:
  "emit_snapshot e (remove_by_service n b) = filter (\<lambda>s. sub_owner s \<noteq> n) (emit_snapshot e b) \<and>
   bus_inv (remove_by_service n b) \<and>
   remove_by_service n (remove_by_service n b) = remove_by_service n b \<and>
   remove_by_service n (remove_by_service m b) = remove_by_service m (remove_by_service n b)"
proof (intro conjI)
  show "remove_by_service n (remove_by_service n b) = remove_by_service n b"
    by (rule ext) (simp add: remove_twice, simp add: remove_by_service_def remove_subscriber_def split: option.split)
  show "remove_by_service n (remove_by_service m b) = remove_by_service m (remove_by_service n b)"
    by (rule ext) (simp add: remove_twice conj_commute split: option.split)
qed (simp_all add: emit_snapshot_def subscribers_of_remove bus_inv_remove)

text \<open>A panicking subscriber costs only itself. An Emit runs every handler subscribed to the
  event, in registration order and whatever any of them does, and reports exactly the ones that
  panicked, each with the service that owns it.\<close>

theorem emit_isolates_panics:
  "emit run e d b = (calls, reports) \<Longrightarrow>
     calls = map sub_handler (subscribers_of b e) \<and>
     set reports = {(e, sub_owner s, rec) | s rec. s \<in> set (subscribers_of b e) \<and> run s d = Some rec} \<and>
     length reports = length (filter (\<lambda>s. run s d \<noteq> None) (subscribers_of b e))"
proof -
  let ?f = "\<lambda>s. case run s d of None \<Rightarrow> None | Some rec \<Rightarrow> Some (e, sub_owner s, rec)"
  have "length (List.map_filter ?f subs) = length (filter (\<lambda>s. run s d \<noteq> None) subs)" for subs
    by (induction subs) (auto simp: map_filter_simps split: option.split)
  moreover have "set (List.map_filter ?f subs) =
      {(e, sub_owner s, rec) | s rec. s \<in> set subs \<and> run s d = Some rec}" for subs
    by (induction subs) (auto simp: map_filter_simps split: option.splits)
  moreover assume "emit run e d b = (calls, reports)"
  ultimately show ?thesis by (auto simp: emit_def emit_snapshot_def Let_def)
qed

theorem emit_isolates_panics_witness:
  "emit (\<lambda>s (d::nat). if sub_owner s = ''bad'' then Some ''nil map'' else None) ''paid'' 3
     (subscribe ''paid'' 2 (subscribe_with_owner ''paid'' ''bad'' 1 new_event_bus)) =
     ([1, 2], [(''paid'', ''bad'', ''nil map'')]) \<and>
   set [(''paid'', ''bad'', ''nil map'')] =
     {(''paid'', sub_owner s, rec) | s rec.
        s \<in> set (subscribers_of (subscribe ''paid'' 2 (subscribe_with_owner ''paid'' ''bad'' 1 new_event_bus)) ''paid'') \<and>
        (if sub_owner s = ''bad'' then Some ''nil map'' else None) = Some rec}"
proof -
  have e: "emit (\<lambda>s (d::nat). if sub_owner s = ''bad'' then Some ''nil map'' else None) ''paid'' 3
     (subscribe ''paid'' 2 (subscribe_with_owner ''paid'' ''bad'' 1 new_event_bus)) =
     ([1, 2], [(''paid'', ''bad'', ''nil map'')])"
    by (simp add: emit_def emit_snapshot_def new_event_bus_def map_filter_simps)
      (simp add: subscribers_of_def map_filter_simps)
  show ?thesis using e emit_isolates_panics [OF e] by (intro conjI) (simp_all only:)
qed

end
