(* ===== verification/Worker_Lifecycle.thy ===== *)
theory Worker_Lifecycle
  imports Di_Lifecycle Event_Bus
begin

text \<open>
  The Worker of worker.go and service_management.go: start-up, the kill switch and shutdown over
  the container and the event bus. A service is the value the container holds (\<open>rvalue\<close>), its
  name a parameter. The Init and Close calls of the worker are logged in the container's event
  trace, after those of the container, so one trace shows every Init and Close.
\<close>

section \<open>State and environment\<close>

datatype werr =
    WDi gerr | WClose string gerr | WPostBuild string | WMigrations string | WReadyHook string
  | WBindConfig string | WShutDown | WNoBuiltInstance rtype | WNotActive string
  | WAlreadyActive string | WNotFound string | WReInit string gerr

text \<open>
  What the worker's surroundings do: the container's world, each service's name, the result of
  the post-build hook (\<open>None\<close> when unset), of the migration manager's RunPending (\<open>None\<close> when
  none is registered), of each ready func, and whether onServiceClose is set.
\<close>

record wenv =
  we_world :: world
  we_name :: "rvalue \<Rightarrow> string"
  we_post_build :: "string option option"
  we_migrate :: "string option option"
  we_ready :: "nat \<Rightarrow> string option"
  we_on_close :: bool

record worker =
  wk_di :: di
  wk_bus :: bus
  wk_init :: "werr list option"
  wk_start_err :: "werr list"
  wk_active :: "string \<rightharpoonup> rvalue"
  wk_order :: "rvalue list"
  wk_ready_funcs :: "nat list"
  wk_ready_ran :: bool
  wk_shut_down :: bool
  wk_shutdown_once :: bool
  wk_emitted :: "(string \<times> string) list"
  wk_hooked :: "rvalue list"

text \<open>An error result: the joined errors, none for nil. A panic carries nothing further.\<close>

datatype outcome = Returned "werr list" | Panicked

definition log_close :: "rvalue \<Rightarrow> worker \<Rightarrow> worker" where
  "log_close v k = k\<lparr>wk_di := (wk_di k)\<lparr>evs := evs (wk_di k) @ [EvClose v]\<rparr>\<rparr>"

definition emit_event :: "string \<Rightarrow> string \<Rightarrow> worker \<Rightarrow> worker" where
  "emit_event e payload k = k\<lparr>wk_emitted := wk_emitted k @ [(e, payload)]\<rparr>"

section \<open>Closing\<close>

fun close_services :: "wenv \<Rightarrow> rvalue list \<Rightarrow> worker \<Rightarrow> werr list \<times> worker" where
  "close_services env [] k = ([], k)"
| "close_services env (v # vs) k =
     (case close_services env vs (log_close v k) of
        (es, k') \<Rightarrow>
          ((case w_close (we_world env) v of None \<Rightarrow> es | Some e \<Rightarrow> WClose (we_name env v) e # es), k'))"

text \<open>closeActive's loop: newest first, each active service claimed by deleting its name.\<close>

fun collect_closing :: "(rvalue \<Rightarrow> string) \<Rightarrow> rvalue list \<Rightarrow> (string \<rightharpoonup> rvalue) \<Rightarrow> rvalue list \<times> (string \<rightharpoonup> rvalue)"
where
  "collect_closing name [] active = ([], active)"
| "collect_closing name (v # vs) active =
     (if active (name v) = None then collect_closing name vs active
      else (case collect_closing name vs (active(name v := None)) of (closing, a) \<Rightarrow> (v # closing, a)))"

definition close_active :: "wenv \<Rightarrow> worker \<Rightarrow> werr list \<times> worker" where
  "close_active env k =
     (case collect_closing (we_name env) (rev (wk_order k)) (wk_active k) of
        (closing, active) \<Rightarrow> close_services env closing (k\<lparr>wk_active := active\<rparr>))"

section \<open>Start-up\<close>

text \<open>The collection over EachInstance: a service whose name is tracked already is skipped.\<close>

fun track_services :: "wenv \<Rightarrow> rvalue list \<Rightarrow> worker \<Rightarrow> worker" where
  "track_services env [] k = k"
| "track_services env (v # vs) k =
     (if \<not> as_service (we_world env) v then track_services env vs k
      else if wk_active k (we_name env v) \<noteq> None then track_services env vs k
      else track_services env vs
             (k\<lparr>wk_active := (wk_active k)(we_name env v \<mapsto> v), wk_order := wk_order k @ [v]\<rparr>))"

definition init_services_run :: "wenv \<Rightarrow> worker \<Rightarrow> outcome \<times> worker" where
  "init_services_run env k =
     (case build_all (we_world env) (wk_di k) of
        (Some (PanicZeroValue t), d) \<Rightarrow> (Panicked, k\<lparr>wk_di := d\<rparr>)
      | (Some e, d) \<Rightarrow>
          (case initialized_services (we_world env) d of
             None \<Rightarrow> (Panicked, k\<lparr>wk_di := d\<rparr>)
           | Some built \<Rightarrow>
               (case close_services env (rev built) (k\<lparr>wk_di := d\<rparr>) of
                  (es, k') \<Rightarrow> (Returned (WDi e # es), k')))
      | (None, d) \<Rightarrow>
          (let k1 = track_services env (om_values (instances d)) (k\<lparr>wk_di := d\<rparr>) in
           case we_post_build env of
             Some (Some e) \<Rightarrow>
               (case close_active env k1 of (es, k2) \<Rightarrow> (Returned (WPostBuild e # es), k2))
           | _ \<Rightarrow> (Returned [], emit_event ''SystemAllServicesInitialized'' '''' k1)))"

text \<open>
  sync.Once counts a run that panics as done, and initErr then keeps its zero value.
\<close>

definition init_services :: "wenv \<Rightarrow> worker \<Rightarrow> outcome \<times> worker" where
  "init_services env k =
     (case wk_init k of
        Some es \<Rightarrow> (Returned es, k)
      | None \<Rightarrow>
          (case init_services_run env k of
             (Returned es, k') \<Rightarrow> (Returned es, k'\<lparr>wk_init := Some es\<rparr>)
           | (Panicked, k') \<Rightarrow> (Panicked, k'\<lparr>wk_init := Some []\<rparr>)))"

fun run_ready :: "wenv \<Rightarrow> nat list \<Rightarrow> string option" where
  "run_ready env [] = None"
| "run_ready env (f # fs) = (case we_ready env f of Some e \<Rightarrow> Some e | None \<Rightarrow> run_ready env fs)"

definition start_attempt :: "wenv \<Rightarrow> worker \<Rightarrow> outcome \<times> worker" where
  "start_attempt env k =
     (case init_services env k of
        (Panicked, k1) \<Rightarrow> (Panicked, k1)
      | (Returned es, k1) \<Rightarrow>
          if es \<noteq> [] then (Returned es, k1)
          else (case we_migrate env of
                  Some (Some e) \<Rightarrow>
                    (case close_active env k1 of (ces, k2) \<Rightarrow> (Returned (WMigrations e # ces), k2))
                | _ \<Rightarrow>
                    (let k2 = k1\<lparr>wk_ready_ran := True\<rparr> in
                     case run_ready env (wk_ready_funcs k2) of
                       Some e \<Rightarrow>
                         (case close_active env k2 of (ces, k3) \<Rightarrow> (Returned (WReadyHook e # ces), k3))
                     | None \<Rightarrow> (Returned [], k2))))"

definition start :: "wenv \<Rightarrow> worker \<Rightarrow> outcome \<times> worker" where
  "start env k =
     (if wk_start_err k \<noteq> [] then (Returned (wk_start_err k), k)
      else (case start_attempt env k of
              (Returned es, k1) \<Rightarrow>
                (Returned es, if es \<noteq> [] then k1\<lparr>wk_start_err := es\<rparr> else k1)
            | (Panicked, k1) \<Rightarrow> (Panicked, k1)))"

text \<open>App.Start binds the configuration after Worker.Start; \<open>bind\<close> is the provider's error.\<close>

definition app_start :: "wenv \<Rightarrow> string option \<Rightarrow> worker \<Rightarrow> outcome \<times> worker" where
  "app_start env bind k =
     (case start env k of
        (Panicked, k1) \<Rightarrow> (Panicked, k1)
      | (Returned es, k1) \<Rightarrow>
          if es \<noteq> [] then (Returned es, k1)
          else (case bind of
                  Some e \<Rightarrow>
                    (case close_active env k1 of
                       (ces, k2) \<Rightarrow>
                         (Returned (WBindConfig e # ces), k2\<lparr>wk_start_err := WBindConfig e # ces\<rparr>))
                | None \<Rightarrow> (Returned [], emit_event ''AppConfigUpdated'' '''' k1)))"

definition ready_func :: "nat \<Rightarrow> worker \<Rightarrow> worker option" where
  "ready_func f k = (if wk_ready_ran k then None
     else Some (k\<lparr>wk_ready_funcs := wk_ready_funcs k @ [f]\<rparr>))"

section \<open>Shutdown and the kill switch\<close>

text \<open>Shutdown in its two sections under the mutex, and as a whole.\<close>

definition shutdown_begin :: "worker \<Rightarrow> worker" where
  "shutdown_begin k = k\<lparr>wk_shutdown_once := True, wk_shut_down := True\<rparr>"

definition shutdown :: "wenv \<Rightarrow> worker \<Rightarrow> werr list \<times> worker" where
  "shutdown env k =
     (if wk_shutdown_once k then ([], k)
      else close_active env (emit_event ''SystemShuttingDown'' '''' (shutdown_begin k)))"

definition close_service :: "wenv \<Rightarrow> rtype \<Rightarrow> worker \<Rightarrow> werr option \<times> worker" where
  "close_service env t k =
     (if wk_shut_down k then (Some WShutDown, k)
      else (case resolve_built (we_world env) t (wk_di k) of
              None \<Rightarrow> (Some (WNoBuiltInstance t), k)
            | Some s \<Rightarrow>
                (let name = we_name env s in
                 case wk_active k name of
                   None \<Rightarrow> (Some (WNotActive name), k)
                 | Some svc \<Rightarrow>
                     (let k1 = (if we_on_close env then k\<lparr>wk_hooked := wk_hooked k @ [s]\<rparr> else k);
                          k2 = k1\<lparr>wk_bus := remove_by_service name (wk_bus k1)\<rparr>;
                          k3 = log_close svc k2;
                          k4 = k3\<lparr>wk_active := (wk_active k3)(name := None)\<rparr>
                      in (None, emit_event ''SystemServiceClosed'' name k4)))))"

definition restart_service :: "wenv \<Rightarrow> rtype \<Rightarrow> worker \<Rightarrow> werr option \<times> worker" where
  "restart_service env t k =
     (if wk_shut_down k then (Some WShutDown, k)
      else (case resolve_built (we_world env) t (wk_di k) of
              None \<Rightarrow> (Some (WNoBuiltInstance t), k)
            | Some s \<Rightarrow>
                (let name = we_name env s in
                 if wk_active k name \<noteq> None then (Some (WAlreadyActive name), k)
                 else (case List.find (\<lambda>s. we_name env s = name) (wk_order k) of
                         None \<Rightarrow> (Some (WNotFound name), k)
                       | Some svc \<Rightarrow>
                           (case init_service (we_world env) t svc (wk_di k) of
                              (Some e, d) \<Rightarrow> (Some (WReInit name e), k\<lparr>wk_di := d\<rparr>)
                            | (None, d) \<Rightarrow>
                                (None, emit_event ''SystemServiceInitialized'' name
                                   (k\<lparr>wk_di := d, wk_active := (wk_active k)(name \<mapsto> svc)\<rparr>)))))))"

section \<open>Health and readiness\<close>

text \<open>
  runReporters over the active services: \<open>pick\<close> is the reporter of a service, if it has one, and
  its outcome; a panic is turned into an error by safeCall.
\<close>

datatype report = ReportOk | ReportErr string | ReportPanic string

fun safe_call :: "report \<Rightarrow> string option" where
  "safe_call ReportOk = None"
| "safe_call (ReportErr e) = Some e"
| "safe_call (ReportPanic e) = Some (''panic: '' @ e)"

definition run_reporters :: "(rvalue \<Rightarrow> report option) \<Rightarrow> worker \<Rightarrow> (string \<rightharpoonup> string option)" where
  "run_reporters pick k = (\<lambda>name. case wk_active k name of
     None \<Rightarrow> None
   | Some svc \<Rightarrow> (case pick svc of None \<Rightarrow> None | Some r \<Rightarrow> Some (safe_call r)))"

definition new_worker :: "di \<Rightarrow> worker" where
  "new_worker d = \<lparr>wk_di = d, wk_bus = new_event_bus, wk_init = None, wk_start_err = [],
     wk_active = Map.empty, wk_order = [], wk_ready_funcs = [], wk_ready_ran = False,
     wk_shut_down = False, wk_shutdown_once = False, wk_emitted = [], wk_hooked = []\<rparr>"

end
