(* ===== verification/Worker_Properties.thy ===== *)
theory Worker_Properties
  imports Worker_Lifecycle Di_Properties
begin

text \<open>
  The worker keeps its table of active services in step with what actually runs: a service is
  active exactly when its last accepted Init has not been followed by a Close. From this come
  the promises of a failed start (nothing stays open) and of shutdown (everything open is closed
  once, newest first, and nothing opens again).
\<close>

section \<open>Open services in a trace\<close>

fun life :: "rvalue \<Rightarrow> di_event \<Rightarrow> bool \<Rightarrow> bool" where
  "life v (EvInit t u acc) b = (if u = v \<and> acc then True else b)"
| "life v (EvClose u) b = (if u = v then False else b)"
| "life v (EvCtor t) b = b"

definition is_open :: "rvalue \<Rightarrow> di_event list \<Rightarrow> bool" where
  "is_open v es = fold (life v) es False"

lemma is_open_Nil [simp]: "\<not> is_open v []"
  by (simp add: is_open_def)

lemma is_open_snoc [simp]: "is_open v (es @ [e]) = life v e (is_open v es)"
  by (simp add: is_open_def)

lemma is_open_two [simp]: "is_open v (es @ [a, b]) = life v b (life v a (is_open v es))"
  by (simp add: is_open_def)

lemma is_open_closes: "is_open v (es @ map EvClose vs) \<longleftrightarrow> is_open v es \<and> v \<notin> set vs"
  by (induction vs arbitrary: es rule: rev_induct) (auto simp flip: append_assoc)

lemma is_open_inited: "is_open v es \<Longrightarrow> \<exists>t. EvInit t v True \<in> set es"
proof (induction es rule: rev_induct)
  case (snoc e es)
  then show ?case by (cases e) (auto split: if_splits)
qed simp

lemma is_open_unclosed:
  "\<forall>u. EvClose u \<notin> set es \<Longrightarrow> is_open v es \<longleftrightarrow> (\<exists>t. EvInit t v True \<in> set es)"
proof (induction es rule: rev_induct)
  case (snoc e es)
  then show ?case by (cases e) auto
qed simp

section \<open>The worker's tables\<close>

definition wk_inv :: "wenv \<Rightarrow> worker \<Rightarrow> bool" where
  "wk_inv env k \<longleftrightarrow> distinct (map (we_name env) (wk_order k)) \<and>
     (\<forall>n v. wk_active k n = Some v \<longrightarrow> v \<in> set (wk_order k) \<and> we_name env v = n)"

text \<open>Active and open agree.\<close>

definition agrees :: "wenv \<Rightarrow> worker \<Rightarrow> bool" where
  "agrees env k \<longleftrightarrow> (\<forall>v. as_service (we_world env) v \<longrightarrow>
     (wk_active k (we_name env v) = Some v \<longleftrightarrow> is_open v (evs (wk_di k))))"

lemma collect_closing_spec:
  "distinct (map name vs) \<Longrightarrow>
     collect_closing name vs active =
       (filter (\<lambda>v. active (name v) \<noteq> None) vs, \<lambda>n. if n \<in> name ` set vs then None else active n)"
proof (induction vs arbitrary: active)
  case Nil
  then show ?case by simp
next
  case (Cons v vs)
  have "filter (\<lambda>u. (active(name v := None)) (name u) \<noteq> None) vs = filter (\<lambda>u. active (name u) \<noteq> None) vs"
    using Cons.prems by (intro filter_cong) (auto simp: image_iff)
  then show ?case using Cons by (auto simp: fun_eq_iff)
qed

lemma close_services_spec:
  "close_services env vs k =
     (List.map_filter (\<lambda>v. map_option (WClose (we_name env v)) (w_close (we_world env) v)) vs,
      k\<lparr>wk_di := (wk_di k)\<lparr>evs := evs (wk_di k) @ map EvClose vs\<rparr>\<rparr>)"
proof (induction vs arbitrary: k)
  case (Cons v vs)
  then show ?case
    by (cases "w_close (we_world env) v") (simp_all add: map_filter_simps log_close_def)
qed (simp add: map_filter_simps)

definition still_active :: "wenv \<Rightarrow> worker \<Rightarrow> rvalue list" where
  "still_active env k = filter (\<lambda>v. wk_active k (we_name env v) \<noteq> None) (rev (wk_order k))"

lemma close_active_spec:
  assumes "wk_inv env k"
  shows "close_active env k =
     (List.map_filter (\<lambda>v. map_option (WClose (we_name env v)) (w_close (we_world env) v)) (still_active env k),
      k\<lparr>wk_active := Map.empty, wk_di := (wk_di k)\<lparr>evs := evs (wk_di k) @ map EvClose (still_active env k)\<rparr>\<rparr>)"
proof -
  have d: "distinct (map (we_name env) (rev (wk_order k)))"
    using assms by (simp add: wk_inv_def rev_map [symmetric])
  have "(\<lambda>n. if n \<in> we_name env ` set (rev (wk_order k)) then None else wk_active k n) = Map.empty"
  proof
    fix n
    show "(if n \<in> we_name env ` set (rev (wk_order k)) then None else wk_active k n) = None"
      using assms by (cases "wk_active k n") (auto simp: wk_inv_def)
  qed
  then show ?thesis
    using collect_closing_spec [OF d, of "wk_active k"]
    by (simp add: close_active_def close_services_spec still_active_def)
qed

lemma still_active_mem:
  assumes "wk_inv env k" and "wk_active k n = Some v"
  shows "v \<in> set (still_active env k)"
  using assms by (auto simp: wk_inv_def still_active_def)

lemma close_active_agrees:
  assumes "wk_inv env k" and "agrees env k" and "close_active env k = (es, k')"
  shows "wk_inv env k' \<and> agrees env k' \<and> wk_active k' = Map.empty \<and> wk_order k' = wk_order k \<and>
    instances (wk_di k') = instances (wk_di k) \<and> wk_init k' = wk_init k \<and> wk_start_err k' = wk_start_err k"
proof -
  have k': "k' = k\<lparr>wk_active := Map.empty,
      wk_di := (wk_di k)\<lparr>evs := evs (wk_di k) @ map EvClose (still_active env k)\<rparr>\<rparr>"
    using assms(3) close_active_spec [OF assms(1)] by simp
  have "agrees env k'"
    using assms(2) still_active_mem [OF assms(1)]
    by (auto simp: k' agrees_def is_open_closes)
  with assms(1) show ?thesis by (simp add: k' wk_inv_def)
qed

section \<open>Collecting the services\<close>

definition tracked :: "wenv \<Rightarrow> worker \<Rightarrow> bool" where
  "tracked env k \<longleftrightarrow> wk_inv env k \<and> (\<forall>v\<in>set (wk_order k). wk_active k (we_name env v) = Some v) \<and>
     (\<forall>n v. wk_active k n = Some v \<longrightarrow> as_service (we_world env) v)"

definition same_init :: "worker \<Rightarrow> worker \<Rightarrow> bool" where
  "same_init k k' \<longleftrightarrow> wk_di k' = wk_di k \<and> wk_init k' = wk_init k \<and> wk_start_err k' = wk_start_err k"

lemma track_services_spec:
  assumes "tracked env k" and inj: "inj_on (we_name env) {v. as_service (we_world env) v}"
  shows "tracked env (track_services env vs k) \<and> same_init k (track_services env vs k) \<and>
    (\<forall>v. as_service (we_world env) v \<longrightarrow>
       (wk_active (track_services env vs k) (we_name env v) = Some v \<longleftrightarrow>
        wk_active k (we_name env v) = Some v \<or> v \<in> set vs))"
  using assms(1)
proof (induction vs arbitrary: k)
  case Nil
  then show ?case by (simp add: same_init_def)
next
  case (Cons v vs)
  let ?n = "we_name env"
  show ?case
  proof (cases "as_service (we_world env) v \<and> wk_active k (?n v) = None")
    case False
    have "wk_active k (?n v) = Some v" if svc: "as_service (we_world env) v"
    proof -
      from False svc obtain u where u: "wk_active k (?n v) = Some u" by auto
      with Cons.prems have "as_service (we_world env) u" "?n u = ?n v"
        by (auto simp: tracked_def wk_inv_def)
      with svc inj have "u = v" by (auto simp: inj_on_def)
      with u show ?thesis by simp
    qed
    with False Cons.IH [OF Cons.prems] show ?thesis by auto
  next
    case True
    let ?k = "k\<lparr>wk_active := (wk_active k)(?n v \<mapsto> v), wk_order := wk_order k @ [v]\<rparr>"
    have "?n v \<notin> ?n ` set (wk_order k)"
      using True Cons.prems by (auto simp: tracked_def)
    then have dist: "distinct (map ?n (wk_order ?k))" and
      act: "\<forall>u\<in>set (wk_order ?k). wk_active ?k (?n u) = Some u"
      using Cons.prems by (auto simp: tracked_def wk_inv_def image_iff)
    have "u \<in> set (wk_order ?k) \<and> ?n u = n \<and> as_service (we_world env) u"
      if "wk_active ?k n = Some u" for n u
      using that Cons.prems True by (cases "n = ?n v") (auto simp: tracked_def wk_inv_def)
    with dist act have t: "tracked env ?k" unfolding tracked_def wk_inv_def by blast
    have "wk_active ?k (?n u) = Some u \<longleftrightarrow> wk_active k (?n u) = Some u \<or> u = v"
      if "as_service (we_world env) u" for u
      using True that inj_onD [OF inj, of u v] by auto
    with Cons.IH [OF t] True show ?thesis by (auto simp: same_init_def)
  qed
qed

section \<open>Start-up\<close>

definition fresh_container :: "di \<Rightarrow> bool" where
  "fresh_container d \<longleftrightarrow> wf_di d \<and> exclusive d \<and> evs d = [] \<and> inited d = {}"

lemma fresh_inits: "fresh_container d \<Longrightarrow> inits d = lives w d \<and> unclosed d"
  by (auto simp: fresh_container_def inits_def unclosed_def lives_def lives_on_def live_on_def exclusive_def)

lemma emit_event_same [simp]:
  "wk_inv env (emit_event e p k) = wk_inv env k" "agrees env (emit_event e p k) = agrees env k"
  "wk_active (emit_event e p k) = wk_active k" "wk_order (emit_event e p k) = wk_order k"
  "wk_di (emit_event e p k) = wk_di k" "wk_init (emit_event e p k) = wk_init k"
  "wk_start_err (emit_event e p k) = wk_start_err k" "wk_shut_down (emit_event e p k) = wk_shut_down k"
  "wk_shutdown_once (emit_event e p k) = wk_shutdown_once k"
  by (simp_all add: emit_event_def wk_inv_def agrees_def)

lemma wk_inv_upd [simp]:
  "wk_inv env (k\<lparr>wk_di := d\<rparr>) = wk_inv env k" "wk_inv env (k\<lparr>wk_init := i\<rparr>) = wk_inv env k"
  "agrees env (k\<lparr>wk_init := i\<rparr>) = agrees env k"
  "wk_inv env (k\<lparr>wk_ready_ran := b\<rparr>) = wk_inv env k" "agrees env (k\<lparr>wk_ready_ran := b\<rparr>) = agrees env k"
  "wk_inv env (k\<lparr>wk_start_err := es\<rparr>) = wk_inv env k" "agrees env (k\<lparr>wk_start_err := es\<rparr>) = agrees env k"
  by (simp_all add: wk_inv_def agrees_def)

lemma agrees_built:
  assumes fresh: "fresh_container (wk_di k)" and idle: "wk_active k = Map.empty" "wk_order k = []"
    and inj: "inj_on (we_name env) {v. as_service (we_world env) v}"
    and b: "build_all (we_world env) (wk_di k) = (None, d)"
  shows "tracked env (track_services env (om_values (instances d)) (k\<lparr>wk_di := d\<rparr>)) \<and>
    agrees env (track_services env (om_values (instances d)) (k\<lparr>wk_di := d\<rparr>))"
proof -
  let ?k = "track_services env (om_values (instances d)) (k\<lparr>wk_di := d\<rparr>)"
  have t0: "tracked env (k\<lparr>wk_di := d\<rparr>)" using idle by (simp add: tracked_def wk_inv_def)
  note t = track_services_spec [OF t0 inj, of "om_values (instances d)"]
  have wf: "wf_di (wk_di k)" "exclusive (wk_di k)" using fresh by (simp_all add: fresh_container_def)
  have s: "unclosed d" "inits d = lives_on (we_world env) UNIV d"
    using build_all_success [OF b wf] fresh_inits [OF fresh] by simp_all
  have inv: "om_inv (instances d)" using wf_build_all [OF b wf(1)] by (simp add: wf_di_def)
  have "v \<in> set (om_values (instances d)) \<longleftrightarrow> is_open v (evs d)" if "as_service (we_world env) v" for v
  proof -
    have "v \<in> set (om_values (instances d)) \<longleftrightarrow> (\<exists>t. om_get (instances d) t = Some v)"
      using om_all_mem [OF inv] by (force simp: om_values_all)
    also have "\<dots> \<longleftrightarrow> v \<in> inits d" using that by (simp add: s(2) lives_on_def live_on_def)
    also have "\<dots> \<longleftrightarrow> is_open v (evs d)"
      using is_open_unclosed [of "evs d" v] s(1) by (simp add: inits_def unclosed_def)
    finally show ?thesis .
  qed
  with t idle show ?thesis by (simp add: agrees_def same_init_def)
qed

lemma closed_after_failure:
  assumes "fresh_container d0" and "build_all w d0 = (r, d)" and "initialized_services w d = Some built"
  shows "\<not> is_open v (evs d @ map EvClose (rev built))"
proof -
  have wf: "wf_di d0" "exclusive d0" using assms(1) by (simp_all add: fresh_container_def)
  have "inits d = lives w d"
    using build_all_lives [OF assms(2) wf] fresh_inits [OF assms(1)] by blast
  moreover have "om_inv (instances d)" using wf_build_all [OF assms(2) wf(1)] by (simp add: wf_di_def)
  ultimately have "set built = inits d" using initialized_services_lives assms(3) by blast
  then show ?thesis using is_open_inited [of v "evs d"] by (auto simp: is_open_closes inits_def)
qed

lemma init_services_run_agrees:
  assumes fresh: "fresh_container (wk_di k)" and idle: "wk_active k = Map.empty" "wk_order k = []"
    and inj: "inj_on (we_name env) {v. as_service (we_world env) v}"
    and run: "init_services_run env k = (Returned es, k')"
  shows "wk_inv env k' \<and> agrees env k' \<and> (es \<noteq> [] \<longrightarrow> wk_active k' = Map.empty)"
proof -
  obtain r d where b: "build_all (we_world env) (wk_di k) = (r, d)" by fastforce
  show ?thesis
  proof (cases r)
    case (Some e)
    with run b obtain built where bi: "initialized_services (we_world env) d = Some built"
      and k': "k' = snd (close_services env (rev built) (k\<lparr>wk_di := d\<rparr>))"
      by (auto simp: init_services_run_def split: gerr.splits option.splits prod.splits)
    from k' have "k' = k\<lparr>wk_di := d\<lparr>evs := evs d @ map EvClose (rev built)\<rparr>\<rparr>"
      by (simp add: close_services_spec)
    then show ?thesis
      using closed_after_failure [OF fresh b bi] idle by (simp add: wk_inv_def agrees_def)
  next
    case None
    let ?k = "track_services env (om_values (instances d)) (k\<lparr>wk_di := d\<rparr>)"
    have t: "wk_inv env ?k" "agrees env ?k"
      using agrees_built [OF fresh idle inj b [unfolded None]] by (simp_all add: tracked_def)
    show ?thesis
    proof (cases "\<exists>e. we_post_build env = Some (Some e)")
      case True
      then obtain ces where "close_active env ?k = (ces, k')"
        using run b None by (auto simp: init_services_run_def Let_def split: prod.splits)
      from close_active_agrees [OF t this] show ?thesis by simp
    next
      case False
      then have "k' = emit_event ''SystemAllServicesInitialized'' '''' ?k" "es = []"
        using run b None by (auto simp: init_services_run_def Let_def split: option.splits)
      with t show ?thesis by simp
    qed
  qed
qed

section \<open>Reachable workers\<close>

inductive worker_step :: "wenv \<Rightarrow> worker \<Rightarrow> worker \<Rightarrow> bool" for env :: wenv where
  ws_init: "init_services env k = (Returned es, k') \<Longrightarrow> worker_step env k k'"
| ws_start: "start env k = (Returned es, k') \<Longrightarrow> worker_step env k k'"
| ws_app_start: "app_start env bind k = (Returned es, k') \<Longrightarrow> worker_step env k k'"
| ws_close: "close_service env t k = (e, k') \<Longrightarrow> worker_step env k k'"
| ws_restart: "restart_service env t k = (e, k') \<Longrightarrow> worker_step env k k'"
| ws_shut_begin: "\<not> wk_shutdown_once k \<Longrightarrow> worker_step env k (shutdown_begin k)"
| ws_shut_close: "wk_shut_down k \<Longrightarrow> close_active env k = (es, k') \<Longrightarrow> worker_step env k k'"
| ws_shutdown: "shutdown env k = (es, k') \<Longrightarrow> worker_step env k k'"
| ws_ready: "ready_func f k = Some k' \<Longrightarrow> worker_step env k k'"
| ws_subscribe: "worker_step env k (k\<lparr>wk_bus := subscribe_with_owner e n h (wk_bus k)\<rparr>)"

inductive worker_reachable :: "wenv \<Rightarrow> di \<Rightarrow> worker \<Rightarrow> bool" for env :: wenv and d :: di where
  wr_new: "worker_reachable env d (new_worker d)"
| wr_step: "worker_reachable env d k \<Longrightarrow> worker_step env k k' \<Longrightarrow> worker_reachable env d k'"

definition wk_good :: "wenv \<Rightarrow> di \<Rightarrow> worker \<Rightarrow> bool" where
  "wk_good env d k \<longleftrightarrow> wk_inv env k \<and> agrees env k \<and>
     (wk_init k = None \<longrightarrow> wk_di k = d \<and> wk_active k = Map.empty \<and> wk_order k = [])"

lemma good_close_active:
  assumes "wk_good env d k" and "close_active env k = (es, k')"
  shows "wk_good env d k' \<and> wk_active k' = Map.empty \<and> wk_init k' = wk_init k \<and>
    wk_start_err k' = wk_start_err k"
proof (cases "wk_init k = None")
  case True
  with assms(1) have "wk_order k = []" "wk_active k = Map.empty" "wk_di k = d" by (simp_all add: wk_good_def)
  then have "k' = k\<lparr>wk_active := Map.empty\<rparr>" using assms(2) by (simp add: close_active_def)
  with assms(1) True show ?thesis by (auto simp: wk_good_def wk_inv_def agrees_def)
next
  case False
  with close_active_agrees [OF _ _ assms(2)] assms(1) show ?thesis by (auto simp: wk_good_def)
qed

lemma good_init_services:
  assumes inj: "inj_on (we_name env) {v. as_service (we_world env) v}" and "fresh_container d"
    and "wk_good env d k" and "init_services env k = (Returned es, k')"
  shows "wk_good env d k' \<and> wk_init k' = Some es \<and>
    (wk_init k = None \<longrightarrow> es \<noteq> [] \<longrightarrow> wk_active k' = Map.empty)"
proof (cases "wk_init k")
  case (Some es')
  with assms show ?thesis by (simp add: init_services_def)
next
  case None
  with assms(3) have k: "wk_di k = d" "wk_active k = Map.empty" "wk_order k = []"
    by (simp_all add: wk_good_def)
  from None assms(4) obtain k1 where r: "init_services_run env k = (Returned es, k1)"
    and k': "k' = k1\<lparr>wk_init := Some es\<rparr>"
    by (auto simp: init_services_def split: prod.splits outcome.splits)
  from init_services_run_agrees [OF _ k(2,3) inj r] assms(2) k(1) k' show ?thesis
    by (simp add: wk_good_def)
qed

lemma wk_good_upd [simp]:
  "wk_good env d (k\<lparr>wk_ready_ran := b\<rparr>) = wk_good env d k"
  "wk_good env d (k\<lparr>wk_ready_funcs := fs\<rparr>) = wk_good env d k"
  "wk_good env d (k\<lparr>wk_start_err := es\<rparr>) = wk_good env d k"
  "wk_good env d (k\<lparr>wk_bus := bb\<rparr>) = wk_good env d k"
  "wk_good env d (shutdown_begin k) = wk_good env d k"
  "wk_good env d (emit_event e p k) = wk_good env d k"
  by (simp_all add: wk_good_def wk_inv_def agrees_def shutdown_begin_def)

lemma good_start_attempt:
  assumes inj: "inj_on (we_name env) {v. as_service (we_world env) v}" and "fresh_container d"
    and "wk_good env d k" and "start_attempt env k = (Returned es, k')"
  shows "wk_good env d k' \<and> (wk_init k = None \<longrightarrow> es \<noteq> [] \<longrightarrow> wk_active k' = Map.empty)"
proof -
  obtain es1 k1 where i: "init_services env k = (Returned es1, k1)"
    using assms(4) by (auto simp: start_attempt_def split: outcome.splits prod.splits)
  note g = good_init_services [OF assms(1-3) i]
  show ?thesis
  proof (cases "es1 = [] \<and> es \<noteq> []")
    case False
    with g assms(4) i show ?thesis
      by (auto simp: start_attempt_def Let_def split: option.splits if_splits prod.splits)
  next
    case True
    then obtain ces k2 where "close_active env k1 = (ces, k') \<or> close_active env (k1\<lparr>wk_ready_ran := k2\<rparr>) = (ces, k')"
      using assms(4) i
      by (auto simp: start_attempt_def Let_def split: option.splits if_splits prod.splits)
    with good_close_active g show ?thesis by (metis wk_good_upd(1))
  qed
qed

lemma good_start:
  assumes inj: "inj_on (we_name env) {v. as_service (we_world env) v}" and "fresh_container d"
    and "wk_good env d k" and "start env k = (Returned es, k')"
  shows "wk_good env d k' \<and>
    (wk_init k = None \<longrightarrow> wk_start_err k = [] \<longrightarrow> es \<noteq> [] \<longrightarrow>
       wk_active k' = Map.empty \<and> wk_start_err k' = es)"
proof (cases "wk_start_err k = []")
  case False
  with assms show ?thesis by (simp add: start_def)
next
  case True
  with assms(4) obtain k1 where a: "start_attempt env k = (Returned es, k1)"
    and k': "k' = (if es \<noteq> [] then k1\<lparr>wk_start_err := es\<rparr> else k1)"
    by (auto simp: start_def split: prod.splits outcome.splits)
  from good_start_attempt [OF assms(1-3) a] show ?thesis by (simp add: k')
qed

lemma good_app_start:
  assumes inj: "inj_on (we_name env) {v. as_service (we_world env) v}" and "fresh_container d"
    and "wk_good env d k" and "app_start env bind k = (Returned es, k')"
  shows "wk_good env d k'"
proof -
  obtain es1 k1 where s: "start env k = (Returned es1, k1)"
    using assms(4) by (auto simp: app_start_def split: outcome.splits prod.splits)
  note g = good_start [OF assms(1-3) s]
  show ?thesis
  proof (cases "es1 = [] \<and> bind \<noteq> None")
    case False
    with g assms(4) s show ?thesis by (auto simp: app_start_def split: option.splits if_splits)
  next
    case True
    then obtain ces k2 where c: "close_active env k1 = (ces, k2)"
      and "k' = k2\<lparr>wk_start_err := es\<rparr>"
      using assms(4) s by (auto simp: app_start_def split: prod.splits)
    with good_close_active [OF conjunct1 [OF g] c] show ?thesis by simp
  qed
qed

lemma good_close_service:
  assumes "wk_good env d k" and "close_service env t k = (e, k')"
  shows "wk_good env d k'"
proof (cases "e = None")
  case False
  with assms show ?thesis
    by (auto simp: close_service_def Let_def split: if_splits option.splits)
next
  case True
  with assms(2) obtain s svc where svc: "wk_active k (we_name env s) = Some svc"
    and di: "wk_di k' = (wk_di k)\<lparr>evs := evs (wk_di k) @ [EvClose svc]\<rparr>"
    and act: "wk_active k' = (wk_active k)(we_name env s := None)"
    and same: "wk_order k' = wk_order k" "wk_init k' = wk_init k"
    by (auto simp: close_service_def Let_def log_close_def emit_event_def split: if_splits option.splits)
  from assms(1) svc have i: "wk_init k \<noteq> None"
    unfolding wk_good_def by (metis option.distinct(1))
  from assms(1) svc have name: "we_name env svc = we_name env s"
    unfolding wk_good_def wk_inv_def by blast
  have "agrees env k'"
    using assms(1) svc name by (auto simp: wk_good_def agrees_def di act)
  moreover have "wk_inv env k'" using assms(1) by (auto simp: wk_good_def wk_inv_def act same)
  ultimately show ?thesis using i same by (auto simp: wk_good_def)
qed

lemma restart_service_cases:
  assumes "restart_service env t k = (e, k')"
  obtains (refused) "e \<noteq> None" "k' = k"
    | (failed) svc d err where "svc \<in> set (wk_order k)" "wk_active k (we_name env svc) = None"
      "init_service (we_world env) t svc (wk_di k) = (Some err, d)" "e = Some (WReInit (we_name env svc) err)"
      "k' = k\<lparr>wk_di := d\<rparr>"
    | (restarted) svc d where "svc \<in> set (wk_order k)" "wk_active k (we_name env svc) = None"
      "init_service (we_world env) t svc (wk_di k) = (None, d)" "e = None"
      "k' = emit_event ''SystemServiceInitialized'' (we_name env svc)
         (k\<lparr>wk_di := d, wk_active := (wk_active k)(we_name env svc \<mapsto> svc)\<rparr>)"
proof (cases "\<exists>s svc. \<not> wk_shut_down k \<and> resolve_built (we_world env) t (wk_di k) = Some s \<and>
    wk_active k (we_name env s) = None \<and> List.find (\<lambda>u. we_name env u = we_name env s) (wk_order k) = Some svc")
  case False
  with assms have "e \<noteq> None" "k' = k"
    by (auto simp: restart_service_def Let_def split: if_splits option.splits)
  then show thesis by (rule refused)
next
  case True
  then obtain s svc where *: "\<not> wk_shut_down k" "resolve_built (we_world env) t (wk_di k) = Some s"
    "wk_active k (we_name env s) = None" "List.find (\<lambda>u. we_name env u = we_name env s) (wk_order k) = Some svc"
    by blast
  from *(4) have svc: "svc \<in> set (wk_order k)" "we_name env svc = we_name env s"
    by (auto simp: find_Some_iff)
  obtain r d where i: "init_service (we_world env) t svc (wk_di k) = (r, d)" by fastforce
  show thesis
    using assms * svc i by (cases r) (auto simp: restart_service_def Let_def intro: failed restarted)
qed

lemma init_service_evs:
  "init_service w t v s = (r, s') \<Longrightarrow> evs s' = evs s @ [EvInit t v True] \<and> r = None \<or>
     r \<noteq> None \<and> (evs s' = evs s \<or> evs s' = evs s @ [EvInit t v False] \<or>
       evs s' = (evs s @ [EvInit t v False]) @ [EvClose v])"
  by (auto simp: init_service_def Let_def split: if_splits option.splits)

lemma good_restart_service:
  assumes "wk_good env d k" and "restart_service env t k = (e, k')"
  shows "wk_good env d k'"
  using assms(2)
proof (cases rule: restart_service_cases)
  case refused
  with assms show ?thesis by simp
next
  case (failed svc dd err)
  have i: "wk_init k \<noteq> None" using assms(1) failed(1) by (auto simp: wk_good_def)
  have "agrees env k'"
    using assms(1) failed(2) init_service_evs [OF failed(3)]
    by (auto simp: wk_good_def agrees_def failed(5))
  then show ?thesis using assms(1) i by (auto simp: wk_good_def failed(5))
next
  case (restarted svc dd)
  have i: "wk_init k \<noteq> None" using assms(1) restarted(1) by (auto simp: wk_good_def)
  have "agrees env k'"
    using assms(1) restarted(2) init_service_evs [OF restarted(3)]
    by (auto simp: wk_good_def agrees_def restarted(5))
  moreover have "wk_inv env k'"
    using assms(1) restarted(1) by (auto simp: wk_good_def wk_inv_def restarted(5))
  ultimately show ?thesis using i by (simp add: wk_good_def restarted(5))
qed

lemma good_step:
  assumes inj: "inj_on (we_name env) {v. as_service (we_world env) v}" and "fresh_container d"
    and "worker_step env k k'" and "wk_good env d k"
  shows "wk_good env d k'"
  using assms(3,4)
proof (induction rule: worker_step.induct)
  case (ws_init k es k')
  then show ?case using good_init_services [OF assms(1,2)] by blast
next
  case (ws_start k es k')
  then show ?case using good_start [OF assms(1,2)] by blast
next
  case (ws_app_start bind k es k')
  then show ?case using good_app_start [OF assms(1,2)] by blast
next
  case (ws_shutdown k es k')
  show ?case
  proof (cases "wk_shutdown_once k")
    case True
    with ws_shutdown show ?thesis by (simp add: shutdown_def)
  next
    case False
    let ?k = "emit_event ''SystemShuttingDown'' [] (shutdown_begin k)"
    have c: "close_active env ?k = (es, k')" using False ws_shutdown(1) by (simp add: shutdown_def)
    have "wk_good env d ?k" using ws_shutdown(2) by simp
    from good_close_active [OF this c] show ?thesis by simp
  qed
next
  case (ws_close t k e k')
  then show ?case using good_close_service by blast
next
  case (ws_restart t k e k')
  then show ?case using good_restart_service by blast
next
  case (ws_shut_close k es k')
  then show ?case using good_close_active by blast
next
  case (ws_ready f k k')
  then show ?case by (auto simp: ready_func_def split: if_splits)
qed simp_all

lemma reachable_good:
  assumes inj: "inj_on (we_name env) {v. as_service (we_world env) v}" and "fresh_container d"
    and "worker_reachable env d k"
  shows "wk_good env d k"
  using assms(3)
proof (induction rule: worker_reachable.induct)
  case wr_new
  show ?case
    using assms(2) by (simp add: wk_good_def new_worker_def wk_inv_def agrees_def fresh_container_def)
next
  case (wr_step k k')
  then show ?case using good_step [OF assms(1,2)] by blast
qed

section \<open>Properties\<close>

fun demo_name :: "rvalue \<Rightarrow> string" where
  "demo_name (Obj d n) = (if d = ''*Db'' then CHR ''d'' else CHR ''a'') # replicate n (CHR ''i'')"
| "demo_name _ = ''''"

definition demo_env :: wenv where
  "demo_env = \<lparr>we_world = demo_world, we_name = demo_name, we_post_build = Some None,
     we_migrate = Some None, we_ready = (\<lambda>n. None), we_on_close = True\<rparr>"

lemma demo_env_sel [simp]:
  "we_world demo_env = demo_world" "we_name demo_env = demo_name" "we_post_build demo_env = Some None"
  "we_migrate demo_env = Some None" "we_ready demo_env = (\<lambda>n. None)" "we_on_close demo_env = True"
  by (simp_all add: demo_env_def)

lemma demo_inj: "inj_on (we_name demo_env) {v. as_service (we_world demo_env) v}"
proof (rule inj_onI)
  fix u v
  assume uv: "u \<in> {v. as_service (we_world demo_env) v}" "v \<in> {v. as_service (we_world demo_env) v}"
    "we_name demo_env u = we_name demo_env v"
  then obtain d n e m where "u = Obj d n" "v = Obj e m" "d = ''*Db'' \<or> d = ''*Api''" "e = ''*Db'' \<or> e = ''*Api''"
    by (cases u; cases v) (auto simp: demo_world_def)
  with uv(3) show "u = v" by (auto simp: replicate_eq_replicate)
qed

lemma demo_fresh: "fresh_container demo_di"
  using demo_wf by (auto simp: fresh_container_def exclusive_def demo_di_def new_container_def split: if_splits)

text \<open>The worker after a successful start, the container's build done in the order topoSort gives.\<close>

definition demo_built :: di where
  "demo_built = snd (build_loop demo_world [''*Db'', ''*Api''] demo_di)"

definition demo_running :: worker where
  "demo_running = (emit_event ''SystemAllServicesInitialized'' ''''
     (track_services demo_env (om_values (instances demo_built)) ((new_worker demo_di)\<lparr>wk_di := demo_built\<rparr>)))
     \<lparr>wk_init := Some [], wk_ready_ran := True\<rparr>"

lemma demo_start: "start demo_env (new_worker demo_di) = (Returned [], demo_running)"
proof -
  let ?k = "track_services demo_env (om_values (instances demo_built)) ((new_worker demo_di)\<lparr>wk_di := demo_built\<rparr>)"
  have "build_all demo_world demo_di = (None, demo_built)"
    using demo_build(1) by (simp add: prod_eq_iff demo_built_def demo_build_all)
  then have "init_services_run demo_env (new_worker demo_di) =
      (Returned [], emit_event ''SystemAllServicesInitialized'' '''' ?k)"
    by (simp add: init_services_run_def new_worker_def Let_def)
  then have i: "init_services demo_env (new_worker demo_di) =
      (Returned [], (emit_event ''SystemAllServicesInitialized'' '''' ?k)\<lparr>wk_init := Some []\<rparr>)"
    by (simp add: init_services_def new_worker_def)
  have r: "run_ready demo_env fs = None" for fs by (induction fs) auto
  show ?thesis
    by (simp add: start_def start_attempt_def i r Let_def) (simp add: new_worker_def demo_running_def)
qed

lemma demo_running_reachable: "worker_reachable demo_env demo_di demo_running"
  by (rule wr_step [OF wr_new ws_start [OF demo_start]])




definition failing_env :: wenv where
  "failing_env = demo_env\<lparr>we_migrate := Some (Some ''syntax error'')\<rparr>"

lemma failing_env_sel [simp]:
  "we_world failing_env = demo_world" "we_name failing_env = demo_name"
  "we_post_build failing_env = Some None" "we_migrate failing_env = Some (Some ''syntax error'')"
  by (simp_all add: failing_env_def)

lemma demo_init_services:
  "init_services_run failing_env (new_worker demo_di) =
     (Returned [], snd (init_services_run failing_env (new_worker demo_di)))"
proof -
  have "build_all demo_world demo_di = (None, snd (build_all demo_world demo_di))"
    using demo_build(1) by (simp add: prod_eq_iff)
  then show ?thesis
    by (cases "build_all demo_world demo_di")
      (simp add: init_services_run_def new_worker_def Let_def)
qed

lemma failing_start: "\<exists>es k'. start failing_env (new_worker demo_di) = (Returned (WMigrations ''syntax error'' # es), k')"
proof -
  obtain k1 where r: "init_services_run failing_env (new_worker demo_di) = (Returned [], k1)"
    using demo_init_services by metis
  then have i: "init_services failing_env (new_worker demo_di) = (Returned [], k1\<lparr>wk_init := Some []\<rparr>)"
    by (simp add: init_services_def new_worker_def)
  obtain es k2 where "close_active failing_env (k1\<lparr>wk_init := Some []\<rparr>) = (es, k2)" by fastforce
  then have "start_attempt failing_env (new_worker demo_di) = (Returned (WMigrations ''syntax error'' # es), k2)"
    by (simp add: start_attempt_def i)
  then show ?thesis by (simp add: start_def new_worker_def)
qed




text \<open>The kill switch tears a service down completely or does nothing. A CloseService that
  succeeds has removed every subscription the service owns and no other, told the router,
  appended the service's Close as the only event of the trace and taken its name out of the
  active table; one that fails leaves the worker as it was. A RestartService that then succeeds
  restores exactly the same active table.\<close>

theorem kill_switch_roundtrip:
  assumes "inj_on (we_name env) {v. as_service (we_world env) v}" and "fresh_container d"
    and "worker_reachable env d k" and "close_service env t k = (e, k1)"
  shows "(e \<noteq> None \<longrightarrow> k1 = k) \<and>
    (e = None \<longrightarrow> (\<exists>s svc. resolve_built (we_world env) t (wk_di k) = Some s \<and>
       wk_active k (we_name env s) = Some svc \<and> wk_active k1 = (wk_active k)(we_name env s := None) \<and>
       evs (wk_di k1) = evs (wk_di k) @ [EvClose svc] \<and>
       (\<forall>ev. emit_snapshot ev (wk_bus k1) = filter (\<lambda>u. sub_owner u \<noteq> we_name env s) (emit_snapshot ev (wk_bus k))) \<and>
       (we_on_close env \<longrightarrow> wk_hooked k1 = wk_hooked k @ [s])) \<and>
       (\<forall>k2. restart_service env t k1 = (None, k2) \<longrightarrow> wk_active k2 = wk_active k))"
proof (cases "e = None")
  case False
  with assms(4) show ?thesis
    by (auto simp: close_service_def Let_def split: if_splits option.splits)
next
  case True
  with assms(4) obtain s svc where b: "resolve_built (we_world env) t (wk_di k) = Some s"
    and svc: "wk_active k (we_name env s) = Some svc" and up: "\<not> wk_shut_down k"
    by (auto simp: close_service_def Let_def split: if_splits option.splits)
  have k1: "wk_di k1 = (wk_di k)\<lparr>evs := evs (wk_di k) @ [EvClose svc]\<rparr>"
      "wk_active k1 = (wk_active k)(we_name env s := None)"
      "wk_order k1 = wk_order k" "wk_bus k1 = remove_by_service (we_name env s) (wk_bus k)"
      "wk_hooked k1 = (if we_on_close env then wk_hooked k @ [s] else wk_hooked k)"
    using assms(4) True b svc up by (auto simp: close_service_def Let_def log_close_def emit_event_def)
  have inv: "wk_inv env k" using reachable_good [OF assms(1-3)] by (simp add: wk_good_def)
  have in_order: "svc \<in> set (wk_order k)" "we_name env svc = we_name env s"
    using inv svc by (auto simp: wk_inv_def)
  have again: "wk_active k2 = wk_active k" if r: "restart_service env t k1 = (None, k2)" for k2
  proof -
    have b1: "resolve_built (we_world env) t (wk_di k1) = Some s"
      using b by (simp add: resolve_built_def k1(1) alias_target_def cong: option.case_cong)
    from r b1 obtain svc2 where f: "List.find (\<lambda>u. we_name env u = we_name env s) (wk_order k) = Some svc2"
      and a: "wk_active k2 = (wk_active k1)(we_name env s \<mapsto> svc2)"
      by (auto simp: restart_service_def Let_def k1(3) emit_event_def split: if_splits option.splits prod.splits)
    from f have "svc2 \<in> set (wk_order k)" "we_name env svc2 = we_name env s"
      by (auto simp: find_Some_iff)
    then have "svc2 = svc" using in_order inv by (auto simp: wk_inv_def distinct_map inj_on_def)
    with a svc show ?thesis by (simp add: k1(2) fun_upd_idem)
  qed
  have "\<forall>ev. emit_snapshot ev (wk_bus k1) = filter (\<lambda>u. sub_owner u \<noteq> we_name env s) (emit_snapshot ev (wk_bus k))"
    by (simp add: emit_snapshot_def k1(4) subscribers_of_remove)
  with True b svc k1 again show ?thesis by simp
qed

theorem kill_switch_roundtrip_witness:
  "\<exists>k1. close_service demo_env ''*Db'' demo_running = (None, k1) \<and>
     evs (wk_di k1) = evs (wk_di demo_running) @ [EvClose (Obj ''*Db'' 1)] \<and>
     wk_active k1 ''di'' = None"
proof -
  obtain e k1 where c: "close_service demo_env ''*Db'' demo_running = (e, k1)" by fastforce
  have "fst (close_service demo_env ''*Db'' demo_running) = None" by code_simp
  with c have e: "e = None" by simp
  have b: "resolve_built demo_world ''*Db'' (wk_di demo_running) = Some (Obj ''*Db'' 1)"
    "wk_active demo_running ''di'' = Some (Obj ''*Db'' 1)" "demo_name (Obj ''*Db'' 1) = ''di''"
    by code_simp+
  from kill_switch_roundtrip [OF demo_inj demo_fresh demo_running_reachable c] e b
  have "evs (wk_di k1) = evs (wk_di demo_running) @ [EvClose (Obj ''*Db'' 1)] \<and> wk_active k1 ''di'' = None"
    by auto
  with c e show ?thesis by blast
qed

text \<open>A start that panicked is taken for a success by the next one. InitServices runs under a
  sync.Once, which counts a run that panicked as done: after a Start that panicked on a nil
  instance was recovered, a second Start returns nil although no service was ever built.\<close>

theorem start_after_panic:
  "\<exists>k1 k2. start demo_env (new_worker (new_container\<lparr>registrations := registrations demo_di,
        instances := om_set ''ConfigProvider'' Invalid om_empty\<rparr>)) = (Panicked, k1) \<and>
     start demo_env k1 = (Returned [], k2) \<and>
     wk_active k2 = Map.empty \<and> evs (wk_di k2) = [] \<and> wk_ready_ran k2"
proof -
  let ?d = "new_container\<lparr>registrations := registrations demo_di,
        instances := om_set ''ConfigProvider'' Invalid om_empty\<rparr>"
  have v: "validate_service_shapes demo_world ?d = None" "validate_aliases ?d = None"
    "validate_lifetimes ?d = None"
    by code_simp+
  have i: "init_instances demo_world ?d = (Some (PanicZeroValue ''ConfigProvider''), ?d)"
    by (simp add: init_instances_def claim_instance_init_def new_container_def om_defs)
  have p: "init_services demo_env (new_worker ?d) =
      (Panicked, (new_worker ?d)\<lparr>wk_di := ?d, wk_init := Some []\<rparr>)"
    by (simp add: init_services_def init_services_run_def new_worker_def build_all_def v i)
  let ?k1 = "(new_worker ?d)\<lparr>wk_di := ?d, wk_init := Some []\<rparr>"
  have 1: "start demo_env (new_worker ?d) = (Panicked, ?k1)"
    by (simp add: start_def start_attempt_def p) (simp add: new_worker_def)
  have 2: "start demo_env ?k1 = (Returned [], ?k1\<lparr>wk_ready_ran := True\<rparr>)"
    by (simp add: start_def start_attempt_def init_services_def new_worker_def Let_def)
  have "wk_active (?k1\<lparr>wk_ready_ran := True\<rparr>) = Map.empty" "evs (wk_di (?k1\<lparr>wk_ready_ran := True\<rparr>)) = []"
    "wk_ready_ran (?k1\<lparr>wk_ready_ran := True\<rparr>)"
    by (simp_all add: new_worker_def new_container_def)
  with 1 2 show ?thesis by blast
qed

end
