(* ===== verification/Router_Tree.thy ===== *)
theory Router_Tree
  imports Gas_Prelude
begin

text \<open>
  router.go: deferred registration, the kill switch on routes and named middleware, and the
  rebuild of the routing tree. The tree is a chi router, which is not part of the repository:
  a build is modelled by the sequence of calls it makes on chi (\<open>chi_call\<close>), each on a mux
  named by a number in order of creation, 0 being the root. A Group or Route callback is the
  list of calls it makes on its sub-router (\<open>stmt\<close>); it is run again by every rebuild.
\<close>

section \<open>Data\<close>

text \<open>A Middleware is a name or a function; a service is its name; a handler is its identity and
  the types a DI-aware handler takes.\<close>

datatype mwspec = MwName string | MwFunc nat

datatype handler = Handler (hd_id: nat) (hd_deps: "string list")

text \<open>What a build passes to chi for one Middleware: the function registered under a name, an
  anonymous function, or the 503 short-circuit of a retired name.\<close>

datatype resolved_mw = RunNamed string nat | RunFunc nat | Short503 string

datatype endpoint = Endpoint nat | Unavailable

datatype chi_call =
    CUse nat resolved_mw
  | CGroup nat nat
  | CRoute nat string nat
  | CMethod nat "resolved_mw list" string string endpoint
  | CNotFound nat nat

datatype router_panic = UnknownMiddleware string | NotFoundTaken string

record rroute =
  rr_method :: string
  rr_path :: string
  rr_middleware :: "string list"
  rr_auto_head :: bool

datatype stmt =
    SUse "mwspec list"
  | SHandle string string string handler "mwspec list"
  | SGroup "stmt list"
  | SRoute string "stmt list"
  | SNotFound string handler

datatype top_op = OpHandle "mwspec list" string string handler | OpGroup "stmt list" | OpRoute string "stmt list"

text \<open>The maps a router shares with its sub-routers, and the once-only bookkeeping.\<close>

record names =
  nm_registry :: "string \<rightharpoonup> string \<times> nat"
  nm_retired :: "string \<rightharpoonup> string \<times> nat"

record booking =
  bk_routes :: "string \<rightharpoonup> rroute list"
  bk_removed :: "string \<rightharpoonup> rroute list"
  bk_pending :: "(string \<times> string \<times> string \<times> string list) list"

record rbuild =
  bd_calls :: "chi_call list"
  bd_next :: nat
  bd_mounts :: "nat \<times> string \<rightharpoonup> nat"

text \<open>A sub-router while its callback runs: its mux, prefix, scope, the key of the subroutes map it
  shares, and the service of its not-found handler.\<close>

record subrouter =
  cx_mux :: nat
  cx_prefix :: string
  cx_scope :: "string list"
  cx_map :: nat
  cx_nf :: string

record router =
  rt_names :: names
  rt_book :: booking
  rt_scope :: "string list"
  rt_pending_mw :: "mwspec list"
  rt_pending_ops :: "top_op list"
  rt_booked :: nat
  rt_sealed :: bool
  rt_nf_service :: string
  rt_not_found :: "nat option"
  rt_served :: "chi_call list"
  rt_overlay :: "string \<rightharpoonup> rroute list"

definition root_service :: string where
  "root_service = ''gas/router''"

definition owner_of :: "string option \<Rightarrow> string" where
  "owner_of s = (case s of None \<Rightarrow> root_service | Some n \<Rightarrow> n)"

section \<open>Resolving middleware\<close>

fun build_middleware :: "names \<Rightarrow> mwspec \<Rightarrow> (router_panic, resolved_mw) result" where
  "build_middleware nm (MwFunc f) = Inr (RunFunc f)"
| "build_middleware nm (MwName n) =
     (case nm_registry nm n of
        Some (_, f) \<Rightarrow> Inr (RunNamed n f)
      | None \<Rightarrow> (if nm_retired nm n \<noteq> None then Inr (Short503 n) else Inl (UnknownMiddleware n)))"

fun build_middlewares :: "names \<Rightarrow> mwspec list \<Rightarrow> (router_panic, resolved_mw list) result" where
  "build_middlewares nm [] = Inr []"
| "build_middlewares nm (m # ms) =
     (case build_middleware nm m of
        Inl e \<Rightarrow> Inl e
      | Inr x \<Rightarrow> (case build_middlewares nm ms of Inl e \<Rightarrow> Inl e | Inr xs \<Rightarrow> Inr (x # xs)))"

fun validate_middleware :: "names \<Rightarrow> mwspec \<Rightarrow> router_panic option" where
  "validate_middleware nm (MwFunc f) = None"
| "validate_middleware nm (MwName n) =
     (if nm_registry nm n = None then Some (UnknownMiddleware n) else None)"

fun spec_names :: "mwspec list \<Rightarrow> string list" where
  "spec_names [] = []"
| "spec_names (MwName n # ms) = n # spec_names ms"
| "spec_names (MwFunc f # ms) = spec_names ms"

definition middleware_names :: "names \<Rightarrow> bool \<Rightarrow> mwspec list \<Rightarrow> (router_panic, string list) result" where
  "middleware_names nm is_sub ms =
     (case List.find (\<lambda>m. \<not> is_sub \<and> validate_middleware nm m \<noteq> None) ms of
        Some m \<Rightarrow> Inl (the (validate_middleware nm m))
      | None \<Rightarrow> Inr (spec_names ms))"

section \<open>Bookkeeping\<close>

definition append_at :: "string \<Rightarrow> 'a list \<Rightarrow> (string \<rightharpoonup> 'a list) \<Rightarrow> (string \<rightharpoonup> 'a list)" where
  "append_at n xs m = m(n \<mapsto> (case m n of None \<Rightarrow> [] | Some ys \<Rightarrow> ys) @ xs)"

definition record_bookkeeping ::
  "string list \<Rightarrow> string \<Rightarrow> string \<Rightarrow> string \<Rightarrow> string \<Rightarrow> string list \<Rightarrow> booking \<Rightarrow> booking" where
  "record_bookkeeping scope prefix svc meth path mws bk =
     (let all = scope @ mws; full = prefix @ path;
          rs = \<lparr>rr_method = meth, rr_path = full, rr_middleware = all, rr_auto_head = False\<rparr> #
               (if meth = ''GET''
                then [\<lparr>rr_method = ''HEAD'', rr_path = full, rr_middleware = all, rr_auto_head = True\<rparr>] else [])
      in bk\<lparr>bk_removed := (bk_removed bk)(svc := None), bk_routes := append_at svc rs (bk_routes bk)\<rparr>)"

definition book_handler :: "bool \<Rightarrow> string \<Rightarrow> string \<Rightarrow> string \<Rightarrow> handler \<Rightarrow> booking \<Rightarrow> booking" where
  "book_handler rebuilding svc meth path h bk =
     (if hd_deps h \<noteq> [] \<and> \<not> rebuilding
      then bk\<lparr>bk_pending := bk_pending bk @ [(svc, meth, path, hd_deps h)]\<rparr> else bk)"

section \<open>Building the tree\<close>

definition say :: "chi_call list \<Rightarrow> rbuild \<Rightarrow> rbuild" where
  "say cs b = b\<lparr>bd_calls := bd_calls b @ cs\<rparr>"

text \<open>The op of Handle: resolve the chain now, register the meth, and HEAD beside GET.\<close>

definition route_op ::
  "names \<Rightarrow> nat \<Rightarrow> mwspec list \<Rightarrow> string \<Rightarrow> string \<Rightarrow> handler \<Rightarrow> rbuild \<Rightarrow> (router_panic, rbuild) result"
where
  "route_op nm mux specs meth path h b =
     (case build_middlewares nm specs of
        Inl e \<Rightarrow> Inl e
      | Inr chain \<Rightarrow>
          Inr (say (CMethod mux chain meth path (Endpoint (hd_id h)) #
                    (if meth = ''GET'' then [CMethod mux chain ''HEAD'' path (Endpoint (hd_id h))] else [])) b))"

fun use_sub :: "names \<Rightarrow> mwspec list \<Rightarrow> subrouter \<Rightarrow> rbuild \<Rightarrow> (router_panic, subrouter \<times> rbuild) result" where
  "use_sub nm [] cx b = Inr (cx, b)"
| "use_sub nm (m # ms) cx b =
     (case build_middleware nm m of
        Inl e \<Rightarrow> Inl e
      | Inr x \<Rightarrow> use_sub nm ms (cx\<lparr>cx_scope := cx_scope cx @ spec_names [m]\<rparr>) (say [CUse (cx_mux cx) x] b))"

definition open_group :: "nat \<Rightarrow> rbuild \<Rightarrow> nat \<times> rbuild" where
  "open_group mux b = (bd_next b, say [CGroup mux (bd_next b)] (b\<lparr>bd_next := bd_next b + 1\<rparr>))"

text \<open>The mount of a pattern, made by the first Route and found again by later ones.\<close>

definition open_mount :: "nat \<Rightarrow> nat \<Rightarrow> string \<Rightarrow> rbuild \<Rightarrow> nat \<times> rbuild" where
  "open_mount mux key pattern b =
     (case bd_mounts b (key, pattern) of
        Some m \<Rightarrow> (m, b)
      | None \<Rightarrow> (bd_next b, say [CRoute mux pattern (bd_next b)]
                   (b\<lparr>bd_next := bd_next b + 1, bd_mounts := (bd_mounts b)((key, pattern) \<mapsto> bd_next b)\<rparr>)))"

fun run_stmt :: "names \<Rightarrow> bool \<Rightarrow> stmt \<Rightarrow> subrouter \<times> booking \<times> rbuild \<Rightarrow>
      (router_panic, subrouter \<times> booking \<times> rbuild) result"
  and run_stmts :: "names \<Rightarrow> bool \<Rightarrow> stmt list \<Rightarrow> subrouter \<times> booking \<times> rbuild \<Rightarrow>
      (router_panic, subrouter \<times> booking \<times> rbuild) result"
where
  "run_stmt nm rb (SUse ms) (cx, bk, b) =
     (case use_sub nm ms cx b of Inl e \<Rightarrow> Inl e | Inr (cx', b') \<Rightarrow> Inr (cx', bk, b'))"
| "run_stmt nm rb (SHandle svc meth path h ms) (cx, bk, b) =
     (let bk1 = book_handler rb svc meth path h bk;
          bk2 = (if rb then bk1
                 else record_bookkeeping (cx_scope cx) (cx_prefix cx) svc meth path (spec_names ms) bk1)
      in case route_op nm (cx_mux cx) ms meth path h b of
           Inl e \<Rightarrow> Inl e | Inr b' \<Rightarrow> Inr (cx, bk2, b'))"
| "run_stmt nm rb (SGroup body) (cx, bk, b) =
     (case open_group (cx_mux cx) b of (g, b1) \<Rightarrow>
      (case run_stmts nm rb body (cx\<lparr>cx_mux := g, cx_nf := ''''\<rparr>, bk, b1) of
         Inl e \<Rightarrow> Inl e | Inr (_, bk', b') \<Rightarrow> Inr (cx, bk', b')))"
| "run_stmt nm rb (SRoute pattern body) (cx, bk, b) =
     (case open_mount (cx_mux cx) (cx_map cx) pattern b of (m, b1) \<Rightarrow>
      (case open_group m b1 of (g, b2) \<Rightarrow>
       (case run_stmts nm rb body
               (cx\<lparr>cx_mux := g, cx_prefix := cx_prefix cx @ pattern, cx_map := m, cx_nf := ''''\<rparr>, bk, b2) of
          Inl e \<Rightarrow> Inl e | Inr (_, bk', b') \<Rightarrow> Inr (cx, bk', b'))))"
| "run_stmt nm rb (SNotFound svc h) (cx, bk, b) =
     (if cx_nf cx \<noteq> '''' then Inl (NotFoundTaken (cx_nf cx))
      else Inr (cx\<lparr>cx_nf := svc\<rparr>, book_handler rb svc ''NOTFOUND'' (cx_prefix cx @ ''/*'') h bk,
                say [CNotFound (cx_mux cx) (hd_id h)] b))"
| "run_stmts nm rb [] st = Inr st"
| "run_stmts nm rb (x # xs) st =
     (case run_stmt nm rb x st of Inl e \<Rightarrow> Inl e | Inr st' \<Rightarrow> run_stmts nm rb xs st')"

definition root_router :: "string list \<Rightarrow> subrouter" where
  "root_router scope = \<lparr>cx_mux = 0, cx_prefix = '''', cx_scope = scope, cx_map = 0, cx_nf = ''''\<rparr>"

fun run_op :: "names \<Rightarrow> string list \<Rightarrow> bool \<Rightarrow> top_op \<Rightarrow> booking \<times> rbuild \<Rightarrow>
      (router_panic, booking \<times> rbuild) result"
where
  "run_op nm scope rb (OpHandle specs meth path h) (bk, b) =
     (case route_op nm 0 specs meth path h b of Inl e \<Rightarrow> Inl e | Inr b' \<Rightarrow> Inr (bk, b'))"
| "run_op nm scope rb (OpGroup body) (bk, b) =
     (case run_stmt nm rb (SGroup body) (root_router scope, bk, b) of
        Inl e \<Rightarrow> Inl e | Inr (_, bk', b') \<Rightarrow> Inr (bk', b'))"
| "run_op nm scope rb (OpRoute pattern body) (bk, b) =
     (case run_stmt nm rb (SRoute pattern body) (root_router scope, bk, b) of
        Inl e \<Rightarrow> Inl e | Inr (_, bk', b') \<Rightarrow> Inr (bk', b'))"

text \<open>The ops of a build; the first \<open>booked\<close> are replays.\<close>

fun run_ops :: "names \<Rightarrow> string list \<Rightarrow> nat \<Rightarrow> top_op list \<Rightarrow> booking \<times> rbuild \<Rightarrow>
      (router_panic, booking \<times> rbuild) result"
where
  "run_ops nm scope booked [] st = Inr st"
| "run_ops nm scope booked (op # ops) st =
     (case run_op nm scope (booked > 0) op st of
        Inl e \<Rightarrow> Inl e | Inr st' \<Rightarrow> run_ops nm scope (booked - 1) ops st')"

definition empty_build :: rbuild where
  "empty_build = \<lparr>bd_calls = [], bd_next = 1, bd_mounts = Map.empty\<rparr>"

definition build_mux :: "router \<Rightarrow> (router_panic, booking \<times> chi_call list) result" where
  "build_mux r =
     (case build_middlewares (rt_names r) (rt_pending_mw r) of
        Inl e \<Rightarrow> Inl e
      | Inr mws \<Rightarrow>
          (case run_ops (rt_names r) (rt_scope r) (rt_booked r) (rt_pending_ops r)
                  (rt_book r, say (map (CUse 0) mws) empty_build) of
             Inl e \<Rightarrow> Inl e
           | Inr (bk, b) \<Rightarrow>
               Inr (bk, bd_calls b @ (case rt_not_found r of None \<Rightarrow> [] | Some h \<Rightarrow> [CNotFound 0 h]))))"

text \<open>publish: the new tree, with a 503 handler over every route of a removed service.\<close>

definition publish :: "router \<Rightarrow> (router_panic, router) result" where
  "publish r =
     (case build_mux r of
        Inl e \<Rightarrow> Inl e
      | Inr (bk, calls) \<Rightarrow>
          Inr (r\<lparr>rt_book := bk, rt_booked := length (rt_pending_ops r), rt_served := calls,
                 rt_overlay := bk_removed bk\<rparr>))"

section \<open>The operations\<close>

definition new_router :: router where
  "new_router = \<lparr>rt_names = \<lparr>nm_registry = Map.empty, nm_retired = Map.empty\<rparr>,
     rt_book = \<lparr>bk_routes = Map.empty, bk_removed = Map.empty, bk_pending = []\<rparr>,
     rt_scope = [], rt_pending_mw = [], rt_pending_ops = [], rt_booked = 0, rt_sealed = False,
     rt_nf_service = '''', rt_not_found = None, rt_served = [], rt_overlay = Map.empty\<rparr>"

definition when_sealed :: "router \<Rightarrow> (router_panic, router) result" where
  "when_sealed r = (if rt_sealed r then publish r else Inr r)"

definition register :: "string option \<Rightarrow> string \<Rightarrow> nat \<Rightarrow> router \<Rightarrow> (router_panic, router) result" where
  "register svc n f r =
     (let nm = rt_names r; was_retired = nm_retired nm n \<noteq> None;
          r' = r\<lparr>rt_names := \<lparr>nm_registry = (nm_registry nm)(n \<mapsto> (owner_of svc, f)),
                              nm_retired = (nm_retired nm)(n := None)\<rparr>\<rparr>
      in if was_retired \<and> rt_sealed r then publish r' else Inr r')"

fun use_all :: "mwspec list \<Rightarrow> router \<Rightarrow> (router_panic, router) result" where
  "use_all [] r = Inr r"
| "use_all (m # ms) r =
     (case validate_middleware (rt_names r) m of
        Some e \<Rightarrow> Inl e
      | None \<Rightarrow> use_all ms (r\<lparr>rt_pending_mw := rt_pending_mw r @ [m],
                                rt_scope := rt_scope r @ spec_names [m]\<rparr>))"

definition use :: "mwspec list \<Rightarrow> router \<Rightarrow> (router_panic, router) result" where
  "use ms r = (case use_all ms r of Inl e \<Rightarrow> Inl e | Inr r' \<Rightarrow> when_sealed r')"

definition apply_op :: "top_op \<Rightarrow> router \<Rightarrow> (router_panic, router) result" where
  "apply_op op r = when_sealed (r\<lparr>rt_pending_ops := rt_pending_ops r @ [op]\<rparr>)"

definition group :: "stmt list \<Rightarrow> router \<Rightarrow> (router_panic, router) result" where
  "group body r = apply_op (OpGroup body) r"

definition route :: "string \<Rightarrow> stmt list \<Rightarrow> router \<Rightarrow> (router_panic, router) result" where
  "route pattern body r = apply_op (OpRoute pattern body) r"

definition handle ::
  "string option \<Rightarrow> string \<Rightarrow> string \<Rightarrow> handler \<Rightarrow> mwspec list \<Rightarrow> router \<Rightarrow> (router_panic, router) result"
where
  "handle svc meth path h specs r =
     (case middleware_names (rt_names r) False specs of
        Inl e \<Rightarrow> Inl e
      | Inr mws \<Rightarrow>
          (let bk1 = book_handler False (owner_of svc) meth path h (rt_book r);
               bk2 = record_bookkeeping (rt_scope r) '''' (owner_of svc) meth path mws bk1
           in apply_op (OpHandle specs meth path h) (r\<lparr>rt_book := bk2\<rparr>)))"

definition not_found :: "string option \<Rightarrow> handler \<Rightarrow> router \<Rightarrow> (router_panic, router) result" where
  "not_found svc h r =
     (if rt_nf_service r \<noteq> '''' then Inl (NotFoundTaken (rt_nf_service r))
      else when_sealed (r\<lparr>rt_nf_service := owner_of svc,
             rt_book := book_handler False (owner_of svc) ''NOTFOUND'' ''/*'' h (rt_book r),
             rt_not_found := Some (hd_id h)\<rparr>))"

definition retire_names :: "string \<Rightarrow> names \<Rightarrow> names" where
  "retire_names svc nm = \<lparr>
     nm_registry = (\<lambda>n. case nm_registry nm n of
        Some (s, f) \<Rightarrow> if s = svc then None else Some (s, f) | None \<Rightarrow> None),
     nm_retired = (\<lambda>n. case nm_registry nm n of
        Some (s, f) \<Rightarrow> if s = svc then Some (s, f) else nm_retired nm n | None \<Rightarrow> nm_retired nm n)\<rparr>"

definition remove_routes :: "string \<Rightarrow> booking \<Rightarrow> booking" where
  "remove_routes svc bk =
     (case bk_routes bk svc of
        Some rs \<Rightarrow> bk\<lparr>bk_removed := (bk_removed bk)(svc \<mapsto> rs), bk_routes := (bk_routes bk)(svc := None)\<rparr>
      | None \<Rightarrow> bk)"

definition remove_service :: "string option \<Rightarrow> router \<Rightarrow> (router_panic, router) result" where
  "remove_service svc r =
     when_sealed (r\<lparr>rt_book := remove_routes (owner_of svc) (rt_book r),
                    rt_names := retire_names (owner_of svc) (rt_names r)\<rparr>)"

definition seal :: "router \<Rightarrow> (router_panic, router) result" where
  "seal r = (if rt_sealed r then Inr r else publish (r\<lparr>rt_sealed := True\<rparr>))"

definition routes :: "router \<Rightarrow> (string \<rightharpoonup> rroute list)" where
  "routes r = (\<lambda>svc. case bk_routes (rt_book r) svc of
     None \<Rightarrow> None
   | Some rs \<Rightarrow> (let out = filter (\<lambda>rt. \<not> rr_auto_head rt) rs in if out = [] then None else Some out))"

definition named_middleware :: "router \<Rightarrow> (string \<rightharpoonup> string)" where
  "named_middleware r = map_option fst \<circ> nm_registry (rt_names r)"

end
