(* ===== verification/Router_Properties.thy ===== *)
theory Router_Properties
  imports Router_Tree
begin

text \<open>
  What a rebuild of the routing tree does: the calls it makes depend on the registrations alone
  and not on whether they were built before, a replay books nothing, and taking a service's
  middleware away turns each of its uses into a 503 at the same place of the tree.
\<close>

section \<open>Replays\<close>

definition emission :: "(router_panic, subrouter \<times> booking \<times> rbuild) result \<Rightarrow>
    (router_panic, subrouter \<times> rbuild) result" where
  "emission x = (case x of Inl e \<Rightarrow> Inl e | Inr (cx, bk, b) \<Rightarrow> Inr (cx, b))"

lemma emission_simps [simp]: "emission (Inl e) = Inl e" "emission (Inr (cx, bk, b)) = Inr (cx, b)"
  by (simp_all add: emission_def)

lemma emission_eq_Inl: "emission x = Inl e \<longleftrightarrow> x = Inl e"
  by (auto simp: emission_def split: sum.splits)

lemma emission_eq_Inr: "emission x = Inr (cx, b) \<longleftrightarrow> (\<exists>bk. x = Inr (cx, bk, b))"
  by (auto simp: emission_def split: sum.splits)

lemma emission_cases:
  assumes "emission x = emission y"
  obtains (fails) e where "x = Inl e" "y = Inl e"
    | (runs) cx bk bk' b where "x = Inr (cx, bk, b)" "y = Inr (cx, bk', b)"
  using assms by (cases x; cases y) (auto simp: emission_def)

text \<open>What reaches chi does not depend on the bookkeeping or on the replay flag.\<close>

definition rebook :: "booking \<Rightarrow> subrouter \<times> booking \<times> rbuild \<Rightarrow> subrouter \<times> booking \<times> rbuild" where
  "rebook bk' st = (case st of (cx, bk, b) \<Rightarrow> (cx, bk', b))"

lemma rebook_simp [simp]: "rebook bk' (cx, bk, b) = (cx, bk', b)"
  by (simp add: rebook_def)

lemma emission_indep:
  shows "emission (run_stmt nm rb x st) = emission (run_stmt nm rb' x (rebook bk' st))"
    and "emission (run_stmts nm rb xs st) = emission (run_stmts nm rb' xs (rebook bk' st))"
proof (induction nm rb x st and nm rb xs st arbitrary: bk' and bk' rule: run_stmt_run_stmts.induct)
  case (1 nm rb ms cx bk b)
  then show ?case by (auto simp: emission_def split: sum.splits)
next
  case (2 nm rb svc meth path h ms cx bk b)
  then show ?case by (auto simp: emission_def Let_def split: sum.splits)
next
  case (3 nm rb body cx bk b)
  obtain g b1 where o: "open_group (cx_mux cx) b = (g, b1)" by fastforce
  from 3 [OF o [symmetric], of bk'] show ?case
    by (cases rule: emission_cases) (auto simp: o)
next
  case (4 nm rb pattern body cx bk b)
  obtain m b1 where o: "open_mount (cx_mux cx) (cx_map cx) pattern b = (m, b1)" by fastforce
  obtain g b2 where o2: "open_group m b1 = (g, b2)" by fastforce
  from 4 [OF o [symmetric] o2 [symmetric], of bk'] show ?case
    by (cases rule: emission_cases) (auto simp: o o2)
next
  case (5 nm rb svc h cx bk b)
  then show ?case by simp
next
  case (6 nm rb st)
  then show ?case by (cases st) simp
next
  case (7 nm rb x xs st)
  from "7.IH"(1) [of bk'] show ?case
  proof (cases rule: emission_cases)
    case (fails e)
    then show ?thesis by simp
  next
    case (runs cx1 bk1 bk1' b1)
    with "7.IH"(2) [OF runs(1), of bk1'] show ?thesis by simp
  qed
qed

definition same_booking :: "booking \<Rightarrow> (router_panic, subrouter \<times> booking \<times> rbuild) result \<Rightarrow> bool" where
  "same_booking bk r = (case r of Inl e \<Rightarrow> True | Inr (cx, bk', b) \<Rightarrow> bk' = bk)"

lemma replay_books_nothing:
  shows "rb \<Longrightarrow> same_booking (fst (snd st)) (run_stmt nm rb x st)"
    and "rb \<Longrightarrow> same_booking (fst (snd st)) (run_stmts nm rb xs st)"
proof (induction nm rb x st and nm rb xs st rule: run_stmt_run_stmts.induct)
  case (3 nm rb body cx bk b)
  obtain g b1 where o: "open_group (cx_mux cx) b = (g, b1)" by fastforce
  from "3.IH" [OF o [symmetric] "3.prems"] show ?case
    by (auto simp: o same_booking_def split: sum.splits)
next
  case (4 nm rb pattern body cx bk b)
  obtain m b1 where o: "open_mount (cx_mux cx) (cx_map cx) pattern b = (m, b1)" by fastforce
  obtain g b2 where o2: "open_group m b1 = (g, b2)" by fastforce
  from "4.IH" [OF o [symmetric] o2 [symmetric] "4.prems"] show ?case
    by (auto simp: o o2 same_booking_def split: sum.splits)
next
  case (7 nm rb x xs st)
  show ?case
  proof (cases "run_stmt nm rb x st")
    case (Inl e)
    then show ?thesis by (simp add: same_booking_def)
  next
    case (Inr st')
    with 7 show ?thesis by (cases st') (auto simp: same_booking_def split: sum.splits)
  qed
qed (auto simp: Let_def book_handler_def same_booking_def split: sum.splits)

lemma run_op_indep:
  assumes "run_op nm scope rb op (bk, b) = Inr (bk1, b1)"
  shows "run_op nm scope True op (bk', b) = Inr (bk', b1)"
proof (cases op)
  case (OpHandle specs meth path h)
  with assms show ?thesis by (auto split: sum.splits)
next
  case (OpGroup body)
  let ?x = "SGroup body" and ?cx = "root_router scope"
  from assms OpGroup obtain cx1 where r: "run_stmt nm rb ?x (?cx, bk, b) = Inr (cx1, bk1, b1)"
    by (auto simp del: run_stmt.simps split: sum.splits)
  from emission_indep(1) [of nm rb ?x "(?cx, bk, b)" True bk']
  obtain bk2 where r2: "run_stmt nm True ?x (?cx, bk', b) = Inr (cx1, bk2, b1)"
    by (cases rule: emission_cases) (use r in auto)
  have "bk2 = bk'" using replay_books_nothing(1) [of True "(?cx, bk', b)" nm ?x] r2
    by (simp add: same_booking_def)
  with r2 OpGroup show ?thesis by (simp del: run_stmt.simps)
next
  case (OpRoute pattern body)
  let ?x = "SRoute pattern body" and ?cx = "root_router scope"
  from assms OpRoute obtain cx1 where r: "run_stmt nm rb ?x (?cx, bk, b) = Inr (cx1, bk1, b1)"
    by (auto simp del: run_stmt.simps split: sum.splits)
  from emission_indep(1) [of nm rb ?x "(?cx, bk, b)" True bk']
  obtain bk2 where r2: "run_stmt nm True ?x (?cx, bk', b) = Inr (cx1, bk2, b1)"
    by (cases rule: emission_cases) (use r in auto)
  have "bk2 = bk'" using replay_books_nothing(1) [of True "(?cx, bk', b)" nm ?x] r2
    by (simp add: same_booking_def)
  with r2 OpRoute show ?thesis by (simp del: run_stmt.simps)
qed

text \<open>A build followed by a full replay: the same calls, and nothing booked.\<close>

lemma run_ops_replay:
  "run_ops nm scope k ops (bk, b) = Inr (bk1, b1) \<Longrightarrow>
     run_ops nm scope (length ops) ops (bk', b) = Inr (bk', b1)"
proof (induction ops arbitrary: k bk b)
  case Nil
  then show ?case by simp
next
  case (Cons op ops)
  obtain bk2 b2 where r: "run_op nm scope (k > 0) op (bk, b) = Inr (bk2, b2)"
    using Cons.prems by (auto split: sum.splits)
  from Cons.prems r have "run_ops nm scope (k - 1) ops (bk2, b2) = Inr (bk1, b1)" by simp
  from Cons.IH [OF this] run_op_indep [OF r] show ?case by simp
qed

lemma build_mux_replay:
  assumes "build_mux r = Inr (bk, calls)" and "rt_names r' = rt_names r" and "rt_scope r' = rt_scope r"
    and "rt_pending_mw r' = rt_pending_mw r" and "rt_pending_ops r' = rt_pending_ops r"
    and "rt_not_found r' = rt_not_found r" and "rt_booked r' = length (rt_pending_ops r)"
  shows "build_mux r' = Inr (rt_book r', calls)"
proof -
  from assms(1) obtain mws b where m: "build_middlewares (rt_names r) (rt_pending_mw r) = Inr mws"
    and o: "run_ops (rt_names r) (rt_scope r) (rt_booked r) (rt_pending_ops r)
        (rt_book r, say (map (CUse 0) mws) empty_build) = Inr (bk, b)"
    and c: "calls = bd_calls b @ (case rt_not_found r of None \<Rightarrow> [] | Some h \<Rightarrow> [CNotFound 0 h])"
    by (auto simp: build_mux_def split: sum.splits)
  from run_ops_replay [OF o, of "rt_book r'"] m c assms(2-7) show ?thesis
    by (simp add: build_mux_def)
qed

lemma publish_spec:
  "publish r = Inr r' \<longleftrightarrow> (\<exists>bk calls. build_mux r = Inr (bk, calls) \<and>
     r' = r\<lparr>rt_book := bk, rt_booked := length (rt_pending_ops r), rt_served := calls,
            rt_overlay := bk_removed bk\<rparr>)"
  by (auto simp: publish_def split: sum.splits)

section \<open>Retiring a service's middleware\<close>

definition retire_mw :: "names \<Rightarrow> string \<Rightarrow> resolved_mw \<Rightarrow> resolved_mw" where
  "retire_mw nm svc x = (case x of
     RunNamed n f \<Rightarrow> (case nm_registry nm n of Some (s, _) \<Rightarrow> if s = svc then Short503 n else x | None \<Rightarrow> x)
   | _ \<Rightarrow> x)"

fun retire_call :: "names \<Rightarrow> string \<Rightarrow> chi_call \<Rightarrow> chi_call" where
  "retire_call nm svc (CUse m x) = CUse m (retire_mw nm svc x)"
| "retire_call nm svc (CMethod m chain meth path h) = CMethod m (map (retire_mw nm svc) chain) meth path h"
| "retire_call nm svc c = c"

definition retire_build :: "names \<Rightarrow> string \<Rightarrow> rbuild \<Rightarrow> rbuild" where
  "retire_build nm svc b = b\<lparr>bd_calls := map (retire_call nm svc) (bd_calls b)\<rparr>"

lemma build_middleware_retire:
  "build_middleware (retire_names svc nm) m = map_sum id (retire_mw nm svc) (build_middleware nm m)"
  by (cases m) (auto simp: retire_names_def retire_mw_def split: option.splits)

lemma build_middlewares_retire:
  "build_middlewares (retire_names svc nm) ms = map_sum id (map (retire_mw nm svc)) (build_middlewares nm ms)"
proof (induction ms)
  case (Cons m ms)
  then show ?case
    by (cases "build_middleware nm m"; cases "build_middlewares nm ms") (simp_all add: build_middleware_retire)
qed simp

lemma retire_say: "say (map (retire_call nm svc) cs) (retire_build nm svc b) = retire_build nm svc (say cs b)"
  by (simp add: say_def retire_build_def)

lemma retire_build_sel [simp]:
  "bd_next (retire_build nm svc b) = bd_next b" "bd_mounts (retire_build nm svc b) = bd_mounts b"
  by (simp_all add: retire_build_def)

lemma open_group_retire:
  "open_group m (retire_build nm svc b) = map_prod id (retire_build nm svc) (open_group m b)"
  by (simp add: open_group_def say_def retire_build_def)

lemma open_mount_retire:
  "open_mount m key p (retire_build nm svc b) = map_prod id (retire_build nm svc) (open_mount m key p b)"
  by (simp add: open_mount_def say_def retire_build_def split: option.split)

lemma route_op_retire:
  "route_op (retire_names svc nm) m ms meth path h (retire_build nm svc b) =
     map_sum id (retire_build nm svc) (route_op nm m ms meth path h b)"
  by (cases "build_middlewares nm ms")
    (simp_all add: route_op_def build_middlewares_retire say_def retire_build_def)

lemma use_sub_retire:
  "use_sub (retire_names svc nm) ms cx (retire_build nm svc b) =
     map_sum id (map_prod id (retire_build nm svc)) (use_sub nm ms cx b)"
proof (induction ms arbitrary: cx b)
  case (Cons m ms)
  show ?case
  proof (cases "build_middleware nm m")
    case (Inr x)
    have "say [CUse (cx_mux cx) (retire_mw nm svc x)] (retire_build nm svc b) =
        retire_build nm svc (say [CUse (cx_mux cx) x] b)"
      using retire_say [of nm svc "[CUse (cx_mux cx) x]" b] by simp
    with Cons Inr show ?thesis by (simp add: build_middleware_retire)
  qed (simp add: build_middleware_retire)
qed simp

definition retire_state :: "names \<Rightarrow> string \<Rightarrow> 'c \<times> booking \<times> rbuild \<Rightarrow> 'c \<times> booking \<times> rbuild" where
  "retire_state nm svc = map_prod id (map_prod id (retire_build nm svc))"

lemma retire_state_simp [simp]: "retire_state nm svc (cx, bk, b) = (cx, bk, retire_build nm svc b)"
  by (simp add: retire_state_def)

lemma run_retire:
  shows "run_stmt (retire_names svc nm) rb x (retire_state nm svc st) =
      map_sum id (retire_state nm svc) (run_stmt nm rb x st)"
    and "run_stmts (retire_names svc nm) rb xs (retire_state nm svc st) =
      map_sum id (retire_state nm svc) (run_stmts nm rb xs st)"
proof (induction nm rb x st and nm rb xs st rule: run_stmt_run_stmts.induct)
  case (1 nm rb ms cx bk b)
  then show ?case
    by (cases "use_sub nm ms cx b") (auto simp: use_sub_retire)
next
  case (2 nm rb s meth path h ms cx bk b)
  then show ?case
    by (cases "route_op nm (cx_mux cx) ms meth path h b") (simp_all add: route_op_retire Let_def)
next
  case (3 nm rb body cx bk b)
  obtain g b1 where o: "open_group (cx_mux cx) b = (g, b1)" by fastforce
  from "3.IH" [OF o [symmetric]] show ?case
    by (cases "run_stmts nm rb body (cx\<lparr>cx_mux := g, cx_nf := ''''\<rparr>, bk, b1)")
      (auto simp: o open_group_retire)
next
  case (4 nm rb pattern body cx bk b)
  obtain m b1 where o: "open_mount (cx_mux cx) (cx_map cx) pattern b = (m, b1)" by fastforce
  obtain g b2 where o2: "open_group m b1 = (g, b2)" by fastforce
  from "4.IH" [OF o [symmetric] o2 [symmetric]] show ?case
    by (cases "run_stmts nm rb body
        (cx\<lparr>cx_mux := g, cx_prefix := cx_prefix cx @ pattern, cx_map := m, cx_nf := ''''\<rparr>, bk, b2)")
      (auto simp: o o2 open_mount_retire open_group_retire)
next
  case (5 nm rb s h cx bk b)
  then show ?case by (simp add: say_def retire_build_def)
next
  case (6 nm rb st)
  then show ?case by simp
next
  case (7 nm rb x xs st)
  then show ?case by (cases "run_stmt nm rb x st") simp_all
qed

lemma run_op_retire:
  "run_op (retire_names svc nm) scope rb op (bk, retire_build nm svc b) =
     map_sum id (map_prod id (retire_build nm svc)) (run_op nm scope rb op (bk, b))"
proof (cases op)
  case (OpHandle specs meth path h)
  then show ?thesis by (cases "route_op nm 0 specs meth path h b") (simp_all add: route_op_retire)
next
  case (OpGroup body)
  show ?thesis
    using run_retire(1) [of svc nm rb "SGroup body" "(root_router scope, bk, b)"] OpGroup
    by (cases "run_stmt nm rb (SGroup body) (root_router scope, bk, b)")
      (auto simp del: run_stmt.simps simp: retire_state_def)
next
  case (OpRoute pattern body)
  show ?thesis
    using run_retire(1) [of svc nm rb "SRoute pattern body" "(root_router scope, bk, b)"] OpRoute
    by (cases "run_stmt nm rb (SRoute pattern body) (root_router scope, bk, b)")
      (auto simp del: run_stmt.simps simp: retire_state_def)
qed

lemma run_ops_retire:
  "run_ops (retire_names svc nm) scope k ops (bk, retire_build nm svc b) =
     map_sum id (map_prod id (retire_build nm svc)) (run_ops nm scope k ops (bk, b))"
proof (induction ops arbitrary: k bk b)
  case Nil
  then show ?case by simp
next
  case (Cons op ops)
  then show ?case
    by (cases "run_op nm scope (k > 0) op (bk, b)") (auto simp: run_op_retire)
qed

lemma build_mux_retire:
  assumes "build_mux r = Inr (bk, calls)" and "rt_booked r = length (rt_pending_ops r)"
  shows "build_mux (r\<lparr>rt_book := bk', rt_names := retire_names svc (rt_names r)\<rparr>) =
    Inr (bk', map (retire_call (rt_names r) svc) calls)"
proof -
  let ?nm = "rt_names r"
  from assms(1) obtain mws b where m: "build_middlewares ?nm (rt_pending_mw r) = Inr mws"
    and o: "run_ops ?nm (rt_scope r) (rt_booked r) (rt_pending_ops r)
        (rt_book r, say (map (CUse 0) mws) empty_build) = Inr (bk, b)"
    and c: "calls = bd_calls b @ (case rt_not_found r of None \<Rightarrow> [] | Some h \<Rightarrow> [CNotFound 0 h])"
    by (auto simp: build_mux_def split: sum.splits)
  have start: "say (map (CUse 0) (map (retire_mw ?nm svc) mws)) empty_build =
      retire_build ?nm svc (say (map (CUse 0) mws) empty_build)"
    by (simp add: say_def retire_build_def empty_build_def)
  from run_ops_replay [OF o, of bk']
  have o': "run_ops (retire_names svc ?nm) (rt_scope r) (rt_booked r) (rt_pending_ops r)
      (bk', retire_build ?nm svc (say (map (CUse 0) mws) empty_build)) = Inr (bk', retire_build ?nm svc b)"
    by (simp only: run_ops_retire assms(2)) simp
  show ?thesis
    using m o' c start
    by (simp add: build_mux_def build_middlewares_retire) (simp add: retire_build_def split: option.split)
qed

section \<open>Reachable routers\<close>

inductive router_step :: "router \<Rightarrow> router \<Rightarrow> bool" where
  rs_register: "register svc n f r = Inr r' \<Longrightarrow> router_step r r'"
| rs_use: "use ms r = Inr r' \<Longrightarrow> router_step r r'"
| rs_group: "group body r = Inr r' \<Longrightarrow> router_step r r'"
| rs_route: "route pattern body r = Inr r' \<Longrightarrow> router_step r r'"
| rs_handle: "handle svc meth path h ms r = Inr r' \<Longrightarrow> router_step r r'"
| rs_not_found: "not_found svc h r = Inr r' \<Longrightarrow> router_step r r'"
| rs_remove: "remove_service svc r = Inr r' \<Longrightarrow> router_step r r'"
| rs_seal: "seal r = Inr r' \<Longrightarrow> router_step r r'"

inductive router_reachable :: "router \<Rightarrow> bool" where
  rr_new: "router_reachable new_router"
| rr_step: "router_reachable r \<Longrightarrow> router_step r r' \<Longrightarrow> router_reachable r'"

definition all_booked :: "router \<Rightarrow> bool" where
  "all_booked r \<longleftrightarrow> (rt_sealed r \<longrightarrow> rt_booked r = length (rt_pending_ops r))"

lemma when_sealed_booked: "when_sealed r = Inr r' \<Longrightarrow> all_booked r'"
  by (auto simp: when_sealed_def all_booked_def publish_spec split: if_splits)

lemma router_step_booked: "router_step r r' \<Longrightarrow> all_booked r \<Longrightarrow> all_booked r'"
proof (induction rule: router_step.induct)
  case (rs_register svc n f r r')
  then show ?case by (auto simp: register_def Let_def all_booked_def publish_spec split: if_splits)
next
  case (rs_seal r r')
  then show ?case by (auto simp: seal_def all_booked_def publish_spec split: if_splits)
qed (auto simp: use_def group_def route_def apply_op_def handle_def not_found_def remove_service_def Let_def
       split: sum.splits if_splits intro: when_sealed_booked)

lemma reachable_booked: "router_reachable r \<Longrightarrow> all_booked r"
  by (induction rule: router_reachable.induct) (auto simp: all_booked_def new_router_def
      intro: router_step_booked [unfolded all_booked_def, rule_format])

section \<open>Properties\<close>

text \<open>The functions registered under a name that a tree uses.\<close>

fun named_in :: "chi_call \<Rightarrow> (string \<times> nat) set" where
  "named_in (CUse m x) = (case x of RunNamed n f \<Rightarrow> {(n, f)} | _ \<Rightarrow> {})"
| "named_in (CMethod m chain meth path h) = {(n, f). RunNamed n f \<in> set chain}"
| "named_in c = {}"

lemma retire_mw_named:
  "retire_mw nm svc x = RunNamed n f \<Longrightarrow> x = RunNamed n f \<and> (\<forall>g. nm_registry nm n \<noteq> Some (svc, g))"
  by (cases x) (auto simp: retire_mw_def split: option.splits if_splits)

lemma named_in_retire:
  assumes "(n, f) \<in> named_in (retire_call nm svc c)"
  shows "nm_registry nm n \<noteq> Some (svc, g)"
  using assms
proof (cases c)
  case (CUse m x)
  with assms have "retire_mw nm svc x = RunNamed n f" by (auto split: resolved_mw.splits)
  then show ?thesis using retire_mw_named by blast
next
  case (CMethod m chain meth path h)
  with assms obtain x where "x \<in> set chain" "retire_mw nm svc x = RunNamed n f" by force
  then show ?thesis using retire_mw_named by blast
qed simp_all


text \<open>Publishing is idempotent and a replay books nothing. Once a router has been published,
  building its tree again makes the same calls on chi, and leaves the recorded routes, removed
  routes and pending handler dependencies as they are: each registration is booked exactly once,
  however often the tree is rebuilt.\<close>

theorem publish_idempotent:
  assumes "publish r = Inr r1"
  shows "publish r1 = Inr r1"
proof -
  from assms obtain bk calls where b: "build_mux r = Inr (bk, calls)"
    and r1: "r1 = r\<lparr>rt_book := bk, rt_booked := length (rt_pending_ops r), rt_served := calls,
            rt_overlay := bk_removed bk\<rparr>"
    unfolding publish_spec by blast
  have "build_mux r1 = Inr (rt_book r1, calls)" by (rule build_mux_replay [OF b]) (simp_all add: r1)
  then show ?thesis by (simp add: publish_def r1)
qed

lemma use_all_spec:
  "use_all ms r = Inr r' \<Longrightarrow>
     r' = r\<lparr>rt_pending_mw := rt_pending_mw r @ ms, rt_scope := rt_scope r @ spec_names ms\<rparr>"
proof (induction ms arbitrary: r)
  case Nil
  then show ?case by simp
next
  case (Cons m ms)
  have n: "spec_names (m # ms) = spec_names [m] @ spec_names ms" by (cases m) simp_all
  from Cons.prems have "use_all ms (r\<lparr>rt_pending_mw := rt_pending_mw r @ [m],
      rt_scope := rt_scope r @ spec_names [m]\<rparr>) = Inr r'"
    by (simp split: option.splits)
  from Cons.IH [OF this] show ?case by (simp add: n del: spec_names.simps)
qed

text \<open>C31: middleware applies whatever the order of registration. On a router that is not sealed
  yet, a Use before or after a Handle leads Seal to publish the same tree, so a service cannot
  miss a global middleware by registering its route first.\<close>

theorem use_handle_order:
  assumes "\<not> rt_sealed r"
    and "use ms r = Inr a" and "handle svc meth path h specs a = Inr a'" and "seal a' = Inr a''"
    and "handle svc meth path h specs r = Inr b" and "use ms b = Inr b'" and "seal b' = Inr b''"
  shows "rt_served a'' = rt_served b''"
proof -
  have a: "a = r\<lparr>rt_pending_mw := rt_pending_mw r @ ms, rt_scope := rt_scope r @ spec_names ms\<rparr>"
    using assms(1,2) use_all_spec [of ms r]
    by (auto simp: use_def when_sealed_def split: sum.splits if_splits)
  have hs: "rt_names y' = rt_names y \<and> rt_scope y' = rt_scope y \<and> rt_pending_mw y' = rt_pending_mw y \<and>
      rt_pending_ops y' = rt_pending_ops y @ [OpHandle specs meth path h] \<and>
      rt_not_found y' = rt_not_found y \<and> rt_sealed y' = rt_sealed y"
    if "handle svc meth path h specs y = Inr y'" "\<not> rt_sealed y" for y y'
    using that by (auto simp: handle_def apply_op_def when_sealed_def Let_def split: sum.splits)
  have ua: "\<not> rt_sealed a" using assms(1) a by simp
  note ha = hs [OF assms(3) ua] and hb = hs [OF assms(5,1)]
  have b': "b' = b\<lparr>rt_pending_mw := rt_pending_mw b @ ms, rt_scope := rt_scope b @ spec_names ms\<rparr>"
    using assms(6) hb assms(1) use_all_spec [of ms b]
    by (auto simp: use_def when_sealed_def split: sum.splits if_splits)
  have same: "rt_names a' = rt_names b'" "rt_scope a' = rt_scope b'" "rt_pending_mw a' = rt_pending_mw b'"
    "rt_pending_ops a' = rt_pending_ops b'" "rt_not_found a' = rt_not_found b'"
    using ha hb a b' by simp_all
  from assms(4) ha ua have pa: "publish (a'\<lparr>rt_sealed := True\<rparr>) = Inr a''" by (simp add: seal_def)
  from assms(7) hb b' assms(1) have pb: "publish (b'\<lparr>rt_sealed := True\<rparr>) = Inr b''" by (simp add: seal_def)
  from pa obtain bka ca where ca: "build_mux (a'\<lparr>rt_sealed := True\<rparr>) = Inr (bka, ca)" "rt_served a'' = ca"
    unfolding publish_spec by auto
  from pb obtain bkb cb where cb: "build_mux (b'\<lparr>rt_sealed := True\<rparr>) = Inr (bkb, cb)" "rt_served b'' = cb"
    unfolding publish_spec by auto
  let ?z = "b'\<lparr>rt_sealed := True, rt_booked := length (rt_pending_ops b')\<rparr>"
  have "build_mux ?z = Inr (rt_book ?z, ca)" by (rule build_mux_replay [OF ca(1)]) (simp_all add: same)
  moreover have "build_mux ?z = Inr (rt_book ?z, cb)" by (rule build_mux_replay [OF cb(1)]) simp_all
  ultimately show ?thesis using ca(2) cb(2) by simp
qed

section \<open>Witnesses and two misbehaviours\<close>

fun do_all :: "(router \<Rightarrow> (router_panic, router) result) list \<Rightarrow> router \<Rightarrow> (router_panic, router) result" where
  "do_all [] r = Inr r"
| "do_all (f # fs) r = (case f r of Inl e \<Rightarrow> Inl e | Inr r' \<Rightarrow> do_all fs r')"

lemma do_all_reachable:
  assumes "do_all fs r = Inr r'" and "router_reachable r"
    and "\<forall>f\<in>set fs. \<forall>x y. f x = Inr y \<longrightarrow> router_step x y"
  shows "router_reachable r'"
  using assms
proof (induction fs arbitrary: r)
  case (Cons f fs)
  from Cons.prems(1) obtain x where x: "f r = Inr x" "do_all fs x = Inr r'" by (auto split: sum.splits)
  have "router_reachable x" using Cons.prems(2,3) x(1) by (auto intro: rr_step)
  with Cons.IH [OF x(2)] Cons.prems(3) show ?case by simp
qed simp

lemma is_ok_projr: "is_ok x \<Longrightarrow> x = Inr (projr x)"
  by (cases x) auto

definition guarded_ops :: "(router \<Rightarrow> (router_panic, router) result) list" where
  "guarded_ops = [register (Some ''auth'') ''jwt'' 7,
     handle (Some ''auth'') ''GET'' ''/login'' (Handler 1 []) [],
     group [SUse [MwName ''jwt''], SHandle ''api'' ''POST'' ''/me'' (Handler 2 []) [MwFunc 3]], seal]"

definition guarded_router :: router where
  "guarded_router = projr (do_all guarded_ops new_router)"

lemma guarded_run: "do_all guarded_ops new_router = Inr guarded_router"
  unfolding guarded_router_def by (rule is_ok_projr) code_simp

lemma guarded_reachable: "router_reachable guarded_router"
  by (rule do_all_reachable [OF guarded_run rr_new])
    (auto simp: guarded_ops_def intro: router_step.intros)


theorem publish_idempotent_witness:
  "\<exists>r1. publish (guarded_router\<lparr>rt_booked := 0\<rparr>) = Inr r1 \<and> publish r1 = Inr r1"
proof -
  have "is_ok (publish (guarded_router\<lparr>rt_booked := 0\<rparr>))" by code_simp
  from is_ok_projr [OF this] publish_idempotent show ?thesis by metis
qed

theorem use_handle_order_witness:
  "\<exists>a b. do_all [use [MwFunc 5], handle None ''GET'' ''/x'' (Handler 1 []) [], seal] new_router = Inr a \<and>
     do_all [handle None ''GET'' ''/x'' (Handler 1 []) [], use [MwFunc 5], seal] new_router = Inr b \<and>
     rt_served a = rt_served b \<and> routes a \<noteq> Map.empty"
proof -
  let ?h = "handle None ''GET'' ''/x'' (Handler 1 []) []"
  have 1: "is_ok (do_all [use [MwFunc 5], ?h, seal] new_router)" by code_simp
  have 2: "is_ok (do_all [?h, use [MwFunc 5], seal] new_router)" by code_simp
  from is_ok_projr [OF 1] obtain a a1 a2 where a: "use [MwFunc 5] new_router = Inr a1" "?h a1 = Inr a2" "seal a2 = Inr a"
    by (auto split: sum.splits)
  from is_ok_projr [OF 2] obtain b b1 b2 where b: "?h new_router = Inr b1" "use [MwFunc 5] b1 = Inr b2" "seal b2 = Inr b"
    by (auto split: sum.splits)
  have "map_option (map rr_path) (routes (projr (do_all [use [MwFunc 5], ?h, seal] new_router)) ''gas/router'') = Some [''/x'']"
    by code_simp
  then have "routes a ''gas/router'' \<noteq> None" using a by auto
  moreover have "\<not> rt_sealed new_router" by (simp add: new_router_def)
  from use_handle_order [OF this a b] have "rt_served a = rt_served b" .
  ultimately show ?thesis using a b by (intro exI [of _ a] exI [of _ b]) auto
qed

text \<open>A restart revives routes the restarted service did not register. After a service with
  routes /a and /b is removed and registers only /a again, the tree serves both from their first
  handlers and no 503 overlay is left, while Routes lists /a alone.\<close>

theorem restart_revives_routes:
  "\<exists>r. do_all [handle (Some ''svc'') ''PUT'' ''/a'' (Handler 1 []) [], handle (Some ''svc'') ''PUT'' ''/b'' (Handler 2 []) [],
       seal, remove_service (Some ''svc''), handle (Some ''svc'') ''PUT'' ''/a'' (Handler 3 []) []] new_router = Inr r \<and>
     CMethod 0 [] ''PUT'' ''/b'' (Endpoint 2) \<in> set (rt_served r) \<and> rt_overlay r ''svc'' = None \<and>
     map_option (map rr_path) (routes r ''svc'') = Some [''/a'']"
proof -
  let ?x = "do_all [handle (Some ''svc'') ''PUT'' ''/a'' (Handler 1 []) [], handle (Some ''svc'') ''PUT'' ''/b'' (Handler 2 []) [],
       seal, remove_service (Some ''svc''), handle (Some ''svc'') ''PUT'' ''/a'' (Handler 3 []) []] new_router"
  have "is_ok ?x" "CMethod 0 [] ''PUT'' ''/b'' (Endpoint 2) \<in> set (rt_served (projr ?x))"
    "rt_overlay (projr ?x) ''svc'' = None"
    "map_option (map rr_path) (routes (projr ?x) ''svc'') = Some [''/a'']"
    by code_simp+
  then show ?thesis by (intro exI [of _ "projr ?x"] conjI is_ok_projr)
qed

text \<open>A second group's Route runs behind the first group's middleware, and not behind its
  own. Two Groups, each with its own Use, route the same pattern: the sub-mux is created on the
  mux of the first group, and the second group's routes are put into it, so the middleware the
  second group used stands on no mux above its own routes, although Routes reports it for them
  and not the first group's.\<close>

theorem group_route_shares_first_mount:
  "\<exists>r. do_all [register None ''public'' 1, register None ''admin'' 2,
       group [SUse [MwName ''public''], SRoute ''/api'' [SHandle ''svc'' ''PUT'' ''/x'' (Handler 1 []) []]],
       group [SUse [MwName ''admin''], SRoute ''/api'' [SHandle ''svc'' ''PUT'' ''/y'' (Handler 2 []) []]],
       seal] new_router = Inr r \<and>
     rt_served r =
       [CGroup 0 1, CUse 1 (RunNamed ''public'' 1), CRoute 1 ''/api'' 2, CGroup 2 3,
        CMethod 3 [] ''PUT'' ''/x'' (Endpoint 1),
        CGroup 0 4, CUse 4 (RunNamed ''admin'' 2), CGroup 2 5,
        CMethod 5 [] ''PUT'' ''/y'' (Endpoint 2)] \<and>
     map_option (map (\<lambda>rt. (rr_path rt, rr_middleware rt))) (routes r ''svc'') =
       Some [(''/api/x'', [''public'']), (''/api/y'', [''admin''])]"
proof -
  let ?x = "do_all [register None ''public'' 1, register None ''admin'' 2,
       group [SUse [MwName ''public''], SRoute ''/api'' [SHandle ''svc'' ''PUT'' ''/x'' (Handler 1 []) []]],
       group [SUse [MwName ''admin''], SRoute ''/api'' [SHandle ''svc'' ''PUT'' ''/y'' (Handler 2 []) []]],
       seal] new_router"
  have "is_ok ?x" "rt_served (projr ?x) =
       [CGroup 0 1, CUse 1 (RunNamed ''public'' 1), CRoute 1 ''/api'' 2, CGroup 2 3,
        CMethod 3 [] ''PUT'' ''/x'' (Endpoint 1),
        CGroup 0 4, CUse 4 (RunNamed ''admin'' 2), CGroup 2 5,
        CMethod 5 [] ''PUT'' ''/y'' (Endpoint 2)]"
    "map_option (map (\<lambda>rt. (rr_path rt, rr_middleware rt))) (routes (projr ?x) ''svc'') =
       Some [(''/api/x'', [''public'']), (''/api/y'', [''admin''])]"
    by code_simp+
  then show ?thesis by (intro exI [of _ "projr ?x"] conjI is_ok_projr)
qed

end
