(* ===== verification/Go_Strings.thy ===== *)
theory Go_Strings
  imports Gas_Prelude
begin

text \<open>
  The functions of Go's strings package the modelled code uses, on byte strings: a Go string is
  the list of its bytes, and where Go looks at runes the UTF-8 encodings are written out. ToLower
  and EqualFold are given on ASCII, which is what the modelled inputs (header values, bucket and
  configuration keys) are made of.
\<close>

definition has_prefix :: "string \<Rightarrow> string \<Rightarrow> bool" where
  "has_prefix s p \<longleftrightarrow> take (length p) s = p"

definition has_suffix :: "string \<Rightarrow> string \<Rightarrow> bool" where
  "has_suffix s p \<longleftrightarrow> has_prefix (rev s) (rev p)"

fun contains :: "string \<Rightarrow> string \<Rightarrow> bool" where
  "contains [] p = (p = [])"
| "contains (c # s) p = (has_prefix (c # s) p \<or> contains s p)"

definition trim_left :: "string \<Rightarrow> string \<Rightarrow> string" where
  "trim_left cutset s = dropWhile (\<lambda>c. c \<in> set cutset) s"

definition trim_right :: "string \<Rightarrow> string \<Rightarrow> string" where
  "trim_right cutset s = rev (dropWhile (\<lambda>c. c \<in> set cutset) (rev s))"

definition trim :: "string \<Rightarrow> string \<Rightarrow> string" where
  "trim cutset s = trim_right cutset (trim_left cutset s)"

text \<open>strings.TrimSpace: the encodings of the runes unicode.IsSpace accepts, stripped from both ends.\<close>

definition space_chars :: string where
  "space_chars = [CHR 0x09, CHR 0x0A, CHR 0x0B, CHR 0x0C, CHR 0x0D, CHR 0x20]"

definition wide_spaces :: "string list" where
  "wide_spaces =
     [[CHR 0xC2, CHR 0x85], [CHR 0xC2, CHR 0xA0],
      [CHR 0xE1, CHR 0x9A, CHR 0x80], [CHR 0xE2, CHR 0x80, CHR 0xA8],
      [CHR 0xE2, CHR 0x80, CHR 0xA9], [CHR 0xE2, CHR 0x80, CHR 0xAF],
      [CHR 0xE2, CHR 0x81, CHR 0x9F], [CHR 0xE3, CHR 0x80, CHR 0x80],
      [CHR 0xE2, CHR 0x80, CHR 0x80], [CHR 0xE2, CHR 0x80, CHR 0x81],
      [CHR 0xE2, CHR 0x80, CHR 0x82], [CHR 0xE2, CHR 0x80, CHR 0x83],
      [CHR 0xE2, CHR 0x80, CHR 0x84], [CHR 0xE2, CHR 0x80, CHR 0x85],
      [CHR 0xE2, CHR 0x80, CHR 0x86], [CHR 0xE2, CHR 0x80, CHR 0x87],
      [CHR 0xE2, CHR 0x80, CHR 0x88], [CHR 0xE2, CHR 0x80, CHR 0x89],
      [CHR 0xE2, CHR 0x80, CHR 0x8A]]"

definition space_runes :: "string list" where
  "space_runes = map (\<lambda>c. [c]) space_chars @ wide_spaces"

fun strip :: "string list \<Rightarrow> string \<Rightarrow> string" where
  "strip rs [] = []"
| "strip rs (c # s) =
     (case find (\<lambda>r. has_prefix (c # s) r) rs of
        Some (x # r) \<Rightarrow> strip rs (drop (length r) s)
      | _ \<Rightarrow> c # s)"

definition trim_space :: "string \<Rightarrow> string" where
  "trim_space s = rev (strip (map rev space_runes) (rev (strip space_runes s)))"

definition trim_prefix :: "string \<Rightarrow> string \<Rightarrow> string" where
  "trim_prefix s p = (if has_prefix s p then drop (length p) s else s)"

definition trim_suffix :: "string \<Rightarrow> string \<Rightarrow> string" where
  "trim_suffix s p = (if has_suffix s p then take (length s - length p) s else s)"

text \<open>strings.Cut and SplitN(s, sep, 2) at a single byte: \<open>None\<close> when the byte does not occur.\<close>

fun cut :: "char \<Rightarrow> string \<Rightarrow> (string \<times> string) option" where
  "cut sep [] = None"
| "cut sep (c # s) =
     (if c = sep then Some ([], s)
      else (case cut sep s of None \<Rightarrow> None | Some (a, b) \<Rightarrow> Some (c # a, b)))"

text \<open>strings.Split at a single byte: never empty.\<close>

fun split_at :: "char \<Rightarrow> string \<Rightarrow> string list" where
  "split_at sep [] = [[]]"
| "split_at sep (c # s) =
     (if c = sep then [] # split_at sep s
      else (case split_at sep s of [] \<Rightarrow> [[c]] | x # xs \<Rightarrow> (c # x) # xs))"

fun join_with :: "string \<Rightarrow> string list \<Rightarrow> string" where
  "join_with sep [] = []"
| "join_with sep [x] = x"
| "join_with sep (x # y # ys) = x @ sep @ join_with sep (y # ys)"

definition byte :: "char \<Rightarrow> nat" where
  "byte c = of_char c"

definition lower_char :: "char \<Rightarrow> char" where
  "lower_char c = (if 65 \<le> byte c \<and> byte c \<le> 90 then char_of (byte c + 32) else c)"

definition to_lower :: "string \<Rightarrow> string" where
  "to_lower s = map lower_char s"

definition equal_fold :: "string \<Rightarrow> string \<Rightarrow> bool" where
  "equal_fold a b \<longleftrightarrow> to_lower a = to_lower b"

definition is_digit :: "char \<Rightarrow> bool" where
  "is_digit c \<longleftrightarrow> 48 \<le> byte c \<and> byte c \<le> 57"

text \<open>Byte-wise string comparison, a < b.\<close>

fun str_less :: "string \<Rightarrow> string \<Rightarrow> bool" where
  "str_less [] b = (b \<noteq> [])"
| "str_less (x # a) [] = False"
| "str_less (x # a) (y # b) = (byte x < byte y \<or> (x = y \<and> str_less a b))"

lemma byte_less: "byte c < 256"
  by (simp add: byte_def)

lemma byte_inj: "byte a = byte b \<longleftrightarrow> a = b"
  by (simp add: byte_def)

lemma has_prefix_iff: "has_prefix s p \<longleftrightarrow> (\<exists>t. s = p @ t)"
  by (metis append_eq_conv_conj has_prefix_def append_take_drop_id)

lemma has_suffix_iff: "has_suffix s p \<longleftrightarrow> (\<exists>t. s = t @ p)"
  by (simp add: has_suffix_def has_prefix_iff) (metis rev_append rev_rev_ident)

lemma cut_None: "cut sep s = None \<longleftrightarrow> sep \<notin> set s"
  by (induction s) (auto split: option.splits)

lemma cut_Some: "cut sep s = Some (a, b) \<longleftrightarrow> s = a @ sep # b \<and> sep \<notin> set a"
proof (induction s arbitrary: a)
  case Nil
  then show ?case by simp
next
  case (Cons c s)
  show ?case
  proof (cases "c = sep")
    case True
    then show ?thesis by (cases a) auto
  next
    case False
    have "cut sep (c # s) = Some (a, b) \<longleftrightarrow> (\<exists>a'. a = c # a' \<and> cut sep s = Some (a', b))"
      using False by (auto split: option.splits)
    also have "\<dots> \<longleftrightarrow> (\<exists>a'. a = c # a' \<and> s = a' @ sep # b \<and> sep \<notin> set a')"
      by (simp only: Cons)
    also have "\<dots> \<longleftrightarrow> c # s = a @ sep # b \<and> sep \<notin> set a"
      using False by (cases a) auto
    finally show ?thesis .
  qed
qed

lemma split_at_ne: "split_at sep s \<noteq> []"
  by (induction s) (auto split: list.splits)

lemma split_at_absent: "sep \<notin> set s \<Longrightarrow> split_at sep s = [s]"
  by (induction s) auto

lemma split_at_sep: "sep \<notin> set a \<Longrightarrow> split_at sep (a @ sep # b) = a # split_at sep b"
  by (induction a) auto

lemma split_join:
  "xs \<noteq> [] \<Longrightarrow> \<forall>x\<in>set xs. sep \<notin> set x \<Longrightarrow> split_at sep (join_with [sep] xs) = xs"
  by (induction xs rule: induct_list012) (simp_all add: split_at_absent split_at_sep)

lemma join_split: "join_with [sep] (split_at sep s) = s"
proof (induction s)
  case Nil
  then show ?case by simp
next
  case (Cons c s)
  obtain x xs where s: "split_at sep s = x # xs"
    using split_at_ne by (metis list.exhaust)
  then show ?case using Cons by (cases xs) auto
qed

text \<open>A rune of printable ASCII at both ends is kept by TrimSpace.\<close>

definition solid :: "char \<Rightarrow> bool" where
  "solid c \<longleftrightarrow> 33 \<le> byte c \<and> byte c < 127"

lemma space_runes_not_solid: "r \<in> set space_runes \<Longrightarrow> r \<noteq> [] \<and> (\<forall>c\<in>set r. \<not> solid c)"
proof -
  have "list_all (\<lambda>r. r \<noteq> [] \<and> list_all (\<lambda>c. \<not> solid c) r) space_runes" by code_simp
  then show "r \<in> set space_runes \<Longrightarrow> r \<noteq> [] \<and> (\<forall>c\<in>set r. \<not> solid c)"
    by (auto simp: list_all_iff)
qed

lemma strip_solid:
  assumes "solid c" and "\<forall>r\<in>set rs. r \<noteq> [] \<and> (\<forall>c\<in>set r. \<not> solid c)"
  shows "strip rs (c # s) = c # s"
proof -
  have "find (\<lambda>r. has_prefix (c # s) r) rs = None"
    using assms by (fastforce simp: find_None_iff has_prefix_iff Cons_eq_append_conv)
  then show ?thesis by simp
qed

lemma trim_space_solid:
  assumes "s = [] \<or> (solid (hd s) \<and> solid (last s))"
  shows "trim_space s = s"
proof (cases "s = []")
  case False
  obtain d u where s: "s = d # u" using False by (cases s) auto
  have l: "strip space_runes s = s"
    unfolding s by (rule strip_solid) (use s False assms space_runes_not_solid in auto)
  obtain c t where r: "rev s = c # t" using False by (cases "rev s") auto
  have "last s = c" using r by (metis hd_rev list.sel(1))
  with False assms space_runes_not_solid have "strip (map rev space_runes) (rev s) = rev s"
    unfolding r by (intro strip_solid) auto
  with l show ?thesis by (simp add: trim_space_def)
qed (simp add: trim_space_def)

lemma trim_id:
  "s = [] \<or> (hd s \<notin> set cs \<and> last s \<notin> set cs) \<Longrightarrow> trim cs s = s"
proof -
  assume a: "s = [] \<or> (hd s \<notin> set cs \<and> last s \<notin> set cs)"
  have d: "t = [] \<or> hd t \<notin> set cs \<Longrightarrow> dropWhile (\<lambda>c. c \<in> set cs) t = t" for t :: string
    by (cases t) auto
  have "hd (rev s) = last s" if "s \<noteq> []" using that by (simp add: hd_rev)
  then have "dropWhile (\<lambda>c. c \<in> set cs) (rev s) = rev s" using a by (intro d) auto
  moreover have "dropWhile (\<lambda>c. c \<in> set cs) s = s" using a by (intro d) auto
  ultimately show ?thesis by (simp add: trim_def trim_left_def trim_right_def)
qed


section \<open>Trimming and lower case together\<close>

lemma strip_suffix: "\<exists>t. s = t @ strip rs s"
proof (induction rs s rule: strip.induct)
  case (2 rs c s)
  show ?case
  proof (cases "find (\<lambda>r. has_prefix (c # s) r) rs")
    case (Some r)
    show ?thesis
    proof (cases r)
      case (Cons x r')
      with 2 [OF Some Cons] obtain t where "drop (length r') s = t @ strip rs (drop (length r') s)" by blast
      then have "c # s = (c # take (length r') s @ t) @ strip rs (drop (length r') s)"
        by (metis append.assoc append_Cons append_take_drop_id)
      moreover have "strip rs (c # s) = strip rs (drop (length r') s)" using Some Cons by simp
      ultimately show ?thesis by metis
    qed (use Some in simp)
  qed simp
qed simp

lemma strip_done:
  "\<forall>r\<in>set rs. r \<noteq> [] \<Longrightarrow> r \<in> set rs \<Longrightarrow> \<not> has_prefix (strip rs s) r"
proof (induction rs s rule: strip.induct)
  case (1 rs)
  then show ?case by (auto simp: has_prefix_iff)
next
  case (2 rs c s)
  show ?case
  proof (cases "find (\<lambda>r. has_prefix (c # s) r) rs")
    case None
    then have "strip rs (c # s) = c # s" by simp
    with None 2(3) show ?thesis by (simp only: find_None_iff) blast
  next
    case (Some q)
    then have "q \<in> set rs" by (auto simp: find_Some_iff)
    with 2(2) obtain x q' where q: "q = x # q'" by (cases q) auto
    from 2(1) [OF Some q 2(2,3)] show ?thesis using Some q by simp
  qed
qed

lemma strip_fixed: "\<forall>r\<in>set rs. \<not> has_prefix s r \<Longrightarrow> strip rs s = s"
proof (cases s)
  case (Cons c t)
  assume "\<forall>r\<in>set rs. \<not> has_prefix s r"
  then have "find (\<lambda>r. has_prefix (c # t) r) rs = None" using Cons by (simp add: find_None_iff)
  then show ?thesis using Cons by simp
qed simp

lemma trim_space_idem: "trim_space (trim_space s) = trim_space s"
proof -
  let ?S = space_runes and ?R = "map rev space_runes"
  have ne: "\<forall>r\<in>set ?S. r \<noteq> []" "\<forall>r\<in>set ?R. r \<noteq> []" using space_runes_not_solid by auto
  define a where "a = strip ?S s"
  define b where "b = rev (strip ?R (rev a))"
  have tb: "trim_space s = b" by (simp add: trim_space_def a_def b_def)
  obtain t where "rev a = t @ rev b" using strip_suffix [of "rev a" ?R] by (auto simp: b_def)
  then have ab: "a = b @ rev t" by (metis rev_append rev_rev_ident)
  have "strip ?S b = b"
  proof (rule strip_fixed, intro ballI notI)
    fix r assume r: "r \<in> set ?S" and "has_prefix b r"
    then have "has_prefix a r" by (auto simp: ab has_prefix_iff)
    with r ne(1) show False using strip_done [of ?S r s] by (simp add: a_def)
  qed
  moreover have "strip ?R (rev b) = rev b"
    using strip_done [OF ne(2)] by (intro strip_fixed) (simp add: b_def)
  ultimately show ?thesis by (simp add: tb) (simp add: trim_space_def)
qed

lemma lower_char_idem [simp]: "lower_char (lower_char c) = lower_char c"
  by (auto simp: lower_char_def byte_def)

lemma to_lower_idem [simp]: "to_lower (to_lower s) = to_lower s"
  by (simp add: to_lower_def)

text \<open>No space rune holds a letter, so lower case commutes with trimming.\<close>

definition caseless :: "char \<Rightarrow> bool" where
  "caseless c \<longleftrightarrow> \<not> (65 \<le> byte c \<and> byte c \<le> 90) \<and> \<not> (97 \<le> byte c \<and> byte c \<le> 122)"

lemma caseless_lower: "caseless c \<Longrightarrow> lower_char x = c \<longleftrightarrow> x = c"
  by (auto simp: caseless_def lower_char_def byte_def)

lemma space_runes_caseless: "r \<in> set space_runes \<Longrightarrow> \<forall>c\<in>set r. caseless c"
proof -
  have "list_all (list_all caseless) space_runes" by code_simp
  then show "r \<in> set space_runes \<Longrightarrow> \<forall>c\<in>set r. caseless c" by (auto simp: list_all_iff)
qed

lemma map_lower_eq: "\<forall>c\<in>set r. caseless c \<Longrightarrow> map lower_char t = r \<longleftrightarrow> t = r"
proof (induction r arbitrary: t)
  case (Cons c r)
  then show ?case by (cases t) (auto simp: caseless_lower)
qed simp

lemma has_prefix_lower: "\<forall>c\<in>set r. caseless c \<Longrightarrow> has_prefix (map lower_char s) r = has_prefix s r"
  by (simp add: has_prefix_def take_map map_lower_eq)

lemma strip_lower:
  "\<forall>r\<in>set rs. \<forall>c\<in>set r. caseless c \<Longrightarrow> strip rs (map lower_char s) = map lower_char (strip rs s)"
proof (induction rs s rule: strip.induct)
  case (2 rs c s)
  have "find (\<lambda>r. has_prefix (map lower_char (c # s)) r) rs = find (\<lambda>r. has_prefix (c # s) r) rs"
    using 2(2) has_prefix_lower [of _ "c # s"] by (intro find_cong) auto
  then show ?case using 2 by (auto simp: drop_map split: option.split list.split)
qed simp

lemma trim_space_lower: "trim_space (to_lower s) = to_lower (trim_space s)"
  using space_runes_caseless strip_lower [of space_runes s]
    strip_lower [of "map rev space_runes" "rev (strip space_runes s)"]
  by (simp add: trim_space_def to_lower_def rev_map)

end
