(* ===== verification/Storage_Input.thy ===== *)
theory Storage_Input
  imports Go_Strings
begin

text \<open>
  The input checks every storage backend shares (storage/internal/util.go) and the Range header
  of the directory backend (storage/dir/range.go): bucket names, object keys, list limits, write
  conditions, the declared body length, and byte ranges with int64 saturation.
\<close>

section \<open>Bucket names\<close>

definition invalid_bucket_prefixes :: "string list" where
  "invalid_bucket_prefixes = [''xn--'', ''sthree-'', ''amzn-s3-demo-'']"

definition invalid_bucket_suffixes :: "string list" where
  "invalid_bucket_suffixes = [''-s3alias'', ''--ol-s3'', ''.mrap'', ''--x-s3'', ''--table-s3'', ''-an'']"

definition is_alnum :: "char \<Rightarrow> bool" where
  "is_alnum c \<longleftrightarrow> (97 \<le> byte c \<and> byte c \<le> 122) \<or> is_digit c"

definition has_invalid_bytes :: "string \<Rightarrow> bool" where
  "has_invalid_bytes name \<longleftrightarrow> list_ex (\<lambda>c. \<not> is_alnum c \<and> c \<noteq> CHR ''.'' \<and> c \<noteq> CHR ''-'') name"

definition has_invalid_prefix :: "string \<Rightarrow> bool" where
  "has_invalid_prefix name \<longleftrightarrow> list_ex (has_prefix name) invalid_bucket_prefixes"

definition has_invalid_suffix :: "string \<Rightarrow> bool" where
  "has_invalid_suffix name \<longleftrightarrow> list_ex (has_suffix name) invalid_bucket_suffixes"

text \<open>The regular expression of ipLike: four runs of digits between dots.\<close>

definition ip_like :: "string \<Rightarrow> bool" where
  "ip_like name \<longleftrightarrow> length (split_at (CHR ''.'') name) = 4 \<and>
     list_all (\<lambda>part. part \<noteq> [] \<and> list_all is_digit part) (split_at (CHR ''.'') name)"

definition is_valid_bucket_name :: "string \<Rightarrow> bool" where
  "is_valid_bucket_name name =
     (if length name < 3 \<or> length name > 63 then False
      else if \<not> is_alnum (hd name) \<or> \<not> is_alnum (last name) then False
      else if contains name ''..'' then False
      else if has_invalid_bytes name then False
      else if has_invalid_prefix name then False
      else if has_invalid_suffix name then False
      else if ip_like name then False
      else True)"

section \<open>Object keys\<close>

text \<open>utf8.ValidString.\<close>

definition cont :: "char \<Rightarrow> bool" where
  "cont c \<longleftrightarrow> 128 \<le> byte c \<and> byte c \<le> 191"

fun valid_utf8 :: "string \<Rightarrow> bool" where
  "valid_utf8 [] = True"
| "valid_utf8 (a # s) =
     (if byte a < 128 then valid_utf8 s
      else (case s of
              [] \<Rightarrow> False
            | b # s2 \<Rightarrow>
                if 194 \<le> byte a \<and> byte a \<le> 223 then cont b \<and> valid_utf8 s2
                else (case s2 of
                        [] \<Rightarrow> False
                      | c # s3 \<Rightarrow>
                          if 224 \<le> byte a \<and> byte a \<le> 239
                          then cont b \<and> cont c \<and> (byte a = 224 \<longrightarrow> 160 \<le> byte b) \<and>
                               (byte a = 237 \<longrightarrow> byte b \<le> 159) \<and> valid_utf8 s3
                          else (case s3 of
                                  [] \<Rightarrow> False
                                | d # s4 \<Rightarrow>
                                    240 \<le> byte a \<and> byte a \<le> 244 \<and> cont b \<and> cont c \<and> cont d \<and>
                                    (byte a = 240 \<longrightarrow> 144 \<le> byte b) \<and> (byte a = 244 \<longrightarrow> byte b \<le> 143) \<and>
                                    valid_utf8 s4))))"

text \<open>path.Clean and path.Base of package path.\<close>

fun clean_elems :: "bool \<Rightarrow> string list \<Rightarrow> string list \<Rightarrow> string list" where
  "clean_elems rooted out [] = out"
| "clean_elems rooted out (e # es) =
     (if e = '''' \<or> e = ''.'' then clean_elems rooted out es
      else if e = ''..'' then
        (if out \<noteq> [] \<and> last out \<noteq> ''..'' then clean_elems rooted (butlast out) es
         else if rooted then clean_elems rooted out es
         else clean_elems rooted (out @ [e]) es)
      else clean_elems rooted (out @ [e]) es)"

definition path_clean :: "string \<Rightarrow> string" where
  "path_clean p =
     (let rooted = has_prefix p ''/'';
          s = (if rooted then ''/'' else '''') @ join_with ''/'' (clean_elems rooted [] (split_at (CHR ''/'') p))
      in if s = '''' then ''.'' else s)"

definition path_base :: "string \<Rightarrow> string" where
  "path_base p =
     (if p = '''' then ''.''
      else (let q = trim_right ''/'' p in
            if q = '''' then ''/'' else last (split_at (CHR ''/'') q)))"

definition is_valid_object_key :: "string \<Rightarrow> bool" where
  "is_valid_object_key key =
     (if length key < 1 \<or> length key > 1024 then False
      else if \<not> valid_utf8 key then False
      else if path_base key = ''.'' \<or> path_clean key = ''.'' then False
      else True)"

section \<open>Inputs\<close>

datatype storage_err =
    ErrInvalidKey | ErrInvalidBucket | ErrInvalidLimit | ErrInvalidContinuationToken
  | ErrInvalidCondition string | ErrInvalidRange | ErrContentLengthMismatch string

definition resolve_bucket :: "string option \<Rightarrow> string \<Rightarrow> (storage_err, string) result" where
  "resolve_bucket bucket cfg =
     (case bucket of
        Some b \<Rightarrow> if \<not> is_valid_bucket_name b then Inl ErrInvalidBucket else Inr b
      | None \<Rightarrow> if is_valid_bucket_name cfg then Inr cfg else Inl ErrInvalidBucket)"

definition validate_input :: "string \<Rightarrow> string option \<Rightarrow> string \<Rightarrow> (storage_err, string) result" where
  "validate_input key bucket cfg =
     (if \<not> is_valid_object_key key then Inl ErrInvalidKey else resolve_bucket bucket cfg)"

definition max_list_keys :: int where "max_list_keys = 1000"
definition max_list_buckets :: int where "max_list_buckets = 10000"

definition validate_list_objects ::
  "string option \<Rightarrow> int option \<Rightarrow> string option \<Rightarrow> string \<Rightarrow> (storage_err, string \<times> int) result" where
  "validate_list_objects bucket max_keys token cfg =
     (case resolve_bucket bucket cfg of
        Inl e \<Rightarrow> Inl e
      | Inr b \<Rightarrow>
          if (case max_keys of Some k \<Rightarrow> k < 1 | None \<Rightarrow> False) then Inl ErrInvalidLimit
          else if token = Some '''' then Inl ErrInvalidContinuationToken
          else Inr (b, case max_keys of Some k \<Rightarrow> min k max_list_keys | None \<Rightarrow> max_list_keys))"

definition validate_list_buckets :: "int option \<Rightarrow> string option \<Rightarrow> (storage_err, int) result" where
  "validate_list_buckets max_buckets token =
     (if (case max_buckets of Some k \<Rightarrow> k < 1 \<or> k > max_list_buckets | None \<Rightarrow> False) then Inl ErrInvalidLimit
      else if token = Some '''' then Inl ErrInvalidContinuationToken
      else Inr (case max_buckets of Some k \<Rightarrow> k | None \<Rightarrow> max_list_buckets))"

definition unquote :: "string \<Rightarrow> string" where
  "unquote s = (if length s \<ge> 2 \<and> hd s = CHR 0x22 \<and> last s = CHR 0x22
                then take (length s - 2) (drop 1 s) else s)"

definition validate_condition :: "string option \<Rightarrow> string option \<Rightarrow> (storage_err, string) result" where
  "validate_condition if_match if_none_match =
     (if if_match \<noteq> None \<and> if_none_match \<noteq> None then Inl (ErrInvalidCondition ''both'')
      else if (case if_none_match of Some v \<Rightarrow> v \<noteq> ''*'' | None \<Rightarrow> False)
        then Inl (ErrInvalidCondition ''IfNoneMatch'')
      else (case if_match of
              None \<Rightarrow> Inr ''''
            | Some v \<Rightarrow> (let etag = unquote v in
                if etag = '''' \<or> etag = ''*'' then Inl (ErrInvalidCondition ''IfMatch'') else Inr etag)))"

section \<open>Byte ranges\<close>

definition max_int64 :: int where "max_int64 = 2 ^ 63 - 1"

fun parse_digits_loop :: "int \<Rightarrow> string \<Rightarrow> int option" where
  "parse_digits_loop n [] = Some n"
| "parse_digits_loop n (c # s) =
     (if \<not> is_digit c then None
      else (let d = int (byte c) - 48 in
            if n > (max_int64 - d) div 10 then parse_digits_loop max_int64 s
            else parse_digits_loop (n * 10 + d) s))"

definition parse_digits :: "string \<Rightarrow> int option" where
  "parse_digits s = (if s = '''' then None else parse_digits_loop 0 s)"

definition digits_less :: "string \<Rightarrow> string \<Rightarrow> bool" where
  "digits_less a b =
     (let a' = trim_left ''0'' a; b' = trim_left ''0'' b
      in if length a' \<noteq> length b' then length a' < length b' else str_less a' b')"

definition suffix_range :: "string \<Rightarrow> int \<Rightarrow> (storage_err, int \<times> int) result" where
  "suffix_range last_str sz =
     (case parse_digits last_str of
        None \<Rightarrow> Inr (0, sz)
      | Some suffix \<Rightarrow>
          if suffix = 0 then Inl ErrInvalidRange
          else (let n = min suffix sz in Inr (sz - n, n)))"

definition first_last_range :: "string \<Rightarrow> string \<Rightarrow> int \<Rightarrow> (storage_err, int \<times> int) result" where
  "first_last_range first_str last_str sz =
     (case parse_digits first_str of
        None \<Rightarrow> Inr (0, sz)
      | Some first \<Rightarrow>
          if last_str \<noteq> '''' \<and> (parse_digits last_str = None \<or> digits_less last_str first_str) then Inr (0, sz)
          else if first \<ge> sz then Inl ErrInvalidRange
          else (let l = (if last_str \<noteq> '''' then the (parse_digits last_str) else -1);
                    l' = (if l < 0 \<or> l \<ge> sz then sz - 1 else l)
                in Inr (first, l' - first + 1)))"

definition parse_byte_range :: "string \<Rightarrow> int \<Rightarrow> (storage_err, int \<times> int) result" where
  "parse_byte_range header sz =
     (case cut (CHR ''='') (trim (map char_of [32 :: nat, 9]) header) of
        None \<Rightarrow> Inr (0, sz)
      | Some (unit, spec) \<Rightarrow>
          if \<not> equal_fold unit ''bytes'' then Inr (0, sz)
          else (case cut (CHR ''-'') spec of
                  None \<Rightarrow> Inr (0, sz)
                | Some (first_str, last_str) \<Rightarrow>
                    if first_str = '''' then suffix_range last_str sz
                    else first_last_range first_str last_str sz))"

section \<open>The declared body length\<close>

text \<open>
  An io.Reader over a state: a Read of at most k bytes gives the count, the bytes and an error.
\<close>

datatype body_err = BodyEOF | BodyFailed string

type_synonym 's io_reader = "nat \<Rightarrow> 's \<Rightarrow> int \<times> string \<times> body_err option \<times> 's"

datatype read_err = EOF | Short int int | TooLong int | ReadBody string | InvalidCount int | NoProgress

definition is_mismatch :: "read_err \<Rightarrow> bool" where
  "is_mismatch e \<longleftrightarrow> (case e of Short _ _ \<Rightarrow> True | TooLong _ \<Rightarrow> True | _ \<Rightarrow> False)"

record 's length_reader =
  lr_r :: 's
  lr_err :: "read_err option"
  lr_want :: int
  lr_read :: int

definition check_length :: "'s \<Rightarrow> int option \<Rightarrow> (storage_err, 's + 's length_reader) result" where
  "check_length body n =
     (case n of
        None \<Rightarrow> Inr (Inl body)
      | Some k \<Rightarrow>
          if k < 0 then Inl (ErrContentLengthMismatch ''negative'')
          else Inr (Inr \<lparr>lr_r = body, lr_err = None, lr_want = k, lr_read = 0\<rparr>))"

fun probe_loop :: "nat \<Rightarrow> 's io_reader \<Rightarrow> int \<Rightarrow> 's \<Rightarrow> read_err \<times> 's" where
  "probe_loop 0 rd want s = (NoProgress, s)"
| "probe_loop (Suc k) rd want s =
     (case rd 1 s of (n, bs, err, s') \<Rightarrow>
        if n < 0 \<or> n > 1 then (InvalidCount n, s')
        else if n > 0 then (TooLong want, s')
        else (case err of
                Some BodyEOF \<Rightarrow> (EOF, s')
              | Some (BodyFailed e) \<Rightarrow> (ReadBody e, s')
              | None \<Rightarrow> probe_loop k rd want s'))"

definition max_zero_reads :: nat where "max_zero_reads = 100"

definition probe :: "'s io_reader \<Rightarrow> 's length_reader \<Rightarrow> 's length_reader" where
  "probe rd l = (case probe_loop max_zero_reads rd (lr_want l) (lr_r l) of
     (e, s) \<Rightarrow> l\<lparr>lr_err := Some e, lr_r := s\<rparr>)"

definition settle ::
  "'s io_reader \<Rightarrow> string \<Rightarrow> body_err option \<Rightarrow> 's length_reader \<Rightarrow> string \<times> read_err option \<times> 's length_reader"
where
  "settle rd bs err l =
     (if err = Some BodyEOF \<and> lr_read l < lr_want l then
        (let l' = l\<lparr>lr_err := Some (Short (lr_read l) (lr_want l))\<rparr> in (bs, lr_err l', l'))
      else (case err of
              Some (BodyFailed e) \<Rightarrow> (let l' = l\<lparr>lr_err := Some (ReadBody e)\<rparr> in (bs, lr_err l', l'))
            | _ \<Rightarrow>
                if lr_read l = lr_want l then
                  (let l' = probe rd l in
                   if is_mismatch (the (lr_err l')) then ('''', lr_err l', l') else (bs, lr_err l', l'))
                else (bs, lr_err l, l)))"

definition lr_read_op ::
  "'s io_reader \<Rightarrow> nat \<Rightarrow> 's length_reader \<Rightarrow> string \<times> read_err option \<times> 's length_reader" where
  "lr_read_op rd plen l =
     (if lr_err l \<noteq> None then ('''', lr_err l, l)
      else if lr_read l = lr_want l then (let l' = probe rd l in ('''', lr_err l', l'))
      else if plen = 0 then ('''', None, l)
      else (let k = (if int plen > lr_want l - lr_read l then nat (lr_want l - lr_read l) else plen) in
            case rd k (lr_r l) of (n, bs, err, s) \<Rightarrow>
              if n < 0 \<or> n > int k then
                (let l' = l\<lparr>lr_r := s, lr_err := Some (InvalidCount n)\<rparr> in ('''', lr_err l', l'))
              else settle rd (take (nat n) bs) err (l\<lparr>lr_r := s, lr_read := lr_read l + n\<rparr>)))"

end
