(* ===== verification/Storage_Properties.thy ===== *)
theory Storage_Properties
  imports Storage_Input
begin

text \<open>
  What the checks guarantee: an accepted bucket name is a single safe path element, a range
  lies inside the object whatever the header says, saturating digits compare like the numbers
  they stand for, and a declared length is enforced on any reader.
\<close>

section \<open>Bucket names\<close>

text \<open>An accepted bucket name is a single harmless path element. It has 3 to 63 bytes, all of
  them lowercase letters, digits, dots and hyphens, so it holds no separator and no NUL; it has
  no ".." in it, it is not shaped like an IPv4 address, and path.Clean leaves it as it is, so
  joined to a root it names exactly one directory below that root.\<close>

theorem bucket_name_safe:
  assumes "is_valid_bucket_name name"
  shows "3 \<le> length name \<and> length name \<le> 63 \<and>
    (\<forall>c \<in> set name. is_alnum c \<or> c = CHR ''.'' \<or> c = CHR ''-'') \<and>
    CHR ''/'' \<notin> set name \<and> CHR 0x00 \<notin> set name \<and>
    \<not> contains name ''..'' \<and> \<not> ip_like name \<and> path_clean name = name"
proof -
  from assms have len: "3 \<le> length name" "length name \<le> 63" and ends: "is_alnum (hd name)"
    and dots: "\<not> contains name ''..''" and ip: "\<not> ip_like name"
    and bytes: "\<forall>c \<in> set name. is_alnum c \<or> c = CHR ''.'' \<or> c = CHR ''-''"
    by (auto simp: is_valid_bucket_name_def has_invalid_bytes_def list_ex_iff split: if_splits)
  have "\<not> is_alnum (CHR ''/'')" "\<not> is_alnum (CHR 0x00)" "\<not> is_alnum (CHR ''.'')" by code_simp+
  with bytes ends have no: "CHR ''/'' \<notin> set name" "CHR 0x00 \<notin> set name" "hd name \<noteq> CHR ''.''" by auto
  from len no(3) have ne: "name \<noteq> ''''" "name \<noteq> ''.''" "name \<noteq> ''..''" by auto
  have "\<not> has_prefix name ''/''" using no(1) by (auto simp: has_prefix_iff)
  then have "path_clean name = name"
    using ne by (simp add: path_clean_def split_at_absent [OF no(1)] Let_def)
  with len bytes no dots ip show ?thesis by blast
qed

theorem bucket_name_safe_witness:
  "is_valid_bucket_name ''my.bucket-1'' \<and> path_clean ''my.bucket-1'' = ''my.bucket-1''"
proof -
  have "is_valid_bucket_name ''my.bucket-1''" by code_simp
  from bucket_name_safe [OF this] this show ?thesis by blast
qed

section \<open>Digits\<close>

definition digits_value :: "string \<Rightarrow> int" where
  "digits_value s = foldl (\<lambda>n c. n * 10 + (int (byte c) - 48)) 0 s"

lemma digit_range: "is_digit c \<Longrightarrow> 0 \<le> int (byte c) - 48 \<and> int (byte c) - 48 \<le> 9"
  by (simp add: is_digit_def)

lemma foldl_digits_mono:
  "list_all is_digit s \<Longrightarrow> 0 \<le> n \<Longrightarrow> n \<le> foldl (\<lambda>n c. n * 10 + (int (byte c) - 48)) n s"
proof (induction s arbitrary: n)
  case Nil
  then show ?case by simp
next
  case (Cons c s)
  from Cons.prems digit_range [of c] have "0 \<le> n * 10 + (int (byte c) - 48)" "n \<le> n * 10 + (int (byte c) - 48)"
    by auto
  with Cons.IH [of "n * 10 + (int (byte c) - 48)"] Cons.prems show ?case by force
qed

lemma foldl_digits_step:
  "foldl (\<lambda>n c. n * 10 + (int (byte c) - 48)) n s = n * 10 ^ length s + digits_value s"
proof (induction s arbitrary: n)
  case Nil
  then show ?case by (simp add: digits_value_def)
next
  case (Cons c s)
  have "digits_value (c # s) = (int (byte c) - 48) * 10 ^ length s + digits_value s"
    unfolding digits_value_def using Cons [of "int (byte c) - 48"] by (simp add: digits_value_def)
  with Cons [of "n * 10 + (int (byte c) - 48)"] show ?case by (simp add: algebra_simps)
qed

lemma digits_value_Cons:
  "digits_value (c # s) = (int (byte c) - 48) * 10 ^ length s + digits_value s"
  using foldl_digits_step [of "int (byte c) - 48" s] by (simp add: digits_value_def)

lemma digits_value_bound: "list_all is_digit s \<Longrightarrow> 0 \<le> digits_value s \<and> digits_value s < 10 ^ length s"
proof (induction s)
  case Nil
  then show ?case by (simp add: digits_value_def)
next
  case (Cons c s)
  with digit_range [of c] have d: "0 \<le> int (byte c) - 48" "int (byte c) - 48 \<le> 9" by auto
  then have "(int (byte c) - 48) * 10 ^ length s \<le> 9 * 10 ^ length s" by (intro mult_right_mono) auto
  moreover have "0 \<le> (int (byte c) - 48) * 10 ^ length s" using d by simp
  moreover have "0 \<le> digits_value s \<and> digits_value s < 10 ^ length s" using Cons by simp
  moreover have "(10::int) ^ length (c # s) = 9 * 10 ^ length s + 10 ^ length s" by simp
  ultimately show ?case unfolding digits_value_Cons by linarith
qed

text \<open>Saturation gives the value, capped at the largest int64.\<close>

lemma parse_digits_loop_value:
  "list_all is_digit s \<Longrightarrow> 0 \<le> n \<Longrightarrow> n \<le> max_int64 \<Longrightarrow>
     parse_digits_loop n s = Some (min (foldl (\<lambda>n c. n * 10 + (int (byte c) - 48)) n s) max_int64)"
proof (induction s arbitrary: n)
  case Nil
  then show ?case by simp
next
  case (Cons c s)
  define d where "d = int (byte c) - 48"
  have d: "0 \<le> d" "d \<le> 9" using Cons.prems digit_range [of c] by (simp_all add: d_def)
  have all: "list_all is_digit s" "is_digit c" using Cons.prems by simp_all
  show ?case
  proof (cases "n > (max_int64 - d) div 10")
    case True
    then have big: "n * 10 + d > max_int64" by linarith
    have "max_int64 \<le> foldl (\<lambda>n c. n * 10 + (int (byte c) - 48)) max_int64 s"
      by (rule foldl_digits_mono [OF all(1)]) (simp add: max_int64_def)
    moreover have "n * 10 + d \<le> foldl (\<lambda>n c. n * 10 + (int (byte c) - 48)) (n * 10 + d) s"
      using Cons.prems d by (intro foldl_digits_mono [OF all(1)]) simp
    ultimately show ?thesis
      using Cons.IH [OF all(1), of max_int64] True all big
      by (simp add: d_def [symmetric] Let_def max_int64_def)
  next
    case False
    then have "n * 10 + d \<le> max_int64" by linarith
    with Cons.IH [OF all(1), of "n * 10 + d"] False all Cons.prems d show ?thesis
      by (simp add: d_def [symmetric] Let_def)
  qed
qed

lemma parse_digits_loop_digits: "parse_digits_loop n s \<noteq> None \<longleftrightarrow> list_all is_digit s"
  by (induction s arbitrary: n) (auto simp: Let_def)

lemma parse_digits_value:
  "parse_digits s = (if s \<noteq> '''' \<and> list_all is_digit s then Some (min (digits_value s) max_int64) else None)"
proof (cases "s \<noteq> '''' \<and> list_all is_digit s")
  case True
  then show ?thesis
    using parse_digits_loop_value [of s 0] by (simp add: parse_digits_def digits_value_def max_int64_def)
next
  case False
  then show ?thesis using parse_digits_loop_digits [of 0 s] by (auto simp: parse_digits_def)
qed

lemma digits_value_trim: "digits_value (trim_left ''0'' s) = digits_value s"
proof (induction s)
  case (Cons c s)
  have "byte (CHR ''0'') = 48" by (simp add: byte_def)
  with Cons show ?case by (auto simp: trim_left_def digits_value_Cons)
qed (simp add: trim_left_def)

lemma trim_left_digits: "list_all is_digit s \<Longrightarrow> list_all is_digit (trim_left cs s)"
  by (simp add: trim_left_def list_all_iff) (meson set_dropWhileD)

lemma trim_left_zero: "trim_left ''0'' s = [] \<or> hd (trim_left ''0'' s) \<noteq> CHR ''0''"
  using hd_dropWhile [of "\<lambda>c. c \<in> set ''0''" s] by (auto simp: trim_left_def)

lemma leading_digit:
  assumes "list_all is_digit s" and "s \<noteq> []" and "hd s \<noteq> CHR ''0''"
  shows "10 ^ (length s - 1) \<le> digits_value s"
proof -
  from assms(2) obtain c t where s: "s = c # t" by (cases s) auto
  have z: "byte (CHR ''0'') = 48" by (simp add: byte_def)
  with assms s have "byte c \<noteq> 48" using byte_inj by (metis list.sel(1))
  with assms s digit_range [of c] have "1 \<le> int (byte c) - 48" by (auto simp: is_digit_def)
  then have "1 * 10 ^ length t \<le> (int (byte c) - 48) * 10 ^ length t" by (intro mult_right_mono) auto
  moreover have "0 \<le> digits_value t" using digits_value_bound [of t] assms(1) s by simp
  moreover have "(10::int) ^ (length s - 1) = 1 * 10 ^ length t" using s by simp
  ultimately show ?thesis unfolding s digits_value_Cons by linarith
qed

lemma str_less_digits:
  "list_all is_digit a \<Longrightarrow> list_all is_digit b \<Longrightarrow> length a = length b \<Longrightarrow>
     str_less a b \<longleftrightarrow> digits_value a < digits_value b"
proof (induction a arbitrary: b)
  case Nil
  then show ?case by (simp add: digits_value_def)
next
  case (Cons x a)
  then obtain y b' where b: "b = y # b'" by (cases b) auto
  let ?p = "(10::int) ^ length a"
  have len: "length b' = length a" and da: "list_all is_digit a" and db: "list_all is_digit b'"
    using Cons.prems b by simp_all
  note ba = digits_value_bound [OF da] and bb = digits_value_bound [OF db, unfolded len]
  show ?case
  proof (cases "byte x = byte y")
    case True
    then have "x = y" by (simp add: byte_inj)
    with Cons.IH [OF da db] len b show ?thesis by (simp add: digits_value_Cons)
  next
    case False
    have lt: "digits_value (u # s) < digits_value (v # t)"
      if "byte u < byte v" "0 \<le> digits_value t" "digits_value s < ?p" "length s = length a" "length t = length a" for u v s t
    proof -
      have "(int (byte u) - 48 + 1) * ?p \<le> (int (byte v) - 48) * ?p"
        using that(1) by (intro mult_right_mono) auto
      with that show ?thesis by (simp add: digits_value_Cons algebra_simps)
    qed
    show ?thesis
    proof (cases "byte x < byte y")
      case True
      then show ?thesis using lt [OF True] ba bb len b by simp
    next
      case False2: False
      with False have gt: "byte y < byte x" by simp
      have "x \<noteq> y" using False by auto
      have "digits_value (y # b') < digits_value (x # a)" using lt [OF gt] ba bb len by simp
      then have "\<not> digits_value (x # a) < digits_value (y # b')" by linarith
      then show ?thesis using b False2 \<open>x \<noteq> y\<close> by simp
    qed
  qed
qed

lemma digits_less_value:
  assumes "list_all is_digit a" and "list_all is_digit b"
  shows "digits_less a b \<longleftrightarrow> digits_value a < digits_value b"
proof -
  let ?a = "trim_left ''0'' a" and ?b = "trim_left ''0'' b"
  have d: "list_all is_digit ?a" "list_all is_digit ?b" using assms trim_left_digits by blast+
  have shorter: "digits_value s < digits_value t"
    if "list_all is_digit s" "list_all is_digit t" "length s < length t" "hd t \<noteq> CHR ''0''" for s t
  proof -
    have "digits_value s < 10 ^ length s" using digits_value_bound [OF that(1)] by simp
    also have "\<dots> \<le> 10 ^ (length t - 1)" using that(3) by (intro power_increasing) auto
    also have "\<dots> \<le> digits_value t" using leading_digit [OF that(2) _ that(4)] that(3) by fastforce
    finally show ?thesis .
  qed
  show ?thesis
  proof (cases "length ?a = length ?b")
    case True
    then show ?thesis using str_less_digits [OF d True] by (simp add: digits_less_def digits_value_trim)
  next
    case False
    have "length ?a < length ?b \<longleftrightarrow> digits_value ?a < digits_value ?b"
    proof (cases "length ?a < length ?b")
      case True
      then have "?b \<noteq> []" by auto
      with True shorter [OF d True] trim_left_zero [of b] show ?thesis by auto
    next
      case lt: False
      with False have "length ?b < length ?a" by simp
      moreover from this have "?a \<noteq> []" by auto
      ultimately show ?thesis using shorter [OF d(2,1)] trim_left_zero [of a] lt by fastforce
    qed
    with False show ?thesis by (simp add: digits_less_def digits_value_trim Let_def)
  qed
qed
section \<open>Byte ranges\<close>

lemma suffix_range_within:
  "suffix_range l sz = Inr (off, len) \<Longrightarrow> 0 \<le> sz \<Longrightarrow> 0 \<le> off \<and> 0 \<le> len \<and> off + len \<le> sz"
  using digits_value_bound [of l]
  by (auto simp: suffix_range_def parse_digits_value Let_def max_int64_def split: if_splits)

lemma first_last_range_within:
  assumes "first_last_range f l sz = Inr (off, len)" and "0 \<le> sz"
  shows "0 \<le> off \<and> 0 \<le> len \<and> off + len \<le> sz"
proof (cases "parse_digits f")
  case None
  with assms show ?thesis by (simp add: first_last_range_def)
next
  case (Some n)
  then have f: "list_all is_digit f" "n = min (digits_value f) max_int64"
    by (auto simp: parse_digits_value split: if_splits)
  then have n: "0 \<le> n" using digits_value_bound [of f] by (simp add: max_int64_def)
  show ?thesis
  proof (cases "l \<noteq> '''' \<and> (parse_digits l = None \<or> digits_less l f)")
    case True
    with assms Some show ?thesis by (auto simp: first_last_range_def)
  next
    case False
    with assms Some have "n < sz" by (auto simp: first_last_range_def split: if_splits)
    have "n \<le> the (parse_digits l)" if "l \<noteq> ''''"
    proof -
      from False that have dl: "list_all is_digit l" and v: "parse_digits l = Some (min (digits_value l) max_int64)"
        by (auto simp: parse_digits_value split: if_splits)
      have "digits_value f \<le> digits_value l" using False that digits_less_value [OF dl f(1)] by simp
      then show ?thesis using v f(2) by simp
    qed
    with assms Some False n \<open>n < sz\<close> show ?thesis
      by (auto simp: first_last_range_def Let_def split: if_splits)
  qed
qed

text \<open>A Range header never selects bytes outside the object. For any header, however long its
  numbers, an accepted range has a non-negative offset and length and ends inside the object;
  the only error is the unsatisfiable range.\<close>

theorem byte_range_within:
  assumes "0 \<le> sz" and "parse_byte_range header sz = r"
  shows "(\<forall>off len. r = Inr (off, len) \<longrightarrow> 0 \<le> off \<and> 0 \<le> len \<and> off + len \<le> sz) \<and>
    (\<forall>e. r = Inl e \<longrightarrow> e = ErrInvalidRange)"
proof (intro conjI allI impI)
  fix off len
  assume "r = Inr (off, len)"
  with assms show "0 \<le> off" "0 \<le> len" "off + len \<le> sz"
    using suffix_range_within first_last_range_within
    by (auto simp: parse_byte_range_def split: option.splits if_splits)
next
  fix e
  assume "r = Inl e"
  with assms show "e = ErrInvalidRange"
    by (auto simp: parse_byte_range_def suffix_range_def first_last_range_def Let_def
        split: option.splits if_splits)
qed

theorem byte_range_within_witness:
  "parse_byte_range '' Bytes=2-99999999999999999999'' 10 = Inr (2, 8) \<and> 0 \<le> (2::int) \<and> 2 + 8 \<le> (10::int)"
proof -
  have r: "parse_byte_range '' Bytes=2-99999999999999999999'' 10 = Inr (2, 8)" by code_simp
  from byte_range_within [OF _ r] r show ?thesis by simp
qed

lemma range_header:
  assumes "list_all is_digit a" and "list_all is_digit b" and "b \<noteq> []"
  shows "parse_byte_range (''bytes='' @ a @ ''-'' @ b) sz =
    (if a = '''' then suffix_range b sz else first_last_range a b sz)"
proof -
  let ?h = "''bytes='' @ a @ ''-'' @ b"
  have nd: "\<not> is_digit (char_of (32::nat))" "\<not> is_digit (char_of (9::nat))" "\<not> is_digit (CHR ''-'')"
    by code_simp+
  have "is_digit (last b)" using assms(2,3) by (simp add: list_all_iff)
  then have l: "last ?h \<notin> set (map char_of [32 :: nat, 9])" using nd assms(3) by auto
  have "CHR ''b'' \<notin> set (map char_of [32 :: nat, 9])" by code_simp
  then have h: "hd ?h \<notin> set (map char_of [32 :: nat, 9])" by simp
  have t: "trim (map char_of [32 :: nat, 9]) ?h = ?h" by (rule trim_id) (use l h in blast)
  have c1: "cut (CHR ''='') ?h = Some (''bytes'', a @ ''-'' @ b)" by (simp add: cut_Some)
  have "CHR ''-'' \<notin> set a" using assms(1) nd(3) by (auto simp: list_all_iff)
  then have c2: "cut (CHR ''-'') (a @ ''-'' @ b) = Some (a, b)" by (simp add: cut_Some)
  show ?thesis unfolding parse_byte_range_def t c1 option.case prod.case c2 by (simp add: equal_fold_def)
qed



section \<open>The declared length\<close>

text \<open>bytes.Reader, and a caller that reads with the given buffer sizes until an error.\<close>

definition mem_reader :: "string io_reader" where
  "mem_reader k s = (int (min k (length s)), take k s, if s = [] then Some BodyEOF else None, drop k s)"

fun read_seq :: "'s io_reader \<Rightarrow> nat list \<Rightarrow> 's length_reader \<Rightarrow> string \<times> read_err option" where
  "read_seq rd [] l = ([], None)"
| "read_seq rd (p # ps) l =
     (case lr_read_op rd p l of (bs, err, l') \<Rightarrow>
        if err \<noteq> None then (bs, err)
        else (case read_seq rd ps l' of (cs, e) \<Rightarrow> (bs @ cs, e)))"

lemma probe_mem:
  "lr_err (probe mem_reader l) = Some (if lr_r l = [] then EOF else TooLong (lr_want l))"
proof -
  obtain k where k: "max_zero_reads = Suc k" by (simp add: max_zero_reads_def)
  show ?thesis
    by (cases "lr_r l") (simp_all add: probe_def k mem_reader_def)
qed

lemma read_step_mem:
  fixes s :: string
  assumes "p > 0" and "0 \<le> r" and "r \<le> want"
  defines "l \<equiv> \<lparr>lr_r = s, lr_err = None, lr_want = want, lr_read = r\<rparr>"
  obtains (ended) "r = want" "s = []" "\<exists>l'. lr_read_op mem_reader p l = ([], Some EOF, l')"
    | (extra) "r = want" "s \<noteq> []" "\<exists>l'. lr_read_op mem_reader p l = ([], Some (TooLong want), l')"
    | (short) "r < want" "s = []" "\<exists>l'. lr_read_op mem_reader p l = ([], Some (Short r want), l')"
    | (last) bs where "s = bs" "bs \<noteq> []" "r + int (length bs) = want"
        "\<exists>l'. lr_read_op mem_reader p l = (bs, Some EOF, l')"
    | (withheld) bs t where "s = bs @ t" "bs \<noteq> []" "t \<noteq> []" "r + int (length bs) = want"
        "\<exists>l'. lr_read_op mem_reader p l = ([], Some (TooLong want), l')"
    | (more) bs t where "s = bs @ t" "bs \<noteq> []" "r + int (length bs) < want"
        "lr_read_op mem_reader p l =
           (bs, None, \<lparr>lr_r = t, lr_err = None, lr_want = want, lr_read = r + int (length bs)\<rparr>)"
proof (cases "r = want")
  case True
  then have "lr_read_op mem_reader p l = ([], Some (if s = [] then EOF else TooLong want), probe mem_reader l)"
    by (simp add: lr_read_op_def l_def Let_def probe_mem)
  then show thesis using True ended extra by (cases "s = []") auto
next
  case False
  with assms have r: "r < want" by simp
  define k where "k = (if int p > want - r then nat (want - r) else p)"
  have k: "k > 0" "int k \<le> want - r" using r assms(1) by (auto simp: k_def)
  let ?n = "min k (length s)"
  have op: "lr_read_op mem_reader p l =
      settle mem_reader (take k s) (if s = [] then Some BodyEOF else None)
        \<lparr>lr_r = drop k s, lr_err = None, lr_want = want, lr_read = r + int ?n\<rparr>"
  proof -
    have tk: "take (min m (length s)) s = take m s" for m by (simp add: min_def)
    show ?thesis
      using r assms(1)
      by (cases "int p > want - r") (auto simp: lr_read_op_def l_def k_def Let_def mem_reader_def tk)
  qed
  show thesis
  proof (cases "s = []")
    case True
    then show thesis using short op r by (simp add: settle_def Let_def)
  next
    case ne: False
    then have bs: "take k s \<noteq> []" "s = take k s @ drop k s" "length (take k s) = ?n" using k by auto
    show thesis
    proof (cases "r + int ?n = want")
      case True
      have s: "settle mem_reader (take k s) None \<lparr>lr_r = drop k s, lr_err = None, lr_want = want, lr_read = want\<rparr> =
          (if drop k s = [] then (take k s, Some EOF, probe mem_reader \<lparr>lr_r = drop k s, lr_err = None, lr_want = want, lr_read = want\<rparr>)
           else ([], Some (TooLong want), probe mem_reader \<lparr>lr_r = drop k s, lr_err = None, lr_want = want, lr_read = want\<rparr>))"
        by (simp add: settle_def Let_def probe_mem is_mismatch_def)
      show thesis
      proof (cases "drop k s = []")
        case True
        then show thesis using last [of s] op s ne bs \<open>r + int ?n = want\<close> by simp
      next
        case False
        show thesis
          by (rule withheld [of "take k s" "drop k s"]) (use False op s ne bs \<open>r + int ?n = want\<close> in simp_all)
      qed
    next
      case False
      then have "r + int ?n < want" using k by auto
      then show thesis using more [of "take k s" "drop k s"] op ne bs by (simp add: settle_def)
    qed
  qed
qed

lemma read_seq_mem:
  assumes "\<forall>p\<in>set ps. p > 0" and "0 \<le> r" and "r \<le> want"
    and "read_seq mem_reader ps \<lparr>lr_r = s, lr_err = None, lr_want = want, lr_read = r\<rparr> = (out, e)"
  shows "(\<exists>t. s = out @ t) \<and> r + int (length out) \<le> want \<and>
    (e = Some EOF \<longrightarrow> out = s \<and> r + int (length s) = want) \<and>
    (\<forall>x. e = Some x \<longrightarrow> x \<noteq> EOF \<longrightarrow> is_mismatch x \<and> r + int (length s) \<noteq> want) \<and>
    (length ps > length s \<longrightarrow> e \<noteq> None)"
  using assms
proof (induction ps arbitrary: r s out e)
  case Nil
  then show ?case by simp
next
  case (Cons p ps)
  have "p > 0" using Cons.prems(1) by simp
  from this Cons.prems(2,3) show ?case
  proof (cases rule: read_step_mem [where s = s])
    case (more bs t)
    let ?l = "\<lparr>lr_r = t, lr_err = None, lr_want = want, lr_read = r + int (length bs)\<rparr>"
    obtain cs e' where rest: "read_seq mem_reader ps ?l = (cs, e')" by fastforce
    with Cons.prems(4) more(4) have o: "out = bs @ cs" "e = e'" by simp_all
    have "0 \<le> r + int (length bs)" "r + int (length bs) \<le> want" using Cons.prems(2) more(3) by simp_all
    from Cons.IH [OF _ this rest] Cons.prems(1) have IH: "(\<exists>u. t = cs @ u) \<and>
      r + int (length bs) + int (length cs) \<le> want \<and>
      (e' = Some EOF \<longrightarrow> cs = t \<and> r + int (length bs) + int (length t) = want) \<and>
      (\<forall>x. e' = Some x \<longrightarrow> x \<noteq> EOF \<longrightarrow> is_mismatch x \<and> r + int (length bs) + int (length t) \<noteq> want) \<and>
      (length ps > length t \<longrightarrow> e' \<noteq> None)"
      by simp
    obtain b bs' where b: "bs = b # bs'" using more(2) by (cases bs) auto
    from IH show ?thesis by (auto simp: o more(1) b algebra_simps)
  qed (use Cons.prems in \<open>auto simp: is_mismatch_def\<close>)
qed

text \<open>The declared length decides. Reading a body through CheckLength, in buffers of any
  positive sizes, hands out a prefix of the body of at most the declared length; it ends with
  EOF only when the body has exactly that length and all of it was handed out, and with a
  mismatch only when it has not; and with enough reads it does end. A negative length is refused
  before anything is read.\<close>

theorem check_length_enforced:
  assumes "check_length body (Some n) = Inr (Inr l)" and "\<forall>p\<in>set ps. p > 0"
    and "read_seq mem_reader ps l = (out, e)"
  shows "(\<exists>t. body = out @ t) \<and> int (length out) \<le> n \<and>
    (e = Some EOF \<longrightarrow> out = body \<and> int (length body) = n) \<and>
    (\<forall>x. e = Some x \<longrightarrow> x \<noteq> EOF \<longrightarrow> is_mismatch x \<and> int (length body) \<noteq> n) \<and>
    (length ps > length body \<longrightarrow> e \<noteq> None)"
proof -
  from assms(1) have n: "0 \<le> n" and l: "l = \<lparr>lr_r = body, lr_err = None, lr_want = n, lr_read = 0\<rparr>"
    by (auto simp: check_length_def split: if_splits)
  from read_seq_mem [OF assms(2) order.refl n assms(3) [unfolded l]] show ?thesis by simp
qed

theorem check_length_enforced_witness:
  "\<exists>l. check_length ''abcd'' (Some 3) = Inr (Inr l) \<and>
     read_seq mem_reader [2, 2, 2, 2, 2] l = (''ab'', Some (TooLong 3)) \<and> is_mismatch (TooLong 3)"
proof -
  let ?l = "\<lparr>lr_r = ''abcd'', lr_err = None, lr_want = 3, lr_read = 0\<rparr>"
  have c: "check_length ''abcd'' (Some 3) = Inr (Inr ?l)" by (simp add: check_length_def)
  have r: "read_seq mem_reader [2, 2, 2, 2, 2] ?l = (''ab'', Some (TooLong 3))" by code_simp
  from check_length_enforced [OF c _ r] c r show ?thesis by auto
qed

end
