(* ===== verification/Http_Errors.thy ===== *)
theory Http_Errors
  imports Go_Strings
begin

text \<open>
  errors.go and the handler adapter of handler.go: the error value handlers return, how any error
  is coerced to it, content negotiation, the response written, and what a request to a plain or
  a DI-aware handler leads to, panics included. Header maps, the JSON encoder and the logger are
  outside; an error is kept as the chain errors.As walks.
\<close>

section \<open>Errors\<close>

record field_error =
  fe_field :: string
  fe_rule :: string
  fe_message :: string

text \<open>
  A Go error: an *Error with its fields and cause, an error that wraps others (its own message and
  what Unwrap gives), or an opaque one; the flag of an opaque error says whether it is
  http.ErrAbortHandler. Details map keys to values by their identity.
\<close>

datatype goerr =
    HErr (he_status: int) (he_code: string) (he_message: string) (he_fields: "field_error list")
      (he_details: "(string \<times> nat) list") (he_cause: "goerr option")
  | Wraps string "goerr list"
  | Opaque string bool

fun error_string :: "goerr \<Rightarrow> string" where
  "error_string (HErr st code msg fs ds cause) =
     (let m = (if code \<noteq> '''' then code @ '': '' @ msg else msg)
      in case cause of None \<Rightarrow> m | Some c \<Rightarrow> m @ '': '' @ error_string c)"
| "error_string (Wraps msg es) = msg"
| "error_string (Opaque msg a) = msg"

definition new_error :: "int \<Rightarrow> string \<Rightarrow> string \<Rightarrow> goerr" where
  "new_error st code msg = HErr st code msg [] [] None"

definition bad_request :: "string \<Rightarrow> goerr" where
  "bad_request msg = new_error 400 ''bad_request'' msg"

definition unauthorized :: "string \<Rightarrow> goerr" where
  "unauthorized msg = new_error 401 ''unauthorized'' msg"

definition forbidden :: "string \<Rightarrow> goerr" where
  "forbidden msg = new_error 403 ''forbidden'' msg"

definition not_found_error :: "string \<Rightarrow> goerr" where
  "not_found_error msg = new_error 404 ''not_found'' msg"

definition conflict :: "string \<Rightarrow> goerr" where
  "conflict msg = new_error 409 ''conflict'' msg"

definition unprocessable :: "string \<Rightarrow> goerr" where
  "unprocessable msg = new_error 422 ''validation_failed'' msg"

definition too_many_requests :: "string \<Rightarrow> goerr" where
  "too_many_requests msg = new_error 429 ''rate_limited'' msg"

definition internal :: "string \<Rightarrow> goerr" where
  "internal msg = new_error 500 ''internal_error'' msg"

definition unavailable :: "string \<Rightarrow> goerr" where
  "unavailable msg = new_error 503 ''service_unavailable'' msg"

fun with_cause :: "goerr \<Rightarrow> goerr \<Rightarrow> goerr" where
  "with_cause c (HErr st code msg fs ds _) = HErr st code msg fs ds (Some c)"
| "with_cause c e = e"

fun with_field :: "field_error \<Rightarrow> goerr \<Rightarrow> goerr" where
  "with_field f (HErr st code msg fs ds c) = HErr st code msg (fs @ [f]) ds c"
| "with_field f e = e"

fun with_detail :: "string \<Rightarrow> nat \<Rightarrow> goerr \<Rightarrow> goerr" where
  "with_detail k v (HErr st code msg fs ds c) = HErr st code msg fs (AList.update k v ds) c"
| "with_detail k v e = e"

text \<open>AsError: the first *Error of the chain, the error itself first, then depth first.\<close>

fun as_error :: "goerr \<Rightarrow> goerr option"
  and as_error_list :: "goerr list \<Rightarrow> goerr option"
where
  "as_error (HErr st code msg fs ds c) = Some (HErr st code msg fs ds c)"
| "as_error (Wraps msg es) = as_error_list es"
| "as_error (Opaque msg a) = None"
| "as_error_list [] = None"
| "as_error_list (e # es) = (case as_error e of Some x \<Rightarrow> Some x | None \<Rightarrow> as_error_list es)"

fun is_abort :: "goerr \<Rightarrow> bool"
  and is_abort_list :: "goerr list \<Rightarrow> bool"
where
  "is_abort (HErr st code msg fs ds c) = (case c of None \<Rightarrow> False | Some e \<Rightarrow> is_abort e)"
| "is_abort (Wraps msg es) = is_abort_list es"
| "is_abort (Opaque msg a) = a"
| "is_abort_list [] = False"
| "is_abort_list (e # es) = (is_abort e \<or> is_abort_list es)"

definition coerce_error :: "goerr \<Rightarrow> goerr" where
  "coerce_error err = (case as_error err of
     Some e \<Rightarrow> e
   | None \<Rightarrow> with_cause err (internal ''internal server error''))"

section \<open>Responses\<close>

definition wants_json :: "string \<Rightarrow> bool" where
  "wants_json accept_header =
     (let accept = to_lower accept_header in
      if accept = '''' then True
      else if contains accept ''application/json'' then True
      else \<not> contains accept ''text/html'')"

definition normalize_status :: "int \<Rightarrow> int" where
  "normalize_status st = (if st < 100 \<or> st > 599 then 500 else st)"

text \<open>The body: the message and a newline (http.Error), or the visible part of an *Error.\<close>

datatype body = TextBody string | JsonBody int string string "field_error list" "(string \<times> nat) list"

record response =
  rs_status :: int
  rs_json :: bool
  rs_body :: body

text \<open>
  writeErrorResponse; \<open>encodes\<close> says whether the JSON encoder accepts the details. The status
  line is sent either way.
\<close>

definition write_error_response ::
  "((string \<times> nat) list \<Rightarrow> bool) \<Rightarrow> goerr \<Rightarrow> bool \<Rightarrow> response \<times> bool" where
  "write_error_response encodes e as_json =
     (let st = normalize_status (he_status e) in
      if \<not> as_json then (\<lparr>rs_status = st, rs_json = False, rs_body = TextBody (he_message e @ [CHR 0x0A])\<rparr>, True)
      else (\<lparr>rs_status = st, rs_json = True,
             rs_body = (if encodes (he_details e)
                        then JsonBody st (he_code e) (he_message e) (he_fields e) (he_details e)
                        else TextBody '''')\<rparr>, encodes (he_details e)))"

definition write_error :: "((string \<times> nat) list \<Rightarrow> bool) \<Rightarrow> string \<Rightarrow> goerr \<Rightarrow> response \<times> bool" where
  "write_error encodes accept err = write_error_response encodes (coerce_error err) (wants_json accept)"

section \<open>Handlers\<close>

datatype level = LWarn | LError

text \<open>defaultErrorHandler: the response and the log level of the request error.\<close>

definition default_error_handler ::
  "((string \<times> nat) list \<Rightarrow> bool) \<Rightarrow> string \<Rightarrow> goerr \<Rightarrow> response \<times> level" where
  "default_error_handler encodes accept err =
     (let e = coerce_error err in
      (fst (write_error encodes accept e),
       if normalize_status (he_status e) \<ge> 500 then LError else LWarn))"

text \<open>adaptHandler's signature check: kind, parameter types and results of the handler's type.\<close>

datatype adapt_panic = HandlerNotFunc | HandlerNoParams | HandlerFirstParam string | HandlerResult

definition adapt_handler ::
  "bool \<Rightarrow> string list \<Rightarrow> string list \<Rightarrow> (string \<Rightarrow> bool) \<Rightarrow> (adapt_panic, string list) result" where
  "adapt_handler is_func ins outs implements_error =
     (if \<not> is_func then Inl HandlerNotFunc
      else (case ins of
              [] \<Rightarrow> Inl HandlerNoParams
            | p # deps \<Rightarrow>
                if p \<noteq> ''gas.Context'' then Inl (HandlerFirstParam p)
                else if length outs \<noteq> 1 \<or> \<not> implements_error (hd outs) then Inl HandlerResult
                else Inr deps))"

text \<open>What the user's function does, and what the request leads to.\<close>

datatype 'a run = Ran 'a | Panics goerr

datatype outcome =
    HandlerOwn
  | ErrorHandled goerr
  | RePanicked goerr

definition handle_panic :: "goerr \<Rightarrow> outcome" where
  "handle_panic rec = (if is_abort rec then RePanicked rec
     else ErrorHandled (Wraps (''gas: handler panic: '' @ error_string rec) []))"

definition recover_plain :: "unit run \<Rightarrow> outcome" where
  "recover_plain r = (case r of Ran _ \<Rightarrow> HandlerOwn | Panics rec \<Rightarrow> handle_panic rec)"

text \<open>The dependencies are resolved in order; \<open>deps\<close> are the outcomes of scope.resolveType.\<close>

fun first_failure :: "(string \<times> (goerr, nat) Sum_Type.sum run) list \<Rightarrow> outcome option" where
  "first_failure [] = None"
| "first_failure ((t, r) # ds) =
     (case r of
        Panics rec \<Rightarrow> Some (handle_panic rec)
      | Ran (Inl e) \<Rightarrow> Some (ErrorHandled (Wraps (''gas: resolving '' @ t @ '': '' @ error_string e) [e]))
      | Ran (Inr v) \<Rightarrow> first_failure ds)"

definition adapted_handler ::
  "(string \<times> (goerr, nat) Sum_Type.sum run) list \<Rightarrow> goerr option run \<Rightarrow> outcome" where
  "adapted_handler deps result =
     (case first_failure deps of
        Some out \<Rightarrow> out
      | None \<Rightarrow> (case result of
                    Panics rec \<Rightarrow> handle_panic rec
                  | Ran None \<Rightarrow> HandlerOwn
                  | Ran (Some err) \<Rightarrow> ErrorHandled err))"

section \<open>Properties\<close>

lemma as_error_HErr:
  shows "as_error e = Some x \<Longrightarrow> \<exists>st code msg fs ds c. x = HErr st code msg fs ds c"
    and "as_error_list es = Some x \<Longrightarrow> \<exists>st code msg fs ds c. x = HErr st code msg fs ds c"
  by (induction e and es rule: as_error_as_error_list.induct) (auto split: option.splits)

text \<open>The parts of an *Error a client may see.\<close>

definition visible :: "goerr \<Rightarrow> int \<times> string \<times> string \<times> field_error list \<times> (string \<times> nat) list" where
  "visible e = (he_status e, he_code e, he_message e, he_fields e, he_details e)"

text \<open>A response never shows more than the error says. Two errors whose coerced *Errors agree
  in status, code, message, fields and details give the same response, whatever their causes and
  wrappers; an error with no *Error in its chain gives the canonical 500; and the status line is
  a valid status, the one repeated in the JSON body.\<close>

theorem response_hides_causes:
  assumes "visible (coerce_error e1) = visible (coerce_error e2)"
  shows "write_error encodes accept e1 = write_error encodes accept e2 \<and>
    (as_error e3 = None \<longrightarrow>
       write_error encodes accept e3 = write_error_response encodes (internal ''internal server error'') (wants_json accept)) \<and>
    100 \<le> rs_status (fst (write_error encodes accept e1)) \<and> rs_status (fst (write_error encodes accept e1)) \<le> 599 \<and>
    (\<forall>st code msg fs ds. rs_body (fst (write_error encodes accept e1)) = JsonBody st code msg fs ds \<longrightarrow>
       st = rs_status (fst (write_error encodes accept e1)))"
  using assms
  by (auto simp: write_error_def write_error_response_def visible_def normalize_status_def Let_def
      coerce_error_def internal_def new_error_def)

theorem response_hides_causes_witness:
  "write_error (\<lambda>_. True) ''application/json'' (Wraps ''lookup: secret-dsn'' [new_error 404 ''not_found'' ''no user'']) =
     write_error (\<lambda>_. True) ''application/json'' (with_cause (Opaque ''password=x'' False) (new_error 404 ''not_found'' ''no user''))"
proof -
  have "visible (coerce_error (Wraps ''lookup: secret-dsn'' [new_error 404 ''not_found'' ''no user''])) =
      visible (coerce_error (with_cause (Opaque ''password=x'' False) (new_error 404 ''not_found'' ''no user'')))"
    by (simp add: visible_def coerce_error_def new_error_def)
  from response_hides_causes [OF this] show ?thesis by blast
qed



end
