(* ===== verification/Dotenv.thy ===== *)
theory Dotenv
  imports Go_Strings
begin

text \<open>
  config/internal/dotenv/parser.go: the parser of .env files, on bytes. bufio.Scanner with its
  64 KB line limit is written out; the loop of Parse is a function over the scanned lines with
  the parser's local variables as its state.
\<close>

section \<open>The scanner\<close>

abbreviation NL :: char where "NL \<equiv> CHR 0x0A"
abbreviation CR :: char where "CR \<equiv> CHR 0x0D"
abbreviation DQ :: char where "DQ \<equiv> CHR 0x22"
abbreviation SQ :: char where "SQ \<equiv> CHR 0x27"

definition max_token :: nat where "max_token = 65536"

definition drop_cr :: "string \<Rightarrow> string" where
  "drop_cr l = (if l \<noteq> [] \<and> last l = CR then butlast l else l)"

text \<open>The pieces between newlines; there is no token after the last newline.\<close>

definition raw_lines :: "string \<Rightarrow> string list" where
  "raw_lines bs = (let ps = split_at NL bs in if last ps = [] then butlast ps else ps)"

section \<open>One line\<close>

text \<open>The loop of removeInlineComment; the first argument is the open quote, if any.\<close>

fun comment_loop :: "char option \<Rightarrow> string \<Rightarrow> string" where
  "comment_loop q [] = []"
| "comment_loop q (c # s) =
     (if c = DQ \<or> c = SQ then
        c # comment_loop (if q = None then Some c else if q = Some c then None else q) s
      else if c = CHR ''#'' \<and> q = None then []
      else c # comment_loop q s)"

definition remove_inline_comment :: "string \<Rightarrow> string" where
  "remove_inline_comment line = comment_loop None line"

definition trim_quotes :: "string \<Rightarrow> string" where
  "trim_quotes val =
     (if has_prefix val [DQ] \<and> has_suffix val [DQ] then trim [DQ] val
      else if has_prefix val [SQ] \<and> has_suffix val [SQ] then trim [SQ] val
      else val)"

definition blanks :: string where
  "blanks = [CHR '' '', CHR 0x09]"

text \<open>parseSingleLine: key, value, and the open quote when a multi-line value starts here.\<close>

definition parse_single_line :: "string \<Rightarrow> string \<times> string \<times> char option" where
  "parse_single_line line0 =
     (let line = remove_inline_comment (trim_space line0) in
      if line = [] \<or> has_prefix line ''#'' then ([], [], None)
      else (case cut (CHR ''='') line of
              None \<Rightarrow> ([], [], None)
            | Some (k, v) \<Rightarrow>
                (let key = trim_space k; val = trim_space v in
                 if (has_prefix val [DQ] \<and> \<not> has_suffix (trim_right blanks val) [DQ]) \<or>
                    (has_prefix val [SQ] \<and> \<not> has_suffix (trim_right blanks val) [SQ])
                 then (key, trim_prefix val [hd val], Some (hd val))
                 else (key, trim_quotes val, None))))"

section \<open>The file\<close>

text \<open>A value still open: its key, its quote, the builder and the line it starts on.\<close>

record open_value =
  ov_key :: string
  ov_quote :: char
  ov_buf :: string
  ov_start :: nat

datatype dotenv_err = ScanTooLong | Unclosed char string nat

text \<open>handleMultiline: the builder grows by the line; the quote at its end closes the value.\<close>

definition handle_multiline ::
  "string \<Rightarrow> open_value \<Rightarrow> (string \<rightharpoonup> string) \<Rightarrow> open_value option \<times> (string \<rightharpoonup> string)" where
  "handle_multiline line ov env =
     (let vb = ov_buf ov @ [NL] @ line in
      if has_suffix (trim_right blanks line) [ov_quote ov]
      then (None, env(ov_key ov \<mapsto> trim [ov_quote ov] vb))
      else (Some (ov\<lparr>ov_buf := vb\<rparr>), env))"

fun parse_lines ::
  "nat \<Rightarrow> string list \<Rightarrow> open_value option \<Rightarrow> (string \<rightharpoonup> string) \<Rightarrow> (dotenv_err, string \<rightharpoonup> string) result" where
  "parse_lines n [] None env = Inr env"
| "parse_lines n [] (Some ov) env = Inl (Unclosed (ov_quote ov) (ov_key ov) (ov_start ov))"
| "parse_lines n (line # rest) (Some ov) env =
     (case handle_multiline line ov env of (st, env') \<Rightarrow> parse_lines (Suc n) rest st env')"
| "parse_lines n (line # rest) None env =
     (case parse_single_line line of (k, val, multi) \<Rightarrow>
        if k = [] then parse_lines (Suc n) rest None env
        else (case multi of
                Some q \<Rightarrow> parse_lines (Suc n) rest
                  (Some \<lparr>ov_key = k, ov_quote = q, ov_buf = val, ov_start = Suc n\<rparr>) env
              | None \<Rightarrow> parse_lines (Suc n) rest None (env(k \<mapsto> val))))"

text \<open>A line that does not fit the scanner's buffer ends the scan, and with it the parse.\<close>

definition parse_dotenv :: "string \<Rightarrow> (dotenv_err, string \<rightharpoonup> string) result" where
  "parse_dotenv bs =
     (let raw = raw_lines bs in
      if list_ex (\<lambda>l. length l \<ge> max_token) raw then Inl ScanTooLong
      else parse_lines 0 (map drop_cr raw) None (\<lambda>_. None))"

end
