(* ===== verification/Dotenv_Properties.thy ===== *)
theory Dotenv_Properties
  imports Dotenv
begin

text \<open>
  What the .env parser promises and where it differs: quoted values come back as they were
  written, over several lines too, and a quote left open right after the equals sign is not seen.
\<close>

section \<open>Strings in quotes\<close>

definition plain_key :: "string \<Rightarrow> bool" where
  "plain_key k \<longleftrightarrow> k \<noteq> [] \<and> solid (hd k) \<and> solid (last k) \<and>
     list_all (\<lambda>c. c \<notin> set [CHR ''='', CHR ''#'', DQ, SQ, NL, CR]) k"

lemma solid_DQ [simp]: "solid DQ"
  by code_simp

lemma not_solid: "\<not> solid NL" "\<not> solid (CHR '' '')" "\<not> solid (CHR 0x09)"
  by code_simp+

lemma plain_keyD:
  assumes "plain_key k"
  shows "k \<noteq> []" "DQ \<notin> set k" "SQ \<notin> set k" "CHR ''='' \<notin> set k" "CHR ''#'' \<notin> set k"
    "NL \<notin> set k" "CR \<notin> set k" "trim_space k = k"
  using assms by (auto simp: plain_key_def list_all_iff intro!: trim_space_solid)

lemma comment_loop_plain:
  "DQ \<notin> set k \<Longrightarrow> SQ \<notin> set k \<Longrightarrow> CHR ''#'' \<notin> set k \<Longrightarrow>
     comment_loop None (k @ s) = k @ comment_loop None s"
  by (induction k) auto

lemma comment_loop_quoted:
  "DQ \<notin> set x \<Longrightarrow> comment_loop (Some DQ) (x @ s) = x @ comment_loop (Some DQ) s"
  by (induction x) auto

lemma comment_kept:
  assumes "plain_key k" and "DQ \<notin> set x"
  shows "remove_inline_comment (k @ CHR ''='' # DQ # x) = k @ CHR ''='' # DQ # x"
    and "remove_inline_comment (k @ CHR ''='' # DQ # x @ [DQ]) = k @ CHR ''='' # DQ # x @ [DQ]"
  using plain_keyD [OF assms(1)] comment_loop_quoted [OF assms(2), of "[]"]
    comment_loop_quoted [OF assms(2), of "[DQ]"]
  by (simp_all add: remove_inline_comment_def comment_loop_plain)

lemma trim_right_id: "s = [] \<or> last s \<notin> set cs \<Longrightarrow> trim_right cs s = s"
  by (cases s rule: rev_cases) (auto simp: trim_right_def)

lemma trim_closed: "DQ \<notin> set x \<Longrightarrow> trim [DQ] (x @ [DQ]) = x"
proof -
  assume a: "DQ \<notin> set x"
  then have l: "trim_left [DQ] (x @ [DQ]) = (if x = [] then [] else x @ [DQ])"
    by (cases x) (auto simp: trim_left_def)
  have "trim_right [DQ] (x @ [DQ]) = trim_right [DQ] x" by (simp add: trim_right_def)
  moreover have "trim_right [DQ] x = x" using a by (intro trim_right_id) (cases x rule: rev_cases; auto)
  ultimately show ?thesis using l by (simp add: trim_def trim_right_def)
qed

lemma trim_quoted: "DQ \<notin> set x \<Longrightarrow> trim [DQ] (DQ # x @ [DQ]) = x"
  using trim_closed [of x] by (simp add: trim_def trim_left_def)

lemma has_prefix_cons: "has_prefix (c # s) [d] \<longleftrightarrow> c = d"
  by (simp add: has_prefix_def)

lemma has_suffix_last: "s \<noteq> [] \<Longrightarrow> has_suffix s [d] \<longleftrightarrow> last s = d"
  by (cases s rule: rev_cases) (auto simp: has_suffix_def has_prefix_def)

section \<open>One line\<close>

lemma entry_line_trimmed:
  assumes "plain_key k" and "v \<noteq> []" and "solid (last v)"
  shows "trim_space (k @ CHR ''='' # v) = k @ CHR ''='' # v"
  using assms by (intro trim_space_solid) (auto simp: plain_key_def)

text \<open>A line whose value is v, once comments are known to be kept.\<close>

lemma single_line_value:
  assumes k: "plain_key k" and v: "v = DQ # x" and s: "solid (last v)"
    and c: "remove_inline_comment (k @ CHR ''='' # v) = k @ CHR ''='' # v"
  shows "parse_single_line (k @ CHR ''='' # v) =
    (if last v = DQ then (k, trim [DQ] v, None) else (k, x, Some DQ))"
proof -
  have t: "trim_space (k @ CHR ''='' # v) = k @ CHR ''='' # v"
    using entry_line_trimmed [OF k] v s by simp
  have "last v \<notin> set blanks" using s not_solid by (auto simp: blanks_def)
  then have r: "trim_right blanks v = v" by (intro trim_right_id) simp
  have tv: "trim_space v = v" using v s by (intro trim_space_solid) simp
  have h: "\<not> has_prefix (k @ CHR ''='' # v) ''#''"
    using plain_keyD [OF k] by (cases k) (auto simp: has_prefix_cons)
  have cu: "cut (CHR ''='') (k @ CHR ''='' # v) = Some (k, v)"
    using plain_keyD(4) [OF k] by (simp add: cut_Some)
  have p: "has_prefix v [DQ]" "\<not> has_prefix v [SQ]" "has_suffix v [DQ] \<longleftrightarrow> last v = DQ"
    using v by (simp_all add: has_prefix_cons has_suffix_last)
  have d: "trim_prefix v [hd v] = x" "hd v = DQ"
    using v by (simp_all add: trim_prefix_def has_prefix_cons)
  show ?thesis
    unfolding parse_single_line_def t c
    using h cu p d r tv plain_keyD(8) [OF k] by (simp add: trim_quotes_def)
qed

lemma single_line_closed:
  assumes "plain_key k" and "DQ \<notin> set x"
  shows "parse_single_line (k @ CHR ''='' # DQ # x @ [DQ]) = (k, x, None)"
  using single_line_value [of k "DQ # x @ [DQ]" "x @ [DQ]"] comment_kept(2) [OF assms] assms
  by (simp add: trim_quoted)

lemma single_line_open:
  assumes "plain_key k" and "DQ \<notin> set x" and "x \<noteq> []" and "solid (last x)"
  shows "parse_single_line (k @ CHR ''='' # DQ # x) = (k, x, Some DQ)"
proof -
  have "last (DQ # x) \<noteq> DQ" using assms(2,3) by (metis last_ConsR last_in_set)
  then show ?thesis
    using single_line_value [of k "DQ # x" x] comment_kept(1) [OF assms(1,2)] assms by simp
qed

section \<open>Rendering entries\<close>

text \<open>A value the quoted syntax can carry: no quote, no carriage return, and when it goes over
  several lines, text on the first of them, printable at its end.\<close>

definition quotable :: "string \<Rightarrow> bool" where
  "quotable v \<longleftrightarrow> DQ \<notin> set v \<and> CR \<notin> set v \<and>
     (case split_at NL v of
        x # y # ys \<Rightarrow> x \<noteq> [] \<and> solid (last x)
      | _ \<Rightarrow> True)"

definition render_entry :: "string \<times> string \<Rightarrow> string" where
  "render_entry kv = fst kv @ CHR ''='' # DQ # snd kv @ [DQ, NL]"

definition render :: "(string \<times> string) list \<Rightarrow> string" where
  "render kvs = concat (map render_entry kvs)"

definition entry_lines :: "string \<times> string \<Rightarrow> string list" where
  "entry_lines kv =
     (case split_at NL (snd kv) of
        [] \<Rightarrow> []
      | [x] \<Rightarrow> [fst kv @ CHR ''='' # DQ # x @ [DQ]]
      | x # xs \<Rightarrow> (fst kv @ CHR ''='' # DQ # x) # butlast xs @ [last xs @ [DQ]])"

lemma split_at_snoc: "split_at sep (a @ sep # b) = split_at sep a @ split_at sep b"
proof (induction a)
  case (Cons c a)
  then show ?case using split_at_ne [of sep a] by (cases "split_at sep a") auto
qed simp

lemma split_at_prepend:
  "sep \<notin> set p \<Longrightarrow> split_at sep v = x # xs \<Longrightarrow> split_at sep (p @ v) = (p @ x) # xs"
  by (induction p) auto

lemma split_at_append:
  "sep \<notin> set q \<Longrightarrow> split_at sep v = xs \<Longrightarrow> split_at sep (v @ q) = butlast xs @ [last xs @ q]"
proof (induction v arbitrary: xs)
  case Nil
  then show ?case using split_at_prepend [of sep q "[]" "[]" "[]"] by auto
next
  case (Cons c v)
  show ?case
  proof (cases "c = sep")
    case True
    then show ?thesis using Cons split_at_ne [of sep v] by (auto simp: Let_def)
  next
    case False
    obtain y ys where s: "split_at sep v = y # ys" using split_at_ne by (metis list.exhaust)
    then show ?thesis using Cons False by (cases ys) auto
  qed
qed

lemma split_at_free: "x \<in> set (split_at sep v) \<Longrightarrow> sep \<notin> set x \<and> set x \<subseteq> set v"
  by (induction v arbitrary: x) (fastforce split: list.splits if_splits)+

lemma split_entry:
  assumes "plain_key k"
  shows "split_at NL (render_entry (k, v) @ rest) = entry_lines (k, v) @ split_at NL rest"
proof -
  obtain x xs where s: "split_at NL v = x # xs" using split_at_ne by (metis list.exhaust)
  let ?p = "k @ [CHR ''='', DQ]"
  have "NL \<notin> set ?p" using plain_keyD [OF assms] by simp
  then have "split_at NL (?p @ v) = (?p @ x) # xs" using s by (rule split_at_prepend)
  then have "split_at NL ((?p @ v) @ [DQ]) = butlast ((?p @ x) # xs) @ [last ((?p @ x) # xs) @ [DQ]]"
    by (intro split_at_append) simp_all
  then have e: "split_at NL ((?p @ v) @ [DQ]) = entry_lines (k, v)"
    using s by (cases xs) (auto simp: entry_lines_def)
  have "render_entry (k, v) @ rest = ((?p @ v) @ [DQ]) @ NL # rest" by (simp add: render_entry_def)
  then show ?thesis by (simp only: split_at_snoc e)
qed

lemma split_render:
  "list_all plain_key (map fst kvs) \<Longrightarrow>
     split_at NL (render kvs @ rest) = concat (map entry_lines kvs) @ split_at NL rest"
  by (induction kvs) (auto simp: render_def split_entry)


section \<open>Values over several lines\<close>

lemma no_suffix: "c \<notin> set s \<Longrightarrow> \<not> has_suffix (trim_right cs s) [c]"
proof
  assume c: "c \<notin> set s" and "has_suffix (trim_right cs s) [c]"
  then obtain t where "trim_right cs s = t @ [c]" by (auto simp: has_suffix_iff)
  then have "c \<in> set (trim_right cs s)" by simp
  with c show False by (auto simp: trim_right_def dest!: set_dropWhileD)
qed

lemma multiline_run:
  "\<forall>x\<in>set xs. DQ \<notin> set x \<Longrightarrow>
   parse_lines n (xs @ (y @ [DQ]) # rest)
     (Some \<lparr>ov_key = k, ov_quote = DQ, ov_buf = b, ov_start = st\<rparr>) env =
   parse_lines (Suc (n + length xs)) rest None
     (env(k \<mapsto> trim [DQ] (b @ concat (map (\<lambda>l. NL # l) (xs @ [y])) @ [DQ])))"
proof (induction xs arbitrary: n b)
  case Nil
  have "trim_right blanks (y @ [DQ]) = y @ [DQ]" by (rule trim_right_id) (simp add: blanks_def)
  then show ?case by (simp add: handle_multiline_def has_suffix_last fun_upd_def)
next
  case (Cons x xs)
  then have "\<not> has_suffix (trim_right blanks x) [DQ]" by (intro no_suffix) simp
  then show ?case using Cons by (simp add: handle_multiline_def cong: if_cong)
qed

lemma split_at_concat:
  "split_at sep v = x # xs \<Longrightarrow> v = x @ concat (map (\<lambda>l. sep # l) xs)"
proof -
  have "join_with [sep] (x # xs) = x @ concat (map (\<lambda>l. sep # l) xs)" for x xs
    by (induction xs arbitrary: x) auto
  then show "split_at sep v = x # xs \<Longrightarrow> ?thesis" using join_split [of sep v] by simp
qed

lemma entry_run:
  assumes k: "plain_key k" and v: "quotable v"
  shows "parse_lines n (entry_lines (k, v) @ rest) None env =
    parse_lines (n + length (entry_lines (k, v))) rest None (env(k \<mapsto> v))"
proof -
  have q: "DQ \<notin> set v" using v by (simp add: quotable_def)
  obtain x xs where s: "split_at NL v = x # xs" using split_at_ne by (metis list.exhaust)
  have dq: "\<forall>y\<in>set (x # xs). DQ \<notin> set y" using split_at_free [of _ NL v] q s by auto
  have vv: "v = x @ concat (map (\<lambda>l. NL # l) xs)" by (rule split_at_concat [OF s])
  have kn: "k \<noteq> []" using plain_keyD [OF k] by simp
  show ?thesis
  proof (cases xs rule: rev_cases)
    case Nil
    with s vv dq kn show ?thesis
      using single_line_closed [OF k, of x] by (simp add: entry_lines_def)
  next
    case (snoc ys y)
    then have "x \<noteq> []" "solid (last x)" using v s by (cases ys; simp add: quotable_def)+
    then have o: "parse_single_line (k @ CHR ''='' # DQ # x) = (k, x, Some DQ)"
      using single_line_open [OF k] dq by simp
    have t: "trim [DQ] (x @ concat (map (\<lambda>l. NL # l) (ys @ [y])) @ [DQ]) = v"
      using trim_closed [OF q] vv snoc by simp
    have "entry_lines (k, v) = (k @ CHR ''='' # DQ # x) # ys @ [y @ [DQ]]"
      using s snoc by (cases ys) (auto simp: entry_lines_def)
    moreover have "parse_lines (Suc n) (ys @ (y @ [DQ]) # rest)
        (Some \<lparr>ov_key = k, ov_quote = DQ, ov_buf = x, ov_start = Suc n\<rparr>) env =
      parse_lines (Suc (Suc n + length ys)) rest None (env(k \<mapsto> v))"
      using multiline_run [of ys "Suc n" y rest k x "Suc n" env] dq snoc t by simp
    ultimately show ?thesis using o kn by simp
  qed
qed

lemma entries_run:
  "list_all plain_key (map fst kvs) \<Longrightarrow> list_all quotable (map snd kvs) \<Longrightarrow>
     parse_lines n (concat (map entry_lines kvs)) None env = Inr (env ++ map_of (rev kvs))"
proof (induction kvs arbitrary: n env)
  case (Cons kv kvs)
  then show ?case using entry_run [of "fst kv" "snd kv"] by simp
qed simp

lemma entry_line_chars:
  assumes "l \<in> set (entry_lines (k, v))"
  shows "length l \<le> length k + length v + 3 \<and> set l \<subseteq> set k \<union> set v \<union> {CHR ''='', DQ}"
proof -
  obtain x xs where s: "split_at NL v = x # xs" using split_at_ne by (metis list.exhaust)
  have "length y \<le> length v" "set y \<subseteq> set v" if "y \<in> set (x # xs)" for y
  proof -
    have "v = x @ concat (map (\<lambda>l. NL # l) xs)" by (rule split_at_concat [OF s])
    with that show "length y \<le> length v"
      by (auto simp: length_concat comp_def dest: split_list)
    show "set y \<subseteq> set v" using split_at_free [of y NL v] that s by simp
  qed
  then have *: "\<forall>y\<in>set (x # xs). length y \<le> length v \<and> set y \<subseteq> set v" by blast
  show ?thesis
  proof (cases xs rule: rev_cases)
    case Nil
    then show ?thesis using assms s * by (auto simp: entry_lines_def)
  next
    case (snoc ys y)
    then have "entry_lines (k, v) = (k @ CHR ''='' # DQ # x) # ys @ [y @ [DQ]]"
      using s by (cases ys) (auto simp: entry_lines_def)
    then show ?thesis using assms snoc * by fastforce
  qed
qed

lemma drop_cr_id: "CR \<notin> set l \<Longrightarrow> drop_cr l = l"
  by (cases l rule: rev_cases) (auto simp: drop_cr_def)

section \<open>The file\<close>

text \<open>C21: a .env file of quoted entries comes back. For any entries with plain keys and values
  free of quotes and carriage returns, each on lines below the scanner's limit and with printable
  text before a first line break, parsing the rendered file succeeds and gives every key the
  value of its last entry, byte for byte: comment signs, equals signs, blanks at the ends, empty
  values and line breaks inside the quotes are all kept.\<close>

theorem dotenv_roundtrip:
  assumes "list_all plain_key (map fst kvs)" and "list_all quotable (map snd kvs)"
    and "list_all (\<lambda>kv. length (fst kv) + length (snd kv) + 3 < max_token) kvs"
  shows "parse_dotenv (render kvs) = Inr (map_of (rev kvs))"
proof -
  let ?ls = "concat (map entry_lines kvs)"
  have raw: "raw_lines (render kvs) = ?ls"
    using split_render [OF assms(1), of "[]"] by (simp add: raw_lines_def)
  have "length l < max_token \<and> CR \<notin> set l" if "l \<in> set ?ls" for l
  proof -
    from that obtain kv where m: "kv \<in> set kvs" and l: "l \<in> set (entry_lines (fst kv, snd kv))" by auto
    then have "plain_key (fst kv)" "quotable (snd kv)" "length (fst kv) + length (snd kv) + 3 < max_token"
      using assms by (auto simp: list_all_iff)
    then show ?thesis
      using entry_line_chars [OF l] plain_keyD(7) by (fastforce simp: quotable_def)
  qed
  then have "\<not> list_ex (\<lambda>l. length l \<ge> max_token) ?ls" "map drop_cr ?ls = ?ls"
    by (force simp: list_ex_iff, auto intro!: map_idI drop_cr_id)
  then show ?thesis
    using entries_run [OF assms(1,2)] by (simp only: parse_dotenv_def raw Let_def) simp
qed

theorem dotenv_roundtrip_witness:
  "map_option (\<lambda>m. map m [''CERT'', ''B'', ''C'']) (case parse_dotenv (render
      [(''B'', ''old''), (''CERT'', ''-----BEGIN'' @ [NL, NL] @ '' #=x '' @ [NL] @ ''END''), (''B'', '' 1 # 2'')])
      of Inl e \<Rightarrow> None | Inr m \<Rightarrow> Some m) =
   Some [Some (''-----BEGIN'' @ [NL, NL] @ '' #=x '' @ [NL] @ ''END''), Some '' 1 # 2'', None]"
proof -
  let ?kvs = "[(''B'', ''old''), (''CERT'', ''-----BEGIN'' @ [NL, NL] @ '' #=x '' @ [NL] @ ''END''), (''B'', '' 1 # 2'')]"
  have "list_all plain_key (map fst ?kvs)" by code_simp
  moreover have "list_all quotable (map snd ?kvs)" by code_simp
  moreover have "list_all (\<lambda>kv. length (fst kv) + length (snd kv) + 3 < max_token) ?kvs"
    by (simp add: max_token_def)
  ultimately have "parse_dotenv (render ?kvs) = Inr (map_of (rev ?kvs))" by (rule dotenv_roundtrip)
  then show ?thesis by simp
qed

text \<open>Short files never meet the scanner's limit.\<close>

lemma parse_short:
  assumes "length bs < 1000"
  shows "parse_dotenv bs = parse_lines 0 (map drop_cr (raw_lines bs)) None (\<lambda>_. None)"
proof -
  have "length l \<le> length bs" if "l \<in> set (split_at NL bs)" for l
  proof -
    obtain x xs where s: "split_at NL bs = x # xs" using split_at_ne by (metis list.exhaust)
    then have "bs = x @ concat (map (\<lambda>l. NL # l) xs)" by (rule split_at_concat)
    with that s show ?thesis by (auto simp: length_concat comp_def dest: split_list)
  qed
  then have "\<not> list_ex (\<lambda>l. length l \<ge> max_token) (raw_lines bs)"
    using assms by (fastforce simp: list_ex_iff raw_lines_def Let_def max_token_def dest: in_set_butlastD split: if_splits)
  then show ?thesis by (simp add: parse_dotenv_def)
qed

text \<open>A quote left open right after the equals sign goes unnoticed. A line that holds nothing
  but a plain key, the equals sign and one double quote is parsed as the closed empty value, so
  whatever follows it is read as lines of the file and no unclosed quote is reported.\<close>

theorem unclosed_quote_accepted:
  assumes k: "plain_key k" and l: "length k + 3 < max_token"
  shows "parse_dotenv (k @ [CHR ''='', DQ, NL] @ rest) = parse_dotenv (k @ [CHR ''='', DQ, DQ, NL] @ rest)"
proof -
  have kn: "k \<noteq> []" "NL \<notin> set k" "CR \<notin> set k" using plain_keyD [OF k] by auto
  have r: "raw_lines (p @ NL # rest) = p # raw_lines rest \<and> drop_cr p = p"
    if "p = k @ [CHR ''='', DQ] @ q" and "q = [] \<or> q = [DQ]" for p q
  proof -
    have "NL \<notin> set p" "CR \<notin> set p" using that kn by auto
    then have "split_at NL p = [p]" using split_at_prepend [of NL p "[]" "[]" "[]"] by simp
    then show ?thesis
      using split_at_ne [of NL rest] \<open>CR \<notin> set p\<close>
      by (auto simp: raw_lines_def Let_def split_at_snoc drop_cr_id)
  qed
  have one: "parse_single_line (k @ [CHR ''='', DQ]) = (k, [], None)"
    using single_line_value [of k "[DQ]" "[]"] comment_kept(1) [OF k, of "[]"] k
    by (simp add: trim_def trim_left_def trim_right_def)
  have two: "parse_single_line (k @ [CHR ''='', DQ, DQ]) = (k, [], None)"
    using single_line_closed [OF k, of "[]"] by simp
  show ?thesis
    using r [of "k @ [CHR ''='', DQ]" "[]"] r [of "k @ [CHR ''='', DQ, DQ]" "[DQ]"] one two l kn
    by (simp add: parse_dotenv_def Let_def del: parse_lines.simps(4))
       (simp add: list_ex_iff)
qed

theorem unclosed_quote_accepted_witness:
  "is_ok (parse_dotenv (''KEY='' @ [DQ, NL] @ ''-----BEGIN'' @ [NL, DQ, NL])) \<and>
   parse_dotenv (''KEY='' @ [DQ, NL] @ ''-----BEGIN'' @ [NL, DQ, NL]) =
   parse_dotenv (''KEY='' @ [DQ, DQ, NL] @ ''-----BEGIN'' @ [NL, DQ, NL])"
proof -
  have k: "plain_key ''KEY''" by code_simp
  have "parse_dotenv (''KEY'' @ [CHR ''='', DQ, NL] @ ''-----BEGIN'' @ [NL, DQ, NL]) =
      parse_dotenv (''KEY'' @ [CHR ''='', DQ, DQ, NL] @ ''-----BEGIN'' @ [NL, DQ, NL])"
    by (rule unclosed_quote_accepted [OF k]) (simp add: max_token_def)
  moreover have "is_ok (parse_dotenv (''KEY='' @ [DQ, NL] @ ''-----BEGIN'' @ [NL, DQ, NL]))"
    by (subst parse_short, simp, code_simp)
  ultimately show ?thesis by simp
qed

text \<open>A multi-line value whose closing quote is followed by a blank is closed by it and keeps it.\<close>

lemma closing_blank_kept:
  "map_option (\<lambda>m. m ''K'') (case parse_dotenv (''K='' @ [DQ] @ ''a'' @ [NL] @ ''b'' @ [DQ] @ '' '')
     of Inl e \<Rightarrow> None | Inr m \<Rightarrow> Some m) = Some (Some (''a'' @ [NL] @ ''b'' @ [DQ] @ '' ''))"
  by (subst parse_short, simp, code_simp)

end
