(* ===== verification/Config_Maps.thy ===== *)
theory Config_Maps
  imports Go_Strings
begin

text \<open>
  The configuration tree: config/internal/env (ParseVariables, BuildNestedMap, IsUnsafeVar),
  config/internal/maputils (Merge, MergeWithoutOverride, NormalizeKeys, FindNestedMap) and the
  operations of config/config.go on it. A map[string]any is an association list with one entry
  per key whose order is the order a range over the map takes; no result may depend on it unless
  a property says so. The trees of the model share nothing, as the maps of the code do: every map
  merged into a Config is a fresh copy made by NormalizeKeys.
\<close>

section \<open>Values and keys\<close>

datatype 'v cval = Leaf 'v | Node "(string \<times> 'v cval) list"

type_synonym 'v cmap = "(string \<times> 'v cval) list"

definition upper_char :: "char \<Rightarrow> char" where
  "upper_char c = (if 97 \<le> byte c \<and> byte c \<le> 122 then char_of (byte c - 32) else c)"

definition to_upper :: "string \<Rightarrow> string" where
  "to_upper s = map upper_char s"

definition norm_key :: "string \<Rightarrow> string" where
  "norm_key k = to_lower (trim_space k)"

text \<open>strings.Split at a separator; an empty one is never passed by the code.\<close>

fun split_on :: "string \<Rightarrow> string \<Rightarrow> string list" where
  "split_on sep [] = [[]]"
| "split_on sep (a # s) =
     (if sep \<noteq> [] \<and> has_prefix (a # s) sep then [] # split_on sep (drop (length sep - 1) s)
      else (case split_on sep s of x # xs \<Rightarrow> (a # x) # xs | [] \<Rightarrow> [[a]]))"

section \<open>Environment variables\<close>

definition unsafe_env_vars :: "string list" where
  "unsafe_env_vars =
     [''PATH'', ''HOME'', ''LD_PRELOAD'', ''LD_LIBRARY_PATH'', ''DYLD_INSERT_LIBRARIES'',
      ''DYLD_LIBRARY_PATH'', ''USER'', ''USERNAME'', ''LOGNAME'', ''SHELL'', ''PWD'', ''OLDPWD'', ''MAIL'',
      ''TERM'', ''LANG'', ''LC_ALL'', ''LC_CTYPE'', ''COLORTERM'', ''TMPDIR'', ''TMP'', ''TEMP'',
      ''SUDO_USER'', ''SUDO_UID'', ''SUDO_GID'', ''SSH_AUTH_SOCK'', ''SSH_AGENT_PID'', ''SSH_CLIENT'',
      ''SSH_CONNECTION'', ''SSH_TTY'', ''DISPLAY'', ''XAUTHORITY'', ''WAYLAND_DISPLAY'', ''HOSTNAME'',
      ''HOST'', ''COMPUTERNAME'', ''SESSION_MANAGER'', ''ZSH'', ''BASH'', ''PROMPT'', ''PS1'', ''PS2'',
      ''EDITOR'', ''VISUAL'', ''PAGER'', ''GITHUB_ACTION'', ''GITHUB_TOKEN'', ''CI'']"

definition is_unsafe_var :: "string \<Rightarrow> bool" where
  "is_unsafe_var key \<longleftrightarrow> to_upper key \<in> set unsafe_env_vars"

text \<open>The loop of BuildNestedMap over the parts: a missing or non-map entry on the way is replaced
  by an empty map, the last part is assigned.\<close>

fun build_path :: "string list \<Rightarrow> 'v cval \<Rightarrow> 'v cmap \<Rightarrow> 'v cmap" where
  "build_path [] v m = m"
| "build_path [p] v m = AList.update p v m"
| "build_path (p # q # ps) v m =
     AList.update p (Node (build_path (q # ps) v
       (case map_of m p of Some (Node n) \<Rightarrow> n | _ \<Rightarrow> []))) m"

definition build_nested_map :: "string \<Rightarrow> 'v cval \<Rightarrow> string \<Rightarrow> 'v cmap \<Rightarrow> 'v cmap" where
  "build_nested_map key v sep m =
     (if sep = '''' then AList.update key v m else build_path (split_on sep key) v m)"

text \<open>One variable of ParseVariables: skipped when unsafe or without the prefix.\<close>

definition parse_variable ::
  "string \<Rightarrow> string \<Rightarrow> string \<times> string \<Rightarrow> string cmap \<Rightarrow> string cmap" where
  "parse_variable pre sep kv m =
     (let key = norm_key (fst kv) in
      if is_unsafe_var key then m
      else if pre \<noteq> '''' \<and> \<not> has_prefix key pre then m
      else (let key' = (if pre \<noteq> '''' then drop (length pre) key else key) in
            if sep \<noteq> '''' then build_nested_map key' (Leaf (snd kv)) sep m
            else AList.update key' (Leaf (snd kv)) m))"

definition parse_variables :: "(string \<times> string) list \<Rightarrow> string \<Rightarrow> string \<Rightarrow> string cmap" where
  "parse_variables vars pre sep = fold (parse_variable (norm_key pre) sep) vars []"

section \<open>Normalizing and merging\<close>

fun normalize_val :: "'v cval \<Rightarrow> 'v cval"
  and normalize_pairs :: "'v cmap \<Rightarrow> 'v cmap \<Rightarrow> 'v cmap"
where
  "normalize_val (Leaf v) = Leaf v"
| "normalize_val (Node m) = Node (normalize_pairs m [])"
| "normalize_pairs [] out = out"
| "normalize_pairs ((k, v) # m) out =
     (let nk = norm_key k in
      if nk = '''' then normalize_pairs m out
      else normalize_pairs m (AList.update nk (normalize_val v) out))"

definition normalize_keys :: "'v cmap \<Rightarrow> 'v cmap" where
  "normalize_keys m = normalize_pairs m []"

fun merge :: "'v cmap \<Rightarrow> 'v cmap \<Rightarrow> 'v cmap" where
  "merge dst [] = dst"
| "merge dst ((k, Leaf v) # src) =
     (let nk = norm_key k in
      if nk = '''' then merge dst src else merge (AList.update nk (Leaf v) dst) src)"
| "merge dst ((k, Node sm) # src) =
     (let nk = norm_key k in
      if nk = '''' then merge dst src
      else (case map_of dst nk of
              Some (Node dm) \<Rightarrow> merge (AList.update nk (Node (merge dm sm)) dst) src
            | _ \<Rightarrow> merge (AList.update nk (Node sm) dst) src))"

fun merge_without_override :: "'v cmap \<Rightarrow> 'v cmap \<Rightarrow> 'v cmap" where
  "merge_without_override dst [] = dst"
| "merge_without_override dst ((k, Leaf v) # src) =
     (let nk = norm_key k in
      if nk = '''' then merge_without_override dst src
      else if map_of dst nk \<noteq> None then merge_without_override dst src
      else merge_without_override (AList.update nk (Leaf v) dst) src)"
| "merge_without_override dst ((k, Node sm) # src) =
     (let nk = norm_key k in
      if nk = '''' then merge_without_override dst src
      else (case map_of dst nk of
              Some (Node dm) \<Rightarrow>
                merge_without_override (AList.update nk (Node (merge_without_override dm sm)) dst) src
            | Some (Leaf w) \<Rightarrow> merge_without_override dst src
            | None \<Rightarrow> merge_without_override (AList.update nk (Node sm) dst) src))"

section \<open>Paths\<close>

text \<open>FindNestedMap: the map at the path, if there is one, and the tree with the maps it created.\<close>

fun find_nested :: "bool \<Rightarrow> string list \<Rightarrow> 'v cmap \<Rightarrow> 'v cmap option \<times> 'v cmap" where
  "find_nested cr [] m = (Some m, m)"
| "find_nested cr (p # ps) m =
     (case map_of m p of
        Some (Node n) \<Rightarrow>
          if ps = [] then (Some n, m)
          else (case find_nested cr ps n of (r, n') \<Rightarrow> (r, AList.update p (Node n') m))
      | Some (Leaf v) \<Rightarrow> (None, m)
      | None \<Rightarrow>
          if cr then (case find_nested cr ps [] of (r, n') \<Rightarrow> (r, AList.update p (Node n') m))
          else (None, m))"

text \<open>An assignment to the map FindNestedMap returned is one to the tree at that path.\<close>

fun write_at :: "string list \<Rightarrow> ('v cmap \<Rightarrow> 'v cmap) \<Rightarrow> 'v cmap \<Rightarrow> 'v cmap" where
  "write_at [] f m = f m"
| "write_at (p # ps) f m =
     (case map_of m p of
        Some (Node n) \<Rightarrow> AList.update p (Node (write_at ps f n)) m
      | _ \<Rightarrow> m)"

definition key_to_path :: "string \<Rightarrow> string list \<times> string" where
  "key_to_path key =
     (let parts = map trim_space (split_at (CHR ''.'') (to_lower key))
      in (butlast parts, last parts))"

end
