(* ===== verification/Config_Store.thy ===== *)
theory Config_Store
  imports Config_Maps
begin

text \<open>
  config/config.go: the Config, its setters and getters, and the load of all providers between
  the extension hooks. Providers and hooks are code of the caller: a provider is what its Load
  returns, a hook a function on the Config that may fail. The locks make every operation a step
  of its own. Binding to structs (reflection) and validation are outside.
\<close>

record ('p, 'e, 'v) config =
  cf_values :: "'v cmap"
  cf_providers :: "'p list"
  cf_extensions :: "'e list"

datatype ('p, 'e) config_err =
    ProviderLoadFailed 'p string
  | PreLoadHookFailed 'e string
  | PostLoadHookFailed 'e string

text \<open>New adds the environment provider when no option named one.\<close>

definition new_config :: "'p \<Rightarrow> 'p list \<Rightarrow> 'e list \<Rightarrow> ('p, 'e, 'v) config" where
  "new_config env_provider ps es =
     \<lparr>cf_values = [], cf_providers = (if ps = [] then [env_provider] else ps), cf_extensions = es\<rparr>"

section \<open>Values\<close>

definition set_default :: "string \<Rightarrow> 'v cval \<Rightarrow> ('p, 'e, 'v) config \<Rightarrow> ('p, 'e, 'v) config" where
  "set_default key v c =
     (if key = '''' then c
      else (case key_to_path key of (parts, final) \<Rightarrow>
        (case find_nested True parts (cf_values c) of
           (None, m) \<Rightarrow> c\<lparr>cf_values := m\<rparr>
         | (Some fm, m) \<Rightarrow>
             (if map_of fm final = None
              then c\<lparr>cf_values := write_at parts (AList.update final v) m\<rparr>
              else c\<lparr>cf_values := m\<rparr>))))"

text \<open>SetDefaults of a map; nil is refused. A struct is unbound into a map first.\<close>

definition set_defaults :: "'v cmap option \<Rightarrow> ('p, 'e, 'v) config \<Rightarrow> bool \<times> ('p, 'e, 'v) config" where
  "set_defaults vs c =
     (case vs of
        None \<Rightarrow> (False, c)
      | Some m \<Rightarrow> (True, c\<lparr>cf_values := merge_without_override (cf_values c) (normalize_keys m)\<rparr>))"

definition set_value :: "string \<Rightarrow> 'v cval \<Rightarrow> ('p, 'e, 'v) config \<Rightarrow> ('p, 'e, 'v) config" where
  "set_value key v c =
     (if key = '''' then c
      else (case key_to_path key of (parts, final) \<Rightarrow>
        (case find_nested True parts (cf_values c) of
           (None, m) \<Rightarrow> c\<lparr>cf_values := m\<rparr>
         | (Some fm, m) \<Rightarrow> c\<lparr>cf_values := write_at parts (AList.update final v) m\<rparr>)))"

definition find_value :: "string \<Rightarrow> ('p, 'e, 'v) config \<Rightarrow> 'v cval option" where
  "find_value key c =
     (if key = '''' then None
      else (case key_to_path key of (parts, final) \<Rightarrow>
        (case fst (find_nested False parts (cf_values c)) of
           None \<Rightarrow> None
         | Some fm \<Rightarrow> map_of fm final)))"

text \<open>Get answers nil for what Find reports missing.\<close>

definition get_value :: "string \<Rightarrow> ('p, 'e, 'v) config \<Rightarrow> 'v cval option" where
  "get_value key c =
     (if key = '''' then None
      else (case key_to_path key of (parts, final) \<Rightarrow>
        (case fst (find_nested False parts (cf_values c)) of
           Some fm \<Rightarrow> map_of fm final
         | None \<Rightarrow> None)))"

section \<open>Loading\<close>

type_synonym ('p, 'v) loader = "'p \<Rightarrow> (string, 'v cmap) result"
type_synonym ('p, 'e, 'v) hook = "'e \<Rightarrow> ('p, 'e, 'v) config \<Rightarrow> string option \<times> ('p, 'e, 'v) config"

definition load_values :: "('p, 'v) loader \<Rightarrow> 'p \<Rightarrow> (('p, 'e) config_err, 'v cmap) result" where
  "load_values load p = (case load p of Inl e \<Rightarrow> Inl (ProviderLoadFailed p e) | Inr m \<Rightarrow> Inr m)"

definition load_provider ::
  "('p, 'v) loader \<Rightarrow> 'p \<Rightarrow> ('p, 'e, 'v) config \<Rightarrow> ('p, 'e) config_err option \<times> ('p, 'e, 'v) config" where
  "load_provider load p c =
     (case load_values load p of
        Inl e \<Rightarrow> (Some e, c)
      | Inr m \<Rightarrow> (None, c\<lparr>cf_providers := cf_providers c @ [p],
                         cf_values := merge (cf_values c) (normalize_keys m)\<rparr>))"

fun load_all :: "('p, 'v) loader \<Rightarrow> 'p list \<Rightarrow> (('p, 'e) config_err, 'v cmap list) result" where
  "load_all load [] = Inr []"
| "load_all load (p # ps) =
     (case load_values load p of
        Inl e \<Rightarrow> Inl e
      | Inr m \<Rightarrow> (case load_all load ps of Inl e \<Rightarrow> Inl e | Inr ms \<Rightarrow> Inr (m # ms)))"

fun run_hooks ::
  "('e \<Rightarrow> string \<Rightarrow> ('p, 'e) config_err) \<Rightarrow> ('p, 'e, 'v) hook \<Rightarrow> 'e list \<Rightarrow> ('p, 'e, 'v) config \<Rightarrow>
     ('p, 'e) config_err option \<times> ('p, 'e, 'v) config" where
  "run_hooks err h [] c = (None, c)"
| "run_hooks err h (x # xs) c =
     (case h x c of
        (Some e, c') \<Rightarrow> (Some (err x e), c')
      | (None, c') \<Rightarrow> run_hooks err h xs c')"

definition merge_all :: "'v cmap list \<Rightarrow> 'v cmap \<Rightarrow> 'v cmap" where
  "merge_all ms values = fold (\<lambda>m vs. merge vs (normalize_keys m)) ms values"

definition load_config ::
  "('p, 'v) loader \<Rightarrow> ('p, 'e, 'v) hook \<Rightarrow> ('p, 'e, 'v) hook \<Rightarrow> ('p, 'e, 'v) config \<Rightarrow>
     ('p, 'e) config_err option \<times> ('p, 'e, 'v) config" where
  "load_config load pre post c =
     (case run_hooks PreLoadHookFailed pre (cf_extensions c) c of
        (Some e, c1) \<Rightarrow> (Some e, c1)
      | (None, c1) \<Rightarrow>
          (case load_all load (cf_providers c1) of
             Inl e \<Rightarrow> (Some e, c1)
           | Inr ms \<Rightarrow>
               run_hooks PostLoadHookFailed post (cf_extensions c)
                 (c1\<lparr>cf_values := merge_all ms (cf_values c1)\<rparr>)))"

end
