(* ===== verification/Config_Properties.thy ===== *)
theory Config_Properties
  imports Config_Store "HOL-Library.Sublist" "HOL-Library.Multiset"
begin

text \<open>
  What the configuration tree promises, read through the values at the paths: environment
  variables land at their paths whatever the order of the range, unless one path runs through
  another; Set and Find agree; and loading overlays the providers in order, all or nothing.
\<close>

section \<open>Values at paths\<close>

fun leaf_at :: "string list \<Rightarrow> 'v cmap \<Rightarrow> 'v option" where
  "leaf_at [] m = None"
| "leaf_at (p # ps) m =
     (case map_of m p of
        Some (Leaf v) \<Rightarrow> if ps = [] then Some v else None
      | Some (Node n) \<Rightarrow> leaf_at ps n
      | None \<Rightarrow> None)"

text \<open>Two paths that cannot both be values of one tree.\<close>

definition comparable :: "string list \<Rightarrow> string list \<Rightarrow> bool" where
  "comparable ps qs \<longleftrightarrow> prefix ps qs \<or> prefix qs ps"

lemma comparable_Cons [simp]:
  "comparable (p # ps) (q # qs) \<longleftrightarrow> p = q \<and> comparable ps qs"
  by (auto simp: comparable_def)

lemma comparable_Nil [simp]: "comparable [] qs" "comparable ps []"
  by (simp_all add: comparable_def)

lemma comparable_sym: "comparable ps qs \<longleftrightarrow> comparable qs ps"
  by (auto simp: comparable_def)

lemma leaf_at_empty [simp]: "leaf_at ps [] = None"
  by (cases ps) auto

lemma leaf_at_build:
  "qs \<noteq> [] \<Longrightarrow> leaf_at ps (build_path qs (Leaf v) m) =
     (if ps = qs then Some v else if comparable ps qs then None else leaf_at ps m)"
proof (induction qs "Leaf v :: 'a cval" m arbitrary: ps rule: build_path.induct)
  case (2 p m)
  then show ?case by (cases ps) (auto simp: update_conv')
next
  case (3 p q qs m)
  show ?case
  proof (cases ps)
    case (Cons r rs)
    have "leaf_at rs (build_path (q # qs) (Leaf v) (case map_of m p of Some (Node n) \<Rightarrow> n | _ \<Rightarrow> [])) =
      (if rs = q # qs then Some v else if comparable rs (q # qs) then None
       else leaf_at rs (case map_of m p of Some (Node n) \<Rightarrow> n | _ \<Rightarrow> []))"
      by (rule 3(1)) simp
    then show ?thesis using Cons
      by (auto simp: update_conv' split: option.splits cval.splits)
  qed simp
qed simp

section \<open>Environment variables\<close>

text \<open>The path a variable is written to, if it is kept.\<close>

definition var_path :: "string \<Rightarrow> string \<Rightarrow> string \<Rightarrow> string list option" where
  "var_path pre sep k =
     (let key = norm_key k in
      if is_unsafe_var key \<or> (norm_key pre \<noteq> '''' \<and> \<not> has_prefix key (norm_key pre)) then None
      else (let key' = drop (length (norm_key pre)) key in
            Some (if sep = '''' then [key'] else split_on sep key')))"

definition var_entries :: "string \<Rightarrow> string \<Rightarrow> (string \<times> string) list \<Rightarrow> (string list \<times> string) list" where
  "var_entries pre sep vars =
     List.map_filter (\<lambda>(k, v). map_option (\<lambda>p. (p, v)) (var_path pre sep k)) vars"

lemma split_on_ne: "split_on sep s \<noteq> []"
  by (cases s) (auto split: list.splits)

lemma var_path_ne: "var_path pre sep k = Some p \<Longrightarrow> p \<noteq> []"
  by (auto simp: var_path_def Let_def split_on_ne split: if_splits)

lemma parse_variable_path:
  "parse_variable (norm_key pre) sep (k, v) m =
     (case var_path pre sep k of None \<Rightarrow> m | Some p \<Rightarrow> build_path p (Leaf v) m)"
  by (auto simp: parse_variable_def var_path_def build_nested_map_def Let_def)

lemma fold_variables:
  "fold (parse_variable (norm_key pre) sep) vars m =
     fold (\<lambda>(p, v). build_path p (Leaf v)) (var_entries pre sep vars) m"
  by (induction vars arbitrary: m)
     (auto simp: parse_variable_path var_entries_def map_filter_simps split: option.splits)

lemma fold_build:
  assumes "sorted_wrt (\<lambda>a b. \<not> comparable a b) (map fst es)" and "\<forall>e\<in>set es. fst e \<noteq> []"
  shows "leaf_at ps (fold (\<lambda>(p, v). build_path p (Leaf v)) es []) = map_of es ps"
  using assms
proof (induction es rule: rev_induct)
  case (snoc e es)
  obtain p v where e: "e = (p, v)" by (cases e)
  have IH: "leaf_at ps (fold (\<lambda>(p, v). build_path p (Leaf v)) es []) = map_of es ps"
    using snoc by (simp add: sorted_wrt_append)
  have no: "map_of es q = None" if "comparable q p" for q
    using that snoc.prems(1) e by (auto simp: sorted_wrt_append map_of_eq_None_iff comparable_sym)
  have "comparable p p" by (simp add: comparable_def)
  then have "leaf_at ps (build_path p (Leaf v) (fold (\<lambda>(p, v). build_path p (Leaf v)) es [])) =
      (if ps = p then Some v else if comparable ps p then None else map_of es ps)"
    using leaf_at_build [of p ps v] snoc.prems(2) IH e by simp
  also have "\<dots> = map_of (es @ [e]) ps"
    using no e \<open>comparable p p\<close> by (auto simp: map_add_def split: option.splits)
  finally show ?case by (simp add: e)
qed simp

lemma sorted_wrt_sym_perm:
  assumes "mset xs = mset ys" and "\<And>a b. P a b \<longleftrightarrow> P b a" and "sorted_wrt P xs"
  shows "sorted_wrt P ys"
  using assms(1,3)
proof (induction xs arbitrary: ys)
  case (Cons x xs)
  then obtain us vs where y: "ys = us @ x # vs"
    by (metis list.set_intros(1) mset_eq_setD split_list)
  with Cons.prems(1) have m: "mset xs = mset (us @ vs)" by simp
  with Cons have s: "sorted_wrt P (us @ vs)" by simp
  have "set xs = set us \<union> set vs" using m by (metis mset_eq_setD set_append)
  with Cons.prems(2) have "\<forall>z\<in>set us \<union> set vs. P x z" by simp
  with s y assms(2) show ?case by (auto simp: sorted_wrt_append)
qed simp

lemma var_entries_mset:
  "mset vars = mset vars' \<Longrightarrow> mset (var_entries pre sep vars) = mset (var_entries pre sep vars')"
proof (induction vars arbitrary: vars')
  case (Cons x xs)
  then obtain us vs where y: "vars' = us @ x # vs"
    by (metis list.set_intros(1) mset_eq_setD split_list)
  with Cons.prems have "mset xs = mset (us @ vs)" by simp
  from Cons.IH [OF this] show ?case
    by (auto simp: y var_entries_def map_filter_def)
qed simp

text \<open>The environment is read by content, not by order. When no kept variable's path is, or
  runs through, another's, the value at any path of ParseVariables' result is the value of the
  variable with that path and there are no others; so every order in which the range visits the
  variables gives the same configuration.\<close>

theorem variables_order_free:
  assumes "sorted_wrt (\<lambda>a b. \<not> comparable a b) (map fst (var_entries pre sep vars))"
    and "mset vars' = mset vars"
  shows "leaf_at ps (parse_variables vars' pre sep) = map_of (var_entries pre sep vars) ps \<and>
    leaf_at ps (parse_variables vars' pre sep) = leaf_at ps (parse_variables vars pre sep)"
proof -
  let ?es = "var_entries pre sep vars" and ?es' = "var_entries pre sep vars'"
  have m: "mset ?es' = mset ?es" using assms(2) by (rule var_entries_mset)
  have s: "sorted_wrt (\<lambda>a b. \<not> comparable a b) (map fst ?es')"
    by (rule sorted_wrt_sym_perm [OF _ _ assms(1)]) (use m in \<open>simp_all add: comparable_sym\<close>)
  have ne: "\<forall>e\<in>set (var_entries pre sep xs). fst e \<noteq> []" for xs
    by (auto simp: var_entries_def map_filter_def var_path_ne split: option.splits)
  have d: "distinct (map fst es)" if "sorted_wrt (\<lambda>a b. \<not> comparable a b) (map fst es)"
    for es :: "(string list \<times> string) list"
    using that by (induction es) (auto simp: comparable_def)
  have "map_of ?es' = map_of ?es"
    using d [OF s] d [OF assms(1)] mset_eq_setD [OF m] by (simp add: map_of_inject_set)
  then show ?thesis
    using fold_build [OF s ne] fold_build [OF assms(1) ne]
    by (simp add: parse_variables_def fold_variables)
qed

theorem variables_order_free_witness:
  "leaf_at [''db'', ''url''] (parse_variables [(''APP_PORT'', ''80''), (''SHELL'', ''sh''), (''app_Db__Url'', ''x'')] ''app_'' ''__'') =
     Some ''x'' \<and>
   leaf_at [''port''] (parse_variables [(''APP_PORT'', ''80''), (''SHELL'', ''sh''), (''app_Db__Url'', ''x'')] ''app_'' ''__'') =
     Some ''80''"
proof -
  let ?vars = "[(''app_Db__Url'', ''x''), (''SHELL'', ''sh''), (''APP_PORT'', ''80'')]"
  let ?vars' = "[(''APP_PORT'', ''80''), (''SHELL'', ''sh''), (''app_Db__Url'', ''x'')]"
  have e: "var_entries ''app_'' ''__'' ?vars = [([''db'', ''url''], ''x''), ([''port''], ''80'')]" by code_simp
  have s: "sorted_wrt (\<lambda>a b. \<not> comparable a b) (map fst (var_entries ''app_'' ''__'' ?vars))"
    unfolding e by (simp add: comparable_def)
  have m: "mset ?vars' = mset ?vars" by simp
  show ?thesis
    using variables_order_free [OF s m, of "[''db'', ''url'']"] variables_order_free [OF s m, of "[''port'']"] e
    by simp
qed

text \<open>A variable and one nested below it race. With the default separator, the order in which
  the range over the map visits A and A__B decides which of the two survives: visited last, A
  replaces the whole nested map; visited first, it is dropped for the map. Go's range order is
  random, so one environment gives different configurations from run to run.\<close>

theorem nested_variable_race:
  "leaf_at [''a''] (parse_variables [(''A__B'', w), (''A'', v)] '''' ''__'') = Some v \<and>
   leaf_at [''a'', ''b''] (parse_variables [(''A__B'', w), (''A'', v)] '''' ''__'') = None \<and>
   leaf_at [''a''] (parse_variables [(''A'', v), (''A__B'', w)] '''' ''__'') = None \<and>
   leaf_at [''a'', ''b''] (parse_variables [(''A'', v), (''A__B'', w)] '''' ''__'') = Some w"
proof -
  have p: "var_path '''' ''__'' ''A'' = Some [''a'']" "var_path '''' ''__'' ''A__B'' = Some [''a'', ''b'']"
    by code_simp+
  show ?thesis
    by (simp add: parse_variables_def parse_variable_path p leaf_at_build comparable_def)
qed

text \<open>A separator with an upper-case letter never splits a key.\<close>

lemma lower_not_upper: "c \<in> set (to_lower s) \<Longrightarrow> \<not> (65 \<le> byte c \<and> byte c \<le> 90)"
  by (auto simp: to_lower_def lower_char_def byte_def split: if_splits)

lemma split_on_absent: "c \<in> set sep \<Longrightarrow> c \<notin> set s \<Longrightarrow> split_on sep s = [s]"
proof (induction s)
  case (Cons a s)
  then have "\<not> has_prefix (a # s) sep" by (metis Un_iff has_prefix_iff set_append)
  with Cons show ?case by simp
qed simp

lemma upper_separator_flat:
  assumes "c \<in> set sep" and "65 \<le> byte c" and "byte c \<le> 90"
  shows "split_on sep (drop n (norm_key k)) = [drop n (norm_key k)]"
proof (rule split_on_absent [OF assms(1)])
  show "c \<notin> set (drop n (norm_key k))"
    using assms(2,3) lower_not_upper [of c] in_set_dropD [of c n] unfolding norm_key_def by blast
qed

section \<open>Set and Find\<close>

lemma find_nested_False: "snd (find_nested False ps m) = m"
proof (induction ps arbitrary: m)
  case (Cons p ps)
  have up: "AList.update p (Node n) m = m" if "map_of m p = Some (Node n)" for n
    using that by (induction m) auto
  show ?case
  proof (cases "map_of m p")
    case (Some v)
    then show ?thesis using Cons up
      by (cases v) (auto split: prod.splits; metis snd_conv)+
  qed simp
qed simp

text \<open>A path is blocked when a value sits on it where a map is needed.\<close>

fun blocked :: "string list \<Rightarrow> 'v cmap \<Rightarrow> bool" where
  "blocked [] m = False"
| "blocked (p # ps) m =
     (case map_of m p of Some (Leaf v) \<Rightarrow> True | Some (Node n) \<Rightarrow> blocked ps n | None \<Rightarrow> False)"

lemma update_same: "map_of m p = Some v \<Longrightarrow> AList.update p v m = m"
  by (induction m) auto

lemma blocked_iff: "blocked ps m \<longleftrightarrow> (\<exists>qs v. prefix qs ps \<and> leaf_at qs m = Some v)"
proof (induction ps arbitrary: m)
  case (Cons p ps)
  show ?case
  proof
    assume b: "blocked (p # ps) m"
    then show "\<exists>qs v. prefix qs (p # ps) \<and> leaf_at qs m = Some v"
    proof (cases "map_of m p")
      case (Some x)
      show ?thesis
      proof (cases x)
        case (Leaf v)
        then have "prefix [p] (p # ps)" "leaf_at [p] m = Some v" using Some by simp_all
        then show ?thesis by blast
      next
        case (Node n)
        with b Some Cons obtain qs v where "prefix qs ps" "leaf_at qs n = Some v" by auto
        then have "prefix (p # qs) (p # ps)" "leaf_at (p # qs) m = Some v" using Some Node by simp_all
        then show ?thesis by blast
      qed
    qed simp
  next
    assume "\<exists>qs v. prefix qs (p # ps) \<and> leaf_at qs m = Some v"
    then obtain qs v where q: "prefix qs (p # ps)" "leaf_at qs m = Some v" by blast
    then obtain rs where "qs = p # rs" "prefix rs ps" by (cases qs) auto
    with q(2) Cons show "blocked (p # ps) m"
      by (auto split: option.splits cval.splits)
  qed
qed simp

lemma find_nested_blocked: "blocked ps m \<Longrightarrow> find_nested cr ps m = (None, m)"
proof (induction ps arbitrary: m)
  case (Cons p ps)
  then show ?case
    by (auto simp: update_same split: option.splits cval.splits)
qed simp

text \<open>What FindNestedMap finds or creates, and the tree after a write there.\<close>

fun nested_or_empty :: "string list \<Rightarrow> 'v cmap \<Rightarrow> 'v cmap" where
  "nested_or_empty [] m = m"
| "nested_or_empty (p # ps) m =
     nested_or_empty ps (case map_of m p of Some (Node n) \<Rightarrow> n | _ \<Rightarrow> [])"

lemma blocked_Nil_map [simp]: "\<not> blocked ps []"
  by (cases ps) auto

lemma find_nested_create:
  "\<not> blocked ps m \<Longrightarrow> fst (find_nested True ps m) = Some (nested_or_empty ps m)"
proof (induction ps arbitrary: m)
  case (Cons p ps)
  have fs: "(case q of (r, n) \<Rightarrow> (r, g n)) = (fst q, g (snd q))" for q and g :: "'a cmap \<Rightarrow> 'a cmap"
    by (cases q) simp
  show ?case using Cons by (auto simp: fs split: option.splits cval.splits)
qed simp

lemma write_created:
  "\<not> blocked ps m \<Longrightarrow>
     write_at ps (AList.update f (Leaf v)) (snd (find_nested True ps m)) = build_path (ps @ [f]) (Leaf v) m"
proof (induction ps arbitrary: m)
  case (Cons p ps)
  have step: "build_path (p # ps @ [f]) (Leaf v) m =
      AList.update p (Node (build_path (ps @ [f]) (Leaf v) (case map_of m p of Some (Node n) \<Rightarrow> n | _ \<Rightarrow> []))) m"
    by (cases ps) simp_all
  have up: "AList.update p x (AList.update p y m) = AList.update p x m" for x y
    by (induction m) auto
  show ?case
  proof (cases "map_of m p")
    case None
    have "write_at ps (AList.update f (Leaf v)) (snd (find_nested True ps [])) = build_path (ps @ [f]) (Leaf v) []"
      by (rule Cons.IH) simp
    moreover obtain r n where "find_nested True ps ([] :: 'a cmap) = (r, n)" by (cases "find_nested True ps ([] :: 'a cmap)")
    ultimately show ?thesis using None step by (simp add: update_conv' up)
  next
    case (Some x)
    with Cons.prems obtain n where n: "x = Node n" "\<not> blocked ps n" by (cases x) auto
    from Cons.IH [OF n(2)] show ?thesis using Some n step
      by (auto simp: update_conv' up split: prod.splits)
  qed
qed simp

lemma find_nested_leaf:
  "(case fst (find_nested False ps m) of None \<Rightarrow> None | Some fm \<Rightarrow> map_of fm f) = Some (Leaf v) \<longleftrightarrow>
     leaf_at (ps @ [f]) m = Some v"
proof (induction ps arbitrary: m)
  case Nil
  then show ?case by (auto split: option.splits cval.splits)
next
  case (Cons p ps)
  show ?case
  proof (cases "map_of m p")
    case (Some x)
    show ?thesis
    proof (cases x)
      case (Node n)
      have "fst (find_nested False (p # ps) m) = fst (find_nested False ps n)"
        using Some Node by (simp split: prod.split)
      then show ?thesis using Cons [of n] Some Node by simp
    qed (use Some in simp)
  qed simp
qed

lemma find_value_leaf:
  assumes "key \<noteq> ''''" and "key_to_path key = (pp, f)"
  shows "find_value key c = Some (Leaf v) \<longleftrightarrow> leaf_at (pp @ [f]) (cf_values c) = Some v"
  using assms find_nested_leaf [of f pp "cf_values c" v] by (simp add: find_value_def)

lemma find_create_found:
  "fst (find_nested False ps m) = Some fm \<Longrightarrow> find_nested True ps m = (Some fm, m)"
proof (induction ps arbitrary: m)
  case (Cons p ps)
  show ?case
  proof (cases "map_of m p")
    case (Some x)
    then show ?thesis using Cons update_same [of m p]
      by (cases x) (auto split: if_splits prod.splits)
  qed (use Cons in simp)
qed simp

text \<open>Set and Find agree. Setting a scalar under a key makes Find of that key return it and
  leaves every value whose path neither contains nor runs through the key's alone; when a scalar
  already sits on the way to the key, the call changes nothing at all, and says so to nobody.
  SetDefault changes nothing when the key is found.\<close>

theorem set_find:
  assumes "key \<noteq> ''''" and "key_to_path key = (pp, f)"
  shows "((\<exists>qs w. prefix qs pp \<and> leaf_at qs (cf_values c) = Some w) \<longrightarrow> set_value key (Leaf v) c = c) \<and>
    (\<not> (\<exists>qs w. prefix qs pp \<and> leaf_at qs (cf_values c) = Some w) \<longrightarrow>
       find_value key (set_value key (Leaf v) c) = Some (Leaf v) \<and>
       (\<forall>q. \<not> comparable q (pp @ [f]) \<longrightarrow>
          leaf_at q (cf_values (set_value key (Leaf v) c)) = leaf_at q (cf_values c))) \<and>
    (find_value key c \<noteq> None \<longrightarrow> set_default key x c = c)"
proof (intro conjI impI)
  assume "\<exists>qs w. prefix qs pp \<and> leaf_at qs (cf_values c) = Some w"
  then have "blocked pp (cf_values c)" by (simp add: blocked_iff)
  then show "set_value key (Leaf v) c = c"
    using assms find_nested_blocked [of pp "cf_values c" True] by (simp add: set_value_def)
next
  assume "\<not> (\<exists>qs w. prefix qs pp \<and> leaf_at qs (cf_values c) = Some w)"
  then have b: "\<not> blocked pp (cf_values c)" by (simp add: blocked_iff)
  have "set_value key (Leaf v) c = c\<lparr>cf_values := build_path (pp @ [f]) (Leaf v) (cf_values c)\<rparr>"
    using assms find_nested_create [OF b] write_created [OF b, of f v]
    by (cases "find_nested True pp (cf_values c)") (simp add: set_value_def)
  then have l: "leaf_at q (cf_values (set_value key (Leaf v) c)) =
      (if q = pp @ [f] then Some v else if comparable q (pp @ [f]) then None else leaf_at q (cf_values c))" for q
    by (simp add: leaf_at_build)
  then show "find_value key (set_value key (Leaf v) c) = Some (Leaf v)"
    unfolding find_value_leaf [OF assms] using l [of "pp @ [f]"] by simp
  from l show "\<forall>q. \<not> comparable q (pp @ [f]) \<longrightarrow>
      leaf_at q (cf_values (set_value key (Leaf v) c)) = leaf_at q (cf_values c)"
    by (auto simp: comparable_def)
next
  assume "find_value key c \<noteq> None"
  then obtain fm y where "fst (find_nested False pp (cf_values c)) = Some fm" "map_of fm f = Some y"
    using assms by (auto simp: find_value_def split: option.splits)
  then show "set_default key x c = c"
    using assms find_create_found [of pp "cf_values c" fm] by (simp add: set_default_def)
qed

definition demo_cfg :: "(nat, nat, nat) config" where
  "demo_cfg = \<lparr>cf_values = [(''db'', Node [(''url'', Leaf 1)]), (''port'', Leaf 80)], cf_providers = [], cf_extensions = []\<rparr>"

theorem set_find_witness:
  "set_value ''Port.http'' (Leaf 9) demo_cfg = demo_cfg \<and>
   find_value '' DB . Pool.max'' (set_value '' DB . Pool.max'' (Leaf 7) demo_cfg) = Some (Leaf 7) \<and>
   set_default ''db.url'' (Leaf 3) demo_cfg = demo_cfg"
proof (intro conjI)
  have k: "key_to_path ''Port.http'' = ([''port''], ''http'')"
    "key_to_path '' DB . Pool.max'' = ([''db'', ''pool''], ''max'')"
    "key_to_path ''db.url'' = ([''db''], ''url'')" by code_simp+
  have "prefix [''port''] [''port'']" "leaf_at [''port''] (cf_values demo_cfg) = Some 80"
    by (simp_all add: demo_cfg_def)
  then show "set_value ''Port.http'' (Leaf 9) demo_cfg = demo_cfg"
    using set_find [OF _ k(1), of demo_cfg 9] by blast
  have "\<not> blocked [''db'', ''pool''] (cf_values demo_cfg)" by (simp add: demo_cfg_def)
  then show "find_value '' DB . Pool.max'' (set_value '' DB . Pool.max'' (Leaf 7) demo_cfg) = Some (Leaf 7)"
    using set_find [OF _ k(2), of demo_cfg 7] unfolding blocked_iff by blast
  have "find_value ''db.url'' demo_cfg \<noteq> None" by (simp add: find_value_def k demo_cfg_def)
  then show "set_default ''db.url'' (Leaf 3) demo_cfg = demo_cfg"
    using set_find [OF _ k(3), of demo_cfg 0] by blast
qed

section \<open>Merging\<close>

text \<open>Maps as NormalizeKeys leaves them: one entry per key at every level, keys trimmed, in lower
  case and not empty.\<close>

fun normal_val :: "'v cval \<Rightarrow> bool" and normal_pairs :: "'v cmap \<Rightarrow> bool" where
  "normal_val (Leaf v) = True"
| "normal_val (Node m) = (distinct (map fst m) \<and> normal_pairs m)"
| "normal_pairs [] = True"
| "normal_pairs ((k, v) # m) = (norm_key k = k \<and> k \<noteq> '''' \<and> normal_val v \<and> normal_pairs m)"

definition normal :: "'v cmap \<Rightarrow> bool" where
  "normal m \<longleftrightarrow> distinct (map fst m) \<and> normal_pairs m"

lemma norm_key_idem [simp]: "norm_key (norm_key k) = norm_key k"
  by (simp add: norm_key_def trim_space_lower trim_space_idem)

lemma normal_pairs_update:
  "normal_pairs m \<Longrightarrow> norm_key k = k \<Longrightarrow> k \<noteq> '''' \<Longrightarrow> normal_val v \<Longrightarrow> normal_pairs (AList.update k v m)"
  by (induction m) auto

lemma normalize_normal:
  fixes m out :: "'v cmap" and v :: "'v cval"
  shows "normal_val (normalize_val v)"
    and "distinct (map fst out) \<Longrightarrow> normal_pairs out \<Longrightarrow>
      distinct (map fst (normalize_pairs m out)) \<and> normal_pairs (normalize_pairs m out)"
  by (induction v and m out rule: normalize_val_normalize_pairs.induct)
     (auto simp: Let_def normal_pairs_update distinct_update)

lemma normal_normalize_keys: "normal (normalize_keys m)"
  using normalize_normal(2) [of "[]" m] by (simp add: normal_def normalize_keys_def)

text \<open>The paths a map decides: those that run into one of its values, and its inner maps.\<close>

fun covers :: "string list \<Rightarrow> 'v cmap \<Rightarrow> bool" where
  "covers [] m = False"
| "covers (p # ps) m =
     (case map_of m p of
        None \<Rightarrow> False
      | Some (Leaf v) \<Rightarrow> True
      | Some (Node n) \<Rightarrow> ps = [] \<or> covers ps n)"

lemma leaf_covered: "\<not> covers ps m \<Longrightarrow> leaf_at ps m = None"
  by (induction ps m rule: covers.induct) (auto split: option.splits cval.splits if_splits)

lemma covers_empty [simp]: "\<not> covers ps []"
  by (cases ps) auto

text \<open>One layer over a tree seen as a function from paths to values.\<close>

definition overlay :: "'v cmap \<Rightarrow> (string list \<Rightarrow> 'v option) \<Rightarrow> string list \<Rightarrow> 'v option" where
  "overlay src base = (\<lambda>ps. if covers ps src then leaf_at ps src else base ps)"

lemma merge_overlay:
  "normal src \<Longrightarrow> leaf_at ps (merge dst src) = overlay src (\<lambda>ps. leaf_at ps dst) ps"
proof (induction dst src arbitrary: ps rule: merge.induct)
  case (1 dst)
  then show ?case by (simp add: overlay_def)
next
  case (2 dst k v src)
  then have k: "norm_key k = k" "k \<noteq> ''''" "map_of src k = None" "normal src"
    by (auto simp: normal_def map_of_eq_None_iff)
  from 2(2) [OF refl _ k(4)] k have
    "leaf_at ps (merge (AList.update k (Leaf v) dst) src) = overlay src (\<lambda>ps. leaf_at ps (AList.update k (Leaf v) dst)) ps"
    by simp
  then show ?case using k
    by (cases ps) (auto simp: overlay_def update_conv' split: option.splits cval.splits)
next
  case (3 dst k sm src)
  then have k: "norm_key k = k" "k \<noteq> ''''" "map_of src k = None" "normal src" "normal sm"
    by (auto simp: normal_def map_of_eq_None_iff)
  define n where "n = (case map_of dst k of Some (Node dm) \<Rightarrow> merge dm sm | _ \<Rightarrow> sm)"
  have m: "merge dst ((k, Node sm) # src) = merge (AList.update k (Node n) dst) src"
    using k(1,2) by (auto simp: n_def Let_def split: option.splits cval.splits)
  have n_at: "leaf_at qs n = (if covers qs sm then leaf_at qs sm else
      case map_of dst k of Some (Node dm) \<Rightarrow> leaf_at qs dm | _ \<Rightarrow> None)" for qs
  proof (cases "\<exists>dm. map_of dst k = Some (Node dm)")
    case True
    then obtain dm where "map_of dst k = Some (Node dm)" by blast
    moreover from this have "leaf_at qs (merge dm sm) = overlay sm (\<lambda>ps. leaf_at ps dm) qs"
      using 3 k by simp
    ultimately show ?thesis by (simp add: n_def overlay_def)
  next
    case False
    then have "n = sm" by (auto simp: n_def split: option.splits cval.splits)
    then show ?thesis using False by (auto simp: leaf_covered split: option.splits cval.splits)
  qed
  have "leaf_at ps (merge (AList.update k (Node n) dst) src) =
      overlay src (\<lambda>ps. leaf_at ps (AList.update k (Node n) dst)) ps"
  proof (cases "map_of dst k")
    case None
    then show ?thesis using 3 k by (simp add: n_def)
  next
    case (Some x)
    then show ?thesis using 3 k by (cases x) (simp_all add: n_def)
  qed
  then show ?case unfolding m using k n_at
    by (cases ps) (auto simp: overlay_def update_conv' split: option.splits cval.splits)
qed

lemma merge_all_overlay:
  "leaf_at ps (merge_all ms vs) =
     fold (\<lambda>m. overlay (normalize_keys m)) ms (\<lambda>ps. leaf_at ps vs) ps"
proof (induction ms arbitrary: vs)
  case (Cons m ms)
  have "(\<lambda>ps. leaf_at ps (merge vs (normalize_keys m))) = overlay (normalize_keys m) (\<lambda>ps. leaf_at ps vs)"
    using merge_overlay [OF normal_normalize_keys] by blast
  then show ?case using Cons by (simp add: merge_all_def)
qed (simp add: merge_all_def)

lemma load_all_failed:
  "load p = Inl e \<Longrightarrow> \<forall>q\<in>set pre. is_ok (load q) \<Longrightarrow>
     load_all load (pre @ p # post) = Inl (ProviderLoadFailed p e)"
  by (induction pre) (auto simp: load_values_def split: sum.splits)

lemma load_all_ok:
  "map load qs = map Inr ms \<Longrightarrow> load_all load qs = Inr ms"
  by (induction qs arbitrary: ms) (auto simp: load_values_def map_eq_Cons_conv)

text \<open>C16: loading overlays the providers in order, all or nothing. Once the pre-load hooks have run,
  if a provider fails then Load reports the first that does and merges nothing, and the Config is
  as the hooks left it; if all succeed, the values the post-load hooks see are, at every path,
  those of the last provider that decides the path, and the old value where none does.\<close>

theorem load_overlays:
  assumes "run_hooks PreLoadHookFailed pre (cf_extensions c) c = (None, c1)"
  shows "(\<forall>us p e vs. cf_providers c1 = us @ p # vs \<longrightarrow> load p = Inl e \<longrightarrow> (\<forall>q\<in>set us. is_ok (load q)) \<longrightarrow>
      load_config load pre post c = (Some (ProviderLoadFailed p e), c1)) \<and>
    (\<forall>ms. map load (cf_providers c1) = map Inr ms \<longrightarrow>
      (\<exists>c2. load_config load pre post c = run_hooks PostLoadHookFailed post (cf_extensions c) c2 \<and>
        cf_providers c2 = cf_providers c1 \<and>
        (\<forall>ps. leaf_at ps (cf_values c2) =
           fold (\<lambda>m. overlay (normalize_keys m)) ms (\<lambda>ps. leaf_at ps (cf_values c1)) ps)))"
proof (intro conjI allI impI)
  fix us p e vs
  assume a: "cf_providers c1 = us @ p # vs" "load p = Inl e" "\<forall>q\<in>set us. is_ok (load q)"
  show "load_config load pre post c = (Some (ProviderLoadFailed p e), c1)"
    by (simp add: load_config_def assms a(1) load_all_failed [OF a(2,3)])
next
  fix ms
  assume "map load (cf_providers c1) = map Inr ms"
  then have "load_config load pre post c =
      run_hooks PostLoadHookFailed post (cf_extensions c) (c1\<lparr>cf_values := merge_all ms (cf_values c1)\<rparr>)"
    by (simp add: load_config_def assms load_all_ok)
  then show "\<exists>c2. load_config load pre post c = run_hooks PostLoadHookFailed post (cf_extensions c) c2 \<and>
        cf_providers c2 = cf_providers c1 \<and>
        (\<forall>ps. leaf_at ps (cf_values c2) =
           fold (\<lambda>m. overlay (normalize_keys m)) ms (\<lambda>ps. leaf_at ps (cf_values c1)) ps)"
    by (intro exI [of _ "c1\<lparr>cf_values := merge_all ms (cf_values c1)\<rparr>"]) (simp add: merge_all_overlay)
qed

definition demo_load :: "nat \<Rightarrow> (string, nat cmap) result" where
  "demo_load p =
     (if p = 0 then Inr [(''DB'', Node [(''Url'', Leaf 1), (''Max'', Leaf 5)]), (''port'', Leaf 80)]
      else if p = 1 then Inr [(''db'', Node [(''URL'', Leaf 2)]), (''port'', Node [(''http'', Leaf 81)])]
      else Inl ''down'')"

definition demo_two :: "nat list \<Rightarrow> (nat, nat, nat) config" where
  "demo_two ps = \<lparr>cf_values = [(''seed'', Leaf 7)], cf_providers = ps, cf_extensions = []\<rparr>"

theorem load_overlays_witness:
  "map (\<lambda>ps. leaf_at ps (cf_values (snd (load_config demo_load (\<lambda>e c. (None, c)) (\<lambda>e c. (None, c)) (demo_two [0, 1])))))
     [[''db'', ''url''], [''db'', ''max''], [''port''], [''port'', ''http''], [''seed'']] =
     [Some 2, Some 5, None, Some 81, Some 7] \<and>
   load_config demo_load (\<lambda>e c. (None, c)) (\<lambda>e c. (None, c)) (demo_two [0, 2, 1]) =
     (Some (ProviderLoadFailed 2 ''down''), demo_two [0, 2, 1])"
proof
  let ?h = "\<lambda>(e :: nat) (c :: (nat, nat, nat) config). (None :: string option, c)"
  have r: "run_hooks PreLoadHookFailed ?h (cf_extensions (demo_two ps)) (demo_two ps) = (None, demo_two ps)" for ps
    by (simp add: demo_two_def)
  let ?m0 = "projr (demo_load 0)" and ?m1 = "projr (demo_load 1)"
  have "map demo_load (cf_providers (demo_two [0, 1])) = map Inr [?m0, ?m1]"
    by (simp add: demo_two_def demo_load_def)
  with load_overlays [OF r, of "[0, 1]" demo_load ?h] obtain c2 where
    c: "load_config demo_load ?h ?h (demo_two [0, 1]) = run_hooks PostLoadHookFailed ?h (cf_extensions (demo_two [0, 1])) c2"
    "\<forall>ps. leaf_at ps (cf_values c2) =
       fold (\<lambda>m. overlay (normalize_keys m)) [?m0, ?m1] (\<lambda>ps. leaf_at ps (cf_values (demo_two [0, 1]))) ps"
    by blast
  have n: "normalize_keys ?m0 = [(''db'', Node [(''url'', Leaf 1), (''max'', Leaf 5)]), (''port'', Leaf 80)]"
    "normalize_keys ?m1 = [(''db'', Node [(''url'', Leaf 2)]), (''port'', Node [(''http'', Leaf 81)])]"
    by code_simp+
  show "map (\<lambda>ps. leaf_at ps (cf_values (snd (load_config demo_load ?h ?h (demo_two [0, 1])))))
     [[''db'', ''url''], [''db'', ''max''], [''port''], [''port'', ''http''], [''seed'']] =
     [Some 2, Some 5, None, Some 81, Some 7]"
  proof -
    have "snd (run_hooks err ?h es c) = c" for err :: "nat \<Rightarrow> string \<Rightarrow> (nat, nat) config_err" and es c
      by (induction es) auto
    then have l: "leaf_at ps (cf_values (snd (load_config demo_load ?h ?h (demo_two [0, 1])))) =
        fold (\<lambda>m. overlay (normalize_keys m)) [?m0, ?m1] (\<lambda>ps. leaf_at ps (cf_values (demo_two [0, 1]))) ps" for ps
      using c by simp
    show ?thesis unfolding list.map l fold_simps n by (simp add: overlay_def demo_two_def)
  qed
  have "cf_providers (demo_two [0, 2, 1]) = [0] @ 2 # [1]" "demo_load 2 = Inl ''down''" "\<forall>q\<in>set [0]. is_ok (demo_load q)"
    by (simp_all add: demo_two_def demo_load_def)
  with load_overlays [OF r, of "[0, 2, 1]" demo_load ?h]
  show "load_config demo_load ?h ?h (demo_two [0, 2, 1]) = (Some (ProviderLoadFailed 2 ''down''), demo_two [0, 2, 1])"
    by blast
qed

end
