(* ===== verification/Memory_Cache.thy ===== *)
theory Memory_Cache
  imports Gas_Prelude "HOL-Library.AList"
begin

text \<open>
  cache/memory/service.go: the in-memory cache. Its map is an association list, \<open>None\<close> before
  Init and after Close; a time is an integer, every reading of time.Now an argument. Each
  critical section of the lock is a function of its own, so Get is the read under the read lock
  followed by the expiry check and the lazy delete; Set carries the order in which a range over
  the map visits the keys.
\<close>

type_synonym bytes = string

record entry =
  en_value :: bytes
  en_expires :: "int option"

definition is_expired :: "entry \<Rightarrow> int \<Rightarrow> bool" where
  "is_expired e now \<longleftrightarrow> (case en_expires e of None \<Rightarrow> False | Some t \<Rightarrow> now > t)"

record mcache =
  mc_items :: "(string \<times> entry) list option"
  mc_default_ttl :: int
  mc_max_entries :: int

datatype cache_err = KeyNotFound | CacheClosed | MaxEntriesReached int

definition mc_init :: "mcache \<Rightarrow> mcache" where
  "mc_init s = s\<lparr>mc_items := Some []\<rparr>"

definition mc_close :: "mcache \<Rightarrow> mcache" where
  "mc_close s = s\<lparr>mc_items := None\<rparr>"

text \<open>Get: the read section, then the check at \<open>now\<close> and the delete section at \<open>later\<close>.\<close>

definition get_read :: "string \<Rightarrow> mcache \<Rightarrow> (cache_err, entry option) result" where
  "get_read key s = (case mc_items s of None \<Rightarrow> Inl CacheClosed | Some m \<Rightarrow> Inr (map_of m key))"

definition lazy_delete :: "string \<Rightarrow> int \<Rightarrow> mcache \<Rightarrow> mcache" where
  "lazy_delete key now s =
     (case mc_items s of
        None \<Rightarrow> s
      | Some m \<Rightarrow>
          (case map_of m key of
             Some e \<Rightarrow> if is_expired e now then s\<lparr>mc_items := Some (AList.delete key m)\<rparr> else s
           | None \<Rightarrow> s))"

definition get_finish ::
  "string \<Rightarrow> (cache_err, entry option) result \<Rightarrow> int \<Rightarrow> int \<Rightarrow> mcache \<Rightarrow> (cache_err, bytes) result \<times> mcache" where
  "get_finish key r now later s =
     (case r of
        Inl e \<Rightarrow> (Inl e, s)
      | Inr None \<Rightarrow> (Inl KeyNotFound, s)
      | Inr (Some e) \<Rightarrow>
          if is_expired e now then (Inl KeyNotFound, lazy_delete key later s)
          else (Inr (en_value e), s))"

definition mc_get :: "string \<Rightarrow> int \<Rightarrow> int \<Rightarrow> mcache \<Rightarrow> (cache_err, bytes) result \<times> mcache" where
  "mc_get key now later s = get_finish key (get_read key s) now later s"

text \<open>evictOneExpired ranges over the map and deletes the first expired entry it meets.\<close>

definition evict_one_expired ::
  "(string list \<Rightarrow> string list) \<Rightarrow> int \<Rightarrow> (string \<times> entry) list \<Rightarrow> (string \<times> entry) list option" where
  "evict_one_expired ord now m =
     (case find (\<lambda>k. case map_of m k of Some e \<Rightarrow> is_expired e now | None \<Rightarrow> False) (ord (map fst m)) of
        None \<Rightarrow> None
      | Some k \<Rightarrow> Some (AList.delete k m))"

text \<open>Set reads the time before it takes the lock, and again to evict.\<close>

definition new_entry :: "bytes \<Rightarrow> int \<Rightarrow> int \<Rightarrow> mcache \<Rightarrow> entry" where
  "new_entry v ttl0 now s =
     (let ttl = (if ttl0 = 0 then mc_default_ttl s else ttl0)
      in \<lparr>en_value = v, en_expires = (if ttl > 0 then Some (now + ttl) else None)\<rparr>)"

definition mc_set ::
  "(string list \<Rightarrow> string list) \<Rightarrow> string \<Rightarrow> bytes \<Rightarrow> int \<Rightarrow> int \<Rightarrow> int \<Rightarrow> mcache \<Rightarrow> cache_err option \<times> mcache" where
  "mc_set ord key v ttl start now s =
     (let e = new_entry v ttl start s in
      case mc_items s of
        None \<Rightarrow> (Some CacheClosed, s)
      | Some m \<Rightarrow>
          if mc_max_entries s > 0 \<and> map_of m key = None \<and> int (length m) \<ge> mc_max_entries s then
            (case evict_one_expired ord now m of
               None \<Rightarrow> (Some (MaxEntriesReached (mc_max_entries s)), s)
             | Some m' \<Rightarrow> (None, s\<lparr>mc_items := Some (AList.update key e m')\<rparr>))
          else (None, s\<lparr>mc_items := Some (AList.update key e m)\<rparr>))"

definition mc_delete :: "string \<Rightarrow> mcache \<Rightarrow> cache_err option \<times> mcache" where
  "mc_delete key s =
     (case mc_items s of
        None \<Rightarrow> (Some CacheClosed, s)
      | Some m \<Rightarrow> (None, s\<lparr>mc_items := Some (AList.delete key m)\<rparr>))"

definition mc_exists :: "string \<Rightarrow> int \<Rightarrow> mcache \<Rightarrow> (cache_err, bool) result" where
  "mc_exists key now s =
     (case get_read key s of
        Inl e \<Rightarrow> Inl e
      | Inr None \<Rightarrow> Inr False
      | Inr (Some e) \<Rightarrow> Inr (\<not> is_expired e now))"

text \<open>One tick of the cleanup goroutine; a range over a nil map does nothing.\<close>

definition remove_expired :: "int \<Rightarrow> mcache \<Rightarrow> mcache" where
  "remove_expired now s =
     (case mc_items s of
        None \<Rightarrow> s
      | Some m \<Rightarrow> s\<lparr>mc_items := Some (filter (\<lambda>ke. \<not> is_expired (snd ke) now) m)\<rparr>)"

end
