(* ===== verification/Cache_Properties.thy ===== *)
theory Cache_Properties
  imports Memory_Cache
begin

text \<open>
  The contract of a key-value cache as a locale, the client's view proved from it once (a read
  gives the last write that has not expired, whatever is tidied up in between), the in-memory
  cache as its implementation, its capacity, and the one race of its Get.
\<close>

section \<open>The contract\<close>

text \<open>What clients and the background do: a write that succeeded, a delete, a tidying step.\<close>

datatype ('k, 'v, 'w) kvop = KPut 'k 'v 'w | KDel 'k | KTidy

inductive kv_run ::
  "('s \<Rightarrow> int \<Rightarrow> 'k \<Rightarrow> 'v \<Rightarrow> 'w \<Rightarrow> 's option) \<Rightarrow> ('s \<Rightarrow> 'k \<Rightarrow> 's) \<Rightarrow> (int \<Rightarrow> 's \<Rightarrow> 's \<Rightarrow> bool) \<Rightarrow>
     int \<Rightarrow> 's \<Rightarrow> (int \<times> ('k, 'v, 'w) kvop) list \<Rightarrow> int \<Rightarrow> 's \<Rightarrow> bool"
  for put del tidy
where
  kr_start: "kv_run put del tidy t s [] t s"
| kr_put: "kv_run put del tidy t s evs t1 s1 \<Longrightarrow> t1 \<le> now \<Longrightarrow> put s1 now k v w = Some s2 \<Longrightarrow>
     kv_run put del tidy t s (evs @ [(now, KPut k v w)]) now s2"
| kr_del: "kv_run put del tidy t s evs t1 s1 \<Longrightarrow> t1 \<le> now \<Longrightarrow>
     kv_run put del tidy t s (evs @ [(now, KDel k)]) now (del s1 k)"
| kr_tidy: "kv_run put del tidy t s evs t1 s1 \<Longrightarrow> t1 \<le> now \<Longrightarrow> tidy now s1 s2 \<Longrightarrow>
     kv_run put del tidy t s (evs @ [(now, KTidy)]) now s2"

text \<open>A cache that forgets nothing: the last write of each key, and what is readable of it.\<close>

definition record_op :: "int \<times> ('k, 'v, 'w) kvop \<Rightarrow> ('k \<rightharpoonup> 'v \<times> 'w) \<Rightarrow> ('k \<rightharpoonup> 'v \<times> 'w)" where
  "record_op e h = (case snd e of KPut k v w \<Rightarrow> h(k \<mapsto> (v, w)) | KDel k \<Rightarrow> h(k := None) | KTidy \<Rightarrow> h)"

definition last_write :: "(int \<times> ('k, 'v, 'w) kvop) list \<Rightarrow> ('k \<rightharpoonup> 'v \<times> 'w)" where
  "last_write evs = fold record_op evs (\<lambda>_. None)"

definition readable :: "('w \<Rightarrow> int \<Rightarrow> bool) \<Rightarrow> ('v \<times> 'w) option \<Rightarrow> int \<Rightarrow> 'v option" where
  "readable alive x t =
     (case x of None \<Rightarrow> None | Some (v, w) \<Rightarrow> if alive w t then Some v else None)"

locale kv_cache =
  fixes view :: "'s \<Rightarrow> int \<Rightarrow> 'k \<Rightarrow> 'v option"
    and inv :: "'s \<Rightarrow> bool"
    and put :: "'s \<Rightarrow> int \<Rightarrow> 'k \<Rightarrow> 'v \<Rightarrow> 'w \<Rightarrow> 's option"
    and del :: "'s \<Rightarrow> 'k \<Rightarrow> 's"
    and tidy :: "int \<Rightarrow> 's \<Rightarrow> 's \<Rightarrow> bool"
    and alive :: "'w \<Rightarrow> int \<Rightarrow> bool"
  assumes inv_put: "inv s \<Longrightarrow> put s now k v w = Some s' \<Longrightarrow> inv s'"
    and inv_del: "inv s \<Longrightarrow> inv (del s k)"
    and inv_tidy: "inv s \<Longrightarrow> tidy now s s' \<Longrightarrow> inv s'"
    and view_put: "inv s \<Longrightarrow> put s now k v w = Some s' \<Longrightarrow> now \<le> t \<Longrightarrow>
      view s' t k' = (if k' = k then if alive w t then Some v else None else view s t k')"
    and view_del: "inv s \<Longrightarrow> view (del s k) t k' = (if k' = k then None else view s t k')"
    and view_tidy: "inv s \<Longrightarrow> tidy now s s' \<Longrightarrow> now \<le> t \<Longrightarrow> view s' t k' = view s t k'"
begin

lemma run_inv: "kv_run put del tidy t s evs t1 s1 \<Longrightarrow> inv s \<Longrightarrow> inv s1"
  by (induction rule: kv_run.induct) (auto intro: inv_put inv_del inv_tidy)

lemma run_view:
  assumes "kv_run put del tidy t s evs t1 s1" and "inv s" and "\<forall>t k. view s t k = None"
  shows "t1 \<le> now \<Longrightarrow> view s1 now k = readable alive (last_write evs k) now"
  using assms
proof (induction arbitrary: now k rule: kv_run.induct)
  case (kr_start t s)
  then show ?case by (simp add: last_write_def readable_def)
next
  case (kr_put t s evs t1 s1 n k' v w s2)
  then have "inv s1" using run_inv by blast
  then show ?case using kr_put view_put
    by (simp add: last_write_def record_op_def readable_def)
next
  case (kr_del t s evs t1 s1 n k')
  then have "inv s1" using run_inv by blast
  then show ?case using kr_del view_del
    by (simp add: last_write_def record_op_def readable_def)
next
  case (kr_tidy t s evs t1 s1 n s2)
  then have "inv s1" using run_inv by blast
  then show ?case using kr_tidy view_tidy [of s1 n s2 now k]
    by (simp add: last_write_def record_op_def)
qed

end

section \<open>The in-memory cache implements it\<close>

definition mem_view :: "mcache \<Rightarrow> int \<Rightarrow> string \<Rightarrow> bytes option" where
  "mem_view s t k =
     (case mc_items s of
        None \<Rightarrow> None
      | Some m \<Rightarrow> (case map_of m k of
                    Some e \<Rightarrow> if is_expired e t then None else Some (en_value e)
                  | None \<Rightarrow> None))"

text \<open>An open cache of a configuration: one entry per key, and no more than the configured number.\<close>

definition mem_inv :: "int \<Rightarrow> int \<Rightarrow> mcache \<Rightarrow> bool" where
  "mem_inv d mx s \<longleftrightarrow> mc_default_ttl s = d \<and> mc_max_entries s = mx \<and>
     (case mc_items s of
        None \<Rightarrow> False
      | Some m \<Rightarrow> distinct (map fst m) \<and> (mx > 0 \<longrightarrow> int (length m) \<le> mx))"

text \<open>A write of Set: its ttl, the time it read before the lock and the order of its range.\<close>

type_synonym set_args = "int \<times> int \<times> (string list \<Rightarrow> string list)"

definition mem_put :: "mcache \<Rightarrow> int \<Rightarrow> string \<Rightarrow> bytes \<Rightarrow> set_args \<Rightarrow> mcache option" where
  "mem_put s now k v w =
     (case w of (ttl, start, ord) \<Rightarrow>
        (case mc_set ord k v ttl start now s of (None, s') \<Rightarrow> Some s' | (Some e, s') \<Rightarrow> None))"

definition mem_del :: "mcache \<Rightarrow> string \<Rightarrow> mcache" where
  "mem_del s k = snd (mc_delete k s)"

definition mem_tidy :: "int \<Rightarrow> mcache \<Rightarrow> mcache \<Rightarrow> bool" where
  "mem_tidy now s s' \<longleftrightarrow> s' = remove_expired now s \<or> (\<exists>k. s' = lazy_delete k now s)"

definition mem_alive :: "int \<Rightarrow> set_args \<Rightarrow> int \<Rightarrow> bool" where
  "mem_alive d w t =
     (case w of (ttl0, start, ord) \<Rightarrow>
        let ttl = (if ttl0 = 0 then d else ttl0) in ttl \<le> 0 \<or> t \<le> start + ttl)"

lemma expired_later: "is_expired e now \<Longrightarrow> now \<le> t \<Longrightarrow> is_expired e t"
  by (auto simp: is_expired_def split: option.splits)

lemma new_entry_alive:
  "mc_default_ttl s = d \<Longrightarrow> \<not> is_expired (new_entry v ttl start s) t \<longleftrightarrow> mem_alive d (ttl, start, ord) t"
  by (auto simp: is_expired_def new_entry_def mem_alive_def Let_def)

lemma new_entry_value [simp]: "en_value (new_entry v ttl start s) = v"
  by (simp add: new_entry_def Let_def)

lemma length_update:
  "length (AList.update k v m) = (if map_of m k = None then Suc (length m) else length m)"
  by (induction m) auto

lemma map_of_delete_other: "map_of (AList.delete k m) k' = (if k' = k then None else map_of m k')"
  by (simp add: delete_conv')

lemma length_delete:
  "distinct (map fst m) \<Longrightarrow> k \<in> fst ` set m \<Longrightarrow> Suc (length (AList.delete k m)) = length m"
proof (induction m)
  case (Cons a m)
  show ?case
  proof (cases "fst a = k")
    case True
    then have "AList.delete k m = m" using Cons.prems by (intro delete_id) auto
    then show ?thesis using True by (cases a) simp
  next
    case False
    then show ?thesis using Cons by (cases a) auto
  qed
qed simp

lemma evict_spec:
  assumes "evict_one_expired ord now m = Some m'"
  obtains k e where "m' = AList.delete k m" and "map_of m k = Some e" and "is_expired e now"
  using assms by (auto simp: evict_one_expired_def find_Some_iff split: option.splits)

lemma mem_set_cases:
  assumes "mem_inv d mx s" and "mem_put s now k v (ttl, start, ord) = Some s'"
  obtains m m' where "mc_items s = Some m" and "s' = s\<lparr>mc_items := Some (AList.update k (new_entry v ttl start s) m')\<rparr>"
    and "m' = m \<or> (\<exists>j e. m' = AList.delete j m \<and> map_of m j = Some e \<and> is_expired e now)"
    and "mx > 0 \<longrightarrow> map_of m' k = None \<longrightarrow> int (length m') < mx"
proof -
  from assms(1) obtain m where m: "mc_items s = Some m" and inv: "mc_max_entries s = mx"
      "distinct (map fst m)" "mx > 0 \<longrightarrow> int (length m) \<le> mx"
    by (auto simp: mem_inv_def split: option.splits)
  show thesis
  proof (cases "mc_max_entries s > 0 \<and> map_of m k = None \<and> int (length m) \<ge> mc_max_entries s")
    case True
    then obtain m' where e: "evict_one_expired ord now m = Some m'"
      and s': "s' = s\<lparr>mc_items := Some (AList.update k (new_entry v ttl start s) m')\<rparr>"
      using assms(2) m by (auto simp: mem_put_def mc_set_def Let_def split: option.splits if_splits)
    from evict_spec [OF e] obtain j x where j: "m' = AList.delete j m" "map_of m j = Some x" "is_expired x now"
      by blast
    have "j \<in> fst ` set m" using j(2) by (metis option.distinct(1) map_of_eq_None_iff)
    then have "int (length m') < mx"
      using length_delete [OF inv(2)] inv(1,3) True j(1) by force
    with m s' j show thesis by (intro that) auto
  next
    case False
    then have "s' = s\<lparr>mc_items := Some (AList.update k (new_entry v ttl start s) m)\<rparr>"
      using assms(2) m by (auto simp: mem_put_def mc_set_def Let_def split: if_splits)
    with False m inv show thesis by (intro that) auto
  qed
qed

interpretation mem: kv_cache mem_view "mem_inv d mx" mem_put mem_del mem_tidy "mem_alive d"
  for d mx :: int
proof unfold_locales
  fix s s' :: mcache and now t k k' v and w :: set_args
  obtain ttl start ord where w: "w = (ttl, start, ord)" by (cases w)
  {
    assume i: "mem_inv d mx s" and p: "mem_put s now k v w = Some s'"
    then obtain m m' where m: "mc_items s = Some m"
      and s': "s' = s\<lparr>mc_items := Some (AList.update k (new_entry v ttl start s) m')\<rparr>"
      and m': "m' = m \<or> (\<exists>j e. m' = AList.delete j m \<and> map_of m j = Some e \<and> is_expired e now)"
      and len: "mx > 0 \<longrightarrow> map_of m' k = None \<longrightarrow> int (length m') < mx"
      unfolding w by (elim mem_set_cases)
    have d: "distinct (map fst m)" "mx > 0 \<longrightarrow> int (length m) \<le> mx" "mc_default_ttl s = d" "mc_max_entries s = mx"
      using i m by (simp_all add: mem_inv_def)
    have dd: "distinct (map fst m')" "length m' \<le> length m"
      using m' d(1) by (auto simp: distinct_delete length_delete_le)
    show "mem_inv d mx s'"
      using dd d len by (auto simp: mem_inv_def s' distinct_update length_update)
    assume "now \<le> t"
    then have same: "(case map_of m' k' of Some e \<Rightarrow> if is_expired e t then None else Some (en_value e) | None \<Rightarrow> None) =
        (case map_of m k' of Some e \<Rightarrow> if is_expired e t then None else Some (en_value e) | None \<Rightarrow> None)"
      using m' expired_later by (auto simp: map_of_delete_other split: option.splits if_splits)
    show "mem_view s' t k' = (if k' = k then if mem_alive d w t then Some v else None else mem_view s t k')"
      using new_entry_alive [OF d(3), of v ttl start t ord] same m
      by (auto simp: mem_view_def s' w update_conv')
  }
  {
    assume "mem_inv d mx s"
    then obtain m where "mc_items s = Some m" by (auto simp: mem_inv_def split: option.splits)
    with \<open>mem_inv d mx s\<close> show "mem_inv d mx (mem_del s k)"
        and "mem_view (mem_del s k) t k' = (if k' = k then None else mem_view s t k')"
      using length_delete_le [of k m]
      by (auto simp: mem_inv_def mem_view_def mem_del_def mc_delete_def distinct_delete map_of_delete_other)
  }
  {
    assume i: "mem_inv d mx s" and t: "mem_tidy now s s'"
    then obtain m where m: "mc_items s = Some m" by (auto simp: mem_inv_def split: option.splits)
    have d: "distinct (map fst m)" using i m by (simp add: mem_inv_def)
    from t consider (all) "s' = remove_expired now s" | (one) j where "s' = lazy_delete j now s"
      by (auto simp: mem_tidy_def)
    then obtain m' where m': "mc_items s' = Some m'" "distinct (map fst m')" "length m' \<le> length m"
      and rest: "mc_default_ttl s' = mc_default_ttl s" "mc_max_entries s' = mc_max_entries s"
      and gone: "\<forall>q. map_of m' q = map_of m q \<or> (map_of m' q = None \<and> (\<exists>e. map_of m q = Some e \<and> is_expired e now))"
    proof cases
      case all
      have "map_of (filter (\<lambda>ke. \<not> is_expired (snd ke) now) m) q =
          (case map_of m q of None \<Rightarrow> None | Some e \<Rightarrow> if is_expired e now then None else Some e)" for q
        using d by (induction m) (auto simp: map_of_eq_None_iff split: option.splits)
      then show thesis using all m d
        by (intro that [of "filter (\<lambda>ke. \<not> is_expired (snd ke) now) m"])
          (auto simp: remove_expired_def distinct_map_filter split: option.splits)
    next
      case (one j)
      show thesis
      proof (cases "\<exists>e. map_of m j = Some e \<and> is_expired e now")
        case True
        then show thesis using one m d length_delete_le [of j m]
          by (intro that [of "AList.delete j m"])
            (auto simp: lazy_delete_def distinct_delete map_of_delete_other)
      next
        case False
        then have "s' = s" using one m by (auto simp: lazy_delete_def split: option.splits)
        then show thesis using m d by (intro that [of m]) auto
      qed
    qed
    show "mem_inv d mx s'" using i m m' rest by (auto simp: mem_inv_def)
    assume "now \<le> t"
    with gone [rule_format, of k'] expired_later show "mem_view s' t k' = mem_view s t k'"
      unfolding mem_view_def m m'(1) by (elim disjE conjE exE) simp_all
  }
qed

section \<open>What clients see\<close>

lemma mc_get_view:
  "mc_items s = Some m \<Longrightarrow>
     fst (mc_get k now later s) = (case mem_view s now k of Some v \<Rightarrow> Inr v | None \<Rightarrow> Inl KeyNotFound)"
  by (auto simp: mc_get_def get_read_def get_finish_def mem_view_def split: option.split)

lemma open_view:
  assumes "mc_items s0 = Some []" and "kv_run mem_put mem_del mem_tidy t0 s0 evs t1 s" and "t1 \<le> now"
  shows "mem_inv (mc_default_ttl s0) (mc_max_entries s0) s"
    and "mem_view s now k = readable (mem_alive (mc_default_ttl s0)) (last_write evs k) now"
proof -
  have i: "mem_inv (mc_default_ttl s0) (mc_max_entries s0) s0" by (simp add: mem_inv_def assms(1))
  show "mem_inv (mc_default_ttl s0) (mc_max_entries s0) s"
    by (rule mem.run_inv [OF assms(2) i])
  show "mem_view s now k = readable (mem_alive (mc_default_ttl s0)) (last_write evs k) now"
    by (rule mem.run_view [OF assms(2) i _ assms(3)]) (simp add: mem_view_def assms(1))
qed

text \<open>C13: the cache is its history. After any run of successful Sets, Deletes, clean-up ticks and
  lazy deletes at non-decreasing times on a freshly opened cache, Get of a key returns the value
  of its last Set, if no Delete came after it and its time to live has not passed, and the key
  not found otherwise; Exists says the same. Evictions, clean-up and the order of map ranges
  cannot be observed.\<close>

theorem cache_history:
  assumes "mc_items s0 = Some []" and "kv_run mem_put mem_del mem_tidy t0 s0 evs t1 s" and "t1 \<le> now"
  shows "fst (mc_get k now later s) =
      (case readable (mem_alive (mc_default_ttl s0)) (last_write evs k) now of
         Some v \<Rightarrow> Inr v | None \<Rightarrow> Inl KeyNotFound) \<and>
    mc_exists k now s = Inr (readable (mem_alive (mc_default_ttl s0)) (last_write evs k) now \<noteq> None)"
proof -
  obtain m where m: "mc_items s = Some m"
    using open_view(1) [OF assms] by (auto simp: mem_inv_def split: option.splits)
  have "mc_exists k now s = Inr (mem_view s now k \<noteq> None)"
    by (auto simp: mc_exists_def get_read_def mem_view_def m split: option.split)
  then show ?thesis
    using mc_get_view [OF m] open_view(2) [OF assms] by simp
qed

definition demo_cache :: mcache where
  "demo_cache = \<lparr>mc_items = Some [], mc_default_ttl = 0, mc_max_entries = 1\<rparr>"

lemma demo_cache_run:
  "kv_run mem_put mem_del mem_tidy 0 demo_cache
     [(1, KPut ''a'' ''x'' (5, 0, id)), (7, KPut ''b'' ''y'' (0, 7, rev)), (8, KTidy)] 8
     \<lparr>mc_items = Some [(''b'', \<lparr>en_value = ''y'', en_expires = None\<rparr>)], mc_default_ttl = 0, mc_max_entries = 1\<rparr>"
proof -
  let ?s1 = "\<lparr>mc_items = Some [(''a'', \<lparr>en_value = ''x'', en_expires = Some 5\<rparr>)], mc_default_ttl = 0, mc_max_entries = 1\<rparr> :: mcache"
  let ?s2 = "\<lparr>mc_items = Some [(''b'', \<lparr>en_value = ''y'', en_expires = None\<rparr>)], mc_default_ttl = 0, mc_max_entries = 1\<rparr> :: mcache"
  let ?run = "kv_run mem_put mem_del mem_tidy 0 demo_cache"
  have "?run [] 0 demo_cache" by (rule kr_start)
  then have "?run ([] @ [(1, KPut ''a'' ''x'' (5, 0, id))]) 1 ?s1"
    by (rule kr_put) (simp_all add: mem_put_def mc_set_def demo_cache_def new_entry_def)
  then have "?run (([] @ [(1, KPut ''a'' ''x'' (5, 0, id))]) @ [(7, KPut ''b'' ''y'' (0, 7, rev))]) 7 ?s2"
    by (rule kr_put) (simp_all add: mem_put_def mc_set_def new_entry_def evict_one_expired_def is_expired_def)
  then have "?run ((([] @ [(1, KPut ''a'' ''x'' (5, 0, id))]) @ [(7, KPut ''b'' ''y'' (0, 7, rev))]) @ [(8, KTidy)]) 8 ?s2"
    by (rule kr_tidy) (simp_all add: mem_tidy_def remove_expired_def is_expired_def)
  then show ?thesis by simp
qed

theorem cache_history_witness:
  "fst (mc_get ''b'' 9 9 \<lparr>mc_items = Some [(''b'', \<lparr>en_value = ''y'', en_expires = None\<rparr>)], mc_default_ttl = 0, mc_max_entries = 1\<rparr>) = Inr ''y'' \<and>
   fst (mc_get ''a'' 9 9 \<lparr>mc_items = Some [(''b'', \<lparr>en_value = ''y'', en_expires = None\<rparr>)], mc_default_ttl = 0, mc_max_entries = 1\<rparr>) = Inl KeyNotFound"
  using cache_history [OF _ demo_cache_run, of 9 "''b''" 9] cache_history [OF _ demo_cache_run, of 9 "''a''" 9]
  by (simp add: demo_cache_def last_write_def record_op_def readable_def mem_alive_def)

text \<open>The capacity holds and is used. With MaxEntries set, the cache never holds more entries;
  and a Set is turned away only when the key is not readable and MaxEntries other keys are, never
  because expired entries are in the way.\<close>

theorem cache_capacity:
  assumes "mc_items s0 = Some []" and "kv_run mem_put mem_del mem_tidy t0 s0 evs t1 s" and "t1 \<le> now"
    and "mc_max_entries s0 > 0"
  shows "(\<exists>m. mc_items s = Some m \<and> int (length m) \<le> mc_max_entries s0) \<and>
    (\<forall>e s'. mc_set ord k v ttl start now s = (Some e, s') \<longrightarrow> (\<forall>xs. set (ord xs) = set xs) \<longrightarrow>
       s' = s \<and> e = MaxEntriesReached (mc_max_entries s0) \<and>
       readable (mem_alive (mc_default_ttl s0)) (last_write evs k) now = None \<and>
       mc_max_entries s0 = int (card {j. readable (mem_alive (mc_default_ttl s0)) (last_write evs j) now \<noteq> None}))"
proof -
  from open_view(1) [OF assms(1-3)] obtain m where m: "mc_items s = Some m" "distinct (map fst m)"
      "int (length m) \<le> mc_max_entries s0" "mc_max_entries s = mc_max_entries s0"
    using assms(4) by (auto simp: mem_inv_def split: option.splits)
  have view: "mem_view s now j = readable (mem_alive (mc_default_ttl s0)) (last_write evs j) now" for j
    by (rule open_view(2) [OF assms(1-3)])
  have "s' = s \<and> e = MaxEntriesReached (mc_max_entries s0) \<and> mem_view s now k = None \<and>
      mc_max_entries s0 = int (card {j. mem_view s now j \<noteq> None})"
    if r: "mc_set ord k v ttl start now s = (Some e, s')" and ord: "\<forall>xs. set (ord xs) = set xs" for e s'
  proof -
    from r m have full: "map_of m k = None" "int (length m) \<ge> mc_max_entries s0"
      and none: "evict_one_expired ord now m = None" and s': "s' = s" "e = MaxEntriesReached (mc_max_entries s0)"
      by (auto simp: mc_set_def Let_def split: if_splits option.splits)
    have "mem_view s now j \<noteq> None \<longleftrightarrow> j \<in> fst ` set m" for j
    proof (cases "map_of m j")
      case None
      then have "j \<notin> fst ` set m" by (simp add: map_of_eq_None_iff)
      with None show ?thesis using m by (simp add: mem_view_def)
    next
      case (Some x)
      then have j: "j \<in> fst ` set m" by (metis option.distinct(1) map_of_eq_None_iff)
      then have "j \<in> set (ord (map fst m))" using ord by simp
      with none Some have "\<not> is_expired x now"
        by (auto simp: evict_one_expired_def find_None_iff split: option.splits)
      with Some m j show ?thesis by (simp add: mem_view_def)
    qed
    then have "{j. mem_view s now j \<noteq> None} = fst ` set m" by blast
    moreover have "card (fst ` set m) = length m" using m(2) by (metis distinct_card length_map set_map)
    ultimately show ?thesis using s' full m by (simp add: mem_view_def)
  qed
  then show ?thesis using m view by auto
qed

theorem cache_capacity_witness:
  "fst (mc_set rev ''c'' ''z'' 0 9 9 \<lparr>mc_items = Some [(''b'', \<lparr>en_value = ''y'', en_expires = None\<rparr>)], mc_default_ttl = 0, mc_max_entries = 1\<rparr>) =
     Some (MaxEntriesReached 1) \<and>
   card {j. readable (mem_alive 0) (last_write
     [(1, KPut ''a'' ''x'' (5, 0, id)), (7, KPut ''b'' ''y'' (0, 7, rev)), (8, KTidy)] j) (9 :: int) \<noteq> None} = 1"
proof
  let ?s = "\<lparr>mc_items = Some [(''b'', \<lparr>en_value = ''y'', en_expires = None\<rparr>)], mc_default_ttl = 0, mc_max_entries = 1\<rparr> :: mcache"
  have r: "mc_set rev ''c'' ''z'' 0 9 9 ?s = (Some (MaxEntriesReached 1), ?s)" by code_simp
  then show "fst (mc_set rev ''c'' ''z'' 0 9 9 ?s) = Some (MaxEntriesReached 1)" by simp
  have "(1 :: int) = int (card {j. readable (mem_alive 0) (last_write
     [(1, KPut ''a'' ''x'' (5, 0, id)), (7, KPut ''b'' ''y'' (0, 7, rev)), (8, KTidy)] j) 9 \<noteq> None})"
    using cache_capacity [OF _ demo_cache_run, of 9 rev "''c''" "''z''" 0 9] r
    by (simp add: demo_cache_def)
  then show "card {j. readable (mem_alive 0) (last_write
     [(1, KPut ''a'' ''x'' (5, 0, id)), (7, KPut ''b'' ''y'' (0, 7, rev)), (8, KTidy)] j) (9 :: int) \<noteq> None} = 1"
    by simp
qed

text \<open>Get can miss a key that is readable all along. Get reads the entry under the lock and the
  clock after it: when another Set renews the key in between and the old entry's time passes,
  Get answers key not found, though the old value was readable when it read the entry and the
  new one when it read the clock, and at the time of the renewal in both states.\<close>

theorem get_misses_renewed_key:
  "let s = \<lparr>mc_items = Some [(k, \<lparr>en_value = v, en_expires = Some 10\<rparr>)], mc_default_ttl = d, mc_max_entries = mx\<rparr>;
       r = get_read k s;
       s' = snd (mc_set ord k v' 5 9 9 s)
   in mem_view s 8 k = Some v \<and> mem_view s 9 k = Some v \<and>
      fst (mc_set ord k v' 5 9 9 s) = None \<and> mem_view s' 9 k = Some v' \<and> mem_view s' 11 k = Some v' \<and>
      get_finish k r 11 11 s' = (Inl KeyNotFound, s')"
  by (simp add: Let_def mem_view_def get_read_def get_finish_def mc_set_def new_entry_def is_expired_def
      lazy_delete_def)

end
