(* ===== verification/Auth_Tokens.thy ===== *)
theory Auth_Tokens
  imports Gas_Prelude
begin

text \<open>
  auth/token: single-use tokens (token.go) over the database store (db/store.go, db/adapters.go).
  A table is the list of its rows and an SQL statement one atomic step on it; the store of a
  dialect either consumes a token in one statement (DELETE ... RETURNING on PostgreSQL and
  SQLite) or by a SELECT and a DELETE of one transaction (MySQL), between which other calls run.
  The hash, the random raw token and the clock are arguments; times are nanoseconds, and
  \<open>stime\<close> is what a dialect's column keeps of one. Database failures are left out.
\<close>

record token_row =
  tr_id :: string
  tr_subject :: string
  tr_hash :: string
  tr_purpose :: string
  tr_expires :: int

text \<open>A MySQL consume between its two statements: the hash and the row the SELECT returned.\<close>

type_synonym in_flight = "string \<times> token_row"

record token_state =
  tk_rows :: "token_row list"
  tk_flight :: "nat \<rightharpoonup> in_flight"

datatype token_err = TokenInvalid | TokenExpired | InsertFailed

section \<open>Statements\<close>

text \<open>id is the primary key and token_hash is unique: an INSERT of a duplicate fails.\<close>

definition insert_token :: "token_row \<Rightarrow> token_row list \<Rightarrow> token_row list option" where
  "insert_token r rows =
     (if list_ex (\<lambda>x. tr_id x = tr_id r \<or> tr_hash x = tr_hash r) rows then None else Some (rows @ [r]))"

definition get_token_by_hash :: "string \<Rightarrow> token_row list \<Rightarrow> token_row option" where
  "get_token_by_hash h rows = find (\<lambda>r. tr_hash r = h) rows"

text \<open>The number of rows affected and the table.\<close>

definition delete_token_by_hash :: "string \<Rightarrow> token_row list \<Rightarrow> nat \<times> token_row list" where
  "delete_token_by_hash h rows =
     (length (filter (\<lambda>r. tr_hash r = h) rows), filter (\<lambda>r. tr_hash r \<noteq> h) rows)"

definition consume_token_by_hash :: "string \<Rightarrow> token_row list \<Rightarrow> token_row option \<times> token_row list" where
  "consume_token_by_hash h rows = (get_token_by_hash h rows, snd (delete_token_by_hash h rows))"

definition delete_by_subject_purpose :: "string \<Rightarrow> string \<Rightarrow> token_row list \<Rightarrow> token_row list" where
  "delete_by_subject_purpose subject purpose rows =
     filter (\<lambda>r. \<not> (tr_subject r = subject \<and> tr_purpose r = purpose)) rows"

definition delete_expired_tokens :: "int \<Rightarrow> token_row list \<Rightarrow> token_row list" where
  "delete_expired_tokens cutoff rows = filter (\<lambda>r. \<not> tr_expires r < cutoff) rows"

text \<open>formatSQLiteTime and parseSQLiteTime: the column keeps whole seconds.\<close>

definition sqlite_time :: "int \<Rightarrow> int" where
  "sqlite_time t = t div 1000000000 * 1000000000"

section \<open>The service\<close>

definition issue ::
  "(string \<Rightarrow> string) \<Rightarrow> (int \<Rightarrow> int) \<Rightarrow> int \<Rightarrow> string \<Rightarrow> string \<Rightarrow> string \<Rightarrow> string \<Rightarrow> int \<Rightarrow> int \<Rightarrow>
     token_row list \<Rightarrow> token_err option \<times> token_row list" where
  "issue sha stime default_ttl raw tid subject purpose ttl0 now rows =
     (let ttl = (if ttl0 = 0 then default_ttl else ttl0) in
      case insert_token \<lparr>tr_id = tid, tr_subject = subject, tr_hash = sha raw, tr_purpose = purpose,
                         tr_expires = stime (now + ttl)\<rparr> rows of
        None \<Rightarrow> (Some InsertFailed, rows)
      | Some rows' \<Rightarrow> (None, rows'))"

text \<open>Verify after the store returned a record, or none.\<close>

definition check_record :: "token_row option \<Rightarrow> string \<Rightarrow> int \<Rightarrow> (token_err, string) result" where
  "check_record rec purpose now =
     (case rec of
        None \<Rightarrow> Inl TokenInvalid
      | Some r \<Rightarrow>
          if tr_purpose r \<noteq> purpose then Inl TokenInvalid
          else if now > tr_expires r then Inl TokenExpired
          else Inr (tr_subject r))"

definition revoke :: "(string \<Rightarrow> string) \<Rightarrow> string \<Rightarrow> token_row list \<Rightarrow> token_err option \<times> token_row list" where
  "revoke sha raw rows =
     (case delete_token_by_hash (sha raw) rows of (n, rows') \<Rightarrow>
        (if n = 0 then Some TokenInvalid else None, rows'))"

text \<open>
  What can happen to the table: whole calls, and the statements of a MySQL Verify by caller c. The
  clean-up loop deletes what expired before the time it reads.
\<close>

datatype token_op =
    Issue string string string string int int
  | Verify string string int
  | VerifySelect nat string
  | VerifyDelete nat string int
  | Revoke string
  | RevokeAllByPurpose string string
  | Cleanup int

datatype token_out =
    Issued
  | Verified string "(token_err, string) result"
  | Burned string "token_row option" "(token_err, string) result"
  | Done
  | Failed token_err

fun token_step ::
  "(string \<Rightarrow> string) \<Rightarrow> (int \<Rightarrow> int) \<Rightarrow> int \<Rightarrow> token_op \<Rightarrow> token_state \<Rightarrow> token_out \<times> token_state" where
  "token_step sha stime dt (Issue raw tid subject purpose ttl now) s =
     (case issue sha stime dt raw tid subject purpose ttl now (tk_rows s) of
        (None, rows) \<Rightarrow> (Issued, s\<lparr>tk_rows := rows\<rparr>)
      | (Some e, rows) \<Rightarrow> (Failed e, s))"
| "token_step sha stime dt (Verify raw purpose now) s =
     (case consume_token_by_hash (sha raw) (tk_rows s) of
        (rec, rows) \<Rightarrow> (Burned (sha raw) rec (check_record rec purpose now), s\<lparr>tk_rows := rows\<rparr>))"
| "token_step sha stime dt (VerifySelect c raw) s =
     (case get_token_by_hash (sha raw) (tk_rows s) of
        None \<Rightarrow> (Verified (sha raw) (Inl TokenInvalid), s)
      | Some r \<Rightarrow> (Done, s\<lparr>tk_flight := (tk_flight s)(c \<mapsto> (sha raw, r))\<rparr>))"
| "token_step sha stime dt (VerifyDelete c purpose now) s =
     (case tk_flight s c of
        None \<Rightarrow> (Done, s)
      | Some (h, r) \<Rightarrow>
          (case delete_token_by_hash h (tk_rows s) of (n, rows) \<Rightarrow>
             let rec = (if n = 0 then None else Some r)
             in (Burned h rec (check_record rec purpose now),
                 s\<lparr>tk_rows := rows, tk_flight := (tk_flight s)(c := None)\<rparr>)))"
| "token_step sha stime dt (Revoke raw) s =
     (case revoke sha raw (tk_rows s) of
        (None, rows) \<Rightarrow> (Done, s\<lparr>tk_rows := rows\<rparr>)
      | (Some e, rows) \<Rightarrow> (Failed e, s\<lparr>tk_rows := rows\<rparr>))"
| "token_step sha stime dt (RevokeAllByPurpose subject purpose) s =
     (Done, s\<lparr>tk_rows := delete_by_subject_purpose subject purpose (tk_rows s)\<rparr>)"
| "token_step sha stime dt (Cleanup now) s =
     (Done, s\<lparr>tk_rows := delete_expired_tokens (stime now) (tk_rows s)\<rparr>)"

fun token_run ::
  "(string \<Rightarrow> string) \<Rightarrow> (int \<Rightarrow> int) \<Rightarrow> int \<Rightarrow> token_op list \<Rightarrow> token_state \<Rightarrow> token_out list \<times> token_state" where
  "token_run sha stime dt [] s = ([], s)"
| "token_run sha stime dt (x # xs) s =
     (case token_step sha stime dt x s of (out, s') \<Rightarrow>
        (case token_run sha stime dt xs s' of (outs, s'') \<Rightarrow> (out # outs, s'')))"

definition no_tokens :: token_state where
  "no_tokens = \<lparr>tk_rows = [], tk_flight = (\<lambda>_. None)\<rparr>"

section \<open>Single use\<close>

text \<open>Counting over a run: tokens issued under a hash, and records handed to a Verify of it.\<close>

definition issued_count :: "(string \<Rightarrow> string) \<Rightarrow> string \<Rightarrow> (token_op \<times> token_out) list \<Rightarrow> nat" where
  "issued_count sha h evs =
     length (filter (\<lambda>(x, out). case x of Issue raw _ _ _ _ _ \<Rightarrow> sha raw = h \<and> out = Issued | _ \<Rightarrow> False) evs)"

definition consumed_count :: "string \<Rightarrow> (token_op \<times> token_out) list \<Rightarrow> nat" where
  "consumed_count h evs =
     length (filter (\<lambda>(x, out). case out of Burned h' (Some r) _ \<Rightarrow> h' = h | _ \<Rightarrow> False) evs)"

definition with_hash :: "string \<Rightarrow> token_row list \<Rightarrow> nat" where
  "with_hash h rows = length (filter (\<lambda>r. tr_hash r = h) rows)"

lemma with_hash_simps [simp]:
  "with_hash h [] = 0"
  "with_hash h (rows @ [r]) = with_hash h rows + (if tr_hash r = h then 1 else 0)"
  by (simp_all add: with_hash_def)

lemma with_hash_filter: "with_hash h (filter P rows) \<le> with_hash h rows"
  by (induction rows) (auto simp: with_hash_def)

lemma with_hash_deleted: "with_hash h (snd (delete_token_by_hash h' rows)) = (if h' = h then 0 else with_hash h rows)"
  by (induction rows) (auto simp: with_hash_def delete_token_by_hash_def)

lemma with_hash_zero: "with_hash h rows = 0 \<longleftrightarrow> (\<forall>r\<in>set rows. tr_hash r \<noteq> h)"
  by (simp add: with_hash_def filter_empty_conv)

lemma deleted_count: "fst (delete_token_by_hash h rows) = with_hash h rows"
  by (simp add: delete_token_by_hash_def with_hash_def)

lemma get_token_Some: "get_token_by_hash h rows = Some r \<Longrightarrow> r \<in> set rows \<and> tr_hash r = h \<and> with_hash h rows > 0"
  by (auto simp: get_token_by_hash_def find_Some_iff with_hash_def filter_empty_conv length_greater_0_conv)

text \<open>One step keeps the account of every hash: what it consumes it deletes, what it adds it issued,
  and a hash is never in the table twice.\<close>

lemma step_account:
  assumes "token_step sha stime dt x s = (out, s')" and "with_hash h (tk_rows s) \<le> 1"
  shows "consumed_count h [(x, out)] + with_hash h (tk_rows s') \<le>
      issued_count sha h [(x, out)] + with_hash h (tk_rows s) \<and> with_hash h (tk_rows s') \<le> 1"
proof (cases x)
  case (Issue raw tid subject purpose ttl now)
  show ?thesis
  proof (cases "issue sha stime dt raw tid subject purpose ttl now (tk_rows s)")
    case (Pair e rows)
    then show ?thesis using assms Issue
      by (auto simp: issue_def Let_def insert_token_def consumed_count_def issued_count_def with_hash_zero
          list_ex_iff split: option.splits if_splits)
  qed
next
  case (Verify raw purpose now)
  then show ?thesis using assms get_token_Some [of "sha raw" "tk_rows s"]
    by (auto simp: consume_token_by_hash_def with_hash_deleted consumed_count_def issued_count_def
        split: option.splits)
next
  case (VerifySelect c raw)
  then show ?thesis using assms
    by (auto simp: consumed_count_def issued_count_def split: option.splits)
next
  case (VerifyDelete c purpose now)
  show ?thesis
  proof (cases "tk_flight s c")
    case None
    then show ?thesis using assms VerifyDelete by (simp add: consumed_count_def issued_count_def)
  next
    case (Some hr)
    obtain h' r where "hr = (h', r)" by (cases hr)
    then show ?thesis using assms VerifyDelete Some with_hash_deleted [of h h' "tk_rows s"]
        deleted_count [of h' "tk_rows s"]
      by (cases "delete_token_by_hash h' (tk_rows s)")
         (auto simp: consumed_count_def issued_count_def Let_def split: if_splits)
  qed
next
  case (Revoke raw)
  then show ?thesis using assms with_hash_deleted [of h "sha raw" "tk_rows s"]
    by (cases "delete_token_by_hash (sha raw) (tk_rows s)")
       (auto simp: revoke_def consumed_count_def issued_count_def split: if_splits)
next
  case (RevokeAllByPurpose subject purpose)
  then show ?thesis using assms with_hash_filter
    by (auto simp: delete_by_subject_purpose_def consumed_count_def issued_count_def intro: le_trans [OF with_hash_filter])
next
  case (Cleanup now)
  then show ?thesis using assms with_hash_filter
    by (auto simp: delete_expired_tokens_def consumed_count_def issued_count_def intro: le_trans [OF with_hash_filter])
qed

lemma count_Cons:
  "consumed_count h (e # evs) = consumed_count h [e] + consumed_count h evs"
  "issued_count sha h (e # evs) = issued_count sha h [e] + issued_count sha h evs"
  by (simp_all add: consumed_count_def issued_count_def)

lemma run_account:
  "token_run sha stime dt xs s = (outs, s') \<Longrightarrow> with_hash h (tk_rows s) \<le> 1 \<Longrightarrow>
     consumed_count h (zip xs outs) + with_hash h (tk_rows s') \<le>
       issued_count sha h (zip xs outs) + with_hash h (tk_rows s) \<and> with_hash h (tk_rows s') \<le> 1"
proof (induction xs arbitrary: s outs)
  case Nil
  then show ?case by (simp add: consumed_count_def issued_count_def)
next
  case (Cons x xs)
  obtain out s1 where st: "token_step sha stime dt x s = (out, s1)" by fastforce
  obtain os where r: "token_run sha stime dt xs s1 = (os, s')" "outs = out # os"
    using Cons.prems st by (auto split: prod.splits)
  have a: "consumed_count h [(x, out)] + with_hash h (tk_rows s1) \<le>
      issued_count sha h [(x, out)] + with_hash h (tk_rows s)" and b: "with_hash h (tk_rows s1) \<le> 1"
    using step_account [OF st Cons.prems(2)] by simp_all
  from Cons.IH [OF r(1) b] a show ?case
    unfolding r(2) zip_Cons_Cons
    using count_Cons(1) [of h "(x, out)" "zip xs os"] count_Cons(2) [of sha h "(x, out)" "zip xs os"]
    by linarith
qed

text \<open>C8: a token is used once. Over any interleaving of issues, whole Verify calls, the two
  statements of MySQL ones, revocations and clean-ups, the records handed to a Verify for a hash
  number no more than the tokens issued under it, less the one still in the table, if it is:
  of two concurrent Verify calls for one token at most one sees it.\<close>

theorem token_single_use:
  assumes "token_run sha stime dt xs no_tokens = (outs, s)"
  shows "consumed_count h (zip xs outs) + with_hash h (tk_rows s) \<le> issued_count sha h (zip xs outs) \<and>
    with_hash h (tk_rows s) \<le> 1"
  using run_account [OF assms, of h] by (simp add: no_tokens_def)

theorem token_single_use_witness:
  "fst (token_run id id 100 [Issue ''r'' ''1'' ''ann'' ''reset'' 0 5, VerifySelect 0 ''r'', VerifySelect 1 ''r'',
      VerifyDelete 1 ''reset'' 9, VerifyDelete 0 ''reset'' 9] no_tokens) =
     [Issued, Done, Done,
      Burned ''r'' (Some \<lparr>tr_id = ''1'', tr_subject = ''ann'', tr_hash = ''r'', tr_purpose = ''reset'', tr_expires = 105\<rparr>) (Inr ''ann''),
      Burned ''r'' None (Inl TokenInvalid)] \<and>
   consumed_count ''r'' (zip [Issue ''r'' ''1'' ''ann'' ''reset'' 0 5, VerifySelect 0 ''r'', VerifySelect 1 ''r'',
      VerifyDelete 1 ''reset'' 9, VerifyDelete 0 ''reset'' 9]
     (fst (token_run id id 100 [Issue ''r'' ''1'' ''ann'' ''reset'' 0 5, VerifySelect 0 ''r'', VerifySelect 1 ''r'',
      VerifyDelete 1 ''reset'' 9, VerifyDelete 0 ''reset'' 9] no_tokens))) \<le> 1"
proof
  let ?xs = "[Issue ''r'' ''1'' ''ann'' ''reset'' 0 5, VerifySelect 0 ''r'', VerifySelect 1 ''r'',
      VerifyDelete 1 ''reset'' 9, VerifyDelete 0 ''reset'' 9]"
  let ?row = "\<lparr>tr_id = ''1'', tr_subject = ''ann'', tr_hash = ''r'', tr_purpose = ''reset'', tr_expires = 105\<rparr> :: token_row"
  show r: "fst (token_run id id 100 ?xs no_tokens) =
     [Issued, Done, Done, Burned ''r'' (Some ?row) (Inr ''ann''), Burned ''r'' None (Inl TokenInvalid)]"
    by (simp add: no_tokens_def issue_def insert_token_def get_token_by_hash_def delete_token_by_hash_def
        check_record_def)
  have "consumed_count ''r'' (zip ?xs (fst (token_run id id 100 ?xs no_tokens))) \<le>
      issued_count id ''r'' (zip ?xs (fst (token_run id id 100 ?xs no_tokens)))"
    using token_single_use [of id id 100 ?xs "fst (token_run id id 100 ?xs no_tokens)"
        "snd (token_run id id 100 ?xs no_tokens)" "''r''"] by simp
  also have "\<dots> = 1" unfolding r by (simp add: issued_count_def)
  finally show "consumed_count ''r'' (zip ?xs (fst (token_run id id 100 ?xs no_tokens))) \<le> 1" .
qed

section \<open>Authenticity\<close>

text \<open>The row an issue of the history put into the table.\<close>

definition issued_row ::
  "(string \<Rightarrow> string) \<Rightarrow> (int \<Rightarrow> int) \<Rightarrow> int \<Rightarrow> (token_op \<times> token_out) set \<Rightarrow> token_row \<Rightarrow> bool" where
  "issued_row sha stime dt evs r \<longleftrightarrow>
     (\<exists>raw tid ttl now. (Issue raw tid (tr_subject r) (tr_purpose r) ttl now, Issued) \<in> evs \<and>
        tr_hash r = sha raw \<and> tr_expires r = stime (now + (if ttl = 0 then dt else ttl)))"

definition from_issues ::
  "(string \<Rightarrow> string) \<Rightarrow> (int \<Rightarrow> int) \<Rightarrow> int \<Rightarrow> (token_op \<times> token_out) set \<Rightarrow> token_state \<Rightarrow> bool" where
  "from_issues sha stime dt evs s \<longleftrightarrow>
     (\<forall>r\<in>set (tk_rows s). issued_row sha stime dt evs r) \<and>
     (\<forall>c h r. tk_flight s c = Some (h, r) \<longrightarrow> tr_hash r = h \<and> issued_row sha stime dt evs r)"

lemma issued_row_mono: "issued_row sha stime dt evs r \<Longrightarrow> evs \<subseteq> evs' \<Longrightarrow> issued_row sha stime dt evs' r"
  unfolding issued_row_def by blast

lemma from_issues_fewer:
  assumes "from_issues sha stime dt evs s" and "evs \<subseteq> evs'" and "set (tk_rows s') \<subseteq> set (tk_rows s)"
    and "\<forall>c x. tk_flight s' c = Some x \<longrightarrow> tk_flight s c = Some x"
  shows "from_issues sha stime dt evs' s'"
  using assms issued_row_mono unfolding from_issues_def by (meson subsetD)

lemma delete_token_subset: "delete_token_by_hash h rows = (n, rows') \<Longrightarrow> set rows' \<subseteq> set rows"
  by (auto simp: delete_token_by_hash_def)

lemma step_from_issues:
  assumes "token_step sha stime dt x s = (out, s')" and "from_issues sha stime dt evs s"
  shows "from_issues sha stime dt (insert (x, out) evs) s'"
proof (cases x)
  case (Issue raw tid subject purpose ttl now)
  show ?thesis
  proof (cases "out = Issued")
    case True
    let ?r = "\<lparr>tr_id = tid, tr_subject = subject, tr_hash = sha raw, tr_purpose = purpose,
        tr_expires = stime (now + (if ttl = 0 then dt else ttl))\<rparr>"
    have s': "s' = s\<lparr>tk_rows := tk_rows s @ [?r]\<rparr>"
      using assms(1) Issue True
      by (auto simp: issue_def Let_def insert_token_def split: option.splits if_splits)
    have "issued_row sha stime dt (insert (x, out) evs) ?r"
      unfolding issued_row_def Issue True by auto
    moreover have "issued_row sha stime dt (insert (x, out) evs) r" if "issued_row sha stime dt evs r" for r
      by (rule issued_row_mono [OF that]) blast
    ultimately show ?thesis using assms(2) unfolding from_issues_def s' by simp
  next
    case False
    then have "s' = s" using assms(1) Issue by (auto split: prod.splits option.splits)
    then show ?thesis using from_issues_fewer [OF assms(2)] by blast
  qed
next
  case (VerifySelect c raw)
  show ?thesis
  proof (cases "get_token_by_hash (sha raw) (tk_rows s)")
    case None
    then have "s' = s" using assms(1) VerifySelect by simp
    then show ?thesis using from_issues_fewer [OF assms(2)] by blast
  next
    case (Some r)
    then have s': "s' = s\<lparr>tk_flight := (tk_flight s)(c \<mapsto> (sha raw, r))\<rparr>" using assms(1) VerifySelect by simp
    have "issued_row sha stime dt (insert (x, out) evs) r" if "issued_row sha stime dt evs r" for r
      by (rule issued_row_mono [OF that]) blast
    then show ?thesis using assms(2) get_token_Some [OF Some] unfolding from_issues_def s' by simp
  qed
next
  case (VerifyDelete c purpose now)
  show ?thesis
  proof (cases "tk_flight s c")
    case None
    then have "s' = s" using assms(1) VerifyDelete by simp
    then show ?thesis using from_issues_fewer [OF assms(2)] by blast
  next
    case (Some hr)
    obtain h r where "hr = (h, r)" by (cases hr)
    then have "set (tk_rows s') \<subseteq> set (tk_rows s)" "\<forall>d y. tk_flight s' d = Some y \<longrightarrow> tk_flight s d = Some y"
      using assms(1) VerifyDelete Some delete_token_subset [of h "tk_rows s"]
      by (auto simp: Let_def split: prod.splits if_splits)
    then show ?thesis using from_issues_fewer [OF assms(2)] by blast
  qed
next
  case (Revoke raw)
  then have "set (tk_rows s') \<subseteq> set (tk_rows s)" "tk_flight s' = tk_flight s"
    using assms(1) delete_token_subset [of "sha raw" "tk_rows s"]
    by (auto simp: revoke_def split: prod.splits option.splits if_splits)
  then show ?thesis using from_issues_fewer [OF assms(2)] by (simp add: subset_insertI)
qed (use assms from_issues_fewer [OF assms(2), of "insert (x, out) evs" s'] in
      \<open>auto simp: subset_insertI consume_token_by_hash_def delete_token_by_hash_def delete_by_subject_purpose_def
         delete_expired_tokens_def\<close>)

lemma run_from_issues:
  "token_run sha stime dt xs s = (outs, s') \<Longrightarrow> from_issues sha stime dt evs s \<Longrightarrow>
     from_issues sha stime dt (evs \<union> set (zip xs outs)) s'"
proof (induction xs arbitrary: s outs evs)
  case (Cons x xs)
  obtain out s1 where st: "token_step sha stime dt x s = (out, s1)" by fastforce
  obtain os where r: "token_run sha stime dt xs s1 = (os, s')" "outs = out # os"
    using Cons.prems st by (auto split: prod.splits)
  from Cons.IH [OF r(1) step_from_issues [OF st Cons.prems(2)]] show ?case
    unfolding r(2) by simp
qed simp

text \<open>What a Verify asks: the purpose and the time of its check.\<close>

fun asks :: "token_op \<Rightarrow> (string \<times> int) option" where
  "asks (Verify raw purpose now) = Some (purpose, now)"
| "asks (VerifyDelete c purpose now) = Some (purpose, now)"
| "asks _ = None"

text \<open>C9: a Verify that succeeds was earned. In any history, when a Verify returns a subject, a
  token with that hash had been issued to that subject for the very purpose it asked for, and the
  expiry the store keeps for that issue had not passed; and whatever the outcome, no row with the
  hash is left once it was presented.\<close>

theorem token_authentic:
  assumes "token_run sha stime dt xs no_tokens = (outs, s)"
    and "token_step sha stime dt x s = (Burned h rec res, s')" and "asks x = Some (purpose, now)"
  shows "with_hash h (tk_rows s') = 0 \<and>
    (\<forall>subject. res = Inr subject \<longrightarrow>
       (\<exists>raw tid ttl t. (Issue raw tid subject purpose ttl t, Issued) \<in> set (zip xs outs) \<and> sha raw = h \<and>
          now \<le> stime (t + (if ttl = 0 then dt else ttl))))"
proof -
  have "from_issues sha stime dt {} no_tokens" by (simp add: from_issues_def no_tokens_def)
  from run_from_issues [OF assms(1) this]
  have inv: "from_issues sha stime dt (set (zip xs outs)) s" by simp
  have key: "res = check_record rec purpose now \<and> with_hash h (tk_rows s') = 0 \<and>
      (\<forall>r. rec = Some r \<longrightarrow> tr_hash r = h \<and> issued_row sha stime dt (set (zip xs outs)) r)"
  proof (cases x)
    case (Verify raw p n)
    then show ?thesis using assms(2,3) inv get_token_Some [of "sha raw" "tk_rows s"] with_hash_deleted
      by (auto simp: consume_token_by_hash_def from_issues_def)
  next
    case (VerifyDelete c p n)
    with assms(2) obtain h' r where f: "tk_flight s c = Some (h', r)" by (auto split: option.splits)
    then have "tr_hash r = h'" "issued_row sha stime dt (set (zip xs outs)) r"
      using inv unfolding from_issues_def by blast+
    then show ?thesis using assms(2,3) VerifyDelete f with_hash_deleted [of h h' "tk_rows s"]
      by (cases "delete_token_by_hash h' (tk_rows s)") (auto simp: Let_def split: if_splits)
  qed (use assms(3) in auto)
  have "\<exists>raw tid ttl t. (Issue raw tid subject purpose ttl t, Issued) \<in> set (zip xs outs) \<and> sha raw = h \<and>
      now \<le> stime (t + (if ttl = 0 then dt else ttl))" if "res = Inr subject" for subject
  proof -
    from that key obtain r where r: "rec = Some r" "tr_purpose r = purpose" "now \<le> tr_expires r" "tr_subject r = subject"
      by (auto simp: check_record_def split: option.splits if_splits)
    with key have "tr_hash r = h" "issued_row sha stime dt (set (zip xs outs)) r" by auto
    from this(2) r(2-4) obtain raw tid ttl t where
      "(Issue raw tid subject purpose ttl t, Issued) \<in> set (zip xs outs)" "tr_hash r = sha raw"
      "tr_expires r = stime (t + (if ttl = 0 then dt else ttl))"
      unfolding issued_row_def by blast
    with r(3) \<open>tr_hash r = h\<close> show ?thesis by (intro exI [of _ raw] exI [of _ tid] exI [of _ ttl] exI [of _ t]) simp
  qed
  with key show ?thesis by blast
qed

theorem token_authentic_witness:
  "\<exists>raw tid ttl t. (Issue raw tid ''ann'' ''reset'' ttl t, Issued) \<in> set (zip [Issue ''r'' ''1'' ''ann'' ''reset'' 0 5] [Issued]) \<and>
     id raw = ''r'' \<and> 9 \<le> sqlite_time (t + (if ttl = 0 then 2000000000 else ttl))"
proof -
  let ?s = "snd (token_run id sqlite_time 2000000000 [Issue ''r'' ''1'' ''ann'' ''reset'' 0 5] no_tokens)"
  have run: "token_run id sqlite_time 2000000000 [Issue ''r'' ''1'' ''ann'' ''reset'' 0 5] no_tokens = ([Issued], ?s)"
    by (simp add: no_tokens_def issue_def insert_token_def)
  have s: "tk_rows ?s = [\<lparr>tr_id = ''1'', tr_subject = ''ann'', tr_hash = ''r'', tr_purpose = ''reset'', tr_expires = 2000000000\<rparr>]"
    by (simp add: no_tokens_def issue_def insert_token_def sqlite_time_def)
  have "token_step id sqlite_time 2000000000 (Verify ''r'' ''reset'' 9) ?s =
      (Burned ''r'' (Some \<lparr>tr_id = ''1'', tr_subject = ''ann'', tr_hash = ''r'', tr_purpose = ''reset'', tr_expires = 2000000000\<rparr>) (Inr ''ann''),
       ?s\<lparr>tk_rows := []\<rparr>)"
    by (simp only: token_step.simps s)
       (simp add: consume_token_by_hash_def get_token_by_hash_def delete_token_by_hash_def check_record_def)
  from token_authentic [OF run this asks.simps(1)] show ?thesis by (elim conjE allE impE) (rule refl)
qed

text \<open>SQLite's whole seconds never lengthen a token's life.\<close>

lemma sqlite_time_early: "sqlite_time t \<le> t \<and> t < sqlite_time t + 1000000000"
  unfolding sqlite_time_def by presburger

end
