(* ===== verification/Auth_Sessions.thy ===== *)
theory Auth_Sessions
  imports Gas_Prelude
begin

text \<open>
  auth/session: cookie sessions (session.go) over the database store (db/store.go), and the chain
  of authenticators and the middleware of auth (auth.go, middleware.go). As for tokens, the table
  is its list of rows and a statement an atomic step; Authenticate reads the row in one statement
  and moves its expiry in another, between which other calls run. Cookie attributes, metadata and
  database failures are left out.
\<close>

section \<open>Sessions\<close>

record session_row =
  ss_id :: string
  ss_subject :: string
  ss_expires :: int
  ss_last_active :: int

record session_cfg =
  sc_ttl :: int
  sc_extend :: bool
  sc_stime :: "int \<Rightarrow> int"

datatype auth_err = Unauthenticated | Forbidden | CredentialsExpired | OtherAuthErr string

text \<open>An Authenticate between GetSession and ExtendSession: the session, its subject and the time
  it read.\<close>

record session_state =
  se_rows :: "session_row list"
  se_flight :: "nat \<rightharpoonup> string \<times> string \<times> int"

definition get_session :: "string \<Rightarrow> session_row list \<Rightarrow> session_row option" where
  "get_session sid rows = find (\<lambda>r. ss_id r = sid) rows"

definition insert_session :: "session_row \<Rightarrow> session_row list \<Rightarrow> session_row list option" where
  "insert_session r rows = (if list_ex (\<lambda>x. ss_id x = ss_id r) rows then None else Some (rows @ [r]))"

definition extend_session :: "string \<Rightarrow> int \<Rightarrow> int \<Rightarrow> session_row list \<Rightarrow> session_row list" where
  "extend_session sid expires last_active rows =
     map (\<lambda>r. if ss_id r = sid then r\<lparr>ss_expires := expires, ss_last_active := last_active\<rparr> else r) rows"

definition delete_session :: "string \<Rightarrow> session_row list \<Rightarrow> session_row list" where
  "delete_session sid rows = filter (\<lambda>r. ss_id r \<noteq> sid) rows"

definition delete_sessions_by_subject :: "string \<Rightarrow> session_row list \<Rightarrow> session_row list" where
  "delete_sessions_by_subject subject rows = filter (\<lambda>r. ss_subject r \<noteq> subject) rows"

definition delete_expired_sessions :: "int \<Rightarrow> session_row list \<Rightarrow> session_row list" where
  "delete_expired_sessions cutoff rows = filter (\<lambda>r. \<not> ss_expires r < cutoff) rows"

text \<open>The calls and, for Authenticate, its two parts by caller c; the cookie is None when absent.\<close>

datatype session_op =
    Create string string int
  | AuthGet nat "string option" int
  | AuthExtend nat
  | SRevoke string
  | SRevokeAll string
  | SRevokeAllByScheme string string
  | SCleanup int

datatype session_out =
    Created
  | CreateFailed
  | Extending
  | Authenticated string string
  | Denied auth_err
  | SDone

definition create_session :: "session_cfg \<Rightarrow> string \<Rightarrow> string \<Rightarrow> int \<Rightarrow> session_row list \<Rightarrow> session_row list option" where
  "create_session cfg sid subject now rows =
     insert_session \<lparr>ss_id = sid, ss_subject = subject, ss_expires = sc_stime cfg (now + sc_ttl cfg),
                     ss_last_active = sc_stime cfg now\<rparr> rows"

fun session_step :: "session_cfg \<Rightarrow> session_op \<Rightarrow> session_state \<Rightarrow> session_out \<times> session_state" where
  "session_step cfg (Create sid subject now) s =
     (case create_session cfg sid subject now (se_rows s) of
        None \<Rightarrow> (CreateFailed, s)
      | Some rows \<Rightarrow> (Created, s\<lparr>se_rows := rows\<rparr>))"
| "session_step cfg (AuthGet c cookie now) s =
     (case cookie of
        None \<Rightarrow> (Denied Unauthenticated, s)
      | Some sid \<Rightarrow>
          if sid = '''' then (Denied Unauthenticated, s)
          else (case get_session sid (se_rows s) of
                  None \<Rightarrow> (Denied Unauthenticated, s)
                | Some r \<Rightarrow>
                    if now > ss_expires r then (Denied CredentialsExpired, s)
                    else if sc_extend cfg
                    then (Extending, s\<lparr>se_flight := (se_flight s)(c \<mapsto> (sid, ss_subject r, now))\<rparr>)
                    else (Authenticated (ss_subject r) sid, s)))"
| "session_step cfg (AuthExtend c) s =
     (case se_flight s c of
        None \<Rightarrow> (SDone, s)
      | Some (sid, subject, now) \<Rightarrow>
          (Authenticated subject sid,
           s\<lparr>se_rows := extend_session sid (sc_stime cfg (now + sc_ttl cfg)) (sc_stime cfg now) (se_rows s),
             se_flight := (se_flight s)(c := None)\<rparr>))"
| "session_step cfg (SRevoke sid) s = (SDone, s\<lparr>se_rows := delete_session sid (se_rows s)\<rparr>)"
| "session_step cfg (SRevokeAll subject) s =
     (SDone, s\<lparr>se_rows := delete_sessions_by_subject subject (se_rows s)\<rparr>)"
| "session_step cfg (SRevokeAllByScheme subject scheme) s =
     (if scheme \<noteq> ''session'' then (SDone, s)
      else (SDone, s\<lparr>se_rows := delete_sessions_by_subject subject (se_rows s)\<rparr>))"
| "session_step cfg (SCleanup now) s =
     (SDone, s\<lparr>se_rows := delete_expired_sessions (sc_stime cfg now) (se_rows s)\<rparr>)"

fun session_run :: "session_cfg \<Rightarrow> session_op list \<Rightarrow> session_state \<Rightarrow> session_out list \<times> session_state" where
  "session_run cfg [] s = ([], s)"
| "session_run cfg (x # xs) s =
     (case session_step cfg x s of (out, s') \<Rightarrow>
        (case session_run cfg xs s' of (outs, s'') \<Rightarrow> (out # outs, s'')))"

definition no_sessions :: session_state where
  "no_sessions = \<lparr>se_rows = [], se_flight = (\<lambda>_. None)\<rparr>"

section \<open>Authenticators\<close>

text \<open>An authenticator answers with a principal or an error; a nil principal with a nil error is the
  None of the first.\<close>

record principal =
  pr_subject :: string
  pr_scheme :: string
  pr_credential :: string

type_synonym 'r authenticator = "'r \<Rightarrow> (auth_err, principal option) result"

definition authenticate :: "'r authenticator \<Rightarrow> 'r \<Rightarrow> (auth_err, principal) result" where
  "authenticate a r =
     (case a r of
        Inl e \<Rightarrow> Inl e
      | Inr None \<Rightarrow> Inl Unauthenticated
      | Inr (Some p) \<Rightarrow> Inr p)"

fun chain_loop :: "'r authenticator list \<Rightarrow> 'r \<Rightarrow> auth_err \<Rightarrow> (auth_err, principal) result" where
  "chain_loop [] r err = Inl err"
| "chain_loop (a # as) r err =
     (case authenticate a r of Inr p \<Rightarrow> Inr p | Inl e \<Rightarrow> chain_loop as r e)"

definition chain_authenticate :: "'r authenticator list \<Rightarrow> 'r \<Rightarrow> (auth_err, principal) result" where
  "chain_authenticate as r = (if as = [] then Inl Unauthenticated else chain_loop as r Unauthenticated)"

text \<open>What a request behind the middleware leads to: the error handler, or the next handler with the
  principal in its context.\<close>

datatype served = AuthRefused auth_err | Status int | Next "principal option"

definition auth_middleware :: "'r authenticator \<Rightarrow> 'r \<Rightarrow> served" where
  "auth_middleware a r = (case authenticate a r of Inl e \<Rightarrow> AuthRefused e | Inr p \<Rightarrow> Next (Some p))"

definition require_scheme :: "string \<Rightarrow> principal option \<Rightarrow> served" where
  "require_scheme scheme p =
     (case p of
        None \<Rightarrow> Status 403
      | Some q \<Rightarrow> if pr_scheme q \<noteq> scheme then Status 403 else Next p)"

lemma chain_loop_spec:
  "chain_loop as r err = Inr p \<longleftrightarrow>
     (\<exists>a. find (\<lambda>a. \<exists>q. a r = Inr (Some q)) as = Some a \<and> a r = Inr (Some p))"
proof (induction as arbitrary: err)
  case (Cons a as)
  show ?case
  proof (cases "a r")
    case (Inr x)
    then show ?thesis using Cons by (cases x) (simp_all add: authenticate_def)
  qed (use Cons in \<open>simp add: authenticate_def\<close>)
qed simp

section \<open>Sessions through their history\<close>

text \<open>The times at which a session was created or renewed by an Authenticate.\<close>

definition touched :: "(session_op \<times> session_out) set \<Rightarrow> string \<Rightarrow> int \<Rightarrow> bool" where
  "touched evs sid t \<longleftrightarrow>
     (\<exists>subject. (Create sid subject t, Created) \<in> evs) \<or> (\<exists>c. (AuthGet c (Some sid) t, Extending) \<in> evs)"

definition session_ok :: "session_cfg \<Rightarrow> (session_op \<times> session_out) set \<Rightarrow> session_row \<Rightarrow> bool" where
  "session_ok cfg evs r \<longleftrightarrow>
     (\<exists>t0. (Create (ss_id r) (ss_subject r) t0, Created) \<in> evs) \<and>
     (\<exists>t. touched evs (ss_id r) t \<and> ss_expires r = sc_stime cfg (t + sc_ttl cfg))"

definition sessions_ok :: "session_cfg \<Rightarrow> (session_op \<times> session_out) set \<Rightarrow> session_state \<Rightarrow> bool" where
  "sessions_ok cfg evs s \<longleftrightarrow>
     (\<forall>r\<in>set (se_rows s). session_ok cfg evs r) \<and>
     (\<forall>c sid subject t. se_flight s c = Some (sid, subject, t) \<longrightarrow> (\<exists>d. (AuthGet d (Some sid) t, Extending) \<in> evs))"

lemma session_ok_mono: "session_ok cfg evs r \<Longrightarrow> session_ok cfg (insert e evs) r"
  unfolding session_ok_def touched_def by blast

lemma sessions_ok_fewer:
  assumes "sessions_ok cfg evs s" and "set (se_rows s') \<subseteq> set (se_rows s)" and "se_flight s' = se_flight s"
  shows "sessions_ok cfg (insert e evs) s'"
  unfolding sessions_ok_def
proof (intro conjI ballI allI impI)
  fix r
  assume "r \<in> set (se_rows s')"
  with assms have "session_ok cfg evs r" unfolding sessions_ok_def by blast
  then show "session_ok cfg (insert e evs) r" by (rule session_ok_mono)
next
  fix c sid subject t
  assume "se_flight s' c = Some (sid, subject, t)"
  with assms(1,3) obtain d where "(AuthGet d (Some sid) t, Extending) \<in> evs"
    unfolding sessions_ok_def by metis
  then show "\<exists>d. (AuthGet d (Some sid) t, Extending) \<in> insert e evs" by blast
qed

lemma get_session_Some: "get_session sid rows = Some r \<Longrightarrow> r \<in> set rows \<and> ss_id r = sid"
  by (auto simp: get_session_def find_Some_iff)

lemma step_sessions_ok:
  assumes "session_step cfg x s = (out, s')" and ok: "sessions_ok cfg evs s"
  shows "sessions_ok cfg (insert (x, out) evs) s'"
proof -
  have now: "sessions_ok cfg (insert (x, out) evs) s" by (rule sessions_ok_fewer [OF ok]) auto
  show ?thesis
proof (cases x)
  case (Create sid subject now)
  show ?thesis
  proof (cases "create_session cfg sid subject now (se_rows s)")
    case None
    then show ?thesis using assms Create sessions_ok_fewer [OF ok] by simp
  next
    case (Some rows)
    let ?r = "\<lparr>ss_id = sid, ss_subject = subject, ss_expires = sc_stime cfg (now + sc_ttl cfg),
        ss_last_active = sc_stime cfg now\<rparr>"
    have o: "out = Created" and s': "s' = s\<lparr>se_rows := se_rows s @ [?r]\<rparr>"
      using assms(1) Create Some
      by (auto simp: create_session_def insert_session_def split: if_splits)
    have "session_ok cfg (insert (x, out) evs) ?r"
      unfolding session_ok_def touched_def Create o by auto
    then show ?thesis using now unfolding sessions_ok_def s' by auto
  qed
next
  case (AuthGet c cookie now)
  show ?thesis
  proof (cases "out = Extending")
    case True
    then obtain sid subject where s': "s' = s\<lparr>se_flight := (se_flight s)(c \<mapsto> (sid, subject, now))\<rparr>"
      and k: "cookie = Some sid"
      using assms(1) AuthGet by (auto split: option.splits if_splits)
    show ?thesis using now unfolding sessions_ok_def s' AuthGet k True by auto
  next
    case False
    then have "s' = s" using assms(1) AuthGet by (auto split: option.splits if_splits)
    then show ?thesis using sessions_ok_fewer [OF ok] by simp
  qed
next
  case (AuthExtend c)
  show ?thesis
  proof (cases "se_flight s c")
    case None
    then show ?thesis using assms AuthExtend sessions_ok_fewer [OF ok] by simp
  next
    case (Some f)
    obtain sid subject now where f: "f = (sid, subject, now)" by (cases f)
    from ok Some f obtain d where d: "(AuthGet d (Some sid) now, Extending) \<in> evs"
      unfolding sessions_ok_def by blast
    have rows: "se_rows s' = extend_session sid (sc_stime cfg (now + sc_ttl cfg)) (sc_stime cfg now) (se_rows s)"
      and flight: "se_flight s' = (se_flight s)(c := None)"
      using assms(1) AuthExtend Some f by auto
    have "session_ok cfg (insert (x, out) evs) r" if "r \<in> set (se_rows s')" for r
    proof -
      from that obtain q where q: "q \<in> set (se_rows s)"
        and r: "r = (if ss_id q = sid then q\<lparr>ss_expires := sc_stime cfg (now + sc_ttl cfg),
          ss_last_active := sc_stime cfg now\<rparr> else q)"
        unfolding rows extend_session_def by auto
      from q now have "session_ok cfg (insert (x, out) evs) q" unfolding sessions_ok_def by blast
      then show ?thesis using d unfolding r session_ok_def touched_def by auto
    qed
    then show ?thesis using now flight unfolding sessions_ok_def by auto
  qed
qed (use assms in \<open>auto intro!: sessions_ok_fewer [OF ok]
  simp: delete_session_def delete_sessions_by_subject_def delete_expired_sessions_def split: if_splits\<close>)
qed

lemma run_sessions_ok:
  "session_run cfg xs s = (outs, s') \<Longrightarrow> sessions_ok cfg evs s \<Longrightarrow>
     sessions_ok cfg (evs \<union> set (zip xs outs)) s'"
proof (induction xs arbitrary: s outs evs)
  case (Cons x xs)
  obtain out s1 where st: "session_step cfg x s = (out, s1)" by fastforce
  obtain os where r: "session_run cfg xs s1 = (os, s')" "outs = out # os"
    using Cons.prems st by (auto split: prod.splits)
  from Cons.IH [OF r(1) step_sessions_ok [OF st Cons.prems(2)]] show ?case
    unfolding r(2) by simp
qed simp

text \<open>A session id that left the table stays out of it until it is created again.\<close>

lemma step_absent:
  assumes "session_step cfg x s = (out, s')" and "\<forall>r\<in>set (se_rows s). ss_id r \<noteq> sid"
    and "\<forall>subject t. x \<noteq> Create sid subject t"
  shows "\<forall>r\<in>set (se_rows s'). ss_id r \<noteq> sid"
proof (cases x)
  case (AuthExtend c)
  have "map ss_id (extend_session a b d rows) = map ss_id rows" for a b d rows
    by (simp add: extend_session_def)
  then have "ss_id ` set (extend_session a b d rows) = ss_id ` set rows" for a b d rows
    by (metis set_map)
  then have "ss_id ` set (se_rows s') = ss_id ` set (se_rows s)"
    using assms(1) AuthExtend by (cases "se_flight s c") (clarsimp, clarsimp)
  then show ?thesis using assms(2) by (metis imageE image_eqI)
qed (use assms in \<open>auto simp: create_session_def insert_session_def delete_session_def
       delete_sessions_by_subject_def delete_expired_sessions_def split: option.splits if_splits\<close>)

lemma run_absent:
  "session_run cfg xs s = (outs, s') \<Longrightarrow> \<forall>r\<in>set (se_rows s). ss_id r \<noteq> sid \<Longrightarrow>
     \<forall>subject t. Create sid subject t \<notin> set xs \<Longrightarrow> \<forall>r\<in>set (se_rows s'). ss_id r \<noteq> sid"
proof (induction xs arbitrary: s outs)
  case (Cons x xs)
  obtain out s1 where st: "session_step cfg x s = (out, s1)" by fastforce
  obtain os where "session_run cfg xs s1 = (os, s')" using Cons.prems st by (auto split: prod.splits)
  moreover have "\<forall>r\<in>set (se_rows s1). ss_id r \<noteq> sid"
    using Cons.prems by (intro step_absent [OF st]) auto
  ultimately show ?case using Cons by simp
qed simp

lemma session_run_append:
  "session_run cfg (xs @ ys) s =
     (case session_run cfg xs s of (os, s1) \<Rightarrow> case session_run cfg ys s1 of (os', s2) \<Rightarrow> (os @ os', s2))"
  by (induction xs arbitrary: s) (auto split: prod.splits)

text \<open>C10: a session opens nothing once it is revoked or idle. In any interleaving of the two
  statements of Authenticate calls with creations, revocations and clean-ups, when Authenticate
  accepts a session id then a session of that id was created for that subject, and the time to
  live since its creation or since some Authenticate that renewed it has not passed; and after a
  Revoke of the id it is refused until the id is created again, whatever renewals were under way.\<close>

theorem session_sound:
  assumes "session_run cfg xs no_sessions = (outs, s)"
    and "session_step cfg (AuthGet c (Some sid) now) s = (out, s')"
  shows "(out = Denied Unauthenticated \<or> out = Denied CredentialsExpired \<or>
      (\<exists>subject t0 t. (Create sid subject t0, Created) \<in> set (zip xs outs) \<and> touched (set (zip xs outs)) sid t \<and>
         now \<le> sc_stime cfg (t + sc_ttl cfg) \<and>
         (out = Authenticated subject sid \<or> (out = Extending \<and> se_flight s' c = Some (sid, subject, now))))) \<and>
    (\<forall>pre post. xs = pre @ SRevoke sid # post \<longrightarrow> (\<forall>subject t. Create sid subject t \<notin> set post) \<longrightarrow>
       out = Denied Unauthenticated)"
proof (intro conjI allI impI)
  have "sessions_ok cfg {} no_sessions" by (simp add: sessions_ok_def no_sessions_def)
  from run_sessions_ok [OF assms(1) this] have ok: "\<forall>r\<in>set (se_rows s). session_ok cfg (set (zip xs outs)) r"
    by (simp add: sessions_ok_def)
  show "out = Denied Unauthenticated \<or> out = Denied CredentialsExpired \<or>
      (\<exists>subject t0 t. (Create sid subject t0, Created) \<in> set (zip xs outs) \<and> touched (set (zip xs outs)) sid t \<and>
         now \<le> sc_stime cfg (t + sc_ttl cfg) \<and>
         (out = Authenticated subject sid \<or> (out = Extending \<and> se_flight s' c = Some (sid, subject, now))))"
  proof (cases "out = Denied Unauthenticated \<or> out = Denied CredentialsExpired")
    case False
    then obtain r where r: "get_session sid (se_rows s) = Some r" "now \<le> ss_expires r"
      and out: "out = Authenticated (ss_subject r) sid \<or> (out = Extending \<and> se_flight s' c = Some (sid, ss_subject r, now))"
      using assms(2) by (auto split: option.splits if_splits)
    from get_session_Some [OF r(1)] ok obtain t0 t where
      "(Create sid (ss_subject r) t0, Created) \<in> set (zip xs outs)" "touched (set (zip xs outs)) sid t"
      "ss_expires r = sc_stime cfg (t + sc_ttl cfg)"
      unfolding session_ok_def by blast
    with r(2) out show ?thesis
      by (intro disjI2 exI [of _ "ss_subject r"] exI [of _ t0] exI [of _ t]) simp
  qed blast
next
  fix pre post
  assume xs: "xs = pre @ SRevoke sid # post" and no: "\<forall>subject t. Create sid subject t \<notin> set post"
  obtain os1 s1 where 1: "session_run cfg pre no_sessions = (os1, s1)" by fastforce
  let ?s2 = "s1\<lparr>se_rows := delete_session sid (se_rows s1)\<rparr>"
  obtain os2 where 2: "session_run cfg post ?s2 = (os2, s)"
    using assms(1) 1 unfolding xs session_run_append by (auto split: prod.splits)
  have "\<forall>r\<in>set (se_rows s). ss_id r \<noteq> sid"
    by (rule run_absent [OF 2 _ no]) (simp add: delete_session_def)
  then have "get_session sid (se_rows s) = None" by (auto simp: get_session_def find_None_iff)
  then show "out = Denied Unauthenticated" using assms(2) by (auto split: if_splits)
qed

definition demo_session_cfg :: session_cfg where
  "demo_session_cfg = \<lparr>sc_ttl = 10, sc_extend = True, sc_stime = id\<rparr>"

theorem session_sound_witness:
  "fst (session_step demo_session_cfg (AuthGet 1 (Some ''k'') 6)
     (snd (session_run demo_session_cfg
       [Create ''k'' ''ann'' 0, AuthGet 0 (Some ''k'') 5, SRevoke ''k'', AuthExtend 0] no_sessions))) =
     Denied Unauthenticated"
proof -
  let ?xs = "[Create ''k'' ''ann'' 0, AuthGet 0 (Some ''k'') 5] @ SRevoke ''k'' # [AuthExtend 0]"
  let ?r = "session_run demo_session_cfg ?xs no_sessions"
  let ?st = "session_step demo_session_cfg (AuthGet 1 (Some ''k'') 6) (snd ?r)"
  have no: "\<forall>subject t. Create ''k'' subject t \<notin> set [AuthExtend 0]" by simp
  have "fst ?st = Denied Unauthenticated"
    using session_sound [of demo_session_cfg ?xs "fst ?r" "snd ?r" 1 "''k''" 6 "fst ?st" "snd ?st"] no
    by (metis prod.collapse)
  then show ?thesis by simp
qed

end
