(* ===== verification/Migrate_Manager.thy ===== *)
theory Migrate_Manager
  imports Go_Strings "HOL-Library.List_Lexorder"
begin

text \<open>
  migrate/manager.go, service.go and store.go: registration of migrations, RunPending, Down and
  the readiness check over the tracking table. The database is the schema, a value the migrations'
  SQL acts on, and the rows of the table; running SQL is a parameter, a transaction either keeps
  both the schema change and the row or neither, and a fault record says which steps fail.
\<close>

section \<open>Migrations and the table\<close>

record migration =
  mi_service :: string
  mi_version :: string
  mi_description :: string
  mi_up :: string
  mi_down :: string

record applied_migration =
  am_version :: string
  am_service :: string
  am_description :: string
  am_dirty :: bool

record 'd mdb =
  db_schema :: 'd
  db_rows :: "applied_migration list"

text \<open>Migrations by service name, as a map from names to lists.\<close>

record migrator =
  mg_migrations :: "(string \<times> migration list) list"
  mg_inited :: bool
  mg_closed :: bool

datatype migrate_err =
    MClosed
  | MNotInitialized
  | ErrDirty "string list"
  | DuplicateOwner string string string
  | DuplicateContent string string
  | BeginFailed string
  | UpFailed string string bool
  | RecordFailed string bool
  | CommitFailed string bool
  | DownFailed string string
  | RemoveFailed string
  | NotRegistered string
  | Pending nat

text \<open>Steps that fail for reasons of the database: begin, recording the row, commit, marking the row
  dirty and removing it, by version.\<close>

record faults =
  ft_begin :: "string \<Rightarrow> bool"
  ft_record :: "string \<Rightarrow> bool"
  ft_commit :: "string \<Rightarrow> bool"
  ft_dirty :: "string \<Rightarrow> bool"

type_synonym 'd sql = "string \<Rightarrow> 'd \<Rightarrow> (string, 'd) result"

text \<open>Versions compare as Go strings, byte by byte.\<close>

definition version_key :: "string \<Rightarrow> nat list" where
  "version_key v = map byte v"

section \<open>Registration\<close>

definition register_all :: "string \<Rightarrow> migration list \<Rightarrow> migrator \<Rightarrow> migrator" where
  "register_all name ms g =
     (let own = map (\<lambda>m. m\<lparr>mi_service := name\<rparr>) ms;
          old = (case map_of (mg_migrations g) name of None \<Rightarrow> [] | Some xs \<Rightarrow> xs)
      in g\<lparr>mg_migrations := AList.update name (old @ own) (mg_migrations g)\<rparr>)"

definition register_one :: "string \<Rightarrow> migration \<Rightarrow> migrator \<Rightarrow> migrator" where
  "register_one name m g = register_all name [m] g"

text \<open>parseStem of a base name: the version and the description.\<close>

definition parse_stem :: "string \<Rightarrow> string \<times> string" where
  "parse_stem stem =
     (case cut (CHR ''_'') stem of
        None \<Rightarrow> (stem, '''')
      | Some (v, d) \<Rightarrow> (v, map (\<lambda>c. if c = CHR ''_'' then CHR '' '' else c) d))"

fun collect_versions ::
  "migration list \<Rightarrow> (string \<times> migration) list \<Rightarrow> (migrate_err, (string \<times> migration) list) result" where
  "collect_versions [] acc = Inr acc"
| "collect_versions (m # ms) acc =
     (case map_of acc (mi_version m) of
        None \<Rightarrow> collect_versions ms (acc @ [(mi_version m, m)])
      | Some e \<Rightarrow>
          if mi_service e \<noteq> mi_service m
          then Inl (DuplicateOwner (mi_version m) (mi_service e) (mi_service m))
          else if mi_description e \<noteq> mi_description m \<or> mi_up e \<noteq> mi_up m \<or> mi_down e \<noteq> mi_down m
          then Inl (DuplicateContent (mi_version m) (mi_service m))
          else collect_versions ms acc)"

definition registered_migrations :: "migrator \<Rightarrow> (migrate_err, migration list) result" where
  "registered_migrations g =
     (let names = sort_key version_key (map fst (mg_migrations g));
          all = concat (map (\<lambda>n. case map_of (mg_migrations g) n of None \<Rightarrow> [] | Some ms \<Rightarrow> ms) names)
      in case collect_versions all [] of
           Inl e \<Rightarrow> Inl e
         | Inr vs \<Rightarrow> Inr (sort_key (\<lambda>m. version_key (mi_version m)) (map snd vs)))"

section \<open>Running\<close>

definition usable :: "migrator \<Rightarrow> migrate_err option" where
  "usable g = (if mg_closed g then Some MClosed else if \<not> mg_inited g then Some MNotInitialized else None)"

definition get_applied :: "'d mdb \<Rightarrow> applied_migration list" where
  "get_applied d = sort_key (\<lambda>r. version_key (am_version r)) (db_rows d)"

definition get_dirty :: "'d mdb \<Rightarrow> applied_migration list" where
  "get_dirty d = filter am_dirty (get_applied d)"

definition row_of :: "migration \<Rightarrow> bool \<Rightarrow> applied_migration" where
  "row_of m dirty = \<lparr>am_version = mi_version m, am_service = mi_service m,
     am_description = mi_description m, am_dirty = dirty\<rparr>"

text \<open>INSERT ... ON CONFLICT DO UPDATE SET dirty.\<close>

definition mark_dirty :: "migration \<Rightarrow> 'd mdb \<Rightarrow> 'd mdb" where
  "mark_dirty m d =
     (if list_ex (\<lambda>r. am_version r = mi_version m) (db_rows d)
      then d\<lparr>db_rows := map (\<lambda>r. if am_version r = mi_version m then r\<lparr>am_dirty := True\<rparr> else r) (db_rows d)\<rparr>
      else d\<lparr>db_rows := db_rows d @ [row_of m True]\<rparr>)"

text \<open>After a rollback the migration is marked dirty, unless that fails too.\<close>

definition marking :: "faults \<Rightarrow> migration \<Rightarrow> 'd mdb \<Rightarrow> 'd mdb" where
  "marking f m d = (if ft_dirty f (mi_version m) then d else mark_dirty m d)"

definition record_and_commit :: "faults \<Rightarrow> migration \<Rightarrow> 'd \<Rightarrow> 'd mdb \<Rightarrow> migrate_err option \<times> 'd mdb" where
  "record_and_commit f m schema' d =
     (let v = mi_version m; marked = \<not> ft_dirty f v in
      if ft_record f v \<or> list_ex (\<lambda>r. am_version r = v) (db_rows d)
      then (Some (RecordFailed v marked), marking f m d)
      else if ft_commit f v then (Some (CommitFailed v marked), marking f m d)
      else (None, d\<lparr>db_schema := schema', db_rows := db_rows d @ [row_of m False]\<rparr>))"

definition apply_up :: "faults \<Rightarrow> 'd sql \<Rightarrow> migration \<Rightarrow> 'd mdb \<Rightarrow> migrate_err option \<times> 'd mdb" where
  "apply_up f sql m d =
     (let v = mi_version m in
      if ft_begin f v then (Some (BeginFailed v), d)
      else (case sql (mi_up m) (db_schema d) of
              Inl e \<Rightarrow> (Some (UpFailed v e (\<not> ft_dirty f v)), marking f m d)
            | Inr schema' \<Rightarrow> record_and_commit f m schema' d))"

fun run_ups :: "faults \<Rightarrow> 'd sql \<Rightarrow> string list \<Rightarrow> migration list \<Rightarrow> 'd mdb \<Rightarrow> migrate_err option \<times> 'd mdb" where
  "run_ups f sql applied [] d = (None, d)"
| "run_ups f sql applied (m # ms) d =
     (if mi_version m \<in> set applied then run_ups f sql applied ms d
      else (case apply_up f sql m d of
              (Some e, d') \<Rightarrow> (Some e, d')
            | (None, d') \<Rightarrow> run_ups f sql applied ms d'))"

definition run_pending :: "faults \<Rightarrow> 'd sql \<Rightarrow> migrator \<Rightarrow> 'd mdb \<Rightarrow> migrate_err option \<times> 'd mdb" where
  "run_pending f sql g d =
     (case usable g of
        Some e \<Rightarrow> (Some e, d)
      | None \<Rightarrow>
          if get_dirty d \<noteq> [] then (Some (ErrDirty (map am_version (get_dirty d))), d)
          else (case registered_migrations g of
                  Inl e \<Rightarrow> (Some e, d)
                | Inr all \<Rightarrow> run_ups f sql (map am_version (get_applied d)) all d))"

definition apply_down :: "faults \<Rightarrow> 'd sql \<Rightarrow> migration \<Rightarrow> 'd mdb \<Rightarrow> migrate_err option \<times> 'd mdb" where
  "apply_down f sql m d =
     (let v = mi_version m in
      if ft_begin f v then (Some (BeginFailed v), d)
      else (case sql (mi_down m) (db_schema d) of
              Inl e \<Rightarrow> (Some (DownFailed v e), d)
            | Inr schema' \<Rightarrow>
                if ft_record f v then (Some (RemoveFailed v), d)
                else if ft_commit f v then (Some (CommitFailed v False), d)
                else (None, d\<lparr>db_schema := schema', db_rows := filter (\<lambda>r. am_version r \<noteq> v) (db_rows d)\<rparr>)))"

fun run_downs ::
  "faults \<Rightarrow> 'd sql \<Rightarrow> migration list \<Rightarrow> applied_migration list \<Rightarrow> 'd mdb \<Rightarrow> migrate_err option \<times> 'd mdb" where
  "run_downs f sql all [] d = (None, d)"
| "run_downs f sql all (a # as) d =
     (case find (\<lambda>m. mi_version m = am_version a) all of
        None \<Rightarrow> (Some (NotRegistered (am_version a)), d)
      | Some m \<Rightarrow>
          (case apply_down f sql m d of
             (Some e, d') \<Rightarrow> (Some e, d')
           | (None, d') \<Rightarrow> run_downs f sql all as d'))"

definition down :: "faults \<Rightarrow> 'd sql \<Rightarrow> int \<Rightarrow> migrator \<Rightarrow> 'd mdb \<Rightarrow> migrate_err option \<times> 'd mdb" where
  "down f sql n g d =
     (case usable g of
        Some e \<Rightarrow> (Some e, d)
      | None \<Rightarrow>
          if get_dirty d \<noteq> [] then (Some (ErrDirty (map am_version (get_dirty d))), d)
          else (case registered_migrations g of
                  Inl e \<Rightarrow> (Some e, d)
                | Inr all \<Rightarrow>
                    run_downs f sql all (take (nat (min n (int (length (db_rows d))))) (rev (get_applied d))) d))"

definition check_ready :: "migrator \<Rightarrow> 'd mdb \<Rightarrow> migrate_err option" where
  "check_ready g d =
     (case usable g of
        Some e \<Rightarrow> Some e
      | None \<Rightarrow>
          if get_dirty d \<noteq> [] then Some (ErrDirty (map am_version (get_dirty d)))
          else (case registered_migrations g of
                  Inl e \<Rightarrow> Some e
                | Inr all \<Rightarrow>
                    (let pending = length (filter (\<lambda>m. mi_version m \<notin> set (map am_version (get_applied d))) all)
                     in if pending > 0 then Some (Pending pending) else None)))"

end
