(* ===== verification/Migrate_Properties.thy ===== *)
theory Migrate_Properties
  imports Migrate_Manager "HOL-Library.Multiset"
begin

text \<open>
  What the migration manager promises: pending migrations run once, in version order, schema and
  table together; a failure stops there and blocks; and Down takes back what RunPending did.
\<close>

section \<open>Registered migrations\<close>

lemma version_key_inj: "version_key a = version_key b \<longleftrightarrow> a = b"
  by (auto simp: version_key_def byte_inj inj_map_eq_map inj_def)

lemma collect_versions_spec:
  "collect_versions ms acc = Inr vs \<Longrightarrow> distinct (map fst acc) \<Longrightarrow> \<forall>(v, m)\<in>set acc. mi_version m = v \<Longrightarrow>
     distinct (map fst vs) \<and> (\<forall>(v, m)\<in>set vs. mi_version m = v)"
proof (induction ms acc rule: collect_versions.induct)
  case (2 m ms acc)
  show ?case
  proof (cases "map_of acc (mi_version m)")
    case None
    then have "mi_version m \<notin> fst ` set acc" by (simp add: map_of_eq_None_iff)
    with 2 None show ?thesis by simp
  next
    case (Some e)
    with 2 show ?thesis by (auto split: if_splits)
  qed
qed simp

text \<open>One copy of each version, in strictly ascending order.\<close>

definition ascending :: "migration list \<Rightarrow> bool" where
  "ascending ms \<longleftrightarrow> sorted_wrt (\<lambda>a b. version_key (mi_version a) < version_key (mi_version b)) ms"

lemma sorted_distinct_strict:
  "sorted (map k xs) \<Longrightarrow> distinct (map k xs) \<Longrightarrow> sorted_wrt (\<lambda>a b. k a < k b) (xs :: 'a list)"
  for k :: "'a \<Rightarrow> 'b :: linorder"
  by (induction xs) (auto simp: order.strict_iff_order)

lemma registered_ascending:
  assumes "registered_migrations g = Inr all"
  shows "ascending all"
proof -
  obtain ms vs where c: "collect_versions ms [] = Inr vs"
    and all: "all = sort_key (\<lambda>m. version_key (mi_version m)) (map snd vs)"
    using assms by (auto simp: registered_migrations_def Let_def split: sum.splits)
  have v: "distinct (map fst vs)" "\<forall>(v, m)\<in>set vs. mi_version m = v"
    using collect_versions_spec [OF c] by simp_all
  have "map mi_version (map snd vs) = map fst vs" using v(2) by (induction vs) auto
  with v(1) have "distinct (map mi_version (map snd vs))" by metis
  then have "distinct (map (\<lambda>m. version_key (mi_version m)) (map snd vs))"
    by (simp add: distinct_map inj_on_def version_key_inj)
  moreover have "mset all = mset (map snd vs)" by (simp add: all)
  ultimately have "distinct (map (\<lambda>m. version_key (mi_version m)) all)"
    by (metis mset_eq_imp_distinct_iff mset_map)
  then show ?thesis unfolding ascending_def
    by (intro sorted_distinct_strict) (simp_all add: all)
qed

lemma ascending_Cons:
  "ascending (m # ms) \<Longrightarrow> ascending ms \<and> (\<forall>q\<in>set ms. mi_version q \<noteq> mi_version m)"
  by (auto simp: ascending_def)

section \<open>Running what is pending\<close>

definition pending :: "migration list \<Rightarrow> 'd mdb \<Rightarrow> migration list" where
  "pending all d = filter (\<lambda>m. mi_version m \<notin> am_version ` set (db_rows d)) all"

definition clean_rows :: "migration list \<Rightarrow> applied_migration list" where
  "clean_rows ms = map (\<lambda>m. row_of m False) ms"

fun fold_up :: "'d sql \<Rightarrow> migration list \<Rightarrow> 'd \<Rightarrow> (string, 'd) result" where
  "fold_up sql [] s = Inr s"
| "fold_up sql (m # ms) s = (case sql (mi_up m) s of Inl e \<Rightarrow> Inl e | Inr s' \<Rightarrow> fold_up sql ms s')"

lemma row_of_sel [simp]: "am_version (row_of m b) = mi_version m" "am_dirty (row_of m b) = b"
  by (simp_all add: row_of_def)

lemma set_get_applied [simp]: "set (get_applied d) = set (db_rows d)"
  by (simp add: get_applied_def)

lemma get_dirty_empty: "get_dirty d = [] \<longleftrightarrow> (\<forall>r\<in>set (db_rows d). \<not> am_dirty r)"
  by (auto simp: get_dirty_def filter_empty_conv)

lemma mark_fresh:
  "mi_version m \<notin> am_version ` set (db_rows d) \<Longrightarrow> mark_dirty m d = d\<lparr>db_rows := db_rows d @ [row_of m True]\<rparr>"
  by (force simp: mark_dirty_def list_ex_iff)

text \<open>One migration: it runs and is recorded, or nothing but a dirty mark is left.\<close>

lemma apply_up_cases:
  assumes "apply_up f sql m d = (res, d')" and "mi_version m \<notin> am_version ` set (db_rows d)"
  obtains (ran) s where "res = None" "sql (mi_up m) (db_schema d) = Inr s"
      "d' = d\<lparr>db_schema := s, db_rows := db_rows d @ [row_of m False]\<rparr>"
    | (marked) e where "res = Some e" "d' = d\<lparr>db_rows := db_rows d @ [row_of m True]\<rparr>"
    | (unmarked) e where "res = Some e" "d' = d" "ft_begin f (mi_version m) \<or> ft_dirty f (mi_version m)"
proof -
  have nx: "\<not> list_ex (\<lambda>r. am_version r = mi_version m) (db_rows d)"
    using assms(2) by (force simp: list_ex_iff)
  show thesis
  proof (cases "ft_begin f (mi_version m)")
    case True
    then have "res = Some (BeginFailed (mi_version m))" "d' = d"
      using assms(1) by (simp_all add: apply_up_def)
    then show thesis using unmarked True by blast
  next
    case begun: False
    have failed: thesis if "res = Some e" "d' = marking f m d" for e
    proof (cases "ft_dirty f (mi_version m)")
      case True
      then show thesis using unmarked [of e] that by (simp add: marking_def)
    next
      case False
      then show thesis using marked [of e] that mark_fresh [OF assms(2)] by (simp add: marking_def)
    qed
    show thesis
    proof (cases "sql (mi_up m) (db_schema d)")
      case (Inl e)
      then have "res = Some (UpFailed (mi_version m) e (\<not> ft_dirty f (mi_version m)))" "d' = marking f m d"
        using assms(1) begun by (simp_all add: apply_up_def Let_def)
      then show thesis by (rule failed)
    next
      case (Inr s)
      then have r: "record_and_commit f m s d = (res, d')" using assms(1) begun by (simp add: apply_up_def)
      show thesis
      proof (cases "ft_record f (mi_version m) \<or> ft_commit f (mi_version m)")
        case True
        then show thesis using r nx by (auto simp: record_and_commit_def Let_def split: if_splits intro: failed)
      next
        case False
        then show thesis using r nx Inr ran by (auto simp: record_and_commit_def Let_def)
      qed
    qed
  qed
qed

lemma run_ups_spec:
  assumes "run_ups f sql applied ms d = (res, d')" and "ascending ms"
    and "\<forall>m\<in>set ms. mi_version m \<in> set applied \<or> mi_version m \<notin> am_version ` set (db_rows d)"
  shows "\<exists>pre post. filter (\<lambda>m. mi_version m \<notin> set applied) ms = pre @ post \<and>
    fold_up sql pre (db_schema d) = Inr (db_schema d') \<and>
    (res = None \<longrightarrow> post = [] \<and> db_rows d' = db_rows d @ clean_rows pre) \<and>
    (\<forall>e. res = Some e \<longrightarrow> (\<exists>m rest. post = m # rest \<and>
      (db_rows d' = db_rows d @ clean_rows pre @ [row_of m True] \<or>
       db_rows d' = db_rows d @ clean_rows pre \<and> (ft_begin f (mi_version m) \<or> ft_dirty f (mi_version m)))))"
  using assms
proof (induction ms arbitrary: d)
  case Nil
  then show ?case by (intro exI [of _ "[]"]) (simp add: clean_rows_def)
next
  case (Cons m ms)
  have asc: "ascending ms" "\<forall>q\<in>set ms. mi_version q \<noteq> mi_version m" using ascending_Cons [OF Cons.prems(2)] by auto
  show ?case
  proof (cases "mi_version m \<in> set applied")
    case True
    then have "run_ups f sql applied ms d = (res, d')" using Cons.prems(1) by simp
    from Cons.IH [OF this asc(1)] Cons.prems(3) True show ?thesis by simp
  next
    case False
    then have new: "mi_version m \<notin> am_version ` set (db_rows d)" using Cons.prems(3) by simp
    obtain r1 d1 where a: "apply_up f sql m d = (r1, d1)" by fastforce
    have run: "(res, d') = (case r1 of Some e \<Rightarrow> (Some e, d1) | None \<Rightarrow> run_ups f sql applied ms d1)"
      using Cons.prems(1) False a by (simp split: option.splits)
    from a new show ?thesis
    proof (cases rule: apply_up_cases)
      case (ran s)
      then have r: "run_ups f sql applied ms d1 = (res, d')" using run by simp
      have fr: "\<forall>q\<in>set ms. mi_version q \<in> set applied \<or> mi_version q \<notin> am_version ` set (db_rows d1)"
        using Cons.prems(3) asc(2) ran by auto
      from Cons.IH [OF r asc(1) fr] obtain pre post where p:
        "filter (\<lambda>m. mi_version m \<notin> set applied) ms = pre @ post"
        "fold_up sql pre (db_schema d1) = Inr (db_schema d')"
        "res = None \<longrightarrow> post = [] \<and> db_rows d' = db_rows d1 @ clean_rows pre"
        "\<forall>e. res = Some e \<longrightarrow> (\<exists>m rest. post = m # rest \<and>
          (db_rows d' = db_rows d1 @ clean_rows pre @ [row_of m True] \<or>
           db_rows d' = db_rows d1 @ clean_rows pre \<and> (ft_begin f (mi_version m) \<or> ft_dirty f (mi_version m))))"
        by (elim exE conjE)
      from p(4) have e: "\<forall>e. res = Some e \<longrightarrow> (\<exists>q rest. post = q # rest \<and>
          (db_rows d' = db_rows d @ clean_rows (m # pre) @ [row_of q True] \<or>
           db_rows d' = db_rows d @ clean_rows (m # pre) \<and> (ft_begin f (mi_version q) \<or> ft_dirty f (mi_version q))))"
        using ran by (simp add: clean_rows_def)
      have l: "filter (\<lambda>m. mi_version m \<notin> set applied) (m # ms) = (m # pre) @ post" using p(1) False by simp
      have u: "fold_up sql (m # pre) (db_schema d) = Inr (db_schema d')" using p(2) ran by simp
      have n: "res = None \<longrightarrow> post = [] \<and> db_rows d' = db_rows d @ clean_rows (m # pre)"
        using p(3) ran by (simp add: clean_rows_def)
      show ?thesis by (rule exI [of _ "m # pre"], rule exI [of _ post]) (rule conjI [OF l conjI [OF u conjI [OF n e]]])
    next
      case (marked e)
      then show ?thesis using run False
        by (intro exI [of _ "[]"] exI [of _ "m # filter (\<lambda>m. mi_version m \<notin> set applied) ms"])
           (simp add: clean_rows_def)
    next
      case (unmarked e)
      then show ?thesis using run False
        by (intro exI [of _ "[]"] exI [of _ "m # filter (\<lambda>m. mi_version m \<notin> set applied) ms"])
           (simp add: clean_rows_def)
    qed
  qed
qed

lemma run_pending_dirty:
  assumes "usable g = None" and "get_dirty d \<noteq> []"
  shows "run_pending f sql g d = (Some (ErrDirty (map am_version (get_dirty d))), d)"
    and "down f sql n g d = (Some (ErrDirty (map am_version (get_dirty d))), d)"
  using assms by (simp_all add: run_pending_def down_def)

lemma run_ups_none: "\<forall>m\<in>set ms. mi_version m \<in> set applied \<Longrightarrow> run_ups f sql applied ms d = (None, d)"
  by (induction ms) auto


section \<open>Taking it back\<close>

lemma insort_key_append:
  "\<forall>y\<in>set ys. k x < k y \<Longrightarrow> insort_key k x (zs @ ys) = insort_key k x zs @ ys"
  by (induction zs) (cases ys; auto)+

lemma sort_key_append:
  "sorted (map k ys) \<Longrightarrow> \<forall>x\<in>set xs. \<forall>y\<in>set ys. k x < k y \<Longrightarrow>
     sort_key k (xs @ ys) = sort_key k xs @ ys"
proof (induction xs)
  case Nil
  then show ?case by (simp add: sorted_sort_id [symmetric] sort_key_id_if_sorted)
qed (simp add: insort_key_append)

lemma run_pending_ok:
  assumes "usable g = None" and "registered_migrations g = Inr all" and "run_pending f sql g d = (None, d')"
  shows "db_rows d' = db_rows d @ clean_rows (pending all d) \<and>
    fold_up sql (pending all d) (db_schema d) = Inr (db_schema d') \<and> get_dirty d = [] \<and> get_dirty d' = []"
proof -
  have asc: "ascending all" by (rule registered_ascending [OF assms(2)])
  have dirty: "get_dirty d = []"
    using assms run_pending_dirty(1) [OF assms(1), of d f sql] by fastforce
  then have run: "run_ups f sql (map am_version (get_applied d)) all d = (None, d')"
    using assms by (simp add: run_pending_def)
  obtain pre post where "filter (\<lambda>m. mi_version m \<notin> set (map am_version (get_applied d))) all = pre @ post"
    "fold_up sql pre (db_schema d) = Inr (db_schema d')"
    "post = [] \<and> db_rows d' = db_rows d @ clean_rows pre"
    using run_ups_spec [OF run asc] by fastforce
  then show ?thesis using dirty by (auto simp: pending_def get_dirty_empty clean_rows_def)
qed

lemma fold_up_snoc:
  "fold_up sql (ms @ [m]) s = Inr s' \<longleftrightarrow> (\<exists>s1. fold_up sql ms s = Inr s1 \<and> sql (mi_up m) s1 = Inr s')"
  by (induction ms arbitrary: s) (auto split: sum.splits)

lemma find_version:
  assumes "ascending all" and "m \<in> set all"
  shows "find (\<lambda>q. mi_version q = mi_version m) all = Some m"
  using assms
proof (induction all)
  case (Cons a all)
  from ascending_Cons [OF Cons.prems(1)] Cons show ?case by (cases "a = m") auto
qed simp

lemma run_downs_back:
  assumes "ascending all" and "set ms \<subseteq> set all" and "ascending ms"
    and "\<forall>m\<in>set ms. mi_version m \<notin> am_version ` set rows"
    and "\<forall>m\<in>set ms. \<forall>s s'. sql (mi_up m) s = Inr s' \<longrightarrow> sql (mi_down m) s' = Inr s"
    and "\<forall>v. \<not> ft_begin f v \<and> \<not> ft_record f v \<and> \<not> ft_commit f v"
    and "fold_up sql ms s = Inr (db_schema d)" and "db_rows d = rows @ clean_rows ms"
  shows "run_downs f sql all (rev (clean_rows ms)) d = (None, d\<lparr>db_schema := s, db_rows := rows\<rparr>)"
  using assms(2-5,7,8)
proof (induction ms arbitrary: d rule: rev_induct)
  case Nil
  then show ?case by (cases d) (simp add: clean_rows_def)
next
  case (snoc m ms)
  from snoc.prems(5) obtain s1 where s1: "fold_up sql ms s = Inr s1" "sql (mi_up m) s1 = Inr (db_schema d)"
    by (auto simp: fold_up_snoc)
  then have dn: "sql (mi_down m) (db_schema d) = Inr s1" using snoc.prems(4) by simp
  have other: "\<forall>q\<in>set ms. mi_version q \<noteq> mi_version m" and asc: "ascending ms"
    using snoc.prems(2) by (auto simp: ascending_def sorted_wrt_append)
  have "filter (\<lambda>r. am_version r \<noteq> mi_version m) (clean_rows ms) = clean_rows ms"
    using other by (simp add: clean_rows_def filter_id_conv)
  moreover have "filter (\<lambda>r. am_version r \<noteq> mi_version m) rows = rows"
    using snoc.prems(3) by (force simp: filter_id_conv)
  ultimately have fl: "filter (\<lambda>r. am_version r \<noteq> mi_version m) (db_rows d) = rows @ clean_rows ms"
    using snoc.prems(6) by (simp add: clean_rows_def)
  let ?d = "d\<lparr>db_schema := s1, db_rows := rows @ clean_rows ms\<rparr>"
  have ad: "apply_down f sql m d = (None, ?d)"
    using dn fl assms(6) by (simp add: apply_down_def Let_def)
  have fm: "find (\<lambda>q. mi_version q = mi_version m) all = Some m"
    using snoc.prems(1) by (intro find_version [OF assms(1)]) simp
  have "run_downs f sql all (rev (clean_rows ms)) ?d = (None, ?d\<lparr>db_schema := s, db_rows := rows\<rparr>)"
    by (rule snoc.IH) (use snoc.prems asc s1 in simp_all)
  then show ?case using fm ad by (simp add: clean_rows_def)
qed


section \<open>Concrete runs\<close>

definition no_faults :: faults where
  "no_faults = \<lparr>ft_begin = (\<lambda>_. False), ft_record = (\<lambda>_. False), ft_commit = (\<lambda>_. False), ft_dirty = (\<lambda>_. False)\<rparr>"

text \<open>SQL over a list of tables: "+t" creates t, "-t" drops it when it is the newest.\<close>

definition demo_sql :: "string list sql" where
  "demo_sql q d =
     (case q of
        [] \<Rightarrow> Inl ''empty''
      | c # t \<Rightarrow> if c = CHR ''+'' then Inr (d @ [t])
                else if c = CHR ''-'' \<and> d \<noteq> [] \<and> last d = t then Inr (butlast d) else Inl ''syntax'')"

definition demo_migrations :: "migration list" where
  "demo_migrations =
     [\<lparr>mi_service = ''s'', mi_version = ''2'', mi_description = '''', mi_up = ''+y'', mi_down = ''-y''\<rparr>,
      \<lparr>mi_service = ''s'', mi_version = ''1'', mi_description = '''', mi_up = ''+x'', mi_down = ''-x''\<rparr>,
      \<lparr>mi_service = ''s'', mi_version = ''2'', mi_description = '''', mi_up = ''+y'', mi_down = ''-y''\<rparr>]"

definition demo_migrator :: "migration list \<Rightarrow> migrator" where
  "demo_migrator ms = register_all ''s'' ms \<lparr>mg_migrations = [], mg_inited = True, mg_closed = False\<rparr>"

definition demo_db :: "string list mdb" where
  "demo_db = \<lparr>db_schema = [], db_rows = []\<rparr>"

definition bad_migration :: migration where
  "bad_migration = \<lparr>mi_service = ''s'', mi_version = ''3'', mi_description = '''', mi_up = ''?'', mi_down = ''''\<rparr>"

lemma demo_registered:
  "registered_migrations (demo_migrator demo_migrations) = Inr (rev (take 2 demo_migrations))"
  "registered_migrations (demo_migrator (bad_migration # demo_migrations)) =
     Inr (rev (take 2 demo_migrations) @ [bad_migration])"
  by code_simp+



end
