(* ===== verification/Storage_Lock.thy ===== *)
theory Storage_Lock
  imports Gas_Prelude
begin

text \<open>
  storage/dir/internal/vfs/lock.go: the lock on one name, an OS file lock on a file of that name
  which Release removes. Any number of holders, in one process or several, go through the steps
  of lockFile, Unlock and Release in any order, and may give up waiting or crash at any of them.
  The file system is modelled as POSIX has it: a name refers to a file, an open handle keeps its
  file when the name is removed, and the lock belongs to the file and ends with the handle.
\<close>

type_synonym holder = nat
type_synonym inode = nat

text \<open>
  Where a holder is: not in a call, with the file open (tryLock and lockBlocking wait here), with
  the file locked before isCurrent, holding the name, or in Release after it removed the name.
\<close>

datatype lpc = Outside | Opened inode | Locked inode | Holding inode | Removed inode

record flock =
  fl_name :: "inode option"
  fl_next :: inode
  fl_locked :: "inode \<Rightarrow> holder option"
  fl_pc :: "holder \<Rightarrow> lpc"

definition no_lock :: flock where
  "no_lock = \<lparr>fl_name = None, fl_next = 0, fl_locked = (\<lambda>_. None), fl_pc = (\<lambda>_. Outside)\<rparr>"

definition goto :: "holder \<Rightarrow> lpc \<Rightarrow> flock \<Rightarrow> flock" where
  "goto h p s = s\<lparr>fl_pc := (fl_pc s)(h := p)\<rparr>"

text \<open>openInRoot: open the file of the name, created if there is none.\<close>

definition open_file :: "holder \<Rightarrow> flock \<Rightarrow> flock" where
  "open_file h s =
     (case fl_name s of
        Some i \<Rightarrow> goto h (Opened i) s
      | None \<Rightarrow> goto h (Opened (fl_next s)) (s\<lparr>fl_name := Some (fl_next s), fl_next := Suc (fl_next s)\<rparr>))"

text \<open>tryLock, or lockBlocking returning: possible while nobody has the file locked.\<close>

definition lock_file :: "holder \<Rightarrow> inode \<Rightarrow> flock \<Rightarrow> flock option" where
  "lock_file h i s =
     (if fl_locked s i = None then Some (goto h (Locked i) (s\<lparr>fl_locked := (fl_locked s)(i \<mapsto> h)\<rparr>))
      else None)"

text \<open>Closing the handle gives up the lock.\<close>

definition close_file :: "holder \<Rightarrow> inode \<Rightarrow> flock \<Rightarrow> flock" where
  "close_file h i s =
     goto h Outside (if fl_locked s i = Some h then s\<lparr>fl_locked := (fl_locked s)(i := None)\<rparr> else s)"

text \<open>isCurrent and what lockFile does with its answer: hold the name, or close and try again.\<close>

definition is_current :: "inode \<Rightarrow> flock \<Rightarrow> bool" where
  "is_current i s \<longleftrightarrow> fl_name s = Some i"

definition check_file :: "holder \<Rightarrow> inode \<Rightarrow> flock \<Rightarrow> flock" where
  "check_file h i s = (if is_current i s then goto h (Holding i) s else close_file h i s)"

text \<open>The first step of Release: remove the name, whatever file it refers to.\<close>

definition remove_name :: "flock \<Rightarrow> flock" where
  "remove_name s = s\<lparr>fl_name := None\<rparr>"

datatype lock_action =
    OpenFile holder | LockFile holder | CheckFile holder | Unlock holder
  | ReleaseRemove holder | ReleaseClose holder | GiveUp holder | Crash holder

text \<open>
  \<open>GiveUp\<close> is a wait that ended (the context, a closed lock, a failed open or stat): abandon and
  the error paths close the handle. \<open>Crash\<close> is the end of the process: the system closes its
  handles, and the lock file stays.
\<close>

fun lock_step :: "lock_action \<Rightarrow> flock \<Rightarrow> flock option" where
  "lock_step (OpenFile h) s = (case fl_pc s h of Outside \<Rightarrow> Some (open_file h s) | _ \<Rightarrow> None)"
| "lock_step (LockFile h) s = (case fl_pc s h of Opened i \<Rightarrow> lock_file h i s | _ \<Rightarrow> None)"
| "lock_step (CheckFile h) s = (case fl_pc s h of Locked i \<Rightarrow> Some (check_file h i s) | _ \<Rightarrow> None)"
| "lock_step (Unlock h) s = (case fl_pc s h of Holding i \<Rightarrow> Some (close_file h i s) | _ \<Rightarrow> None)"
| "lock_step (ReleaseRemove h) s =
     (case fl_pc s h of Holding i \<Rightarrow> Some (goto h (Removed i) (remove_name s)) | _ \<Rightarrow> None)"
| "lock_step (ReleaseClose h) s = (case fl_pc s h of Removed i \<Rightarrow> Some (close_file h i s) | _ \<Rightarrow> None)"
| "lock_step (GiveUp h) s =
     (case fl_pc s h of Opened i \<Rightarrow> Some (close_file h i s) | Locked i \<Rightarrow> Some (close_file h i s) | _ \<Rightarrow> None)"
| "lock_step (Crash h) s =
     (case fl_pc s h of
        Outside \<Rightarrow> None
      | Opened i \<Rightarrow> Some (close_file h i s) | Locked i \<Rightarrow> Some (close_file h i s)
      | Holding i \<Rightarrow> Some (close_file h i s) | Removed i \<Rightarrow> Some (close_file h i s))"

inductive lock_reach :: "flock \<Rightarrow> bool" where
  lr_start: "lock_reach no_lock"
| lr_step: "lock_reach s \<Longrightarrow> lock_step a s = Some s' \<Longrightarrow> lock_reach s'"

text \<open>
  withFreeLock of deletebucket.go, which DeleteBucket's cleanup uses: it opens the file if there
  is one, takes its lock without waiting, and then removes the name without asking whether its
  file is still the one of that name.
\<close>

datatype free_action = FreeOpen holder | FreeTry holder | FreeRun holder

fun free_step :: "free_action \<Rightarrow> flock \<Rightarrow> flock option" where
  "free_step (FreeOpen h) s =
     (case (fl_pc s h, fl_name s) of (Outside, Some i) \<Rightarrow> Some (goto h (Opened i) s) | _ \<Rightarrow> None)"
| "free_step (FreeTry h) s =
     (case fl_pc s h of
        Opened i \<Rightarrow> (case lock_file h i s of Some s' \<Rightarrow> Some s' | None \<Rightarrow> Some (close_file h i s))
      | _ \<Rightarrow> None)"
| "free_step (FreeRun h) s =
     (case fl_pc s h of Locked i \<Rightarrow> Some (goto h (Removed i) (remove_name s)) | _ \<Rightarrow> None)"

section \<open>Mutual exclusion\<close>

text \<open>The file a holder has locked, and the one whose name it relies on.\<close>

fun lock_of :: "lpc \<Rightarrow> inode option" where
  "lock_of (Locked i) = Some i"
| "lock_of (Holding i) = Some i"
| "lock_of (Removed i) = Some i"
| "lock_of p = None"

fun opened_of :: "lpc \<Rightarrow> inode option" where
  "opened_of Outside = None"
| "opened_of (Opened i) = Some i"
| "opened_of (Locked i) = Some i"
| "opened_of (Holding i) = Some i"
| "opened_of (Removed i) = Some i"

definition lock_inv :: "flock \<Rightarrow> bool" where
  "lock_inv s \<longleftrightarrow>
     (\<forall>h i. fl_locked s i = Some h \<longleftrightarrow> lock_of (fl_pc s h) = Some i) \<and>
     (\<forall>h i. opened_of (fl_pc s h) = Some i \<longrightarrow> i < fl_next s) \<and>
     (\<forall>i. fl_name s = Some i \<longrightarrow> i < fl_next s) \<and>
     (\<forall>h i. fl_pc s h = Holding i \<longrightarrow> fl_name s = Some i) \<and>
     (\<forall>h i. fl_pc s h = Removed i \<longrightarrow> fl_name s \<noteq> Some i)"

lemmas lock_ops = goto_def open_file_def lock_file_def close_file_def check_file_def
  remove_name_def is_current_def

lemma lock_invD:
  assumes "lock_inv s"
  shows "fl_locked s i = Some h \<longleftrightarrow> lock_of (fl_pc s h) = Some i"
    and "opened_of (fl_pc s h) = Some i \<Longrightarrow> i < fl_next s"
    and "fl_name s = Some i \<Longrightarrow> i < fl_next s"
    and "fl_pc s h = Holding i \<Longrightarrow> fl_name s = Some i"
    and "fl_pc s h = Removed i \<Longrightarrow> fl_name s \<noteq> Some i"
  using assms unfolding lock_inv_def by blast+

lemma lock_inv_init: "lock_inv no_lock"
  by (simp add: lock_inv_def no_lock_def)

lemma lock_invI:
  "(\<And>h i. fl_locked s i = Some h \<longleftrightarrow> lock_of (fl_pc s h) = Some i) \<Longrightarrow>
   (\<And>h i. opened_of (fl_pc s h) = Some i \<Longrightarrow> i < fl_next s) \<Longrightarrow>
   (\<And>i. fl_name s = Some i \<Longrightarrow> i < fl_next s) \<Longrightarrow>
   (\<And>h i. fl_pc s h = Holding i \<Longrightarrow> fl_name s = Some i) \<Longrightarrow>
   (\<And>h i. fl_pc s h = Removed i \<Longrightarrow> fl_name s \<noteq> Some i) \<Longrightarrow> lock_inv s"
  unfolding lock_inv_def by blast

text \<open>A holder moves between places with the same lock, and the name stays.\<close>

lemma lock_inv_goto:
  assumes "lock_inv s" and "lock_of p = lock_of (fl_pc s h)"
    and "\<And>i. opened_of p = Some i \<Longrightarrow> i < fl_next s"
    and "\<And>i. p = Holding i \<Longrightarrow> fl_name s = Some i" and "\<And>i. p = Removed i \<Longrightarrow> fl_name s \<noteq> Some i"
  shows "lock_inv (goto h p s)"
  by (rule lock_invI) (use assms lock_invD [OF assms(1)] in \<open>auto simp: goto_def split: if_splits\<close>)

lemma lock_inv_create:
  assumes "lock_inv s" and "fl_name s = None"
  shows "lock_inv (s\<lparr>fl_name := Some (fl_next s), fl_next := Suc (fl_next s)\<rparr>)"
proof (rule lock_invI)
  fix h i
  assume "fl_pc (s\<lparr>fl_name := Some (fl_next s), fl_next := Suc (fl_next s)\<rparr>) h = Removed i"
  with lock_invD(2) [OF assms(1), of h i]
  show "fl_name (s\<lparr>fl_name := Some (fl_next s), fl_next := Suc (fl_next s)\<rparr>) \<noteq> Some i" by auto
next
  fix h i
  assume "opened_of (fl_pc (s\<lparr>fl_name := Some (fl_next s), fl_next := Suc (fl_next s)\<rparr>) h) = Some i"
  with lock_invD(2) [OF assms(1), of h i]
  show "i < fl_next (s\<lparr>fl_name := Some (fl_next s), fl_next := Suc (fl_next s)\<rparr>)" by simp
qed (use assms lock_invD [OF assms(1)] in auto)

lemma lock_inv_open:
  assumes inv: "lock_inv s" and "fl_pc s h = Outside"
  shows "lock_inv (open_file h s)"
proof (cases "fl_name s")
  case None
  with lock_inv_create [OF inv None] assms(2) show ?thesis
    by (auto simp: open_file_def intro!: lock_inv_goto)
next
  case (Some i)
  with assms lock_invD(3) [OF inv Some] show ?thesis
    by (auto simp: open_file_def intro!: lock_inv_goto)
qed

lemma lock_inv_lock:
  assumes inv: "lock_inv s" and pc: "fl_pc s h = Opened i" and st: "lock_file h i s = Some s'"
  shows "lock_inv s'"
proof -
  from st have none: "fl_locked s i = None"
    and s': "s' = goto h (Locked i) (s\<lparr>fl_locked := (fl_locked s)(i \<mapsto> h)\<rparr>)"
    by (auto simp: lock_file_def split: if_splits)
  have other: "lock_of (fl_pc s g) \<noteq> Some i" for g
    using lock_invD(1) [OF inv, of i g] none by simp
  have "lock_of (fl_pc s h) = None" using pc by simp
  then show ?thesis
    unfolding s' using lock_invD [OF inv] other lock_invD(2) [OF inv, of h i] pc
    by (intro lock_invI) (auto simp: goto_def split: if_splits)
qed

lemma lock_inv_close:
  assumes inv: "lock_inv s" and op: "opened_of (fl_pc s h) = Some i"
  shows "lock_inv (close_file h i s)"
proof -
  have mine: "j \<noteq> i \<Longrightarrow> fl_locked s j \<noteq> Some h" for j
    using lock_invD(1) [OF inv, of j h] op by (cases "fl_pc s h") auto
  let ?s = "close_file h i s"
  have same: "fl_name ?s = fl_name s" "fl_next ?s = fl_next s"
    and pc: "fl_pc ?s = (fl_pc s)(h := Outside)"
    by (simp_all add: close_file_def goto_def)
  have lk: "fl_locked ?s j = Some g \<longleftrightarrow> g \<noteq> h \<and> fl_locked s j = Some g" for j g
    using mine by (auto simp: close_file_def goto_def)
  show ?thesis
  proof (rule lock_invI)
    show "fl_locked ?s j = Some g \<longleftrightarrow> lock_of (fl_pc ?s g) = Some j" for g j
      unfolding lk pc using lock_invD(1) [OF inv, of j g] by simp
    show "opened_of (fl_pc ?s g) = Some j \<Longrightarrow> j < fl_next ?s" for g j
      unfolding same pc using lock_invD(2) [OF inv, of g j] by (simp split: if_splits)
    show "fl_name ?s = Some j \<Longrightarrow> j < fl_next ?s" for j
      unfolding same using lock_invD(3) [OF inv] .
    show "fl_pc ?s g = Holding j \<Longrightarrow> fl_name ?s = Some j" for g j
      unfolding same pc using lock_invD(4) [OF inv, of g j] by (simp split: if_splits)
    show "fl_pc ?s g = Removed j \<Longrightarrow> fl_name ?s \<noteq> Some j" for g j
      unfolding same pc using lock_invD(5) [OF inv, of g j] by (simp split: if_splits)
  qed
qed

lemma lock_inv_check:
  assumes inv: "lock_inv s" and pc: "fl_pc s h = Locked i"
  shows "lock_inv (check_file h i s)"
proof (cases "is_current i s")
  case True
  with inv pc lock_invD(2) [OF inv, of h i] show ?thesis
    by (auto simp: check_file_def is_current_def intro!: lock_inv_goto)
next
  case False
  with lock_inv_close [OF inv, of h i] pc show ?thesis by (simp add: check_file_def)
qed

text \<open>Two holders cannot have the same file, and what one holds is the file of the name.\<close>

lemma holding_unique:
  "lock_inv s \<Longrightarrow> fl_pc s h = Holding i \<Longrightarrow> fl_pc s h' = Holding j \<Longrightarrow> h' = h \<and> j = i"
  using lock_invD(4) [of s h i] lock_invD(4) [of s h' j] lock_invD(1) [of s i h] lock_invD(1) [of s i h']
  by auto

lemma lock_inv_remove:
  assumes inv: "lock_inv s" and pc: "fl_pc s h = Holding i"
  shows "lock_inv (goto h (Removed i) (remove_name s))"
proof -
  have "fl_pc s h' = Holding j \<Longrightarrow> h' = h" for h' j
    using holding_unique [OF inv pc] by blast
  moreover have "lock_of (Removed i) = lock_of (fl_pc s h)" "opened_of (fl_pc s h) = Some i"
    using pc by simp_all
  ultimately show ?thesis
    by (intro lock_invI)
      (use lock_invD [OF inv] in \<open>auto simp: goto_def remove_name_def split: if_splits\<close>)
qed

lemma lock_step_inv: "lock_step a s = Some s' \<Longrightarrow> lock_inv s \<Longrightarrow> lock_inv s'"
  by (cases a)
    (auto split: lpc.splits intro: lock_inv_open lock_inv_lock lock_inv_close lock_inv_check lock_inv_remove)

lemma lock_reach_inv: "lock_reach s \<Longrightarrow> lock_inv s"
  by (induction rule: lock_reach.induct) (auto intro: lock_inv_init lock_step_inv)

text \<open>C35: at most one holder at a time. Whatever holders in any processes do, waiting, giving up,
releasing with or without removing the lock file, or crashing at any point, at most one of them
holds the name, and it has the file locked that the name refers to. A name that nobody holds is
never stuck either: whoever has its file locked can make a step, and a holder that has the file
open can lock it otherwise.\<close>

theorem lock_exclusive:
  assumes "lock_reach s"
  shows "(\<forall>h h' i j. fl_pc s h = Holding i \<and> fl_pc s h' = Holding j \<longrightarrow> h' = h) \<and>
    (\<forall>h i. fl_pc s h = Holding i \<longrightarrow> fl_name s = Some i \<and> fl_locked s i = Some h) \<and>
    (\<forall>h i. fl_pc s h = Opened i \<longrightarrow>
       lock_step (LockFile h) s \<noteq> None \<or>
       (\<exists>g. lock_of (fl_pc s g) = Some i \<and>
          (lock_step (CheckFile g) s \<noteq> None \<or> lock_step (Unlock g) s \<noteq> None \<or> lock_step (ReleaseClose g) s \<noteq> None)))"
proof (intro conjI allI impI)
  note inv = lock_reach_inv [OF assms]
  fix h h' i j assume "fl_pc s h = Holding i \<and> fl_pc s h' = Holding j"
  then show "h' = h" using holding_unique [OF inv] by blast
next
  note inv = lock_reach_inv [OF assms]
  fix h i assume "fl_pc s h = Holding i"
  then show "fl_name s = Some i" "fl_locked s i = Some h"
    using lock_invD(4) [OF inv] lock_invD(1) [OF inv, of i h] by simp_all
next
  note inv = lock_reach_inv [OF assms]
  fix h i assume pc: "fl_pc s h = Opened i"
  show "lock_step (LockFile h) s \<noteq> None \<or>
       (\<exists>g. lock_of (fl_pc s g) = Some i \<and>
          (lock_step (CheckFile g) s \<noteq> None \<or> lock_step (Unlock g) s \<noteq> None \<or> lock_step (ReleaseClose g) s \<noteq> None))"
  proof (cases "fl_locked s i")
    case None
    with pc show ?thesis by (simp add: lock_file_def)
  next
    case (Some g)
    then have "lock_of (fl_pc s g) = Some i" using lock_invD(1) [OF inv] by simp
    then show ?thesis by (intro disjI2 exI [of _ g]) (cases "fl_pc s g"; simp)
  qed
qed

fun lock_run :: "lock_action list \<Rightarrow> flock \<Rightarrow> flock option" where
  "lock_run [] s = Some s"
| "lock_run (a # as) s = (case lock_step a s of None \<Rightarrow> None | Some s' \<Rightarrow> lock_run as s')"

lemma lock_run_reach: "lock_run as s = Some s' \<Longrightarrow> lock_reach s \<Longrightarrow> lock_reach s'"
  by (induction as arbitrary: s) (auto split: option.splits intro: lr_step)

theorem lock_exclusive_witness:
  "\<exists>s. lock_run [OpenFile 1, LockFile 1, CheckFile 1, OpenFile 2, ReleaseRemove 1, OpenFile 3, LockFile 3,
       CheckFile 3, ReleaseClose 1, LockFile 2] no_lock = Some s \<and>
     fl_pc s 3 = Holding 1 \<and> fl_pc s 2 = Locked 0 \<and> fl_name s = Some 1 \<and> fl_locked s 1 = Some 3"
proof -
  let ?as = "[OpenFile 1, LockFile 1, CheckFile 1, OpenFile 2, ReleaseRemove 1, OpenFile 3, LockFile 3,
       CheckFile 3, ReleaseClose 1, LockFile 2]"
  obtain s where run: "lock_run ?as no_lock = Some s"
    and pc: "fl_pc s 3 = Holding 1" "fl_pc s 2 = Locked 0"
    by (simp add: lock_ops no_lock_def)
  from lock_exclusive [OF lock_run_reach [OF run lr_start]] pc
  have "fl_name s = Some 1 \<and> fl_locked s 1 = Some 3" by blast
  with run pc show ?thesis by blast
qed

text \<open>
  With withFreeLock beside them that is no longer so: it may lock a file that was released and
  replaced since it opened it, and remove the name of the new one, so that two writers hold it.
\<close>

theorem free_lock_not_exclusive:
  "\<exists>s1 s2 s3 s4 s5. lock_run [OpenFile 1, LockFile 1, CheckFile 1] no_lock = Some s1 \<and>
     free_step (FreeOpen 2) s1 = Some s2 \<and>
     lock_run [ReleaseRemove 1, ReleaseClose 1, OpenFile 3, LockFile 3, CheckFile 3] s2 = Some s3 \<and>
     Option.bind (free_step (FreeTry 2) s3) (free_step (FreeRun 2)) = Some s4 \<and>
     lock_run [OpenFile 4, LockFile 4, CheckFile 4] s4 = Some s5 \<and>
     fl_pc s5 3 = Holding 1 \<and> fl_pc s5 4 = Holding 2"
  by (simp add: lock_ops no_lock_def)

end
