(* ===== verification/Storage_Bucket.thy ===== *)
theory Storage_Bucket
  imports Storage_Input "HOL-Library.List_Lexorder"
begin

text \<open>
  storage/dir/internal/vfs: one bucket of the directory backend (bucket.go, object.go, fs.go) as
  its metadata and objects directories. An operation reads the directories, and then acts on them
  by single file system operations (\<open>fs_op\<close>), which it returns in order; a crash cuts that list,
  and a fault record says which of its steps fail. Every operation on a key runs under the key's
  lock (theory Storage_Lock), and those of other keys touch other files. SHA-256, MD5 and
  http.DetectContentType are functions \<open>h\<close>, \<open>md5\<close> and \<open>detect\<close>, a fresh UUID and the times are
  arguments.
\<close>

section \<open>Names\<close>

definition is_hex :: "char \<Rightarrow> bool" where
  "is_hex c \<longleftrightarrow> is_digit c \<or> (97 \<le> byte c \<and> byte c \<le> 102)"

definition hash_len :: nat where "hash_len = 64"

definition is_hash :: "string \<Rightarrow> bool" where
  "is_hash s = (if length s \<noteq> hash_len then False else list_all is_hex s)"

definition meta_ext :: string where "meta_ext = ''.gas.json''"

text \<open>What uuid.UUID.String prints and uuid.Parse reads back.\<close>

definition is_uuid :: "string \<Rightarrow> bool" where
  "is_uuid s \<longleftrightarrow> length s = 36 \<and>
     list_all (\<lambda>i. if i \<in> {8, 13, 18, 23} then s ! i = CHR ''-'' else is_hex (s ! i)) [0..<36]"

definition new_data_file_name :: "string \<Rightarrow> string \<Rightarrow> string" where
  "new_data_file_name name uid = name @ ''_'' @ uid"

definition is_data_file_name :: "string \<Rightarrow> string \<Rightarrow> bool" where
  "is_data_file_name name file =
     (if has_prefix file (name @ ''_'') then is_uuid (drop (length name + 1) file) else False)"

section \<open>Files\<close>

record obj_headers =
  oh_cache_control :: string
  oh_content_disposition :: string
  oh_content_encoding :: string
  oh_content_language :: string
  oh_expires :: string

record obj_meta =
  mt_user :: "(string \<times> string) list"
  mt_headers :: obj_headers
  mt_key :: string
  mt_content_type :: string
  mt_etag :: string
  mt_data_file :: string

record obj_stat =
  st_meta :: obj_meta
  st_size :: int
  st_modified :: int

text \<open>
  An entry of the metadata directory: a directory, a file that does not decode to metadata (null
  included), or metadata. An entry of the objects directory: a regular file with its bytes and
  modification time, or something else. A directory is an association list by name.
\<close>

datatype mfile = MetaDir | Garbage | MetaFile obj_meta

datatype dfile = NotRegular | DataFile string int

record vbucket =
  vb_meta :: "(string \<times> mfile) list"
  vb_objs :: "(string \<times> dfile) list"

definition empty_bucket :: vbucket where
  "empty_bucket = \<lparr>vb_meta = [], vb_objs = []\<rparr>"

datatype fs_op =
    PutData string string int | DelData string
  | PutMeta string mfile | RenameMeta string string | DelMeta string

fun apply_op :: "fs_op \<Rightarrow> vbucket \<Rightarrow> vbucket" where
  "apply_op (PutData f c t) s = s\<lparr>vb_objs := AList.update f (DataFile c t) (vb_objs s)\<rparr>"
| "apply_op (DelData f) s = s\<lparr>vb_objs := AList.delete f (vb_objs s)\<rparr>"
| "apply_op (PutMeta f m) s = s\<lparr>vb_meta := AList.update f m (vb_meta s)\<rparr>"
| "apply_op (RenameMeta a b) s =
     (case map_of (vb_meta s) a of
        None \<Rightarrow> s
      | Some m \<Rightarrow> s\<lparr>vb_meta := AList.update b m (AList.delete a (vb_meta s))\<rparr>)"
| "apply_op (DelMeta f) s = s\<lparr>vb_meta := AList.delete f (vb_meta s)\<rparr>"

definition apply_ops :: "fs_op list \<Rightarrow> vbucket \<Rightarrow> vbucket" where
  "apply_ops ops s = fold apply_op ops s"

section \<open>Errors\<close>

text \<open>The sentinels of errors.go an error wraps, or a plain I/O error with the step that failed.\<close>

datatype verr =
    VNotFound | VCorrupt | VPrecondition | VStale | VBucketNotFound | VBucketExists
  | VBucketNotEmpty | VUnnamed | VBody read_err | VIo string

section \<open>Metadata files\<close>

text \<open>
  json.Marshal and Unmarshal of metadata: each byte that is not part of valid UTF-8 becomes
  U+FFFD, and of user metadata keys that then agree the last in sorted order stays.
\<close>

definition rune_len :: "string \<Rightarrow> nat" where
  "rune_len s =
     (case s of
        [] \<Rightarrow> 0
      | a # s1 \<Rightarrow>
          if byte a < 128 then 1
          else (case s1 of
              [] \<Rightarrow> 0
            | b # s2 \<Rightarrow>
                if 194 \<le> byte a \<and> byte a \<le> 223 then (if cont b then 2 else 0)
                else (case s2 of
                        [] \<Rightarrow> 0
                      | c # s3 \<Rightarrow>
                          if 224 \<le> byte a \<and> byte a \<le> 239
                          then (if cont b \<and> cont c \<and> (byte a = 224 \<longrightarrow> 160 \<le> byte b) \<and>
                                   (byte a = 237 \<longrightarrow> byte b \<le> 159) then 3 else 0)
                          else (case s3 of
                                  [] \<Rightarrow> 0
                                | d # s4 \<Rightarrow>
                                    if 240 \<le> byte a \<and> byte a \<le> 244 \<and> cont b \<and> cont c \<and> cont d \<and>
                                      (byte a = 240 \<longrightarrow> 144 \<le> byte b) \<and> (byte a = 244 \<longrightarrow> byte b \<le> 143)
                                    then 4 else 0))))"

function fix_utf8 :: "string \<Rightarrow> string" where
  "fix_utf8 s =
     (if s = [] then []
      else if rune_len s = 0 then [CHR 0xEF, CHR 0xBF, CHR 0xBD] @ fix_utf8 (drop 1 s)
      else take (rune_len s) s @ fix_utf8 (drop (rune_len s) s))"
  by pat_completeness auto
termination
  by (relation "measure length") auto

declare fix_utf8.simps [simp del]

definition stored_user :: "(string \<times> string) list \<Rightarrow> (string \<times> string) list" where
  "stored_user m = fold (\<lambda>(k, v). AList.update (fix_utf8 k) (fix_utf8 v)) (sort_key (\<lambda>(k, v). map byte k) m) []"

definition encode_meta :: "obj_meta \<Rightarrow> obj_meta" where
  "encode_meta m =
     (let hs = mt_headers m in
      \<lparr>mt_user = stored_user (mt_user m),
       mt_headers = \<lparr>oh_cache_control = fix_utf8 (oh_cache_control hs),
         oh_content_disposition = fix_utf8 (oh_content_disposition hs),
         oh_content_encoding = fix_utf8 (oh_content_encoding hs),
         oh_content_language = fix_utf8 (oh_content_language hs), oh_expires = fix_utf8 (oh_expires hs)\<rparr>,
       mt_key = fix_utf8 (mt_key m), mt_content_type = fix_utf8 (mt_content_type m),
       mt_etag = fix_utf8 (mt_etag m), mt_data_file = fix_utf8 (mt_data_file m)\<rparr>)"

text \<open>Bucket.meta; \<open>bad\<close> is an I/O error reading the file.\<close>

definition read_meta :: "(string \<Rightarrow> string) \<Rightarrow> bool \<Rightarrow> vbucket \<Rightarrow> string \<Rightarrow> (verr, obj_meta) result" where
  "read_meta h bad s name =
     (case map_of (vb_meta s) (name @ meta_ext) of
        None \<Rightarrow> if bad then Inl (VIo ''read meta file'') else Inl VNotFound
      | Some MetaDir \<Rightarrow> Inl VCorrupt
      | Some f \<Rightarrow>
          if bad then Inl (VIo ''read meta file'')
          else (case f of
              MetaFile m \<Rightarrow>
                if \<not> is_data_file_name name (mt_data_file m) then Inl VCorrupt
                else if h (mt_key m) \<noteq> name then Inl VCorrupt
                else Inr m
            | _ \<Rightarrow> Inl VCorrupt))"

section \<open>Writing an object\<close>

record condition =
  cd_if_match :: string
  cd_if_none_match :: bool

record create_input =
  ci_key :: string
  ci_content_type :: "string option"
  ci_user :: "(string \<times> string) list"
  ci_headers :: obj_headers
  ci_condition :: condition

text \<open>
  Which steps fail. \<open>ff_write\<close> is the number of bytes written when writing the data file fails;
  \<open>ff_head\<close> says that an error of the body came with the bytes that fill the 512 of fileHead.
\<close>

record faults =
  ff_lock :: bool
  ff_read_meta :: bool
  ff_head :: bool
  ff_open :: bool
  ff_write :: "nat option"
  ff_close :: bool
  ff_stat :: bool
  ff_write_meta :: bool
  ff_rename :: bool
  ff_discard_data :: bool
  ff_discard_meta :: bool
  ff_remove :: bool
  ff_unlock :: bool

definition no_faults :: faults where
  "no_faults = \<lparr>ff_lock = False, ff_read_meta = False, ff_head = False, ff_open = False, ff_write = None,
     ff_close = False, ff_stat = False, ff_write_meta = False, ff_rename = False, ff_discard_data = False,
     ff_discard_meta = False, ff_remove = False, ff_unlock = False\<rparr>"

text \<open>previousDataFile: the data file to remove after the commit, the empty name when there is none.\<close>

definition previous_data_file ::
  "(string \<Rightarrow> string) \<Rightarrow> bool \<Rightarrow> vbucket \<Rightarrow> string \<Rightarrow> condition \<Rightarrow> (verr, string) result" where
  "previous_data_file h bad s name cond =
     (case read_meta h bad s name of
        Inr prev \<Rightarrow>
          if cd_if_none_match cond \<or> (cd_if_match cond \<noteq> '''' \<and> mt_etag prev \<noteq> cd_if_match cond)
          then Inl VPrecondition else Inr (mt_data_file prev)
      | Inl VNotFound \<Rightarrow> if cd_if_match cond \<noteq> '''' then Inl VNotFound else Inr ''''
      | Inl VCorrupt \<Rightarrow>
          if cd_if_match cond \<noteq> '''' \<or> cd_if_none_match cond then Inl VPrecondition else Inr ''''
      | Inl e \<Rightarrow> Inl e)"

text \<open>
  A body is the bytes it delivers and the error it ends with, None for EOF. fileHead reads its
  first 512 bytes and sees an error that comes before they are filled.
\<close>

type_synonym body = "string \<times> read_err option"

definition file_head_size :: nat where "file_head_size = 512"

definition file_head :: "bool \<Rightarrow> body \<Rightarrow> (verr, string) result" where
  "file_head with_head b =
     (let head = take file_head_size (fst b) in
      case snd b of
        Some e \<Rightarrow>
          if length head < file_head_size \<or> (length (fst b) = file_head_size \<and> with_head)
          then Inl (VBody e) else Inr head
      | None \<Rightarrow> Inr head)"

definition sniff_content_type ::
  "(string \<Rightarrow> string) \<Rightarrow> bool \<Rightarrow> body \<Rightarrow> string option \<Rightarrow> (verr, string) result" where
  "sniff_content_type detect with_head b ct =
     (if ct \<noteq> None \<and> ct \<noteq> Some '''' then Inr (the ct)
      else (case file_head with_head b of Inl e \<Rightarrow> Inl e | Inr head \<Rightarrow> Inr (detect head)))"

text \<open>discardTmp: the removal of a file a failed write left, joined with the error.\<close>

definition discard_data :: "faults \<Rightarrow> string \<Rightarrow> verr list \<Rightarrow> verr list \<times> fs_op list" where
  "discard_data ff f errs =
     (if ff_discard_data ff then (errs @ [VIo ''remove temp file''], []) else (errs, [DelData f]))"

definition discard_meta :: "faults \<Rightarrow> string \<Rightarrow> verr list \<Rightarrow> verr list \<times> fs_op list" where
  "discard_meta ff f errs =
     (if ff_discard_meta ff then (errs @ [VIo ''remove temp file''], []) else (errs, [DelMeta f]))"

text \<open>writeDataFile: its errors and what it did to the objects directory.\<close>

definition failed_data :: "faults \<Rightarrow> string \<Rightarrow> string \<Rightarrow> int \<Rightarrow> verr \<Rightarrow> verr list \<times> fs_op list" where
  "failed_data ff f c now e = (case discard_data ff f [e] of (es, ops) \<Rightarrow> (es, PutData f c now # ops))"

definition write_data_file :: "faults \<Rightarrow> string \<Rightarrow> body \<Rightarrow> int \<Rightarrow> verr list \<times> fs_op list" where
  "write_data_file ff f b now =
     (if ff_open ff then ([VIo ''open data file''], [])
      else
        (case ff_write ff of
           Some n \<Rightarrow> failed_data ff f (take n (fst b)) now (VIo ''copy body to data file'')
         | None \<Rightarrow>
             (case snd b of
                Some e \<Rightarrow> failed_data ff f (fst b) now (VBody e)
              | None \<Rightarrow>
                  if ff_close ff then failed_data ff f (fst b) now (VIo ''close data file'')
                  else if ff_stat ff then failed_data ff f (fst b) now (VIo ''stat data file'')
                  else ([], [PutData f (fst b) now]))))"

definition tmp_meta_name :: "string \<Rightarrow> string \<Rightarrow> string" where
  "tmp_meta_name name uid = name @ meta_ext @ uid"

text \<open>writeMetaFile; a failed write of the temp file leaves something that does not decode.\<close>

definition write_meta_file ::
  "faults \<Rightarrow> string \<Rightarrow> string \<Rightarrow> obj_meta \<Rightarrow> verr list \<times> fs_op list" where
  "write_meta_file ff name uid stored =
     (let tmp = tmp_meta_name name uid in
      if ff_write_meta ff then
        (case discard_meta ff tmp [VIo ''write meta file''] of (es, ops) \<Rightarrow> (es, PutMeta tmp Garbage # ops))
      else if ff_rename ff then
        (case discard_meta ff tmp [VIo ''commit meta file''] of
           (es, ops) \<Rightarrow> (es, PutMeta tmp (MetaFile stored) # ops))
      else ([], [PutMeta tmp (MetaFile stored), RenameMeta tmp (name @ meta_ext)]))"

text \<open>finishCreate, unlockWith, releaseWith: the lock is given up whatever happened.\<close>

definition give_up_lock :: "faults \<Rightarrow> verr list \<Rightarrow> verr list" where
  "give_up_lock ff errs = (if ff_unlock ff then errs @ [VIo ''unlock object''] else errs)"

definition new_meta :: "(string \<Rightarrow> string) \<Rightarrow> create_input \<Rightarrow> string \<Rightarrow> string \<Rightarrow> string \<Rightarrow> obj_meta" where
  "new_meta md5 ci ct f c =
     \<lparr>mt_user = ci_user ci, mt_headers = ci_headers ci, mt_key = ci_key ci, mt_content_type = ct,
      mt_etag = md5 c, mt_data_file = f\<rparr>"

text \<open>What CreateObject does after the commit: remove the data file of the object it replaced.\<close>

definition after_commit ::
  "faults \<Rightarrow> string \<Rightarrow> string \<Rightarrow> verr list \<times> fs_op list" where
  "after_commit ff prev f =
     (if prev \<noteq> '''' \<and> prev \<noteq> f then (if ff_remove ff then ([VStale], []) else ([], [DelData prev]))
      else ([], []))"

text \<open>CreateObject, with the UUIDs of the data file and of the temp metadata file.\<close>

definition create_object ::
  "(string \<Rightarrow> string) \<Rightarrow> (string \<Rightarrow> string) \<Rightarrow> (string \<Rightarrow> string) \<Rightarrow> string \<Rightarrow> string \<Rightarrow> int \<Rightarrow> faults \<Rightarrow>
     vbucket \<Rightarrow> create_input \<Rightarrow> body \<Rightarrow> obj_stat option \<times> verr list \<times> fs_op list" where
  "create_object h md5 detect uid uid2 now ff s ci b =
     (let name = h (ci_key ci); f = new_data_file_name name uid in
      if ff_lock ff then (None, [VIo ''lock object''], [])
      else
        (case previous_data_file h (ff_read_meta ff) s name (ci_condition ci) of
           Inl e \<Rightarrow> (None, give_up_lock ff [e], [])
         | Inr prev \<Rightarrow>
             (case sniff_content_type detect (ff_head ff) b (ci_content_type ci) of
                Inl e \<Rightarrow> (None, give_up_lock ff [e], [])
              | Inr ct \<Rightarrow>
                  (let (es, ops) = write_data_file ff f b now in
                   if es \<noteq> [] then (None, give_up_lock ff es, ops)
                   else
                     (let stored = encode_meta (new_meta md5 ci ct f (fst b));
                          (es2, ops2) = write_meta_file ff name uid2 stored in
                      if es2 \<noteq> [] then
                        (let (es3, ops3) = discard_data ff f es2
                         in (None, give_up_lock ff es3, ops @ ops2 @ ops3))
                      else
                        (let (es4, ops4) = after_commit ff prev f in
                         (Some \<lparr>st_meta = stored, st_size = int (length (fst b)), st_modified = now\<rparr>,
                          give_up_lock ff es4, ops @ ops2 @ ops4)))))))"

section \<open>Reading and deleting an object\<close>

text \<open>openData: the size, time and bytes of the data file the metadata names.\<close>

definition open_data :: "faults \<Rightarrow> vbucket \<Rightarrow> obj_meta \<Rightarrow> (verr, obj_stat \<times> string) result" where
  "open_data ff s m =
     (if ff_open ff then Inl (VIo ''open data file'')
      else (case map_of (vb_objs s) (mt_data_file m) of
          None \<Rightarrow> Inl VCorrupt
        | Some f \<Rightarrow>
            if ff_stat ff then Inl (VIo ''stat data file'')
            else (case f of
                NotRegular \<Rightarrow> Inl VCorrupt
              | DataFile c t \<Rightarrow> Inr (\<lparr>st_meta = m, st_size = int (length c), st_modified = t\<rparr>, c))))"

definition open_object ::
  "(string \<Rightarrow> string) \<Rightarrow> faults \<Rightarrow> vbucket \<Rightarrow> string \<Rightarrow> (verr list, obj_stat \<times> string) result" where
  "open_object h ff s key =
     (if ff_lock ff then Inl [VIo ''lock object'']
      else (case read_meta h (ff_read_meta ff) s (h key) of
          Inl e \<Rightarrow> Inl (give_up_lock ff [e])
        | Inr m \<Rightarrow>
            (case open_data ff s m of
               Inl e \<Rightarrow> Inl (give_up_lock ff [e])
             | Inr obj \<Rightarrow> if ff_unlock ff then Inl [VIo ''unlock object''] else Inr obj)))"

definition delete_object ::
  "(string \<Rightarrow> string) \<Rightarrow> faults \<Rightarrow> vbucket \<Rightarrow> string \<Rightarrow> verr list \<times> fs_op list" where
  "delete_object h ff s key =
     (let name = h key in
      if ff_lock ff then ([VIo ''lock object''], [])
      else (case read_meta h (ff_read_meta ff) s name of
          Inl e \<Rightarrow> if e = VNotFound then (give_up_lock ff [], []) else (give_up_lock ff [e], [])
        | Inr m \<Rightarrow>
            if ff_write_meta ff then (give_up_lock ff [VIo ''remove meta file''], [])
            else if ff_remove ff then (give_up_lock ff [VIo ''remove data file''], [DelMeta (name @ meta_ext)])
            else (give_up_lock ff [], [DelMeta (name @ meta_ext), DelData (mt_data_file m)])))"

section \<open>The keys of a bucket\<close>

text \<open>
  checkKey and Keys. A read of a metadata file or a stat of a data file fails where \<open>bad\<close> says so;
  the second look under the lock sees the same directories.
\<close>

definition check_key ::
  "(string \<Rightarrow> string) \<Rightarrow> (string \<Rightarrow> bool) \<Rightarrow> vbucket \<Rightarrow> string \<Rightarrow> (verr, string) result" where
  "check_key h bad s name =
     (case read_meta h (bad name) s name of
        Inl e \<Rightarrow> Inl e
      | Inr m \<Rightarrow>
          if bad (mt_data_file m) then Inl (VIo ''stat data file'')
          else (case map_of (vb_objs s) (mt_data_file m) of
              None \<Rightarrow> Inl VCorrupt
            | Some NotRegular \<Rightarrow> Inl VCorrupt
            | Some (DataFile c t) \<Rightarrow> Inr (mt_key m)))"

definition cut_meta_ext :: "string \<Rightarrow> string option" where
  "cut_meta_ext f =
     (if has_suffix f meta_ext \<and> is_hash (take (length f - length meta_ext) f)
      then Some (take (length f - length meta_ext) f) else None)"

fun keys_loop ::
  "(string \<Rightarrow> string) \<Rightarrow> (string \<Rightarrow> bool) \<Rightarrow> vbucket \<Rightarrow> string list \<Rightarrow> (verr, string list \<times> string list) result" where
  "keys_loop h bad s [] = Inr ([], [])"
| "keys_loop h bad s (f # fs) =
     (case cut_meta_ext f of
        None \<Rightarrow> keys_loop h bad s fs
      | Some name \<Rightarrow>
          (case check_key h bad s name of
             Inl e \<Rightarrow>
               if e = VNotFound then keys_loop h bad s fs
               else if e = VCorrupt then map_sum id (\<lambda>(ks, sk). (ks, f # sk)) (keys_loop h bad s fs)
               else Inl e
           | Inr key \<Rightarrow> map_sum id (\<lambda>(ks, sk). (key # ks, sk)) (keys_loop h bad s fs)))"

definition bucket_keys ::
  "(string \<Rightarrow> string) \<Rightarrow> (string \<Rightarrow> bool) \<Rightarrow> vbucket \<Rightarrow> (verr, string list \<times> string list) result" where
  "bucket_keys h bad s = keys_loop h bad s (map fst (vb_meta s))"

end
