(* ===== verification/Storage_Provider.thy ===== *)
theory Storage_Provider
  imports Storage_Bucket Storage_Properties
begin

text \<open>
  storage/dir/provider.go: the object operations of the directory backend over its buckets. A
  PutObject input is checked first (names, condition, declared length), its body is then read to
  the end through the length reader and written; a GetObject opens the object and cuts the range.
  A concurrent DeleteBucket (removedErr) and closing the handles are left out; the buckets are
  found by the hash of their names.
\<close>

section \<open>Errors\<close>

datatype psentinel =
    PBucketNotFound | PBucketNotEmpty | PCorrupt | PPreconditionFailed | PKeyNotFound | PNotFound | PStaleData

datatype perr = PInput storage_err | PUnsupported string | POp "psentinel option" "verr list"

definition op_error :: "psentinel option \<Rightarrow> verr list \<Rightarrow> perr" where
  "op_error not_found es =
     POp (if VBucketNotFound \<in> set es then Some PBucketNotFound
          else if VBucketNotEmpty \<in> set es then Some PBucketNotEmpty
          else if VCorrupt \<in> set es then Some PCorrupt
          else if VPrecondition \<in> set es then Some PPreconditionFailed
          else if VNotFound \<in> set es then not_found
          else if VStale \<in> set es then Some PStaleData
          else None) es"

section \<open>Inputs and outputs\<close>

record hashes =
  he_hash :: "string \<Rightarrow> string"
  he_md5 :: "string \<Rightarrow> string"
  he_detect :: "string \<Rightarrow> string"

record put_input =
  pi_bucket :: "string option"
  pi_key :: string
  pi_length :: "int option"
  pi_content_type :: "string option"
  pi_user :: "(string \<times> string) list"
  pi_cache_control :: "string option"
  pi_content_disposition :: "string option"
  pi_content_encoding :: "string option"
  pi_content_language :: "string option"
  pi_expires :: "string option"
  pi_if_match :: "string option"
  pi_if_none_match :: "string option"

record get_input =
  gi_bucket :: "string option"
  gi_key :: string
  gi_range :: "string option"
  gi_version :: "string option"
  gi_part_number :: "int option"

record object_info =
  oi_size :: int
  oi_modified :: int
  oi_content_type :: string
  oi_user :: "(string \<times> string) list"
  oi_headers :: obj_headers
  oi_etag :: string

definition object_info_of :: "obj_stat \<Rightarrow> object_info" where
  "object_info_of st =
     \<lparr>oi_size = st_size st, oi_modified = st_modified st, oi_content_type = mt_content_type (st_meta st),
      oi_user = mt_user (st_meta st), oi_headers = mt_headers (st_meta st), oi_etag = mt_etag (st_meta st)\<rparr>"

definition value_of :: "string option \<Rightarrow> string" where
  "value_of s = (case s of None \<Rightarrow> '''' | Some v \<Rightarrow> v)"

type_synonym vfs = "(string \<times> vbucket) list"

definition open_bucket :: "(string \<Rightarrow> string) \<Rightarrow> vfs \<Rightarrow> string \<Rightarrow> (verr, vbucket) result" where
  "open_bucket h v name = (case map_of v (h name) of None \<Rightarrow> Inl VBucketNotFound | Some s \<Rightarrow> Inr s)"

section \<open>PutObject\<close>

text \<open>
  The body is an io.Reader \<open>rd\<close> in state \<open>body\<close>; \<open>ps\<close> are the sizes of the buffers it is read with.
  \<open>read_raw\<close> and \<open>read_seq\<close> read until an error, EOF included, or until the buffers are used up.
\<close>

definition raw_err :: "body_err \<Rightarrow> read_err" where
  "raw_err e = (case e of BodyEOF \<Rightarrow> EOF | BodyFailed x \<Rightarrow> ReadBody x)"

fun read_raw :: "'s io_reader \<Rightarrow> nat list \<Rightarrow> 's \<Rightarrow> string \<times> read_err option" where
  "read_raw rd [] s = ([], None)"
| "read_raw rd (p # ps) s =
     (case rd p s of (n, bs, err, s') \<Rightarrow>
        (case err of
           Some e \<Rightarrow> (take (nat n) bs, Some (raw_err e))
         | None \<Rightarrow> (case read_raw rd ps s' of (cs, e) \<Rightarrow> (take (nat n) bs @ cs, e))))"

definition read_body :: "'s io_reader \<Rightarrow> nat list \<Rightarrow> 's + 's length_reader \<Rightarrow> string \<times> read_err option" where
  "read_body rd ps b = (case b of Inl s \<Rightarrow> read_raw rd ps s | Inr l \<Rightarrow> read_seq rd ps l)"

text \<open>What CreateObject sees: None while the body has not ended, else its bytes and its error.\<close>

definition body_end :: "string \<times> read_err option \<Rightarrow> body option" where
  "body_end r = (case r of (bs, None) \<Rightarrow> None | (bs, Some e) \<Rightarrow> Some (bs, if e = EOF then None else Some e))"

definition put_result :: "obj_stat option \<Rightarrow> verr list \<Rightarrow> object_info option \<times> perr option" where
  "put_result out errs =
     (if errs \<noteq> [] then
        (case out of
           Some st \<Rightarrow>
             if VStale \<in> set errs then (Some (object_info_of st), Some (op_error None errs))
             else (None, Some (op_error (Some PKeyNotFound) errs))
         | None \<Rightarrow> (None, Some (op_error (Some PKeyNotFound) errs)))
      else (map_option object_info_of out, None))"

definition create_input_of :: "put_input \<Rightarrow> string \<Rightarrow> create_input" where
  "create_input_of pi if_match =
     \<lparr>ci_key = pi_key pi, ci_content_type = pi_content_type pi, ci_user = pi_user pi,
      ci_headers = \<lparr>oh_cache_control = value_of (pi_cache_control pi),
        oh_content_disposition = value_of (pi_content_disposition pi),
        oh_content_encoding = value_of (pi_content_encoding pi),
        oh_content_language = value_of (pi_content_language pi), oh_expires = value_of (pi_expires pi)\<rparr>,
      ci_condition = \<lparr>cd_if_match = if_match, cd_if_none_match = (pi_if_none_match pi \<noteq> None)\<rparr>\<rparr>"

text \<open>
  PutObject: the ObjectInfo, the error, and what it did to which bucket; None when the body has not
  ended.
\<close>

definition put_object ::
  "hashes \<Rightarrow> string \<Rightarrow> string \<Rightarrow> int \<Rightarrow> faults \<Rightarrow> string \<Rightarrow> vfs \<Rightarrow> put_input \<Rightarrow> 's io_reader \<Rightarrow> nat list \<Rightarrow> 's \<Rightarrow>
     (object_info option \<times> perr option \<times> (string \<times> fs_op list)) option" where
  "put_object he uid uid2 now ff cfg v pi rd ps body =
     (case validate_input (pi_key pi) (pi_bucket pi) cfg of
        Inl e \<Rightarrow> Some (None, Some (PInput e), ('''', []))
      | Inr bucket \<Rightarrow>
          (case validate_condition (pi_if_match pi) (pi_if_none_match pi) of
             Inl e \<Rightarrow> Some (None, Some (PInput e), ('''', []))
           | Inr if_match \<Rightarrow>
               (case open_bucket (he_hash he) v bucket of
                  Inl e \<Rightarrow> Some (None, Some (op_error None [e]), ('''', []))
                | Inr s \<Rightarrow>
                    (case check_length body (pi_length pi) of
                       Inl e \<Rightarrow> Some (None, Some (PInput e), ('''', []))
                     | Inr rb \<Rightarrow>
                         (case body_end (read_body rd ps rb) of
                            None \<Rightarrow> None
                          | Some b \<Rightarrow>
                              (case create_object (he_hash he) (he_md5 he) (he_detect he) uid uid2 now ff s
                                      (create_input_of pi if_match) b of
                                 (out, errs, ops) \<Rightarrow>
                                   (case put_result out errs of
                                      (info, err) \<Rightarrow> Some (info, err, (he_hash he bucket, ops)))))))))"

section \<open>GetObject, HeadObject, DeleteObject\<close>

definition reject_unsupported :: "string \<Rightarrow> get_input \<Rightarrow> perr option" where
  "reject_unsupported cfg gi =
     (case validate_input (gi_key gi) (gi_bucket gi) cfg of
        Inl e \<Rightarrow> Some (PInput e)
      | Inr _ \<Rightarrow>
          if gi_version gi \<noteq> None then Some (PUnsupported ''version'')
          else if gi_part_number gi \<noteq> None then Some (PUnsupported ''part number'')
          else None)"

definition provider_open ::
  "hashes \<Rightarrow> faults \<Rightarrow> string \<Rightarrow> vfs \<Rightarrow> psentinel \<Rightarrow> get_input \<Rightarrow> (perr, obj_stat \<times> string) result" where
  "provider_open he ff cfg v not_found gi =
     (case validate_input (gi_key gi) (gi_bucket gi) cfg of
        Inl e \<Rightarrow> Inl (PInput e)
      | Inr bucket \<Rightarrow>
          (case open_bucket (he_hash he) v bucket of
             Inl e \<Rightarrow> Inl (op_error (Some not_found) [e])
           | Inr s \<Rightarrow>
               (case open_object (he_hash he) ff s (gi_key gi) of
                  Inl es \<Rightarrow> Inl (op_error (Some not_found) es)
                | Inr obj \<Rightarrow> Inr obj)))"

text \<open>rangedObject: the info and the bytes its Body reads.\<close>

definition ranged_object ::
  "obj_stat \<times> string \<Rightarrow> string option \<Rightarrow> (storage_err, object_info \<times> string) result" where
  "ranged_object obj header =
     (case header of
        None \<Rightarrow> Inr (object_info_of (fst obj), snd obj)
      | Some hdr \<Rightarrow>
          (case parse_byte_range hdr (st_size (fst obj)) of
             Inl e \<Rightarrow> Inl e
           | Inr (off, n) \<Rightarrow>
               Inr ((object_info_of (fst obj))\<lparr>oi_size := n\<rparr>,
                    if off \<noteq> 0 \<or> n \<noteq> st_size (fst obj) then take (nat n) (drop (nat off) (snd obj))
                    else snd obj)))"

definition get_object ::
  "hashes \<Rightarrow> faults \<Rightarrow> string \<Rightarrow> vfs \<Rightarrow> get_input \<Rightarrow> (perr, object_info \<times> string) result" where
  "get_object he ff cfg v gi =
     (case reject_unsupported cfg gi of
        Some e \<Rightarrow> Inl e
      | None \<Rightarrow>
          (case provider_open he ff cfg v PKeyNotFound gi of
             Inl e \<Rightarrow> Inl e
           | Inr obj \<Rightarrow>
               (case ranged_object obj (gi_range gi) of
                  Inl e \<Rightarrow> Inl (PInput e)
                | Inr out \<Rightarrow> Inr out)))"

definition head_object ::
  "hashes \<Rightarrow> faults \<Rightarrow> string \<Rightarrow> vfs \<Rightarrow> get_input \<Rightarrow> (perr, object_info) result" where
  "head_object he ff cfg v gi =
     (case reject_unsupported cfg gi of
        Some e \<Rightarrow> Inl e
      | None \<Rightarrow>
          (case provider_open he ff cfg v PNotFound gi of
             Inl e \<Rightarrow> Inl e
           | Inr (st, c) \<Rightarrow>
               (case gi_range gi of
                  None \<Rightarrow> Inr (object_info_of st)
                | Some hdr \<Rightarrow>
                    (case parse_byte_range hdr (st_size st) of
                       Inl e \<Rightarrow> Inl (PInput e)
                     | Inr (off, n) \<Rightarrow> Inr ((object_info_of st)\<lparr>oi_size := n\<rparr>)))))"

definition remove_object ::
  "hashes \<Rightarrow> faults \<Rightarrow> string \<Rightarrow> vfs \<Rightarrow> get_input \<Rightarrow> perr option \<times> (string \<times> fs_op list)" where
  "remove_object he ff cfg v gi =
     (case validate_input (gi_key gi) (gi_bucket gi) cfg of
        Inl e \<Rightarrow> (Some (PInput e), ('''', []))
      | Inr bucket \<Rightarrow>
          if gi_version gi \<noteq> None then (Some (PUnsupported ''version''), ('''', []))
          else (case open_bucket (he_hash he) v bucket of
                  Inl e \<Rightarrow> (Some (op_error None [e]), ('''', []))
                | Inr s \<Rightarrow>
                    (case delete_object (he_hash he) ff s (gi_key gi) of
                       (errs, ops) \<Rightarrow>
                         (if errs = [] then None else Some (op_error None errs), (he_hash he bucket, ops)))))"

text \<open>What an operation leaves of the buckets.\<close>

definition vfs_after :: "string \<times> fs_op list \<Rightarrow> vfs \<Rightarrow> vfs" where
  "vfs_after eff v =
     (case map_of v (fst eff) of
        None \<Rightarrow> v
      | Some s \<Rightarrow> AList.update (fst eff) (apply_ops (snd eff) s) v)"

end
