(* ===== verification/Storage_Bucket_Properties.thy ===== *)
theory Storage_Bucket_Properties
  imports Storage_Bucket
begin

text \<open>
  What the files of a bucket promise: every operation on an object takes effect at one step of
  the file system, so after a crash or a failure at any point a reader finds the old object or the
  new one, whole, and every other object untouched.
\<close>

section \<open>Objects\<close>

text \<open>What a reader gets for a key: the metadata, the bytes and the time, if it gets anything.\<close>

definition stored_object :: "(string \<Rightarrow> string) \<Rightarrow> vbucket \<Rightarrow> string \<Rightarrow> (obj_meta \<times> string \<times> int) option" where
  "stored_object h s key =
     (case open_object h no_faults s key of
        Inr (st, c) \<Rightarrow> Some (st_meta st, c, st_modified st)
      | Inl _ \<Rightarrow> None)"

text \<open>The same by name, and the data file the metadata of a name refers to.\<close>

definition object_at :: "(string \<Rightarrow> string) \<Rightarrow> vbucket \<Rightarrow> string \<Rightarrow> (obj_meta \<times> string \<times> int) option" where
  "object_at h s name =
     (case read_meta h False s name of
        Inl _ \<Rightarrow> None
      | Inr m \<Rightarrow>
          (case map_of (vb_objs s) (mt_data_file m) of
             Some (DataFile c t) \<Rightarrow> Some (m, c, t)
           | _ \<Rightarrow> None))"

definition data_ref :: "(string \<Rightarrow> string) \<Rightarrow> vbucket \<Rightarrow> string \<Rightarrow> string option" where
  "data_ref h s name = (case read_meta h False s name of Inl _ \<Rightarrow> None | Inr m \<Rightarrow> Some (mt_data_file m))"

lemma stored_object_at: "stored_object h s key = object_at h s (h key)"
  by (simp add: stored_object_def object_at_def open_object_def no_faults_def open_data_def give_up_lock_def
      split: sum.splits option.splits dfile.splits)

lemma read_meta_cong:
  "map_of (vb_meta s') (name @ meta_ext) = map_of (vb_meta s) (name @ meta_ext) \<Longrightarrow>
     read_meta h bad s' name = read_meta h bad s name"
  by (simp add: read_meta_def)

section \<open>Names\<close>

lemma is_hash_length: "is_hash s \<Longrightarrow> length s = 64"
  by (simp add: is_hash_def hash_len_def split: if_splits)

lemma meta_ext_length: "length meta_ext = 9"
  by (simp add: meta_ext_def)

lemma is_uuid_length: "is_uuid u \<Longrightarrow> length u = 36"
  by (simp add: is_uuid_def)

lemma data_file_prefix: "is_data_file_name name f \<longleftrightarrow> (\<exists>u. f = name @ ''_'' @ u \<and> is_uuid u)"
  by (auto simp: is_data_file_name_def has_prefix_iff split: if_splits)

text \<open>The data files of different names, and a temp metadata file and a metadata file, differ.\<close>

lemma data_file_other:
  "is_hash name \<Longrightarrow> is_hash name' \<Longrightarrow> name' \<noteq> name \<Longrightarrow> is_data_file_name name' f \<Longrightarrow>
     f \<noteq> new_data_file_name name uid"
  by (auto simp: data_file_prefix new_data_file_name_def dest!: is_hash_length)

lemma data_files_differ:
  assumes "is_hash name" "is_hash name'" "name' \<noteq> name"
    and "is_data_file_name name f" "is_data_file_name name' f'"
  shows "f' \<noteq> f"
  using assms is_hash_length [OF assms(1)] is_hash_length [OF assms(2)]
  by (auto simp: data_file_prefix)

lemma tmp_not_meta:
  "is_hash name \<Longrightarrow> is_hash name' \<Longrightarrow> is_uuid u \<Longrightarrow> name' @ meta_ext \<noteq> tmp_meta_name name u"
  by (auto simp: tmp_meta_name_def meta_ext_length dest!: is_hash_length is_uuid_length
      dest: arg_cong [of _ _ length])

lemma meta_name_inj: "is_hash name \<Longrightarrow> is_hash name' \<Longrightarrow> name' @ meta_ext = name @ meta_ext \<longleftrightarrow> name' = name"
  by simp

section \<open>What leaves an object alone\<close>

fun avoids :: "(string \<Rightarrow> string) \<Rightarrow> vbucket \<Rightarrow> string \<Rightarrow> fs_op \<Rightarrow> bool" where
  "avoids h s name (PutData f c t) \<longleftrightarrow> data_ref h s name \<noteq> Some f"
| "avoids h s name (DelData f) \<longleftrightarrow> data_ref h s name \<noteq> Some f"
| "avoids h s name (PutMeta f m) \<longleftrightarrow> f \<noteq> name @ meta_ext"
| "avoids h s name (RenameMeta a b) \<longleftrightarrow> a \<noteq> name @ meta_ext \<and> b \<noteq> name @ meta_ext"
| "avoids h s name (DelMeta f) \<longleftrightarrow> f \<noteq> name @ meta_ext"

lemma avoids_meta:
  "avoids h s name op \<Longrightarrow>
     map_of (vb_meta (apply_op op s)) (name @ meta_ext) = map_of (vb_meta s) (name @ meta_ext)"
  by (cases op) (auto simp: update_conv' delete_conv' split: option.splits)

lemma avoids_objs:
  "avoids h s name op \<Longrightarrow> data_ref h s name = Some f \<Longrightarrow>
     map_of (vb_objs (apply_op op s)) f = map_of (vb_objs s) f"
  by (cases op) (auto simp: update_conv' delete_conv' split: option.splits)

lemma avoids_step:
  assumes "avoids h s name op"
  shows "data_ref h (apply_op op s) name = data_ref h s name"
    and "object_at h (apply_op op s) name = object_at h s name"
proof -
  have r: "read_meta h bad (apply_op op s) name = read_meta h bad s name" for bad
    by (rule read_meta_cong) (rule avoids_meta [OF assms])
  then show d: "data_ref h (apply_op op s) name = data_ref h s name"
    by (simp add: data_ref_def)
  show "object_at h (apply_op op s) name = object_at h s name"
  proof (cases "read_meta h False s name")
    case (Inr m)
    then have "data_ref h s name = Some (mt_data_file m)" by (simp add: data_ref_def)
    from avoids_objs [OF assms this] Inr show ?thesis by (simp add: object_at_def r)
  qed (simp add: object_at_def r)
qed

lemma avoids_cong:
  "data_ref h s' name = data_ref h s name \<Longrightarrow> avoids h s' name op = avoids h s name op"
  by (cases op) simp_all

lemma avoids_all:
  assumes "\<forall>op\<in>set ops. avoids h s name op"
  shows "object_at h (apply_ops ops s) name = object_at h s name \<and>
         data_ref h (apply_ops ops s) name = data_ref h s name"
  using assms
proof (induction ops arbitrary: s)
  case (Cons op ops)
  then have step: "data_ref h (apply_op op s) name = data_ref h s name"
      "object_at h (apply_op op s) name = object_at h s name"
    using avoids_step [of h s name op] by simp_all
  with Cons.prems have "\<forall>o2\<in>set ops. avoids h (apply_op op s) name o2"
    using avoids_cong [OF step(1)] by simp
  from Cons.IH [OF this] step show ?case by (simp add: apply_ops_def)
qed (simp add: apply_ops_def)

lemma apply_ops_append: "apply_ops (as @ bs) s = apply_ops bs (apply_ops as s)"
  by (simp add: apply_ops_def)

lemma apply_ops_simps [simp]: "apply_ops [] s = s" "apply_ops (op # ops) s = apply_ops ops (apply_op op s)"
  by (simp_all add: apply_ops_def)

section \<open>Crashes\<close>

text \<open>
  What a crash leaves of the step under way: a file being written may hold a part of its content.
  Renames and removals happen or do not.
\<close>

fun torn :: "nat \<Rightarrow> fs_op \<Rightarrow> fs_op list" where
  "torn j (PutData f c t) = [PutData f (take j c) t]"
| "torn j (PutMeta f m) = [PutMeta f Garbage]"
| "torn j op = []"

text \<open>A crash after n steps, or during the next one.\<close>

definition crashed :: "fs_op list \<Rightarrow> nat \<Rightarrow> nat option \<Rightarrow> fs_op list" where
  "crashed ops n j =
     take n ops @ (case j of Some j \<Rightarrow> if n < length ops then torn j (ops ! n) else [] | None \<Rightarrow> [])"

lemma avoids_torn: "avoids h s name op \<Longrightarrow> \<forall>o2\<in>set (torn j op). avoids h s name o2"
  by (cases op) auto

lemma avoids_crashed:
  assumes "\<forall>op\<in>set ops. avoids h s name op"
  shows "\<forall>op\<in>set (crashed ops n j). avoids h s name op"
  using assms avoids_torn [of h s name "ops ! n"]
  by (auto simp: crashed_def split: option.splits dest: in_set_takeD)

section \<open>What encoding keeps\<close>

lemma valid_rune:
  assumes "valid_utf8 s" and "s \<noteq> []"
  shows "rune_len s \<noteq> 0 \<and> rune_len s \<le> length s \<and> valid_utf8 (drop (rune_len s) s)"
proof -
  obtain a s1 where s: "s = a # s1" using assms(2) by (cases s) auto
  show ?thesis
  proof (cases "byte a < 128")
    case True
    with assms s show ?thesis by (simp add: rune_len_def)
  next
    case F1: False
    with assms s obtain b s2 where s1: "s1 = b # s2" by (cases s1) auto
    show ?thesis
    proof (cases "194 \<le> byte a \<and> byte a \<le> 223")
      case True
      with F1 assms s s1 show ?thesis by (simp add: rune_len_def)
    next
      case F2: False
      have "s2 \<noteq> []" using assms(1) by (auto simp add: F1 F2 s s1)
      then obtain c s3 where s2: "s2 = c # s3" by (cases s2) auto
      show ?thesis
      proof (cases "224 \<le> byte a \<and> byte a \<le> 239")
        case True
        from assms(1) show ?thesis by (simp add: F1 F2 True s s1 s2 rune_len_def)
      next
        case F3: False
        have "s3 \<noteq> []" using assms(1) by (auto simp add: F1 F2 F3 s s1 s2)
        then obtain d s4 where s3: "s3 = d # s4" by (cases s3) auto
        from assms(1) show ?thesis by (simp add: F1 F2 F3 s s1 s2 s3 rune_len_def)
      qed
    qed
  qed
qed

lemma fix_utf8_valid: "valid_utf8 s \<Longrightarrow> fix_utf8 s = s"
proof (induction s rule: fix_utf8.induct)
  case (1 s)
  show ?case
  proof (cases "s = []")
    case True
    then show ?thesis by (simp add: fix_utf8.simps [of "[]"])
  next
    case False
    with 1 valid_rune [of s] show ?thesis by (simp add: fix_utf8.simps [of s])
  qed
qed

lemma ascii_valid: "list_all (\<lambda>c. byte c < 128) s \<Longrightarrow> valid_utf8 s"
  by (induction s) simp_all

lemma is_hex_ascii: "is_hex c \<Longrightarrow> byte c < 128"
  by (auto simp: is_hex_def is_digit_def)

lemma is_hash_ascii: "is_hash s \<Longrightarrow> list_all (\<lambda>c. byte c < 128) s"
  by (auto simp: is_hash_def list_all_iff is_hex_ascii split: if_splits)

lemma is_uuid_ascii:
  assumes "is_uuid u"
  shows "list_all (\<lambda>c. byte c < 128) u"
proof -
  have "byte (u ! i) < 128" if "i < 36" for i
  proof -
    have "if i \<in> {8, 13, 18, 23} then u ! i = CHR ''-'' else is_hex (u ! i)"
      using assms that unfolding is_uuid_def list_all_iff by simp
    moreover have "byte (CHR ''-'') < 128" by code_simp
    ultimately show ?thesis using is_hex_ascii [of "u ! i"] by (metis (full_types))
  qed
  with is_uuid_length [OF assms] show ?thesis by (auto simp: list_all_length)
qed

lemma data_name_valid: "is_hash name \<Longrightarrow> is_uuid u \<Longrightarrow> valid_utf8 (new_data_file_name name u)"
proof (rule ascii_valid)
  assume "is_hash name" "is_uuid u"
  moreover have "byte (CHR ''_'') < 128" by code_simp
  ultimately show "list_all (\<lambda>c. byte c < 128) (new_data_file_name name u)"
    by (simp add: new_data_file_name_def is_hash_ascii is_uuid_ascii)
qed

section \<open>The steps of a write\<close>

text \<open>A step on the new data file and the temp metadata file only.\<close>

fun scratch :: "string \<Rightarrow> string \<Rightarrow> fs_op \<Rightarrow> bool" where
  "scratch f tmp (PutData g c t) = (g = f)"
| "scratch f tmp (DelData g) = (g = f)"
| "scratch f tmp (PutMeta g m) = (g = tmp)"
| "scratch f tmp (DelMeta g) = (g = tmp)"
| "scratch f tmp (RenameMeta a b) = False"

lemma write_data_file_cases:
  "write_data_file ff f b now = (es, ops) \<Longrightarrow>
     (\<forall>op\<in>set ops. scratch f tmp op) \<and> (es = [] \<longrightarrow> ops = [PutData f (fst b) now] \<and> snd b = None)"
  by (auto simp: write_data_file_def failed_data_def discard_data_def split: if_splits option.splits)

lemma write_meta_file_cases:
  "write_meta_file ff name uid m = (es, ops) \<Longrightarrow>
     (es \<noteq> [] \<longrightarrow> (\<forall>op\<in>set ops. scratch f (tmp_meta_name name uid) op)) \<and>
     (es = [] \<longrightarrow> ops = [PutMeta (tmp_meta_name name uid) (MetaFile m),
                         RenameMeta (tmp_meta_name name uid) (name @ meta_ext)])"
  by (auto simp: write_meta_file_def discard_meta_def Let_def split: if_splits)

lemma discard_data_scratch: "discard_data ff f es = (es2, ops) \<Longrightarrow> \<forall>op\<in>set ops. scratch f tmp op"
  by (auto simp: discard_data_def split: if_splits)

lemma after_commit_ops:
  "after_commit ff prev f = (es, ops) \<Longrightarrow>
     (ops = [] \<or> (ops = [DelData prev] \<and> prev \<noteq> f)) \<and> (es = [] \<or> es = [VStale])"
  by (auto simp: after_commit_def split: if_splits)

lemma create_object_ops:
  fixes h md5 detect uid uid2 now ff s ci b
  assumes "create_object h md5 detect uid uid2 now ff s ci b = (out, errs, ops)"
  defines "name \<equiv> h (ci_key ci)"
  defines "f \<equiv> new_data_file_name name uid" and "tmp \<equiv> tmp_meta_name name uid2"
  obtains (aborted) "out = None" "errs \<noteq> []" "\<forall>op\<in>set ops. scratch f tmp op"
  | (committed) ct prev rest where "snd b = None"
      "previous_data_file h (ff_read_meta ff) s name (ci_condition ci) = Inr prev"
      "out = Some \<lparr>st_meta = encode_meta (new_meta md5 ci ct f (fst b)), st_size = int (length (fst b)),
                  st_modified = now\<rparr>"
      "ops = [PutData f (fst b) now, PutMeta tmp (MetaFile (encode_meta (new_meta md5 ci ct f (fst b)))),
              RenameMeta tmp (name @ meta_ext)] @ rest"
      "rest = [] \<or> (rest = [DelData prev] \<and> prev \<noteq> f)"
      "errs = give_up_lock ff [] \<or> errs = give_up_lock ff [VStale]"
proof (cases "ff_lock ff")
  case True
  with assms(1) show thesis by (intro aborted) (auto simp: create_object_def Let_def)
next
  case nl: False
  note c = assms(1) [unfolded create_object_def Let_def, folded name_def, folded f_def]
  have g: "errs' \<noteq> [] \<Longrightarrow> give_up_lock ff errs' \<noteq> []" for errs'
    by (simp add: give_up_lock_def)
  show thesis
  proof (cases "previous_data_file h (ff_read_meta ff) s name (ci_condition ci)")
    case (Inl e)
    with c nl g [of "[e]"] aborted show thesis by simp
  next
    case prev: (Inr prev)
    show thesis
    proof (cases "sniff_content_type detect (ff_head ff) b (ci_content_type ci)")
      case (Inl e)
      with c nl prev g [of "[e]"] aborted show thesis by simp
    next
      case ct: (Inr ct)
      obtain es1 ops1 where w: "write_data_file ff f b now = (es1, ops1)" by fastforce
      note wc = write_data_file_cases [OF w, of tmp]
      show thesis
      proof (cases "es1 = []")
        case False
        with c nl prev ct w g [of es1] wc aborted show thesis by simp
      next
        case e1: True
        let ?m = "encode_meta (new_meta md5 ci ct f (fst b))"
        obtain es2 ops2 where m: "write_meta_file ff name uid2 ?m = (es2, ops2)" by fastforce
        note mc = write_meta_file_cases [OF m, of f, folded tmp_def]
        show thesis
        proof (cases "es2 = []")
          case False
          obtain es3 ops3 where d: "discard_data ff f es2 = (es3, ops3)" by fastforce
          from False d have "es3 \<noteq> []" by (auto simp: discard_data_def split: if_splits)
          with c nl prev ct w e1 m False d g [of es3] wc mc discard_data_scratch [OF d, of tmp]
          show thesis by (intro aborted) auto
        next
          case e2: True
          obtain es4 ops4 where a: "after_commit ff prev f = (es4, ops4)" by fastforce
          from c nl prev ct w e1 m e2 a wc mc after_commit_ops [OF a]
          show thesis by (intro committed [of prev ct ops4]) auto
        qed
      qed
    qed
  qed
qed

section \<open>A write is all or nothing\<close>

text \<open>The UUIDs of a write are new: the metadata there does not name the new data file.\<close>

definition fresh_names :: "(string \<Rightarrow> string) \<Rightarrow> vbucket \<Rightarrow> string \<Rightarrow> string \<Rightarrow> string \<Rightarrow> bool" where
  "fresh_names h s name uid uid2 \<longleftrightarrow> is_uuid uid \<and> is_uuid uid2 \<and>
     data_ref h s name \<noteq> Some (new_data_file_name name uid)"

lemma data_ref_name: "data_ref h s name = Some f \<Longrightarrow> is_data_file_name name f"
  by (auto simp: data_ref_def read_meta_def split: sum.splits option.splits mfile.splits if_splits)

lemma previous_name:
  "previous_data_file h bad s name cond = Inr prev \<Longrightarrow> prev \<noteq> [] \<Longrightarrow> is_data_file_name name prev"
  by (auto simp: previous_data_file_def read_meta_def
      split: sum.splits option.splits mfile.splits verr.splits if_splits)

lemma scratch_avoids_other:
  assumes "is_hash name" and "is_hash name'" and "name' \<noteq> name" and "is_uuid uid2"
    and "scratch (new_data_file_name name uid) (tmp_meta_name name uid2) op"
  shows "avoids h s name' op"
proof -
  have "data_ref h s name' \<noteq> Some (new_data_file_name name uid)"
    using data_ref_name [of h s name'] data_file_other [OF assms(1-3)] by blast
  moreover have "tmp_meta_name name uid2 \<noteq> name' @ meta_ext"
    using tmp_not_meta [OF assms(1,2,4)] by auto
  ultimately show ?thesis using assms(5) by (cases op) auto
qed

lemma scratch_avoids_own:
  assumes "is_hash name" and "fresh_names h s name uid uid2"
    and "scratch (new_data_file_name name uid) (tmp_meta_name name uid2) op"
  shows "avoids h s name op"
proof -
  have "tmp_meta_name name uid2 \<noteq> name @ meta_ext"
    using tmp_not_meta [OF assms(1,1), of uid2] assms(2) by (auto simp: fresh_names_def)
  with assms(2,3) show ?thesis by (cases op) (auto simp: fresh_names_def)
qed

lemma scratch_torn: "scratch f tmp op \<Longrightarrow> \<forall>o2\<in>set (torn i op). scratch f tmp o2"
  by (cases op) auto

lemma scratch_crashed:
  assumes "\<forall>op\<in>set ops. scratch f tmp op"
  shows "\<forall>op\<in>set (crashed ops n j). scratch f tmp op"
  using assms scratch_torn [of f tmp "ops ! n"]
  by (auto simp: crashed_def split: option.splits dest: in_set_takeD)

text \<open>A crash of a committed write: before the rename only scratch files, after it the whole start.\<close>

lemma crashed_commit:
  assumes ops: "ops = [PutData f c t, PutMeta tmp m, RenameMeta tmp mf] @ rest"
    and rest: "rest = [] \<or> rest = [DelData prev]"
  obtains (scratch) "\<forall>op\<in>set (crashed ops n j). scratch f tmp op"
  | (rename) tl where "crashed ops n j = [PutData f c t, PutMeta tmp m, RenameMeta tmp mf] @ tl"
      "tl = [] \<or> tl = rest"
proof (cases "n \<ge> 3")
  case True
  then have n: "n = Suc (Suc (Suc (n - 3)))" by simp
  define k where "k = n - 3"
  note n = n [folded k_def]
  have t: "torn i (ops ! n) = []" if "n < length ops" for i
    using that rest n by (auto simp: ops)
  have "crashed ops n j = [PutData f c t, PutMeta tmp m, RenameMeta tmp mf] @ take k rest"
    using t by (auto simp: crashed_def ops n split: option.splits)
  moreover have "take k rest = [] \<or> take k rest = rest"
    using rest by (cases k) auto
  ultimately show thesis by (rule rename)
next
  case False
  then have "n = 0 \<or> n = 1 \<or> n = 2" by auto
  then have "\<forall>op\<in>set (crashed ops n j). scratch f tmp op"
    by (elim disjE) (auto simp: crashed_def ops numeral_2_eq_2 split: option.splits)
  then show thesis by (rule scratch)
qed

text \<open>The state after the commit.\<close>

lemma committed_object:
  fixes h :: "string \<Rightarrow> string" and ci :: create_input and md5 :: "string \<Rightarrow> string"
    and ct c uid uid2 :: string and t :: int and s :: vbucket
  defines "name \<equiv> h (ci_key ci)"
  assumes name: "is_hash name" and key: "valid_utf8 (ci_key ci)"
    and uid: "is_uuid uid" "is_uuid uid2"
  defines "f \<equiv> new_data_file_name name uid" and "tmp \<equiv> tmp_meta_name name uid2"
  defines "m \<equiv> encode_meta (new_meta md5 ci ct f c)"
  defines "s' \<equiv> apply_ops [PutData f c t, PutMeta tmp (MetaFile m), RenameMeta tmp (name @ meta_ext)] s"
  shows "object_at h s' name = Some (m, c, t)" and "data_ref h s' name = Some f"
proof -
  have m: "mt_data_file m = f" "mt_key m = ci_key ci"
    using key data_name_valid [OF name uid(1)]
    by (simp_all add: m_def encode_meta_def new_meta_def Let_def fix_utf8_valid f_def)
  have "map_of (vb_meta s') (name @ meta_ext) = Some (MetaFile m)"
    by (simp add: s'_def update_conv' delete_conv')
  moreover have "is_data_file_name name f"
    using uid(1) by (auto simp: f_def new_data_file_name_def data_file_prefix)
  ultimately have r: "read_meta h False s' name = Inr m"
    using m by (simp add: read_meta_def name_def)
  moreover have "map_of (vb_objs s') f = Some (DataFile c t)"
    by (simp add: s'_def update_conv')
  ultimately show "object_at h s' name = Some (m, c, t)" "data_ref h s' name = Some f"
    using m by (simp_all add: object_at_def data_ref_def)
qed

text \<open>
  What a write may leave behind, for its own name and for another: the object as it was, or, when
  the rename happened, the new object.
\<close>

lemma create_crash_own:
  assumes nm: "is_hash (h (ci_key ci))" and fresh: "fresh_names h s (h (ci_key ci)) uid uid2"
    and key: "valid_utf8 (ci_key ci)"
    and run: "create_object h md5 detect uid uid2 now ff s ci b = (out, errs, ops)"
  shows "(object_at h (apply_ops (crashed ops n j) s) (h (ci_key ci)) = object_at h s (h (ci_key ci)) \<or>
          (\<exists>st. out = Some st \<and> snd b = None \<and>
             object_at h (apply_ops (crashed ops n j) s) (h (ci_key ci)) = Some (st_meta st, fst b, now))) \<and>
         object_at h (apply_ops ops s) (h (ci_key ci)) =
           (case out of Some st \<Rightarrow> Some (st_meta st, fst b, now) | None \<Rightarrow> object_at h s (h (ci_key ci))) \<and>
         (out = None \<longrightarrow> errs \<noteq> [])"
proof -
  let ?name = "h (ci_key ci)"
  let ?f = "new_data_file_name ?name uid" and ?tmp = "tmp_meta_name ?name uid2"
  have uu: "is_uuid uid" "is_uuid uid2" using fresh by (simp_all add: fresh_names_def)
  have own: "object_at h (apply_ops os s) ?name = object_at h s ?name"
    if "\<forall>op\<in>set os. scratch ?f ?tmp op" for os
    using avoids_all [of os h s ?name] scratch_avoids_own [OF nm fresh] that by blast
  from run show ?thesis
  proof (cases rule: create_object_ops)
    case aborted
    with own [OF scratch_crashed [OF aborted(3)]] own [OF aborted(3)] show ?thesis by simp
  next
    case (committed ct prev rest)
    let ?m = "encode_meta (new_meta md5 ci ct ?f (fst b))"
    let ?start = "[PutData ?f (fst b) now, PutMeta ?tmp (MetaFile ?m), RenameMeta ?tmp (?name @ meta_ext)]"
    have rest: "rest = [] \<or> rest = [DelData prev]" using committed(5) by blast
    note new = committed_object [where h = h and ci = ci and ?md5.0 = md5 and ct = ct and c = "fst b" and t = now and s = s, OF nm key uu]
    have whole: "object_at h (apply_ops (?start @ tl) s) ?name = Some (?m, fst b, now)"
      if "tl = [] \<or> tl = rest" for tl
    proof -
      have "\<forall>op\<in>set tl. avoids h (apply_ops ?start s) ?name op"
        using that committed(5) new(2) by auto
      from avoids_all [OF this] new(1) show ?thesis by (simp only: apply_ops_append)
    qed
    from committed(4) rest have "object_at h (apply_ops (crashed ops n j) s) ?name = object_at h s ?name \<or>
        object_at h (apply_ops (crashed ops n j) s) ?name = Some (?m, fst b, now)"
    proof (cases rule: crashed_commit [where n = n and j = j])
      case scratch
      from own [OF this] show ?thesis by simp
    next
      case (rename tl)
      from whole [OF rename(2)] show ?thesis unfolding rename(1) by (rule disjI2)
    qed
    moreover have "object_at h (apply_ops ops s) ?name = Some (?m, fst b, now)"
      unfolding committed(4) by (rule whole) simp
    ultimately show ?thesis using committed(1,3) by simp
  qed
qed

lemma create_crash_other:
  assumes nm: "is_hash (h (ci_key ci))" "is_hash name" "name \<noteq> h (ci_key ci)" and uid2: "is_uuid uid2"
    and run: "create_object h md5 detect uid uid2 now ff s ci b = (out, errs, ops)"
  shows "object_at h (apply_ops (crashed ops n j) s) name = object_at h s name"
proof -
  let ?f = "new_data_file_name (h (ci_key ci)) uid" and ?tmp = "tmp_meta_name (h (ci_key ci)) uid2"
  have scr: "scratch ?f ?tmp op \<Longrightarrow> avoids h s name op" for op
    using scratch_avoids_other [OF nm uid2] .
  have "\<forall>op\<in>set ops. avoids h s name op"
    using run
  proof (cases rule: create_object_ops)
    case aborted
    with scr show ?thesis by blast
  next
    case (committed ct prev rest)
    have "?tmp \<noteq> name @ meta_ext" using tmp_not_meta [OF nm(1,2) uid2] by auto
    moreover have "h (ci_key ci) @ meta_ext \<noteq> name @ meta_ext" using nm(3) by simp
    moreover have "data_ref h s name \<noteq> Some prev" if "prev \<noteq> []"
      using previous_name [OF committed(2) that] data_ref_name [of h s name] nm
      by (auto simp: data_file_prefix dest!: is_hash_length)
    moreover have "data_ref h s name \<noteq> Some []"
      using data_ref_name [of h s name] by (auto simp: data_file_prefix)
    moreover have "data_ref h s name \<noteq> Some ?f"
      using scr [of "DelData ?f"] by simp
    ultimately show ?thesis
      using committed(4,5) by auto
  qed
  from avoids_all [OF avoids_crashed [OF this, of n j]] show ?thesis by simp
qed

text \<open>C36: a write is all or nothing, for every failure and every crash. Whatever steps of a PutObject
fail (the lock, reading, the body, any file system call, the cleanup itself) and wherever a crash
cuts it off, in the middle of writing a file included, a reader then finds under the key either
what was there before or exactly the new metadata with all bytes of the body, the latter only when
the body ended without an error; every other key reads as before. When the call runs to its end
the new object is there if and only if CreateObject returned it.\<close>

theorem create_crash_atomic:
  assumes hash: "\<forall>k. is_hash (h k)" and fresh: "fresh_names h s (h (ci_key ci)) uid uid2"
    and key: "valid_utf8 (ci_key ci)"
    and run: "create_object h md5 detect uid uid2 now ff s ci b = (out, errs, ops)"
  shows "(\<forall>k. h k \<noteq> h (ci_key ci) \<longrightarrow>
            stored_object h (apply_ops (crashed ops n j) s) k = stored_object h s k) \<and>
         (stored_object h (apply_ops (crashed ops n j) s) (ci_key ci) = stored_object h s (ci_key ci) \<or>
          (\<exists>st. out = Some st \<and> snd b = None \<and>
             stored_object h (apply_ops (crashed ops n j) s) (ci_key ci) = Some (st_meta st, fst b, now))) \<and>
         stored_object h (apply_ops ops s) (ci_key ci) =
           (case out of Some st \<Rightarrow> Some (st_meta st, fst b, now) | None \<Rightarrow> stored_object h s (ci_key ci)) \<and>
         (out = None \<longrightarrow> errs \<noteq> [])"
proof -
  have nm: "is_hash (h k)" for k using hash by blast
  have uid2: "is_uuid uid2" using fresh by (simp add: fresh_names_def)
  from create_crash_own [OF nm fresh key run, of n j] create_crash_other [OF nm nm _ uid2 run, of _ n j]
  show ?thesis unfolding stored_object_at by blast
qed

section \<open>A delete is all or nothing\<close>

lemma delete_object_ops:
  assumes "delete_object h ff s key = (errs, ops)"
  obtains (kept) "ops = []" "errs \<noteq> []"
  | (absent) "ops = []" "object_at h s (h key) = None"
  | (gone) m where "read_meta h (ff_read_meta ff) s (h key) = Inr m"
      "ops = [DelMeta (h key @ meta_ext)] \<or> ops = [DelMeta (h key @ meta_ext), DelData (mt_data_file m)]"
proof -
  have none: "read_meta h bad s (h key) = Inl VNotFound \<Longrightarrow> object_at h s (h key) = None" for bad
    by (auto simp: read_meta_def object_at_def split: option.splits mfile.splits if_splits)
  show thesis
    using assms kept absent [OF _ none] gone
    by (auto simp: delete_object_def give_up_lock_def Let_def split: if_splits sum.splits)
qed

lemma read_meta_ref: "read_meta h bad s name = Inr m \<Longrightarrow> data_ref h s name = Some (mt_data_file m)"
  by (auto simp: read_meta_def data_ref_def split: option.splits mfile.splits if_splits)

text \<open>A delete is all or nothing too. At any failure or crash the object is either still there
as it was or gone, and every other object is as before; a delete that ran to its end without an
error leaves no object under the key.\<close>

theorem delete_crash_atomic:
  assumes hash: "\<forall>k. is_hash (h k)" and run: "delete_object h ff s key = (errs, ops)"
  shows "(\<forall>k. h k \<noteq> h key \<longrightarrow> stored_object h (apply_ops (crashed ops n j) s) k = stored_object h s k) \<and>
         (stored_object h (apply_ops (crashed ops n j) s) key = stored_object h s key \<or>
          stored_object h (apply_ops (crashed ops n j) s) key = None) \<and>
         (errs = [] \<longrightarrow> stored_object h (apply_ops ops s) key = None)"
  using run
proof (cases rule: delete_object_ops)
  case kept
  then have "crashed ops n j = []" by (auto simp: crashed_def split: option.splits)
  with kept show ?thesis by simp
next
  case absent
  then have "crashed ops n j = []" by (auto simp: crashed_def split: option.splits)
  with absent show ?thesis by (simp add: stored_object_at)
next
  case (gone m)
  let ?d = "DelMeta (h key @ meta_ext)"
  have c: "crashed ops n j \<in> {[], [?d], [?d, DelData (mt_data_file m)]}"
    using gone(2) by (cases n; cases "n - 1"; cases j) (auto simp: crashed_def)
  have none: "object_at h (apply_ops os s) (h key) = None"
    if "os = [?d] \<or> os = [?d, DelData (mt_data_file m)]" for os
    using that by (auto simp: object_at_def read_meta_def delete_conv')
  have "object_at h (apply_ops os s) (h k) = object_at h s (h k)"
    if k: "h k \<noteq> h key" and os: "os \<in> {[], [?d], [?d, DelData (mt_data_file m)]}" for os k
  proof -
    have "data_ref h s (h k) \<noteq> Some (mt_data_file m)"
      using data_files_differ [OF _ _ k data_ref_name [OF read_meta_ref [OF gone(1)]]]
        data_ref_name [of h s "h k"] hash by blast
    with k os have "\<forall>op\<in>set os. avoids h s (h k) op" by auto
    from avoids_all [OF this] show ?thesis by simp
  qed
  from this [OF _ c] none [of "crashed ops n j"] none [of ops] c gone(2) show ?thesis
    by (auto simp: stored_object_at)
qed

section \<open>A concrete bucket\<close>

definition demo_hash :: "string \<Rightarrow> string" where
  "demo_hash k = replicate 64 (if k = ''a'' then CHR ''a'' else CHR ''b'')"

definition demo_uid :: string where "demo_uid = ''00000000-0000-4000-8000-000000000001''"

definition demo_input :: create_input where
  "demo_input = \<lparr>ci_key = ''a'', ci_content_type = Some ''text/plain'', ci_user = [],
     ci_headers = \<lparr>oh_cache_control = [], oh_content_disposition = [], oh_content_encoding = [],
       oh_content_language = [], oh_expires = []\<rparr>,
     ci_condition = \<lparr>cd_if_match = [], cd_if_none_match = False\<rparr>\<rparr>"

lemma demo_hash_ok: "\<forall>k. is_hash (demo_hash k)"
proof
  fix k
  have "is_hex (CHR ''a'')" "is_hex (CHR ''b'')" by code_simp+
  then show "is_hash (demo_hash k)"
    by (simp add: is_hash_def demo_hash_def hash_len_def list_all_iff)
qed

lemma demo_uid_ok: "is_uuid demo_uid"
  by code_simp

lemma demo_key: "ci_key demo_input = ''a''"
  by (simp add: demo_input_def)

lemma demo_key_valid: "valid_utf8 (ci_key demo_input)"
  by code_simp

lemma demo_bucket_fresh: "fresh_names demo_hash empty_bucket name demo_uid demo_uid"
  by (simp add: fresh_names_def demo_uid_ok data_ref_def read_meta_def empty_bucket_def)

theorem create_crash_atomic_witness:
  "\<exists>st errs ops. create_object demo_hash (\<lambda>c. ''etag'') (\<lambda>c. ''text/plain'') demo_uid demo_uid 7 no_faults
       empty_bucket demo_input (''hello'', None) = (Some st, errs, ops) \<and>
     stored_object demo_hash (apply_ops ops empty_bucket) ''a'' = Some (st_meta st, ''hello'', 7) \<and>
     stored_object demo_hash (apply_ops (crashed ops 0 (Some 2)) empty_bucket) ''b'' = None"
proof -
  obtain out errs ops where c: "create_object demo_hash (\<lambda>c. ''etag'') (\<lambda>c. ''text/plain'') demo_uid demo_uid 7
      no_faults empty_bucket demo_input (''hello'', None) = (out, errs, ops)"
    by (metis prod_cases3)
  have "fst (create_object demo_hash (\<lambda>c. ''etag'') (\<lambda>c. ''text/plain'') demo_uid demo_uid 7
      no_faults empty_bucket demo_input (''hello'', None)) \<noteq> None"
    by code_simp
  with c obtain st where st: "out = Some st" by auto
  have ne: "demo_hash ''b'' \<noteq> demo_hash (ci_key demo_input)"
    by (simp add: demo_hash_def demo_key)
  have none: "stored_object demo_hash empty_bucket ''b'' = None"
    by (simp add: stored_object_at object_at_def read_meta_def empty_bucket_def)
  from create_crash_atomic [OF demo_hash_ok demo_bucket_fresh demo_key_valid c, of 0 "Some 2"] ne none st c
  show ?thesis by (auto simp: demo_key)
qed

text \<open>The same bucket afterwards.\<close>

definition demo_bucket :: vbucket where
  "demo_bucket = apply_ops (snd (snd (create_object demo_hash (\<lambda>c. ''etag'') (\<lambda>c. ''text/plain'') demo_uid demo_uid
     7 no_faults empty_bucket demo_input (''hello'', None)))) empty_bucket"

theorem delete_crash_atomic_witness:
  "\<exists>ops. delete_object demo_hash no_faults demo_bucket ''a'' = ([], ops) \<and> ops \<noteq> [] \<and>
     stored_object demo_hash (apply_ops ops demo_bucket) ''a'' = None"
proof -
  obtain errs ops where d: "delete_object demo_hash no_faults demo_bucket ''a'' = (errs, ops)" by fastforce
  have "fst (delete_object demo_hash no_faults demo_bucket ''a'') = [] \<and>
      snd (delete_object demo_hash no_faults demo_bucket ''a'') \<noteq> []"
    by code_simp
  with d delete_crash_atomic [OF demo_hash_ok d, of 0 None] show ?thesis by auto
qed

end
