(* ===== verification/Storage_Provider_Properties.thy ===== *)
theory Storage_Provider_Properties
  imports Storage_Provider Storage_Bucket_Properties
begin

text \<open>
  What the provider's object operations promise together: a PutObject with its declared length is
  all or nothing over all buckets and keys, and a GetObject, ranged or not, reads what the last
  write of the key stored.
\<close>

section \<open>Reading the body\<close>

lemma read_raw_mem:
  assumes "\<forall>p\<in>set ps. p > 0"
  shows "read_raw mem_reader ps s = (out, e) \<Longrightarrow>
    (e \<noteq> None \<longrightarrow> e = Some EOF \<and> out = s) \<and> (length ps > length s \<longrightarrow> e \<noteq> None)"
  using assms
proof (induction ps arbitrary: s out e)
  case (Cons p ps)
  show ?case
  proof (cases "s = []")
    case True
    with Cons.prems show ?thesis by (auto simp: mem_reader_def raw_err_def)
  next
    case False
    obtain cs e' where r: "read_raw mem_reader ps (drop p s) = (cs, e')" by fastforce
    have m: "mem_reader p s = (int (min p (length s)), take p s, None, drop p s)"
      using False by (simp add: mem_reader_def)
    have "take (min p (length s)) (take p s) = take p s" by (simp add: min_def)
    then have "out = take p s @ cs" "e = e'"
      using Cons.prems(1) by (simp_all add: m r)
    moreover from Cons.IH [OF r] Cons.prems(2)
    have "(e' \<noteq> None \<longrightarrow> e' = Some EOF \<and> cs = drop p s) \<and> (length ps > length (drop p s) \<longrightarrow> e' \<noteq> None)"
      by simp
    moreover have "length (drop p s) < length s" using False Cons.prems(2) by simp
    ultimately show ?thesis by auto
  qed
qed simp

text \<open>A body in memory that ends without an error was read whole, at its declared length.\<close>

lemma read_body_mem:
  assumes ps: "\<forall>p\<in>set ps. p > 0" and c: "check_length body len = Inr rb"
    and b: "body_end (read_body mem_reader ps rb) = Some b"
  shows "snd b = None \<Longrightarrow> fst b = body \<and> (case len of None \<Rightarrow> True | Some n \<Rightarrow> int (length body) = n)"
proof -
  assume ok: "snd b = None"
  obtain out e where r: "read_body mem_reader ps rb = (out, e)" by fastforce
  have e: "e = Some EOF" "fst b = out"
    using b ok unfolding r by (auto simp: body_end_def split: option.splits if_splits)
  show ?thesis
  proof (cases len)
    case None
    with c have "rb = Inl body" by (simp add: check_length_def)
    with r read_raw_mem [OF ps, of body out e] e None show ?thesis by (simp add: read_body_def)
  next
    case (Some n)
    with c have n: "0 \<le> n" and rb: "rb = Inr \<lparr>lr_r = body, lr_err = None, lr_want = n, lr_read = 0\<rparr>"
      by (auto simp: check_length_def split: if_splits)
    with r have "read_seq mem_reader ps \<lparr>lr_r = body, lr_err = None, lr_want = n, lr_read = 0\<rparr> = (out, e)"
      by (simp add: read_body_def)
    from read_seq_mem [OF ps order.refl n this] e Some show ?thesis by simp
  qed
qed

section \<open>Objects in buckets\<close>

definition object_in :: "hashes \<Rightarrow> vfs \<Rightarrow> string \<Rightarrow> string \<Rightarrow> (obj_meta \<times> string \<times> int) option" where
  "object_in he v bucket key =
     (case open_bucket (he_hash he) v bucket of
        Inl _ \<Rightarrow> None
      | Inr s \<Rightarrow> stored_object (he_hash he) s key)"

lemma object_in_after:
  assumes "map_of v (h bk) = Some s" "h = he_hash he"
  shows "object_in he (vfs_after (h bk, ops) v) bucket key =
    (if h bucket = h bk then stored_object h (apply_ops ops s) key else object_in he v bucket key)"
  using assms by (simp add: object_in_def open_bucket_def vfs_after_def update_conv')

lemma object_in_none [simp]: "vfs_after (f, []) v = v \<or> map_of (vfs_after (f, []) v) = map_of v"
  by (auto simp: vfs_after_def update_conv' split: option.splits)

lemma object_in_noop: "object_in he (vfs_after (f, []) v) bucket key = object_in he v bucket key"
  by (auto simp: object_in_def open_bucket_def vfs_after_def update_conv' split: option.splits)

text \<open>The UUIDs of a write are not in use in any bucket.\<close>

definition fresh_in :: "hashes \<Rightarrow> vfs \<Rightarrow> string \<Rightarrow> string \<Rightarrow> string \<Rightarrow> bool" where
  "fresh_in he v key uid uid2 \<longleftrightarrow> is_uuid uid \<and> is_uuid uid2 \<and>
     (\<forall>(b, s)\<in>set v. data_ref (he_hash he) s (he_hash he key) \<noteq> Some (new_data_file_name (he_hash he key) uid))"

lemma put_object_spec:
  assumes hash: "\<forall>k. is_hash (he_hash he k)" and fresh: "fresh_in he v (pi_key pi) uid uid2"
    and ps: "\<forall>p\<in>set ps. p > 0"
    and input: "validate_input (pi_key pi) (pi_bucket pi) cfg = Inr bucket"
    and put: "put_object he uid uid2 now ff cfg v pi mem_reader ps body = Some (info, err, eff)"
  shows "(\<forall>b k. he_hash he b \<noteq> he_hash he bucket \<or> he_hash he k \<noteq> he_hash he (pi_key pi) \<longrightarrow>
            object_in he (vfs_after eff v) b k = object_in he v b k) \<and>
         (case info of
            Some i \<Rightarrow>
              (pi_length pi = None \<or> pi_length pi = Some (int (length body))) \<and>
              (\<exists>st. i = object_info_of st \<and> oi_size i = int (length body) \<and> oi_modified i = now \<and>
                 object_in he (vfs_after eff v) bucket (pi_key pi) = Some (st_meta st, body, now))
          | None \<Rightarrow>
              err \<noteq> None \<and>
              (ff_unlock ff \<or> object_in he (vfs_after eff v) bucket (pi_key pi) = object_in he v bucket (pi_key pi)))"
proof -
  let ?h = "he_hash he"
  have key: "valid_utf8 (pi_key pi)"
    using input by (auto simp: validate_input_def is_valid_object_key_def split: if_splits)
  have same: ?thesis if "info = None" "err \<noteq> None" "snd eff = []"
    using that object_in_noop [of he "fst eff" v] by (cases eff) auto
  show ?thesis
  proof (cases "\<exists>im s rb b. validate_condition (pi_if_match pi) (pi_if_none_match pi) = Inr im \<and>
      open_bucket ?h v bucket = Inr s \<and> check_length body (pi_length pi) = Inr rb \<and>
      body_end (read_body mem_reader ps rb) = Some b")
    case False
    then show ?thesis
      using put input by (intro same) (auto simp: put_object_def split: sum.splits option.splits)
  next
    case True
    then obtain im s rb b where c: "validate_condition (pi_if_match pi) (pi_if_none_match pi) = Inr im"
        "open_bucket ?h v bucket = Inr s" "check_length body (pi_length pi) = Inr rb"
        "body_end (read_body mem_reader ps rb) = Some b"
      by blast
    obtain out errs ops where cr: "create_object ?h (he_md5 he) (he_detect he) uid uid2 now ff s
        (create_input_of pi im) b = (out, errs, ops)"
      by (metis prod_cases3)
    have put': "put_result out errs = (info, err)" "eff = (?h bucket, ops)"
      using put input c cr by (auto simp: put_object_def split: prod.splits)
    have s: "map_of v (?h bucket) = Some s"
      using c(2) by (auto simp: open_bucket_def split: option.splits)
    then have "(?h bucket, s) \<in> set v" by (rule map_of_SomeD)
    with fresh have fr: "fresh_names ?h s (?h (pi_key pi)) uid uid2" and uid2: "is_uuid uid2"
      by (auto simp: fresh_in_def fresh_names_def)
    have k: "ci_key (create_input_of pi im) = pi_key pi" by (simp add: create_input_of_def)
    have nm: "is_hash (?h x)" for x using hash by blast
    note own = create_crash_own [OF nm _ _ cr, unfolded k, OF fr key, of 0 None]
    have other: "object_at ?h (apply_ops ops s) (?h x) = object_at ?h s (?h x)" if "?h x \<noteq> ?h (pi_key pi)" for x
      using create_crash_other [OF nm nm _ uid2 cr, unfolded k, OF that, of "length ops" None]
      by (simp add: crashed_def)
    have after: "object_in he (vfs_after eff v) b' k' =
        (if ?h b' = ?h bucket then stored_object ?h (apply_ops ops s) k' else object_in he v b' k')" for b' k'
      unfolding put'(2) by (rule object_in_after [OF s refl])
    have old: "?h b' = ?h bucket \<Longrightarrow> object_in he v b' k' = stored_object ?h s k'" for b' k'
      using s by (simp add: object_in_def open_bucket_def)
    have rest: "\<forall>b' k'. ?h b' \<noteq> ?h bucket \<or> ?h k' \<noteq> ?h (pi_key pi) \<longrightarrow>
        object_in he (vfs_after eff v) b' k' = object_in he v b' k'"
      using other by (auto simp: after old stored_object_at)
    show ?thesis
    proof (cases out)
      case None
      with own put'(1) have "info = None" "err \<noteq> None" by (auto simp: put_result_def split: if_splits)
      with rest own None show ?thesis by (simp add: after old stored_object_at)
    next
      case (Some st)
      from cr Some obtain ct where b: "snd b = None" "st_size st = int (length (fst b))" "st_modified st = now"
        and e: "errs = give_up_lock ff [] \<or> errs = give_up_lock ff [VStale]"
        by (cases rule: create_object_ops) auto
      note body = read_body_mem [OF ps c(3,4) b(1)]
      have new: "object_in he (vfs_after eff v) bucket (pi_key pi) = Some (st_meta st, body, now)"
        using own Some body by (simp add: after stored_object_at)
      have "info = Some (object_info_of st) \<or> info = None \<and> err \<noteq> None \<and> ff_unlock ff"
        using put'(1) Some e by (auto simp: put_result_def give_up_lock_def split: if_splits)
      then show ?thesis
      proof (elim disjE conjE)
        assume i: "info = Some (object_info_of st)"
        have "oi_size (object_info_of st) = int (length body)" "oi_modified (object_info_of st) = now"
          using body b(2,3) by (simp_all add: object_info_of_def)
        moreover have "pi_length pi = None \<or> pi_length pi = Some (int (length body))"
          using body by (cases "pi_length pi") auto
        ultimately show ?thesis
          using rest new i by (simp only: option.case) blast
      next
        assume "info = None" "err \<noteq> None" "ff_unlock ff"
        with rest show ?thesis by simp
      qed
    qed
  qed
qed


section \<open>Reading back\<close>

lemma get_object_stored:
  assumes "validate_input (gi_key gi) (gi_bucket gi) cfg = Inr bucket"
    and "gi_version gi = None" and "gi_part_number gi = None"
    and "object_in he v bucket (gi_key gi) = Some (m, c, t)"
  shows "\<exists>st. st_meta st = m \<and> st_size st = int (length c) \<and> st_modified st = t \<and>
    get_object he no_faults cfg v gi =
      (case ranged_object (st, c) (gi_range gi) of Inl e \<Rightarrow> Inl (PInput e) | Inr out \<Rightarrow> Inr out)"
proof -
  from assms(4) obtain s where s: "open_bucket (he_hash he) v bucket = Inr s"
    and o1: "stored_object (he_hash he) s (gi_key gi) = Some (m, c, t)"
    by (auto simp: object_in_def split: sum.splits)
  from o1 obtain st where st: "open_object (he_hash he) no_faults s (gi_key gi) = Inr (st, c)"
      "st_meta st = m" "st_modified st = t"
    by (auto simp: stored_object_def split: sum.splits)
  moreover have "st_size st = int (length c)"
    using st(1) by (auto simp: open_object_def open_data_def split: if_splits sum.splits option.splits dfile.splits)
  ultimately show ?thesis
    using assms(1-3) s
    by (intro exI [of _ st]) (simp add: get_object_def reject_unsupported_def provider_open_def)
qed

text \<open>C38: what was put is what is got. When PutObject returned an ObjectInfo, a GetObject of the same
key returns that ObjectInfo and exactly the bytes of the body; with a Range, the bytes that
parseByteRange selects, their number as Size, or its error.\<close>

theorem put_get_roundtrip:
  assumes "\<forall>k. is_hash (he_hash he k)" and "fresh_in he v (pi_key pi) uid uid2"
    and "\<forall>p\<in>set ps. p > 0"
    and "validate_input (pi_key pi) (pi_bucket pi) cfg = Inr bucket"
    and "put_object he uid uid2 now ff cfg v pi mem_reader ps body = Some (Some i, err, eff)"
    and "gi_key gi = pi_key pi" and "gi_bucket gi = pi_bucket pi"
    and "gi_version gi = None" and "gi_part_number gi = None"
  shows "get_object he no_faults cfg (vfs_after eff v) gi =
    (case gi_range gi of
       None \<Rightarrow> Inr (i, body)
     | Some hdr \<Rightarrow>
         (case parse_byte_range hdr (int (length body)) of
            Inl e \<Rightarrow> Inl (PInput e)
          | Inr (off, n) \<Rightarrow> Inr (i\<lparr>oi_size := n\<rparr>, take (nat n) (drop (nat off) body))))"
proof -
  from put_object_spec [OF assms(1-5)] obtain st where i: "i = object_info_of st"
      "oi_size i = int (length body)"
      "oi_modified i = now"
    and obj: "object_in he (vfs_after eff v) bucket (pi_key pi) = Some (st_meta st, body, now)"
    by auto
  from get_object_stored [OF _ assms(8,9), of cfg bucket he "vfs_after eff v" "st_meta st" body now]
    assms(4,6,7) obj
  obtain st' where st': "st_meta st' = st_meta st" "st_size st' = int (length body)" "st_modified st' = now"
    and get: "get_object he no_faults cfg (vfs_after eff v) gi =
      (case ranged_object (st', body) (gi_range gi) of Inl e \<Rightarrow> Inl (PInput e) | Inr out \<Rightarrow> Inr out)"
    by auto
  have "object_info_of st' = i"
    using i st' by (auto simp: object_info_of_def)
  then show ?thesis
    unfolding get ranged_object_def using st'(2) by (auto split: option.splits sum.splits)
qed

section \<open>A concrete store\<close>

definition demo_hashes :: hashes where
  "demo_hashes = \<lparr>he_hash = demo_hash, he_md5 = (\<lambda>_. ''etag''), he_detect = (\<lambda>_. ''text/plain'')\<rparr>"

definition demo_put :: put_input where
  "demo_put = \<lparr>pi_bucket = None, pi_key = ''a'', pi_length = Some 5, pi_content_type = None, pi_user = [],
     pi_cache_control = None, pi_content_disposition = None, pi_content_encoding = None,
     pi_content_language = None, pi_expires = None, pi_if_match = None, pi_if_none_match = None\<rparr>"

definition demo_get :: get_input where
  "demo_get = \<lparr>gi_bucket = None, gi_key = ''a'', gi_range = Some ''bytes=1-2'', gi_version = None,
     gi_part_number = None\<rparr>"

definition demo_vfs :: vfs where
  "demo_vfs = [(demo_hash ''mybucket'', empty_bucket)]"

lemma demo_he [simp]: "he_hash demo_hashes = demo_hash"
  by (simp add: demo_hashes_def)

lemma demo_put_ok:
  "validate_input (pi_key demo_put) (pi_bucket demo_put) ''mybucket'' = Inr ''mybucket''"
  by code_simp

lemma demo_put_fresh: "fresh_in demo_hashes demo_vfs (pi_key demo_put) demo_uid demo_uid"
  using demo_bucket_fresh by (simp add: fresh_in_def demo_vfs_def fresh_names_def)

abbreviation demo_put_run where
  "demo_put_run \<equiv> put_object demo_hashes demo_uid demo_uid 7 no_faults ''mybucket'' demo_vfs demo_put mem_reader
     [4, 4, 4] ''hello''"

lemma demo_put_info: "(case demo_put_run of Some (Some i, None, eff) \<Rightarrow> True | _ \<Rightarrow> False)"
  by code_simp

lemma demo_put_some:
  obtains i eff where "demo_put_run = Some (Some i, None, eff)"
  using demo_put_info by (auto split: option.splits)


theorem put_get_roundtrip_witness:
  "\<exists>i eff. demo_put_run = Some (Some i, None, eff) \<and>
     get_object demo_hashes no_faults ''mybucket'' (vfs_after eff demo_vfs) demo_get = Inr (i\<lparr>oi_size := 2\<rparr>, ''el'')"
proof -
  obtain i eff where run: "demo_put_run = Some (Some i, None, eff)" by (rule demo_put_some)
  have p: "\<forall>p\<in>set [4, 4, 4]. (0::nat) < p" by simp
  have g: "gi_key demo_get = pi_key demo_put" "gi_bucket demo_get = pi_bucket demo_put"
      "gi_version demo_get = None" "gi_part_number demo_get = None" "gi_range demo_get = Some ''bytes=1-2''"
    by (simp_all add: demo_get_def demo_put_def)
  have r: "parse_byte_range ''bytes=1-2'' (int (length ''hello'')) = Inr (1, 2)" by code_simp
  have "\<forall>k. is_hash (he_hash demo_hashes k)" using demo_hash_ok by simp
  from put_get_roundtrip [OF this demo_put_fresh p demo_put_ok run g(1-4)] run show ?thesis
    unfolding g(5) option.case r sum.case prod.case by auto
qed

end
