(* ===== verification/Storage_Listing.thy ===== *)
theory Storage_Listing
  imports Storage_Provider
begin

text \<open>
  storage/dir/list.go: one page of the objects of a bucket. The keys are read, filtered and rolled
  up into common prefixes, sorted, and cut after the entry the continuation token names; every
  object of the page is then opened for its summary, which may find the bucket changed. Strings
  are compared as bytes; base64.RawURLEncoding is written out.
\<close>

section \<open>Continuation tokens\<close>

definition b64_char :: "nat \<Rightarrow> char" where
  "b64_char n =
     (if n < 26 then char_of (65 + n)
      else if n < 52 then char_of (97 + (n - 26))
      else if n < 62 then char_of (48 + (n - 52))
      else if n = 62 then CHR ''-'' else CHR ''_'')"

definition b64_val :: "char \<Rightarrow> nat option" where
  "b64_val c =
     (if 65 \<le> byte c \<and> byte c \<le> 90 then Some (byte c - 65)
      else if 97 \<le> byte c \<and> byte c \<le> 122 then Some (byte c - 97 + 26)
      else if 48 \<le> byte c \<and> byte c \<le> 57 then Some (byte c - 48 + 52)
      else if c = CHR ''-'' then Some 62
      else if c = CHR ''_'' then Some 63
      else None)"

fun b64_sextets :: "nat list \<Rightarrow> nat list" where
  "b64_sextets [] = []"
| "b64_sextets [a] = [a div 4, (a mod 4) * 16]"
| "b64_sextets [a, b] = [a div 4, (a mod 4) * 16 + b div 16, (b mod 16) * 4]"
| "b64_sextets (a # b # c # s) =
     [a div 4, (a mod 4) * 16 + b div 16, (b mod 16) * 4 + c div 64, c mod 64] @ b64_sextets s"

text \<open>Bits left over at the end are not checked, as in the non-strict decoder.\<close>

fun b64_bytes :: "nat list \<Rightarrow> nat list option" where
  "b64_bytes [] = Some []"
| "b64_bytes [w] = None"
| "b64_bytes [w, x] = Some [(w * 4 + x div 16) mod 256]"
| "b64_bytes [w, x, y] = Some [(w * 4 + x div 16) mod 256, ((x mod 16) * 16 + y div 4) mod 256]"
| "b64_bytes (w # x # y # z # s) =
     map_option (\<lambda>r. [(w * 4 + x div 16) mod 256, ((x mod 16) * 16 + y div 4) mod 256, ((y mod 4) * 64 + z) mod 256] @ r)
       (b64_bytes s)"

definition b64_encode :: "string \<Rightarrow> string" where
  "b64_encode s = map b64_char (b64_sextets (map byte s))"

text \<open>DecodeString skips line ends and fails at any other foreign byte.\<close>

definition b64_decode :: "string \<Rightarrow> string option" where
  "b64_decode t =
     (let cs = map b64_val (filter (\<lambda>c. byte c \<noteq> 10 \<and> byte c \<noteq> 13) t) in
      if None \<in> set cs then None else map_option (map char_of) (b64_bytes (map the cs)))"

definition encode_token :: "string \<Rightarrow> string" where
  "encode_token name = b64_encode name"

definition decode_token :: "string option \<Rightarrow> (storage_err, string) result" where
  "decode_token token =
     (case token of
        None \<Rightarrow> Inr ''''
      | Some t \<Rightarrow>
          (case b64_decode t of
             None \<Rightarrow> Inl ErrInvalidContinuationToken
           | Some b \<Rightarrow> if b = '''' then Inl ErrInvalidContinuationToken else Inr b))"

section \<open>Pages\<close>

definition bkey :: "string \<Rightarrow> nat list" where
  "bkey s = map byte s"

text \<open>slices.Compact, and slices.BinarySearch on a sorted slice.\<close>

fun compact :: "'a list \<Rightarrow> 'a list" where
  "compact [] = []"
| "compact [x] = [x]"
| "compact (x # y # xs) = (if x = y then compact (y # xs) else x # compact (y # xs))"

definition binary_search :: "string list \<Rightarrow> string \<Rightarrow> nat \<times> bool" where
  "binary_search names t =
     (let i = length (takeWhile (\<lambda>x. bkey x < bkey t) names) in (i, i < length names \<and> names ! i = t))"

definition page :: "string list \<Rightarrow> string \<Rightarrow> nat \<Rightarrow> string list \<times> bool" where
  "page names after n =
     (let sorted_names = compact (sort_key bkey names);
          (i, found) = binary_search sorted_names after;
          rest = drop (if found then i + 1 else i) sorted_names
      in if length rest > n then (take n rest, True) else (rest, False))"

section \<open>Common prefixes\<close>

text \<open>strings.Index.\<close>

fun index_of :: "string \<Rightarrow> string \<Rightarrow> nat option" where
  "index_of [] p = (if p = [] then Some 0 else None)"
| "index_of (c # s) p = (if has_prefix (c # s) p then Some 0 else map_option Suc (index_of s p))"

record list_input =
  li_bucket :: "string option"
  li_token :: "string option"
  li_max_keys :: "int option"
  li_prefix :: "string option"
  li_delimiter :: "string option"
  li_start_after :: "string option"

text \<open>What a key is listed as, if at all, and whether that is a common prefix.\<close>

definition roll_key :: "list_input \<Rightarrow> string \<Rightarrow> (string \<times> bool) option" where
  "roll_key li k =
     (let prefix = value_of (li_prefix li); delim = value_of (li_delimiter li) in
      if \<not> has_prefix k prefix \<or> bkey k \<le> bkey (value_of (li_start_after li)) then None
      else if delim \<noteq> '''' then
        (case index_of (drop (length prefix) k) delim of
           Some i \<Rightarrow> Some (take (length prefix + i + length delim) k, True)
         | None \<Rightarrow> Some (k, False))
      else Some (k, False))"

definition roll_up :: "string list \<Rightarrow> list_input \<Rightarrow> string list \<times> string list" where
  "roll_up keys li =
     (let rolled = List.map_filter (roll_key li) keys
      in (map fst rolled, map fst (filter snd rolled)))"

section \<open>ListObjects\<close>

record object_summary =
  os_key :: string
  os_modified :: int
  os_etag :: string
  os_size :: int

record list_output =
  lo_truncated :: bool
  lo_objects :: "object_summary list"
  lo_common :: "string list"
  lo_skipped :: nat
  lo_next :: string

definition summary :: "(string \<Rightarrow> string) \<Rightarrow> faults \<Rightarrow> vbucket \<Rightarrow> string \<Rightarrow> (verr list, object_summary) result" where
  "summary h ff s key =
     (case open_object h ff s key of
        Inl es \<Rightarrow> Inl es
      | Inr (st, c) \<Rightarrow>
          if ff_close ff then Inl [VIo ''close data file'']
          else Inr \<lparr>os_key = key, os_modified = st_modified st, os_etag = mt_etag (st_meta st),
                    os_size = st_size st\<rparr>)"

text \<open>The objects, the common prefixes and the number skipped of a page, or the error that ends it.\<close>

fun list_page ::
  "(string \<Rightarrow> string) \<Rightarrow> (string \<Rightarrow> faults) \<Rightarrow> vbucket \<Rightarrow> string list \<Rightarrow> string list \<Rightarrow>
     (verr list, object_summary list \<times> string list \<times> nat) result" where
  "list_page h ffs s common [] = Inr ([], [], 0)"
| "list_page h ffs s common (name # names) =
     (if name \<in> set common
      then map_sum id (\<lambda>(os, cs, n). (os, name # cs, n)) (list_page h ffs s common names)
      else (case summary h (ffs name) s name of
              Inr sm \<Rightarrow> map_sum id (\<lambda>(os, cs, n). (sm # os, cs, n)) (list_page h ffs s common names)
            | Inl es \<Rightarrow>
                if VNotFound \<in> set es then list_page h ffs s common names
                else if VCorrupt \<in> set es
                then map_sum id (\<lambda>(os, cs, n). (os, cs, n + 1)) (list_page h ffs s common names)
                else Inl es))"

text \<open>
  Provider.listObjects: \<open>bad\<close> are the files Keys cannot read, \<open>s\<close> the bucket it reads the keys of and
  \<open>s2\<close> the bucket the summaries are then taken from.
\<close>

definition list_bucket ::
  "(string \<Rightarrow> string) \<Rightarrow> (string \<Rightarrow> bool) \<Rightarrow> (string \<Rightarrow> faults) \<Rightarrow> vbucket \<Rightarrow> vbucket \<Rightarrow> list_input \<Rightarrow> string \<Rightarrow> nat \<Rightarrow>
     (verr list, list_output) result" where
  "list_bucket h bad ffs s s2 li after max_keys =
     (case bucket_keys h bad s of
        Inl e \<Rightarrow> Inl [e]
      | Inr (keys, skipped) \<Rightarrow>
          (let (names, common) = roll_up keys li; (pg, truncated) = page names after max_keys in
           (case list_page h ffs s2 common pg of
              Inl es \<Rightarrow> Inl es
            | Inr (os, cs, n) \<Rightarrow>
                Inr \<lparr>lo_truncated = truncated, lo_objects = os, lo_common = cs, lo_skipped = length skipped + n,
                     lo_next = (if truncated then encode_token (last pg) else '''')\<rparr>)))"

definition list_objects ::
  "hashes \<Rightarrow> (string \<Rightarrow> bool) \<Rightarrow> (string \<Rightarrow> faults) \<Rightarrow> string \<Rightarrow> vfs \<Rightarrow> (vbucket \<Rightarrow> vbucket) \<Rightarrow> list_input \<Rightarrow>
     (perr, list_output) result" where
  "list_objects he bad ffs cfg v meanwhile li =
     (case validate_list_objects (li_bucket li) (li_max_keys li) (li_token li) cfg of
        Inl e \<Rightarrow> Inl (PInput e)
      | Inr (bucket, max_keys) \<Rightarrow>
          (case decode_token (li_token li) of
             Inl e \<Rightarrow> Inl (PInput e)
           | Inr after \<Rightarrow>
               (case open_bucket (he_hash he) v bucket of
                  Inl e \<Rightarrow> Inl (op_error None [e])
                | Inr s \<Rightarrow>
                    (case list_bucket (he_hash he) bad ffs s (meanwhile s) li after (nat max_keys) of
                       Inl es \<Rightarrow> Inl (op_error None es)
                     | Inr out \<Rightarrow> Inr out))))"

text \<open>A client that follows the continuation tokens to the last page.\<close>

fun list_all_pages ::
  "nat \<Rightarrow> (list_input \<Rightarrow> (perr, list_output) result) \<Rightarrow> list_input \<Rightarrow> (perr, list_output list) result option" where
  "list_all_pages 0 call li = None"
| "list_all_pages (Suc fuel) call li =
     (case call li of
        Inl e \<Rightarrow> Some (Inl e)
      | Inr out \<Rightarrow>
          if lo_truncated out
          then map_option (map_sum id (\<lambda>outs. out # outs))
                 (list_all_pages fuel call (li\<lparr>li_token := Some (lo_next out)\<rparr>))
          else Some (Inr [out]))"

end
