(* ===== verification/Storage_Listing_Properties.thy ===== *)
theory Storage_Listing_Properties
  imports Storage_Listing Storage_Provider_Properties
begin

text \<open>
  What listing promises: tokens decode to the names they encode, and following them from page to
  page lists every object of an unchanged bucket once, in order, rolled up as asked.
\<close>

section \<open>Tokens\<close>

lemma b64_val_char: "n < 64 \<Longrightarrow> b64_val (b64_char n) = Some n \<and> byte (b64_char n) \<noteq> 10 \<and> byte (b64_char n) \<noteq> 13"
  by (auto simp: b64_char_def b64_val_def byte_def)

lemma b64_sextets_less: "\<forall>b\<in>set bs. b < 256 \<Longrightarrow> \<forall>x\<in>set (b64_sextets bs). x < 64"
  by (induction bs rule: b64_sextets.induct) (auto simp: less_mult_imp_div_less)

lemma b64_bytes_sextets: "\<forall>b\<in>set bs. b < 256 \<Longrightarrow> b64_bytes (b64_sextets bs) = Some bs"
proof (induction bs rule: b64_sextets.induct)
  case (4 a b c s)
  have "((a mod 4) * 16 + b div 16) div 16 = a mod 4" "((a mod 4) * 16 + b div 16) mod 16 = b div 16"
    "((b mod 16) * 4 + c div 64) div 4 = b mod 16" "((b mod 16) * 4 + c div 64) mod 4 = c div 64"
    using 4 by (auto simp: less_mult_imp_div_less)
  moreover have "a div 4 * 4 + a mod 4 = a" "b div 16 * 16 + b mod 16 = b" "c div 64 * 64 + c mod 64 = c"
    by simp_all
  ultimately show ?case using 4 by simp
next
  case (3 a b)
  have "((a mod 4) * 16 + b div 16) div 16 = a mod 4" "((a mod 4) * 16 + b div 16) mod 16 = b div 16"
    using 3 by (auto simp: less_mult_imp_div_less)
  moreover have "a div 4 * 4 + a mod 4 = a" "b div 16 * 16 + b mod 16 = b"
    by simp_all
  ultimately show ?case using 3 by simp
qed auto

lemma b64_decode_encode: "b64_decode (b64_encode s) = Some s"
proof -
  let ?xs = "b64_sextets (map byte s)"
  have x: "\<forall>x\<in>set ?xs. x < 64" by (rule b64_sextets_less) (simp add: byte_less)
  have "filter (\<lambda>c. byte c \<noteq> 10 \<and> byte c \<noteq> 13) (map b64_char ?xs) = map b64_char ?xs"
    using x b64_val_char by (intro filter_True) auto
  moreover have "map b64_val (map b64_char ?xs) = map Some ?xs"
    using x b64_val_char by simp
  ultimately have cs: "map b64_val (filter (\<lambda>c. byte c \<noteq> 10 \<and> byte c \<noteq> 13) (b64_encode s)) = map Some ?xs"
    unfolding b64_encode_def by simp
  have "b64_bytes ?xs = Some (map byte s)"
    by (rule b64_bytes_sextets) (simp add: byte_less)
  moreover have "map char_of (map byte s) = s"
    by (simp add: byte_def comp_def)
  ultimately show ?thesis
    unfolding b64_decode_def Let_def cs by (simp add: image_iff comp_def)
qed

lemma decode_encode_token: "name \<noteq> [] \<Longrightarrow> decode_token (Some (encode_token name)) = Inr name"
  by (simp add: decode_token_def encode_token_def b64_decode_encode)

lemma encode_token_ne: "name \<noteq> [] \<Longrightarrow> encode_token name \<noteq> []"
  by (cases "map byte name" rule: b64_sextets.cases) (auto simp: encode_token_def b64_encode_def)

section \<open>Pages of a sorted list\<close>

lemma bkey_inj: "bkey a = bkey b \<longleftrightarrow> a = b"
  by (simp add: bkey_def inj_map_eq_map inj_def byte_inj)

lemma set_compact [simp]: "set (compact xs) = set xs"
  by (induction xs rule: compact.induct) auto

lemma sorted_compact:
  assumes "sorted (map f xs)" and "inj f"
  shows "sorted_wrt (\<lambda>a b. f a < f b) (compact xs)"
  using assms(1)
proof (induction xs rule: compact.induct)
  case (3 x y xs)
  show ?case
  proof (cases "x = y")
    case False
    with assms(2) have "f x \<noteq> f y" by (simp add: inj_eq)
    with "3.prems" have "f x < f y" by (simp add: order_less_le)
    moreover have "f y \<le> f z" if "z \<in> set (y # xs)" for z
      using "3.prems" that by auto
    ultimately have "\<forall>z\<in>set (y # xs). f x < f z" by (meson order_less_le_trans)
    with 3 False show ?thesis by simp
  qed (use 3 in simp)
qed simp_all

text \<open>The names in order, each once.\<close>

definition ordered :: "string list \<Rightarrow> string list" where
  "ordered names = compact (sort_key bkey names)"

lemma ordered_set [simp]: "set (ordered names) = set names"
  by (simp add: ordered_def)

lemma ordered_sorted: "sorted_wrt (\<lambda>a b. bkey a < bkey b) (ordered names)"
  unfolding ordered_def by (rule sorted_compact) (auto simp: inj_def bkey_inj)

lemma rest_sorted:
  assumes "sorted_wrt (\<lambda>a b. bkey a < bkey b) xs"
  shows "(let (i, found) = binary_search xs t in drop (if found then i + 1 else i) xs) =
    filter (\<lambda>x. bkey t < bkey x) xs"
  using assms
proof (induction xs)
  case (Cons x xs)
  show ?case
  proof (cases "bkey x < bkey t")
    case True
    then have "binary_search (x # xs) t = (case binary_search xs t of (i, f) \<Rightarrow> (Suc i, f))"
      by (simp add: binary_search_def Let_def)
    with Cons True show ?thesis by (auto simp: Let_def split: prod.splits)
  next
    case False
    have all: "\<forall>y\<in>set xs. bkey x < bkey y" using Cons.prems by simp
    have "binary_search (x # xs) t = (0, x = t)"
      using False by (simp add: binary_search_def Let_def)
    moreover have "filter (\<lambda>x. bkey t < bkey x) xs = xs"
      using all False by (intro filter_True) (auto simp: not_less)
    moreover have "x \<noteq> t \<Longrightarrow> bkey t < bkey x"
      using False bkey_inj [of x t] by (auto simp: not_less order_less_le)
    ultimately show ?thesis by (auto simp: Let_def)
  qed
qed (simp add: binary_search_def)

lemma page_filter:
  "page names after n =
     (let rest = filter (\<lambda>x. bkey after < bkey x) (ordered names)
      in if length rest > n then (take n rest, True) else (rest, False))"
proof -
  obtain i found where b: "binary_search (ordered names) after = (i, found)" by fastforce
  with rest_sorted [OF ordered_sorted [of names], of after]
  have "drop (if found then i + 1 else i) (ordered names) = filter (\<lambda>x. bkey after < bkey x) (ordered names)"
    by simp
  then show ?thesis
    unfolding page_def Let_def ordered_def [symmetric] b prod.case by (simp only:)
qed

text \<open>What follows the last entry of a full page is the rest of the list.\<close>

lemma filter_after_take:
  assumes "sorted_wrt (\<lambda>a b. bkey a < bkey b) xs" and "0 < n" and "n < length xs"
  shows "filter (\<lambda>x. bkey (last (take n xs)) < bkey x) xs = drop n xs"
proof -
  let ?l = "last (take n xs)"
  have "take n xs \<noteq> []" using assms by auto
  then have l: "?l = xs ! (n - 1)" using assms by (simp add: last_conv_nth)
  have lt: "bkey (xs ! i) < bkey (xs ! j)" if "i < j" "j < length xs" for i j
    using sorted_wrt_nth_less [OF assms(1) that] .
  have "filter (\<lambda>x. bkey ?l < bkey x) (take n xs) = []"
  proof -
    have "\<not> bkey ?l < bkey x" if "x \<in> set (take n xs)" for x
    proof -
      from that obtain i where "i < n" "x = xs ! i" using assms(3) by (auto simp: in_set_conv_nth)
      moreover have "i = n - 1 \<or> i < n - 1 \<and> n - 1 < length xs"
        using \<open>i < n\<close> assms(3) by auto
      ultimately show ?thesis using lt [of i "n - 1"] l by auto
    qed
    then show ?thesis by (simp add: filter_empty_conv)
  qed
  moreover have "filter (\<lambda>x. bkey ?l < bkey x) (drop n xs) = drop n xs"
  proof (rule filter_True)
    show "\<forall>x\<in>set (drop n xs). bkey ?l < bkey x"
      using lt [of "n - 1"] l assms by (auto simp: in_set_conv_nth)
  qed
  ultimately show ?thesis
    by (metis append_take_drop_id filter_append append_Nil)
qed

section \<open>The keys of a bucket\<close>

text \<open>An object a listing can name: it is stored under its own key.\<close>

definition listed :: "(string \<Rightarrow> string) \<Rightarrow> vbucket \<Rightarrow> string \<Rightarrow> bool" where
  "listed h s k \<longleftrightarrow> (\<exists>m c t. stored_object h s k = Some (m, c, t) \<and> mt_key m = k)"

lemma check_key_ok:
  "check_key h (\<lambda>_. False) s name = Inr k \<longleftrightarrow> (\<exists>m c t. object_at h s name = Some (m, c, t) \<and> k = mt_key m)"
  by (auto simp: check_key_def object_at_def split: sum.splits option.splits dfile.splits)

lemma check_key_err: "check_key h (\<lambda>_. False) s name = Inl e \<Longrightarrow> e = VNotFound \<or> e = VCorrupt"
  by (auto simp: check_key_def read_meta_def split: sum.splits option.splits dfile.splits mfile.splits if_splits)

lemma keys_loop_ok:
  "\<exists>ks sk. keys_loop h (\<lambda>_. False) s fs = Inr (ks, sk) \<and> length ks \<le> length fs \<and>
     set ks = {k. \<exists>f\<in>set fs. \<exists>name. cut_meta_ext f = Some name \<and> check_key h (\<lambda>_. False) s name = Inr k}"
proof (induction fs)
  case (Cons f fs)
  then obtain ks sk where IH: "keys_loop h (\<lambda>_. False) s fs = Inr (ks, sk)" "length ks \<le> length fs"
      "set ks = {k. \<exists>f\<in>set fs. \<exists>name. cut_meta_ext f = Some name \<and> check_key h (\<lambda>_. False) s name = Inr k}"
    by blast
  show ?case
  proof (cases "cut_meta_ext f")
    case None
    with IH show ?thesis by (auto intro: le_SucI)
  next
    case (Some name)
    show ?thesis
    proof (cases "check_key h (\<lambda>_. False) s name")
      case (Inl e)
      with Some IH check_key_err [OF Inl] show ?thesis by (auto intro: le_SucI)
    next
      case (Inr k)
      with Some IH show ?thesis by auto
    qed
  qed
qed simp

lemma cut_meta_name: "cut_meta_ext f = Some name \<longleftrightarrow> f = name @ meta_ext \<and> is_hash name"
  by (auto simp: cut_meta_ext_def has_suffix_iff split: if_splits)

lemma object_at_file: "object_at h s name = Some x \<Longrightarrow> name @ meta_ext \<in> fst ` set (vb_meta s)"
  by (force simp: object_at_def read_meta_def split: sum.splits option.splits dest: map_of_SomeD)

lemma object_at_key: "object_at h s name = Some (m, c, t) \<Longrightarrow> h (mt_key m) = name"
  by (auto simp: object_at_def read_meta_def split: sum.splits option.splits dfile.splits mfile.splits if_splits)

lemma bucket_keys_ok:
  assumes hash: "\<forall>k. is_hash (h k)"
  obtains ks sk where "bucket_keys h (\<lambda>_. False) s = Inr (ks, sk)" "length ks \<le> length (vb_meta s)"
    "set ks = {k. listed h s k}"
proof -
  from keys_loop_ok [of h s "map fst (vb_meta s)"] obtain ks sk where
    k: "keys_loop h (\<lambda>_. False) s (map fst (vb_meta s)) = Inr (ks, sk)" "length ks \<le> length (vb_meta s)"
      "set ks = {k. \<exists>f\<in>set (map fst (vb_meta s)). \<exists>name. cut_meta_ext f = Some name \<and>
         check_key h (\<lambda>_. False) s name = Inr k}"
    by auto
  have "k \<in> set ks \<longleftrightarrow> listed h s k" for k
  proof
    assume "k \<in> set ks"
    with k(3) obtain name m c t where "object_at h s name = Some (m, c, t)" "k = mt_key m"
      by (auto simp: check_key_ok)
    with object_at_key [OF this(1)] show "listed h s k" by (auto simp: listed_def stored_object_at)
  next
    assume "listed h s k"
    then obtain m c t where o1: "object_at h s (h k) = Some (m, c, t)" "mt_key m = k"
      by (auto simp: listed_def stored_object_at)
    have "h k @ meta_ext \<in> set (map fst (vb_meta s))" using object_at_file [OF o1(1)] by simp
    moreover have "cut_meta_ext (h k @ meta_ext) = Some (h k)" using hash by (simp add: cut_meta_name)
    moreover have "check_key h (\<lambda>_. False) s (h k) = Inr k" using o1 by (auto simp: check_key_ok)
    ultimately have "\<exists>f\<in>set (map fst (vb_meta s)). \<exists>name. cut_meta_ext f = Some name \<and>
        check_key h (\<lambda>_. False) s name = Inr k"
      by blast
    then show "k \<in> set ks" unfolding k(3) by simp
  qed
  with k that [of ks sk] show thesis by (auto simp: bucket_keys_def)
qed

section \<open>Rolling up\<close>

lemma index_of_take: "index_of s p = Some i \<Longrightarrow> index_of (take (i + length p) s) p \<noteq> None"
proof (induction s arbitrary: i)
  case (Cons c s)
  show ?case
  proof (cases "has_prefix (c # s) p")
    case True
    with Cons.prems have i: "i = 0" by simp
    have "has_prefix (take (length p) (c # s)) p"
      using True by (auto simp: has_prefix_def)
    then show ?thesis using i by (cases "take (length p) (c # s)") (auto simp: has_prefix_def)
  next
    case False
    with Cons.prems obtain j where j: "index_of s p = Some j" "i = Suc j" by auto
    from Cons.IH [OF j(1)] j(2) show ?thesis by (auto simp: option.map_disc_iff)
  qed
qed (auto split: if_splits)

lemma roll_key_cases:
  assumes "roll_key li k = Some (p, b)"
  shows "has_prefix k (value_of (li_prefix li))" "bkey (value_of (li_start_after li)) < bkey k"
    and "\<not> b \<Longrightarrow> p = k"
    and "b \<Longrightarrow> \<exists>i. value_of (li_delimiter li) \<noteq> [] \<and>
           index_of (drop (length (value_of (li_prefix li))) k) (value_of (li_delimiter li)) = Some i \<and>
           p = take (length (value_of (li_prefix li)) + i + length (value_of (li_delimiter li))) k"
    and "\<not> b \<Longrightarrow> value_of (li_delimiter li) \<noteq> [] \<Longrightarrow>
           index_of (drop (length (value_of (li_prefix li))) k) (value_of (li_delimiter li)) = None"
  using assms by (auto simp: roll_key_def Let_def not_le split: if_splits option.splits)

text \<open>A common prefix is never also the name of a key that is listed as itself.\<close>

lemma roll_key_disjoint:
  assumes "roll_key li k = Some (p, True)" and "roll_key li k' = Some (p', False)"
  shows "p' \<noteq> p"
proof
  let ?pre = "value_of (li_prefix li)" and ?d = "value_of (li_delimiter li)"
  assume eq: "p' = p"
  from roll_key_cases(4) [OF assms(1)] obtain i where i: "?d \<noteq> []"
      "index_of (drop (length ?pre) k) ?d = Some i" "p = take (length ?pre + i + length ?d) k"
    by auto
  have "drop (length ?pre) p = take (i + length ?d) (drop (length ?pre) k)"
    unfolding i(3) by (simp add: drop_take add.commute)
  with index_of_take [OF i(2)] have "index_of (drop (length ?pre) p) ?d \<noteq> None" by simp
  moreover have "k' = p" using roll_key_cases(3) [OF assms(2)] eq by simp
  ultimately show False using roll_key_cases(5) [OF assms(2)] i(1) by simp
qed

lemma index_of_bound: "index_of s p = Some i \<Longrightarrow> i + length p \<le> length s"
proof (induction s arbitrary: i)
  case (Cons c s)
  show ?case
  proof (cases "has_prefix (c # s) p")
    case True
    then obtain t where "c # s = p @ t" by (auto simp: has_prefix_iff)
    then have "length (c # s) = length p + length t" by (metis length_append)
    with Cons.prems True show ?thesis by simp
  next
    case False
    with Cons.prems obtain j where j: "index_of s p = Some j" "i = Suc j" by auto
    with Cons.IH [OF j(1)] show ?thesis by simp
  qed
qed (simp split: if_splits)

lemma roll_key_ne: "roll_key li k = Some (p, b) \<Longrightarrow> p \<noteq> []"
proof (cases b)
  case True
  assume r: "roll_key li k = Some (p, b)"
  from roll_key_cases(4) [OF r True] index_of_bound show ?thesis by fastforce
next
  case False
  assume r: "roll_key li k = Some (p, b)"
  from roll_key_cases(2,3) [OF r] False show ?thesis by (cases p) (auto simp: bkey_def)
qed

lemma roll_up_names:
  "set (fst (roll_up keys li)) = {p. \<exists>k\<in>set keys. \<exists>b. roll_key li k = Some (p, b)}"
  "set (snd (roll_up keys li)) = {p. \<exists>k\<in>set keys. roll_key li k = Some (p, True)}"
  by (force simp: roll_up_def Let_def map_filter_def image_iff)+

lemma roll_up_length: "length (fst (roll_up keys li)) \<le> length keys"
  by (simp add: roll_up_def Let_def map_filter_def)

lemma roll_up_token [simp]: "roll_up keys (li\<lparr>li_token := t\<rparr>) = roll_up keys li"
proof -
  have "roll_key (li\<lparr>li_token := t\<rparr>) = roll_key li"
    by (rule ext) (simp add: roll_key_def)
  then show ?thesis by (simp add: roll_up_def)
qed

section \<open>One page\<close>

text \<open>The summary an object in the store has.\<close>

definition summary_of :: "(string \<Rightarrow> string) \<Rightarrow> vbucket \<Rightarrow> string \<Rightarrow> object_summary" where
  "summary_of h s k =
     (case stored_object h s k of
        Some (m, c, t) \<Rightarrow> \<lparr>os_key = k, os_modified = t, os_etag = mt_etag m, os_size = int (length c)\<rparr>
      | None \<Rightarrow> \<lparr>os_key = k, os_modified = 0, os_etag = [], os_size = 0\<rparr>)"

lemma summary_of_key [simp]: "os_key (summary_of h s k) = k"
  by (auto simp: summary_of_def split: option.splits)

lemma summary_listed: "listed h s k \<Longrightarrow> summary h no_faults s k = Inr (summary_of h s k)"
  by (auto simp: listed_def summary_def summary_of_def stored_object_def open_object_def open_data_def
      no_faults_def split: sum.splits option.splits dfile.splits if_splits)

lemma list_page_listed:
  assumes "\<forall>k\<in>set pg. k \<notin> set common \<longrightarrow> listed h s k"
  shows "list_page h (\<lambda>_. no_faults) s common pg =
    Inr (map (summary_of h s) (filter (\<lambda>k. k \<notin> set common) pg), filter (\<lambda>k. k \<in> set common) pg, 0)"
  using assms by (induction pg) (auto simp: summary_listed)

text \<open>The entries of a whole listing, and those that are common prefixes.\<close>

definition entries :: "string list \<Rightarrow> list_input \<Rightarrow> string list" where
  "entries ks li = ordered (fst (roll_up ks li))"

lemma entries_plain:
  assumes "set ks = {k. listed h s k}" and "k \<in> set (entries ks li)" and "k \<notin> set (snd (roll_up ks li))"
  shows "listed h s k \<and> roll_key li k = Some (k, False)"
proof -
  from assms obtain k' b where k': "k' \<in> set ks" "roll_key li k' = Some (k, b)"
    by (auto simp: entries_def roll_up_names)
  with assms(3) have "\<not> b" by (cases b) (auto simp: roll_up_names)
  with roll_key_cases(3) [OF k'(2)] k' assms(1) show ?thesis by auto
qed

lemma entries_plain_set:
  assumes "set ks = {k. listed h s k}"
  shows "set (filter (\<lambda>k. k \<notin> set (snd (roll_up ks li))) (entries ks li)) =
    {k. listed h s k \<and> roll_key li k = Some (k, False)}"
proof -
  have "k \<in> set (entries ks li) \<and> k \<notin> set (snd (roll_up ks li))"
    if "listed h s k" "roll_key li k = Some (k, False)" for k
    using that assms roll_key_disjoint [of li _ k k k] by (auto simp: entries_def roll_up_names)
  with entries_plain [OF assms] show ?thesis by auto
qed

lemma entries_common_set:
  assumes "set ks = {k. listed h s k}"
  shows "set (filter (\<lambda>k. k \<in> set (snd (roll_up ks li))) (entries ks li)) =
    {p. \<exists>k. listed h s k \<and> roll_key li k = Some (p, True)}"
  using assms by (auto simp: entries_def roll_up_names)

definition after_entry :: "string \<Rightarrow> string list \<Rightarrow> string list" where
  "after_entry a es = filter (\<lambda>x. bkey a < bkey x) es"

lemma list_bucket_page:
  fixes n :: nat
  assumes keys: "bucket_keys h (\<lambda>_. False) s = Inr (ks, sk)" "set ks = {k. listed h s k}"
  shows "\<exists>out. list_bucket h (\<lambda>_. False) (\<lambda>_. no_faults) s s li a n = Inr out \<and>
    (let rest = after_entry a (entries ks li); pg = take n rest; cs = set (snd (roll_up ks li)) in
      lo_objects out = map (summary_of h s) (filter (\<lambda>k. k \<notin> cs) pg) \<and>
      lo_common out = filter (\<lambda>k. k \<in> cs) pg \<and> (lo_truncated out \<longleftrightarrow> n < length rest) \<and>
      (n < length rest \<longrightarrow> lo_next out = encode_token (last pg)))"
proof -
  let ?rest = "after_entry a (entries ks li)"
  obtain ns cs where r: "roll_up ks li = (ns, cs)" by fastforce
  have pg: "page ns a n = (take n ?rest, n < length ?rest)"
    by (simp add: page_filter after_entry_def entries_def r Let_def)
  have "\<forall>k\<in>set (take n ?rest). k \<notin> set cs \<longrightarrow> listed h s k"
    using entries_plain [OF keys(2), of _ li] r by (auto simp: after_entry_def dest!: in_set_takeD)
  from list_page_listed [OF this] show ?thesis
    by (simp add: list_bucket_def keys(1) r pg Let_def)
qed

section \<open>All pages\<close>

lemma after_entry_next:
  assumes "sorted_wrt (\<lambda>a b. bkey a < bkey b) es" and "0 < n" and "n < length (after_entry a es)"
  shows "after_entry (last (take n (after_entry a es))) es = drop n (after_entry a es)"
proof -
  let ?rest = "after_entry a es" and ?l = "last (take n (after_entry a es))"
  have "?l \<in> set (take n ?rest)" using assms by (intro last_in_set) auto
  then have "bkey a < bkey ?l" by (auto simp: after_entry_def dest: in_set_takeD)
  then have "after_entry ?l es = filter (\<lambda>x. bkey ?l < bkey x) ?rest"
    by (auto simp: after_entry_def intro!: filter_cong)
  also have "\<dots> = drop n ?rest"
    using assms by (intro filter_after_take) (auto simp: after_entry_def intro: sorted_wrt_filter)
  finally show ?thesis .
qed

lemma all_pages:
  assumes keys: "bucket_keys (he_hash he) (\<lambda>_. False) s = Inr (ks, sk)" "set ks = {k. listed (he_hash he) s k}"
    and input: "\<And>t. t \<noteq> Some [] \<Longrightarrow>
      validate_list_objects (li_bucket li) (li_max_keys li) t cfg = Inr (bucket, int n)"
    and n: "0 < n" and bucket: "open_bucket (he_hash he) v bucket = Inr s"
    and token: "decode_token t = Inr a" "t \<noteq> Some []"
    and fuel: "length (after_entry a (entries ks li)) < fuel"
  shows "\<exists>outs. list_all_pages fuel (list_objects he (\<lambda>_. False) (\<lambda>_. no_faults) cfg v (\<lambda>b. b)) (li\<lparr>li_token := t\<rparr>) =
      Some (Inr outs) \<and>
    (let rest = after_entry a (entries ks li); cs = set (snd (roll_up ks li)) in
      concat (map lo_objects outs) = map (summary_of (he_hash he) s) (filter (\<lambda>k. k \<notin> cs) rest) \<and>
      concat (map lo_common outs) = filter (\<lambda>k. k \<in> cs) rest \<and>
      (\<forall>out\<in>set outs. length (lo_objects out) + length (lo_common out) \<le> n))"
  using token fuel
proof (induction fuel arbitrary: t a)
  case (Suc fuel)
  let ?rest = "after_entry a (entries ks li)" and ?cs = "set (snd (roll_up ks li))"
  let ?call = "list_objects he (\<lambda>_. False) (\<lambda>_. no_faults) cfg v (\<lambda>b. b)"
  have e: "entries ks (li\<lparr>li_token := t'\<rparr>) = entries ks li" for t' by (simp add: entries_def)
  from list_bucket_page [OF keys, of "li\<lparr>li_token := t\<rparr>" a n] obtain out where
    l: "list_bucket (he_hash he) (\<lambda>_. False) (\<lambda>_. no_faults) s s (li\<lparr>li_token := t\<rparr>) a n = Inr out"
    and o1: "lo_objects out = map (summary_of (he_hash he) s) (filter (\<lambda>k. k \<notin> ?cs) (take n ?rest))"
      "lo_common out = filter (\<lambda>k. k \<in> ?cs) (take n ?rest)"
    and o2: "lo_truncated out \<longleftrightarrow> n < length ?rest"
      "n < length ?rest \<Longrightarrow> lo_next out = encode_token (last (take n ?rest))"
    by (auto simp: Let_def e)
  have call: "?call (li\<lparr>li_token := t\<rparr>) = Inr out"
    using Suc.prems(1) input [OF Suc.prems(2)] bucket l by (simp add: list_objects_def)
  have size: "length (lo_objects out) + length (lo_common out) \<le> n"
    using sum_length_filter_compl [of "\<lambda>k. k \<in> ?cs" "take n ?rest"] by (simp add: o1)
  show ?case
  proof (cases "n < length ?rest")
    case False
    with call o1 o2 size show ?thesis by (simp add: Let_def)
  next
    case True
    let ?l = "last (take n ?rest)"
    have sorted: "sorted_wrt (\<lambda>a b. bkey a < bkey b) (entries ks li)"
      unfolding entries_def by (rule ordered_sorted)
    have "?l \<in> set (take n ?rest)" using n True by (intro last_in_set) auto
    then have "?l \<in> set (entries ks li)" by (auto simp: after_entry_def dest: in_set_takeD)
    then have ne: "?l \<noteq> []" using roll_key_ne by (auto simp: entries_def roll_up_names)
    have next_rest: "after_entry ?l (entries ks li) = drop n ?rest"
      by (rule after_entry_next [OF sorted n True])
    have dec: "decode_token (Some (lo_next out)) = Inr ?l"
      unfolding o2(2) [OF True] by (rule decode_encode_token [OF ne])
    have tok: "Some (lo_next out) \<noteq> Some []"
      unfolding o2(2) [OF True] using encode_token_ne [OF ne] by simp
    have less: "length (after_entry ?l (entries ks li)) < fuel"
      using Suc.prems(3) n True unfolding next_rest by simp
    from Suc.IH [OF dec tok less] obtain outs where
      r: "list_all_pages fuel ?call (li\<lparr>li_token := Some (lo_next out)\<rparr>) = Some (Inr outs)"
      and c: "concat (map lo_objects outs) = map (summary_of (he_hash he) s) (filter (\<lambda>k. k \<notin> ?cs) (drop n ?rest))"
        "concat (map lo_common outs) = filter (\<lambda>k. k \<in> ?cs) (drop n ?rest)"
        "\<forall>out\<in>set outs. length (lo_objects out) + length (lo_common out) \<le> n"
      unfolding next_rest by (auto simp: Let_def)
    have split: "filter P ?rest = filter P (take n ?rest) @ filter P (drop n ?rest)" for P
      by (metis append_take_drop_id filter_append)
    have "list_all_pages (Suc fuel) ?call (li\<lparr>li_token := t\<rparr>) = Some (Inr (out # outs))"
      using call o2(1) True r by simp
    then show ?thesis
      using o1 c size by (simp add: Let_def split)
  qed
qed simp

lemma bkey_pos: "x \<noteq> [] \<Longrightarrow> bkey [] < bkey x"
  by (cases x) (auto simp: bkey_def)

lemma max_list_keys_pos: "0 < max_list_keys"
  by (simp add: max_list_keys_def)

lemma valid_pages:
  assumes "validate_list_objects b mk t cfg = Inr (bucket, n)"
  shows "0 < n" and "t' \<noteq> Some [] \<Longrightarrow> validate_list_objects b mk t' cfg = Inr (bucket, n)"
  using assms max_list_keys_pos by (auto simp: validate_list_objects_def split: sum.splits if_splits option.splits)

lemma list_pages_spec:
  assumes hash: "\<forall>k. is_hash (he_hash he k)"
    and input: "validate_list_objects (li_bucket li) (li_max_keys li) None cfg = Inr (bucket, n)"
    and bucket: "open_bucket (he_hash he) v bucket = Inr s"
  shows "\<exists>outs. list_all_pages (Suc (length (vb_meta s)))
        (list_objects he (\<lambda>_. False) (\<lambda>_. no_faults) cfg v (\<lambda>b. b)) (li\<lparr>li_token := None\<rparr>) = Some (Inr outs) \<and>
     (let keys = map os_key (concat (map lo_objects outs)); common = concat (map lo_common outs) in
       sorted_wrt (\<lambda>a b. bkey a < bkey b) keys \<and> sorted_wrt (\<lambda>a b. bkey a < bkey b) common \<and>
       set keys = {k. listed (he_hash he) s k \<and> roll_key li k = Some (k, False)} \<and>
       set common = {p. \<exists>k. listed (he_hash he) s k \<and> roll_key li k = Some (p, True)} \<and>
       (\<forall>sm\<in>set (concat (map lo_objects outs)). sm = summary_of (he_hash he) s (os_key sm)) \<and>
       (\<forall>out\<in>set outs. int (length (lo_objects out) + length (lo_common out)) \<le> n))"
proof -
  let ?h = "he_hash he"
  from bucket_keys_ok [OF hash] obtain ks sk where
    keys: "bucket_keys ?h (\<lambda>_. False) s = Inr (ks, sk)" "length ks \<le> length (vb_meta s)" "set ks = {k. listed ?h s k}" .
  let ?es = "entries ks li" and ?cs = "set (snd (roll_up ks li))"
  obtain m where m: "n = int m" "0 < m" using valid_pages(1) [OF input] by (metis pos_int_cases)
  have "x \<noteq> []" if "x \<in> set ?es" for x using that roll_key_ne by (auto simp: entries_def roll_up_names)
  then have all: "after_entry [] ?es = ?es"
    unfolding after_entry_def by (intro filter_True) (simp add: bkey_pos)
  have "length (compact xs) \<le> length xs" for xs :: "string list"
    by (induction xs rule: compact.induct) auto
  then have "length ?es \<le> length ks"
    unfolding entries_def ordered_def using roll_up_length [of ks li] by (metis length_sort order_trans)
  with keys(2) all have fuel: "length (after_entry [] ?es) < Suc (length (vb_meta s))" by simp
  from all_pages [OF keys(1,3) valid_pages(2) [OF input, unfolded m(1)] m(2) bucket _ _ fuel, of None] obtain outs where
    o1: "list_all_pages (Suc (length (vb_meta s))) (list_objects he (\<lambda>_. False) (\<lambda>_. no_faults) cfg v (\<lambda>b. b))
        (li\<lparr>li_token := None\<rparr>) = Some (Inr outs)"
      "concat (map lo_objects outs) = map (summary_of ?h s) (filter (\<lambda>k. k \<notin> ?cs) ?es)"
      "concat (map lo_common outs) = filter (\<lambda>k. k \<in> ?cs) ?es"
      "\<forall>out\<in>set outs. length (lo_objects out) + length (lo_common out) \<le> m"
    by (auto simp: decode_token_def all Let_def)
  have k: "map os_key (concat (map lo_objects outs)) = filter (\<lambda>k. k \<notin> ?cs) ?es"
    unfolding o1(2) by (simp add: comp_def)
  have sorted: "sorted_wrt (\<lambda>a b. bkey a < bkey b) (filter P ?es)" for P
    unfolding entries_def by (rule sorted_wrt_filter [OF ordered_sorted])
  have sm: "\<forall>sm\<in>set (concat (map lo_objects outs)). sm = summary_of ?h s (os_key sm)"
    unfolding o1(2) by simp
  have len: "\<forall>out\<in>set outs. int (length (lo_objects out) + length (lo_common out)) \<le> n"
    using o1(4) unfolding m(1) of_nat_le_iff .
  show ?thesis
    unfolding Let_def
    apply (rule exI [of _ outs])
    apply (intro conjI)
    subgoal by (rule o1(1))
    subgoal unfolding k by (rule sorted)
    subgoal unfolding o1(3) by (rule sorted)
    subgoal unfolding k by (rule entries_plain_set [OF keys(3)])
    subgoal unfolding o1(3) by (rule entries_common_set [OF keys(3)])
    subgoal by (rule sm)
    subgoal by (rule len)
    done
qed

text \<open>C39: following the continuation tokens of ListObjects from the first page ends, after at most
one page more than the metadata directory has files, and over an unchanged bucket lists it exactly:
the keys on all pages are, in strict byte order, the stored objects that Prefix and StartAfter select
and Delimiter does not roll up, each with the metadata, size and time it is stored with; the common
prefixes are, in strict byte order, those the others roll up into; and no page has more than MaxKeys
entries.\<close>

theorem list_pages_complete:
  assumes hash: "\<forall>k. is_hash (he_hash he k)"
    and input: "validate_list_objects (li_bucket li) (li_max_keys li) None cfg = Inr (bucket, n)"
    and bucket: "open_bucket (he_hash he) v bucket = Inr s"
  shows "\<exists>outs. list_all_pages (Suc (length (vb_meta s)))
        (list_objects he (\<lambda>_. False) (\<lambda>_. no_faults) cfg v (\<lambda>b. b)) (li\<lparr>li_token := None\<rparr>) = Some (Inr outs) \<and>
     (let keys = map os_key (concat (map lo_objects outs)); common = concat (map lo_common outs) in
       sorted_wrt (\<lambda>a b. bkey a < bkey b) keys \<and> sorted_wrt (\<lambda>a b. bkey a < bkey b) common \<and>
       set keys = {k. listed (he_hash he) s k \<and> roll_key li k = Some (k, False)} \<and>
       set common = {p. \<exists>k. listed (he_hash he) s k \<and> roll_key li k = Some (p, True)} \<and>
       (\<forall>sm\<in>set (concat (map lo_objects outs)). sm = summary_of (he_hash he) s (os_key sm)) \<and>
       (\<forall>out\<in>set outs. int (length (lo_objects out) + length (lo_common out)) \<le> n))"
  by (rule list_pages_spec [OF assms])

text \<open>The store with one object, listed with pages of one entry.\<close>

definition demo_list :: list_input where
  "demo_list = \<lparr>li_bucket = None, li_token = None, li_max_keys = Some 1, li_prefix = None, li_delimiter = None,
     li_start_after = None\<rparr>"

lemma demo_list_valid:
  "validate_list_objects (li_bucket demo_list) (li_max_keys demo_list) None ''mybucket'' = Inr (''mybucket'', 1)"
  by code_simp

lemma demo_hash_a: "demo_hash k = demo_hash ''a'' \<Longrightarrow> k = ''a''"
  by (simp add: demo_hash_def split: if_splits)

theorem list_pages_complete_witness:
  "\<exists>v s outs. open_bucket demo_hash v ''mybucket'' = Inr s \<and>
    list_all_pages (Suc (length (vb_meta s)))
      (list_objects demo_hashes (\<lambda>_. False) (\<lambda>_. no_faults) ''mybucket'' v (\<lambda>b. b)) (demo_list\<lparr>li_token := None\<rparr>) =
        Some (Inr outs) \<and>
    ''a'' \<in> set (map os_key (concat (map lo_objects outs)))"
proof -
  obtain i eff where run: "demo_put_run = Some (Some i, None, eff)" by (rule demo_put_some)
  have ok: "\<forall>k. is_hash (he_hash demo_hashes k)" and p: "\<forall>p\<in>set [4, 4, 4]. (0::nat) < p"
    using demo_hash_ok by simp_all
  let ?v = "vfs_after eff demo_vfs"
  from put_object_spec [OF ok demo_put_fresh p demo_put_ok run] obtain m where
    "object_in demo_hashes ?v ''mybucket'' ''a'' = Some (m, ''hello'', 7)"
    by (auto simp: demo_put_def)
  then obtain s where s: "open_bucket demo_hash ?v ''mybucket'' = Inr s"
    and o1: "stored_object demo_hash s ''a'' = Some (m, ''hello'', 7)"
    by (auto simp: object_in_def split: sum.splits)
  have "mt_key m = ''a''"
    using object_at_key o1 demo_hash_a by (metis stored_object_at)
  with o1 have l: "listed demo_hash s ''a''" by (auto simp: listed_def)
  have r: "roll_key demo_list ''a'' = Some (''a'', False)" by code_simp
  have s': "open_bucket (he_hash demo_hashes) ?v ''mybucket'' = Inr s" using s by simp
  from list_pages_complete [OF ok demo_list_valid s'] obtain outs where
    a: "list_all_pages (Suc (length (vb_meta s)))
      (list_objects demo_hashes (\<lambda>_. False) (\<lambda>_. no_faults) ''mybucket'' ?v (\<lambda>b. b)) (demo_list\<lparr>li_token := None\<rparr>) =
        Some (Inr outs)"
    and k: "set (map os_key (concat (map lo_objects outs))) =
      {k. listed demo_hash s k \<and> roll_key demo_list k = Some (k, False)}"
    unfolding Let_def demo_he by (elim exE conjE) blast
  from l r have "''a'' \<in> set (map os_key (concat (map lo_objects outs)))" unfolding k by simp
  with s a show ?thesis by blast
qed

end
