(* ===== verification/Storage_Buckets.thy ===== *)
theory Storage_Buckets
  imports Storage_Listing
begin

text \<open>
  The buckets of the directory backend (storage/dir/internal/vfs: vfs.go, deletebucket.go, the
  records of list.go) and the provider's calls on them. A bucket is its metadata, objects and locks
  directories and its name record. CreateBucket and DeleteBucket hold the bucket's lifecycle lock
  (theory Storage_Lock), so only object operations come between their steps; they are the argument
  \<open>mw\<close>, the bucket as the n-th step of the delete finds it. \<open>bad\<close> says which call on which file fails.
\<close>

section \<open>A bucket's directories\<close>

datatype name_rec = NotARecord | NameRecord string int

datatype dir_entry = NotADir | MetaDirectory "(string \<times> mfile) list"

record broot =
  ro_meta :: "dir_entry option"
  ro_objs :: "(string \<times> dfile) list option"
  ro_locks :: "string list option"
  ro_name :: "name_rec option"
  ro_temps :: "string list"

definition no_bucket :: broot where
  "no_bucket = \<lparr>ro_meta = None, ro_objs = None, ro_locks = None, ro_name = None, ro_temps = []\<rparr>"

type_synonym fault_at = "string \<Rightarrow> string \<Rightarrow> bool"

text \<open>OpenBucket.\<close>

definition open_dirs :: "broot \<Rightarrow> (verr, vbucket) result" where
  "open_dirs r =
     (case ro_meta r of
        None \<Rightarrow> Inl VBucketNotFound
      | Some NotADir \<Rightarrow> Inl (VIo ''open meta dir: is not a directory'')
      | Some (MetaDirectory ms) \<Rightarrow>
          (case ro_objs r of
             None \<Rightarrow> Inl VBucketNotFound
           | Some os \<Rightarrow>
               if ro_locks r = None then Inl VBucketNotFound else Inr \<lparr>vb_meta = ms, vb_objs = os\<rparr>))"

section \<open>Name records\<close>

text \<open>bucketEntry: the name and the time of the record, when it names the bucket with hash \<open>hh\<close>.\<close>

definition bucket_entry ::
  "(string \<Rightarrow> string) \<Rightarrow> fault_at \<Rightarrow> string \<Rightarrow> broot \<Rightarrow> (verr, (string \<times> int) option) result" where
  "bucket_entry h bad hh r =
     (case ro_name r of
        None \<Rightarrow> if bad ''stat bucket name record'' hh then Inl (VIo ''stat bucket name record'') else Inr None
      | Some rec \<Rightarrow>
          if bad ''stat bucket name record'' hh then Inl (VIo ''stat bucket name record'')
          else (case rec of
              NotARecord \<Rightarrow> Inl (VIo ''not a regular file'')
            | NameRecord name t \<Rightarrow>
                if bad ''read bucket name record'' hh then Inl (VIo ''read bucket name record'')
                else if h name \<noteq> hh then Inr None
                else Inr (Some (name, t))))"

text \<open>writeBucketName: a temp file renamed into place, unless the record holds the name already.\<close>

definition write_bucket_name ::
  "(string \<Rightarrow> string) \<Rightarrow> fault_at \<Rightarrow> string \<Rightarrow> int \<Rightarrow> string \<Rightarrow> broot \<Rightarrow> verr list \<times> broot" where
  "write_bucket_name h bad uid now name r =
     (let hh = h name; tmp = hh @ uid;
          discard = (\<lambda>e. if bad ''remove temp file'' tmp
             then ([VIo e, VIo ''remove temp file''], r\<lparr>ro_temps := tmp # ro_temps r\<rparr>) else ([VIo e], r));
          put = (if bad ''write bucket name record'' tmp then discard ''write bucket name record''
             else if bad ''commit bucket name record'' hh then discard ''commit bucket name record''
             else ([], r\<lparr>ro_name := Some (NameRecord name now)\<rparr>))
      in
      if bad ''stat bucket name record'' hh then ([VIo ''stat bucket name record''], r)
      else (case ro_name r of
          Some NotARecord \<Rightarrow> ([VIo ''bucket name record is not a regular file''], r)
        | Some (NameRecord held t) \<Rightarrow>
            if bad ''read bucket name record'' hh then ([VIo ''read bucket name record''], r)
            else if held = name then ([], r)
            else put
        | None \<Rightarrow> put))"

section \<open>CreateBucket and HeadBucket\<close>

definition make_bucket ::
  "(string \<Rightarrow> string) \<Rightarrow> fault_at \<Rightarrow> string \<Rightarrow> int \<Rightarrow> string \<Rightarrow> broot \<Rightarrow> verr list \<times> broot" where
  "make_bucket h bad uid now name r =
     (if bad ''create objects dir'' (h name) then ([VIo ''create objects dir''], r)
      else
        (let r1 = (if ro_objs r = None then r\<lparr>ro_objs := Some []\<rparr> else r) in
         if bad ''create locks dir'' (h name) then ([VIo ''create locks dir''], r1)
         else
           (let r2 = (if ro_locks r1 = None then r1\<lparr>ro_locks := Some []\<rparr> else r1);
                (errs, r3) = write_bucket_name h bad uid now name r2 in
            if errs \<noteq> [] then (errs, r3)
            else (case ro_meta r3 of
                None \<Rightarrow>
                  if bad ''create meta dir'' (h name) then ([VIo ''create meta dir''], r3)
                  else ([], r3\<lparr>ro_meta := Some (MetaDirectory [])\<rparr>)
              | Some (MetaDirectory ms) \<Rightarrow>
                  ([if bad ''create meta dir'' (h name) then VIo ''create meta dir'' else VBucketExists], r3)
              | Some NotADir \<Rightarrow> ([VIo ''create meta dir''], r3)))))"

text \<open>The entry, the errors and the bucket after it; an existing bucket has both an entry and an error.\<close>

definition create_bucket ::
  "(string \<Rightarrow> string) \<Rightarrow> fault_at \<Rightarrow> string \<Rightarrow> int \<Rightarrow> string \<Rightarrow> broot \<Rightarrow>
     (string \<times> int) option \<times> verr list \<times> broot" where
  "create_bucket h bad uid now name r =
     (let unlock = (\<lambda>es. if bad ''release bucket lock'' (h name) then es @ [VIo ''release bucket lock''] else es) in
      if bad ''lock bucket'' (h name) then (None, [VIo ''lock bucket''], r)
      else
        (let (errs, r2) = make_bucket h bad uid now name r in
         if errs \<noteq> [] \<and> VBucketExists \<notin> set errs then (None, unlock errs, r2)
         else (case bucket_entry h bad (h name) r2 of
             Inl e \<Rightarrow> (None, unlock [e], r2)
           | Inr None \<Rightarrow> (None, unlock [VIo ''name record does not hold the name just written''], r2)
           | Inr (Some entry) \<Rightarrow> (Some entry, unlock errs, r2))))"

definition head_bucket ::
  "(string \<Rightarrow> string) \<Rightarrow> fault_at \<Rightarrow> string \<Rightarrow> broot \<Rightarrow> (verr, string \<times> int option) result" where
  "head_bucket h bad name r =
     (case ro_meta r of
        None \<Rightarrow> Inl VBucketNotFound
      | Some d \<Rightarrow>
          if bad ''stat meta dir'' (h name) then Inl (VIo ''stat meta dir'')
          else (case d of
              NotADir \<Rightarrow> Inl (VIo ''meta dir is not a directory'')
            | MetaDirectory _ \<Rightarrow>
                (case bucket_entry h bad (h name) r of
                   Inl e \<Rightarrow> Inl e
                 | Inr None \<Rightarrow> Inr (name, None)
                 | Inr (Some (n, t)) \<Rightarrow> Inr (name, Some t))))"

section \<open>What a metadata directory entry holds\<close>

text \<open>metaEntryKey: the hash, and whether the entry is a temp file; None for a foreign file.\<close>

definition meta_entry_key :: "string \<Rightarrow> (string \<times> bool) option" where
  "meta_entry_key f =
     (case cut_meta_ext f of
        Some name \<Rightarrow> Some (name, False)
      | None \<Rightarrow>
          (case index_of f meta_ext of
             None \<Rightarrow> None
           | Some i \<Rightarrow>
               if \<not> is_hash (take i f) then None
               else if is_uuid (drop (i + length meta_ext) f) then Some (take i f, True) else None))"

datatype estate = StateGone | StateObject | StateDebris

definition temp_state :: "fault_at \<Rightarrow> vbucket \<Rightarrow> string \<Rightarrow> (verr, estate \<times> obj_meta option) result" where
  "temp_state bad s f =
     (if bad ''stat temp meta file'' f then Inl (VIo ''stat temp meta file'')
      else if map_of (vb_meta s) f = None then Inr (StateGone, None)
      else Inr (StateDebris, None))"

definition entry_state ::
  "(string \<Rightarrow> string) \<Rightarrow> fault_at \<Rightarrow> vbucket \<Rightarrow> string \<Rightarrow> string \<Rightarrow> bool \<Rightarrow> (verr, estate \<times> obj_meta option) result" where
  "entry_state h bad s name f temp =
     (if temp then temp_state bad s f
      else (case read_meta h (bad ''read meta file'' f) s name of
          Inl VNotFound \<Rightarrow> Inr (StateGone, None)
        | Inl VCorrupt \<Rightarrow> Inr (StateDebris, None)
        | Inl e \<Rightarrow> Inl e
        | Inr m \<Rightarrow>
            if bad ''stat data file'' (mt_data_file m) then Inl (VIo ''stat data file'')
            else (case map_of (vb_objs s) (mt_data_file m) of
                Some (DataFile c t) \<Rightarrow> Inr (StateObject, Some m)
              | _ \<Rightarrow> Inr (StateDebris, Some m))))"

text \<open>unlockWith and releaseWith of the key's lock.\<close>

definition unlock_with :: "fault_at \<Rightarrow> string \<Rightarrow> verr list \<Rightarrow> verr list" where
  "unlock_with bad name errs = (if bad ''unlock object'' name then errs @ [VIo ''unlock object''] else errs)"

definition release_with :: "fault_at \<Rightarrow> string \<Rightarrow> verr list \<Rightarrow> verr list" where
  "release_with bad name errs = (if bad ''release lock'' name then errs @ [VIo ''release lock''] else errs)"

definition locked_state ::
  "(string \<Rightarrow> string) \<Rightarrow> fault_at \<Rightarrow> vbucket \<Rightarrow> string \<Rightarrow> string \<Rightarrow> bool \<Rightarrow> (verr list, estate) result" where
  "locked_state h bad s name f temp =
     (if bad ''lock object'' name then Inl [VIo ''lock object'']
      else (case entry_state h bad s name f temp of
          Inl e \<Rightarrow> Inl (unlock_with bad name [e])
        | Inr (st, _) \<Rightarrow> (case unlock_with bad name [] of [] \<Rightarrow> Inr st | es \<Rightarrow> Inl es)))"

section \<open>DeleteBucket\<close>

text \<open>The first loop of sweep: the debris among the entries, or the error that stops it.\<close>

fun find_debris ::
  "(string \<Rightarrow> string) \<Rightarrow> fault_at \<Rightarrow> (nat \<Rightarrow> vbucket \<Rightarrow> vbucket) \<Rightarrow> nat \<Rightarrow> vbucket \<Rightarrow> string list \<Rightarrow>
     (verr list, string list \<times> nat \<times> vbucket) result" where
  "find_debris h bad mw n s [] = Inr ([], n, s)"
| "find_debris h bad mw n s (f # fs) =
     (case meta_entry_key f of
        None \<Rightarrow> Inl [VIo ''meta dir holds a file this backend did not write'']
      | Some (name, temp) \<Rightarrow>
          (case locked_state h bad (mw n s) name f temp of
             Inl es \<Rightarrow> Inl es
           | Inr StateObject \<Rightarrow> Inl [VBucketNotEmpty]
           | Inr StateDebris \<Rightarrow> map_sum id (\<lambda>(ds, r). (f # ds, r)) (find_debris h bad mw (Suc n) (mw n s) fs)
           | Inr StateGone \<Rightarrow> find_debris h bad mw (Suc n) (mw n s) fs))"

text \<open>removeDebris: its errors and what it did to the bucket.\<close>

definition remove_debris ::
  "(string \<Rightarrow> string) \<Rightarrow> fault_at \<Rightarrow> vbucket \<Rightarrow> string \<Rightarrow> verr list \<times> fs_op list" where
  "remove_debris h bad s f =
     (let (name, temp) = the (meta_entry_key f) in
      if bad ''lock object'' name then ([VIo ''lock object''], [])
      else (case entry_state h bad s name f temp of
          Inl e \<Rightarrow> (unlock_with bad name [e], [])
        | Inr (st, m) \<Rightarrow>
            if st \<noteq> StateDebris then (unlock_with bad name [], [])
            else if bad ''remove meta file'' f then (release_with bad name [VIo ''remove meta file''], [])
            else (case m of
                None \<Rightarrow> (release_with bad name [], [DelMeta f])
              | Some m \<Rightarrow>
                  if bad ''remove data file'' (mt_data_file m)
                  then (release_with bad name [VIo ''remove data file''], [DelMeta f])
                  else (release_with bad name [], [DelMeta f, DelData (mt_data_file m)]))))"

text \<open>
  The second loop of sweep: the errors, the steps it took with the bucket each found, and the bucket
  it leaves.
\<close>

fun clear_debris ::
  "(string \<Rightarrow> string) \<Rightarrow> fault_at \<Rightarrow> (nat \<Rightarrow> vbucket \<Rightarrow> vbucket) \<Rightarrow> nat \<Rightarrow> vbucket \<Rightarrow> string list \<Rightarrow>
     verr list \<times> (vbucket \<times> fs_op list) list \<times> nat \<times> vbucket" where
  "clear_debris h bad mw n s [] = ([], [], n, s)"
| "clear_debris h bad mw n s (f # fs) =
     (let s1 = mw n s; (errs, ops) = remove_debris h bad s1 f; s2 = apply_ops ops s1 in
      if errs \<noteq> [] then (errs, [(s1, ops)], Suc n, s2)
      else (case clear_debris h bad mw (Suc n) s2 fs of (es, tr, r) \<Rightarrow> (es, (s1, ops) # tr, r)))"

definition sweep ::
  "(string \<Rightarrow> string) \<Rightarrow> fault_at \<Rightarrow> (nat \<Rightarrow> vbucket \<Rightarrow> vbucket) \<Rightarrow> vbucket \<Rightarrow>
     verr list \<times> (vbucket \<times> fs_op list) list \<times> nat \<times> vbucket" where
  "sweep h bad mw s =
     (if bad ''read meta dir'' [] then ([VIo ''read meta dir''], [], 0, s)
      else (case find_debris h bad mw 0 s (map fst (vb_meta s)) of
          Inl es \<Rightarrow> (es, [], 0, s)
        | Inr (debris, n, s2) \<Rightarrow> clear_debris h bad mw n s2 debris))"

section \<open>Leftovers\<close>

text \<open>
  withFreeLock: None when another holder has the lock file locked, else the lock files after it and
  whether removing the lock file and \<open>fn\<close> went well. \<open>held\<close> are the locked files.
\<close>

definition with_free_lock ::
  "fault_at \<Rightarrow> (string \<Rightarrow> bool) \<Rightarrow> string \<Rightarrow> string list \<Rightarrow> string list option" where
  "with_free_lock bad held name locks =
     (if name \<notin> set locks then Some locks
      else if bad ''open lock file'' name \<or> held name then None
      else Some (if bad ''remove lock file'' name then locks else filter (\<lambda>l. l \<noteq> name) locks))"

text \<open>removeDataFiles over the entries of the objects directory: what is left of it and of the locks.\<close>

fun remove_data_files ::
  "fault_at \<Rightarrow> (string \<Rightarrow> bool) \<Rightarrow> (string \<times> dfile) list \<Rightarrow> string list \<Rightarrow> (string \<times> dfile) list \<times> string list" where
  "remove_data_files bad held [] locks = ([], locks)"
| "remove_data_files bad held ((f, d) # fs) locks =
     (case (case cut CHR ''_'' f of Some (name, _) \<Rightarrow> if is_hash name then Some name else None | None \<Rightarrow> None) of
        None \<Rightarrow> (case remove_data_files bad held fs locks of (os, ls) \<Rightarrow> ((f, d) # os, ls))
      | Some name \<Rightarrow>
          (case with_free_lock bad held name locks of
             None \<Rightarrow> (case remove_data_files bad held fs locks of (os, ls) \<Rightarrow> ((f, d) # os, ls))
           | Some locks2 \<Rightarrow>
               (case remove_data_files bad held fs locks2 of
                  (os, ls) \<Rightarrow> (if bad ''remove data file'' f then ((f, d) # os, ls) else (os, ls)))))"

fun remove_lock_files :: "fault_at \<Rightarrow> (string \<Rightarrow> bool) \<Rightarrow> string list \<Rightarrow> string list \<Rightarrow> string list" where
  "remove_lock_files bad held [] locks = locks"
| "remove_lock_files bad held (f # fs) locks =
     (case with_free_lock bad held f locks of
        None \<Rightarrow> remove_lock_files bad held fs locks
      | Some locks2 \<Rightarrow> remove_lock_files bad held fs locks2)"

definition remove_leftovers ::
  "fault_at \<Rightarrow> (string \<Rightarrow> bool) \<Rightarrow> (string \<times> dfile) list \<Rightarrow> string list \<Rightarrow>
     (string \<times> dfile) list option \<times> string list option" where
  "remove_leftovers bad held os ls =
     (if bad ''open locks dir'' [] then (Some os, Some ls)
      else
        (let (os2, ls2) =
               (if bad ''read objects dir'' [] then (os, ls) else remove_data_files bad held os ls);
             objs = (if bad ''read objects dir'' [] \<or> os2 \<noteq> [] \<or> bad ''remove objects dir'' [] then Some os2 else None)
         in
         if bad ''read locks dir'' [] then (objs, Some ls2)
         else
           (let ls3 = remove_lock_files bad held ls2 ls2
            in (objs, if ls3 \<noteq> [] \<or> bad ''remove locks dir'' [] then Some ls3 else None))))"

section \<open>The delete as a whole\<close>

text \<open>
  \<open>do_trace\<close> are the steps of the sweep, \<open>do_commit\<close> the bucket whose metadata directory was removed.
  \<open>locks\<close> are the lock files there at the end and \<open>held\<close> those other holders have locked.
\<close>

record delete_out =
  do_errs :: "verr list"
  do_trace :: "(vbucket \<times> fs_op list) list"
  do_commit :: "vbucket option"
  do_root :: broot

definition delete_bucket ::
  "(string \<Rightarrow> string) \<Rightarrow> fault_at \<Rightarrow> (nat \<Rightarrow> vbucket \<Rightarrow> vbucket) \<Rightarrow> (string \<Rightarrow> bool) \<Rightarrow> string list \<Rightarrow>
     string \<Rightarrow> broot \<Rightarrow> delete_out" where
  "delete_bucket h bad mw held locks name r =
     (let unlock = (\<lambda>es. if bad ''release bucket lock'' (h name) then es @ [VIo ''release bucket lock''] else es);
          fail_with = (\<lambda>es tr r2. \<lparr>do_errs = unlock es, do_trace = tr, do_commit = None, do_root = r2\<rparr>)
      in
      if bad ''lock bucket'' (h name)
      then \<lparr>do_errs = [VIo ''lock bucket''], do_trace = [], do_commit = None, do_root = r\<rparr>
      else (case open_dirs r of
          Inl e \<Rightarrow> fail_with [e] [] r
        | Inr s \<Rightarrow>
            (case sweep h bad mw s of
               (errs, tr, n, s1) \<Rightarrow>
                 (let s2 = mw n s1;
                      r2 = r\<lparr>ro_meta := Some (MetaDirectory (vb_meta s2)), ro_objs := Some (vb_objs s2),
                             ro_locks := Some locks\<rparr>
                  in
                  if errs \<noteq> []
                  then fail_with (if bad ''close bucket'' (h name) then errs @ [VIo ''close bucket''] else errs) tr r2
                  else if bad ''close bucket'' (h name) then fail_with [VIo ''close bucket''] tr r2
                  else if vb_meta s2 \<noteq> [] then fail_with [VBucketNotEmpty] tr r2
                  else if bad ''remove meta dir'' (h name) then fail_with [VIo ''remove meta dir''] tr r2
                  else
                    (let r3 = r2\<lparr>ro_meta := None\<rparr> in
                     if bad ''remove bucket name record'' (h name)
                     then \<lparr>do_errs = unlock [VIo ''bucket deleted, name record left''], do_trace = tr,
                           do_commit = Some s2, do_root = r3\<rparr>
                     else
                       (let (os, ls) = remove_leftovers bad held (vb_objs s2) locks in
                        \<lparr>do_errs = unlock [], do_trace = tr, do_commit = Some s2,
                         do_root = r3\<lparr>ro_name := None, ro_objs := os, ro_locks := ls\<rparr>\<rparr>))))))"

section \<open>ListBuckets\<close>

text \<open>The buckets of the root by hash; directories of other names are passed over.\<close>

fun list_entries ::
  "(string \<Rightarrow> string) \<Rightarrow> fault_at \<Rightarrow> (string \<times> broot) list \<Rightarrow> (verr, (string \<times> int) list \<times> string list) result" where
  "list_entries h bad [] = Inr ([], [])"
| "list_entries h bad ((hh, r) # rs) =
     (if (case ro_meta r of Some (MetaDirectory _) \<Rightarrow> \<not> is_hash hh | _ \<Rightarrow> True) then list_entries h bad rs
      else (case bucket_entry h bad hh r of
          Inl e \<Rightarrow> Inl e
        | Inr None \<Rightarrow> map_sum id (\<lambda>(es, sk). (es, hh # sk)) (list_entries h bad rs)
        | Inr (Some b) \<Rightarrow> map_sum id (\<lambda>(es, sk). (b # es, sk)) (list_entries h bad rs)))"

record buckets_output =
  bo_buckets :: "(string \<times> int) list"
  bo_skipped :: nat
  bo_next :: string

definition list_buckets ::
  "(string \<Rightarrow> string) \<Rightarrow> fault_at \<Rightarrow> (string \<times> broot) list \<Rightarrow> int option \<Rightarrow> string option \<Rightarrow> string option \<Rightarrow>
     (perr, buckets_output) result" where
  "list_buckets h bad rs max_buckets token prefix =
     (case validate_list_buckets max_buckets token of
        Inl e \<Rightarrow> Inl (PInput e)
      | Inr n \<Rightarrow>
          (case decode_token token of
             Inl e \<Rightarrow> Inl (PInput e)
           | Inr after \<Rightarrow>
               (if bad ''read root dir'' [] then Inl (op_error None [VIo ''read root dir''])
                else (case list_entries h bad rs of
                    Inl e \<Rightarrow> Inl (op_error None [e])
                  | Inr (es, skipped) \<Rightarrow>
                      (let kept = filter (\<lambda>e. has_prefix (fst e) (value_of prefix)) es;
                           (pg, truncated) = page (map fst kept) after (nat n)
                       in Inr \<lparr>bo_buckets = map (\<lambda>name. (name, the (map_of (rev kept) name))) pg,
                               bo_skipped = length skipped,
                               bo_next = (if truncated then encode_token (last pg) else [])\<rparr>)))))"

section \<open>The provider's calls\<close>

definition provider_create_bucket ::
  "(string \<Rightarrow> string) \<Rightarrow> fault_at \<Rightarrow> string \<Rightarrow> int \<Rightarrow> string \<Rightarrow> broot \<Rightarrow> (perr, string \<times> int) result \<times> broot" where
  "provider_create_bucket h bad uid now name r =
     (if \<not> is_valid_bucket_name name then (Inl (PInput ErrInvalidBucket), r)
      else (case create_bucket h bad uid now name r of
          (entry, errs, r2) \<Rightarrow>
            (if errs \<noteq> [] \<and> VBucketExists \<notin> set errs then Inl (op_error None errs)
             else Inr (name, case entry of Some (_, t) \<Rightarrow> t | None \<Rightarrow> 0), r2)))"

definition provider_head_bucket ::
  "(string \<Rightarrow> string) \<Rightarrow> fault_at \<Rightarrow> string \<Rightarrow> broot \<Rightarrow> (perr, string \<times> int option) result" where
  "provider_head_bucket h bad name r =
     (if \<not> is_valid_bucket_name name then Inl (PInput ErrInvalidBucket)
      else (case head_bucket h bad name r of Inl e \<Rightarrow> Inl (op_error None [e]) | Inr e \<Rightarrow> Inr e))"

definition provider_delete_bucket ::
  "(string \<Rightarrow> string) \<Rightarrow> fault_at \<Rightarrow> (nat \<Rightarrow> vbucket \<Rightarrow> vbucket) \<Rightarrow> (string \<Rightarrow> bool) \<Rightarrow> string list \<Rightarrow>
     string \<Rightarrow> broot \<Rightarrow> perr option \<times> broot" where
  "provider_delete_bucket h bad mw held locks name r =
     (if \<not> is_valid_bucket_name name then (Some (PInput ErrInvalidBucket), r)
      else (let out = delete_bucket h bad mw held locks name r
            in (if do_errs out = [] then None else Some (op_error None (do_errs out)), do_root out)))"

end
