(* ===== verification/Storage_Buckets_Properties.thy ===== *)
theory Storage_Buckets_Properties
  imports Storage_Buckets Storage_Listing_Properties
begin

text \<open>
  What the bucket calls promise: DeleteBucket never costs an object, whatever fails and whatever
  writes land in between, and the life of a bucket from CreateBucket to DeleteBucket.
\<close>

section \<open>Metadata directory entries\<close>

lemma index_of_split: "index_of s p = Some i \<Longrightarrow> s = take i s @ p @ drop (i + length p) s"
proof (induction s arbitrary: i)
  case (Cons c s)
  show ?case
  proof (cases "has_prefix (c # s) p")
    case True
    with Cons.prems have "i = 0" by simp
    moreover from True obtain t where "c # s = p @ t" by (auto simp: has_prefix_iff)
    ultimately show ?thesis by simp
  next
    case False
    with Cons.prems obtain j where j: "index_of s p = Some j" "i = Suc j" by auto
    with Cons.IH [OF j(1)] show ?thesis by simp
  qed
qed (simp split: if_splits)

lemma meta_entry_key_cases:
  assumes "meta_entry_key f = Some (name, temp)"
  shows "is_hash name \<and> (if temp then \<exists>u. f = tmp_meta_name name u \<and> is_uuid u else f = name @ meta_ext)"
proof (cases "cut_meta_ext f")
  case None
  with assms obtain i where i: "index_of f meta_ext = Some i" "is_hash (take i f)" "name = take i f" "temp"
      "is_uuid (drop (i + length meta_ext) f)"
    by (auto simp: meta_entry_key_def split: option.splits if_splits)
  from index_of_split [OF i(1)] have "f = tmp_meta_name name (drop (i + length meta_ext) f)"
    unfolding i(3) tmp_meta_name_def .
  with i show ?thesis by auto
next
  case (Some nm)
  with assms show ?thesis by (auto simp: meta_entry_key_def cut_meta_name)
qed

section \<open>Debris\<close>

lemma read_meta_bad: "read_meta h b s name = Inl VCorrupt \<Longrightarrow> read_meta h False s name = Inl VCorrupt"
  "read_meta h b s name = Inr m \<Longrightarrow> read_meta h False s name = Inr m"
  by (auto simp: read_meta_def split: option.splits mfile.splits if_splits)

lemma entry_debris:
  assumes "entry_state h bad s name f False = Inr (StateDebris, m)"
  shows "object_at h s name = None"
    and "m = Some m' \<Longrightarrow> data_ref h s name = Some (mt_data_file m')"
  using assms read_meta_bad [of h "bad ''read meta file'' f" s name]
  by (auto simp: entry_state_def object_at_def data_ref_def split: sum.splits verr.splits option.splits
      dfile.splits if_splits)

lemma entry_object:
  assumes "object_at h s name \<noteq> None"
  shows "entry_state h bad s name f False = Inr e \<Longrightarrow> fst e = StateObject"
  using assms read_meta_bad [of h "bad ''read meta file'' f" s name]
  by (auto simp: entry_state_def object_at_def read_meta_def split: sum.splits verr.splits option.splits
      dfile.splits mfile.splits if_splits)

lemma temp_debris: "entry_state h bad s name f True = Inr (st, m) \<Longrightarrow> m = None"
  by (auto simp: entry_state_def temp_state_def split: if_splits)

lemma remove_debris_ops:
  assumes "meta_entry_key f = Some (name, temp)" and "remove_debris h bad s f = (errs, ops)" and "ops \<noteq> []"
  obtains m where "entry_state h bad s name f temp = Inr (StateDebris, m)"
    "ops = [DelMeta f] \<or> (\<exists>m'. m = Some m' \<and> ops = [DelMeta f, DelData (mt_data_file m')])"
  using assms by (auto simp: remove_debris_def Let_def split: sum.splits option.splits if_splits prod.splits)

text \<open>Removing debris leaves every object as it was, at every point.\<close>

lemma remove_debris_keeps:
  assumes key: "meta_entry_key f = Some (name, temp)" and run: "remove_debris h bad s f = (errs, ops)"
    and nm: "is_hash nm"
  shows "object_at h (apply_ops (take n ops) s) nm = object_at h s nm"
proof (cases "take n ops = []")
  case False
  then have "ops \<noteq> []" by auto
  with remove_debris_ops [OF key run] obtain m where
    m: "entry_state h bad s name f temp = Inr (StateDebris, m)"
      "ops = [DelMeta f] \<or> (\<exists>m'. m = Some m' \<and> ops = [DelMeta f, DelData (mt_data_file m')])"
    by metis
  note f = meta_entry_key_cases [OF key]
  show ?thesis
  proof (cases "\<not> temp \<and> nm = name")
    case True
    then have gone: "object_at h s nm = None" using entry_debris(1) m(1) by auto
    have "map_of (vb_meta (apply_ops (take n ops) s)) (nm @ meta_ext) = None"
      using m(2) f True False by (cases n; cases "n - 1") (auto simp: delete_conv')
    then have "object_at h (apply_ops (take n ops) s) nm = None"
      by (simp add: object_at_def read_meta_def)
    with gone show ?thesis by simp
  next
    case other: False
    have ne: "f \<noteq> nm @ meta_ext"
      using f nm other tmp_not_meta [of name nm] by (metis append_same_eq)
    have "data_ref h s nm \<noteq> Some (mt_data_file m')" if "m = Some m'" for m'
    proof -
      have "\<not> temp" using temp_debris [of h bad s name f] m(1) that by (cases temp) fastforce+
      then have "data_ref h s name = Some (mt_data_file m')" "nm \<noteq> name"
        using entry_debris(2) m(1) that other by auto
      from data_files_differ [OF _ nm this(2) data_ref_name [OF this(1)]] f show ?thesis
        using data_ref_name [of h s nm] by blast
    qed
    with ne m(2) have "\<forall>op\<in>set (take n ops). avoids h s nm op"
      by (auto dest!: in_set_takeD)
    from avoids_all [OF this] show ?thesis by simp
  qed
qed auto

section \<open>The sweep\<close>

lemma find_debris_keys:
  "find_debris h bad mw n s fs = Inr (ds, n2, s2) \<Longrightarrow> \<forall>f\<in>set ds. meta_entry_key f \<noteq> None"
proof (induction fs arbitrary: n s ds)
  case (Cons f fs)
  then show ?case
    by (cases "find_debris h bad mw (Suc n) (mw n s) fs")
      (fastforce split: option.splits sum.splits estate.splits)+
qed simp

lemma clear_debris_keeps:
  assumes "clear_debris h bad mw n s ds = (errs, tr, r)" and "\<forall>f\<in>set ds. meta_entry_key f \<noteq> None"
    and "(s', ops) \<in> set tr" and "is_hash nm"
  shows "object_at h (apply_ops (take m ops) s') nm = object_at h s' nm"
  using assms
proof (induction ds arbitrary: n s errs tr r)
  case (Cons f ds)
  obtain es os where one: "remove_debris h bad (mw n s) f = (es, os)" by fastforce
  obtain es2 tr2 r2 where more: "clear_debris h bad mw (Suc n) (apply_ops os (mw n s)) ds = (es2, tr2, r2)"
    by (metis prod_cases3)
  have "(s', ops) = (mw n s, os) \<or> (s', ops) \<in> set tr2"
    using Cons.prems(1,3) one more by (auto simp: Let_def split: if_splits)
  then show ?case
  proof
    assume "(s', ops) = (mw n s, os)"
    moreover obtain name temp where "meta_entry_key f = Some (name, temp)" using Cons.prems(2) by auto
    ultimately show ?thesis using remove_debris_keeps [OF _ one Cons.prems(4)] by simp
  next
    assume "(s', ops) \<in> set tr2"
    with Cons.IH [OF more] Cons.prems show ?thesis by simp
  qed
qed simp

lemma sweep_keeps:
  assumes "sweep h bad mw s = (errs, tr, r)" and "(s', ops) \<in> set tr" and "is_hash nm"
  shows "object_at h (apply_ops (take m ops) s') nm = object_at h s' nm"
  using assms clear_debris_keeps [OF _ find_debris_keys]
  by (auto simp: sweep_def split: if_splits sum.splits prod.splits)

text \<open>An object that is there all along stops the sweep before it removes anything.\<close>

lemma find_debris_object:
  assumes "name @ meta_ext \<in> set fs" and "is_hash name" and "object_at h s name \<noteq> None"
    and "\<forall>n s. object_at h s name \<noteq> None \<longrightarrow> object_at h (mw n s) name \<noteq> None"
  shows "\<exists>es. find_debris h bad mw n s fs = Inl es \<and> es \<noteq> []"
  using assms(1,3)
proof (induction fs arbitrary: n s)
  case (Cons f fs)
  have here: "object_at h (mw n s) name \<noteq> None" using Cons.prems(2) assms(4) by blast
  show ?case
  proof (cases "meta_entry_key f")
    case (Some nt)
    obtain nm temp where nt: "nt = (nm, temp)" by fastforce
    show ?thesis
    proof (cases "locked_state h bad (mw n s) nm f temp")
      case (Inl es)
      then have "es \<noteq> []"
        by (auto simp: locked_state_def unlock_with_def split: if_splits sum.splits list.splits)
      with Inl Some nt show ?thesis by simp
    next
      case (Inr st)
      show ?thesis
      proof (cases "f = name @ meta_ext")
        case True
        have "cut_meta_ext f = Some name" using True assms(2) by (simp add: cut_meta_name)
        with Some nt have "nm = name" "\<not> temp" by (simp_all add: meta_entry_key_def)
        with Inr entry_object [OF here] have "st = StateObject"
          by (auto simp: locked_state_def unlock_with_def split: if_splits sum.splits list.splits)
        with Inr Some nt show ?thesis by simp
      next
        case False
        with Cons.prems have "name @ meta_ext \<in> set fs" by simp
        from Cons.IH [OF this here, of "Suc n"] obtain es where
          "find_debris h bad mw (Suc n) (mw n s) fs = Inl es" "es \<noteq> []"
          by blast
        with Inr Some nt show ?thesis by (cases st) simp_all
      qed
    qed
  qed simp
qed simp

lemma sweep_object:
  assumes "stored_object h s k \<noteq> None" and "is_hash (h k)"
    and "\<forall>n s. stored_object h s k \<noteq> None \<longrightarrow> stored_object h (mw n s) k \<noteq> None"
  shows "\<exists>errs n s2. sweep h bad mw s = (errs, [], n, s2) \<and> errs \<noteq> []"
proof -
  have "h k @ meta_ext \<in> set (map fst (vb_meta s))"
    using object_at_file [of h s "h k"] assms(1) by (auto simp: stored_object_at)
  from find_debris_object [OF this assms(2), of h s mw bad 0] assms show ?thesis
    by (auto simp: sweep_def stored_object_at split: if_splits)
qed

section \<open>DeleteBucket is safe\<close>

text \<open>The operations that come in between leave the object of key \<open>k\<close> there.\<close>

definition lasting :: "(string \<Rightarrow> string) \<Rightarrow> (nat \<Rightarrow> vbucket \<Rightarrow> vbucket) \<Rightarrow> string \<Rightarrow> bool" where
  "lasting h mw k \<longleftrightarrow> (\<forall>n s. stored_object h s k \<noteq> None \<longrightarrow> stored_object h (mw n s) k \<noteq> None)"

lemma delete_bucket_cases:
  assumes out: "out = delete_bucket h bad mw held locks name r"
  obtains (early) "do_trace out = []" "do_commit out = None" "do_errs out \<noteq> []" "do_root out = r"
  | (swept) s errs tr n s1 where "open_dirs r = Inr s" "sweep h bad mw s = (errs, tr, n, s1)"
      "do_trace out = tr" "do_commit out = None" "do_errs out \<noteq> []"
      "ro_meta (do_root out) = Some (MetaDirectory (vb_meta (mw n s1)))"
      "ro_objs (do_root out) = Some (vb_objs (mw n s1))" "ro_name (do_root out) = ro_name r"
  | (committed) s tr n s1 where "open_dirs r = Inr s" "sweep h bad mw s = ([], tr, n, s1)"
      "do_trace out = tr" "do_commit out = Some (mw n s1)" "vb_meta (mw n s1) = []"
      "ro_meta (do_root out) = None"
proof -
  obtain s errs tr n s1 where x: "open_dirs r = Inr s \<Longrightarrow> sweep h bad mw s = (errs, tr, n, s1)"
    "open_dirs r = Inr s \<or> (\<exists>e. open_dirs r = Inl e)"
    by (metis prod_cases4 sum.exhaust)
  show thesis
  proof (cases "bad ''lock bucket'' (h name) \<or> (\<exists>e. open_dirs r = Inl e)")
    case True
    then show ?thesis by (intro early) (auto simp: out delete_bucket_def Let_def)
  next
    case False
    with x have o1: "open_dirs r = Inr s" "sweep h bad mw s = (errs, tr, n, s1)" "\<not> bad ''lock bucket'' (h name)"
      by auto
    show ?thesis
    proof (cases "errs = [] \<and> \<not> bad ''close bucket'' (h name) \<and> vb_meta (mw n s1) = [] \<and>
        \<not> bad ''remove meta dir'' (h name)")
      case True
      with o1 show ?thesis
        by (intro committed [of s tr n s1]) (auto simp: out delete_bucket_def Let_def split: prod.splits)
    next
      case False
      with o1 show ?thesis
        by (intro swept [of s errs tr n s1]) (auto simp: out delete_bucket_def Let_def)
    qed
  qed
qed

lemma no_meta_no_object: "vb_meta s = [] \<Longrightarrow> stored_object h s k = None"
  by (simp add: stored_object_at object_at_def read_meta_def)

text \<open>C40: DeleteBucket never costs an object. Whatever calls fail and whatever object operations
come between its steps, every file it removes before the commit leaves every object of the bucket
readable as it was, also when it crashes half way; the commit happens only while the metadata
directory is empty, so no object is in it; without an error it committed; and an object that is
there from start to end stops it before it has removed anything, with an error.\<close>

theorem delete_bucket_safe:
  assumes hash: "\<forall>k. is_hash (h k)"
  shows "(\<forall>(s, ops)\<in>set (do_trace (delete_bucket h bad mw held locks name r)).
            \<forall>n k. stored_object h (apply_ops (take n ops) s) k = stored_object h s k) \<and>
         (case do_commit (delete_bucket h bad mw held locks name r) of
            Some s \<Rightarrow> \<forall>k. stored_object h s k = None
          | None \<Rightarrow> do_errs (delete_bucket h bad mw held locks name r) \<noteq> []) \<and>
         (\<forall>s k. open_dirs r = Inr s \<and> stored_object h s k \<noteq> None \<and> lasting h mw k \<longrightarrow>
            do_trace (delete_bucket h bad mw held locks name r) = [] \<and>
            do_commit (delete_bucket h bad mw held locks name r) = None \<and>
            do_errs (delete_bucket h bad mw held locks name r) \<noteq> [])"
proof (cases rule: delete_bucket_cases [OF refl, of h bad mw held locks name r, case_names early swept committed])
  case early
  then show ?thesis by simp
next
  case (swept s errs tr n s1)
  have "stored_object h (apply_ops (take n ops) s') k = stored_object h s' k" if "(s', ops) \<in> set tr" for s' ops n k
    using sweep_keeps [OF swept(2) that] hash by (simp add: stored_object_at)
  moreover have "tr = []" if "stored_object h s k \<noteq> None" "lasting h mw k" for k
    using sweep_object [OF that(1) _ that(2) [unfolded lasting_def], of bad] hash swept(2) by auto
  ultimately show ?thesis unfolding swept(3,4) using swept(1,5) by fastforce
next
  case (committed s tr n s1)
  have "stored_object h (apply_ops (take n ops) s') k = stored_object h s' k" if "(s', ops) \<in> set tr" for s' ops n k
    using sweep_keeps [OF committed(2) that] hash by (simp add: stored_object_at)
  moreover have False if "stored_object h s k \<noteq> None" "lasting h mw k" for k
    using sweep_object [OF that(1) _ that(2) [unfolded lasting_def], of bad] hash committed(2) by auto
  ultimately show ?thesis
    unfolding committed(3,4) using committed(1) no_meta_no_object [OF committed(5)] by fastforce
qed


section \<open>DeleteBucket without faults\<close>

abbreviation sound :: fault_at where "sound \<equiv> \<lambda>_ _. False"
abbreviation alone :: "nat \<Rightarrow> vbucket \<Rightarrow> vbucket" where "alone \<equiv> \<lambda>_ s. s"

definition no_objects :: "(string \<Rightarrow> string) \<Rightarrow> vbucket \<Rightarrow> bool" where
  "no_objects h s \<longleftrightarrow> (\<forall>k. stored_object h s k = None)"

lemma no_objects_at: "no_objects h s \<Longrightarrow> object_at h s name = None"
  using object_at_key [of h s name] by (cases "object_at h s name") (auto simp: no_objects_def stored_object_at)

lemma no_objects_entry:
  assumes "no_objects h s" and "meta_entry_key f = Some (name, temp)"
  shows "\<exists>m. entry_state h sound s name f temp =
    Inr (if map_of (vb_meta s) f = None then StateGone else StateDebris, m)"
proof (cases temp)
  case True
  then show ?thesis by (simp add: entry_state_def temp_state_def)
next
  case False
  with meta_entry_key_cases [OF assms(2)] have f: "f = name @ meta_ext" by simp
  show ?thesis
    using no_objects_at [OF assms(1), of name] False f
    by (auto simp: entry_state_def object_at_def read_meta_def split: option.splits mfile.splits dfile.splits)
qed

lemma find_all_debris:
  assumes "no_objects h s" and "\<forall>f\<in>set fs. map_of (vb_meta s) f \<noteq> None \<and> meta_entry_key f \<noteq> None"
  shows "\<exists>n2. find_debris h sound alone n s fs = Inr (fs, n2, s)"
  using assms(2)
proof (induction fs arbitrary: n)
  case (Cons f fs)
  from Cons.prems obtain name temp where k: "meta_entry_key f = Some (name, temp)" by auto
  with no_objects_entry [OF assms(1) k] Cons.prems have "locked_state h sound s name f temp = Inr StateDebris"
    by (auto simp: locked_state_def unlock_with_def)
  with k Cons.IH [of "Suc n"] Cons.prems show ?case by auto
qed simp

lemma find_debris_foreign:
  assumes "f \<in> set fs" and "meta_entry_key f = None"
  shows "\<exists>es. find_debris h sound alone n s fs = Inl es \<and> es \<noteq> []"
  using assms(1)
proof (induction fs arbitrary: n)
  case (Cons g fs)
  show ?case
  proof (cases "g = f")
    case False
    with Cons.prems Cons.IH [of "Suc n"] obtain es where
      es: "find_debris h sound alone (Suc n) s fs = Inl es" "es \<noteq> []" by auto
    have "locked_state h sound s name g temp = Inl es2 \<Longrightarrow> es2 \<noteq> []" for name temp es2
      by (auto simp: locked_state_def unlock_with_def split: sum.splits)
    with es show ?thesis by (auto split: option.splits sum.splits estate.splits)
  qed (simp add: assms(2))
qed simp

lemma remove_debris_clears:
  assumes "no_objects h s" and "meta_entry_key f \<noteq> None"
  shows "\<exists>ops. remove_debris h sound s f = ([], ops) \<and>
    vb_meta (apply_ops ops s) = AList.delete f (vb_meta s)"
proof -
  from assms(2) obtain name temp where k: "meta_entry_key f = Some (name, temp)" by auto
  from no_objects_entry [OF assms(1) k] obtain m where
    m: "entry_state h sound s name f temp = Inr (if map_of (vb_meta s) f = None then StateGone else StateDebris, m)"
    by blast
  have "map_of (vb_meta s) f = None \<Longrightarrow> AList.delete f (vb_meta s) = vb_meta s"
    by (rule delete_id) (simp add: map_of_eq_None_iff)
  then show ?thesis
    using m by (auto simp: remove_debris_def k unlock_with_def release_with_def split: option.splits)
qed

lemma clear_all_debris:
  assumes hash: "\<forall>k. is_hash (h k)" and "no_objects h s" and "\<forall>f\<in>set ds. meta_entry_key f \<noteq> None"
  shows "\<exists>tr n2 s2. clear_debris h sound alone n s ds = ([], tr, n2, s2) \<and> no_objects h s2 \<and>
    vb_meta s2 = filter (\<lambda>e. fst e \<notin> set ds) (vb_meta s)"
  using assms(2,3)
proof (induction ds arbitrary: n s)
  case (Cons f ds)
  from Cons.prems remove_debris_clears [of h s f] obtain ops where
    r: "remove_debris h sound s f = ([], ops)" "vb_meta (apply_ops ops s) = AList.delete f (vb_meta s)"
    by auto
  obtain name temp where k: "meta_entry_key f = Some (name, temp)" using Cons.prems by auto
  have "no_objects h (apply_ops ops s)"
    using remove_debris_keeps [OF k r(1), of "h x" "length ops" for x] hash Cons.prems(1)
    by (simp add: no_objects_def stored_object_at)
  with Cons.IH [of "apply_ops ops s" "Suc n"] Cons.prems(2) obtain tr n2 s2 where
    "clear_debris h sound alone (Suc n) (apply_ops ops s) ds = ([], tr, n2, s2)" "no_objects h s2"
    "vb_meta s2 = filter (\<lambda>e. fst e \<notin> set ds) (AList.delete f (vb_meta s))"
    using r(2) by auto
  with r(1) show ?case by (auto simp: AList.delete_eq intro!: filter_cong)
qed simp

text \<open>Alone and without faults, DeleteBucket deletes exactly the buckets that hold no object and
no foreign file. It then leaves neither a metadata directory nor a name record, whatever metadata
no read can use and temp files were there; otherwise it returns an error and changes nothing of the
objects.\<close>

theorem delete_bucket_exact:
  assumes hash: "\<forall>k. is_hash (h k)" and dirs: "open_dirs r = Inr s"
  shows "(let out = delete_bucket h sound alone held locks name r in
    if (\<forall>k. stored_object h s k = None) \<and> (\<forall>f\<in>set (map fst (vb_meta s)). meta_entry_key f \<noteq> None)
    then do_errs out = [] \<and> ro_meta (do_root out) = None \<and> ro_name (do_root out) = None
    else do_errs out \<noteq> [] \<and> open_dirs (do_root out) = Inr s \<and> ro_name (do_root out) = ro_name r)"
proof (cases "no_objects h s \<and> (\<forall>f\<in>set (map fst (vb_meta s)). meta_entry_key f \<noteq> None)")
  case True
  have "\<forall>f\<in>set (map fst (vb_meta s)). map_of (vb_meta s) f \<noteq> None \<and> meta_entry_key f \<noteq> None"
    using True by (auto simp: map_of_eq_None_iff)
  from find_all_debris [OF _ this, of h 0] True obtain n2 where
    "find_debris h sound alone 0 s (map fst (vb_meta s)) = Inr (map fst (vb_meta s), n2, s)" by blast
  moreover from clear_all_debris [OF hash, of s "map fst (vb_meta s)" n2] True obtain tr n3 s2 where
    "clear_debris h sound alone n2 s (map fst (vb_meta s)) = ([], tr, n3, s2)"
    "vb_meta s2 = filter (\<lambda>e. fst e \<notin> set (map fst (vb_meta s))) (vb_meta s)" by blast
  moreover from this have "vb_meta s2 = []" by (simp add: filter_empty_conv)
  ultimately show ?thesis
    using True dirs by (simp add: delete_bucket_def sweep_def Let_def no_objects_def split: prod.splits)
next
  case False
  have "\<exists>es. find_debris h sound alone 0 s (map fst (vb_meta s)) = Inl es \<and> es \<noteq> []"
  proof (cases "no_objects h s")
    case True
    with False find_debris_foreign show ?thesis by blast
  next
    case False
    then obtain k where "object_at h s (h k) \<noteq> None" by (auto simp: no_objects_def stored_object_at)
    then show ?thesis
      using object_at_file [of h s "h k"] hash by (intro find_debris_object [of "h k"]) auto
  qed
  then obtain es where "find_debris h sound alone 0 s (map fst (vb_meta s)) = Inl es" "es \<noteq> []" by blast
  moreover have "ro_meta r = Some (MetaDirectory (vb_meta s))" "ro_objs r = Some (vb_objs s)"
    using dirs by (auto simp: open_dirs_def split: option.splits dir_entry.splits if_splits)
  ultimately show ?thesis
    using False dirs by (auto simp: delete_bucket_def sweep_def Let_def no_objects_def open_dirs_def)
qed


section \<open>The life of a bucket\<close>

lemma create_bucket_fresh:
  assumes "ro_meta r = None" and "ro_name r \<noteq> Some NotARecord"
  shows "\<exists>t. (t = now \<or> ro_name r = Some (NameRecord name t)) \<and> (ro_name r = None \<longrightarrow> t = now) \<and>
    create_bucket h sound uid now name r =
      (Some (name, t), [],
       r\<lparr>ro_meta := Some (MetaDirectory []), ro_objs := Some (case ro_objs r of None \<Rightarrow> [] | Some os \<Rightarrow> os),
         ro_locks := Some (case ro_locks r of None \<Rightarrow> [] | Some ls \<Rightarrow> ls), ro_name := Some (NameRecord name t)\<rparr>)"
  using assms
  by (cases r; cases "ro_name r")
    (auto simp: create_bucket_def make_bucket_def write_bucket_name_def bucket_entry_def Let_def
      split: name_rec.splits option.splits)

lemma create_bucket_again:
  assumes "ro_meta r = Some (MetaDirectory ms)" and "ro_objs r = Some os" and "ro_locks r = Some ls"
    and "ro_name r = Some (NameRecord name t)"
  shows "create_bucket h sound uid now name r = (Some (name, t), [VBucketExists], r)"
  using assms by (simp add: create_bucket_def make_bucket_def write_bucket_name_def bucket_entry_def Let_def)

lemma empty_bucket_empty: "vb_meta s = [] \<Longrightarrow> no_objects h s"
  by (simp add: no_objects_def no_meta_no_object)

text \<open>The life of a bucket. CreateBucket of a bucket that does not exist makes an empty bucket,
dated now or by a name record a crash left; HeadBucket shows that date; CreateBucket again keeps the
bucket and the date and reports that it exists; DeleteBucket removes it, after which it is not found,
and a new CreateBucket dates it anew.\<close>

theorem bucket_lifecycle:
  assumes hash: "\<forall>k. is_hash (h k)" and fresh: "ro_meta r = None" "ro_name r \<noteq> Some NotARecord"
  shows "\<exists>t r2. create_bucket h sound uid now name r = (Some (name, t), [], r2) \<and>
    (t = now \<or> ro_name r = Some (NameRecord name t)) \<and>
    (\<exists>s. open_dirs r2 = Inr s \<and> (\<forall>k. stored_object h s k = None)) \<and>
    head_bucket h sound name r2 = Inr (name, Some t) \<and>
    create_bucket h sound uid2 now2 name r2 = (Some (name, t), [VBucketExists], r2) \<and>
    (let out = delete_bucket h sound alone held locks name r2 in
       do_errs out = [] \<and> open_dirs (do_root out) = Inl VBucketNotFound \<and>
       (\<exists>r3. create_bucket h sound uid3 now3 name (do_root out) = (Some (name, now3), [], r3)))"
proof -
  from create_bucket_fresh [OF fresh, of now name h uid] obtain t where
    t: "t = now \<or> ro_name r = Some (NameRecord name t)"
    and c: "create_bucket h sound uid now name r =
      (Some (name, t), [],
       r\<lparr>ro_meta := Some (MetaDirectory []), ro_objs := Some (case ro_objs r of None \<Rightarrow> [] | Some os \<Rightarrow> os),
         ro_locks := Some (case ro_locks r of None \<Rightarrow> [] | Some ls \<Rightarrow> ls), ro_name := Some (NameRecord name t)\<rparr>)"
    by blast
  define r2 where "r2 = r\<lparr>ro_meta := Some (MetaDirectory []),
      ro_objs := Some (case ro_objs r of None \<Rightarrow> [] | Some os \<Rightarrow> os),
      ro_locks := Some (case ro_locks r of None \<Rightarrow> [] | Some ls \<Rightarrow> ls), ro_name := Some (NameRecord name t)\<rparr>"
  obtain s where s: "open_dirs r2 = Inr s" "vb_meta s = []" by (simp add: r2_def open_dirs_def)
  then have none: "\<forall>k. stored_object h s k = None" by (simp add: no_meta_no_object)
  have head: "head_bucket h sound name r2 = Inr (name, Some t)"
    by (simp add: r2_def head_bucket_def bucket_entry_def)
  have again: "create_bucket h sound uid2 now2 name r2 = (Some (name, t), [VBucketExists], r2)"
    by (rule create_bucket_again) (simp_all add: r2_def)
  let ?out = "delete_bucket h sound alone held locks name r2"
  from delete_bucket_exact [OF hash s(1), of held locks name] none s(2)
  have d: "do_errs ?out = []" "ro_meta (do_root ?out) = None" "ro_name (do_root ?out) = None"
    by (simp_all add: Let_def)
  from create_bucket_fresh [OF d(2), of now3 name h uid3] d(3)
  have "\<exists>r3. create_bucket h sound uid3 now3 name (do_root ?out) = (Some (name, now3), [], r3)" by auto
  with c t s none head again d show ?thesis
    unfolding r2_def [symmetric] by (auto simp: Let_def open_dirs_def [of "do_root ?out"])
qed

section \<open>Concrete buckets\<close>

text \<open>A bucket that holds one object, and one that a crashed write left with a temp file.\<close>

definition demo_root :: "vbucket \<Rightarrow> broot" where
  "demo_root s = \<lparr>ro_meta = Some (MetaDirectory (vb_meta s)), ro_objs = Some (vb_objs s), ro_locks = Some [],
     ro_name = Some (NameRecord ''mybucket'' 3), ro_temps = []\<rparr>"

definition crashed_bucket :: vbucket where
  "crashed_bucket = \<lparr>vb_meta = [(tmp_meta_name (demo_hash ''a'') demo_uid, Garbage)], vb_objs = []\<rparr>"

lemma demo_root_dirs: "open_dirs (demo_root s) = Inr s"
  by (simp add: demo_root_def open_dirs_def)

theorem delete_bucket_safe_witness:
  "\<exists>s. stored_object demo_hash s ''a'' \<noteq> None \<and>
     do_commit (delete_bucket demo_hash sound alone (\<lambda>_. False) [] ''mybucket'' (demo_root s)) = None \<and>
     do_errs (delete_bucket demo_hash sound alone (\<lambda>_. False) [] ''mybucket'' (demo_root s)) \<noteq> []"
proof -
  obtain i eff where run: "demo_put_run = Some (Some i, None, eff)" by (rule demo_put_some)
  have ok: "\<forall>k. is_hash (he_hash demo_hashes k)" and p: "\<forall>p\<in>set [4, 4, 4]. (0::nat) < p"
    using demo_hash_ok by simp_all
  from put_object_spec [OF ok demo_put_fresh p demo_put_ok run] obtain m where
    "object_in demo_hashes (vfs_after eff demo_vfs) ''mybucket'' ''a'' = Some (m, ''hello'', 7)"
    by (auto simp: demo_put_def)
  then obtain s where s: "stored_object demo_hash s ''a'' = Some (m, ''hello'', 7)"
    by (auto simp: object_in_def split: sum.splits)
  have "lasting demo_hash alone ''a''" by (simp add: lasting_def)
  with s demo_root_dirs [of s] have
    h: "open_dirs (demo_root s) = Inr s \<and> stored_object demo_hash s ''a'' \<noteq> None \<and> lasting demo_hash alone ''a''"
    by simp
  from delete_bucket_safe [OF demo_hash_ok, THEN conjunct2, THEN conjunct2, rule_format, OF h] h
  show ?thesis by blast
qed

lemma crashed_bucket_key: "meta_entry_key (tmp_meta_name (demo_hash ''a'') demo_uid) \<noteq> None"
  by code_simp

theorem delete_bucket_exact_witness:
  "do_errs (delete_bucket demo_hash sound alone (\<lambda>_. False) [] ''mybucket'' (demo_root crashed_bucket)) = []"
proof -
  have "stored_object demo_hash crashed_bucket k = None" for k
    using tmp_not_meta [of "demo_hash ''a''" "demo_hash k" demo_uid] demo_hash_ok demo_uid_ok
    by (auto simp: stored_object_at object_at_def read_meta_def crashed_bucket_def)
  moreover have "vb_meta crashed_bucket = [(tmp_meta_name (demo_hash ''a'') demo_uid, Garbage)]"
    by (simp add: crashed_bucket_def)
  with crashed_bucket_key have "\<forall>f\<in>set (map fst (vb_meta crashed_bucket)). meta_entry_key f \<noteq> None" by simp
  ultimately show ?thesis
    using delete_bucket_exact [OF demo_hash_ok demo_root_dirs [of crashed_bucket], of "\<lambda>_. False" "[]" "''mybucket''"]
    unfolding Let_def by presburger
qed

theorem bucket_lifecycle_witness:
  "\<exists>r2. create_bucket demo_hash sound demo_uid 5 ''mybucket'' no_bucket = (Some (''mybucket'', 5), [], r2) \<and>
     head_bucket demo_hash sound ''mybucket'' r2 = Inr (''mybucket'', Some 5)"
proof -
  have "ro_meta no_bucket = None" "ro_name no_bucket \<noteq> Some NotARecord" "ro_name no_bucket = None"
    by (simp_all add: no_bucket_def)
  with bucket_lifecycle [OF _ this(1,2), of demo_hash demo_uid 5 "''mybucket''"] demo_hash_ok show ?thesis
    by (metis option.distinct(1))
qed

end
