(* ===== verification/Config_Bind.thy ===== *)
theory Config_Bind
  imports Config_Maps "HOL-Library.List_Lexorder"
begin

text \<open>
  config/internal/maputils/bind.go: Bind, which assigns the values of a map[string]any to the fields
  of a struct. What reflect knows of a type is the datatype \<open>gtype\<close>, a variable of such a type holds a
  \<open>gval\<close>, and an any is a \<open>src\<close>; types are compared by their structure, names of types play no part.
  Every setter works in place, so it returns what the destination holds after it also on an error.
  Floating point values are a type \<open>'f\<close> with the operations the code uses of it; these, ParseFloat,
  ParseDuration and fmt's %v are the argument \<open>env\<close>.
\<close>

section \<open>Types and values\<close>

datatype gtype =
    GBool | GString | GInt nat | GUint nat | GFloat nat | GDuration | GAny | GUnsupported
  | GPtr gtype | GSlice gtype | GArray nat gtype | GMap gtype gtype | GStruct "sfield list"
and sfield = SField (sf_name: string) (sf_tag: string) (sf_exported: bool) (sf_anonymous: bool) (sf_type: gtype)

text \<open>
  A slice or array is a \<open>VSeq\<close>; \<open>VNil\<close> is a nil pointer, slice, map or interface. In \<open>SInt\<close> and \<open>SUint\<close>
  the number is the width, 64 for int and uint. \<open>STyped\<close> is a value of any other type.
\<close>

datatype 'f gval =
    VBool bool | VString string | VInt int | VFloat 'f | VNil
  | VPtr "'f gval" | VSeq "'f gval list" | VMap "('f gval \<times> 'f gval) list" | VStruct "'f gval list"
  | VIface "'f src" | VOther
and 'f src =
    SNil | SBool bool | SString string | SInt nat int | SUint nat int | SFloat nat 'f | SDuration int
  | SBytes string | SList "'f src list" | SMap "(string \<times> 'f src) list" | STyped gtype "'f gval"

datatype bind_err =
    SrcMustBeStruct | SrcIsNil
  | CannotSetStructFrom | CannotSetMapFrom | CannotSetSliceFrom | CannotSetArrayFrom
  | ArrayTooSmall nat | UnsupportedKind | UnsupportedKeyType
  | CannotConvertToBool | CannotConvertToInt64 | CannotConvertToUint64 | CannotConvertToFloat64
  | ParseError string | DurationWithoutUnit | IntegerOverflow int | UnsignedIntegerOverflow int
  | Uint64Overflow int | NegativeCannotConvert int | NegativeFloatCannotConvert
  | MapKeyConversion bind_err | InField string bind_err | AtIndex nat bind_err | InMapValue string bind_err

record 'f go_env =
  ge_parse_float :: "string \<Rightarrow> 'f option"
  ge_parse_duration :: "string \<Rightarrow> int option"
  ge_show :: "'f src \<Rightarrow> string"
  ge_of_int :: "int \<Rightarrow> 'f"
  ge_to_int :: "'f \<Rightarrow> int"
  ge_to_uint :: "'f \<Rightarrow> int"
  ge_eq_zero :: "'f \<Rightarrow> bool"
  ge_is_zero :: "'f \<Rightarrow> bool"
  ge_negative :: "'f \<Rightarrow> bool"

text \<open>reflect.Zero.\<close>

function zero_value :: "'f go_env \<Rightarrow> gtype \<Rightarrow> 'f gval" where
  "zero_value env GBool = VBool False"
| "zero_value env GString = VString []"
| "zero_value env (GInt n) = VInt 0"
| "zero_value env (GUint n) = VInt 0"
| "zero_value env (GFloat n) = VFloat (ge_of_int env 0)"
| "zero_value env GDuration = VInt 0"
| "zero_value env GAny = VNil"
| "zero_value env GUnsupported = VOther"
| "zero_value env (GPtr t) = VNil"
| "zero_value env (GSlice t) = VNil"
| "zero_value env (GArray n t) = VSeq (replicate n (zero_value env t))"
| "zero_value env (GMap k t) = VNil"
| "zero_value env (GStruct fs) = VStruct (map (\<lambda>f. zero_value env (sf_type f)) fs)"
  by pat_completeness auto
termination
proof (relation "measure (\<lambda>(env, t). size t)")
  fix env :: "'f go_env" and fs and f :: sfield
  assume "f \<in> set fs"
  moreover have "size (sf_type f) < size f" by (cases f) simp
  ultimately show "((env, sf_type f), env, GStruct fs) \<in> measure (\<lambda>(env, t). size t)"
    using size_list_estimation' [of f fs "size f" size] by fastforce
qed simp_all

section \<open>Field maps\<close>

record field_info =
  fi_name :: string
  fi_tag :: string
  fi_path :: "nat list"

text \<open>The first part of the json tag, when it names a key.\<close>

definition tag_key :: "string \<Rightarrow> string option" where
  "tag_key tag =
     (if tag = '''' then None
      else (let p = hd (split_at CHR '','' tag) in if p \<noteq> '''' \<and> p \<noteq> ''-'' then Some p else None))"

text \<open>isEmbeddedStruct, with the fields of the struct.\<close>

definition embedded_struct :: "gtype \<Rightarrow> sfield list option" where
  "embedded_struct t =
     (case t of GStruct fs \<Rightarrow> Some fs | GPtr (GStruct fs) \<Rightarrow> Some fs | _ \<Rightarrow> None)"

text \<open>buildStructFieldMap: one entry per key; \<open>i\<close> is the index of the next field.\<close>

definition add_field :: "string \<Rightarrow> string \<Rightarrow> nat list \<Rightarrow> (string \<times> field_info) list \<Rightarrow> (string \<times> field_info) list" where
  "add_field name tag path out =
     (let out2 = (case tag_key tag of
                    Some k \<Rightarrow> AList.update k \<lparr>fi_name = name, fi_tag = tag, fi_path = path\<rparr> out
                  | None \<Rightarrow> out)
      in if map_of out2 (to_lower name) = None
         then AList.update (to_lower name) \<lparr>fi_name = name, fi_tag = [], fi_path = path\<rparr> out2 else out2)"

function field_map :: "sfield list \<Rightarrow> nat list \<Rightarrow> nat \<Rightarrow> (string \<times> field_info) list \<Rightarrow> (string \<times> field_info) list" where
  "field_map [] path i out = out"
| "field_map (SField name tag exported anonymous t # fs) path i out =
     field_map fs path (Suc i)
       (if \<not> exported then out
        else (case (if anonymous then embedded_struct t else None) of
            Some inner \<Rightarrow> field_map inner (path @ [i]) 0 out
          | None \<Rightarrow> add_field name tag (path @ [i]) out))"
  by pat_completeness auto
termination
  by (relation "measure (\<lambda>(fs, path, i, out). size_list size fs)")
    (auto simp: embedded_struct_def split: if_splits gtype.splits)

section \<open>Matching keys to fields\<close>

record field_match =
  fm_key :: string
  fm_info :: field_info
  fm_rank :: nat

definition match_key :: "(string \<times> field_info) list \<Rightarrow> bool \<Rightarrow> string \<Rightarrow> field_match option" where
  "match_key fmap fold_case key =
     (case (case map_of fmap key of
              Some fi \<Rightarrow> Some (fi, 0)
            | None \<Rightarrow> if fold_case then map_option (\<lambda>fi. (fi, 1)) (map_of fmap (to_lower key)) else None) of
        None \<Rightarrow> None
      | Some (fi, rank) \<Rightarrow>
          Some \<lparr>fm_key = key, fm_info = fi, fm_rank = (if fi_tag fi = [] then rank + 2 else rank)\<rparr>)"

text \<open>One key of the loop: only a strictly better rank replaces the match of the same field.\<close>

definition add_match :: "field_match \<Rightarrow> field_match list \<Rightarrow> field_match list" where
  "add_match m ms =
     (if \<exists>x\<in>set ms. fi_path (fm_info x) = fi_path (fm_info m)
      then map (\<lambda>x. if fi_path (fm_info x) = fi_path (fm_info m) \<and> fm_rank m < fm_rank x then m else x) ms
      else ms @ [m])"

definition match_fields :: "string list \<Rightarrow> (string \<times> field_info) list \<Rightarrow> bool \<Rightarrow> field_match list" where
  "match_fields keys fmap fold_case =
     fold (\<lambda>key ms. case match_key fmap fold_case key of None \<Rightarrow> ms | Some m \<Rightarrow> add_match m ms)
       (sort_key (map byte) keys) []"

section \<open>Fields by path\<close>

text \<open>getFieldByPath: a pointer on the way, the field's own included, is allocated and followed.\<close>

definition deref :: "'f go_env \<Rightarrow> gtype \<Rightarrow> 'f gval \<Rightarrow> gtype \<times> 'f gval" where
  "deref env t v =
     (case t of
        GPtr t2 \<Rightarrow> (t2, case v of VPtr x \<Rightarrow> x | _ \<Rightarrow> zero_value env t2)
      | _ \<Rightarrow> (t, v))"

definition reref :: "gtype \<Rightarrow> 'f gval \<Rightarrow> 'f gval" where
  "reref t v = (case t of GPtr _ \<Rightarrow> VPtr v | _ \<Rightarrow> v)"

fun get_path :: "'f go_env \<Rightarrow> sfield list \<Rightarrow> 'f gval list \<Rightarrow> nat list \<Rightarrow> (gtype \<times> 'f gval) option" where
  "get_path env fs vs [] = None"
| "get_path env fs vs [i] =
     (if i < length fs \<and> i < length vs then Some (deref env (sf_type (fs ! i)) (vs ! i)) else None)"
| "get_path env fs vs (i # j # p) =
     (if i < length fs \<and> i < length vs then
        (case deref env (sf_type (fs ! i)) (vs ! i) of
           (GStruct fs2, VStruct vs2) \<Rightarrow> get_path env fs2 vs2 (j # p)
         | _ \<Rightarrow> None)
      else None)"

fun put_path :: "'f go_env \<Rightarrow> sfield list \<Rightarrow> 'f gval list \<Rightarrow> nat list \<Rightarrow> 'f gval \<Rightarrow> 'f gval list" where
  "put_path env fs vs [] x = vs"
| "put_path env fs vs [i] x = vs[i := reref (sf_type (fs ! i)) x]"
| "put_path env fs vs (i # j # p) x =
     (case deref env (sf_type (fs ! i)) (vs ! i) of
        (GStruct fs2, VStruct vs2) \<Rightarrow>
          vs[i := reref (sf_type (fs ! i)) (VStruct (put_path env fs2 vs2 (j # p) x))]
      | _ \<Rightarrow> vs)"

lemma deref_size: "size (fst (deref env t v)) \<le> size t"
  by (cases t) (simp_all add: deref_def)

lemma field_size: "i < length fs \<Longrightarrow> size (sf_type (fs ! i)) < size_list size fs"
proof -
  assume "i < length fs"
  then have "fs ! i \<in> set fs" by simp
  moreover have "size (sf_type (fs ! i)) < size (fs ! i)" by (cases "fs ! i") simp
  ultimately show ?thesis using size_list_estimation' [of "fs ! i" fs "size (fs ! i)" size] by fastforce
qed

lemma get_path_size: "get_path env fs vs p = Some (t, v) \<Longrightarrow> size t < size_list size fs"
proof (induction env fs vs p rule: get_path.induct)
  case (2 env fs vs i)
  then show ?case
    using field_size [of i fs] deref_size [of env "sf_type (fs ! i)" "vs ! i"] by (auto split: if_splits)
next
  case (3 env fs vs i j p)
  then obtain fs2 vs2 where d: "i < length fs" "i < length vs" "deref env (sf_type (fs ! i)) (vs ! i) = (GStruct fs2, VStruct vs2)"
      "get_path env fs2 vs2 (j # p) = Some (t, v)"
    by (auto split: if_splits prod.splits gtype.splits gval.splits)
  then have "size t < size_list size fs2" using 3 by auto
  then show ?case
    using field_size [OF d(1)] deref_size [of env "sf_type (fs ! i)" "vs ! i"] d(3) by simp
qed simp

section \<open>Parsing\<close>

fun decimal :: "int \<Rightarrow> string \<Rightarrow> int option" where
  "decimal acc [] = Some acc"
| "decimal acc (c # s) = (if is_digit c then decimal (acc * 10 + int (byte c - 48)) s else None)"

text \<open>strconv.ParseUint and ParseInt with base 10, and ParseBool.\<close>

definition parse_uint :: "string \<Rightarrow> nat \<Rightarrow> (bind_err, int) result" where
  "parse_uint s bits =
     (case (if s = [] then None else decimal 0 s) of
        None \<Rightarrow> Inl (ParseError s)
      | Some n \<Rightarrow> if n < 2 ^ bits then Inr n else Inl (ParseError s))"

definition parse_int :: "string \<Rightarrow> nat \<Rightarrow> (bind_err, int) result" where
  "parse_int s bits =
     (let neg = (case s of c # _ \<Rightarrow> c = CHR ''-'' | [] \<Rightarrow> False);
          digits = (case s of c # r \<Rightarrow> if c = CHR ''-'' \<or> c = CHR ''+'' then r else s | [] \<Rightarrow> s) in
      (case (if digits = [] then None else decimal 0 digits) of
         None \<Rightarrow> Inl (ParseError s)
       | Some n \<Rightarrow>
           if \<not> neg \<and> n \<ge> 2 ^ (bits - 1) \<or> neg \<and> n > 2 ^ (bits - 1) then Inl (ParseError s)
           else Inr (if neg then - n else n)))"

definition parse_bool :: "string \<Rightarrow> (bind_err, bool) result" where
  "parse_bool s =
     (if s \<in> {''1'', ''t'', ''T'', ''TRUE'', ''true'', ''True''} then Inr True
      else if s \<in> {''0'', ''f'', ''F'', ''FALSE'', ''false'', ''False''} then Inr False
      else Inl (ParseError s))"

section \<open>Basic kinds\<close>

definition max_int64_val :: int where "max_int64_val = 9223372036854775807"

definition to_bool :: "'f go_env \<Rightarrow> 'f src \<Rightarrow> (bind_err, bool) result" where
  "to_bool env v =
     (case v of
        SBool b \<Rightarrow> Inr b
      | SString s \<Rightarrow> parse_bool s
      | SFloat n x \<Rightarrow> Inr (\<not> ge_eq_zero env x)
      | SInt n i \<Rightarrow> Inr (i \<noteq> 0)
      | SUint n i \<Rightarrow> Inr (i \<noteq> 0)
      | _ \<Rightarrow> Inl CannotConvertToBool)"

definition to_string :: "'f go_env \<Rightarrow> 'f src \<Rightarrow> string" where
  "to_string env v = (case v of SString s \<Rightarrow> s | SBytes s \<Rightarrow> s | _ \<Rightarrow> ge_show env v)"

definition to_int64 :: "'f go_env \<Rightarrow> 'f src \<Rightarrow> (bind_err, int) result" where
  "to_int64 env v =
     (case v of
        SInt n i \<Rightarrow> Inr i
      | SUint n i \<Rightarrow> if n \<notin> {8, 16, 32} \<and> i > max_int64_val then Inl (Uint64Overflow i) else Inr i
      | SFloat n x \<Rightarrow> Inr (ge_to_int env x)
      | SString s \<Rightarrow> parse_int s 64
      | SDuration d \<Rightarrow> Inr d
      | _ \<Rightarrow> Inl CannotConvertToInt64)"

definition to_uint64 :: "'f go_env \<Rightarrow> 'f src \<Rightarrow> (bind_err, int) result" where
  "to_uint64 env v =
     (case v of
        SUint n i \<Rightarrow> Inr i
      | SInt n i \<Rightarrow> if i < 0 then Inl (NegativeCannotConvert i) else Inr i
      | SFloat n x \<Rightarrow>
          if n = 64 then (if ge_negative env x then Inl NegativeFloatCannotConvert else Inr (ge_to_uint env x))
          else Inl CannotConvertToUint64
      | SString s \<Rightarrow> parse_uint s 64
      | _ \<Rightarrow> Inl CannotConvertToUint64)"

definition to_float64 :: "'f go_env \<Rightarrow> 'f src \<Rightarrow> (bind_err, 'f) result" where
  "to_float64 env v =
     (case v of
        SFloat n x \<Rightarrow> Inr x
      | SInt n i \<Rightarrow> Inr (ge_of_int env i)
      | SUint n i \<Rightarrow> Inr (ge_of_int env i)
      | SString s \<Rightarrow> (case ge_parse_float env s of Some x \<Rightarrow> Inr x | None \<Rightarrow> Inl (ParseError s))
      | _ \<Rightarrow> Inl CannotConvertToFloat64)"

text \<open>bareNumber, the pattern of a decimal number without a unit.\<close>

definition bare_number :: "string \<Rightarrow> bool" where
  "bare_number s =
     (let r = (case s of c # t \<Rightarrow> if c = CHR ''+'' \<or> c = CHR ''-'' then t else s | [] \<Rightarrow> s) in
      (case cut CHR ''.'' r of
         None \<Rightarrow> r \<noteq> [] \<and> list_all is_digit r
       | Some (a, b) \<Rightarrow> list_all is_digit a \<and> list_all is_digit b \<and> (a \<noteq> [] \<or> b \<noteq> [])))"

definition to_duration :: "'f go_env \<Rightarrow> 'f src \<Rightarrow> (bind_err, int) result" where
  "to_duration env v =
     (case v of
        SDuration d \<Rightarrow> Inr d
      | SString s \<Rightarrow>
          if s = [] then Inl (ParseError s)
          else (case ge_parse_duration env s of
              Some d \<Rightarrow> Inr d
            | None \<Rightarrow> if bare_number s then Inl DurationWithoutUnit else Inl (ParseError s))
      | SInt n i \<Rightarrow> if i = 0 then Inr 0 else Inl DurationWithoutUnit
      | SUint n i \<Rightarrow> if i = 0 then Inr 0 else Inl DurationWithoutUnit
      | SFloat n x \<Rightarrow> if ge_is_zero env x then Inr 0 else Inl DurationWithoutUnit
      | _ \<Rightarrow> Inl CannotConvertToInt64)"

definition within_int_range :: "int \<Rightarrow> nat \<Rightarrow> bool" where
  "within_int_range i bits =
     (if bits = 8 then - 128 \<le> i \<and> i \<le> 127
      else if bits = 16 then - 32768 \<le> i \<and> i \<le> 32767
      else if bits = 32 then - 2147483648 \<le> i \<and> i \<le> 2147483647
      else True)"

definition within_uint_range :: "int \<Rightarrow> nat \<Rightarrow> bool" where
  "within_uint_range u bits =
     (if bits = 8 then u \<le> 255 else if bits = 16 then u \<le> 65535
      else if bits = 32 then u \<le> 4294967295 else True)"

definition set_basic :: "'f go_env \<Rightarrow> gtype \<Rightarrow> 'f src \<Rightarrow> (bind_err, 'f gval) result" where
  "set_basic env t v =
     (case t of
        GBool \<Rightarrow> map_sum id VBool (to_bool env v)
      | GString \<Rightarrow> Inr (VString (to_string env v))
      | GDuration \<Rightarrow> map_sum id VInt (to_duration env v)
      | GInt bits \<Rightarrow>
          (case to_int64 env v of
             Inl e \<Rightarrow> Inl e
           | Inr i \<Rightarrow> if within_int_range i bits then Inr (VInt i) else Inl (IntegerOverflow i))
      | GUint bits \<Rightarrow>
          (case to_uint64 env v of
             Inl e \<Rightarrow> Inl e
           | Inr u \<Rightarrow> if within_uint_range u bits then Inr (VInt u) else Inl (UnsignedIntegerOverflow u))
      | GFloat bits \<Rightarrow> map_sum id VFloat (to_float64 env v)
      | _ \<Rightarrow> Inl UnsupportedKind)"

text \<open>Type.Bits: the widths Go has; int and uint have 64.\<close>

definition width :: "nat \<Rightarrow> nat" where
  "width n = (if n \<in> {8, 16, 32} then n else 64)"

text \<open>setSimpleValueFromString, for the keys of maps.\<close>

definition map_key :: "gtype \<Rightarrow> string \<Rightarrow> (bind_err, 'f gval) result" where
  "map_key t s =
     (case t of
        GString \<Rightarrow> Inr (VString s)
      | GInt bits \<Rightarrow> map_sum id VInt (parse_int s (width bits))
      | GDuration \<Rightarrow> map_sum id VInt (parse_int s 64)
      | GUint bits \<Rightarrow> map_sum id VInt (parse_uint s (width bits))
      | GBool \<Rightarrow> map_sum id VBool (parse_bool s)
      | _ \<Rightarrow> Inl UnsupportedKeyType)"

section \<open>Interfaces and conversions\<close>

text \<open>
  The any that holds a value of a type: reflect's Interface of an element. An interface gives what it
  holds, a []byte, a []any and a map[string]any are what the type switches take them for, nil or not.
\<close>

definition unwrap :: "'f gval \<Rightarrow> 'f src" where
  "unwrap v = (case v of VIface x \<Rightarrow> x | _ \<Rightarrow> SNil)"

definition any_slice :: "gtype \<Rightarrow> 'f gval list \<Rightarrow> 'f src" where
  "any_slice t xs =
     (if t = GAny then SList (map unwrap xs)
      else if t = GUint 8 then SBytes (map (\<lambda>x. case x of VInt i \<Rightarrow> char_of (nat i) | _ \<Rightarrow> CHR 0x00) xs)
      else STyped (GSlice t) (VSeq xs))"

definition any_map :: "('f gval \<times> 'f gval) list \<Rightarrow> 'f src" where
  "any_map es = SMap (map (\<lambda>(k, x). (case k of VString s \<Rightarrow> s | _ \<Rightarrow> [], unwrap x)) es)"

definition any_of :: "gtype \<Rightarrow> 'f gval \<Rightarrow> 'f src" where
  "any_of t v =
     (case (t, v) of
        (GBool, VBool b) \<Rightarrow> SBool b
      | (GString, VString s) \<Rightarrow> SString s
      | (GInt n, VInt i) \<Rightarrow> SInt n i
      | (GUint n, VInt i) \<Rightarrow> SUint n i
      | (GFloat n, VFloat x) \<Rightarrow> SFloat n x
      | (GDuration, VInt i) \<Rightarrow> SDuration i
      | (GAny, x) \<Rightarrow> unwrap x
      | (GSlice t2, VSeq xs) \<Rightarrow> any_slice t2 xs
      | (GSlice t2, VNil) \<Rightarrow> if t2 = GAny \<or> t2 = GUint 8 then any_slice t2 [] else STyped t v
      | (GMap GString GAny, VMap es) \<Rightarrow> any_map es
      | (GMap GString GAny, VNil) \<Rightarrow> any_map []
      | _ \<Rightarrow> STyped t v)"

text \<open>Struct types that differ in their tags only convert to each other.\<close>

function untagged :: "gtype \<Rightarrow> gtype" where
  "untagged (GPtr t) = GPtr (untagged t)"
| "untagged (GSlice t) = GSlice (untagged t)"
| "untagged (GArray n t) = GArray n (untagged t)"
| "untagged (GMap k t) = GMap (untagged k) (untagged t)"
| "untagged (GStruct fs) =
     GStruct (map (\<lambda>f. SField (sf_name f) [] (sf_exported f) (sf_anonymous f) (untagged (sf_type f))) fs)"
| "untagged GBool = GBool" | "untagged GString = GString" | "untagged (GInt n) = GInt n"
| "untagged (GUint n) = GUint n" | "untagged (GFloat n) = GFloat n" | "untagged GDuration = GDuration"
| "untagged GAny = GAny" | "untagged GUnsupported = GUnsupported"
  by pat_completeness auto
termination
proof (relation "measure size")
  fix fs and f :: sfield assume "f \<in> set fs"
  moreover have "size (sf_type f) < size f" by (cases f) simp
  ultimately show "(sf_type f, GStruct fs) \<in> measure size"
    using size_list_estimation' [of f fs "size f" size] by fastforce
qed simp_all

text \<open>
  The elements of a source that is a []any, or whose kind is slice or array; the latter can also be
  assigned as they are when the types agree.
\<close>

definition csv_source :: "'f src \<Rightarrow> string option" where
  "csv_source v = (case v of SString s \<Rightarrow> Some s | _ \<Rightarrow> None)"

definition seq_source :: "'f src \<Rightarrow> ((gtype \<times> 'f gval) option \<times> 'f src list) option" where
  "seq_source v =
     (case v of
        SList vs \<Rightarrow> Some (None, vs)
      | SBytes s \<Rightarrow>
          Some (Some (GSlice (GUint 8), VSeq (map (\<lambda>c. VInt (int (byte c))) s)), map (\<lambda>c. SUint 8 (int (byte c))) s)
      | STyped (GSlice t) (VSeq xs) \<Rightarrow> Some (Some (GSlice t, VSeq xs), map (any_of t) xs)
      | STyped (GSlice t) VNil \<Rightarrow> Some (Some (GSlice t, VNil), [])
      | STyped (GArray n t) (VSeq xs) \<Rightarrow> Some (Some (GArray n t, VSeq xs), map (any_of t) xs)
      | _ \<Rightarrow> None)"

text \<open>Assignable: the value of the source when its type is the one asked for.\<close>

definition assignable :: "gtype \<Rightarrow> (gtype \<times> 'f gval) option \<Rightarrow> 'f gval option" where
  "assignable t x = (case x of Some (t2, v) \<Rightarrow> if t2 = t then Some v else None | None \<Rightarrow> None)"

section \<open>Setting a value\<close>

text \<open>
  setValue, setStructFromMap, the element loops and setMapFromStringMap, which call each other.
  \<open>set_elems\<close> stops at the first error and keeps what it has set.
\<close>

text \<open>What a slice or array built from new elements leaves: all of them, or the old value.\<close>

definition whole :: "'f gval \<Rightarrow> 'f gval list \<times> bind_err option \<Rightarrow> 'f gval \<times> bind_err option" where
  "whole dst r = (case r of (xs, None) \<Rightarrow> (VSeq xs, None) | (xs, Some e) \<Rightarrow> (dst, Some e))"

function bind_value :: "'f go_env \<Rightarrow> gtype \<Rightarrow> 'f gval \<Rightarrow> 'f src \<Rightarrow> 'f gval \<times> bind_err option"
  and set_struct :: "'f go_env \<Rightarrow> sfield list \<Rightarrow> 'f gval \<Rightarrow> 'f src \<Rightarrow> 'f gval \<times> bind_err option"
  and set_map :: "'f go_env \<Rightarrow> gtype \<Rightarrow> gtype \<Rightarrow> 'f gval \<Rightarrow> 'f src \<Rightarrow> 'f gval \<times> bind_err option"
  and set_slice :: "'f go_env \<Rightarrow> gtype \<Rightarrow> 'f gval \<Rightarrow> 'f src \<Rightarrow> 'f gval \<times> bind_err option"
  and set_array :: "'f go_env \<Rightarrow> nat \<Rightarrow> gtype \<Rightarrow> 'f gval \<Rightarrow> 'f src \<Rightarrow> 'f gval \<times> bind_err option"
  and set_fields :: "'f go_env \<Rightarrow> sfield list \<Rightarrow> 'f gval list \<Rightarrow> (string \<times> 'f src) list \<Rightarrow> field_match list \<Rightarrow>
    'f gval list \<times> bind_err option"
  and set_elems :: "'f go_env \<Rightarrow> gtype \<Rightarrow> nat \<Rightarrow> 'f gval list \<Rightarrow> 'f src list \<Rightarrow> 'f gval list \<times> bind_err option"
  and set_entries :: "'f go_env \<Rightarrow> gtype \<Rightarrow> gtype \<Rightarrow> ('f gval \<times> 'f gval) list \<Rightarrow> (string \<times> 'f src) list \<Rightarrow>
    (bind_err, ('f gval \<times> 'f gval) list) result" where
  "bind_value env t dst v =
     (case t of
        GPtr t2 \<Rightarrow>
          (case bind_value env t2 (case dst of VPtr x \<Rightarrow> x | _ \<Rightarrow> zero_value env t2) v of (x, e) \<Rightarrow> (VPtr x, e))
      | _ \<Rightarrow>
          if v = SNil then (zero_value env t, None)
          else (case t of
              GStruct fs \<Rightarrow> set_struct env fs dst v
            | GMap kt et \<Rightarrow> set_map env kt et dst v
            | GSlice et \<Rightarrow> set_slice env et dst v
            | GArray n et \<Rightarrow> set_array env n et dst v
            | GAny \<Rightarrow> (VIface v, None)
            | _ \<Rightarrow> (case set_basic env t v of Inl e \<Rightarrow> (dst, Some e) | Inr x \<Rightarrow> (x, None))))"
| "set_struct env fs dst v =
     (case v of
        SMap m \<Rightarrow>
          (case set_fields env fs (case dst of VStruct vs \<Rightarrow> vs | _ \<Rightarrow> []) m
                  (match_fields (map fst m) (field_map fs [] 0 []) True) of
             (vs2, e) \<Rightarrow> (VStruct vs2, e))
      | STyped t2 x \<Rightarrow>
          if untagged t2 = untagged (GStruct fs) then (x, None) else (dst, Some CannotSetStructFrom)
      | _ \<Rightarrow> (dst, Some CannotSetStructFrom))"
| "set_map env kt et dst v =
     (case v of
        SMap m \<Rightarrow>
          (case set_entries env kt et [] m of Inl e \<Rightarrow> (dst, Some e) | Inr es \<Rightarrow> (VMap es, None))
      | STyped t2 x \<Rightarrow> if t2 = GMap kt et then (x, None) else (dst, Some CannotSetMapFrom)
      | _ \<Rightarrow> (dst, Some CannotSetMapFrom))"
| "set_slice env et dst v =
     (case csv_source v of
        Some s \<Rightarrow>
          (let parts = split_at CHR '','' s; old = (case dst of VSeq xs \<Rightarrow> xs | _ \<Rightarrow> []) in
           (case set_elems env et 0 (old @ replicate (length parts - length old) (zero_value env et))
                   (map (\<lambda>p. SString (trim_space p)) parts) of
              (xs, e) \<Rightarrow> (VSeq xs, e)))
      | None \<Rightarrow>
          (case seq_source v of
             None \<Rightarrow> (dst, Some CannotSetSliceFrom)
           | Some (src, vs) \<Rightarrow>
               (case assignable (GSlice et) src of
                  Some x \<Rightarrow> (x, None)
                | None \<Rightarrow> whole dst (set_elems env et 0 (replicate (length vs) (zero_value env et)) vs))))"
| "set_array env n et dst v =
     (case v of
        SList vs \<Rightarrow>
          if length vs > n then (dst, Some (ArrayTooSmall (length vs)))
          else whole dst (set_elems env et 0 (replicate n (zero_value env et)) vs)
      | STyped t2 x \<Rightarrow> if t2 = GArray n et then (x, None) else (dst, Some CannotSetArrayFrom)
      | _ \<Rightarrow> (dst, Some CannotSetArrayFrom))"
| "set_fields env fs vs m [] = (vs, None)"
| "set_fields env fs vs m (fm # fms) =
     (case get_path env fs vs (fi_path (fm_info fm)) of
        None \<Rightarrow> set_fields env fs vs m fms
      | Some (t, x) \<Rightarrow>
          (case bind_value env t x (the (map_of m (fm_key fm))) of
             (y, Some err) \<Rightarrow>
               (put_path env fs vs (fi_path (fm_info fm)) y, Some (InField (fi_name (fm_info fm)) err))
           | (y, None) \<Rightarrow> set_fields env fs (put_path env fs vs (fi_path (fm_info fm)) y) m fms))"
| "set_elems env t i xs [] = (xs, None)"
| "set_elems env t i [] (v # vs) = ([], None)"
| "set_elems env t i (x # xs) (v # vs) =
     (case bind_value env t x v of
        (y, Some err) \<Rightarrow> (y # xs, Some (AtIndex i err))
      | (y, None) \<Rightarrow> (case set_elems env t (Suc i) xs vs of (ys, e) \<Rightarrow> (y # ys, e)))"
| "set_entries env kt et es [] = Inr es"
| "set_entries env kt et es ((mk, mv) # m) =
     (case map_key kt mk of
        Inl e \<Rightarrow> Inl (MapKeyConversion e)
      | Inr k \<Rightarrow>
          (case bind_value env et (zero_value env et) mv of
             (x, Some e) \<Rightarrow> Inl (InMapValue mk e)
           | (x, None) \<Rightarrow> set_entries env kt et (AList.update k x es) m))"
  by pat_completeness auto
termination
  by (relation "measures [\<lambda>x. case x of
        Inl (Inl (Inl (env, t, dst, v))) \<Rightarrow> 2 * size t
      | Inl (Inl (Inr (env, fs, dst, v))) \<Rightarrow> 2 * size_list size fs + 1
      | Inl (Inr (Inl (env, kt, et, dst, v))) \<Rightarrow> 2 * size et + 1
      | Inl (Inr (Inr (env, et, dst, v))) \<Rightarrow> 2 * size et + 1
      | Inr (Inl (Inl (env, n, et, dst, v))) \<Rightarrow> 2 * size et + 1
      | Inr (Inl (Inr (env, fs, vs, m, fms))) \<Rightarrow> 2 * size_list size fs
      | Inr (Inr (Inl (env, t, i, xs, vs))) \<Rightarrow> 2 * size t
      | Inr (Inr (Inr (env, kt, et, es, m))) \<Rightarrow> 2 * size et,
     \<lambda>x. case x of
        Inr (Inl (Inr (env, fs, vs, m, fms))) \<Rightarrow> Suc (length fms)
      | Inr (Inr (Inl (env, t, i, xs, vs))) \<Rightarrow> Suc (length vs)
      | Inr (Inr (Inr (env, kt, et, es, m))) \<Rightarrow> Suc (length m)
      | _ \<Rightarrow> 0]")
    (auto dest: get_path_size)

declare bind_value.simps [simp del]

text \<open>Bind: the destination is the fields of the struct and what they hold.\<close>

definition bind :: "'f go_env \<Rightarrow> sfield list \<Rightarrow> 'f gval list \<Rightarrow> (string \<times> 'f src) list \<Rightarrow>
    'f gval list \<times> bind_err option" where
  "bind env fs vs m = set_fields env fs vs m (match_fields (map fst m) (field_map fs [] 0 []) False)"

end
