(* ===== verification/Config_Bind_Properties.thy ===== *)
theory Config_Bind_Properties
  imports Config_Bind
begin

text \<open>
  What Bind promises: a destination stays a value of its type whatever the source holds, also when
  binding fails half way; every field gets the value of the one key that matches it best, whatever
  order the map is ranged over in, and a field no key matches keeps its default.
\<close>

section \<open>Values of a type\<close>

definition fits_int :: "nat \<Rightarrow> int \<Rightarrow> bool" where
  "fits_int bits i \<longleftrightarrow> - (2 ^ 63) \<le> i \<and> i < 2 ^ 63 \<and> within_int_range i bits"

definition fits_uint :: "nat \<Rightarrow> int \<Rightarrow> bool" where
  "fits_uint bits i \<longleftrightarrow> 0 \<le> i \<and> i < 2 ^ 64 \<and> within_uint_range i bits"

inductive wt :: "gtype \<Rightarrow> 'f gval \<Rightarrow> bool" and wt_src :: "'f src \<Rightarrow> bool" where
  wt_bool: "wt GBool (VBool b)"
| wt_string: "wt GString (VString s)"
| wt_int: "fits_int n i \<Longrightarrow> wt (GInt n) (VInt i)"
| wt_uint: "fits_uint n i \<Longrightarrow> wt (GUint n) (VInt i)"
| wt_float: "wt (GFloat n) (VFloat x)"
| wt_duration: "fits_int 64 i \<Longrightarrow> wt GDuration (VInt i)"
| wt_any_nil: "wt GAny VNil"
| wt_any: "wt_src s \<Longrightarrow> wt GAny (VIface s)"
| wt_other: "wt GUnsupported v"
| wt_ptr_nil: "wt (GPtr t) VNil"
| wt_ptr: "wt t v \<Longrightarrow> wt (GPtr t) (VPtr v)"
| wt_slice_nil: "wt (GSlice t) VNil"
| wt_slice: "\<forall>v\<in>set vs. wt t v \<Longrightarrow> wt (GSlice t) (VSeq vs)"
| wt_array: "\<forall>v\<in>set vs. wt t v \<Longrightarrow> length vs = n \<Longrightarrow> wt (GArray n t) (VSeq vs)"
| wt_map_nil: "wt (GMap k t) VNil"
| wt_map: "\<forall>e\<in>set es. wt k (fst e) \<and> wt t (snd e) \<Longrightarrow> wt (GMap k t) (VMap es)"
| wt_struct: "list_all2 (\<lambda>f v. wt (sf_type f) v) fs vs \<Longrightarrow> wt (GStruct fs) (VStruct vs)"
| ws_nil: "wt_src SNil"
| ws_bool: "wt_src (SBool b)"
| ws_string: "wt_src (SString s)"
| ws_int: "fits_int n i \<Longrightarrow> wt_src (SInt n i)"
| ws_uint: "fits_uint n i \<Longrightarrow> wt_src (SUint n i)"
| ws_float: "wt_src (SFloat n x)"
| ws_duration: "fits_int 64 i \<Longrightarrow> wt_src (SDuration i)"
| ws_bytes: "wt_src (SBytes s)"
| ws_list: "\<forall>v\<in>set vs. wt_src v \<Longrightarrow> wt_src (SList vs)"
| ws_map: "\<forall>e\<in>set m. wt_src (snd e) \<Longrightarrow> wt_src (SMap m)"
| ws_typed: "wt t v \<Longrightarrow> wt_src (STyped t v)"
monos list_all2_mono

inductive_simps wt_simps [simp]:
  "wt GBool v" "wt GString v" "wt (GInt n) v" "wt (GUint n) v" "wt (GFloat n) v" "wt GDuration v" "wt GAny v"
  "wt GUnsupported v" "wt (GPtr t) v" "wt (GSlice t) v" "wt (GArray n t) v" "wt (GMap k t) v" "wt (GStruct fs) v"

inductive_simps wt_src_simps [simp]:
  "wt_src SNil" "wt_src (SBool b)" "wt_src (SString s)" "wt_src (SInt n i)" "wt_src (SUint n i)" "wt_src (SFloat n x)"
  "wt_src (SDuration i)" "wt_src (SBytes s)" "wt_src (SList vs)" "wt_src (SMap m)" "wt_src (STyped t v)"

abbreviation wt_fields :: "sfield list \<Rightarrow> 'f gval list \<Rightarrow> bool" where
  "wt_fields fs vs \<equiv> list_all2 (\<lambda>f v. wt (sf_type f) v) fs vs"

text \<open>What the conversions of the standard library guarantee.\<close>

definition sound_env :: "'f go_env \<Rightarrow> bool" where
  "sound_env env \<longleftrightarrow>
     (\<forall>s d. ge_parse_duration env s = Some d \<longrightarrow> fits_int 64 d) \<and>
     (\<forall>x. fits_int 64 (ge_to_int env x)) \<and> (\<forall>x. fits_uint 64 (ge_to_uint env x))"

lemma fits_zero [simp]: "fits_int n 0" "fits_uint n 0"
  by (simp_all add: fits_int_def fits_uint_def within_int_range_def within_uint_range_def)

lemma fits_widest: "fits_int n i \<Longrightarrow> fits_int 64 i" "fits_uint n i \<Longrightarrow> fits_uint 64 i"
  by (simp_all add: fits_int_def fits_uint_def within_int_range_def within_uint_range_def)

lemma wt_zero: "wt t (zero_value env t)"
  by (induction env t rule: zero_value.induct) (auto simp: list_all2_conv_all_nth)

lemma wt_untagged: "wt (untagged t) v \<longleftrightarrow> wt t v"
proof (induction t arbitrary: v rule: untagged.induct)
  case (5 fs)
  have "list_all2 (\<lambda>f v. wt (sf_type f) v)
      (map (\<lambda>f. SField (sf_name f) [] (sf_exported f) (sf_anonymous f) (untagged (sf_type f))) fs) vs \<longleftrightarrow>
    wt_fields fs vs" for vs :: "'a gval list"
    using 5 by (auto simp: list_all2_conv_all_nth)
  then show ?case by simp
qed simp_all

section \<open>Conversions\<close>

lemma decimal_nonneg: "decimal acc s = Some n \<Longrightarrow> 0 \<le> acc \<Longrightarrow> 0 \<le> n"
  by (induction s arbitrary: acc) (auto split: if_splits)

lemma parse_uint_fits: "parse_uint s n = Inr i \<Longrightarrow> n \<in> {8, 16, 32, 64} \<Longrightarrow> fits_uint n i"
  using decimal_nonneg [of 0 s]
  by (auto simp: parse_uint_def fits_uint_def within_uint_range_def split: option.splits if_splits)

lemma parse_int_fits: "parse_int s n = Inr i \<Longrightarrow> n \<in> {8, 16, 32, 64} \<Longrightarrow> fits_int n i"
proof -
  assume a: "parse_int s n = Inr i" "n \<in> {8, 16, 32, 64}"
  then obtain ds m where m: "decimal 0 ds = Some m" "i = m \<and> m < 2 ^ (n - 1) \<or> i = - m \<and> m \<le> 2 ^ (n - 1)"
    by (auto simp: parse_int_def Let_def split: option.splits if_splits)
  with decimal_nonneg [OF m(1)] a(2) show ?thesis by (auto simp: fits_int_def within_int_range_def)
qed

lemma to_int64_fits: "sound_env env \<Longrightarrow> wt_src v \<Longrightarrow> to_int64 env v = Inr i \<Longrightarrow> fits_int 64 i"
  using parse_int_fits [of _ 64 i]
  by (auto simp: to_int64_def sound_env_def max_int64_val_def fits_int_def fits_uint_def within_uint_range_def
      within_int_range_def split: src.splits if_splits)

lemma to_uint64_fits: "sound_env env \<Longrightarrow> wt_src v \<Longrightarrow> to_uint64 env v = Inr i \<Longrightarrow> fits_uint 64 i"
  using parse_uint_fits [of _ 64 i]
  by (auto simp: to_uint64_def sound_env_def fits_int_def fits_uint_def within_uint_range_def
      split: src.splits if_splits)

lemma to_duration_fits: "sound_env env \<Longrightarrow> wt_src v \<Longrightarrow> to_duration env v = Inr i \<Longrightarrow> fits_int 64 i"
  by (auto simp: to_duration_def sound_env_def split: src.splits if_splits option.splits)

lemma set_basic_wt:
  assumes "sound_env env" and "wt_src v" and "set_basic env t v = Inr x"
  shows "wt t x"
proof (cases t)
  case (GInt n)
  with assms to_int64_fits [OF assms(1,2)] show ?thesis
    by (auto simp: set_basic_def fits_int_def split: sum.splits if_splits)
next
  case (GUint n)
  with assms to_uint64_fits [OF assms(1,2)] show ?thesis
    by (auto simp: set_basic_def fits_uint_def split: sum.splits if_splits)
next
  case GDuration
  with assms to_duration_fits [OF assms(1,2)] show ?thesis
    by (auto simp: set_basic_def map_sum_def split: sum.splits)
qed (use assms in \<open>auto simp: set_basic_def map_sum_def split: sum.splits\<close>)

section \<open>Reading and writing fields\<close>

lemma wt_unwrap: "wt GAny v \<Longrightarrow> wt_src (unwrap v)"
  by (auto simp: unwrap_def)

lemma unwrap_simps [simp]: "unwrap VNil = SNil" "unwrap (VIface x) = x"
  by (simp_all add: unwrap_def)

lemma wt_any_slice: "wt (GSlice t) (VSeq xs) \<Longrightarrow> wt_src (any_slice t xs)"
  by (fastforce simp: any_slice_def)

lemma wt_any_map: "wt (GMap GString GAny) (VMap es) \<Longrightarrow> wt_src (any_map es)"
  by (fastforce simp: any_map_def)

lemma any_of_map:
  "any_of (GMap k e) v =
     (if k = GString \<and> e = GAny then (case v of VMap es \<Rightarrow> any_map es | VNil \<Rightarrow> any_map [] | _ \<Rightarrow> STyped (GMap k e) v)
      else STyped (GMap k e) v)"
  by (cases k; simp add: any_of_def; cases e; simp; cases v; simp)

lemma wt_any_of:
  assumes "wt t v"
  shows "wt_src (any_of t v)"
proof (cases t)
  case GAny
  with assms wt_unwrap [of v] show ?thesis by (simp add: any_of_def)
next
  case (GSlice e)
  with assms wt_any_slice [of e] wt_any_slice [of e "[]"] show ?thesis by (auto simp: any_of_def simp del: wt_src_simps(9))
next
  case (GMap k e)
  with assms wt_any_map wt_any_map [of "[]"] show ?thesis by (auto simp: any_of_map simp del: wt_src_simps(10))
qed (use assms in \<open>auto simp: any_of_def\<close>)

lemma seq_source_wt:
  assumes "wt_src v" and "seq_source v = Some (x, vs)"
  shows "(\<forall>y. assignable t x = Some y \<longrightarrow> wt t y) \<and> (\<forall>s\<in>set vs. wt_src s)"
proof -
  have "fits_uint 8 (int (byte c))" for c
    using byte_less [of c] by (simp add: fits_uint_def within_uint_range_def)
  with assms show ?thesis
    by (auto simp: seq_source_def assignable_def intro!: wt_any_of
        split: src.splits gtype.splits gval.splits if_splits)
qed

lemma deref_wt: "wt t v \<Longrightarrow> wt (fst (deref env t v)) (snd (deref env t v))"
  by (cases t) (auto simp: deref_def intro: wt_zero split: gval.splits)

lemma reref_wt: "wt (fst (deref env t v)) x \<Longrightarrow> wt t (reref t x)"
  by (cases t) (auto simp: deref_def reref_def)

lemma deref_reref: "deref env t (reref t x) = (fst (deref env t v), x)"
  by (cases t) (auto simp: deref_def reref_def)

lemma get_path_wt: "get_path env fs vs p = Some (t, v) \<Longrightarrow> wt_fields fs vs \<Longrightarrow> wt t v"
proof (induction env fs vs p rule: get_path.induct)
  case (2 env fs vs i)
  then have "wt (sf_type (fs ! i)) (vs ! i)" by (auto simp: list_all2_conv_all_nth split: if_splits)
  with deref_wt [OF this, of env] 2 show ?case by (auto split: if_splits)
next
  case (3 env fs vs i j p)
  then obtain fs2 vs2 where d: "i < length fs" "i < length vs"
      "deref env (sf_type (fs ! i)) (vs ! i) = (GStruct fs2, VStruct vs2)"
      "get_path env fs2 vs2 (j # p) = Some (t, v)"
    by (auto split: if_splits prod.splits gtype.splits gval.splits)
  then have "wt_fields fs2 vs2"
    using deref_wt [of "sf_type (fs ! i)" "vs ! i" env] 3 by (auto simp: list_all2_conv_all_nth)
  with 3 d show ?case by auto
qed simp

lemma put_path_wt:
  "get_path env fs vs p = Some (t, v) \<Longrightarrow> wt_fields fs vs \<Longrightarrow> wt t x \<Longrightarrow> wt_fields fs (put_path env fs vs p x)"
proof (induction env fs vs p rule: get_path.induct)
  case (2 env fs vs i)
  then have d: "i < length fs" "deref env (sf_type (fs ! i)) (vs ! i) = (t, v)" by (auto split: if_splits)
  then have "wt (sf_type (fs ! i)) (reref (sf_type (fs ! i)) x)"
    using reref_wt [of env "sf_type (fs ! i)" "vs ! i" x] 2 by simp
  with 2 d(1) show ?case by (auto simp: list_all2_conv_all_nth nth_list_update)
next
  case (3 env fs vs i j p)
  then obtain fs2 vs2 where d: "i < length fs" "i < length vs"
      "deref env (sf_type (fs ! i)) (vs ! i) = (GStruct fs2, VStruct vs2)"
      "get_path env fs2 vs2 (j # p) = Some (t, v)"
    by (auto split: if_splits prod.splits gtype.splits gval.splits)
  then have "wt_fields fs2 vs2"
    using deref_wt [of "sf_type (fs ! i)" "vs ! i" env] 3 by (auto simp: list_all2_conv_all_nth)
  with 3 d have "wt_fields fs2 (put_path env fs2 vs2 (j # p) x)" by auto
  then have "wt (sf_type (fs ! i)) (reref (sf_type (fs ! i)) (VStruct (put_path env fs2 vs2 (j # p) x)))"
    using reref_wt [of env "sf_type (fs ! i)" "vs ! i" "VStruct (put_path env fs2 vs2 (j # p) x)"] d(3) by simp
  with 3 d show ?case by (auto simp: list_all2_conv_all_nth nth_list_update)
qed simp

section \<open>Matches\<close>

lemma add_match_keys: "fm_key ` set (add_match m ms) \<subseteq> insert (fm_key m) (fm_key ` set ms)"
  by (auto simp: add_match_def)

lemma match_key_key: "match_key fmap fc key = Some m \<Longrightarrow> fm_key m = key"
  by (auto simp: match_key_def split: option.splits)

lemma match_fold_keys:
  "fm_key ` set (fold (\<lambda>key ms. case match_key fmap fc key of None \<Rightarrow> ms | Some m \<Rightarrow> add_match m ms) keys ms) \<subseteq>
     set keys \<union> fm_key ` set ms"
proof (induction keys arbitrary: ms)
  case (Cons key keys)
  show ?case
  proof (cases "match_key fmap fc key")
    case None
    with Cons [of ms] show ?thesis by auto
  next
    case (Some m)
    with Cons [of "add_match m ms"] add_match_keys [of m ms] match_key_key [OF Some] show ?thesis by auto
  qed
qed simp

lemma match_fields_keys: "fm \<in> set (match_fields keys fmap fc) \<Longrightarrow> fm_key fm \<in> set keys"
  using match_fold_keys [of fmap fc "sort_key (map byte) keys" "[]"] by (auto simp: match_fields_def)

section \<open>Binding keeps types\<close>

lemma map_key_wt: "map_key t s = Inr k \<Longrightarrow> wt t k"
proof -
  have "fits_int (width n) i \<Longrightarrow> fits_int n i" "fits_uint (width n) i \<Longrightarrow> fits_uint n i" "width n \<in> {8, 16, 32, 64}" for n i
    by (auto simp: width_def fits_int_def fits_uint_def within_int_range_def within_uint_range_def split: if_splits)
  with parse_int_fits parse_uint_fits show "map_key t s = Inr k \<Longrightarrow> wt t k"
    by (cases t) (auto simp: map_key_def map_sum_def split: sum.splits)
qed

lemma zeros_wt: "\<forall>x\<in>set (replicate n (zero_value env t)). wt t x"
  by (simp add: wt_zero)

lemma update_entries_wt:
  "\<forall>e\<in>set es. wt k (fst e) \<and> wt t (snd e) \<Longrightarrow> wt k x \<Longrightarrow> wt t y \<Longrightarrow>
     \<forall>e\<in>set (AList.update x y es). wt k (fst e) \<and> wt t (snd e)"
  by (induction es) auto

lemma whole_wt:
  "wt (GSlice et) dst \<Longrightarrow> \<forall>x\<in>set (fst r). wt et x \<Longrightarrow> wt (GSlice et) (fst (whole dst r))"
  "wt (GArray n et) dst \<Longrightarrow> \<forall>x\<in>set (fst r). wt et x \<Longrightarrow> length (fst r) = n \<Longrightarrow> wt (GArray n et) (fst (whole dst r))"
  by (auto simp: whole_def split: prod.splits option.splits)

lemma set_wt_raw:
  assumes env: "sound_env env"
  shows "wt t dst \<and> wt_src v \<longrightarrow> wt t (fst (bind_value env t dst v))"
    and "wt (GStruct fs) dst \<and> wt_src v \<longrightarrow> wt (GStruct fs) (fst (set_struct env fs dst v))"
    and "wt (GMap kt et) dst \<and> wt_src v \<longrightarrow> wt (GMap kt et) (fst (set_map env kt et dst v))"
    and "wt (GSlice t) dst \<and> wt_src v \<longrightarrow> wt (GSlice t) (fst (set_slice env t dst v))"
    and "wt (GArray n t) dst \<and> wt_src v \<longrightarrow> wt (GArray n t) (fst (set_array env n t dst v))"
    and "wt_fields fs vs \<and> wt_src (SMap m) \<and> (\<forall>fm\<in>set fms. fm_key fm \<in> fst ` set m) \<longrightarrow>
      wt_fields fs (fst (set_fields env fs vs m fms))"
    and "(\<forall>x\<in>set xs. wt t x) \<and> (\<forall>s\<in>set ss. wt_src s) \<longrightarrow>
      (\<forall>x\<in>set (fst (set_elems env t i xs ss)). wt t x) \<and> length (fst (set_elems env t i xs ss)) = length xs"
    and "(\<forall>e\<in>set es. wt kt (fst e) \<and> wt et (snd e)) \<and> wt_src (SMap m) \<longrightarrow>
      (\<forall>es2. set_entries env kt et es m = Inr es2 \<longrightarrow> (\<forall>e\<in>set es2. wt kt (fst e) \<and> wt et (snd e)))"
  using env
proof (induction env t dst v and env fs dst v and env kt et dst v and env t dst v and env n t dst v and
    env fs vs m fms and env t i xs ss and env kt et es m
    rule: bind_value_set_struct_set_map_set_slice_set_array_set_fields_set_elems_set_entries.induct)
  case (1 env t dst v)
  have "wt t (fst (bind_value env t dst v))" if w: "wt t dst" "wt_src v"
  proof (cases t)
    case (GPtr t2)
    then have "wt t2 (case dst of VPtr x \<Rightarrow> x | _ \<Rightarrow> zero_value env t2)"
      using w wt_zero by (auto split: gval.splits)
    with 1 GPtr w show ?thesis
      by (auto simp: bind_value.simps [of env "GPtr t2" dst v] split: prod.splits)
  qed (use 1 w wt_zero [of t env] set_basic_wt [of env v t] in
      \<open>auto simp: bind_value.simps [of env _ dst v] split: sum.splits\<close>)
  then show ?case by blast
next
  case (2 env fs dst v)
  have "wt (GStruct fs) (fst (set_struct env fs dst v))" if w: "wt (GStruct fs) dst" "wt_src v"
  proof (cases v)
    case (SMap m)
    from w(1) obtain vs where "dst = VStruct vs" "wt_fields fs vs" by auto
    with 2 SMap w match_fields_keys [of _ "map fst m"] show ?thesis
      by (auto split: prod.splits)
  next
    case (STyped t2 x)
    with w wt_untagged [of t2 x] wt_untagged [of "GStruct fs" x] show ?thesis by auto
  qed (use w in auto)
  then show ?case by blast
next
  case (3 env kt et dst v)
  then show ?case by (auto split: src.splits sum.splits)
next
  case (4 env et dst v)
  have grown: "\<forall>x\<in>set (old @ replicate n (zero_value env et)). wt et x"
    if "\<forall>x\<in>set old. wt et x" for old n
    using that wt_zero by auto
  have "wt (GSlice et) (fst (set_slice env et dst v))" if w: "wt (GSlice et) dst" "wt_src v"
  proof (cases "csv_source v")
    case (Some s)
    have "\<forall>x\<in>set (case dst of VSeq xs \<Rightarrow> xs | _ \<Rightarrow> []). wt et x" using w by auto
    from grown [OF this] 4(2) [OF Some refl refl 4(3)] Some show ?thesis
      by (auto simp: Let_def split: prod.splits)
  next
    case csv: None
    show ?thesis
    proof (cases "seq_source v")
      case None
      with csv w show ?thesis by simp
    next
      case (Some p)
      obtain x vs where p: "p = (x, vs)" by fastforce
      note src = seq_source_wt [OF w(2) Some [unfolded p], of "GSlice et"]
      show ?thesis
      proof (cases "assignable (GSlice et) x")
        case None
        with 4(1) [OF csv Some p [symmetric] None 4(3)] src zeros_wt [of "length vs" env et]
        have "\<forall>x\<in>set (fst (set_elems env et 0 (replicate (length vs) (zero_value env et)) vs)). wt et x"
          by blast
        from whole_wt(1) [OF w(1) this] csv Some p None show ?thesis by simp
      next
        case (Some y)
        with src csv \<open>seq_source v = Some p\<close> p show ?thesis by simp
      qed
    qed
  qed
  then show ?case by blast
next
  case (5 env n et dst v)
  then show ?case using zeros_wt [of n env et] by (auto simp: whole_def split: src.splits option.splits prod.splits)
next
  case (6 env fs vs m)
  then show ?case by simp
next
  case (7 env fs vs m fm fms)
  have "wt_fields fs (fst (set_fields env fs vs m (fm # fms)))"
    if w: "wt_fields fs vs" "wt_src (SMap m)" "\<forall>fm\<in>set (fm # fms). fm_key fm \<in> fst ` set m"
  proof (cases "get_path env fs vs (fi_path (fm_info fm))")
    case None
    with 7 w show ?thesis by auto
  next
    case (Some p)
    obtain t x where p: "get_path env fs vs (fi_path (fm_info fm)) = Some (t, x)" using Some by (cases p) auto
    have "map_of m (fm_key fm) \<noteq> None" using w(3) by (simp add: map_of_eq_None_iff)
    then have "(fm_key fm, the (map_of m (fm_key fm))) \<in> set m" by (auto intro: map_of_SomeD)
    then have v: "wt_src (the (map_of m (fm_key fm)))" using w(2) by auto
    obtain y e where y: "bind_value env t x (the (map_of m (fm_key fm))) = (y, e)" by fastforce
    have "wt t y" using 7(2) [OF p refl 7(4)] get_path_wt [OF p w(1)] v y by simp
    from put_path_wt [OF p w(1) this] 7(3) [OF p refl y [symmetric] _ 7(4)] w p y show ?thesis
      by (cases e) auto
  qed
  then show ?case by blast
next
  case (8 env t i xs)
  then show ?case by simp
next
  case (9 env t i v vs)
  then show ?case by simp
next
  case (10 env t i x xs v vs)
  obtain y e where y: "bind_value env t x v = (y, e)" by fastforce
  show ?case
  proof (cases e)
    case None
    obtain ys e2 where "set_elems env t (Suc i) xs vs = (ys, e2)" by fastforce
    with 10(1) [OF 10(3)] 10(2) [OF y [symmetric] None 10(3)] y None show ?thesis by simp
  next
    case (Some err)
    with 10(1) [OF 10(3)] y show ?thesis by simp
  qed
next
  case (11 env kt et es)
  then show ?case by simp
next
  case (12 env kt et es mk mv m)
  show ?case
  proof (cases "map_key kt mk :: (bind_err, 'a gval) result")
    case (Inr k)
    obtain x e where x: "bind_value env et (zero_value env et) mv = (x, e)" by fastforce
    show ?thesis
    proof (cases e)
      case None
      have step: "set_entries env kt et es ((mk, mv) # m) = set_entries env kt et (AList.update k x es) m"
        using Inr x None by simp
      have "wt et x" if "wt_src mv"
        using 12(1) [OF Inr 12(3)] x wt_zero [of et env] that by simp
      then have "\<forall>e\<in>set (AList.update k x es). wt kt (fst e) \<and> wt et (snd e)"
        if "\<forall>e\<in>set es. wt kt (fst e) \<and> wt et (snd e)" "wt_src (SMap ((mk, mv) # m))"
        using update_entries_wt [OF that(1) map_key_wt [OF Inr]] that(2) by simp
      moreover have "wt_src (SMap ((mk, mv) # m)) \<Longrightarrow> wt_src (SMap m)" by simp
      ultimately show ?thesis
        unfolding step using 12(2) [OF Inr x [symmetric] None 12(3)] by blast
    qed (use Inr x in simp)
  qed simp
qed
text \<open>C11: binding never leaves a value of another type in the destination. Whatever the source holds
and whether Bind succeeds or stops at an error half way, every field still holds a value of its
type: integers are within the width of their field, whatever width, sign or text they came from,
arrays keep their length, maps and slices hold values of their element type, and so on through
nested and embedded structs, pointers and interfaces.\<close>

theorem bind_type_sound:
  assumes "sound_env env" and "wt_fields fs vs" and "wt_src (SMap m)"
  shows "wt_fields fs (fst (bind env fs vs m))"
  using set_wt_raw(6) [OF assms(1), of fs vs m] assms(2,3) match_fields_keys [of _ "map fst m"]
  by (simp add: bind_def)

section \<open>The paths of fields\<close>

fun leaf :: "sfield list \<Rightarrow> nat list \<Rightarrow> bool" where
  "leaf fs [] = False"
| "leaf fs [i] = (i < length fs \<and> sf_exported (fs ! i) \<and>
     (sf_anonymous (fs ! i) \<longrightarrow> embedded_struct (sf_type (fs ! i)) = None))"
| "leaf fs (i # j # p) = (i < length fs \<and> sf_exported (fs ! i) \<and> sf_anonymous (fs ! i) \<and>
     (case embedded_struct (sf_type (fs ! i)) of Some inner \<Rightarrow> leaf inner (j # p) | None \<Rightarrow> False))"

lemma leaf_Suc: "leaf (f # fs) (Suc j # q) = leaf fs (j # q)"
  by (cases q) auto

lemma add_field_entry:
  "(k, fi) \<in> set (add_field name tag path out) \<Longrightarrow> (k, fi) \<in> set out \<or> fi_path fi = path"
proof -
  have upd: "(k, fi) \<in> set (AList.update k2 x xs) \<Longrightarrow> (k, fi) \<in> set xs \<or> fi = x" for k2 x and xs :: "(string \<times> field_info) list"
    by (induction xs) (auto split: if_splits)
  assume "(k, fi) \<in> set (add_field name tag path out)"
  then show ?thesis by (auto simp: add_field_def Let_def split: option.splits if_splits dest!: upd)
qed

lemma field_map_leaf:
  "(k, fi) \<in> set (field_map fs path i out) \<Longrightarrow>
     (k, fi) \<in> set out \<or> (\<exists>j q. fi_path fi = path @ (i + j) # q \<and> leaf fs (j # q))"
proof (induction fs path i out rule: field_map.induct)
  case (2 name tag ex an t fs path i out)
  let ?f = "SField name tag ex an t"
  let ?out = "if \<not> ex then out else (case (if an then embedded_struct t else None) of
      Some inner \<Rightarrow> field_map inner (path @ [i]) 0 out | None \<Rightarrow> add_field name tag (path @ [i]) out)"
  from "2.prems" have "(k, fi) \<in> set (field_map fs path (Suc i) ?out)" by simp
  with "2.IH"(2) consider (now) "(k, fi) \<in> set ?out"
    | (later) j q where "fi_path fi = path @ (Suc i + j) # q" "leaf fs (j # q)"
    by blast
  then show ?case
  proof cases
    case later
    then have "fi_path fi = path @ (i + Suc j) # q" "leaf (?f # fs) (Suc j # q)" by (simp_all add: leaf_Suc)
    then show ?thesis by blast
  next
    case now
    show ?thesis
    proof (cases "ex \<and> (k, fi) \<notin> set out")
      case True
      show ?thesis
      proof (cases "if an then embedded_struct t else None")
        case None
        with now True add_field_entry [of k fi name tag "path @ [i]" out]
        have "fi_path fi = path @ (i + 0) # []" by simp
        moreover have "leaf (?f # fs) [0]" using True None by (auto split: if_splits)
        ultimately show ?thesis by blast
      next
        case (Some inner)
        with now True "2.IH"(1) [OF _ Some] obtain j q where
          "fi_path fi = (path @ [i]) @ (0 + j) # q" "leaf inner (j # q)" by auto
        moreover from this Some True have "leaf (?f # fs) (0 # j # q)" by (auto split: if_splits)
        ultimately have "fi_path fi = path @ (i + 0) # (j # q)" "leaf (?f # fs) (0 # j # q)" by simp_all
        then show ?thesis by blast
      qed
    qed (use now in auto)
  qed
qed simp

lemma embedded_deref:
  assumes "embedded_struct t = Some inner" and "wt t v"
  obtains vs2 where "deref env t v = (GStruct inner, VStruct vs2)" "wt_fields inner vs2"
proof -
  from assms(1) have t: "t = GStruct inner \<or> t = GPtr (GStruct inner)"
    by (auto simp: embedded_struct_def split: gtype.splits)
  then have "fst (deref env t v) = GStruct inner" by (auto simp: deref_def)
  with deref_wt [OF assms(2), of env] that show ?thesis by (cases "deref env t v") auto
qed

lemma get_path_leaf: "leaf fs p \<Longrightarrow> wt_fields fs vs \<Longrightarrow> get_path env fs vs p \<noteq> None"
proof (induction env fs vs p rule: get_path.induct)
  case (2 env fs vs i)
  then show ?case by (auto dest: list_all2_lengthD)
next
  case (3 env fs vs i j p)
  then obtain inner where e: "embedded_struct (sf_type (fs ! i)) = Some inner" "leaf inner (j # p)" "i < length fs"
    by (auto split: option.splits)
  moreover have "wt (sf_type (fs ! i)) (vs ! i)" "i < length vs"
    using 3 e by (auto simp: list_all2_conv_all_nth)
  ultimately obtain vs2 where "deref env (sf_type (fs ! i)) (vs ! i) = (GStruct inner, VStruct vs2)" "wt_fields inner vs2"
    using embedded_deref by metis
  with 3 e \<open>i < length vs\<close> show ?case by auto
qed simp

text \<open>Writing one field leaves every other field as it was.\<close>

lemma get_put_path:
  assumes "leaf fs p" and "leaf fs q" and "wt_fields fs vs"
  shows "get_path env fs (put_path env fs vs p x) q =
    (if q = p then map_option (\<lambda>(t, _). (t, x)) (get_path env fs vs p) else get_path env fs vs q)"
  using assms
proof (induction env fs vs p arbitrary: q rule: get_path.induct)
  case (2 env fs vs i)
  then have len: "i < length fs" "i < length vs" by (auto dest: list_all2_lengthD)
  show ?case
  proof (cases "\<exists>i2. q = [i2]")
    case True
    then obtain i2 where q: "q = [i2]" by blast
    show ?thesis
    proof (cases "i2 = i")
      case True
      with q len deref_reref [of env "sf_type (fs ! i)" x "vs ! i"] show ?thesis
        by (cases "deref env (sf_type (fs ! i)) (vs ! i)") simp
    qed (use q len in simp)
  next
    case False
    with "2.prems"(2) obtain i2 j2 q2 where q: "q = i2 # j2 # q2" by (metis leaf.simps(1) neq_Nil_conv)
    with "2.prems" have "i2 \<noteq> i" by (auto split: option.splits)
    with q len show ?thesis by simp
  qed
next
  case (3 env fs vs i j p)
  then obtain inner where e: "embedded_struct (sf_type (fs ! i)) = Some inner" "leaf inner (j # p)" "i < length fs"
      "sf_anonymous (fs ! i)"
    by (auto split: option.splits)
  have len: "i < length vs" using 3 e by (auto dest: list_all2_lengthD)
  have "wt (sf_type (fs ! i)) (vs ! i)" using 3 e by (auto simp: list_all2_conv_all_nth)
  from embedded_deref [OF e(1) this] obtain vs2 where
    d: "deref env (sf_type (fs ! i)) (vs ! i) = (GStruct inner, VStruct vs2)" "wt_fields inner vs2" by metis
  have d2: "deref env (sf_type (fs ! i)) (reref (sf_type (fs ! i)) y) = (GStruct inner, y)" for y
    using deref_reref [of env "sf_type (fs ! i)" y "vs ! i"] d(1) by simp
  show ?case
  proof (cases "\<exists>i2. q = [i2]")
    case True
    then obtain i2 where q: "q = [i2]" by blast
    with "3.prems" e have "i2 \<noteq> i" by auto
    with q len d show ?thesis by simp
  next
    case False
    with "3.prems"(2) obtain i2 j2 q2 where q: "q = i2 # j2 # q2" by (metis leaf.simps(1) neq_Nil_conv)
    show ?thesis
    proof (cases "i2 = i")
      case True
      with q "3.prems"(2) e have l: "leaf inner (j2 # q2)" by auto
      have "get_path env inner (put_path env inner vs2 (j # p) x) (j2 # q2) =
          (if j2 # q2 = j # p then map_option (\<lambda>(t, _). (t, x)) (get_path env inner vs2 (j # p))
           else get_path env inner vs2 (j2 # q2))"
        using "3.IH" [OF _ d(1) [symmetric] refl refl e(2) l d(2)] e len by simp
      then show ?thesis using e len d d2 q True by simp
    qed (use q len d in simp)
  qed
qed simp

section \<open>Setting the matched fields\<close>

definition fm_path :: "field_match \<Rightarrow> nat list" where
  "fm_path fm = fi_path (fm_info fm)"

lemma set_fields_spec:
  assumes env: "sound_env env" and src: "wt_src (SMap m)"
    and "distinct (map fm_path fms)" and "\<forall>fm\<in>set fms. leaf fs (fm_path fm) \<and> fm_key fm \<in> fst ` set m"
    and "wt_fields fs vs" and "set_fields env fs vs m fms = (vs2, None)" and leaf: "leaf fs p"
  shows "(\<forall>fm\<in>set fms. fm_path fm = p \<longrightarrow>
        (\<exists>t x y. get_path env fs vs p = Some (t, x) \<and>
           bind_value env t x (the (map_of m (fm_key fm))) = (y, None) \<and> get_path env fs vs2 p = Some (t, y))) \<and>
      (p \<notin> fm_path ` set fms \<longrightarrow> get_path env fs vs2 p = get_path env fs vs p)"
  using assms(3-6)
proof (induction fms arbitrary: vs)
  case (Cons fm fms)
  from Cons.prems get_path_leaf [of fs "fm_path fm" vs env] obtain t x where
    g: "get_path env fs vs (fm_path fm) = Some (t, x)" by fastforce
  obtain y e where y: "bind_value env t x (the (map_of m (fm_key fm))) = (y, e)" by fastforce
  let ?vs = "put_path env fs vs (fm_path fm) y"
  from Cons.prems(4) g y have e: "e = None" and rest: "set_fields env fs ?vs m fms = (vs2, None)"
    by (auto simp: fm_path_def split: option.splits)
  have "map_of m (fm_key fm) \<noteq> None" using Cons.prems(2) by (simp add: map_of_eq_None_iff)
  then have "(fm_key fm, the (map_of m (fm_key fm))) \<in> set m" by (auto intro: map_of_SomeD)
  then have "wt_src (the (map_of m (fm_key fm)))" using src by auto
  with set_wt_raw(1) [OF env, of t x] get_path_wt [OF g Cons.prems(3)] y have "wt t y" by (metis fst_conv)
  from put_path_wt [OF g Cons.prems(3) this] have w: "wt_fields fs ?vs" .
  from Cons.IH [OF _ _ w rest] Cons.prems(1,2)
  have IH: "(\<forall>fm\<in>set fms. fm_path fm = p \<longrightarrow>
        (\<exists>t x y. get_path env fs ?vs p = Some (t, x) \<and>
           bind_value env t x (the (map_of m (fm_key fm))) = (y, None) \<and> get_path env fs vs2 p = Some (t, y))) \<and>
      (p \<notin> fm_path ` set fms \<longrightarrow> get_path env fs vs2 p = get_path env fs ?vs p)"
    by simp
  have put: "get_path env fs ?vs p = (if p = fm_path fm then Some (t, y) else get_path env fs vs p)"
    using get_put_path [of fs "fm_path fm" p vs env y] leaf Cons.prems(2,3) g by simp
  show ?case
  proof (cases "p = fm_path fm")
    case True
    with Cons.prems(1) have "p \<notin> fm_path ` set fms" by auto
    with IH have "get_path env fs vs2 p = Some (t, y)" using put True by simp
    moreover have "fm2 = fm" if "fm2 \<in> set (fm # fms)" "fm_path fm2 = p" for fm2
      using that \<open>p \<notin> fm_path ` set fms\<close> by auto
    ultimately show ?thesis using True y e g by auto
  next
    case False
    with IH put show ?thesis by auto
  qed
qed simp

text \<open>The field at a path went from its old value to the value that setting it from the source value gives.\<close>

definition field_spec ::
  "'a go_env \<Rightarrow> sfield list \<Rightarrow> 'a gval list \<Rightarrow> 'a gval list \<Rightarrow> nat list \<Rightarrow> 'a src \<Rightarrow> bool" where
  "field_spec env fs vs vs2 p v \<longleftrightarrow> (\<exists>t x y. get_path env fs vs p = Some (t, x) \<and>
     bind_value env t x v = (y, None) \<and> get_path env fs vs2 p = Some (t, y))"

lemma set_fields_at:
  assumes "sound_env env" and "wt_src (SMap m)" and "distinct (map fm_path fms)"
    and "\<forall>fm\<in>set fms. leaf fs (fm_path fm) \<and> fm_key fm \<in> fst ` set m"
    and "wt_fields fs vs" and "set_fields env fs vs m fms = (vs2, None)" and "leaf fs p"
    and "fm \<in> set fms" and "fm_path fm = p"
  shows "\<exists>t x y. get_path env fs vs p = Some (t, x) \<and>
    bind_value env t x (the (map_of m (fm_key fm))) = (y, None) \<and> get_path env fs vs2 p = Some (t, y)"
  using set_fields_spec [OF assms(1-7)] assms(8,9) by blast

lemma set_fields_skip:
  assumes "sound_env env" and "wt_src (SMap m)" and "distinct (map fm_path fms)"
    and "\<forall>fm\<in>set fms. leaf fs (fm_path fm) \<and> fm_key fm \<in> fst ` set m"
    and "wt_fields fs vs" and "set_fields env fs vs m fms = (vs2, None)" and "leaf fs p"
    and "p \<notin> fm_path ` set fms"
  shows "get_path env fs vs2 p = get_path env fs vs p"
  using set_fields_spec [OF assms(1-7)] assms(8) by blast

section \<open>The best match\<close>

text \<open>A match is better by its rank, then by its key in byte order.\<close>

definition better :: "field_match \<Rightarrow> field_match \<Rightarrow> bool" where
  "better a b \<longleftrightarrow> fm_rank a < fm_rank b \<or> fm_rank a = fm_rank b \<and> map byte (fm_key a) \<le> map byte (fm_key b)"

definition is_best :: "(string \<times> field_info) list \<Rightarrow> bool \<Rightarrow> string set \<Rightarrow> field_match \<Rightarrow> bool" where
  "is_best fmap fc keys fm \<longleftrightarrow> fm_key fm \<in> keys \<and> match_key fmap fc (fm_key fm) = Some fm \<and>
     (\<forall>k\<in>keys. \<forall>m. match_key fmap fc k = Some m \<and> fm_path m = fm_path fm \<longrightarrow> better fm m)"

definition matched :: "(string \<times> field_info) list \<Rightarrow> bool \<Rightarrow> string set \<Rightarrow> nat list \<Rightarrow> bool" where
  "matched fmap fc keys p \<longleftrightarrow> (\<exists>k\<in>keys. \<exists>m. match_key fmap fc k = Some m \<and> fm_path m = p)"

definition matches_ok :: "(string \<times> field_info) list \<Rightarrow> bool \<Rightarrow> string set \<Rightarrow> field_match list \<Rightarrow> bool" where
  "matches_ok fmap fc keys ms \<longleftrightarrow> distinct (map fm_path ms) \<and> (\<forall>m\<in>set ms. is_best fmap fc keys m) \<and>
     (\<forall>p. matched fmap fc keys p \<longrightarrow> p \<in> fm_path ` set ms)"

lemma add_match_ok:
  assumes ok: "matches_ok fmap fc keys ms" and m: "match_key fmap fc key = Some m"
    and last: "\<forall>k\<in>keys. map byte k \<le> map byte key"
  shows "matches_ok fmap fc (insert key keys) (add_match m ms)"
proof -
  have key: "fm_key m = key" by (rule match_key_key [OF m])
  have best: "\<And>x. x \<in> set ms \<Longrightarrow> is_best fmap fc keys x" and dist: "distinct (map fm_path ms)"
    and cover: "\<And>p. matched fmap fc keys p \<Longrightarrow> p \<in> fm_path ` set ms"
    using ok by (auto simp: matches_ok_def)
  have keep: "is_best fmap fc (insert key keys) x"
    if "x \<in> set ms" "fm_path x = fm_path m \<longrightarrow> \<not> fm_rank m < fm_rank x" for x
  proof -
    have "better x m" if "fm_path x = fm_path m"
      using best [OF \<open>x \<in> set ms\<close>] \<open>fm_path x = fm_path m \<longrightarrow> \<not> fm_rank m < fm_rank x\<close> that last key
      by (auto simp: better_def is_best_def)
    with best [OF that(1)] m show ?thesis by (auto simp: is_best_def)
  qed
  show ?thesis
  proof (cases "\<exists>x\<in>set ms. fm_path x = fm_path m")
    case True
    let ?f = "\<lambda>x. if fm_path x = fm_path m \<and> fm_rank m < fm_rank x then m else x"
    have add: "add_match m ms = map ?f ms" using True by (simp add: add_match_def fm_path_def)
    have paths: "map fm_path (map ?f ms) = map fm_path ms" by simp
    have "is_best fmap fc (insert key keys) m" if "x \<in> set ms" "fm_path x = fm_path m" "fm_rank m < fm_rank x" for x
      using best [OF that(1)] that m key by (auto simp: is_best_def better_def)
    then have "\<forall>y\<in>set (map ?f ms). is_best fmap fc (insert key keys) y" using keep by auto
    moreover have "matched fmap fc (insert key keys) p \<Longrightarrow> p \<in> fm_path ` set (map ?f ms)" for p
    proof -
      assume "matched fmap fc (insert key keys) p"
      then have "matched fmap fc keys p \<or> p = fm_path m" using m by (auto simp: matched_def)
      then have "p \<in> set (map fm_path ms)" using cover [of p] True by (auto simp: image_iff) metis
      then show ?thesis unfolding paths [symmetric] by (simp only: set_map)
    qed
    ultimately show ?thesis using dist unfolding matches_ok_def add paths by blast
  next
    case False
    then have add: "add_match m ms = ms @ [m]" by (auto simp: add_match_def fm_path_def)
    have none: "\<not> matched fmap fc keys (fm_path m)" using cover [of "fm_path m"] False by (metis imageE)
    then have "is_best fmap fc (insert key keys) m"
      using m key by (auto simp: is_best_def matched_def better_def)
    moreover have "\<forall>x\<in>set ms. is_best fmap fc (insert key keys) x" using keep False by blast
    ultimately show ?thesis
      using dist cover False m by (auto simp: matches_ok_def add matched_def)
  qed
qed

lemma skip_match_ok:
  "matches_ok fmap fc keys ms \<Longrightarrow> match_key fmap fc key = None \<Longrightarrow> matches_ok fmap fc (insert key keys) ms"
  by (auto simp: matches_ok_def is_best_def matched_def)

lemma match_fold_ok:
  assumes "matches_ok fmap fc keys ms" and "sorted (map (map byte) ks)"
    and "\<forall>k\<in>keys. \<forall>k2\<in>set ks. map byte k \<le> map byte k2"
  shows "matches_ok fmap fc (keys \<union> set ks)
    (fold (\<lambda>key ms. case match_key fmap fc key of None \<Rightarrow> ms | Some m \<Rightarrow> add_match m ms) ks ms)"
  using assms
proof (induction ks arbitrary: keys ms)
  case (Cons key ks)
  let ?ms = "case match_key fmap fc key of None \<Rightarrow> ms | Some m \<Rightarrow> add_match m ms"
  have "matches_ok fmap fc (insert key keys) ?ms"
    using Cons.prems add_match_ok [of fmap fc keys ms key] skip_match_ok [of fmap fc keys ms key]
    by (auto split: option.splits)
  from Cons.IH [OF this] Cons.prems show ?case by auto
qed simp

lemma match_fields_ok: "matches_ok fmap fc (set keys) (match_fields keys fmap fc)"
  using match_fold_ok [of fmap fc "{}" "[]" "sort_key (map byte) keys"]
  by (simp add: match_fields_def matches_ok_def matched_def)

lemma field_map_leaf0: "map_of (field_map fs [] 0 []) k = Some fi \<Longrightarrow> leaf fs (fi_path fi)"
  using field_map_leaf [OF map_of_SomeD, of fs "[]" 0 "[]" k fi] by auto

lemma match_key_leaf: "match_key (field_map fs [] 0 []) fc k = Some m \<Longrightarrow> leaf fs (fm_path m)"
  using field_map_leaf0 [of fs]
  by (auto simp: match_key_def fm_path_def split: option.splits if_splits)

lemma best_unique: "is_best fmap fc keys a \<Longrightarrow> is_best fmap fc keys b \<Longrightarrow> fm_path a = fm_path b \<Longrightarrow> a = b"
proof -
  assume a: "is_best fmap fc keys a" and b: "is_best fmap fc keys b" and p: "fm_path a = fm_path b"
  then have "better a b" "better b a" by (auto simp: is_best_def)
  then have "map byte (fm_key a) = map byte (fm_key b)" by (auto simp: better_def)
  then have "fm_key a = fm_key b" by (simp add: inj_map_eq_map inj_def byte_inj)
  with a b show "a = b" by (auto simp: is_best_def)
qed

lemma best_listed:
  "set (match_fields keys fmap fc) = {fm. is_best fmap fc (set keys) fm}"
proof -
  have ok: "matches_ok fmap fc (set keys) (match_fields keys fmap fc)" by (rule match_fields_ok)
  have "fm \<in> set (match_fields keys fmap fc)" if "is_best fmap fc (set keys) fm" for fm
  proof -
    have "matched fmap fc (set keys) (fm_path fm)" using that by (auto simp: is_best_def matched_def)
    with ok obtain fm2 where "fm2 \<in> set (match_fields keys fmap fc)" "fm_path fm2 = fm_path fm"
      unfolding matches_ok_def by (metis imageE)
    with ok best_unique [OF _ that, of fm2] show ?thesis by (auto simp: matches_ok_def)
  qed
  with ok show ?thesis by (auto simp: matches_ok_def)
qed

lemma matched_best: "matched fmap fc (set keys) p \<longleftrightarrow> (\<exists>fm. is_best fmap fc (set keys) fm \<and> fm_path fm = p)"
proof
  assume "matched fmap fc (set keys) p"
  with match_fields_ok [of fmap fc keys] obtain fm where "fm \<in> set (match_fields keys fmap fc)" "fm_path fm = p"
    unfolding matches_ok_def by (metis imageE)
  with best_listed [of keys fmap fc] show "\<exists>fm. is_best fmap fc (set keys) fm \<and> fm_path fm = p" by blast
next
  assume "\<exists>fm. is_best fmap fc (set keys) fm \<and> fm_path fm = p"
  then show "matched fmap fc (set keys) p" unfolding is_best_def matched_def by blast
qed

text \<open>C12: what a successful Bind does to each field, exported and not itself an embedded struct, at
any depth of embedding. If source keys match it, there is exactly one best of them (a json tag
before a name, then the least key), the field is set from that key's value alone, and setting it
met no error; if none does, the field keeps the value it had. So the result depends on the set of
keys and their values, not on the order of the map.\<close>

theorem bind_fields:
  assumes "sound_env env" and "wt_fields fs vs" and "wt_src (SMap m)"
    and run: "bind env fs vs m = (vs2, None)" and leaf: "leaf fs p"
  shows "if matched (field_map fs [] 0 []) False (fst ` set m) p
    then \<exists>fm. is_best (field_map fs [] 0 []) False (fst ` set m) fm \<and> fm_path fm = p \<and>
       (\<forall>fm2. is_best (field_map fs [] 0 []) False (fst ` set m) fm2 \<and> fm_path fm2 = p \<longrightarrow> fm2 = fm) \<and>
       field_spec env fs vs vs2 p (the (map_of m (fm_key fm)))
    else get_path env fs vs2 p = get_path env fs vs p"
proof -
  let ?fmap = "field_map fs [] 0 []" and ?keys = "fst ` set m"
  let ?ms = "match_fields (map fst m) ?fmap False"
  have ms: "set ?ms = {fm. is_best ?fmap False ?keys fm}" using best_listed [of "map fst m"] by simp
  have dist: "distinct (map fm_path ?ms)" using match_fields_ok by (auto simp: matches_ok_def)
  have ok: "\<forall>fm\<in>set ?ms. leaf fs (fm_path fm) \<and> fm_key fm \<in> fst ` set m"
    unfolding ms using match_key_leaf by (auto simp: is_best_def)
  have go: "set_fields env fs vs m ?ms = (vs2, None)" using run by (simp only: bind_def)
  show ?thesis
  proof (cases "matched ?fmap False ?keys p")
    case True
    then obtain fm where fm: "is_best ?fmap False ?keys fm" "fm_path fm = p"
      using matched_best [of ?fmap False "map fst m" p] by auto
    then have "fm \<in> set ?ms" using ms by simp
    from set_fields_at [OF assms(1,3) dist ok assms(2) go leaf this fm(2)]
    have "\<exists>t x y. get_path env fs vs p = Some (t, x) \<and>
      bind_value env t x (the (map_of m (fm_key fm))) = (y, None) \<and> get_path env fs vs2 p = Some (t, y)" .
    then have spec: "field_spec env fs vs vs2 p (the (map_of m (fm_key fm)))" by (simp only: field_spec_def)
    have u: "\<forall>fm2. is_best ?fmap False ?keys fm2 \<and> fm_path fm2 = p \<longrightarrow> fm2 = fm"
    proof (intro allI impI)
      fix fm2 assume "is_best ?fmap False ?keys fm2 \<and> fm_path fm2 = p"
      then show "fm2 = fm" using fm(2) by (intro best_unique [OF conjunct1 fm(1)]) simp_all
    qed
    show ?thesis
      using fm u spec by (subst if_P [OF True]) blast
  next
    case False
    then have "p \<notin> fm_path ` set ?ms"
      unfolding ms using matched_best [of ?fmap False "map fst m" p] by auto
    from set_fields_skip [OF assms(1,3) dist ok assms(2) go leaf this] False show ?thesis by (simp only: if_False)
  qed
qed

section \<open>Two corners\<close>

text \<open>A string for a slice is split at its commas and written over the elements the slice has: a
default that is longer keeps its tail.\<close>

theorem csv_keeps_tail:
  "bind_value env (GSlice GString) (VSeq [VString ''a'', VString ''b'', VString ''c'']) (SString ''x'') =
     (VSeq [VString ''x'', VString ''b'', VString ''c''], None)"
proof -
  have "split_at CHR '','' ''x'' = [''x'']" and "trim_space ''x'' = ''x''" by code_simp+
  then show ?thesis
    by (simp add: bind_value.simps [of env "GSlice GString"] bind_value.simps [of env GString] csv_source_def
        set_basic_def to_string_def)
qed

text \<open>A json tag with an upper-case letter names no key of a Config, whose keys are lower case.\<close>

theorem upper_tag_unmatched:
  "match_fields [''dbhost''] (field_map [SField ''Host'' ''dbHost'' True False GString] [] 0 []) fold_case = []"
  by (cases fold_case; simp only:; code_simp)

section \<open>A concrete configuration\<close>

definition bind_demo_env :: "int go_env" where
  "bind_demo_env = \<lparr>ge_parse_float = (\<lambda>_. None), ge_parse_duration = (\<lambda>_. None), ge_show = (\<lambda>_. []),
     ge_of_int = (\<lambda>i. i), ge_to_int = (\<lambda>_. 0), ge_to_uint = (\<lambda>_. 0), ge_eq_zero = (\<lambda>x. x = 0),
     ge_is_zero = (\<lambda>x. x = 0), ge_negative = (\<lambda>x. x < 0)\<rparr>"

definition demo_fields :: "sfield list" where
  "demo_fields = [SField ''Port'' ''port'' True False (GInt 16), SField ''Host'' [] True False GString]"

definition demo_vals :: "int gval list" where
  "demo_vals = [VInt 80, VString ''localhost'']"

definition demo_src :: "(string \<times> int src) list" where
  "demo_src = [(''port'', SString ''8080'')]"

lemma demo_bind_ok: "sound_env bind_demo_env" "wt_fields demo_fields demo_vals" "wt_src (SMap demo_src)"
  by (simp_all add: sound_env_def bind_demo_env_def demo_fields_def demo_vals_def demo_src_def fits_int_def
      within_int_range_def)

lemma demo_bind_run: "bind bind_demo_env demo_fields demo_vals demo_src = ([VInt 8080, VString ''localhost''], None)"
  by code_simp

theorem bind_type_sound_witness: "wt_fields demo_fields (fst (bind bind_demo_env demo_fields demo_vals demo_src))"
  by (rule bind_type_sound [OF demo_bind_ok])

theorem bind_fields_witness:
  "get_path bind_demo_env demo_fields [VInt 8080, VString ''localhost''] [1] =
   get_path bind_demo_env demo_fields demo_vals [1]"
proof -
  have l: "leaf demo_fields [1]" by (simp add: demo_fields_def)
  have "\<not> matched (field_map demo_fields [] 0 []) False (fst ` set demo_src) [1]"
  proof -
    have "map_option fm_path (match_key (field_map demo_fields [] 0 []) False ''port'') = Some [0]" by code_simp
    then show ?thesis by (auto simp: matched_def demo_src_def)
  qed
  with bind_fields [OF demo_bind_ok demo_bind_run l] show ?thesis by simp
qed

end
