(* ===== verification/Auth_ApiKeys.thy ===== *)
theory Auth_ApiKeys
  imports Auth_Sessions Go_Strings
begin

text \<open>
  auth/apikey: API keys (apikey.go) over the database store (db/store.go) and its adapters for three
  databases (db/adapters.go). As for sessions the table is its list of rows and a statement an atomic
  step that may fail; Authenticate reads the row in one statement and sets last_used in another,
  between which other calls run. Times are in nanoseconds since 1970. SHA-256, random strings, ids,
  encoding/json and the precision of a timestamp column are arguments; the SQLite adapter writes
  times as text itself, which stands here for the second it denotes.
\<close>

section \<open>Columns\<close>

datatype dialect = Postgres | MySQL | SQLite

record 'v api_env =
  ae_dialect :: dialect
  ae_round :: "int \<Rightarrow> int"
  ae_sha :: "string \<Rightarrow> string"
  ae_marshal :: "(string \<times> 'v) list \<Rightarrow> string option"
  ae_unmarshal :: "string \<Rightarrow> (string \<times> 'v) list option"
  ae_prefix :: string

datatype scope_col = TextArray "string list" | CommaText string

record api_row =
  ar_id :: string
  ar_subject :: string
  ar_name :: string
  ar_hash :: string
  ar_prefix :: string
  ar_scopes :: scope_col
  ar_metadata :: string
  ar_last_used :: "int option"
  ar_expires :: "int option"
  ar_deleted :: "int option"
  ar_created :: int

text \<open>keyRow, with the metadata as JSON text, and KeyInfo, with the metadata as a map.\<close>

record 'm key_info =
  ki_id :: string
  ki_subject :: string
  ki_name :: string
  ki_hash :: string
  ki_prefix :: string
  ki_scopes :: "string list"
  ki_metadata :: 'm
  ki_last_used :: "int option"
  ki_expires :: "int option"
  ki_deleted :: "int option"
  ki_created :: int

definition clean_string_slice :: "string list \<Rightarrow> string list" where
  "clean_string_slice s = filter (\<lambda>p. p \<noteq> []) (map trim_space s)"

definition split_commas :: "string \<Rightarrow> string list" where
  "split_commas s = clean_string_slice (split_at CHR '','' s)"

definition join_commas :: "string list \<Rightarrow> string" where
  "join_commas s = join_with '','' (clean_string_slice s)"

text \<open>The scopes column: an array in PostgreSQL, one text in the other two.\<close>

definition write_scopes :: "'v api_env \<Rightarrow> string list \<Rightarrow> scope_col" where
  "write_scopes env s =
     (case ae_dialect env of Postgres \<Rightarrow> TextArray (clean_string_slice s) | _ \<Rightarrow> CommaText (join_commas s))"

definition read_scopes :: "scope_col \<Rightarrow> string list" where
  "read_scopes c = (case c of TextArray s \<Rightarrow> s | CommaText s \<Rightarrow> split_commas s)"

text \<open>formatSQLiteTime cuts to the second; parseSQLiteTime reads years of four digits only.\<close>

definition second :: int where "second = 1000000000"

definition parse_sqlite_time :: "int \<Rightarrow> int option" where
  "parse_sqlite_time s = (if - 62167219200 \<le> s \<and> s \<le> 253402300799 then Some (s * second) else None)"

definition write_time :: "'v api_env \<Rightarrow> int \<Rightarrow> int" where
  "write_time env t = (case ae_dialect env of SQLite \<Rightarrow> t div second | _ \<Rightarrow> ae_round env t)"

definition read_time :: "'v api_env \<Rightarrow> int \<Rightarrow> int option" where
  "read_time env c = (case ae_dialect env of SQLite \<Rightarrow> parse_sqlite_time c | _ \<Rightarrow> Some c)"

definition read_null_time :: "'v api_env \<Rightarrow> int option \<Rightarrow> int option option" where
  "read_null_time env c = (case c of None \<Rightarrow> Some None | Some t \<Rightarrow> map_option Some (read_time env t))"

text \<open>pgRowToKeyRow, mysqlRowToKeyRow and sqliteRowToKeyRow; only the last can fail.\<close>

definition row_to_key_row :: "'v api_env \<Rightarrow> api_row \<Rightarrow> string key_info option" where
  "row_to_key_row env r =
     (case read_null_time env (ar_last_used r) of
        None \<Rightarrow> None
      | Some last_used \<Rightarrow>
          (case read_null_time env (ar_expires r) of
             None \<Rightarrow> None
           | Some expires \<Rightarrow>
               (case read_null_time env (ar_deleted r) of
                  None \<Rightarrow> None
                | Some deleted \<Rightarrow>
                    (case read_time env (ar_created r) of
                       None \<Rightarrow> None
                     | Some created \<Rightarrow>
                         Some \<lparr>ki_id = ar_id r, ki_subject = ar_subject r, ki_name = ar_name r,
                               ki_hash = ar_hash r, ki_prefix = ar_prefix r, ki_scopes = read_scopes (ar_scopes r),
                               ki_metadata = ar_metadata r, ki_last_used = last_used, ki_expires = expires,
                               ki_deleted = deleted, ki_created = created\<rparr>))))"

section \<open>Statements\<close>

definition get_key_by_hash :: "string \<Rightarrow> api_row list \<Rightarrow> api_row option" where
  "get_key_by_hash h rows = find (\<lambda>r. ar_hash r = h \<and> ar_deleted r = None) rows"

definition update_last_used :: "string \<Rightarrow> int \<Rightarrow> api_row list \<Rightarrow> api_row list" where
  "update_last_used kid t rows = map (\<lambda>r. if ar_id r = kid then r\<lparr>ar_last_used := Some t\<rparr> else r) rows"

definition insert_key :: "api_row \<Rightarrow> api_row list \<Rightarrow> api_row list option" where
  "insert_key r rows =
     (if list_ex (\<lambda>x. ar_id x = ar_id r \<or> ar_hash x = ar_hash r) rows then None else Some (rows @ [r]))"

definition soft_delete :: "(api_row \<Rightarrow> bool) \<Rightarrow> int \<Rightarrow> api_row list \<Rightarrow> api_row list" where
  "soft_delete P t rows = map (\<lambda>r. if P r \<and> ar_deleted r = None then r\<lparr>ar_deleted := Some t\<rparr> else r) rows"

definition soft_delete_key_by_id :: "string \<Rightarrow> int \<Rightarrow> api_row list \<Rightarrow> api_row list" where
  "soft_delete_key_by_id kid = soft_delete (\<lambda>r. ar_id r = kid)"

definition soft_delete_keys_by_subject :: "string \<Rightarrow> int \<Rightarrow> api_row list \<Rightarrow> api_row list" where
  "soft_delete_keys_by_subject subject = soft_delete (\<lambda>r. ar_subject r = subject)"

definition hard_delete_key_by_id :: "string \<Rightarrow> api_row list \<Rightarrow> api_row list" where
  "hard_delete_key_by_id kid rows = filter (\<lambda>r. ar_id r \<noteq> kid) rows"

definition hard_delete_keys_by_subject :: "string \<Rightarrow> api_row list \<Rightarrow> api_row list" where
  "hard_delete_keys_by_subject subject rows = filter (\<lambda>r. ar_subject r \<noteq> subject) rows"

text \<open>Newest first; the database may order rows of the same time as it likes, here as inserted.\<close>

definition list_all_keys_by_subject :: "string \<Rightarrow> api_row list \<Rightarrow> api_row list" where
  "list_all_keys_by_subject subject rows = sort_key (\<lambda>r. - ar_created r) (filter (\<lambda>r. ar_subject r = subject) rows)"

definition list_keys_by_subject :: "string \<Rightarrow> api_row list \<Rightarrow> api_row list" where
  "list_keys_by_subject subject rows =
     sort_key (\<lambda>r. - ar_created r) (filter (\<lambda>r. ar_subject r = subject \<and> ar_deleted r = None) rows)"

section \<open>The store\<close>

datatype ak_err =
    AkUnauthenticated | AkExpired | AkNoRandom | AkSliceOutOfRange | CommaInScope string
  | NotJson | DatabaseError | BadTimeText

type_synonym 'v meta = "(string \<times> 'v) list"

definition to_key_info :: "'v api_env \<Rightarrow> api_row \<Rightarrow> (ak_err, 'v meta key_info) result" where
  "to_key_info env r =
     (case row_to_key_row env r of
        None \<Rightarrow> Inl BadTimeText
      | Some k \<Rightarrow>
          (case ae_unmarshal env (ki_metadata k) of
             None \<Rightarrow> Inl NotJson
           | Some m \<Rightarrow>
               Inr \<lparr>ki_id = ki_id k, ki_subject = ki_subject k, ki_name = ki_name k, ki_hash = ki_hash k,
                    ki_prefix = ki_prefix k, ki_scopes = ki_scopes k, ki_metadata = m,
                    ki_last_used = ki_last_used k, ki_expires = ki_expires k, ki_deleted = ki_deleted k,
                    ki_created = ki_created k\<rparr>))"

definition store_get :: "'v api_env \<Rightarrow> string \<Rightarrow> api_row list \<Rightarrow> (ak_err, 'v meta key_info) result" where
  "store_get env h rows =
     (case get_key_by_hash h rows of None \<Rightarrow> Inl AkUnauthenticated | Some r \<Rightarrow> to_key_info env r)"

text \<open>ListKeysBySubject: the adapter converts all rows before the store reads the metadata of any.\<close>

fun collect_infos :: "'v api_env \<Rightarrow> api_row list \<Rightarrow> (ak_err, 'v meta key_info list) result" where
  "collect_infos env [] = Inr []"
| "collect_infos env (r # rs) =
     (case to_key_info env r of
        Inl e \<Rightarrow> Inl e
      | Inr k \<Rightarrow> (case collect_infos env rs of Inl e \<Rightarrow> Inl e | Inr ks \<Rightarrow> Inr (k # ks)))"

definition store_list :: "'v api_env \<Rightarrow> string \<Rightarrow> bool \<Rightarrow> api_row list \<Rightarrow> (ak_err, 'v meta key_info list) result" where
  "store_list env subject include_revoked rows =
     (let rs = (if include_revoked then list_all_keys_by_subject subject rows else list_keys_by_subject subject rows) in
      if list_ex (\<lambda>r. row_to_key_row env r = None) rs then Inl BadTimeText else collect_infos env rs)"

section \<open>Generate\<close>

text \<open>The options; WithTTL comes with the time at which it is applied. The zero time is the year 1.\<close>

datatype 'v gen_option = WithMetadata "'v meta" | WithTTL int int | WithExpiresAt int

record 'v gen_options =
  go_expires :: "int option"
  go_metadata :: "'v meta"

definition zero_time :: int where "zero_time = - 62135596800 * second"

fun apply_option :: "'v gen_option \<Rightarrow> 'v gen_options \<Rightarrow> 'v gen_options" where
  "apply_option (WithMetadata md) o1 = o1\<lparr>go_metadata := md\<rparr>"
| "apply_option (WithTTL ttl now) o1 = (if ttl \<le> 0 then o1 else o1\<lparr>go_expires := Some (now + ttl)\<rparr>)"
| "apply_option (WithExpiresAt t) o1 = (if t = zero_time then o1 else o1\<lparr>go_expires := Some t\<rparr>)"

definition gen_options_of :: "'v gen_option list \<Rightarrow> 'v gen_options" where
  "gen_options_of opts = fold apply_option opts \<lparr>go_expires = None, go_metadata = []\<rparr>"

text \<open>None stands for a nil slice.\<close>

definition normalize_scopes :: "string list option \<Rightarrow> (ak_err, string list) result" where
  "normalize_scopes scopes =
     (case scopes of
        None \<Rightarrow> Inr []
      | Some s \<Rightarrow> (case find (\<lambda>x. CHR '','' \<in> set x) s of Some x \<Rightarrow> Inl (CommaInScope x) | None \<Rightarrow> Inr s))"

definition marshal_metadata :: "'v api_env \<Rightarrow> 'v meta \<Rightarrow> (ak_err, string) result" where
  "marshal_metadata env m =
     (if m = [] then Inr ''{}''
      else (case ae_marshal env m of None \<Rightarrow> Inl NotJson | Some s \<Rightarrow> Inr s))"

definition insert_row :: "'v api_env \<Rightarrow> 'm key_info \<Rightarrow> string \<Rightarrow> api_row" where
  "insert_row env p json =
     \<lparr>ar_id = ki_id p, ar_subject = ki_subject p, ar_name = ki_name p, ar_hash = ki_hash p,
      ar_prefix = ki_prefix p, ar_scopes = write_scopes env (ki_scopes p), ar_metadata = json,
      ar_last_used = None, ar_expires = map_option (write_time env) (ki_expires p), ar_deleted = None,
      ar_created = write_time env (ki_created p)\<rparr>"

text \<open>
  Generate; \<open>raw\<close> is what RandomString returned, \<open>fails\<close> that the insert fails. The prefix of the key is
  cut before anything is checked, so a key of less than 8 characters is a panic.
\<close>

definition generate :: "'v api_env \<Rightarrow> string option \<Rightarrow> string \<Rightarrow> string \<Rightarrow> string \<Rightarrow> string list option \<Rightarrow>
    'v gen_option list \<Rightarrow> int \<Rightarrow> bool \<Rightarrow> api_row list \<Rightarrow>
    (ak_err, string \<times> 'v meta key_info) result \<times> api_row list" where
  "generate env raw kid subject name scopes opts now fails rows =
     (let o1 = gen_options_of opts in
      case raw of
        None \<Rightarrow> (Inl AkNoRandom, rows)
      | Some raw \<Rightarrow>
          (let full = ae_prefix env @ raw in
           if length full < length (ae_prefix env) + 8 then (Inl AkSliceOutOfRange, rows)
           else case normalize_scopes scopes of
               Inl e \<Rightarrow> (Inl e, rows)
             | Inr s \<Rightarrow>
                 (case marshal_metadata env (go_metadata o1) of
                    Inl e \<Rightarrow> (Inl e, rows)
                  | Inr json \<Rightarrow>
                      (let info = \<lparr>ki_id = kid, ki_subject = subject, ki_name = name, ki_hash = ae_sha env full,
                                   ki_prefix = take (length (ae_prefix env) + 8) full, ki_scopes = s,
                                   ki_metadata = go_metadata o1, ki_last_used = None, ki_expires = go_expires o1,
                                   ki_deleted = None, ki_created = now\<rparr> in
                       case (if fails then None else insert_key (insert_row env info json) rows) of
                         None \<Rightarrow> (Inl DatabaseError, rows)
                       | Some rows2 \<Rightarrow> (Inr (full, info), rows2)))))"

section \<open>The calls as steps\<close>

text \<open>
  Every call names the time it reads and whether its statement fails; Authenticate by caller c is
  AkGet, with the value of the header, and AkTouch.
\<close>

datatype 'v api_op =
    Generate "string option" string string string "string list option" "'v gen_option list" int bool
  | AkGet nat string int bool
  | AkTouch nat int bool
  | AkRevoke string int bool
  | AkRevokeAll string int bool
  | AkRevokeAllByScheme string string int bool
  | AkDelete string bool
  | AkDeleteAll string bool
  | AkList string bool bool

datatype 'v api_out =
    Generated string "'v meta key_info"
  | Touching
  | Accepted principal "(string \<times> ('v + string list)) list"
  | AkDenied ak_err
  | AkListed "'v meta key_info list"
  | AkDone

record 'v api_state =
  ak_rows :: "api_row list"
  ak_flight :: "nat \<rightharpoonup> 'v meta key_info"

text \<open>The principal: the scopes of the key replace a metadata entry of that name.\<close>

definition key_metadata :: "'v meta key_info \<Rightarrow> (string \<times> ('v + string list)) list" where
  "key_metadata k = AList.update ''scopes'' (Inr (ki_scopes k)) (map (\<lambda>(n, v). (n, Inl v)) (ki_metadata k))"

definition key_principal :: "'v meta key_info \<Rightarrow> principal" where
  "key_principal k = \<lparr>pr_subject = ki_subject k, pr_scheme = ''apikey'', pr_credential = ki_id k\<rparr>"

definition read_key :: "'v api_env \<Rightarrow> string \<Rightarrow> int \<Rightarrow> bool \<Rightarrow> api_row list \<Rightarrow> (ak_err, 'v meta key_info) result" where
  "read_key env key now fails rows =
     (if key = '''' then Inl AkUnauthenticated
      else if fails then Inl DatabaseError
      else case store_get env (ae_sha env key) rows of
          Inl e \<Rightarrow> Inl e
        | Inr k \<Rightarrow>
            (case ki_expires k of
               None \<Rightarrow> Inr k
             | Some e \<Rightarrow> if now > e then Inl AkExpired else Inr k))"

definition statement :: "bool \<Rightarrow> (api_row list \<Rightarrow> api_row list) \<Rightarrow> 'v api_state \<Rightarrow> 'v api_out \<times> 'v api_state" where
  "statement fails f s = (if fails then (AkDenied DatabaseError, s) else (AkDone, s\<lparr>ak_rows := f (ak_rows s)\<rparr>))"

fun api_step :: "'v api_env \<Rightarrow> 'v api_op \<Rightarrow> 'v api_state \<Rightarrow> 'v api_out \<times> 'v api_state" where
  "api_step env (Generate raw kid subject name scopes opts now fails) s =
     (case generate env raw kid subject name scopes opts now fails (ak_rows s) of
        (Inl e, rows) \<Rightarrow> (AkDenied e, s\<lparr>ak_rows := rows\<rparr>)
      | (Inr (full, info), rows) \<Rightarrow> (Generated full info, s\<lparr>ak_rows := rows\<rparr>))"
| "api_step env (AkGet c key now fails) s =
     (case read_key env key now fails (ak_rows s) of
        Inl e \<Rightarrow> (AkDenied e, s)
      | Inr k \<Rightarrow> (Touching, s\<lparr>ak_flight := (ak_flight s)(c \<mapsto> k)\<rparr>))"
| "api_step env (AkTouch c now fails) s =
     (case ak_flight s c of
        None \<Rightarrow> (AkDone, s)
      | Some k \<Rightarrow>
          (let s1 = s\<lparr>ak_flight := (ak_flight s)(c := None)\<rparr> in
           if fails then (AkDenied DatabaseError, s1)
           else (Accepted (key_principal k) (key_metadata k),
                 s1\<lparr>ak_rows := update_last_used (ki_id k) (write_time env now) (ak_rows s)\<rparr>)))"
| "api_step env (AkRevoke kid now fails) s =
     statement fails (soft_delete_key_by_id kid (write_time env now)) s"
| "api_step env (AkRevokeAll subject now fails) s =
     statement fails (soft_delete_keys_by_subject subject (write_time env now)) s"
| "api_step env (AkRevokeAllByScheme subject scheme now fails) s =
     (if scheme \<noteq> ''apikey'' then (AkDone, s)
      else statement fails (soft_delete_keys_by_subject subject (write_time env now)) s)"
| "api_step env (AkDelete kid fails) s = statement fails (hard_delete_key_by_id kid) s"
| "api_step env (AkDeleteAll subject fails) s = statement fails (hard_delete_keys_by_subject subject) s"
| "api_step env (AkList subject include_revoked fails) s =
     (if fails then (AkDenied DatabaseError, s)
      else case store_list env subject include_revoked (ak_rows s) of
          Inl e \<Rightarrow> (AkDenied e, s)
        | Inr ks \<Rightarrow> (AkListed ks, s))"

fun api_run :: "'v api_env \<Rightarrow> 'v api_op list \<Rightarrow> 'v api_state \<Rightarrow> 'v api_out list \<times> 'v api_state" where
  "api_run env [] s = ([], s)"
| "api_run env (x # xs) s =
     (case api_step env x s of (out, s1) \<Rightarrow> (case api_run env xs s1 of (outs, s2) \<Rightarrow> (out # outs, s2)))"

definition no_keys :: "'v api_state" where
  "no_keys = \<lparr>ak_rows = [], ak_flight = (\<lambda>_. None)\<rparr>"

end
