(* ===== verification/Auth_ApiKeys_Properties.thy ===== *)
theory Auth_ApiKeys_Properties
  imports Auth_ApiKeys "HOL-Library.Multiset"
begin

text \<open>
  What API keys promise: a principal comes only from a key that was handed out and was neither
  expired nor revoked when it was read, with the scopes it was given; and a key reads back as it was
  generated whatever the database.
\<close>

section \<open>Scopes through the database\<close>

lemma trim_space_set: "set (trim_space s) \<subseteq> set s"
proof -
  have "set (strip rs x) \<subseteq> set x" for rs x
    using strip_suffix [of x rs] by (metis Un_upper2 set_append)
  then show ?thesis unfolding trim_space_def by (metis order_trans set_rev)
qed

lemma clean_idem: "clean_string_slice (clean_string_slice s) = clean_string_slice s"
  by (induction s) (auto simp: clean_string_slice_def trim_space_idem)

lemma clean_no_comma: "\<forall>x\<in>set s. c \<notin> set x \<Longrightarrow> \<forall>x\<in>set (clean_string_slice s). c \<notin> set x"
  using trim_space_set by (fastforce simp: clean_string_slice_def)

lemma split_join_commas:
  assumes "\<forall>x\<in>set s. CHR '','' \<notin> set x"
  shows "split_commas (join_commas s) = clean_string_slice s"
proof (cases "clean_string_slice s = []")
  case True
  then show ?thesis by (simp add: split_commas_def join_commas_def) code_simp
next
  case False
  with split_join [OF this clean_no_comma [OF assms]] show ?thesis
    by (simp add: split_commas_def join_commas_def clean_idem)
qed

lemma read_write_scopes:
  "\<forall>x\<in>set s. CHR '','' \<notin> set x \<Longrightarrow> read_scopes (write_scopes env s) = clean_string_slice s"
  by (cases "ae_dialect env") (simp_all add: read_scopes_def write_scopes_def split_join_commas)

section \<open>Generated keys\<close>

text \<open>The key and its description were handed out by a Generate.\<close>

definition issued :: "('v api_op \<times> 'v api_out) set \<Rightarrow> string \<Rightarrow> 'v meta key_info \<Rightarrow> bool" where
  "issued evs full info \<longleftrightarrow>
     (\<exists>raw name opts now f. (Generate raw (ki_id info) (ki_subject info) name (Some (ki_scopes info)) opts now f, Generated full info) \<in> evs \<or>
        ki_scopes info = [] \<and> (Generate raw (ki_id info) (ki_subject info) name None opts now f, Generated full info) \<in> evs)"

definition row_ok :: "'v api_env \<Rightarrow> ('v api_op \<times> 'v api_out) set \<Rightarrow> api_row \<Rightarrow> bool" where
  "row_ok env evs r \<longleftrightarrow>
     (\<exists>full info json. issued evs full info \<and> ar_hash r = ae_sha env full \<and>
        (\<forall>x\<in>set (ki_scopes info). CHR '','' \<notin> set x) \<and>
        r\<lparr>ar_last_used := None, ar_deleted := None\<rparr> = insert_row env info json)"

lemma issued_mono: "issued evs full info \<Longrightarrow> evs \<subseteq> evs2 \<Longrightarrow> issued evs2 full info"
  unfolding issued_def by blast

lemma row_ok_mono: "row_ok env evs r \<Longrightarrow> evs \<subseteq> evs2 \<Longrightarrow> row_ok env evs2 r"
  unfolding row_ok_def using issued_mono by metis

lemma normalize_scopes_ok:
  "normalize_scopes scopes = Inr s \<Longrightarrow>
     (scopes = Some s \<or> scopes = None \<and> s = []) \<and> (\<forall>x\<in>set s. CHR '','' \<notin> set x)"
  by (auto simp: normalize_scopes_def find_None_iff split: option.splits)

lemma generate_ok:
  assumes "generate env raw kid subject name scopes opts now fails rows = (Inr (full, info), rows2)"
  obtains json where "rows2 = rows @ [insert_row env info json]" "ki_id info = kid" "ki_subject info = subject"
    "ki_hash info = ae_sha env full" "scopes = Some (ki_scopes info) \<or> scopes = None \<and> ki_scopes info = []"
    "\<forall>x\<in>set (ki_scopes info). CHR '','' \<notin> set x" "marshal_metadata env (ki_metadata info) = Inr json"
    "\<forall>x\<in>set rows. ar_id x \<noteq> kid \<and> ar_hash x \<noteq> ae_sha env full"
    "ki_expires info = go_expires (gen_options_of opts)" "ki_created info = now" "8 \<le> length full"
    "ki_last_used info = None" "ki_deleted info = None"
proof -
  from assms obtain r s json where r: "raw = Some r" "normalize_scopes scopes = Inr s"
      "marshal_metadata env (go_metadata (gen_options_of opts)) = Inr json" "8 \<le> length r" "\<not> fails"
      "full = ae_prefix env @ r"
    and i: "info = \<lparr>ki_id = kid, ki_subject = subject, ki_name = name, ki_hash = ae_sha env full,
        ki_prefix = take (length (ae_prefix env) + 8) full, ki_scopes = s,
        ki_metadata = go_metadata (gen_options_of opts), ki_last_used = None,
        ki_expires = go_expires (gen_options_of opts), ki_deleted = None, ki_created = now\<rparr>"
    and ins: "insert_key (insert_row env info json) rows = Some rows2"
    by (auto simp: generate_def Let_def split: option.splits sum.splits if_splits)
  from ins have "rows2 = rows @ [insert_row env info json]"
      "\<forall>x\<in>set rows. ar_id x \<noteq> kid \<and> ar_hash x \<noteq> ae_sha env full"
    by (auto simp: insert_key_def insert_row_def i list_ex_iff split: if_splits)
  with r i normalize_scopes_ok [OF r(2)] show thesis by (intro that [of json]) auto
qed

lemma generate_fails:
  "generate env raw kid subject name scopes opts now fails rows = (Inl e, rows2) \<Longrightarrow> rows2 = rows"
  by (auto simp: generate_def Let_def split: option.splits sum.splits if_splits)

lemma row_ok_last_used: "row_ok env evs r \<Longrightarrow> row_ok env evs (r\<lparr>ar_last_used := t\<rparr>)"
  by (simp add: row_ok_def)

lemma row_ok_deleted: "row_ok env evs r \<Longrightarrow> row_ok env evs (r\<lparr>ar_deleted := t\<rparr>)"
  by (simp add: row_ok_def)

lemma step_rows_ok:
  assumes "api_step env x s = (out, s')" and ok: "\<forall>r\<in>set (ak_rows s). row_ok env evs r"
  shows "\<forall>r\<in>set (ak_rows s'). row_ok env (insert (x, out) evs) r"
proof -
  have now: "\<forall>r\<in>set (ak_rows s). row_ok env (insert (x, out) evs) r" using ok row_ok_mono by blast
  show ?thesis
  proof (cases x)
    case (Generate raw kid subject name scopes opts now fails)
    obtain res rows where g: "generate env raw kid subject name scopes opts now fails (ak_rows s) = (res, rows)"
      by fastforce
    show ?thesis
    proof (cases res)
      case (Inl e)
      with g have "rows = ak_rows s" using generate_fails by blast
      with now assms(1) Generate g Inl show ?thesis by auto
    next
      case (Inr fi)
      obtain full info where fi: "fi = (full, info)" by (cases fi)
      from g Inr fi have g2: "generate env raw kid subject name scopes opts now fails (ak_rows s) = (Inr (full, info), rows)"
        by simp
      from g2 obtain json where j: "rows = ak_rows s @ [insert_row env info json]" "ki_id info = kid"
          "ki_subject info = subject" "ki_hash info = ae_sha env full"
          "scopes = Some (ki_scopes info) \<or> scopes = None \<and> ki_scopes info = []"
          "\<forall>x\<in>set (ki_scopes info). CHR '','' \<notin> set x"
        by (rule generate_ok)
      have o: "out = Generated full info" and s': "ak_rows s' = rows" using assms(1) Generate g2 by auto
      have "issued (insert (x, out) evs) full info"
        unfolding issued_def o Generate using j(2,3,5) by blast
      then have "row_ok env (insert (x, out) evs) (insert_row env info json)"
        unfolding row_ok_def using j(4,6) by (intro exI [of _ full] exI [of _ info] exI [of _ json])
          (simp add: insert_row_def)
      with now show ?thesis unfolding s' j(1) by auto
    qed
  qed (use assms now in \<open>auto simp: statement_def Let_def update_last_used_def soft_delete_def
      soft_delete_key_by_id_def soft_delete_keys_by_subject_def hard_delete_key_by_id_def
      hard_delete_keys_by_subject_def row_ok_last_used row_ok_deleted split: if_splits option.splits sum.splits\<close>)
qed


lemma run_rows_ok:
  "api_run env xs s = (outs, s') \<Longrightarrow> \<forall>r\<in>set (ak_rows s). row_ok env evs r \<Longrightarrow>
     \<forall>r\<in>set (ak_rows s'). row_ok env (evs \<union> set (zip xs outs)) r"
proof (induction xs arbitrary: s outs evs)
  case (Cons x xs)
  obtain out s1 where st: "api_step env x s = (out, s1)" by fastforce
  obtain os where r: "api_run env xs s1 = (os, s')" "outs = out # os"
    using Cons.prems st by (auto split: prod.splits)
  from Cons.IH [OF r(1) step_rows_ok [OF st Cons.prems(2)]] show ?case unfolding r(2) by simp
qed simp

section \<open>Revoked and deleted keys\<close>

fun revokes :: "'v api_op \<Rightarrow> string \<Rightarrow> string \<Rightarrow> bool" where
  "revokes (AkRevoke k t fails) kid subject = (k = kid \<and> \<not> fails)"
| "revokes (AkRevokeAll u t fails) kid subject = (u = subject \<and> \<not> fails)"
| "revokes (AkRevokeAllByScheme u scheme t fails) kid subject = (u = subject \<and> scheme = ''apikey'' \<and> \<not> fails)"
| "revokes (AkDelete k fails) kid subject = (k = kid \<and> \<not> fails)"
| "revokes (AkDeleteAll u fails) kid subject = (u = subject \<and> \<not> fails)"
| "revokes _ kid subject = False"

fun generates :: "'v api_op \<Rightarrow> string \<Rightarrow> bool" where
  "generates (Generate raw k subject name scopes opts now fails) kid = (k = kid)"
| "generates _ kid = False"

definition inactive :: "string \<Rightarrow> string \<Rightarrow> api_row list \<Rightarrow> bool" where
  "inactive kid subject rows \<longleftrightarrow> (\<forall>r\<in>set rows. ar_id r = kid \<and> ar_subject r = subject \<longrightarrow> ar_deleted r \<noteq> None)"

lemma inactive_map:
  "(\<And>r. r \<in> set rows \<Longrightarrow> ar_id (f r) = kid \<Longrightarrow> ar_subject (f r) = subject \<Longrightarrow> ar_deleted (f r) \<noteq> None) \<Longrightarrow>
     inactive kid subject (map f rows)"
  unfolding inactive_def set_map by blast

lemma inactiveD: "inactive kid subject rows \<Longrightarrow> r \<in> set rows \<Longrightarrow> ar_id r = kid \<Longrightarrow> ar_subject r = subject \<Longrightarrow> ar_deleted r \<noteq> None"
  unfolding inactive_def by blast

lemma inactive_touch: "inactive kid subject rows \<Longrightarrow> inactive kid subject (update_last_used k t rows)"
  unfolding update_last_used_def by (rule inactive_map) (auto dest: inactiveD split: if_splits)

lemma inactive_soft: "inactive kid subject rows \<Longrightarrow> inactive kid subject (soft_delete P t rows)"
  unfolding soft_delete_def by (rule inactive_map) (auto dest: inactiveD split: if_splits)

lemma inactive_hard:
  "inactive kid subject rows \<Longrightarrow> inactive kid subject (hard_delete_key_by_id k rows)"
  "inactive kid subject rows \<Longrightarrow> inactive kid subject (hard_delete_keys_by_subject u rows)"
  unfolding inactive_def hard_delete_key_by_id_def hard_delete_keys_by_subject_def by simp_all

lemma inactive_after:
  "inactive kid subject (soft_delete_key_by_id kid t rows)"
  "inactive kid subject (soft_delete_keys_by_subject subject t rows)"
  "inactive kid subject (hard_delete_key_by_id kid rows)"
  "inactive kid subject (hard_delete_keys_by_subject subject rows)"
proof -
  show "inactive kid subject (soft_delete_key_by_id kid t rows)"
    unfolding soft_delete_def soft_delete_key_by_id_def by (rule inactive_map) (auto split: if_splits)
  show "inactive kid subject (soft_delete_keys_by_subject subject t rows)"
    unfolding soft_delete_def soft_delete_keys_by_subject_def by (rule inactive_map) (auto split: if_splits)
qed (simp_all add: inactive_def hard_delete_key_by_id_def hard_delete_keys_by_subject_def)

lemmas inactive_updates = inactive_touch inactive_soft inactive_hard

lemma step_inactive:
  assumes "api_step env x s = (out, s')" and "inactive kid subject (ak_rows s)" and "\<not> generates x kid"
  shows "inactive kid subject (ak_rows s')"
proof (cases x)
  case (Generate raw k u name scopes opts now fails)
  obtain res rows where g: "generate env raw k u name scopes opts now fails (ak_rows s) = (res, rows)" by fastforce
  show ?thesis
  proof (cases res)
    case (Inl e)
    with g have "rows = ak_rows s" using generate_fails by blast
    with assms Generate g Inl show ?thesis by auto
  next
    case (Inr fi)
    with g have "generate env raw k u name scopes opts now fails (ak_rows s) = (Inr (fst fi, snd fi), rows)" by simp
    then obtain json where j: "rows = ak_rows s @ [insert_row env (snd fi) json]" "ki_id (snd fi) = k"
      by (rule generate_ok)
    with assms Generate g Inr show ?thesis by (auto simp: inactive_def insert_row_def split: prod.splits)
  qed
qed (use assms in \<open>auto simp: statement_def Let_def soft_delete_key_by_id_def soft_delete_keys_by_subject_def
    intro!: inactive_updates split: if_splits option.splits sum.splits\<close>)

lemma step_revokes: "api_step env x s = (out, s') \<Longrightarrow> revokes x kid subject \<Longrightarrow> inactive kid subject (ak_rows s')"
  by (cases x) (auto simp: statement_def intro: inactive_after)

lemma run_inactive:
  "api_run env xs s = (outs, s') \<Longrightarrow> inactive kid subject (ak_rows s) \<Longrightarrow> \<forall>x\<in>set xs. \<not> generates x kid \<Longrightarrow>
     inactive kid subject (ak_rows s')"
proof (induction xs arbitrary: s outs)
  case (Cons x xs)
  obtain out s1 where st: "api_step env x s = (out, s1)" by fastforce
  then obtain os where r: "api_run env xs s1 = (os, s')" using Cons.prems by (auto split: prod.splits)
  from Cons.IH [OF r step_inactive [OF st Cons.prems(2)]] Cons.prems(3) show ?case by simp
qed simp

lemma api_run_append:
  "api_run env (xs @ ys) s =
     (case api_run env xs s of (os, s1) \<Rightarrow> (case api_run env ys s1 of (os2, s2) \<Rightarrow> (os @ os2, s2)))"
  by (induction xs arbitrary: s) (simp_all split: prod.splits)

lemma api_run_length: "api_run env xs s = (outs, s') \<Longrightarrow> length outs = length xs"
  by (induction xs arbitrary: s outs) (auto split: prod.splits)

lemma run_revoked:
  assumes "api_run env (pre @ x # post) s = (outs, s')" and "revokes x kid subject"
    and "\<forall>y\<in>set post. \<not> generates y kid"
  shows "inactive kid subject (ak_rows s')"
proof -
  obtain os s1 where 1: "api_run env pre s = (os, s1)" by fastforce
  obtain out s2 where 2: "api_step env x s1 = (out, s2)" by fastforce
  obtain os2 where "api_run env post s2 = (os2, s')"
    using assms(1) 1 2 by (auto simp: api_run_append split: prod.splits)
  from run_inactive [OF this step_revokes [OF 2 assms(2)] assms(3)] show ?thesis .
qed

section \<open>Keys in flight\<close>

lemma step_flight:
  assumes "api_step env x s = (out, s')" and "ak_flight s' c = Some k"
  shows "ak_flight s c = Some k \<or> (\<exists>key now. x = AkGet c key now False \<and> read_key env key now False (ak_rows s) = Inr k)"
proof (cases x)
  case (Generate raw kid u name scopes opts now fails)
  with assms show ?thesis by (auto split: prod.splits sum.splits)
next
  case (AkGet d key now fails)
  have "\<not> fails" if "read_key env key now fails (ak_rows s) = Inr k"
    using that by (auto simp: read_key_def split: if_splits)
  with assms AkGet show ?thesis by (auto split: sum.splits if_splits)
qed (use assms in \<open>auto simp: statement_def Let_def split: if_splits option.splits sum.splits\<close>)

lemma flight_origin:
  "api_run env xs no_keys = (outs, s) \<Longrightarrow> ak_flight s c = Some k \<Longrightarrow>
     \<exists>pre mid key now s1. xs = pre @ AkGet c key now False # mid \<and>
       api_run env pre no_keys = (take (length pre) outs, s1) \<and> read_key env key now False (ak_rows s1) = Inr k"
proof (induction xs arbitrary: outs s rule: rev_induct)
  case (snoc x xs)
  obtain os s1 where 1: "api_run env xs no_keys = (os, s1)" by fastforce
  obtain out where 2: "api_step env x s1 = (out, s)" "outs = os @ [out]"
    using snoc.prems(1) 1 by (auto simp: api_run_append split: prod.splits)
  have len: "length os = length xs" by (rule api_run_length [OF 1])
  from step_flight [OF 2(1) snoc.prems(2)] show ?case
  proof
    assume "ak_flight s1 c = Some k"
    from snoc.IH [OF 1 this] obtain pre mid key now s2 where *: "xs = pre @ AkGet c key now False # mid"
        "api_run env pre no_keys = (take (length pre) os, s2)" "read_key env key now False (ak_rows s2) = Inr k"
      by blast
    then have "take (length pre) outs = take (length pre) os" using len 2(2) by simp
    with * show ?thesis
      by (intro exI [of _ pre] exI [of _ "mid @ [x]"] exI [of _ key] exI [of _ now] exI [of _ s2]) simp
  next
    assume "\<exists>key now. x = AkGet c key now False \<and> read_key env key now False (ak_rows s1) = Inr k"
    with 1 2(2) len show ?thesis by (metis append_eq_conv_conj)
  qed
qed (simp add: no_keys_def)

text \<open>What Authenticate reads.\<close>

lemma to_key_info_ok:
  assumes "to_key_info env r = Inr k"
  shows "ki_id k = ar_id r" "ki_subject k = ar_subject r" "ki_scopes k = read_scopes (ar_scopes r)"
    "ki_name k = ar_name r" "ki_hash k = ar_hash r" "ki_prefix k = ar_prefix r"
    "ae_unmarshal env (ar_metadata r) = Some (ki_metadata k)" "read_null_time env (ar_last_used r) = Some (ki_last_used k)"
    "read_null_time env (ar_expires r) = Some (ki_expires k)" "read_null_time env (ar_deleted r) = Some (ki_deleted k)"
    "read_time env (ar_created r) = Some (ki_created k)"
  using assms by (auto simp: to_key_info_def row_to_key_row_def split: option.splits)

lemma read_key_ok:
  assumes "read_key env key now fails rows = Inr k"
  obtains r where "r \<in> set rows" "ar_hash r = ae_sha env key" "ar_deleted r = None" "to_key_info env r = Inr k"
    "\<forall>e. ki_expires k = Some e \<longrightarrow> now \<le> e"
proof -
  from assms have *: "store_get env (ae_sha env key) rows = Inr k" "\<forall>e. ki_expires k = Some e \<longrightarrow> now \<le> e"
    by (auto simp: read_key_def split: if_splits sum.splits option.splits)
  then obtain r where r: "get_key_by_hash (ae_sha env key) rows = Some r" "to_key_info env r = Inr k"
    by (auto simp: store_get_def split: option.splits)
  then have "r \<in> set rows" "ar_hash r = ae_sha env key" "ar_deleted r = None"
    by (auto simp: get_key_by_hash_def find_Some_iff)
  with r(2) *(2) that show thesis by blast
qed

lemma zip_take_length: "zip xs (take (length xs) ys) = zip xs ys"
proof (induction xs arbitrary: ys)
  case (Cons x xs)
  then show ?case by (cases ys) simp_all
qed simp

text \<open>C23: a request is authenticated only by a key that Generate handed out: an earlier part of the
history read the row of a key with the same hash, and by then no successful Revoke, RevokeAll, Delete
or DeleteAll had hit it, unless its id was generated again afterwards, and its expiry, as stored,
had not passed. The principal has the subject and the id of the key, and its scopes are those the
key was given, without blanks and empty ones, whatever its metadata says.\<close>

theorem apikey_sound:
  assumes "api_run env xs no_keys = (outs, s)"
    and "api_step env (AkTouch c later fails) s = (Accepted p meta, s2)"
  shows "\<exists>pre mid key now full info. xs = pre @ AkGet c key now False # mid \<and>
    issued (set (zip pre outs)) full info \<and> ae_sha env full = ae_sha env key \<and>
    p = \<lparr>pr_subject = ki_subject info, pr_scheme = ''apikey'', pr_credential = ki_id info\<rparr> \<and>
    map_of meta ''scopes'' = Some (Inr (clean_string_slice (ki_scopes info))) \<and>
    (\<forall>e. ki_expires info = Some e \<longrightarrow> (\<exists>x. read_time env (write_time env e) = Some x \<and> now \<le> x)) \<and>
    (\<forall>pre1 x post. pre = pre1 @ x # post \<and> revokes x (ki_id info) (ki_subject info) \<longrightarrow>
       (\<exists>y\<in>set post. generates y (ki_id info)))"
proof -
  from assms(2) obtain k where k: "ak_flight s c = Some k" and p: "p = key_principal k" "meta = key_metadata k"
    by (auto simp: Let_def split: option.splits if_splits)
  from flight_origin [OF assms(1) k] obtain pre mid key now s1 where
    xs: "xs = pre @ AkGet c key now False # mid" and run: "api_run env pre no_keys = (take (length pre) outs, s1)"
    and read: "read_key env key now False (ak_rows s1) = Inr k"
    by blast
  from read_key_ok [OF read] obtain r where r: "r \<in> set (ak_rows s1)" "ar_hash r = ae_sha env key"
      "ar_deleted r = None" "to_key_info env r = Inr k" "\<forall>e. ki_expires k = Some e \<longrightarrow> now \<le> e"
    by blast
  have "\<forall>r\<in>set (ak_rows no_keys). row_ok env {} r" by (simp add: no_keys_def)
  from run_rows_ok [OF run this] r(1) have "row_ok env (set (zip pre outs)) r"
    by (simp add: zip_take_length)
  then obtain full info json where i: "issued (set (zip pre outs)) full info" "ar_hash r = ae_sha env full"
      "\<forall>x\<in>set (ki_scopes info). CHR '','' \<notin> set x"
    and row: "r\<lparr>ar_last_used := None, ar_deleted := None\<rparr> = insert_row env info json"
    unfolding row_ok_def by blast
  from arg_cong [OF row, of ar_id] arg_cong [OF row, of ar_subject] arg_cong [OF row, of ar_scopes]
    arg_cong [OF row, of ar_expires]
  have f: "ar_id r = ki_id info" "ar_subject r = ki_subject info" "ar_scopes r = write_scopes env (ki_scopes info)"
      "ar_expires r = map_option (write_time env) (ki_expires info)"
    by (simp_all add: insert_row_def)
  note ki = to_key_info_ok [OF r(4)]
  have "p = \<lparr>pr_subject = ki_subject info, pr_scheme = ''apikey'', pr_credential = ki_id info\<rparr>"
    by (simp add: p key_principal_def ki f)
  moreover have "map_of meta ''scopes'' = Some (Inr (clean_string_slice (ki_scopes info)))"
    by (simp add: p key_metadata_def update_conv' ki f read_write_scopes i(3))
  moreover have "\<exists>x. read_time env (write_time env e) = Some x \<and> now \<le> x" if "ki_expires info = Some e" for e
    using ki(9) r(5) that f(4) by (auto simp: read_null_time_def)
  moreover have "\<exists>y\<in>set post. generates y (ki_id info)"
    if "pre = pre1 @ x # post" "revokes x (ki_id info) (ki_subject info)" for pre1 x post
  proof (rule ccontr)
    assume "\<not> ?thesis"
    with run_revoked [OF run [unfolded that(1)] that(2)] have "inactive (ki_id info) (ki_subject info) (ak_rows s1)"
      by blast
    with r(1,3) f show False by (auto simp: inactive_def)
  qed
  ultimately show ?thesis using xs i(1,2) r(2)
    by (intro exI [of _ pre] exI [of _ mid] exI [of _ key] exI [of _ now] exI [of _ full] exI [of _ info]) auto
qed


section \<open>A key reads back as it was generated\<close>

text \<open>What the database gives back of a new key: times as the column keeps them, scopes without
blanks and empty ones, the metadata \<open>m\<close> that its JSON decodes to.\<close>

definition keeps :: "'v api_env \<Rightarrow> int \<Rightarrow> bool" where
  "keeps env t \<longleftrightarrow> read_time env (write_time env t) \<noteq> None"

definition kept :: "'v api_env \<Rightarrow> int \<Rightarrow> int" where
  "kept env t = the (read_time env (write_time env t))"

definition stored :: "'v api_env \<Rightarrow> 'v meta \<Rightarrow> 'v meta key_info \<Rightarrow> 'v meta key_info" where
  "stored env m info = info\<lparr>ki_scopes := clean_string_slice (ki_scopes info), ki_metadata := m,
     ki_expires := map_option (kept env) (ki_expires info), ki_created := kept env (ki_created info)\<rparr>"

lemma read_null_kept: "(\<forall>e. x = Some e \<longrightarrow> keeps env e) \<Longrightarrow>
    read_null_time env (map_option (write_time env) x) = Some (map_option (kept env) x)"
  by (auto simp: read_null_time_def keeps_def kept_def split: option.splits)

lemma to_key_info_insert:
  assumes "keeps env (ki_created info)" and "\<forall>e. ki_expires info = Some e \<longrightarrow> keeps env e"
    and "ae_unmarshal env json = Some m" and "\<forall>x\<in>set (ki_scopes info). CHR '','' \<notin> set x"
    and "ki_last_used info = None" and "ki_deleted info = None"
  shows "to_key_info env (insert_row env info json) = Inr (stored env m info)"
proof -
  have "read_time env (write_time env (ki_created info)) = Some (kept env (ki_created info))"
    using assms(1) by (auto simp: keeps_def kept_def)
  then show ?thesis
    using assms(3,5,6) read_null_kept [OF assms(2)] read_write_scopes [OF assms(4), of env]
    by (simp add: to_key_info_def row_to_key_row_def insert_row_def stored_def read_null_time_def)
qed

lemma collect_infos_Inr:
  "collect_infos env rs = Inr ks \<longleftrightarrow>
     (\<forall>r\<in>set rs. \<exists>k. to_key_info env r = Inr k) \<and> ks = map (\<lambda>r. projr (to_key_info env r)) rs"
proof (induction rs arbitrary: ks)
  case (Cons r rs)
  show ?case
    using Cons.IH [of "map (\<lambda>r. projr (to_key_info env r)) rs"] Cons.IH [of "projr (collect_infos env rs)"]
    by (cases "to_key_info env r"; cases "collect_infos env rs") auto
qed auto

lemma store_list_Inr:
  "store_list env subject inc rows = Inr ks \<longleftrightarrow>
     (let rs = (if inc then list_all_keys_by_subject subject rows else list_keys_by_subject subject rows) in
      (\<forall>r\<in>set rs. \<exists>k. to_key_info env r = Inr k) \<and> ks = map (\<lambda>r. projr (to_key_info env r)) rs)"
proof -
  have "\<not> list_ex (\<lambda>r. row_to_key_row env r = None) rs" if "\<forall>r\<in>set rs. \<exists>k. to_key_info env r = Inr k" for rs
    using that by (fastforce simp: to_key_info_def list_ex_iff split: option.splits)
  then show ?thesis by (auto simp: store_list_def Let_def collect_infos_Inr)
qed

lemma store_list_snoc:
  assumes "store_list env subject inc rows = Inr ks" and "to_key_info env r = Inr k"
    and "ar_subject r = subject" and "ar_deleted r = None"
  shows "\<exists>ks2. store_list env subject inc (rows @ [r]) = Inr ks2 \<and> mset ks2 = add_mset k (mset ks)"
proof -
  let ?rs = "\<lambda>rows. if inc then list_all_keys_by_subject subject rows else list_keys_by_subject subject rows"
  have m: "mset (?rs (rows @ [r])) = add_mset r (mset (?rs rows))"
    using assms(3,4) by (simp add: list_all_keys_by_subject_def list_keys_by_subject_def)
  then have "set (?rs (rows @ [r])) = insert r (set (?rs rows))" by (metis set_mset_add_mset_insert set_mset_mset)
  moreover have "mset (map f (?rs (rows @ [r]))) = add_mset (f r) (mset (map f (?rs rows)))" for f :: "api_row \<Rightarrow> 'a meta key_info"
    unfolding mset_map m by simp
  ultimately show ?thesis using assms(1,2) by (simp add: store_list_Inr Let_def)
qed

lemma find_snoc: "find P xs = None \<Longrightarrow> find P (xs @ [x]) = (if P x then Some x else None)"
  by (induction xs) (auto split: if_splits)

text \<open>C24: on each of the three databases a generated key can be used and is listed as it was described
to its creator. Authenticate finds it by the key that was returned, until the expiry as stored; and
wherever List answered for the subject, it answers the same keys and the new one, with and without
the revoked ones. It comes back with its times as the column keeps them, its metadata as decoded and
its scopes without blanks and empty ones, which the description still shows.\<close>

theorem generate_roundtrip:
  assumes "api_step env (Generate raw kid subject name scopes opts now fails) s = (Generated full info, s1)"
    and "keeps env now" and "\<forall>e. ki_expires info = Some e \<longrightarrow> keeps env e"
    and json: "\<forall>json. marshal_metadata env (ki_metadata info) = Inr json \<longrightarrow> ae_unmarshal env json = Some m"
  shows "read_key env full t False (ak_rows s1) =
      (case ki_expires (stored env m info) of
         None \<Rightarrow> Inr (stored env m info)
       | Some e \<Rightarrow> if t > e then Inl AkExpired else Inr (stored env m info)) \<and>
    (\<forall>inc ks. store_list env subject inc (ak_rows s) = Inr ks \<longrightarrow>
      (\<exists>ks2. store_list env subject inc (ak_rows s1) = Inr ks2 \<and> mset ks2 = add_mset (stored env m info) (mset ks)))"
proof -
  from assms(1) have "generate env raw kid subject name scopes opts now fails (ak_rows s) = (Inr (full, info), ak_rows s1)"
    by (auto split: prod.splits sum.splits)
  then obtain js where g: "ak_rows s1 = ak_rows s @ [insert_row env info js]" "ki_id info = kid" "ki_subject info = subject"
    "ki_hash info = ae_sha env full" "scopes = Some (ki_scopes info) \<or> scopes = None \<and> ki_scopes info = []"
    "\<forall>x\<in>set (ki_scopes info). CHR '','' \<notin> set x" "marshal_metadata env (ki_metadata info) = Inr js"
    "\<forall>x\<in>set (ak_rows s). ar_id x \<noteq> kid \<and> ar_hash x \<noteq> ae_sha env full"
    "ki_expires info = go_expires (gen_options_of opts)" "ki_created info = now" "8 \<le> length full"
    "ki_last_used info = None" "ki_deleted info = None"
    by (rule generate_ok)
  let ?r = "insert_row env info js"
  have r: "to_key_info env ?r = Inr (stored env m info)"
    using to_key_info_insert [of env info js m] assms(2,3) g json by simp
  have sel: "ar_subject ?r = subject" "ar_deleted ?r = None" "ar_hash ?r = ae_sha env full"
    using g by (simp_all add: insert_row_def)
  have "find (\<lambda>r. ar_hash r = ae_sha env full \<and> ar_deleted r = None) (ak_rows s) = None"
    using g(8) by (auto simp: find_None_iff)
  then have "get_key_by_hash (ae_sha env full) (ak_rows s1) = Some ?r"
    unfolding g(1) get_key_by_hash_def using sel by (simp add: find_snoc)
  moreover have "full \<noteq> ''''" using g(11) by auto
  ultimately have "read_key env full t False (ak_rows s1) =
      (case ki_expires (stored env m info) of None \<Rightarrow> Inr (stored env m info)
       | Some e \<Rightarrow> if t > e then Inl AkExpired else Inr (stored env m info))"
    by (simp add: read_key_def store_get_def r)
  with store_list_snoc [OF _ r sel(1,2)] g(1) show ?thesis by simp
qed

text \<open>On SQLite an expiry after the year 9999 is stored and cannot be read back: List then fails for
all keys of the subject.\<close>

theorem far_expiry_fails_list:
  assumes "ae_dialect env = SQLite" and "r \<in> set rows" and "ar_subject r = subject" and "ar_deleted r = None"
    and "ar_expires r = Some (write_time env e)" and "e \<ge> 253402300800 * second"
  shows "store_list env subject inc rows = Inl BadTimeText"
proof -
  have "253402300800 \<le> e div second"
    using zdiv_mono1 [OF assms(6), of second] by (simp add: second_def)
  then have "read_null_time env (ar_expires r) = None"
    using assms(1,5) by (simp add: read_null_time_def read_time_def write_time_def parse_sqlite_time_def)
  then have "row_to_key_row env r = None" by (auto simp: row_to_key_row_def split: option.splits)
  with assms(2-4) show ?thesis
    by (auto simp: store_list_def list_ex_iff list_all_keys_by_subject_def list_keys_by_subject_def)
qed

section \<open>A concrete service\<close>

definition key_demo_env :: "int api_env" where
  "key_demo_env = \<lparr>ae_dialect = SQLite, ae_round = (\<lambda>t. t), ae_sha = (\<lambda>s. ''#'' @ s),
     ae_marshal = (\<lambda>m. Some ''{1}''), ae_unmarshal = (\<lambda>s. Some []), ae_prefix = ''gas_''\<rparr>"

definition key_demo_gen :: "int api_op" where
  "key_demo_gen = Generate (Some ''abcdefgh'') ''id1'' ''ann'' ''ci'' (Some ['' read '', '''', ''write'']) [] 5000000007 False"

definition key_demo_run :: "int api_op list" where
  "key_demo_run = [key_demo_gen, AkGet 1 ''gas_abcdefgh'' 6000000000 False, AkRevoke ''id1'' 7 False]"

abbreviation key_demo_state :: "int api_state" where
  "key_demo_state \<equiv> snd (api_run key_demo_env key_demo_run no_keys)"

lemma key_demo_touch:
  "case fst (api_step key_demo_env (AkTouch 1 8 False) key_demo_state) of Accepted p m \<Rightarrow> True | _ \<Rightarrow> False"
  by code_simp

theorem apikey_sound_witness:
  "\<exists>p meta. fst (api_step key_demo_env (AkTouch 1 8 False) key_demo_state) = Accepted p meta \<and>
     pr_scheme p = ''apikey'' \<and> map_of meta ''scopes'' \<noteq> None"
proof -
  from key_demo_touch obtain p meta where a: "fst (api_step key_demo_env (AkTouch 1 8 False) key_demo_state) = Accepted p meta"
    by (auto split: api_out.splits)
  have "api_step key_demo_env (AkTouch 1 8 False) key_demo_state =
      (Accepted p meta, snd (api_step key_demo_env (AkTouch 1 8 False) key_demo_state))"
    using a by (simp only: prod_eq_iff fst_conv snd_conv)
  from apikey_sound [OF surjective_pairing this] a show ?thesis by auto
qed

lemma key_demo_generated:
  "case fst (api_step key_demo_env key_demo_gen no_keys) of
     Generated full info \<Rightarrow> full = ''gas_abcdefgh'' \<and> ki_expires info = None \<and> ki_metadata info = [] \<and>
       ki_subject info = ''ann'' \<and> clean_string_slice (ki_scopes info) = [''read'', ''write'']
   | _ \<Rightarrow> False"
  by code_simp

theorem generate_roundtrip_witness:
  "\<exists>k. read_key key_demo_env ''gas_abcdefgh'' 6000000000 False (ak_rows (snd (api_step key_demo_env key_demo_gen no_keys))) =
     Inr k \<and> ki_scopes k = [''read'', ''write'']"
proof -
  let ?st = "api_step key_demo_env key_demo_gen no_keys"
  from key_demo_generated obtain info where i: "fst ?st = Generated ''gas_abcdefgh'' info" "ki_expires info = None"
      "ki_metadata info = []" "clean_string_slice (ki_scopes info) = [''read'', ''write'']"
    by (auto split: api_out.splits)
  have st: "?st = (Generated ''gas_abcdefgh'' info, snd ?st)"
    using i(1) by (simp only: prod_eq_iff fst_conv snd_conv)
  have k: "keeps key_demo_env 5000000007" by (simp add: keeps_def write_time_def read_time_def parse_sqlite_time_def key_demo_env_def second_def)
  have e: "\<forall>e. ki_expires info = Some e \<longrightarrow> keeps key_demo_env e" using i(2) by simp
  have j: "\<forall>json. marshal_metadata key_demo_env (ki_metadata info) = Inr json \<longrightarrow> ae_unmarshal key_demo_env json = Some []"
    by (simp add: key_demo_env_def)
  from generate_roundtrip [OF st [unfolded key_demo_gen_def] k e j, folded key_demo_gen_def, of 6000000000] i(2,4)
  show ?thesis by (simp add: stored_def)
qed

end
