(* ===== verification/Log_Shipping.thy ===== *)
theory Log_Shipping
  imports Go_Strings
begin

text \<open>
  log/httpsink.go and the options of log/shipping.go: the slog handler that captures records, the
  fan-out to a local handler, and the sender whose goroutine collects records into batches and posts
  them. The sender is a relation of labelled steps, one per communication on its channels; where a
  select has several cases ready, each is a step. What becomes of a post is part of the label.
\<close>

section \<open>Configuration\<close>

record ship_cfg =
  sp_batch_size :: int
  sp_queue_size :: int
  sp_flush_every :: int

definition default_shipping_config :: ship_cfg where
  "default_shipping_config = \<lparr>sp_batch_size = 100, sp_queue_size = 1024, sp_flush_every = 2000000000\<rparr>"

datatype ship_option = WithBatchSize int | WithQueueSize int | WithFlushInterval int

fun apply_ship_option :: "ship_option \<Rightarrow> ship_cfg \<Rightarrow> ship_cfg" where
  "apply_ship_option (WithBatchSize n) c = (if n > 0 then c\<lparr>sp_batch_size := n\<rparr> else c)"
| "apply_ship_option (WithQueueSize n) c = (if n > 0 then c\<lparr>sp_queue_size := n\<rparr> else c)"
| "apply_ship_option (WithFlushInterval d) c = (if d > 0 then c\<lparr>sp_flush_every := d\<rparr> else c)"

definition build_shipping :: "ship_option list \<Rightarrow> ship_cfg" where
  "build_shipping opts = fold apply_ship_option opts default_shipping_config"

section \<open>The handler\<close>

type_synonym 'v attr = "string \<times> 'v"

record 'v ship_handler =
  sl_level :: int
  sl_group :: string
  sl_attrs :: "'v attr list"

record 'v log_record =
  lr_level :: int
  lr_message :: string
  lr_attrs :: "'v attr list"

definition qualify :: "string \<Rightarrow> 'v attr \<Rightarrow> 'v attr" where
  "qualify g a = (if g = [] then a else (g @ ''.'' @ fst a, snd a))"

definition handler_enabled :: "'v ship_handler \<Rightarrow> int \<Rightarrow> bool" where
  "handler_enabled h level \<longleftrightarrow> level \<ge> sl_level h"

text \<open>Handle, up to the record it enqueues.\<close>

definition handle_record :: "'v ship_handler \<Rightarrow> 'v log_record \<Rightarrow> 'v log_record" where
  "handle_record h r = r\<lparr>lr_attrs := sl_attrs h @ map (qualify (sl_group h)) (lr_attrs r)\<rparr>"

definition with_attrs :: "'v attr list \<Rightarrow> 'v ship_handler \<Rightarrow> 'v ship_handler" where
  "with_attrs as h = h\<lparr>sl_attrs := sl_attrs h @ map (qualify (sl_group h)) as\<rparr>"

definition with_group :: "string \<Rightarrow> 'v ship_handler \<Rightarrow> 'v ship_handler" where
  "with_group name h =
     (if name = [] then h
      else h\<lparr>sl_group := if sl_group h \<noteq> [] then sl_group h @ ''.'' @ name else name\<rparr>)"

text \<open>
  The fan-out over handlers, each given by its Enabled and what its Handle returns; the result is the
  handlers that got the record, by position, and the error.
\<close>

fun fanout_enabled :: "((int \<Rightarrow> bool) \<times> ('r \<Rightarrow> 'e option)) list \<Rightarrow> int \<Rightarrow> bool" where
  "fanout_enabled [] level = False"
| "fanout_enabled (h # hs) level = (if fst h level then True else fanout_enabled hs level)"

fun fanout_handle :: "nat \<Rightarrow> ((int \<Rightarrow> bool) \<times> ('r \<Rightarrow> 'e option)) list \<Rightarrow> int \<Rightarrow> 'r \<Rightarrow> nat list \<times> 'e option" where
  "fanout_handle i [] level r = ([], None)"
| "fanout_handle i (h # hs) level r =
     (if fst h level then
        (case snd h r of
           Some e \<Rightarrow> ([i], Some e)
         | None \<Rightarrow> (case fanout_handle (Suc i) hs level r of (is, e) \<Rightarrow> (i # is, e)))
      else fanout_handle (Suc i) hs level r)"

section \<open>The sender\<close>

datatype delivery = MarshalFailed | RequestFailed | TransportFailed | Response int

datatype ship_err = MarshalErr | RequestErr | TransportErr | UnexpectedStatus int

text \<open>Where the goroutine is: at its select, in drain for a flush or for the shutdown, or returned.\<close>

datatype ship_pc = Running | DrainingFor nat | DrainingLast | Ended

record 'r ship =
  sh_queue :: "'r list"
  sh_batch :: "'r list"
  sh_pc :: ship_pc
  sh_stopped :: bool
  sh_waiting :: "nat list"
  sh_posts :: "'r list list"
  sh_errors :: "ship_err list"

definition new_sender :: "'r ship" where
  "new_sender = \<lparr>sh_queue = [], sh_batch = [], sh_pc = Running, sh_stopped = False, sh_waiting = [],
     sh_posts = [], sh_errors = []\<rparr>"

definition delivery_errors :: "delivery \<Rightarrow> ship_err list" where
  "delivery_errors d =
     (case d of
        MarshalFailed \<Rightarrow> [MarshalErr]
      | RequestFailed \<Rightarrow> [RequestErr]
      | TransportFailed \<Rightarrow> [TransportErr]
      | Response code \<Rightarrow> if code \<ge> 300 then [UnexpectedStatus code] else [])"

definition post :: "delivery \<Rightarrow> 'r list \<Rightarrow> 'r ship \<Rightarrow> 'r ship" where
  "post d batch s =
     (if batch = [] then s
      else s\<lparr>sh_posts := sh_posts s @ [batch], sh_errors := sh_errors s @ delivery_errors d\<rparr>)"

text \<open>A record arrives at the select.\<close>

definition receive :: "ship_cfg \<Rightarrow> delivery \<Rightarrow> 'r \<Rightarrow> 'r list \<Rightarrow> 'r ship \<Rightarrow> 'r ship" where
  "receive cfg d r q s =
     (let batch = sh_batch s @ [r]; s1 = s\<lparr>sh_queue := q\<rparr> in
      if int (length batch) \<ge> sp_batch_size cfg then (post d batch s1)\<lparr>sh_batch := []\<rparr>
      else s1\<lparr>sh_batch := batch\<rparr>)"

datatype 'r ship_label =
    Enqueued 'r
  | Dropped 'r
  | Received delivery
  | Ticked delivery
  | FlushCalled nat
  | FlushTaken nat
  | FlushSkipped nat
  | StopTaken
  | Drained
  | FlushDone nat delivery
  | LastPosted delivery
  | CloseCalled
  | CloseReturned

text \<open>
  enqueue never waits: with room in the queue the record can go in, also after the shutdown began;
  with the queue full or the sender stopped it can be dropped. flush waits for the goroutine or for
  the shutdown; close closes \<open>stopped\<close> once and returns when the goroutine has returned.
\<close>

inductive ship_step :: "ship_cfg \<Rightarrow> 'r ship \<Rightarrow> 'r ship_label \<Rightarrow> 'r ship \<Rightarrow> bool" for cfg where
  enqueued: "int (length (sh_queue s)) < sp_queue_size cfg \<Longrightarrow>
    ship_step cfg s (Enqueued r) (s\<lparr>sh_queue := sh_queue s @ [r]\<rparr>)"
| dropped: "sh_stopped s \<or> \<not> int (length (sh_queue s)) < sp_queue_size cfg \<Longrightarrow> ship_step cfg s (Dropped r) s"
| received: "sh_pc s = Running \<Longrightarrow> sh_queue s = r # q \<Longrightarrow> ship_step cfg s (Received d) (receive cfg d r q s)"
| ticked: "sh_pc s = Running \<Longrightarrow> ship_step cfg s (Ticked d) ((post d (sh_batch s) s)\<lparr>sh_batch := []\<rparr>)"
| flush_called: "i \<notin> set (sh_waiting s) \<Longrightarrow> sh_pc s \<noteq> DrainingFor i \<Longrightarrow>
    ship_step cfg s (FlushCalled i) (s\<lparr>sh_waiting := sh_waiting s @ [i]\<rparr>)"
| flush_taken: "sh_pc s = Running \<Longrightarrow> i \<in> set (sh_waiting s) \<Longrightarrow>
    ship_step cfg s (FlushTaken i) (s\<lparr>sh_waiting := remove1 i (sh_waiting s), sh_pc := DrainingFor i\<rparr>)"
| flush_skipped: "sh_stopped s \<Longrightarrow> i \<in> set (sh_waiting s) \<Longrightarrow>
    ship_step cfg s (FlushSkipped i) (s\<lparr>sh_waiting := remove1 i (sh_waiting s)\<rparr>)"
| stop_taken: "sh_pc s = Running \<Longrightarrow> sh_stopped s \<Longrightarrow> ship_step cfg s StopTaken (s\<lparr>sh_pc := DrainingLast\<rparr>)"
| drained: "sh_pc s = DrainingLast \<or> sh_pc s = DrainingFor i \<Longrightarrow> sh_queue s = r # q \<Longrightarrow>
    ship_step cfg s Drained (s\<lparr>sh_queue := q, sh_batch := sh_batch s @ [r]\<rparr>)"
| flush_done: "sh_pc s = DrainingFor i \<Longrightarrow> sh_queue s = [] \<Longrightarrow>
    ship_step cfg s (FlushDone i d) ((post d (sh_batch s) s)\<lparr>sh_batch := [], sh_pc := Running\<rparr>)"
| last_posted: "sh_pc s = DrainingLast \<Longrightarrow> sh_queue s = [] \<Longrightarrow>
    ship_step cfg s (LastPosted d) ((post d (sh_batch s) s)\<lparr>sh_batch := [], sh_pc := Ended\<rparr>)"
| close_called: "ship_step cfg s CloseCalled (s\<lparr>sh_stopped := True\<rparr>)"
| close_returned: "sh_stopped s \<Longrightarrow> sh_pc s = Ended \<Longrightarrow> ship_step cfg s CloseReturned s"

inductive ship_run :: "ship_cfg \<Rightarrow> 'r ship \<Rightarrow> 'r ship_label list \<Rightarrow> 'r ship \<Rightarrow> bool" for cfg where
  run_nil: "ship_run cfg s [] s"
| run_snoc: "ship_run cfg s ls s1 \<Longrightarrow> ship_step cfg s1 l s2 \<Longrightarrow> ship_run cfg s (ls @ [l]) s2"

inductive_cases step_cases: "ship_step cfg s l s'"

inductive_simps step_simps:
  "ship_step cfg s (Enqueued r) s'" "ship_step cfg s (Dropped r) s'" "ship_step cfg s (Received d) s'"
  "ship_step cfg s (Ticked d) s'" "ship_step cfg s (FlushCalled i) s'" "ship_step cfg s (FlushTaken i) s'"
  "ship_step cfg s (FlushSkipped i) s'" "ship_step cfg s StopTaken s'" "ship_step cfg s Drained s'"
  "ship_step cfg s (FlushDone i d) s'" "ship_step cfg s (LastPosted d) s'" "ship_step cfg s CloseCalled s'"
  "ship_step cfg s CloseReturned s'"

end
