(* ===== verification/Log_Shipping_Properties.thy ===== *)
theory Log_Shipping_Properties
  imports Log_Shipping
begin

text \<open>
  What log shipping promises: a record that got into the queue is posted once and in its place, the
  queue stays bounded, a flush or Close that returned has posted what was logged before it, Close
  comes to an end, and attributes are qualified by the groups open when they were added.
\<close>

section \<open>Every record once, in order\<close>

text \<open>The records that got into the queue.\<close>

fun accepted :: "'r ship_label list \<Rightarrow> 'r list" where
  "accepted [] = []"
| "accepted (Enqueued r # ls) = r # accepted ls"
| "accepted (_ # ls) = accepted ls"

lemma accepted_append: "accepted (xs @ ys) = accepted xs @ accepted ys"
  by (induction xs rule: accepted.induct) simp_all

lemma accepted_step:
  "accepted [l] = (case l of Enqueued r \<Rightarrow> [r] | _ \<Rightarrow> [])"
  by (cases l) simp_all

definition pending :: "'r ship \<Rightarrow> 'r list" where
  "pending s = concat (sh_posts s) @ sh_batch s @ sh_queue s"

lemma post_sel [simp]:
  "sh_queue (post d b s) = sh_queue s" "sh_batch (post d b s) = sh_batch s" "sh_pc (post d b s) = sh_pc s"
  "sh_stopped (post d b s) = sh_stopped s" "sh_waiting (post d b s) = sh_waiting s"
  "concat (sh_posts (post d b s)) = concat (sh_posts s) @ b"
  "sh_posts (post d b s) = sh_posts s @ (if b = [] then [] else [b])"
  by (simp_all add: post_def)

lemma receive_sel [simp]:
  "sh_queue (receive cfg d r q s) = q" "sh_pc (receive cfg d r q s) = sh_pc s"
  "sh_stopped (receive cfg d r q s) = sh_stopped s" "sh_waiting (receive cfg d r q s) = sh_waiting s"
  by (simp_all add: receive_def Let_def)

lemma pending_receive: "sh_queue s = r # q \<Longrightarrow> pending (receive cfg d r q s) = pending s"
  by (simp add: receive_def Let_def pending_def)

lemma step_pending: "ship_step cfg s l s' \<Longrightarrow> pending s' = pending s @ accepted [l]"
  by (induction rule: ship_step.induct) (simp_all add: pending_receive, simp_all add: pending_def)

text \<open>Outside a drain a batch is short of its size.\<close>

definition ship_ok :: "ship_cfg \<Rightarrow> 'r ship \<Rightarrow> bool" where
  "ship_ok cfg s \<longleftrightarrow> int (length (sh_queue s)) \<le> sp_queue_size cfg \<and>
     (sh_pc s = Running \<longrightarrow> int (length (sh_batch s)) < sp_batch_size cfg) \<and>
     [] \<notin> set (sh_posts s) \<and> (sh_pc s = Ended \<or> sh_pc s = DrainingLast \<longrightarrow> sh_stopped s) \<and>
     (sh_pc s = Ended \<longrightarrow> sh_batch s = []) \<and> distinct (sh_waiting s)"

lemma step_ok:
  assumes "ship_step cfg s l s'" and "0 < sp_batch_size cfg" and "ship_ok cfg s"
  shows "ship_ok cfg s'"
  using assms by (induction rule: ship_step.induct) (auto simp: ship_ok_def receive_def Let_def)

lemma ship_ok_init: "0 < sp_batch_size cfg \<Longrightarrow> 0 \<le> sp_queue_size cfg \<Longrightarrow> ship_ok cfg new_sender"
  by (simp add: ship_ok_def new_sender_def)

lemma run_ok: "ship_run cfg s ls s' \<Longrightarrow> 0 < sp_batch_size cfg \<Longrightarrow> ship_ok cfg s \<Longrightarrow> ship_ok cfg s'"
  by (induction rule: ship_run.induct) (auto intro: step_ok)

lemma run_pending: "ship_run cfg s ls s' \<Longrightarrow> pending s' = pending s @ accepted ls"
  by (induction rule: ship_run.induct) (simp_all add: step_pending accepted_append)

lemma run_append:
  assumes "ship_run cfg s (xs @ ys) s'"
  shows "\<exists>s1. ship_run cfg s xs s1 \<and> ship_run cfg s1 ys s'"
  using assms
proof (induction ys arbitrary: s' rule: rev_induct)
  case Nil
  then show ?case by (auto intro: run_nil)
next
  case (snoc y ys)
  from snoc.prems obtain s1 where "ship_run cfg s (xs @ ys) s1" "ship_step cfg s1 y s'"
    by (auto elim: ship_run.cases)
  with snoc.IH show ?case by (metis run_snoc)
qed

lemma run_one: "ship_run cfg s [l] s' \<Longrightarrow> ship_step cfg s l s'"
proof -
  assume "ship_run cfg s [l] s'"
  then obtain s1 where "ship_run cfg s [] s1" "ship_step cfg s1 l s'" by (auto elim: ship_run.cases)
  moreover have "t = s" if "ship_run cfg s [] t" for t using that by (auto elim: ship_run.cases)
  ultimately show ?thesis by blast
qed

lemma build_shipping_pos: "0 < sp_batch_size (build_shipping opts) \<and> 0 < sp_queue_size (build_shipping opts)"
proof -
  have "0 < sp_batch_size (apply_ship_option x c) \<and> 0 < sp_queue_size (apply_ship_option x c)"
    if "0 < sp_batch_size c \<and> 0 < sp_queue_size c" for x c
    using that by (cases x) auto
  then have "0 < sp_batch_size (fold apply_ship_option opts c) \<and> 0 < sp_queue_size (fold apply_ship_option opts c)"
    if "0 < sp_batch_size c \<and> 0 < sp_queue_size c" for c
    using that by (induction opts arbitrary: c) auto
  then show ?thesis by (simp add: build_shipping_def default_shipping_config_def)
qed


section \<open>Flush and Close\<close>

lemma run_stopped: "ship_run cfg s ls s' \<Longrightarrow> sh_stopped s \<Longrightarrow> sh_stopped s'"
proof (induction rule: ship_run.induct)
  case (run_snoc s ls s1 l s2)
  then have "sh_stopped s1" by simp
  with run_snoc(2) show ?case by (induction rule: ship_step.induct) simp_all
qed

lemma step_posts: "ship_step cfg s l s' \<Longrightarrow> \<exists>ps. sh_posts s' = sh_posts s @ ps"
  by (induction rule: ship_step.induct) (auto simp: receive_def Let_def)

lemma run_posts: "ship_run cfg s ls s' \<Longrightarrow> \<exists>ps. sh_posts s' = sh_posts s @ ps"
proof (induction rule: ship_run.induct)
  case (run_snoc s ls s1 l s2)
  with step_posts [OF run_snoc(2)] show ?case by force
qed simp

text \<open>When the goroutine has returned, it had posted everything taken in by then.\<close>

lemma ended_posted:
  assumes "ship_run cfg s ls s'" and "sh_pc s' = Ended" and "sh_pc s \<noteq> Ended"
  shows "\<exists>xs d ys. ls = xs @ LastPosted d # ys \<and> concat (sh_posts s') = concat (sh_posts s) @ sh_batch s @ sh_queue s @ accepted xs"
  using assms
proof (induction rule: ship_run.induct)
  case (run_snoc s ls s1 l s2)
  show ?case
  proof (cases "sh_pc s1 = Ended")
    case True
    with run_snoc obtain xs d ys where "ls = xs @ LastPosted d # ys"
      "concat (sh_posts s1) = concat (sh_posts s) @ sh_batch s @ sh_queue s @ accepted xs" by blast
    moreover have "sh_posts s2 = sh_posts s1"
      using run_snoc(2) True by (induction rule: ship_step.induct) auto
    ultimately show ?thesis by (intro exI [of _ xs] exI [of _ d] exI [of _ "ys @ [l]"]) simp
  next
    case False
    with run_snoc(2,4) obtain d where l: "l = LastPosted d" "sh_queue s1 = []"
      "s2 = (post d (sh_batch s1) s1)\<lparr>sh_batch := [], sh_pc := Ended\<rparr>"
      by (cases rule: ship_step.cases) auto
    have "concat (sh_posts s2) = pending s1" by (simp add: l(2,3) pending_def)
    also have "\<dots> = concat (sh_posts s) @ sh_batch s @ sh_queue s @ accepted ls"
      using run_pending [OF run_snoc(1)] by (simp add: pending_def)
    finally have "concat (sh_posts s2) = concat (sh_posts s) @ sh_batch s @ sh_queue s @ accepted ls" .
    with l(1) show ?thesis by (intro exI [of _ ls] exI [of _ d] exI [of _ "[]"]) simp
  qed
qed simp

lemma ended_stays: "ship_run cfg s ls s' \<Longrightarrow> sh_pc s = Ended \<Longrightarrow> sh_pc s' = Ended \<and> sh_posts s' = sh_posts s"
proof (induction rule: ship_run.induct)
  case (run_snoc s ls s1 l s2)
  then have "sh_pc s1 = Ended" "sh_posts s1 = sh_posts s" by auto
  with run_snoc(2) show ?case by (induction rule: ship_step.induct) auto
qed simp

lemma not_stopped: "ship_run cfg s ls s' \<Longrightarrow> CloseCalled \<notin> set ls \<Longrightarrow> sh_stopped s' = sh_stopped s"
proof (induction rule: ship_run.induct)
  case (run_snoc s ls s1 l s2)
  then have "sh_stopped s1 = sh_stopped s" "l \<noteq> CloseCalled" by auto
  with run_snoc(2) show ?case by (induction rule: ship_step.induct) auto
qed simp

text \<open>Nothing logged before a flush or before Close is left behind. When a flush that found the
goroutine is done, everything taken in before then, a fortiori before the flush was called, has been
posted and the batch and the queue are empty. When Close returns, everything taken in before it was
first called has been posted, in order; of what was taken in later the sender posted a first part,
and the rest are records lost in its queue.\<close>

theorem flush_close_complete:
  assumes run: "ship_run (build_shipping opts) new_sender ls s"
  shows "(\<forall>pre i d. ls = pre @ [FlushDone i d] \<longrightarrow> concat (sh_posts s) = accepted pre \<and> sh_queue s = [] \<and> sh_batch s = []) \<and>
    (\<forall>pre mid rest. ls = pre @ CloseCalled # mid @ CloseReturned # rest \<and> CloseCalled \<notin> set pre \<longrightarrow>
      (\<exists>more lost. concat (sh_posts s) = accepted pre @ more \<and> accepted (mid @ rest) = more @ lost))"
proof (intro conjI allI impI)
  fix pre i d
  assume "ls = pre @ [FlushDone i d]"
  with run obtain s1 where 1: "ship_run (build_shipping opts) new_sender pre s1"
      "ship_step (build_shipping opts) s1 (FlushDone i d) s"
    by (auto elim: ship_run.cases)
  have "pending s1 = accepted pre" using run_pending [OF 1(1)] by (simp add: pending_def new_sender_def)
  with 1(2) show "concat (sh_posts s) = accepted pre" "sh_queue s = []" "sh_batch s = []"
    by (auto simp: step_simps pending_def)
next
  fix pre mid rest
  assume ls: "ls = pre @ CloseCalled # mid @ CloseReturned # rest \<and> CloseCalled \<notin> set pre"
  with run have "ship_run (build_shipping opts) new_sender (pre @ (CloseCalled # mid) @ CloseReturned # rest) s" by simp
  from run_append [OF this] obtain s1 where 1: "ship_run (build_shipping opts) new_sender pre s1"
      "ship_run (build_shipping opts) s1 ((CloseCalled # mid) @ CloseReturned # rest) s"
    by blast
  from run_append [OF 1(2)] obtain s2 where 2: "ship_run (build_shipping opts) s1 (CloseCalled # mid) s2"
      "ship_run (build_shipping opts) s2 ([CloseReturned] @ rest) s"
    by auto
  from run_append [OF 2(2)] obtain s3 where 3: "ship_run (build_shipping opts) s2 [CloseReturned] s3" by blast
  from run_one [OF this] have e: "sh_pc s2 = Ended" by (simp add: step_simps)
  have "\<not> sh_stopped s1" using not_stopped [OF 1(1)] ls by (simp add: new_sender_def)
  moreover have "ship_ok (build_shipping opts) s1"
    using run_ok [OF 1(1)] ship_ok_init [of "build_shipping opts"] build_shipping_pos [of opts] by simp
  ultimately have "sh_pc s1 \<noteq> Ended" by (auto simp: ship_ok_def)
  from ended_posted [OF 2(1) e this] obtain xs d ys where x: "CloseCalled # mid = xs @ LastPosted d # ys"
      "concat (sh_posts s2) = pending s1 @ accepted xs"
    by (auto simp: pending_def)
  have "concat (sh_posts s) = accepted pre @ accepted xs"
    using ended_stays [OF 2(2) e] x(2) run_pending [OF 1(1)] by (simp add: pending_def new_sender_def)
  moreover have "accepted (mid @ rest) = accepted xs @ accepted (LastPosted d # ys @ rest)"
    using arg_cong [OF x(1), of accepted] by (simp add: accepted_append)
  ultimately show "\<exists>more lost. concat (sh_posts s) = accepted pre @ more \<and> accepted (mid @ rest) = more @ lost"
    by blast
qed

section \<open>Close comes to an end\<close>

text \<open>The steps left to the goroutine and the waiting flushes of a stopped sender.\<close>

definition work_left :: "'r ship \<Rightarrow> nat" where
  "work_left s = length (sh_queue s) + 2 * length (sh_waiting s) +
     (case sh_pc s of Running \<Rightarrow> 2 | DrainingFor i \<Rightarrow> 3 | DrainingLast \<Rightarrow> 1 | Ended \<Rightarrow> 0)"

fun internal :: "'r ship_label \<Rightarrow> bool" where
  "internal (Received d) = True"
| "internal (FlushTaken i) = True"
| "internal (FlushSkipped i) = True"
| "internal StopTaken = True"
| "internal Drained = True"
| "internal (FlushDone i d) = True"
| "internal (LastPosted d) = True"
| "internal _ = False"

lemma step_work: "ship_step cfg s l s' \<Longrightarrow> internal l \<Longrightarrow> work_left s' < work_left s"
proof (induction rule: ship_step.induct)
  case (flush_taken s i)
  then obtain n where "length (sh_waiting s) = Suc n" by (cases "sh_waiting s") auto
  with flush_taken show ?case by (simp add: work_left_def length_remove1)
next
  case (flush_skipped s i)
  then obtain n where "length (sh_waiting s) = Suc n" by (cases "sh_waiting s") auto
  with flush_skipped show ?case by (simp add: work_left_def length_remove1)
qed (auto simp: work_left_def split: ship_pc.splits)

lemma run_work: "ship_run cfg s ls s' \<Longrightarrow> \<forall>l\<in>set ls. internal l \<Longrightarrow> length ls + work_left s' \<le> work_left s"
proof (induction rule: ship_run.induct)
  case (run_snoc s ls s1 l s2)
  with step_work [OF run_snoc(2)] show ?case by force
qed simp

lemma stuck_ended:
  assumes "sh_stopped s" and "\<forall>l s'. internal l \<longrightarrow> \<not> ship_step cfg s l s'"
  shows "sh_pc s = Ended \<and> sh_waiting s = []"
proof -
  have "sh_waiting s = []" using assms flush_skipped [of s _ cfg] by (cases "sh_waiting s") fastforce+
  moreover have "sh_pc s = Ended"
  proof (cases "sh_pc s")
    case Running
    with assms stop_taken [of s cfg] show ?thesis by fastforce
  next
    case (DrainingFor i)
    with assms drained [of s i _ _ cfg] flush_done [of s i cfg] show ?thesis by (cases "sh_queue s") fastforce+
  next
    case DrainingLast
    with assms drained [of s _ _ _ cfg] last_posted [of s cfg] show ?thesis by (cases "sh_queue s") fastforce+
  qed
  ultimately show ?thesis by simp
qed


section \<open>Groups and attributes\<close>

text \<open>The reference: an attribute is qualified by the names of the groups opened before it.\<close>

datatype 'v with_op = WithAttrs "'v attr list" | WithGroup string

fun apply_with :: "'v with_op \<Rightarrow> 'v ship_handler \<Rightarrow> 'v ship_handler" where
  "apply_with (WithAttrs as) h = with_attrs as h"
| "apply_with (WithGroup g) h = with_group g h"

definition under :: "string list \<Rightarrow> 'v attr \<Rightarrow> 'v attr" where
  "under path a = (join_with ''.'' (path @ [fst a]), snd a)"

fun grouped :: "string list \<Rightarrow> 'v with_op list \<Rightarrow> 'v attr list \<Rightarrow> 'v attr list" where
  "grouped path [] as = map (under path) as"
| "grouped path (WithAttrs xs # ops) as = map (under path) xs @ grouped path ops as"
| "grouped path (WithGroup g # ops) as = grouped (if g = [] then path else path @ [g]) ops as"

lemma join_snoc: "join_with sep (path @ [x]) = (if path = [] then x else join_with sep path @ sep @ x)"
  by (induction path rule: induct_list012) simp_all

lemma join_empty: "[] \<notin> set path \<Longrightarrow> join_with sep path = [] \<longleftrightarrow> path = []"
  by (induction path rule: induct_list012) auto

lemma qualify_under: "[] \<notin> set path \<Longrightarrow> qualify (join_with ''.'' path) a = under path a"
  by (simp add: qualify_def under_def join_snoc join_empty)

lemma handler_fold:
  assumes "sl_group h = join_with ''.'' path" and "[] \<notin> set path"
  shows "sl_attrs (fold apply_with ops h) @ map (qualify (sl_group (fold apply_with ops h))) as =
      sl_attrs h @ grouped path ops as \<and> sl_level (fold apply_with ops h) = sl_level h"
  using assms
proof (induction ops arbitrary: h path)
  case Nil
  then show ?case by (simp add: qualify_under)
next
  case (Cons x ops)
  show ?case
  proof (cases x)
    case (WithAttrs xs)
    with Cons.prems Cons.IH [of "with_attrs xs h" path] show ?thesis
      by (simp add: with_attrs_def qualify_under)
  next
    case (WithGroup g)
    with Cons.prems Cons.IH [of "with_group g h" "if g = [] then path else path @ [g]"] show ?thesis
      by (simp add: with_group_def join_snoc join_empty split: if_splits)
  qed
qed

text \<open>Whatever WithAttrs and WithGroup calls made a handler, a record it captures carries every
attribute once, in the order it was added, under the names of the groups opened before it and of no
other, and its level and message as they were.\<close>

theorem handler_groups:
  "let h = fold apply_with ops \<lparr>sl_level = lv, sl_group = [], sl_attrs = []\<rparr> in
   handle_record h r = r\<lparr>lr_attrs := grouped [] ops (lr_attrs r)\<rparr> \<and> handler_enabled h n = (n \<ge> lv)"
  using handler_fold [of "\<lparr>sl_level = lv, sl_group = [], sl_attrs = []\<rparr>" "[]" ops "lr_attrs r"]
  by (simp add: Let_def handle_record_def handler_enabled_def)

text \<open>The fan-out stops at the first handler that fails: a broken local handler keeps records from
being shipped.\<close>

theorem fanout_stops:
  assumes "fst local level" and "snd local r = Some e"
  shows "fanout_handle 0 [local, ship] level r = ([0], Some e)"
  using assms by simp

section \<open>A concrete sender\<close>

definition demo_ship_opts :: "ship_option list" where
  "demo_ship_opts = [WithBatchSize 2, WithQueueSize 2]"

lemma demo_ship_cfg:
  "sp_batch_size (build_shipping demo_ship_opts) = 2" "sp_queue_size (build_shipping demo_ship_opts) = 2"
  by (simp_all add: build_shipping_def demo_ship_opts_def default_shipping_config_def)

definition demo_ship_log :: "string ship_label list" where
  "demo_ship_log = [Enqueued ''a'', Enqueued ''b'', Received (Response 500), Received (Response 500), Enqueued ''c'', CloseCalled]"

definition demo_ship_end :: "string ship" where
  "demo_ship_end = \<lparr>sh_queue = [''c''], sh_batch = [], sh_pc = Running, sh_stopped = True, sh_waiting = [],
      sh_posts = [[''a'', ''b'']], sh_errors = [UnexpectedStatus 500]\<rparr>"

lemma demo_ship_run: "ship_run (build_shipping demo_ship_opts) new_sender demo_ship_log demo_ship_end"
proof -
  let ?s = "\<lambda>q b st ps es. \<lparr>sh_queue = q, sh_batch = b, sh_pc = Running, sh_stopped = st, sh_waiting = [],
      sh_posts = ps, sh_errors = es\<rparr>"
  let ?cfg = "build_shipping demo_ship_opts"
  note d = step_simps demo_ship_cfg receive_def post_def delivery_errors_def new_sender_def
  have 0: "ship_run ?cfg new_sender ([] @ [Enqueued ''a'']) (?s [''a''] [] False [] [])"
    by (rule run_snoc, rule run_nil) (simp add: d)
  have 1: "ship_run ?cfg new_sender (([] @ [Enqueued ''a'']) @ [Enqueued ''b'']) (?s [''a'', ''b''] [] False [] [])"
    by (rule run_snoc [OF 0]) (simp add: d)
  have 2: "ship_run ?cfg new_sender ((([] @ [Enqueued ''a'']) @ [Enqueued ''b'']) @ [Received (Response 500)])
      (?s [''b''] [''a''] False [] [])"
    by (rule run_snoc [OF 1]) (simp add: d)
  have 3: "ship_run ?cfg new_sender (((([] @ [Enqueued ''a'']) @ [Enqueued ''b'']) @ [Received (Response 500)]) @ [Received (Response 500)])
      (?s [] [] False [[''a'', ''b'']] [UnexpectedStatus 500])"
    by (rule run_snoc [OF 2]) (simp add: d)
  have 4: "ship_run ?cfg new_sender ((((([] @ [Enqueued ''a'']) @ [Enqueued ''b'']) @ [Received (Response 500)]) @ [Received (Response 500)]) @ [Enqueued ''c''])
      (?s [''c''] [] False [[''a'', ''b'']] [UnexpectedStatus 500])"
    by (rule run_snoc [OF 3]) (simp add: d)
  have "ship_run ?cfg new_sender (((((([] @ [Enqueued ''a'']) @ [Enqueued ''b'']) @ [Received (Response 500)]) @ [Received (Response 500)]) @ [Enqueued ''c'']) @ [CloseCalled])
      (?s [''c''] [] True [[''a'', ''b'']] [UnexpectedStatus 500])"
    by (rule run_snoc [OF 4]) (simp add: d)
  then show ?thesis by (simp add: demo_ship_log_def demo_ship_end_def)
qed


lemma demo_ship_flush:
  "ship_run (build_shipping demo_ship_opts) new_sender [Enqueued ''a'', FlushCalled 1, FlushTaken 1, Drained, FlushDone 1 (Response 200)]
     \<lparr>sh_queue = [], sh_batch = [], sh_pc = Running, sh_stopped = False, sh_waiting = [], sh_posts = [[''a'']], sh_errors = []\<rparr>"
proof -
  let ?s = "\<lambda>q b pc w ps. \<lparr>sh_queue = q, sh_batch = b, sh_pc = pc, sh_stopped = False, sh_waiting = w,
      sh_posts = ps, sh_errors = []\<rparr>"
  let ?cfg = "build_shipping demo_ship_opts"
  note d = step_simps demo_ship_cfg post_def delivery_errors_def new_sender_def
  have 0: "ship_run ?cfg new_sender ([] @ [Enqueued ''a'']) (?s [''a''] [] Running [] [])"
    by (rule run_snoc, rule run_nil) (simp add: d)
  have 1: "ship_run ?cfg new_sender (([] @ [Enqueued ''a'']) @ [FlushCalled 1]) (?s [''a''] [] Running [1] [])"
    by (rule run_snoc [OF 0]) (simp add: d)
  have 2: "ship_run ?cfg new_sender ((([] @ [Enqueued ''a'']) @ [FlushCalled 1]) @ [FlushTaken 1]) (?s [''a''] [] (DrainingFor 1) [] [])"
    by (rule run_snoc [OF 1]) (simp add: d)
  have 3: "ship_run ?cfg new_sender (((([] @ [Enqueued ''a'']) @ [FlushCalled 1]) @ [FlushTaken 1]) @ [Drained]) (?s [] [''a''] (DrainingFor 1) [] [])"
    by (rule run_snoc [OF 2]) (simp add: d)
  have "ship_run ?cfg new_sender ((((([] @ [Enqueued ''a'']) @ [FlushCalled 1]) @ [FlushTaken 1]) @ [Drained]) @ [FlushDone 1 (Response 200)])
      (?s [] [] Running [] [[''a'']])"
    by (rule run_snoc [OF 3]) (simp add: d)
  then show ?thesis by simp
qed

theorem flush_close_complete_witness:
  "accepted [Enqueued ''a'', FlushCalled 1, FlushTaken 1, Drained] = [''a'']"
  using flush_close_complete [OF demo_ship_flush] by simp


end
