(* ===== verification/Request_Scope.thy ===== *)
theory Request_Scope
  imports Di_Properties Http_Errors
begin

text \<open>
  The life of the scope of one request: requestScopeMiddleware and RequestLogger of middleware.go
  around a DI-aware handler (adaptedHandler of handler.go), over the container of Di_Container and the
  outcomes of Http_Errors. What the handler and the error handler resolve through the scope while
  they run are lists of types; how a container error looks to the error handler is the argument
  \<open>conv\<close>. The per-request logger is what \<open>derive\<close> makes of the resolved one.
\<close>

section \<open>The middleware\<close>

text \<open>The resolutions of a function that goes on whatever they give.\<close>

definition resolve_all :: "world \<Rightarrow> rtype list \<Rightarrow> di \<Rightarrow> di" where
  "resolve_all w ts s = fold (\<lambda>t s. snd (resolve_from w FromScope [] t s)) ts s"

text \<open>RequestLogger up to the call of the next handler: whether there is a logger.\<close>

definition request_logger :: "world \<Rightarrow> rtype \<Rightarrow> (rvalue \<Rightarrow> rvalue) \<Rightarrow> di \<Rightarrow> bool \<times> di" where
  "request_logger w t derive s =
     (case resolve_from w FromScope [] t s of
        (Inl e, s1) \<Rightarrow> (False, s1)
      | (Inr v, s1) \<Rightarrow> (True, snd (replace_scoped w t (derive v) s1)))"

text \<open>The loop over the parameters of the handler; it stops at the first failure.\<close>

fun resolve_deps ::
  "world \<Rightarrow> (gerr \<Rightarrow> goerr) \<Rightarrow> rtype list \<Rightarrow> di \<Rightarrow> (rtype \<times> (goerr, nat) result run) list \<times> di" where
  "resolve_deps w conv [] s = ([], s)"
| "resolve_deps w conv (t # ts) s =
     (case resolve_type w FromScope [] t s of
        (Inl e, s1) \<Rightarrow> ([(t, Ran (Inl (conv e)))], s1)
      | (Inr v, s1) \<Rightarrow>
          (case resolve_deps w conv ts s1 of (ds, s2) \<Rightarrow> ((t, Ran (Inr (length ts))) # ds, s2)))"

record request =
  rq_logger :: "(rtype \<times> (rvalue \<Rightarrow> rvalue)) option"
  rq_deps :: "rtype list"
  rq_body :: "rtype list"
  rq_error_deps :: "rtype list"
  rq_result :: "goerr option run"

definition serve_handler :: "world \<Rightarrow> (gerr \<Rightarrow> goerr) \<Rightarrow> request \<Rightarrow> di \<Rightarrow> outcome \<times> di" where
  "serve_handler w conv rq s =
     (case resolve_deps w conv (rq_deps rq) s of
        (ds, s1) \<Rightarrow>
          (let s2 = (if first_failure ds = None then resolve_all w (rq_body rq) s1 else s1);
               out = adapted_handler ds (rq_result rq) in
           (out, case out of ErrorHandled e \<Rightarrow> resolve_all w (rq_error_deps rq) s2 | _ \<Rightarrow> s2)))"

text \<open>
  A request: the scope is made, the logger and the handler run, and the deferred Close comes after
  whatever they did, a panic that goes on included. The result is the outcome, what Close returned
  and the state.
\<close>

definition serve_request ::
  "world \<Rightarrow> (gerr \<Rightarrow> goerr) \<Rightarrow> request \<Rightarrow> di \<Rightarrow> outcome \<times> gerr list \<times> di" where
  "serve_request w conv rq s =
     (let s0 = new_scope s;
          s1 = (case rq_logger rq of None \<Rightarrow> s0 | Some (t, derive) \<Rightarrow> snd (request_logger w t derive s0)) in
      case serve_handler w conv rq s1 of
        (out, s2) \<Rightarrow> (case scope_close w s2 of (es, s3) \<Rightarrow> (out, es, s3)))"

section \<open>What a scope records\<close>

definition is_scoped :: "di \<Rightarrow> rtype \<Rightarrow> bool" where
  "is_scoped s t \<longleftrightarrow> (\<exists>reg. om_get (registrations s) t = Some reg \<and> reg_lifetime reg = Scoped)"

text \<open>The scoped services whose Init was accepted, in order.\<close>

definition scoped_inits :: "di \<Rightarrow> di_event list \<Rightarrow> rvalue list" where
  "scoped_inits s es =
     List.map_filter (\<lambda>e. case e of EvInit t v a \<Rightarrow> if a \<and> is_scoped s t then Some v else None | _ \<Rightarrow> None) es"

lemma scoped_inits_append [simp]: "scoped_inits s (xs @ ys) = scoped_inits s xs @ scoped_inits s ys"
  by (simp add: scoped_inits_def List.map_filter_def)

lemma scoped_inits_Nil [simp]: "scoped_inits s [] = []"
  by (simp add: scoped_inits_def map_filter_simps)

lemma scoped_inits_Cons [simp]:
  "scoped_inits s (EvCtor t # es) = scoped_inits s es"
  "scoped_inits s (EvClose v # es) = scoped_inits s es"
  "scoped_inits s (EvInit t v a # es) = (if a \<and> is_scoped s t then v # scoped_inits s es else scoped_inits s es)"
  by (simp_all add: scoped_inits_def map_filter_simps)

text \<open>Between two states of a scope: what was recorded are the scoped services initialised.\<close>

definition scope_grows :: "world \<Rightarrow> di \<Rightarrow> di_event list \<Rightarrow> rtype list \<Rightarrow> di \<Rightarrow> bool" where
  "scope_grows w s d ts s' \<longleftrightarrow> registrations s' = registrations s \<and> evs s' = evs s @ d \<and> sorder s' = sorder s @ ts \<and>
     (\<forall>t v. resolved s t = Some v \<longrightarrow> resolved s' t = Some v) \<and> (\<forall>t\<in>set ts. resolved s' t \<noteq> None) \<and>
     filter (as_service w) (map (the \<circ> resolved s') ts) = scoped_inits s d"

definition balanced :: "world \<Rightarrow> di \<Rightarrow> di \<Rightarrow> bool" where
  "balanced w s s' \<longleftrightarrow> (\<exists>d ts. scope_grows w s d ts s')"

lemma is_scoped_cong: "registrations s' = registrations s \<Longrightarrow> is_scoped s' = is_scoped s"
  by (simp add: is_scoped_def fun_eq_iff)

lemma scoped_inits_cong: "registrations s' = registrations s \<Longrightarrow> scoped_inits s' = scoped_inits s"
proof (intro ext)
  fix es assume "registrations s' = registrations s"
  from is_scoped_cong [OF this] show "scoped_inits s' es = scoped_inits s es" by (simp only: scoped_inits_def)
qed

lemma balanced_refl [simp]: "balanced w s s"
  unfolding balanced_def scope_grows_def by (intro exI [of _ "[]"]) simp

lemma scope_grows_trans:
  assumes "scope_grows w s d ts s1" and "scope_grows w s1 d2 ts2 s2"
  shows "scope_grows w s (d @ d2) (ts @ ts2) s2"
proof -
  have "map (the \<circ> resolved s2) ts = map (the \<circ> resolved s1) ts"
    using assms by (fastforce simp: scope_grows_def)
  then have "filter (as_service w) (map (the \<circ> resolved s2) ts) = scoped_inits s d"
    using assms(1) by (simp only: scope_grows_def)
  moreover have "scoped_inits s1 = scoped_inits s"
    by (rule scoped_inits_cong) (use assms(1) in \<open>simp add: scope_grows_def\<close>)
  moreover have "\<forall>t\<in>set ts. resolved s2 t \<noteq> None"
  proof
    fix t assume "t \<in> set ts"
    then obtain v where "resolved s1 t = Some v" using assms(1) by (auto simp: scope_grows_def)
    then show "resolved s2 t \<noteq> None" using assms(2) by (simp add: scope_grows_def)
  qed
  ultimately show ?thesis using assms by (auto simp: scope_grows_def)
qed

lemma balanced_trans: "balanced w s s1 \<Longrightarrow> balanced w s1 s2 \<Longrightarrow> balanced w s s2"
  unfolding balanced_def using scope_grows_trans by blast

lemma balanced_evs:
  "balanced w s s1 \<Longrightarrow> scoped_inits s es = [] \<Longrightarrow> balanced w s (s1\<lparr>evs := evs s1 @ es\<rparr>)"
proof -
  assume "balanced w s s1" and es: "scoped_inits s es = []"
  then obtain d ts where "scope_grows w s d ts s1" unfolding balanced_def by blast
  with es have "scope_grows w s (d @ es) ts (s1\<lparr>evs := evs s1 @ es\<rparr>)" by (simp add: scope_grows_def)
  then show ?thesis unfolding balanced_def by blast
qed

lemma balanced_upd [simp]:
  "balanced w (s\<lparr>building := b\<rparr>) s' = balanced w s s'"
  "balanced w s (s'\<lparr>building := b\<rparr>) = balanced w s s'"
  "balanced w s (s'\<lparr>instances := m, building := b\<rparr>) = balanced w s s'"
  "balanced w s (s'\<lparr>instances := m\<rparr>) = balanced w s s'"
  by (simp_all add: balanced_def scope_grows_def scoped_inits_def is_scoped_def)

lemma init_instance_Inr:
  "init_instance w t v s = (Inr v', s') \<Longrightarrow>
     v' = v \<and> s' = s\<lparr>evs := evs s @ (if as_service w v then [EvInit t v True] else [])\<rparr>"
  by (auto simp: init_instance_def init_service_def Let_def split: option.splits prod.splits if_splits)

lemma init_instance_Inl:
  "init_instance w t v s = (Inl e, s') \<Longrightarrow> \<exists>es. s' = s\<lparr>evs := evs s @ es\<rparr> \<and> (\<forall>x. scoped_inits x es = [])"
proof -
  assume "init_instance w t v s = (Inl e, s')"
  then have "s' = s \<or> s' = s\<lparr>evs := evs s @ [EvInit t v False]\<rparr> \<or> s' = s\<lparr>evs := evs s @ [EvInit t v False, EvClose v]\<rparr>"
    by (auto simp: init_instance_def init_service_def Let_def split: option.splits prod.splits if_splits)
  then show ?thesis
    by (elim disjE) (rule exI [of _ "[]"], simp, rule exI [of _ "[EvInit t v False]"], simp,
      rule exI [of _ "[EvInit t v False, EvClose v]"], simp)
qed

text \<open>A constructor call, with the Init that follows it.\<close>

definition built_in :: "world \<Rightarrow> rtype \<Rightarrow> rvalue \<Rightarrow> di \<Rightarrow> di \<Rightarrow> bool" where
  "built_in w t v s s' \<longleftrightarrow> (\<exists>s1. balanced w s s1 \<and>
     s' = s1\<lparr>evs := evs s1 @ EvCtor t # (if as_service w v then [EvInit t v True] else [])\<rparr>)"

lemma built_in_unscoped: "built_in w t v s s' \<Longrightarrow> \<not> is_scoped s t \<Longrightarrow> balanced w s s'"
  unfolding built_in_def by (elim exE conjE) (simp add: balanced_evs)

lemma built_in_scoped:
  assumes "built_in w t v s s'" and "is_scoped s t" and "resolved s' t = None"
  shows "balanced w s (s'\<lparr>resolved := (resolved s')(t \<mapsto> v), sorder := sorder s' @ [t]\<rparr>)"
proof -
  let ?es = "EvCtor t # (if as_service w v then [EvInit t v True] else [])"
  from assms(1) obtain s1 d ts where g: "scope_grows w s d ts s1" and s': "s' = s1\<lparr>evs := evs s1 @ ?es\<rparr>"
    unfolding built_in_def balanced_def by blast
  have n: "t \<notin> set ts" using g assms(3) s' by (auto simp: scope_grows_def)
  have "map (the \<circ> (resolved s1)(t \<mapsto> v)) ts = map (the \<circ> resolved s1) ts"
    using n by auto
  then have "filter (as_service w) (map (the \<circ> (resolved s1)(t \<mapsto> v)) ts) = scoped_inits s d"
    using g by (simp only: scope_grows_def)
  moreover have "scoped_inits s ?es = filter (as_service w) [v]" using assms(2) by simp
  ultimately have "scope_grows w s (d @ ?es) (ts @ [t]) (s'\<lparr>resolved := (resolved s')(t \<mapsto> v), sorder := sorder s' @ [t]\<rparr>)"
    using g n assms(3) unfolding s' by (auto simp: scope_grows_def)
  then show ?thesis unfolding balanced_def by blast
qed

lemma resolution_balanced:
  shows "\<And>res s'. resolve_type w r stk t s = (res, s') \<Longrightarrow> balanced w s s'"
    and "\<And>res s'. resolve_singleton w stk t s = (res, s') \<Longrightarrow> \<not> is_scoped s t \<Longrightarrow> balanced w s s'"
    and "\<And>res s'. invoke w r stk t s = (res, s') \<Longrightarrow>
      (case res of Inl e \<Rightarrow> balanced w s s' | Inr v \<Rightarrow> built_in w t v s s')"
    and "\<And>res s'. resolve_ctor_args w r stk t ds s = (res, s') \<Longrightarrow> balanced w s s'"
proof (induction w r stk t s and w stk t s and w r stk t s and w r stk t ds s
    rule: resolve_type_resolve_singleton_invoke_resolve_ctor_args.induct)
  case (1 w r stk t s)
  from "1.prems" show ?case
  proof (cases rule: resolve_type_cases)
    case (scoped reg v s1)
    have b: "built_in w (alias_target s t) v s s1" using 1 scoped by (fastforce simp: scope_lookup_def)
    have "is_scoped s (alias_target s t)" using scoped by (simp add: is_scoped_def)
    moreover have "resolved s1 (alias_target s t) = None"
      using resolution_scope(3) [OF scoped(6)] scoped(1,2) by (simp add: scope_kept_def scope_lookup_def)
    ultimately show ?thesis using built_in_scoped [OF b] scoped(8) by simp
  next
    case (transient reg)
    have "case res of Inl e \<Rightarrow> balanced w s s' | Inr v \<Rightarrow> built_in w (alias_target s t) v s s'"
      using 1 transient by (fastforce simp: scope_lookup_def)
    moreover have "\<not> is_scoped s (alias_target s t)" using transient by (simp add: is_scoped_def)
    ultimately show ?thesis using built_in_unscoped by (auto split: sum.splits)
  next
    case (scoped_error reg e)
    with 1 show ?thesis by (fastforce simp: scope_lookup_def)
  next
    case (singleton reg)
    then have "\<not> is_scoped s (alias_target s t)" by (simp add: is_scoped_def)
    with 1 singleton show ?thesis by (auto simp: scope_lookup_def)
  next
    case (delegate reg)
    with 1 show ?thesis by (auto simp: scope_lookup_def)
  qed auto
next
  case (2 w stk t s)
  from "2.prems"(1) show ?case
  proof (cases rule: resolve_singleton_cases)
    case (failed e s1)
    with 2 have "balanced w (s\<lparr>building := insert t (building s)\<rparr>) s1" by fastforce
    with failed show ?thesis by simp
  next
    case (built v s1)
    with 2 have "built_in w t v (s\<lparr>building := insert t (building s)\<rparr>) s1" by fastforce
    with "2.prems"(2) have "balanced w (s\<lparr>building := insert t (building s)\<rparr>) s1"
      by (intro built_in_unscoped) (simp_all add: is_scoped_def)
    with built show ?thesis by simp
  qed auto
next
  case (3 w r stk t s)
  from "3.prems" show ?case
  proof (cases rule: invoke_cases)
    case (args_failed reg stk' e)
    with 3 show ?thesis by auto
  next
    case (ctor_failed reg stk' args s1 e)
    with 3 have "balanced w s s1" by auto
    with ctor_failed show ?thesis by (simp add: balanced_evs)
  next
    case (constructed reg stk' args s1 v)
    with 3 have b: "balanced w s s1" by auto
    show ?thesis
    proof (cases res)
      case (Inl e)
      with init_instance_Inl constructed(5) obtain es where
        "s' = s1\<lparr>evs := (evs s1 @ [EvCtor t]) @ es\<rparr>" "\<forall>x. scoped_inits x es = []" by fastforce
      with b Inl show ?thesis using balanced_evs [OF b, of "EvCtor t # es"] by simp
    next
      case (Inr v')
      with init_instance_Inr constructed(5) have
        "v' = v \<and> s' = s1\<lparr>evs := (evs s1 @ [EvCtor t]) @ (if as_service w v then [EvInit t v True] else [])\<rparr>" by fastforce
      with b Inr show ?thesis by (auto simp: built_in_def)
    qed
  qed simp
next
  case (4 w r stk t s)
  then show ?case by simp
next
  case (5 w r stk t d ds s)
  from "5.prems" show ?case
    by (cases rule: resolve_ctor_args_cases) (use 5 in \<open>auto intro: balanced_trans\<close>)
qed

section \<open>Requests\<close>

lemma resolve_from_balanced: "resolve_from w r stk t s = (res, s') \<Longrightarrow> balanced w s s'"
  using resolve_from_frame resolution_balanced(1) by blast

lemma resolve_all_balanced: "balanced w s (resolve_all w ts s)"
proof (induction ts arbitrary: s)
  case (Cons t ts)
  obtain res s1 where "resolve_from w FromScope [] t s = (res, s1)" by fastforce
  with resolve_from_balanced [OF this] Cons.IH [of s1] show ?case
    by (auto simp: resolve_all_def intro: balanced_trans)
qed (simp add: resolve_all_def)

lemma resolve_deps_balanced: "resolve_deps w conv ts s = (ds, s') \<Longrightarrow> balanced w s s'"
proof (induction ts arbitrary: s ds s')
  case (Cons t ts)
  obtain res s1 where r: "resolve_type w FromScope [] t s = (res, s1)" by fastforce
  have b: "balanced w s s1" by (rule resolution_balanced(1) [OF r])
  show ?case
  proof (cases res)
    case (Inl e)
    with Cons.prems r b show ?thesis by simp
  next
    case (Inr v)
    obtain ds2 s2 where d: "resolve_deps w conv ts s1 = (ds2, s2)" by fastforce
    with Cons.prems r Inr have "s' = s2" by simp
    with balanced_trans [OF b Cons.IH [OF d]] show ?thesis by simp
  qed
qed simp

lemma serve_handler_balanced: "serve_handler w conv rq s = (out, s') \<Longrightarrow> balanced w s s'"
proof -
  assume a: "serve_handler w conv rq s = (out, s')"
  obtain ds s1 where d: "resolve_deps w conv (rq_deps rq) s = (ds, s1)" by fastforce
  let ?s2 = "if first_failure ds = None then resolve_all w (rq_body rq) s1 else s1"
  have "balanced w s1 ?s2" using resolve_all_balanced by simp
  with resolve_deps_balanced [OF d] have b: "balanced w s ?s2" by (rule balanced_trans)
  have "s' = ?s2 \<or> s' = resolve_all w (rq_error_deps rq) ?s2"
    using a d by (auto simp: serve_handler_def Let_def split: outcome.splits if_splits)
  with b balanced_trans [OF b resolve_all_balanced] show ?thesis by metis
qed

text \<open>Replacing the instance of a type that is no service by one that is none.\<close>

lemma replace_scoped_grows:
  assumes "scope_grows w s d ts s1" and "resolved s = Map.empty" and "\<not> as_service w v"
  shows "scope_grows w s d ts (snd (replace_scoped w t v s1))"
proof (cases "snd (replace_scoped w t v s1) = s1")
  case False
  then obtain cur where cur: "resolved s1 t = Some cur" "\<not> as_service w cur"
    and s2: "snd (replace_scoped w t v s1) = s1\<lparr>resolved := (resolved s1)(t \<mapsto> v)\<rparr>"
    by (auto simp: replace_scoped_def split: option.splits rvalue.splits if_splits)
  have "filter (as_service w) (map (the \<circ> (resolved s1)(t \<mapsto> v)) us) = filter (as_service w) (map (the \<circ> resolved s1) us)" for us
    by (induction us) (use cur assms(3) in auto)
  with assms(1,2) show ?thesis unfolding s2 by (simp add: scope_grows_def)
qed (use assms in simp)

lemma request_logger_grows:
  assumes "request_logger w t derive s = (b, s1)" and "resolved s = Map.empty" and "\<forall>v. \<not> as_service w (derive v)"
  shows "balanced w s s1"
proof -
  obtain res s2 where r: "resolve_from w FromScope [] t s = (res, s2)" by fastforce
  from resolve_from_balanced [OF this] obtain d ts where g: "scope_grows w s d ts s2" unfolding balanced_def by blast
  have "s1 = s2 \<or> (\<exists>v. s1 = snd (replace_scoped w t (derive v) s2))"
    using assms(1) r by (auto simp: request_logger_def split: sum.splits)
  with g replace_scoped_grows [OF g assms(2)] assms(3) show ?thesis unfolding balanced_def by metis
qed

text \<open>C27: every request cleans up after itself, whatever its outcome: a dependency that cannot be
resolved, an error, a panic, http.ErrAbortHandler, or success. Through the logger, the dependencies
of the handler, what its body and the error handler resolve, the scoped services whose Init was
accepted during the request, and no others, are closed when it ends, each once, the last one
initialised first, and the errors of their Close are what the middleware logs. The per-request
logger must not be a service itself.\<close>

theorem request_scope_closed:
  assumes "serve_request w conv rq s = (out, es, s')"
    and "\<forall>t derive v. rq_logger rq = Some (t, derive) \<longrightarrow> \<not> as_service w (derive v)"
  shows "\<exists>d. evs s' = evs s @ d @ map EvClose (rev (scoped_inits s d)) \<and>
    es = List.map_filter (w_close w) (rev (scoped_inits s d)) \<and> registrations s' = registrations s"
proof -
  let ?s0 = "new_scope s"
  let ?s1 = "case rq_logger rq of None \<Rightarrow> ?s0 | Some (t, derive) \<Rightarrow> snd (request_logger w t derive ?s0)"
  have 1: "balanced w ?s0 ?s1"
  proof (cases "rq_logger rq")
    case (Some p)
    obtain t derive where p: "p = (t, derive)" by (cases p)
    obtain b s1 where l: "request_logger w t derive ?s0 = (b, s1)" by fastforce
    have "balanced w ?s0 s1"
      by (rule request_logger_grows [OF l]) (use assms(2) Some p in \<open>simp_all add: new_scope_def\<close>)
    then show ?thesis using Some p l by simp
  qed simp
  obtain out2 s2 where h: "serve_handler w conv rq ?s1 = (out2, s2)" by fastforce
  from balanced_trans [OF 1 serve_handler_balanced [OF h]] obtain d ts where g: "scope_grows w ?s0 d ts s2"
    unfolding balanced_def by blast
  have c: "scope_close w s2 = (es, s')"
    using assms(1) h by (auto simp: serve_request_def Let_def split: prod.splits)
  have ts: "sorder s2 = ts" "\<forall>t\<in>set ts. resolved s2 t \<noteq> None" using g by (simp_all add: scope_grows_def new_scope_def)
  have "List.map_filter (resolved s2) us = map (the \<circ> resolved s2) us" if "set us \<subseteq> set ts" for us
    using that ts(2) by (induction us) (auto simp: map_filter_simps)
  then have "filter (as_service w) (List.map_filter (resolved s2) (rev (sorder s2))) =
      rev (filter (as_service w) (map (the \<circ> resolved s2) ts))"
    using ts(1) by (simp add: rev_filter rev_map)
  also have "\<dots> = rev (scoped_inits s d)"
    using g scoped_inits_cong [of ?s0 s] by (simp add: scope_grows_def new_scope_def)
  finally have f: "filter (as_service w) (List.map_filter (resolved s2) (rev (sorder s2))) = rev (scoped_inits s d)" .
  have "evs s2 = evs s @ d" "registrations s2 = registrations s"
    using g by (simp_all add: scope_grows_def new_scope_def)
  with scope_close_loop_spec [of w "rev (sorder s2)" s2 es s'] c f show ?thesis
    by (intro exI [of _ d]) (simp add: scope_close_def)
qed

section \<open>Concrete requests\<close>

definition demo_request :: request where
  "demo_request = \<lparr>rq_logger = None, rq_deps = [''*Api''], rq_body = [''*Db''], rq_error_deps = [''*Log''],
     rq_result = Panics (Opaque ''boom'' False)\<rparr>"

definition demo_conv :: "gerr \<Rightarrow> goerr" where "demo_conv e = Opaque ''di'' False"

lemma demo_request_evs:
  "evs (snd (snd (serve_request demo_world demo_conv demo_request demo_scoped))) =
     [EvCtor ''*Db'', EvInit ''*Db'' (Obj ''*Db'' 1) True, EvCtor ''*Api'', EvInit ''*Api'' (Obj ''*Api'' 2) True,
      EvClose (Obj ''*Api'' 2), EvClose (Obj ''*Db'' 1)]"
  by code_simp

theorem request_scope_closed_witness:
  "\<exists>d. [EvCtor ''*Db'', EvInit ''*Db'' (Obj ''*Db'' 1) True, EvCtor ''*Api'', EvInit ''*Api'' (Obj ''*Api'' 2) True,
      EvClose (Obj ''*Api'' 2), EvClose (Obj ''*Db'' 1)] = d @ map EvClose (rev (scoped_inits demo_scoped d))"
proof -
  let ?r = "serve_request demo_world demo_conv demo_request demo_scoped"
  have r: "?r = (fst ?r, fst (snd ?r), snd (snd ?r))" by simp
  have l: "\<forall>t derive v. rq_logger demo_request = Some (t, derive) \<longrightarrow> \<not> as_service demo_world (derive v)"
    by (simp add: demo_request_def)
  have "evs demo_scoped = []" by (simp add: demo_scoped_def demo_di_def new_container_def)
  with request_scope_closed [OF r l] demo_request_evs show ?thesis by auto
qed

text \<open>replaceScoped looks at the instance it replaces and not at the new one: a per-request logger that
is a Service is closed with the scope although its Init never ran.\<close>

definition logger_demo :: request where
  "logger_demo = \<lparr>rq_logger = Some (''*Log'', \<lambda>v. Obj ''*Api'' 9), rq_deps = [], rq_body = [], rq_error_deps = [],
     rq_result = Ran None\<rparr>"

definition logger_demo_di :: di where
  "logger_demo_di = new_container\<lparr>registrations :=
     om_set ''*Log'' \<lparr>reg_ctor = demo_ctor ''*Log'' 3 [], reg_lifetime = Scoped\<rparr> om_empty\<rparr>"

theorem derived_logger_closed:
  "evs (snd (snd (serve_request (demo_world\<lparr>w_assignable := \<lambda>_ _. True\<rparr>) demo_conv logger_demo logger_demo_di))) =
     [EvCtor ''*Log'', EvClose (Obj ''*Api'' 9)]"
  by code_simp

end
