(* ===== verification/Conn_Retry.thy ===== *)
theory Conn_Retry
  imports Gas_Prelude "HOL-Library.Word"
begin

text \<open>
  The loop \<open>connectWithRetry\<close>, which database/service.go and cache/valkey/service.go share line by
  line: a first attempt, then up to ConnRetries more behind waits that double. Connecting and waiting
  act on a state of any type; a wait ends with the error of the context or with the timer. The trace of
  attempts and waits is part of the result. Durations are 64 bits wide, as time.Duration is.
\<close>

section \<open>The loop\<close>

record retry_cfg =
  rt_retries :: int
  rt_interval :: "64 word"

datatype 'e conn_error =
    ConnErr 'e
  | ConnCanceled int 'e 'e
  | ConnFailed int 'e

datatype 'e conn_event = Dialed "'e option" | Waited "64 word"

definition default_retry_interval :: "64 word" where
  "default_retry_interval = 2000000000"

definition first_interval :: "retry_cfg \<Rightarrow> 64 word" where
  "first_interval cfg = (if sint (rt_interval cfg) \<le> 0 then default_retry_interval else rt_interval cfg)"

text \<open>
  One run of the loop from a given attempt on: a wait, a doubling that wraps around, a further attempt.
\<close>

function retry_loop ::
  "('s \<Rightarrow> 'e option \<times> 's) \<Rightarrow> (64 word \<Rightarrow> 's \<Rightarrow> 'e option \<times> 's) \<Rightarrow> int \<Rightarrow> int \<Rightarrow> 64 word \<Rightarrow> 'e \<Rightarrow> 's
    \<Rightarrow> 'e conn_error option \<times> 's \<times> 'e conn_event list" where
  "retry_loop dial wait retries attempt interval err s =
     (if attempt \<le> retries then
        (case wait interval s of
           (Some c, s1) \<Rightarrow> (Some (ConnCanceled attempt c err), s1, [Waited interval])
         | (None, s1) \<Rightarrow>
             (case dial s1 of
                (None, s2) \<Rightarrow> (None, s2, [Waited interval, Dialed None])
              | (Some e, s2) \<Rightarrow>
                  (case retry_loop dial wait retries (attempt + 1) (2 * interval) e s2 of
                     (r, s3, evs) \<Rightarrow> (r, s3, Waited interval # Dialed (Some e) # evs))))
      else (Some (ConnFailed retries err), s, []))"
  by pat_completeness auto
termination
  by (relation "measure (\<lambda>(dial, wait, retries, attempt, interval, err, s). nat (retries + 1 - attempt))") auto

declare retry_loop.simps [simp del]

definition connect_with_retry ::
  "retry_cfg \<Rightarrow> ('s \<Rightarrow> 'e option \<times> 's) \<Rightarrow> (64 word \<Rightarrow> 's \<Rightarrow> 'e option \<times> 's) \<Rightarrow> 's
    \<Rightarrow> 'e conn_error option \<times> 's \<times> 'e conn_event list" where
  "connect_with_retry cfg dial wait s =
     (case dial s of
        (None, s1) \<Rightarrow> (None, s1, [Dialed None])
      | (Some e, s1) \<Rightarrow>
          (if rt_retries cfg \<le> 0 then (Some (ConnErr e), s1, [Dialed (Some e)])
           else
             (case retry_loop dial wait (rt_retries cfg) 1 (first_interval cfg) e s1 of
                (r, s2, evs) \<Rightarrow> (r, s2, Dialed (Some e) # evs))))"

section \<open>Attempts and waits\<close>

fun waits_of :: "'e conn_event list \<Rightarrow> 64 word list" where
  "waits_of [] = []"
| "waits_of (Waited d # evs) = d # waits_of evs"
| "waits_of (Dialed r # evs) = waits_of evs"

fun dials_of :: "'e conn_event list \<Rightarrow> 'e option list" where
  "dials_of [] = []"
| "dials_of (Waited d # evs) = dials_of evs"
| "dials_of (Dialed r # evs) = r # dials_of evs"

text \<open>
  How a result follows from the attempts: success exactly when the last one succeeded, an error that
  counts the attempts otherwise.
\<close>

fun outcome_fits :: "int \<Rightarrow> 'e conn_error option \<Rightarrow> 'e option list \<Rightarrow> 64 word list \<Rightarrow> bool" where
  "outcome_fits retries None ds ws \<longleftrightarrow> last ds = None \<and> length ds = Suc (length ws)"
| "outcome_fits retries (Some (ConnErr e)) ds ws \<longleftrightarrow> ds = [Some e] \<and> ws = [] \<and> retries \<le> 0"
| "outcome_fits retries (Some (ConnCanceled k c e)) ds ws \<longleftrightarrow>
     last ds = Some e \<and> k = int (length ds) \<and> length ws = length ds"
| "outcome_fits retries (Some (ConnFailed n e)) ds ws \<longleftrightarrow>
     last ds = Some e \<and> n = retries \<and> int (length ws) = retries \<and> length ds = Suc (length ws)"

lemma retry_loop_trace:
  assumes "retry_loop dial wait retries attempt interval err s = (r, s', evs)" and "attempt \<le> retries + 1"
  shows "waits_of evs = map (\<lambda>k. interval * 2 ^ k) [0..<length (waits_of evs)] \<and>
    int (length (waits_of evs)) \<le> retries + 1 - attempt \<and>
    None \<notin> set (butlast (Some err # dials_of evs)) \<and>
    (case r of
       None \<Rightarrow> last (Some err # dials_of evs) = None \<and> length (dials_of evs) = length (waits_of evs)
     | Some (ConnErr e) \<Rightarrow> False
     | Some (ConnCanceled k c e) \<Rightarrow> last (Some err # dials_of evs) = Some e \<and>
         k = attempt + int (length (dials_of evs)) \<and> length (waits_of evs) = Suc (length (dials_of evs))
     | Some (ConnFailed n e) \<Rightarrow> last (Some err # dials_of evs) = Some e \<and> n = retries \<and>
         int (length (waits_of evs)) = retries + 1 - attempt \<and> length (dials_of evs) = length (waits_of evs))"
  using assms
proof (induction dial wait retries attempt interval err s arbitrary: r s' evs rule: retry_loop.induct)
  case (1 dial wait retries attempt interval err s)
  note run = "1.prems"(1)
  show ?case
  proof (cases "attempt \<le> retries")
    case False
    then show ?thesis
      using run "1.prems"(2) by (simp add: retry_loop.simps [of dial wait retries attempt]) auto
  next
    case True
    obtain w s1 where w: "wait interval s = (w, s1)"
      by fastforce
    show ?thesis
    proof (cases w)
      case (Some c)
      then show ?thesis
        using run True w by (simp add: retry_loop.simps [of dial wait retries attempt]) auto
    next
      case None
      obtain d s2 where d: "dial s1 = (d, s2)"
        by fastforce
      show ?thesis
      proof (cases d)
        case None
        with \<open>w = None\<close> show ?thesis
          using run True w d by (simp add: retry_loop.simps [of dial wait retries attempt]) auto
      next
        case (Some e)
        obtain evs' where rec: "retry_loop dial wait retries (attempt + 1) (2 * interval) e s2 = (r, s', evs')"
          and evs: "evs = Waited interval # Dialed (Some e) # evs'"
          using run True w d Some \<open>w = None\<close>
          by (cases "retry_loop dial wait retries (attempt + 1) (2 * interval) e s2")
            (simp add: retry_loop.simps [of dial wait retries attempt])
        have shift: "interval # map (\<lambda>k. 2 * interval * 2 ^ k) [0..<n] =
            map (\<lambda>k. interval * 2 ^ k) [0..<Suc n]" for n
          by (simp add: upt_conv_Cons map_Suc_upt [symmetric] ac_simps del: upt_Suc)
        have IH: "waits_of evs' = map (\<lambda>k. 2 * interval * 2 ^ k) [0..<length (waits_of evs')] \<and>
            int (length (waits_of evs')) \<le> retries + 1 - (attempt + 1) \<and>
            None \<notin> set (butlast (Some e # dials_of evs')) \<and>
            (case r of
               None \<Rightarrow> last (Some e # dials_of evs') = None \<and> length (dials_of evs') = length (waits_of evs')
             | Some (ConnErr e) \<Rightarrow> False
             | Some (ConnCanceled k c e') \<Rightarrow> last (Some e # dials_of evs') = Some e' \<and>
                 k = attempt + 1 + int (length (dials_of evs')) \<and>
                 length (waits_of evs') = Suc (length (dials_of evs'))
             | Some (ConnFailed n e') \<Rightarrow> last (Some e # dials_of evs') = Some e' \<and> n = retries \<and>
                 int (length (waits_of evs')) = retries + 1 - (attempt + 1) \<and>
                 length (dials_of evs') = length (waits_of evs'))"
          using "1.IH"[OF True w [symmetric] \<open>w = None\<close> d [symmetric] Some rec] True by auto
        have "waits_of evs = map (\<lambda>k. interval * 2 ^ k) [0..<length (waits_of evs)]"
          using IH evs shift [of "length (waits_of evs')"] by simp
        then show ?thesis
          using IH evs by (auto split: option.splits conn_error.splits)
      qed
    qed
  qed
qed

text \<open>C17:
  connectWithRetry makes at most ConnRetries further attempts, the wait before the k-th of them is the
  first interval times \<open>2 ^ k\<close> at 64 bits, it goes on after failed attempts only, and its result is the
  last attempt's success, or an error that carries the last attempt's error and the number of attempts.
\<close>

theorem connect_attempts:
  assumes "connect_with_retry cfg dial wait s = (r, s', evs)"
  shows "waits_of evs = map (\<lambda>k. first_interval cfg * 2 ^ k) [0..<length (waits_of evs)] \<and>
    length (waits_of evs) \<le> nat (rt_retries cfg) \<and>
    None \<notin> set (butlast (dials_of evs)) \<and>
    outcome_fits (rt_retries cfg) r (dials_of evs) (waits_of evs)"
proof -
  obtain d s1 where d: "dial s = (d, s1)"
    by fastforce
  show ?thesis
  proof (cases d)
    case None
    then show ?thesis
      using assms d by (auto simp: connect_with_retry_def)
  next
    case (Some e)
    show ?thesis
    proof (cases "rt_retries cfg \<le> 0")
      case True
      then show ?thesis
        using assms d Some by (auto simp: connect_with_retry_def)
    next
      case False
      then obtain evs' where
        loop: "retry_loop dial wait (rt_retries cfg) 1 (first_interval cfg) e s1 = (r, s', evs')"
        and evs: "evs = Dialed (Some e) # evs'"
        using assms d Some by (auto simp: connect_with_retry_def split: prod.splits)
      from retry_loop_trace [OF loop] False evs show ?thesis
        by (auto split: option.splits conn_error.splits)
    qed
  qed
qed

theorem connect_attempts_witness:
  "outcome_fits 1 (Some (ConnFailed 1 ''down'')) [Some ''down'', Some ''down''] [2000000000]"
proof -
  have "connect_with_retry \<lparr>rt_retries = 1, rt_interval = 0\<rparr> (\<lambda>s. (Some ''down'', s)) (\<lambda>d s. (None, s)) () =
      (Some (ConnFailed 1 ''down''), (), [Dialed (Some ''down''), Waited 2000000000, Dialed (Some ''down'')])"
    by (simp add: connect_with_retry_def retry_loop.simps first_interval_def default_retry_interval_def)
  from connect_attempts [OF this] show ?thesis
    by simp
qed

text \<open>
  The wait before the k-th retry is the first one times \<open>2 ^ k\<close> as long as that fits 63 bits. With the
  default interval the 34th wait is negative, and time.After fires at once.
\<close>

lemma backoff_exact:
  assumes "sint (first_interval cfg) * 2 ^ k < 2 ^ 63"
  shows "sint (first_interval cfg * 2 ^ k) = sint (first_interval cfg) * 2 ^ k"
proof -
  have pos: "sint (first_interval cfg) > 0"
    by (auto simp: first_interval_def default_retry_interval_def)
  have "first_interval cfg * 2 ^ k = word_of_int (sint (first_interval cfg) * 2 ^ k)"
    by (simp add: word_of_int_power_hom [symmetric] flip: wi_hom_mult)
  then have "sint (first_interval cfg * 2 ^ k) = signed_take_bit 63 (sint (first_interval cfg) * 2 ^ k)"
    by (simp only:) (simp only: sint_sbintrunc', simp)
  also have "\<dots> = sint (first_interval cfg) * 2 ^ k"
    using assms pos by (intro signed_take_bit_int_eq_self) (auto intro: order_trans [of _ 0])
  finally show ?thesis .
qed

lemma backoff_wraps: "sint (default_retry_interval * 2 ^ 33) < 0"
  by (simp add: default_retry_interval_def)

section \<open>What an attempt keeps, the loop keeps\<close>

locale connector =
  fixes dial :: "'s \<Rightarrow> 'e option \<times> 's"
    and wait :: "64 word \<Rightarrow> 's \<Rightarrow> 'e option \<times> 's"
    and inv up :: "'s \<Rightarrow> bool"
  assumes dial_fails: "inv s \<Longrightarrow> dial s = (Some e, s') \<Longrightarrow> inv s'"
    and dial_up: "inv s \<Longrightarrow> dial s = (None, s') \<Longrightarrow> up s'"
    and wait_keeps: "inv s \<Longrightarrow> wait d s = (r, s') \<Longrightarrow> inv s'"
begin

lemma loop_keeps:
  "retry_loop dial wait retries attempt interval err s = (r, s', evs) \<Longrightarrow> inv s \<Longrightarrow>
     (if r = None then up s' else inv s')"
proof (induction "nat (retries + 1 - attempt)" arbitrary: attempt interval err s r s' evs rule: less_induct)
  case less
  note run = less.prems(1) [unfolded retry_loop.simps [of dial wait retries attempt]]
  show ?case
  proof (cases "attempt \<le> retries \<and> fst (wait interval s) = None")
    case False
    then show ?thesis
      using run less.prems(2) by (auto split: prod.splits option.splits if_splits dest: wait_keeps)
  next
    case True
    then obtain s1 where w: "wait interval s = (None, s1)"
      by (cases "wait interval s") auto
    obtain d s2 where d: "dial s1 = (d, s2)"
      by fastforce
    note kept = wait_keeps [OF less.prems(2) w]
    show ?thesis
    proof (cases d)
      case None
      then show ?thesis
        using run True w d kept by (auto dest: dial_up)
    next
      case (Some e)
      obtain evs' where "retry_loop dial wait retries (attempt + 1) (2 * interval) e s2 = (r, s', evs')"
        using run True w d Some by (auto split: prod.splits)
      then show ?thesis
        using less.hyps [of "attempt + 1"] True dial_fails [OF kept] d Some by auto
    qed
  qed
qed

lemma retry_keeps:
  assumes "connect_with_retry cfg dial wait s = (r, s', evs)" and "inv s"
  shows "if r = None then up s' else inv s'"
proof -
  obtain d s1 where d: "dial s = (d, s1)"
    by fastforce
  show ?thesis
  proof (cases d)
    case None
    then show ?thesis
      using assms d by (auto simp: connect_with_retry_def intro: dial_up)
  next
    case (Some e)
    have kept: "inv s1"
      using assms(2) d Some by (auto intro: dial_fails)
    show ?thesis
    proof (cases "rt_retries cfg \<le> 0")
      case True
      then show ?thesis
        using assms d Some kept by (auto simp: connect_with_retry_def)
    next
      case False
      then obtain evs' where "retry_loop dial wait (rt_retries cfg) 1 (first_interval cfg) e s1 = (r, s', evs')"
        using assms d Some by (auto simp: connect_with_retry_def split: prod.splits)
      then show ?thesis
        using loop_keeps kept by blast
    qed
  qed
qed

end

end
