(* ===== verification/Db_Service.thy ===== *)
theory Db_Service
  imports Conn_Retry
begin

text \<open>
  The database module (database/config.go, service.go, tx.go): the rules a configuration must satisfy,
  opening and closing the handles of the two modes, and the transaction helpers. Drivers and the pool of
  pgx are the record \<open>db_env\<close> of outcomes over a state of their own; the model keeps which handles are
  open. sql.Tx is modelled as far as the code uses it: a transaction that is over answers ErrTxDone.
\<close>

section \<open>Configuration\<close>

record db_config =
  dc_mode :: string
  dc_driver :: string
  dc_dsn :: string
  dc_max_open :: int
  dc_max_idle :: int
  dc_max_lifetime :: int
  dc_max_idle_time :: int
  dc_retry :: retry_cfg
  dc_has_connector :: bool

definition default_db_config :: db_config where
  "default_db_config =
     \<lparr>dc_mode = ''sql'', dc_driver = ''postgres'', dc_dsn = '''', dc_max_open = 25, dc_max_idle = 5,
      dc_max_lifetime = 30 * 60 * 1000000000, dc_max_idle_time = 5 * 60 * 1000000000,
      dc_retry = \<lparr>rt_retries = 0, rt_interval = default_retry_interval\<rparr>, dc_has_connector = False\<rparr>"

datatype config_error =
    ConnectorNeedsSql string
  | BadDriver string
  | EmptyDsn
  | IdleOutOfRange int
  | IdleExceedsOpen int int

definition valid_driver :: "string \<Rightarrow> bool" where
  "valid_driver d \<longleftrightarrow> d = ''postgres'' \<or> d = ''pgx'' \<or> d = ''sqlite''"

definition validate_source :: "db_config \<Rightarrow> config_error option" where
  "validate_source c =
     (if dc_mode c \<noteq> ''sql'' \<and> dc_has_connector c then Some (ConnectorNeedsSql (dc_mode c))
      else if dc_mode c = ''sql'' \<and> \<not> dc_has_connector c \<and> \<not> valid_driver (dc_driver c)
        then Some (BadDriver (dc_driver c))
      else if dc_dsn c = '''' \<and> \<not> dc_has_connector c then Some EmptyDsn
      else None)"

definition validate_idle_conns :: "db_config \<Rightarrow> config_error option" where
  "validate_idle_conns c =
     (if dc_mode c \<noteq> ''sql'' then None
      else if dc_max_idle c < 1 \<or> dc_max_idle c > 1000 then Some (IdleOutOfRange (dc_max_idle c))
      else if dc_max_idle c > dc_max_open c then Some (IdleExceedsOpen (dc_max_idle c) (dc_max_open c))
      else None)"

definition check_rules :: "db_config \<Rightarrow> config_error option" where
  "check_rules c = (case validate_source c of Some e \<Rightarrow> Some e | None \<Rightarrow> validate_idle_conns c)"

section \<open>Errors, handles and the service\<close>

datatype 'e db_error =
    Driver 'e
  | TxDone
  | TxClosed
  | ServiceClosed
  | NotInitialized
  | NotPgx string
  | UnknownMode string
  | InvalidConfig config_error
  | Binding 'e
  | Labelled string "'e db_error"
  | Joined "'e db_error" "'e db_error"
  | Retried "'e db_error conn_error"

text \<open>A handle on a database: *sql.DB, a pgx pool, or the *sql.DB derived from a pool.\<close>

datatype db_handle = SqlDB nat | PgxPool nat | PoolDB nat

record pool_limits =
  pl_max_open :: int
  pl_max_idle :: int
  pl_lifetime :: int
  pl_idle_time :: int

record ('e, 'w) db_env =
  de_open :: "string \<Rightarrow> string \<Rightarrow> 'w \<Rightarrow> 'e option \<times> 'w"
  de_parse :: "string \<Rightarrow> 'e + pool_limits"
  de_pool :: "pool_limits \<Rightarrow> 'w \<Rightarrow> 'e option \<times> 'w"
  de_ping :: "db_handle \<Rightarrow> 'w \<Rightarrow> 'e option \<times> 'w"
  de_close :: "db_handle \<Rightarrow> 'w \<Rightarrow> 'e option \<times> 'w"
  de_wait :: "64 word \<Rightarrow> 'w \<Rightarrow> 'e option \<times> 'w"

record 'w db_service =
  ds_cfg :: db_config
  ds_custom :: bool
  ds_connector :: bool
  ds_db :: "db_handle option"
  ds_pool :: "db_handle option"
  ds_closed :: bool
  ds_open :: "(db_handle \<times> pool_limits) list"
  ds_next :: nat
  ds_world :: 'w

text \<open>New with its options; \<open>ds_open\<close> and \<open>ds_next\<close> are the model's account of what is open.\<close>

definition new_db_service :: "db_config option \<Rightarrow> bool \<Rightarrow> 'w \<Rightarrow> 'w db_service" where
  "new_db_service custom with_connector w =
     \<lparr>ds_cfg = (case custom of None \<Rightarrow> default_db_config | Some c \<Rightarrow> c), ds_custom = custom \<noteq> None,
      ds_connector = with_connector, ds_db = None, ds_pool = None, ds_closed = False, ds_open = [],
      ds_next = 0, ds_world = w\<rparr>"

definition add_handle :: "db_handle \<Rightarrow> pool_limits \<Rightarrow> 'w db_service \<Rightarrow> 'w db_service" where
  "add_handle h l s = s\<lparr>ds_open := (h, l) # ds_open s\<rparr>"

definition drop_handle :: "db_handle \<Rightarrow> 'w db_service \<Rightarrow> 'w db_service" where
  "drop_handle h s = s\<lparr>ds_open := filter (\<lambda>x. fst x \<noteq> h) (ds_open s)\<rparr>"

definition ask :: "('w \<Rightarrow> 'r \<times> 'w) \<Rightarrow> 'w db_service \<Rightarrow> 'r \<times> 'w db_service" where
  "ask f s = (case f (ds_world s) of (r, w) \<Rightarrow> (r, s\<lparr>ds_world := w\<rparr>))"

section \<open>Opening\<close>

text \<open>
  A handle of database/sql is closed by its Close whatever error Close returns; the error of the close
  after a failed ping is only logged.
\<close>

definition sql_limits :: "db_config \<Rightarrow> pool_limits" where
  "sql_limits c =
     \<lparr>pl_max_open = dc_max_open c, pl_max_idle = dc_max_idle c, pl_lifetime = dc_max_lifetime c,
      pl_idle_time = dc_max_idle_time c\<rparr>"

definition init_sql :: "('e, 'w) db_env \<Rightarrow> 'w db_service \<Rightarrow> 'e db_error option \<times> 'w db_service" where
  "init_sql env s =
     (case (if ds_connector s then (None, s)
            else ask (de_open env (dc_driver (ds_cfg s)) (dc_dsn (ds_cfg s))) s) of
        (Some e, s1) \<Rightarrow> (Some (Labelled ''open'' (Driver e)), s1)
      | (None, s1) \<Rightarrow>
          (let h = SqlDB (ds_next s1);
               s2 = add_handle h (sql_limits (ds_cfg s1)) (s1\<lparr>ds_next := Suc (ds_next s1)\<rparr>) in
           case ask (de_ping env h) s2 of
             (Some e, s3) \<Rightarrow>
               (case ask (de_close env h) (drop_handle h s3) of
                  (_, s4) \<Rightarrow> (Some (Labelled ''ping'' (Driver e)), s4))
           | (None, s3) \<Rightarrow> (None, s3\<lparr>ds_db := Some h\<rparr>)))"

definition pgx_limits :: "db_config \<Rightarrow> pool_limits \<Rightarrow> pool_limits" where
  "pgx_limits c l =
     \<lparr>pl_max_open = (if dc_max_open c > 0 then dc_max_open c else pl_max_open l),
      pl_max_idle = pl_max_idle l,
      pl_lifetime = (if dc_max_lifetime c > 0 then dc_max_lifetime c else pl_lifetime l),
      pl_idle_time = (if dc_max_idle_time c > 0 then dc_max_idle_time c else pl_idle_time l)\<rparr>"

definition init_pgx :: "('e, 'w) db_env \<Rightarrow> 'w db_service \<Rightarrow> 'e db_error option \<times> 'w db_service" where
  "init_pgx env s =
     (case de_parse env (dc_dsn (ds_cfg s)) of
        Inl e \<Rightarrow> (Some (Labelled ''parse pgx config'' (Driver e)), s)
      | Inr l \<Rightarrow>
          (let limits = pgx_limits (ds_cfg s) l in
           case ask (de_pool env limits) s of
             (Some e, s1) \<Rightarrow> (Some (Labelled ''pgxpool'' (Driver e)), s1)
           | (None, s1) \<Rightarrow>
               (let h = PgxPool (ds_next s1);
                    s2 = add_handle h limits (s1\<lparr>ds_next := Suc (ds_next s1)\<rparr>) in
                case ask (de_ping env h) s2 of
                  (Some e, s3) \<Rightarrow> (Some (Labelled ''ping'' (Driver e)), drop_handle h s3)
                | (None, s3) \<Rightarrow>
                    (let d = PoolDB (ds_next s1) in
                     (None, add_handle d limits (s3\<lparr>ds_pool := Some h, ds_db := Some d\<rparr>))))))"

section \<open>Init and Close\<close>

text \<open>The select of the retry loop: the error of the context, or the timer.\<close>

definition db_wait :: "('e, 'w) db_env \<Rightarrow> 64 word \<Rightarrow> 'w db_service \<Rightarrow> 'e db_error option \<times> 'w db_service" where
  "db_wait env d s = (case ask (de_wait env d) s of (r, s1) \<Rightarrow> (map_option Driver r, s1))"

text \<open>
  Init. Bind of the configuration is a parameter, absent when there is no provider.
\<close>

definition db_init ::
  "('e, 'w) db_env \<Rightarrow> (db_config \<Rightarrow> 'e option \<times> db_config) option \<Rightarrow> 'w db_service
    \<Rightarrow> 'e db_error option \<times> 'w db_service" where
  "db_init env bind s =
     (let s1 = s\<lparr>ds_cfg := (ds_cfg s)\<lparr>dc_has_connector := ds_connector s\<rparr>\<rparr> in
      case (if \<not> ds_custom s1 \<and> bind \<noteq> None then the bind (ds_cfg s1) else (None, ds_cfg s1)) of
        (Some e, c) \<Rightarrow> (Some (Labelled ''config binding'' (Binding e)), s1\<lparr>ds_cfg := c\<rparr>)
      | (None, c) \<Rightarrow>
          (let s2 = s1\<lparr>ds_cfg := c\<rparr> in
           case check_rules c of
             Some e \<Rightarrow> (Some (Labelled ''invalid configuration'' (InvalidConfig e)), s2)
           | None \<Rightarrow>
               (if dc_mode c \<noteq> ''pgx'' \<and> dc_mode c \<noteq> ''sql'' \<and> dc_mode c \<noteq> '''' then
                  (Some (UnknownMode (dc_mode c)), s2)
                else
                  (case connect_with_retry (dc_retry c)
                          (if dc_mode c = ''pgx'' then init_pgx env else init_sql env)
                          (db_wait env) s2 of
                     (None, s3, _) \<Rightarrow> (None, s3\<lparr>ds_closed := False\<rparr>)
                   | (Some (ConnErr e), s3, _) \<Rightarrow> (Some e, s3)
                   | (Some e, s3, _) \<Rightarrow> (Some (Retried e), s3)))))"

definition db_close :: "('e, 'w) db_env \<Rightarrow> 'w db_service \<Rightarrow> 'e db_error option \<times> 'w db_service" where
  "db_close env s =
     (let s1 = s\<lparr>ds_closed := True\<rparr> in
      case (case ds_db s1 of None \<Rightarrow> (None, s1) | Some h \<Rightarrow> ask (de_close env h) (drop_handle h s1)) of
        (Some e, s2) \<Rightarrow> (Some (Labelled ''close'' (Driver e)), s2)
      | (None, s2) \<Rightarrow> (None, case ds_pool s2 of None \<Rightarrow> s2 | Some p \<Rightarrow> drop_handle p s2))"

section \<open>Health\<close>

datatype health_error = HealthClosed | HealthNotInitialized

definition db_check_health :: "'w db_service \<Rightarrow> health_error option" where
  "db_check_health s =
     (if ds_closed s then Some HealthClosed
      else if ds_db s = None \<and> ds_pool s = None then Some HealthNotInitialized
      else None)"

definition db_ping :: "('e, 'w) db_env \<Rightarrow> 'w db_service \<Rightarrow> 'e db_error option \<times> 'w db_service" where
  "db_ping env s =
     (case ds_pool s of
        Some p \<Rightarrow>
          (case ask (de_ping env p) s of
             (r, s1) \<Rightarrow> (map_option (\<lambda>e. Labelled ''ping'' (Driver e)) r, s1))
      | None \<Rightarrow>
          (case ds_db s of
             None \<Rightarrow> (Some NotInitialized, s)
           | Some h \<Rightarrow>
               (case ask (de_ping env h) s of
                  (r, s1) \<Rightarrow> (map_option (\<lambda>e. Labelled ''ping'' (Driver e)) r, s1))))"

definition db_check_ready :: "('e, 'w) db_env \<Rightarrow> 'w db_service \<Rightarrow> 'e db_error option \<times> 'w db_service" where
  "db_check_ready env s = (if ds_closed s then (Some ServiceClosed, s) else db_ping env s)"

definition db_driver :: "'w db_service \<Rightarrow> string" where
  "db_driver s = (if dc_mode (ds_cfg s) = ''pgx'' then ''pgx'' else dc_driver (ds_cfg s))"

section \<open>Transactions\<close>

text \<open>
  How user code inside a transaction ends: with its error, with a panic, or by leaving the goroutine
  (runtime.Goexit), where deferred functions still run and recover returns nil.
\<close>

datatype ('e, 'p) tx_outcome = Returned "'e db_error option" | Panicked 'p | Goexited

text \<open>errors.Is for the two values that say a transaction is over.\<close>

fun is_tx_over :: "'e db_error \<Rightarrow> bool" where
  "is_tx_over TxDone = True"
| "is_tx_over TxClosed = True"
| "is_tx_over (Labelled _ e) = is_tx_over e"
| "is_tx_over (Joined a b) = (is_tx_over a \<or> is_tx_over b)"
| "is_tx_over _ = False"

definition rollback_err :: "'e db_error option \<Rightarrow> 'e db_error option" where
  "rollback_err r =
     (case r of
        None \<Rightarrow> None
      | Some e \<Rightarrow> if is_tx_over e then None else Some (Labelled ''failed to roll back transaction'' e))"

definition commit_err :: "'e db_error option \<Rightarrow> 'e db_error option" where
  "commit_err r = map_option (Labelled ''failed to commit transaction'') r"

text \<open>
  The deferred function of WithTx and WithPgxTx, given what the user code did. The result is what the
  caller sees, the error that is logged, and the transaction.
\<close>

definition finish_tx ::
  "('t \<Rightarrow> 'e db_error option \<times> 't) \<Rightarrow> ('t \<Rightarrow> 'e db_error option \<times> 't) \<Rightarrow> ('e, 'p) tx_outcome \<times> 't
    \<Rightarrow> ('e, 'p) tx_outcome \<times> 'e db_error option \<times> 't" where
  "finish_tx commit rollback done_with =
     (case done_with of
        (Panicked p, t) \<Rightarrow> (case rollback t of (r, t') \<Rightarrow> (Panicked p, rollback_err r, t'))
      | (Returned (Some e), t) \<Rightarrow>
          (case rollback t of
             (r, t') \<Rightarrow>
               (Returned (Some (case rollback_err r of None \<Rightarrow> e | Some rb \<Rightarrow> Joined e rb)), None, t'))
      | (Returned None, t) \<Rightarrow> (case commit t of (r, t') \<Rightarrow> (Returned (commit_err r), None, t'))
      | (Goexited, t) \<Rightarrow> (case commit t of (r, t') \<Rightarrow> (Goexited, None, t')))"

text \<open>The sql.Tx: over or not, and what has been done to it.\<close>

datatype 'e tx_event = Committed | CommitFailed 'e | RolledBack | RollbackFailed 'e

record 'e sql_tx =
  tx_over :: bool
  tx_events :: "'e tx_event list"

text \<open>
  Commit and Rollback of database/sql, with the error of the context, if it has one by then, and the
  driver's answer. With the context done Commit returns its error, and the transaction is rolled back
  in the background, here at once.
\<close>

definition sql_commit :: "'e option \<Rightarrow> 'e option \<Rightarrow> 'e sql_tx \<Rightarrow> 'e db_error option \<times> 'e sql_tx" where
  "sql_commit ctx_err answer t =
     (if tx_over t then (Some TxDone, t)
      else case ctx_err of
        Some c \<Rightarrow> (Some (Driver c), t\<lparr>tx_over := True, tx_events := RolledBack # tx_events t\<rparr>)
      | None \<Rightarrow>
          (map_option Driver answer,
           t\<lparr>tx_over := True,
             tx_events := (case answer of None \<Rightarrow> Committed | Some e \<Rightarrow> CommitFailed e) # tx_events t\<rparr>))"

definition sql_rollback :: "'e option \<Rightarrow> 'e sql_tx \<Rightarrow> 'e db_error option \<times> 'e sql_tx" where
  "sql_rollback answer t =
     (if tx_over t then (Some TxDone, t)
      else
        (map_option Driver answer,
         t\<lparr>tx_over := True,
           tx_events := (case answer of None \<Rightarrow> RolledBack | Some e \<Rightarrow> RollbackFailed e) # tx_events t\<rparr>))"

definition begin_tx ::
  "('w \<Rightarrow> 'e option \<times> 'w) \<Rightarrow> 'w db_service \<Rightarrow> ('e db_error + 'e sql_tx) \<times> 'w db_service" where
  "begin_tx start s =
     (if ds_closed s then (Inl ServiceClosed, s)
      else if ds_db s = None then (Inl NotInitialized, s)
      else
        (case ask start s of
           (Some e, s1) \<Rightarrow> (Inl (Labelled ''failed to begin transaction'' (Driver e)), s1)
         | (None, s1) \<Rightarrow> (Inr \<lparr>tx_over = False, tx_events = []\<rparr>, s1)))"

text \<open>
  WithTx repeats the checks of BeginTx. The transaction is none when fn was not called.
\<close>

definition with_tx ::
  "('w \<Rightarrow> 'e option \<times> 'w) \<Rightarrow> 'e option \<Rightarrow> 'e option \<Rightarrow> 'e option
    \<Rightarrow> ('e sql_tx \<Rightarrow> ('e, 'p) tx_outcome \<times> 'e sql_tx) \<Rightarrow> 'w db_service
    \<Rightarrow> (('e, 'p) tx_outcome \<times> 'e db_error option \<times> 'e sql_tx option) \<times> 'w db_service" where
  "with_tx start ctx_err commit_answer rollback_answer fn s =
     (if ds_closed s then ((Returned (Some ServiceClosed), None, None), s)
      else if ds_db s = None then ((Returned (Some NotInitialized), None, None), s)
      else
        (case ask start s of
           (Some e, s1) \<Rightarrow>
             ((Returned (Some (Labelled ''failed to begin transaction'' (Driver e))), None, None), s1)
         | (None, s1) \<Rightarrow>
             (case finish_tx (sql_commit ctx_err commit_answer) (sql_rollback rollback_answer)
                     (fn \<lparr>tx_over = False, tx_events = []\<rparr>) of
                (r, logged, t) \<Rightarrow> ((r, logged, Some t), s1))))"

text \<open>
  The transactions of pgx: what a pool hands out, and commit and rollback under a context that has an
  error or none. \<open>without_cancel\<close> is context.WithoutCancel.
\<close>

record ('e, 't, 'w) pgx_ops =
  px_begin :: "'w \<Rightarrow> ('e + 't) \<times> 'w"
  px_commit :: "'e option \<Rightarrow> 't \<Rightarrow> 'e db_error option \<times> 't"
  px_rollback :: "'e option \<Rightarrow> 't \<Rightarrow> 'e db_error option \<times> 't"

definition without_cancel :: "'e option \<Rightarrow> 'e option" where
  "without_cancel ctx = None"

definition begin_pgx_tx ::
  "('e, 't, 'w) pgx_ops \<Rightarrow> 'w db_service \<Rightarrow> ('e db_error + 't) \<times> 'w db_service" where
  "begin_pgx_tx ops s =
     (if ds_closed s then (Inl ServiceClosed, s)
      else if ds_pool s = None then (Inl (NotPgx (dc_mode (ds_cfg s))), s)
      else
        (case ask (px_begin ops) s of
           (Inl e, s1) \<Rightarrow> (Inl (Labelled ''failed to begin pgx transaction'' (Driver e)), s1)
         | (Inr t, s1) \<Rightarrow> (Inr t, s1)))"

definition with_pgx_tx ::
  "('e, 't, 'w) pgx_ops \<Rightarrow> 'e option \<Rightarrow> ('t \<Rightarrow> ('e, 'p) tx_outcome \<times> 't) \<Rightarrow> 'w db_service
    \<Rightarrow> (('e, 'p) tx_outcome \<times> 'e db_error option \<times> 't option) \<times> 'w db_service" where
  "with_pgx_tx ops ctx fn s =
     (case begin_pgx_tx ops s of
        (Inl e, s1) \<Rightarrow> ((Returned (Some e), None, None), s1)
      | (Inr t, s1) \<Rightarrow>
          (case finish_tx (px_commit ops ctx) (px_rollback ops (without_cancel ctx)) (fn t) of
             (r, logged, t') \<Rightarrow> ((r, logged, Some t'), s1)))"

end
