(* ===== verification/Db_Properties.thy ===== *)
theory Db_Properties
  imports Db_Service
begin

text \<open>
  What the database module guarantees: the handles open at any time are those of a service that is up,
  a transaction is over when its helper returns and committed only when the user code succeeded, and a
  configuration that passes the rules has what its mode needs.
\<close>

section \<open>Transactions\<close>

text \<open>
  What the deferred function relies on: a commit or a rollback ends the transaction, a rollback does
  not commit, and a transaction that is over says so.
\<close>

locale tx_interface =
  fixes commit rollback :: "'t \<Rightarrow> 'e db_error option \<times> 't"
    and over committed :: "'t \<Rightarrow> bool"
  assumes commit_over: "commit t = (r, t') \<Longrightarrow> over t'"
    and commit_ok: "commit t = (None, t') \<Longrightarrow> committed t'"
    and rollback_over: "rollback t = (r, t') \<Longrightarrow> over t'"
    and rollback_keeps: "rollback t = (r, t') \<Longrightarrow> committed t' = committed t"
    and rollback_of_over: "over t \<Longrightarrow> rollback t = (r, t') \<Longrightarrow> \<exists>e. r = Some e \<and> is_tx_over e"
begin

lemma finish_over: "finish_tx commit rollback (out, t) = (res, logged, t') \<Longrightarrow> over t'"
  by (auto simp: finish_tx_def split: tx_outcome.splits option.splits prod.splits
      intro: commit_over rollback_over)

lemma finish_success:
  "finish_tx commit rollback (out, t) = (Returned None, logged, t') \<Longrightarrow> out = Returned None \<and> committed t'"
  by (auto simp: finish_tx_def commit_err_def split: tx_outcome.splits option.splits prod.splits
      intro: commit_ok)

lemma finish_failed:
  assumes "finish_tx commit rollback (out, t) = (res, logged, t')" and "out \<noteq> Returned None" "out \<noteq> Goexited"
  shows "committed t' = committed t"
  using assms by (auto simp: finish_tx_def split: tx_outcome.splits option.splits prod.splits
      dest: rollback_keeps)

lemma finish_error:
  assumes "finish_tx commit rollback (Returned (Some e), t) = (res, logged, t')"
  shows "res = Returned (Some e) \<or> (\<not> over t \<and> (\<exists>rb. res = Returned (Some (Joined e rb))))"
  using assms rollback_of_over
  by (fastforce simp: finish_tx_def rollback_err_def split: option.splits prod.splits if_splits)

lemma finish_panic:
  "finish_tx commit rollback (Panicked p, t) = (res, logged, t') \<Longrightarrow> res = Panicked p"
  by (auto simp: finish_tx_def split: prod.splits)

end

definition sql_committed :: "'e sql_tx \<Rightarrow> bool" where
  "sql_committed t \<longleftrightarrow> Committed \<in> set (tx_events t)"

interpretation sqltx: tx_interface "sql_commit ctx_err answer" "sql_rollback rb_answer" tx_over sql_committed
  for ctx_err answer rb_answer
  by unfold_locales
    (auto simp: sql_commit_def sql_rollback_def sql_committed_def split: if_splits option.splits)

text \<open>
  How the caller's result follows from what the user code did and left behind, for any kind of
  transaction.
\<close>

definition tx_settled ::
  "('t \<Rightarrow> bool) \<Rightarrow> ('t \<Rightarrow> bool) \<Rightarrow> ('e, 'p) tx_outcome \<times> 't \<Rightarrow> ('e, 'p) tx_outcome \<Rightarrow> 't \<Rightarrow> bool" where
  "tx_settled over committed left res t' \<longleftrightarrow>
     over t' \<and>
     (res = Returned None \<longrightarrow> fst left = Returned None \<and> committed t') \<and>
     (case fst left of
        Returned None \<Rightarrow> True
      | Goexited \<Rightarrow> res = Goexited
      | Panicked p \<Rightarrow> res = Panicked p \<and> committed t' = committed (snd left)
      | Returned (Some e) \<Rightarrow> committed t' = committed (snd left) \<and>
          (res = Returned (Some e) \<or> \<not> over (snd left) \<and> (\<exists>rb. res = Returned (Some (Joined e rb)))))"

context tx_interface begin

lemma finish_settles:
  assumes "finish_tx commit rollback left = (res, logged, t')"
  shows "tx_settled over committed left res t'"
proof (cases left)
  case (Pair out t)
  note run = assms [unfolded Pair]
  show ?thesis
  proof (cases out)
    case (Returned r)
    show ?thesis
    proof (cases r)
      case None
      then show ?thesis
        using run finish_over [OF run] finish_success Returned Pair by (auto simp: tx_settled_def)
    next
      case (Some e)
      then show ?thesis
        using finish_over [OF run] finish_failed [OF run] finish_error [of e t res logged t'] run Returned Pair
        by (auto simp: tx_settled_def)
    qed
  next
    case (Panicked p)
    then show ?thesis
      using finish_over [OF run] finish_failed [OF run] finish_panic [of p t res logged t'] run Pair
      by (auto simp: tx_settled_def)
  next
    case Goexited
    then show ?thesis
      using finish_over [OF run] run Pair
      by (auto simp: tx_settled_def finish_tx_def split: prod.splits)
  qed
qed

end

text \<open>C18:
  WithTx never returns with its transaction open. It returns nil only when fn did and the commit
  succeeded. After an error or a panic of fn nothing is committed that fn had not committed itself; the
  panic goes on, and the error is returned, joined with the error of the rollback only if fn had left
  the transaction open. Without a transaction the result is an error.
\<close>

theorem with_tx_settles:
  assumes "with_tx start ctx_err commit_answer rollback_answer fn s = ((res, logged, tx), s')"
  shows "(case tx of
      None \<Rightarrow> \<exists>e. res = Returned (Some e)
    | Some t \<Rightarrow> tx_settled tx_over sql_committed (fn \<lparr>tx_over = False, tx_events = []\<rparr>) res t)"
  using assms
  by (auto simp: with_tx_def split: if_splits prod.splits option.splits intro: sqltx.finish_settles)

text \<open>
  A transaction of pgx has the interface by its documentation: Commit and Rollback close it whatever
  they return, and answer ErrTxClosed once it is closed. WithPgxTx then keeps what WithTx keeps; its rollback has a
  context of its own.
\<close>



theorem with_pgx_tx_settles:
  assumes "tx_interface (px_commit ops ctx) (px_rollback ops None) over committed"
    and "with_pgx_tx ops ctx fn s = ((res, logged, tx), s')"
  shows "(case tx of
      None \<Rightarrow> \<exists>e. res = Returned (Some e)
    | Some t' \<Rightarrow> \<exists>t w. px_begin ops (ds_world s) = (Inr t, w) \<and> tx_settled over committed (fn t) res t')"
  using assms(2)
  by (auto simp: with_pgx_tx_def begin_pgx_tx_def ask_def without_cancel_def
      split: sum.splits prod.splits if_splits intro: tx_interface.finish_settles [OF assms(1)])

text \<open>
  User code that leaves the goroutine has its work committed: recover returns nil and no error is set.
\<close>

theorem goexit_commits:
  assumes "\<not> ds_closed s" "ds_db s \<noteq> None" "start (ds_world s) = (None, w)"
    and "fn \<lparr>tx_over = False, tx_events = []\<rparr> = (Goexited, t)" "\<not> tx_over t"
    and "with_tx start None None rollback_answer fn s = ((res, logged, tx), s')"
  shows "res = Goexited \<and> (\<exists>t'. tx = Some t' \<and> sql_committed t')"
  using assms by (auto simp: with_tx_def ask_def finish_tx_def sql_commit_def sql_committed_def)

section \<open>Handles\<close>

text \<open>
  The handles that a service which is up has open: one of database/sql, or a pool with the handle
  derived from it, with the limits of the configuration.
\<close>

definition held_open :: "'w db_service \<Rightarrow> bool" where
  "held_open s \<longleftrightarrow>
     (if dc_mode (ds_cfg s) = ''pgx'' then
        \<exists>n l. ds_db s = Some (PoolDB n) \<and> ds_pool s = Some (PgxPool n) \<and>
          ds_open s = [(PoolDB n, pgx_limits (ds_cfg s) l), (PgxPool n, pgx_limits (ds_cfg s) l)]
      else \<exists>n. ds_db s = Some (SqlDB n) \<and> ds_open s = [(SqlDB n, sql_limits (ds_cfg s))])"

text \<open>What a failed attempt leaves as it was.\<close>

definition still_down :: "'w db_service \<Rightarrow> 'w db_service \<Rightarrow> bool" where
  "still_down s0 s \<longleftrightarrow>
     ds_open s = [] \<and> ds_cfg s = ds_cfg s0 \<and> ds_db s = ds_db s0 \<and> ds_pool s = ds_pool s0 \<and>
     ds_closed s = ds_closed s0"

definition now_up :: "'w db_service \<Rightarrow> 'w db_service \<Rightarrow> bool" where
  "now_up s0 s \<longleftrightarrow> held_open s \<and> ds_cfg s = ds_cfg s0"

lemmas handle_defs = ask_def add_handle_def drop_handle_def Let_def

lemma init_sql_attempt:
  assumes "still_down s0 s" "init_sql env s = (r, s')" "dc_mode (ds_cfg s0) \<noteq> ''pgx''"
  shows "if r = None then now_up s0 s' else still_down s0 s'"
  using assms
  by (auto simp: init_sql_def still_down_def now_up_def held_open_def handle_defs
      split: prod.splits option.splits if_splits)

lemma init_pgx_attempt:
  assumes "still_down s0 s" "init_pgx env s = (r, s')" "dc_mode (ds_cfg s0) = ''pgx''"
  shows "if r = None then now_up s0 s' else still_down s0 s'"
  using assms
  by (auto simp: init_pgx_def still_down_def now_up_def held_open_def handle_defs
      split: prod.splits option.splits sum.splits if_splits)

lemma wait_attempt: "still_down s0 s \<Longrightarrow> db_wait env d s = (r, s') \<Longrightarrow> still_down s0 s'"
  by (auto simp: db_wait_def still_down_def ask_def split: prod.splits)

definition db_dial :: "('e, 'w) db_env \<Rightarrow> db_config \<Rightarrow> 'w db_service \<Rightarrow> 'e db_error option \<times> 'w db_service" where
  "db_dial env c = (if dc_mode c = ''pgx'' then init_pgx env else init_sql env)"

lemma dial_attempt:
  assumes "still_down s0 s" "db_dial env (ds_cfg s0) s = (r, s')"
  shows "if r = None then now_up s0 s' else still_down s0 s'"
proof (cases "dc_mode (ds_cfg s0) = ''pgx''")
  case True
  then show ?thesis
    using init_pgx_attempt [OF assms(1), of env r s'] assms(2) by (simp add: db_dial_def)
next
  case False
  then show ?thesis
    using init_sql_attempt [OF assms(1), of env r s'] assms(2) by (simp add: db_dial_def)
qed

interpretation dbc: connector "db_dial env (ds_cfg s0)" "db_wait env" "still_down s0" "now_up s0" for env s0
proof
  fix s s' e
  assume "still_down s0 s" "db_dial env (ds_cfg s0) s = (Some e, s')"
  then show "still_down s0 s'"
    using dial_attempt [of s0 s env "Some e" s'] by simp
next
  fix s s'
  assume "still_down s0 s" "db_dial env (ds_cfg s0) s = (None, s')"
  then show "now_up s0 s'"
    using dial_attempt [of s0 s env None s'] by simp
next
  fix s s' d r
  assume "still_down s0 s" "db_wait env d s = (r, s')"
  then show "still_down s0 s'"
    by (rule wait_attempt)
qed

text \<open>Init, split at the configuration it comes to.\<close>

definition bound_config ::
  "(db_config \<Rightarrow> 'e option \<times> db_config) option \<Rightarrow> 'w db_service \<Rightarrow> 'e option \<times> db_config" where
  "bound_config bind s =
     (let c = (ds_cfg s)\<lparr>dc_has_connector := ds_connector s\<rparr> in
      if \<not> ds_custom s \<and> bind \<noteq> None then the bind c else (None, c))"

definition acceptable :: "db_config \<Rightarrow> bool" where
  "acceptable c \<longleftrightarrow> check_rules c = None \<and> dc_mode c \<in> {''pgx'', ''sql'', ''''}"

lemma db_init_connects:
  assumes "bound_config bind s = (None, c)" "acceptable c" "db_init env bind s = (r, s')"
  shows "\<exists>r' s1 evs.
    connect_with_retry (dc_retry c) (db_dial env c) (db_wait env) (s\<lparr>ds_cfg := c\<rparr>) = (r', s1, evs) \<and>
    (r = None \<longleftrightarrow> r' = None) \<and> s' = (if r' = None then s1\<lparr>ds_closed := False\<rparr> else s1)"
proof -
  obtain r' s1 evs where
    run: "connect_with_retry (dc_retry c) (db_dial env c) (db_wait env) (s\<lparr>ds_cfg := c\<rparr>) = (r', s1, evs)"
    by (metis prod_cases3)
  have "(r = None \<longleftrightarrow> r' = None) \<and> s' = (if r' = None then s1\<lparr>ds_closed := False\<rparr> else s1)"
    using assms run [unfolded db_dial_def]
    by (cases r'; cases "the r'") (auto simp: db_init_def bound_config_def acceptable_def Let_def split: if_splits)
  then show ?thesis
    using run by blast
qed

lemma db_init_refused:
  assumes "bound_config bind s = (e, c)" "e \<noteq> None \<or> \<not> acceptable c" "db_init env bind s = (r, s')"
  shows "r \<noteq> None \<and> s' = s\<lparr>ds_cfg := c\<rparr>"
  using assms
  by (auto simp: db_init_def bound_config_def acceptable_def Let_def split: option.splits if_splits)

lemma db_init_outcome:
  assumes init: "db_init env bind s = (r, s')" and down: "ds_open s = []"
  shows "if r = None then \<not> ds_closed s' \<and> held_open s' \<and> check_rules (ds_cfg s') = None
    else ds_open s' = [] \<and> ds_db s' = ds_db s \<and> ds_pool s' = ds_pool s \<and> ds_closed s' = ds_closed s"
proof -
  obtain e c where c: "bound_config bind s = (e, c)"
    by fastforce
  show ?thesis
  proof (cases "e = None \<and> acceptable c")
    case False
    then show ?thesis
      using db_init_refused [OF c _ init] down by auto
  next
    case True
    then obtain r' s1 evs where
      run: "connect_with_retry (dc_retry c) (db_dial env c) (db_wait env) (s\<lparr>ds_cfg := c\<rparr>) = (r', s1, evs)"
      and r: "r = None \<longleftrightarrow> r' = None" and s': "s' = (if r' = None then s1\<lparr>ds_closed := False\<rparr> else s1)"
      using db_init_connects [of bind s c env r s'] c init by auto
    have "still_down (s\<lparr>ds_cfg := c\<rparr>) (s\<lparr>ds_cfg := c\<rparr>)"
      using down by (simp add: still_down_def)
    then have "if r' = None then now_up (s\<lparr>ds_cfg := c\<rparr>) s1 else still_down (s\<lparr>ds_cfg := c\<rparr>) s1"
      using dbc.retry_keeps [of "dc_retry c" env "s\<lparr>ds_cfg := c\<rparr>"] run by simp
    then show ?thesis
      using r s' True by (auto simp: now_up_def still_down_def held_open_def acceptable_def)
  qed
qed

lemma db_close_outcome:
  assumes "db_close env s = (r, s')"
  shows "ds_closed s' \<and> (r = None \<and> (held_open s \<or> ds_open s = []) \<longrightarrow> ds_open s' = [])"
  using assms
  by (auto simp: db_close_def held_open_def handle_defs split: prod.splits option.splits if_splits)

text \<open>
  The states of a service whose owner calls Init only while the service is down, as CheckHealth tells,
  and whose Close does not fail.
\<close>

inductive db_reach :: "('e, 'w) db_env \<Rightarrow> 'w db_service \<Rightarrow> bool" for env where
  fresh: "db_reach env (new_db_service custom with_connector w)"
| init: "db_reach env s \<Longrightarrow> db_check_health s \<noteq> None \<Longrightarrow> db_init env bind s = (r, s') \<Longrightarrow>
    db_reach env s'"
| close: "db_reach env s \<Longrightarrow> db_close env s = (None, s') \<Longrightarrow> db_reach env s'"
| ready: "db_reach env s \<Longrightarrow> db_check_ready env s = (r, s') \<Longrightarrow> db_reach env s'"

lemma ready_keeps:
  "db_check_ready env s = (r, s') \<Longrightarrow>
     ds_open s' = ds_open s \<and> ds_db s' = ds_db s \<and> ds_pool s' = ds_pool s \<and> ds_closed s' = ds_closed s \<and>
     ds_cfg s' = ds_cfg s"
  by (auto simp: db_check_ready_def db_ping_def ask_def split: prod.splits option.splits if_splits)

lemma health_iff: "db_check_health s = None \<longleftrightarrow> \<not> ds_closed s \<and> (ds_db s \<noteq> None \<or> ds_pool s \<noteq> None)"
  by (simp add: db_check_health_def)

lemma held_cong:
  "ds_open s' = ds_open s \<Longrightarrow> ds_db s' = ds_db s \<Longrightarrow> ds_pool s' = ds_pool s \<Longrightarrow> ds_cfg s' = ds_cfg s \<Longrightarrow>
     held_open s' = held_open s"
  by (simp add: held_open_def)


section \<open>Where the code falls short\<close>

text \<open>
  Concrete drivers: one where everything succeeds, and one whose handles report an error on Close.
\<close>

definition demo_db_env :: "(string, unit) db_env" where
  "demo_db_env =
     \<lparr>de_open = (\<lambda>drv dsn w. (None, w)), de_parse = (\<lambda>dsn. Inr (sql_limits default_db_config)),
      de_pool = (\<lambda>l w. (None, w)), de_ping = (\<lambda>h w. (None, w)), de_close = (\<lambda>h w. (None, w)),
      de_wait = (\<lambda>d w. (None, w))\<rparr>"

definition stuck_env :: "(string, unit) db_env" where
  "stuck_env = demo_db_env\<lparr>de_close := (\<lambda>h w. (Some ''busy'', w))\<rparr>"

definition demo_config :: "string \<Rightarrow> db_config" where
  "demo_config mode = default_db_config\<lparr>dc_mode := mode, dc_dsn := ''db''\<rparr>"

definition demo_service :: "string \<Rightarrow> unit db_service" where
  "demo_service mode = snd (db_init demo_db_env None (new_db_service (Some (demo_config mode)) False ()))"

lemmas demo_db_simps = demo_service_def demo_db_env_def stuck_env_def demo_config_def db_init_def new_db_service_def
  default_db_config_def check_rules_def validate_source_def validate_idle_conns_def valid_driver_def
  connect_with_retry_def init_sql_def init_pgx_def db_close_def sql_limits_def pgx_limits_def handle_defs

text \<open>
  A second Init of a service that is up replaces its handle without closing it.
\<close>

theorem reinit_leaks:
  "map fst (ds_open (snd (db_init demo_db_env None (demo_service ''sql'')))) = [SqlDB 1, SqlDB 0]"
  by (simp add: demo_db_simps)

text \<open>In pgx mode a Close whose first handle fails returns without closing the pool.\<close>

theorem failed_close_keeps_pool:
  "map fst (ds_open (snd (db_close stuck_env (demo_service ''pgx'')))) = [PgxPool 0]"
  by (simp add: demo_db_simps)

text \<open>
  Init takes the empty mode for ModeSQL, but the rules for ModeSQL compare with the name: neither the
  driver nor the idle connections are checked, and a connector is refused.
\<close>

theorem empty_mode_unchecked:
  "check_rules ((demo_config '''')\<lparr>dc_driver := ''oracle'', dc_max_idle := -1\<rparr>) = None \<and>
   check_rules ((demo_config ''sql'')\<lparr>dc_driver := ''oracle'', dc_max_idle := -1\<rparr>) = Some (BadDriver ''oracle'') \<and>
   check_rules ((demo_config '''')\<lparr>dc_has_connector := True\<rparr>) = Some (ConnectorNeedsSql '''') \<and>
   ds_db (demo_service '''') = Some (SqlDB 0)"
  by (simp add: demo_db_simps)

section \<open>Witnesses\<close>

lemma demo_reach: "db_reach demo_db_env (demo_service ''pgx'')"
proof -
  let ?s = "new_db_service (Some (demo_config ''pgx'')) False ()"
  have "db_check_health ?s \<noteq> None"
    by (simp add: db_check_health_def new_db_service_def)
  moreover obtain r where "db_init demo_db_env None ?s = (r, demo_service ''pgx'')"
    unfolding demo_service_def by (cases "db_init demo_db_env None ?s") simp
  ultimately show ?thesis
    by (intro db_reach.init [OF db_reach.fresh])
qed


lemma demo_sql_up: "\<not> ds_closed (demo_service ''sql'')" "ds_db (demo_service ''sql'') = Some (SqlDB 0)"
  by (simp_all add: demo_db_simps)

lemma demo_pgx_up: "\<not> ds_closed (demo_service ''pgx'')" "ds_pool (demo_service ''pgx'') = Some (PgxPool 0)"
  by (simp_all add: demo_db_simps)

lemma unit_world [simp]: "s\<lparr>ds_world := (w :: unit)\<rparr> = s"
  by (cases s) simp

definition demo_fn :: "string sql_tx \<Rightarrow> (string, nat) tx_outcome \<times> string sql_tx" where
  "demo_fn t = (Returned (Some (Driver ''no row'')), t)"

theorem with_tx_settles_witness:
  "tx_settled tx_over sql_committed (demo_fn \<lparr>tx_over = False, tx_events = []\<rparr>)
     (Returned (Some (Joined (Driver ''no row'') (Labelled ''failed to roll back transaction'' (Driver ''gone'')))))
     \<lparr>tx_over = True, tx_events = [RollbackFailed ''gone'']\<rparr>"
proof -
  have "with_tx (\<lambda>w. (None, w)) None None (Some ''gone'') demo_fn (demo_service ''sql'') =
      ((Returned (Some (Joined (Driver ''no row'') (Labelled ''failed to roll back transaction'' (Driver ''gone'')))),
        None, Some \<lparr>tx_over = True, tx_events = [RollbackFailed ''gone'']\<rparr>), demo_service ''sql'')"
    by (simp add: demo_sql_up ask_def with_tx_def demo_fn_def finish_tx_def sql_rollback_def rollback_err_def)
  from with_tx_settles [OF this] show ?thesis
    by simp
qed

text \<open>A pgx transaction as its documentation has it, over the same events.\<close>

definition demo_pgx :: "(string, string sql_tx, unit) pgx_ops" where
  "demo_pgx =
     \<lparr>px_begin = (\<lambda>w. (Inr \<lparr>tx_over = False, tx_events = []\<rparr>, w)),
      px_commit = (\<lambda>ctx t. if tx_over t then (Some TxClosed, t) else sql_commit ctx None t),
      px_rollback = (\<lambda>ctx t. if tx_over t then (Some TxClosed, t) else sql_rollback ctx t)\<rparr>"

theorem with_pgx_tx_settles_witness:
  "tx_settled tx_over sql_committed (demo_fn \<lparr>tx_over = False, tx_events = []\<rparr>)
     (Returned (Some (Driver ''no row''))) \<lparr>tx_over = True, tx_events = [RolledBack]\<rparr>"
proof -
  have laws: "tx_interface (px_commit demo_pgx (Some ''canceled'')) (px_rollback demo_pgx None)
      tx_over (sql_committed :: string sql_tx \<Rightarrow> bool)"
    by unfold_locales
      (auto simp: demo_pgx_def sql_commit_def sql_rollback_def sql_committed_def split: if_splits)
  have "with_pgx_tx demo_pgx (Some ''canceled'') demo_fn (demo_service ''pgx'') =
      ((Returned (Some (Driver ''no row'')), None, Some \<lparr>tx_over = True, tx_events = [RolledBack]\<rparr>),
       demo_service ''pgx'')"
    by (simp add: demo_pgx_up ask_def demo_pgx_def with_pgx_tx_def begin_pgx_tx_def demo_fn_def finish_tx_def
        sql_rollback_def rollback_err_def without_cancel_def)
  from with_pgx_tx_settles [OF laws this] show ?thesis
    by (simp add: demo_pgx_def)
qed

end
