(* ===== verification/Valkey_Service.thy ===== *)
theory Valkey_Service
  imports Conn_Retry
begin

text \<open>
  cache/valkey/service.go: the client of the Valkey cache over its life, and the operations that run
  while Init and Close replace and close it. The shared state is what the code has in atomics, the
  client reference and the closed flag, with the clients that are open. Init and Close are functions, and
  again steps, one per access to the shared state, between which operations run. The client package is a
  parameter: what a command answers is part of the step, and what making and pinging a client gives is
  the record \<open>vk_env\<close>.
\<close>

section \<open>State\<close>

datatype vk_cmd =
    CmdGet string
  | CmdSet string string "int option"
  | CmdDel string
  | CmdExists string
  | CmdPing

text \<open>Set gives the key a time to live only when it is positive.\<close>

definition set_cmd :: "string \<Rightarrow> string \<Rightarrow> int \<Rightarrow> vk_cmd" where
  "set_cmd key v ttl = CmdSet key v (if ttl > 0 then Some ttl else None)"

text \<open>
  An answer of the client: a message, whose conversions to bytes and to a number are the client's, the
  nil reply, or an error.
\<close>

datatype ('e, 'm) vk_reply = Message 'm | NilReply 'e | Refused 'e

record ('e, 'm) vk_conv =
  as_bytes :: "'m \<Rightarrow> 'e + string"
  as_int64 :: "'m \<Rightarrow> 'e + int"

datatype 'e vk_result =
    GotBytes string
  | GotBool bool
  | OkDone
  | KeyMissing
  | CacheClosed
  | OpFailed vk_cmd 'e

text \<open>
  What each operation makes of an answer: a result, or an error it looks into with closedDuring.
\<close>

fun judge :: "('e, 'm) vk_conv \<Rightarrow> vk_cmd \<Rightarrow> ('e, 'm) vk_reply \<Rightarrow> 'e + 'e vk_result" where
  "judge conv (CmdGet k) (NilReply e) = Inr KeyMissing"
| "judge conv (CmdGet k) (Message m) =
     (case as_bytes conv m of Inl e \<Rightarrow> Inr (OpFailed (CmdGet k) e) | Inr b \<Rightarrow> Inr (GotBytes b))"
| "judge conv (CmdExists k) (Message m) =
     (case as_int64 conv m of Inl e \<Rightarrow> Inl e | Inr n \<Rightarrow> Inr (GotBool (n > 0)))"
| "judge conv c (Refused e) = Inl e"
| "judge conv c (NilReply e) = Inl e"
| "judge conv c (Message m) = Inr OkDone"

text \<open>
  Where Init or Close is, and where an operation is. Clients are numbered in the order they are made.
\<close>

datatype vk_life =
    Idle
  | Dialing
  | Made nat
  | Pinged nat
  | Swapped "nat option"
  | Connected
  | Closing
  | ClosingRef "nat option"

datatype 'e vk_op =
    Started vk_cmd
  | FlagRead vk_cmd
  | Holding vk_cmd nat
  | Failing vk_cmd nat 'e
  | FlagReread vk_cmd nat 'e
  | Finished "'e vk_result"

record 'e vk =
  vk_client :: "nat option"
  vk_closed :: bool
  vk_open :: "nat set"
  vk_next :: nat
  vk_life :: vk_life
  vk_ops :: "nat \<Rightarrow> 'e vk_op option"

definition new_vk :: "'e vk" where
  "new_vk =
     \<lparr>vk_client = None, vk_closed = False, vk_open = {}, vk_next = 0, vk_life = Idle, vk_ops = (\<lambda>_. None)\<rparr>"

section \<open>Init and Close as functions\<close>

text \<open>What making a client, pinging it and waiting before a retry give.\<close>

record ('e, 'w) vk_env =
  ve_new :: "'w \<Rightarrow> 'e option \<times> 'w"
  ve_ping :: "nat \<Rightarrow> 'w \<Rightarrow> 'e option \<times> 'w"
  ve_wait :: "64 word \<Rightarrow> 'w \<Rightarrow> 'e option \<times> 'w"

datatype 'e vk_error = ConfigBinding 'e | NewClient 'e | PingFailed 'e | ContextDone 'e

definition close_client :: "nat \<Rightarrow> 'e vk \<Rightarrow> 'e vk" where
  "close_client n s = s\<lparr>vk_open := vk_open s - {n}\<rparr>"

definition vk_connect :: "('e, 'w) vk_env \<Rightarrow> 'e vk \<times> 'w \<Rightarrow> 'e vk_error option \<times> 'e vk \<times> 'w" where
  "vk_connect env = (\<lambda>(s, w).
     case ve_new env w of
       (Some e, w1) \<Rightarrow> (Some (NewClient e), s, w1)
     | (None, w1) \<Rightarrow>
         (let n = vk_next s; s1 = s\<lparr>vk_next := Suc n, vk_open := insert n (vk_open s)\<rparr> in
          case ve_ping env n w1 of
            (Some e, w2) \<Rightarrow> (Some (PingFailed e), close_client n s1, w2)
          | (None, w2) \<Rightarrow>
              (let prev = vk_client s1; s2 = s1\<lparr>vk_client := Some n\<rparr> in
               (None, case prev of None \<Rightarrow> s2 | Some p \<Rightarrow> close_client p s2, w2))))"

definition vk_wait :: "('e, 'w) vk_env \<Rightarrow> 64 word \<Rightarrow> 'e vk \<times> 'w \<Rightarrow> 'e vk_error option \<times> 'e vk \<times> 'w" where
  "vk_wait env d = (\<lambda>(s, w). case ve_wait env d w of (r, w1) \<Rightarrow> (map_option ContextDone r, s, w1))"

text \<open>Init, with the configuration that Bind came to or its error.\<close>

definition vk_init ::
  "('e, 'w) vk_env \<Rightarrow> 'e + retry_cfg \<Rightarrow> 'e vk \<times> 'w \<Rightarrow> 'e vk_error conn_error option \<times> 'e vk \<times> 'w" where
  "vk_init env bound = (\<lambda>(s, w).
     case bound of
       Inl e \<Rightarrow> (Some (ConnErr (ConfigBinding e)), s, w)
     | Inr cfg \<Rightarrow>
         (case connect_with_retry cfg (vk_connect env) (vk_wait env) (s, w) of
            (Some e, (s1, w1), _) \<Rightarrow> (Some e, s1, w1)
          | (None, (s1, w1), _) \<Rightarrow> (None, s1\<lparr>vk_closed := False\<rparr>, w1)))"

definition vk_close :: "'e vk \<Rightarrow> 'e vk" where
  "vk_close s =
     (let s1 = s\<lparr>vk_closed := True\<rparr> in
      case vk_client s1 of None \<Rightarrow> s1 | Some n \<Rightarrow> close_client n s1)"

text \<open>acquire and closedDuring with nothing in between their two reads.\<close>

definition acquire :: "'e vk \<Rightarrow> 'e vk_result + nat" where
  "acquire s =
     (if vk_closed s then Inl CacheClosed
      else case vk_client s of None \<Rightarrow> Inl CacheClosed | Some n \<Rightarrow> Inr n)"

definition closed_during :: "'e vk \<Rightarrow> nat \<Rightarrow> bool" where
  "closed_during s n \<longleftrightarrow> vk_closed s \<or> vk_client s \<noteq> Some n"

definition vk_check_health :: "'e vk \<Rightarrow> 'e vk_result option" where
  "vk_check_health s = (case acquire s of Inl e \<Rightarrow> Some e | Inr n \<Rightarrow> None)"

section \<open>Steps\<close>

text \<open>
  The accesses of Init and Close to the shared state. One goroutine runs them, one after the other.
  closed is set at the start of a Close and unset at the end of a successful Init.
\<close>

inductive life_step :: "'e vk \<Rightarrow> 'e vk \<Rightarrow> bool" where
  begin_init: "vk_life s = Idle \<Longrightarrow> life_step s (s\<lparr>vk_life := Dialing\<rparr>)"
| give_up: "vk_life s = Dialing \<Longrightarrow> life_step s (s\<lparr>vk_life := Idle\<rparr>)"
| make: "vk_life s = Dialing \<Longrightarrow>
    life_step s (s\<lparr>vk_next := Suc (vk_next s), vk_open := insert (vk_next s) (vk_open s),
      vk_life := Made (vk_next s)\<rparr>)"
| ping_fails: "vk_life s = Made n \<Longrightarrow> life_step s ((close_client n s)\<lparr>vk_life := Dialing\<rparr>)"
| ping_ok: "vk_life s = Made n \<Longrightarrow> life_step s (s\<lparr>vk_life := Pinged n\<rparr>)"
| swap: "vk_life s = Pinged n \<Longrightarrow> life_step s (s\<lparr>vk_client := Some n, vk_life := Swapped (vk_client s)\<rparr>)"
| close_prev: "vk_life s = Swapped (Some p) \<Longrightarrow> life_step s ((close_client p s)\<lparr>vk_life := Connected\<rparr>)"
| no_prev: "vk_life s = Swapped None \<Longrightarrow> life_step s (s\<lparr>vk_life := Connected\<rparr>)"
| reopen: "vk_life s = Connected \<Longrightarrow> life_step s (s\<lparr>vk_closed := False, vk_life := Idle\<rparr>)"
| begin_close: "vk_life s = Idle \<Longrightarrow> life_step s (s\<lparr>vk_closed := True, vk_life := Closing\<rparr>)"
| load: "vk_life s = Closing \<Longrightarrow> life_step s (s\<lparr>vk_life := ClosingRef (vk_client s)\<rparr>)"
| close_ref: "vk_life s = ClosingRef (Some n) \<Longrightarrow> life_step s ((close_client n s)\<lparr>vk_life := Idle\<rparr>)"
| no_ref: "vk_life s = ClosingRef None \<Longrightarrow> life_step s (s\<lparr>vk_life := Idle\<rparr>)"

text \<open>
  The steps of an operation: the two reads of acquire, the command, and the two reads of closedDuring,
  the second only when the first is false.
\<close>

fun op_next :: "('e, 'm) vk_conv \<Rightarrow> ('e, 'm) vk_reply \<Rightarrow> 'e vk \<Rightarrow> 'e vk_op \<Rightarrow> 'e vk_op" where
  "op_next conv rep s (Started c) = (if vk_closed s then Finished CacheClosed else FlagRead c)"
| "op_next conv rep s (FlagRead c) =
     (case vk_client s of None \<Rightarrow> Finished CacheClosed | Some n \<Rightarrow> Holding c n)"
| "op_next conv rep s (Holding c n) =
     (case judge conv c rep of Inr r \<Rightarrow> Finished r | Inl e \<Rightarrow> Failing c n e)"
| "op_next conv rep s (Failing c n e) = (if vk_closed s then Finished CacheClosed else FlagReread c n e)"
| "op_next conv rep s (FlagReread c n e) =
     Finished (if vk_client s \<noteq> Some n then CacheClosed else OpFailed c e)"
| "op_next conv rep s (Finished r) = Finished r"

text \<open>
  What the client package documents: a client that has been closed answers every command with an error.
\<close>

fun may_answer :: "'e vk \<Rightarrow> 'e vk_op \<Rightarrow> ('e, 'm) vk_reply \<Rightarrow> bool" where
  "may_answer s (Holding c n) rep = (n \<in> vk_open s \<or> (case rep of Refused e \<Rightarrow> True | _ \<Rightarrow> False))"
| "may_answer s o1 rep = True"

inductive vk_step :: "('e, 'm) vk_conv \<Rightarrow> 'e vk \<Rightarrow> 'e vk \<Rightarrow> bool" for conv where
  life: "life_step s s' \<Longrightarrow> vk_step conv s s'"
| start: "vk_ops s i = None \<Longrightarrow> vk_step conv s (s\<lparr>vk_ops := (vk_ops s)(i \<mapsto> Started c)\<rparr>)"
| op: "vk_ops s i = Some o1 \<Longrightarrow> may_answer s o1 rep \<Longrightarrow>
    vk_step conv s (s\<lparr>vk_ops := (vk_ops s)(i \<mapsto> op_next conv rep s o1)\<rparr>)"

inductive_cases life_stepE: "life_step s s'"
inductive_cases vk_stepE: "vk_step conv s s'"

end
