(* ===== verification/Valkey_Properties.thy ===== *)
theory Valkey_Properties
  imports Valkey_Service
begin

text \<open>
  What the Valkey cache guarantees while Init and Close run beside its operations: the open clients are
  those the state accounts for, and a command that fails because its client was closed is reported as
  ErrClosed. The functions vk_init and vk_close are runs of the steps.
\<close>

section \<open>The invariant\<close>

definition in_use :: "'e vk \<Rightarrow> nat set" where
  "in_use s = (if vk_closed s then {} else set_option (vk_client s))"

definition vk_inv :: "'e vk \<Rightarrow> bool" where
  "vk_inv s \<longleftrightarrow>
     (\<forall>n\<in>vk_open s \<union> set_option (vk_client s). n < vk_next s) \<and>
     (case vk_life s of
        Idle \<Rightarrow> vk_open s = in_use s
      | Dialing \<Rightarrow> vk_open s = in_use s
      | Made n \<Rightarrow> vk_open s = insert n (in_use s) \<and> vk_client s \<noteq> Some n
      | Pinged n \<Rightarrow> vk_open s = insert n (in_use s) \<and> vk_client s \<noteq> Some n
      | Swapped p \<Rightarrow> (\<exists>m. vk_client s = Some m \<and> p \<noteq> Some m \<and>
          vk_open s = insert m (if vk_closed s then {} else set_option p))
      | Connected \<Rightarrow> (\<exists>m. vk_client s = Some m \<and> vk_open s = {m})
      | Closing \<Rightarrow> vk_closed s \<and> vk_open s \<subseteq> set_option (vk_client s)
      | ClosingRef r \<Rightarrow> vk_closed s \<and> r = vk_client s \<and> vk_open s \<subseteq> set_option r)"

lemma inv_new: "vk_inv new_vk"
  by (simp add: vk_inv_def new_vk_def in_use_def)

lemma inv_life: "life_step s s' \<Longrightarrow> vk_inv s \<Longrightarrow> vk_inv s'"
  by (induction rule: life_step.induct) (auto simp: vk_inv_def in_use_def close_client_def split: if_splits)

lemma inv_ops: "vk_inv (s\<lparr>vk_ops := f\<rparr>) = vk_inv s"
  by (cases "vk_life s") (simp_all add: vk_inv_def in_use_def)

lemma inv_step: "vk_step conv s s' \<Longrightarrow> vk_inv s \<Longrightarrow> vk_inv s'"
  by (induction rule: vk_step.induct) (auto simp: inv_ops dest: inv_life)

abbreviation vk_run :: "('e, 'm) vk_conv \<Rightarrow> 'e vk \<Rightarrow> 'e vk \<Rightarrow> bool" where
  "vk_run conv \<equiv> (vk_step conv)\<^sup>*\<^sup>*"

lemma inv_run: "vk_run conv s s' \<Longrightarrow> vk_inv s \<Longrightarrow> vk_inv s'"
  by (induction rule: rtranclp_induct) (auto dest: inv_step)

text \<open>
  Between Init and Close calls the clients that are open are the one acquire gives out, or none.
\<close>

theorem vk_clients_exact:
  assumes "vk_run conv new_vk s" and "vk_life s = Idle"
  shows "vk_open s = (case acquire s of Inl e \<Rightarrow> {} | Inr n \<Rightarrow> {n})"
  using inv_run [OF assms(1) inv_new] assms(2)
  by (auto simp: vk_inv_def in_use_def acquire_def split: option.splits)

section \<open>A closed client\<close>

text \<open>
  A client that has been made and closed stays closed. Outside of the operations that hold it, it can
  only be found through the reference, and then the closed flag is set.
\<close>

definition gone :: "nat \<Rightarrow> 'e vk \<Rightarrow> bool" where
  "gone n s \<longleftrightarrow> n < vk_next s \<and> n \<notin> vk_open s"

definition replaced :: "nat \<Rightarrow> 'e vk \<Rightarrow> bool" where
  "replaced n s \<longleftrightarrow> gone n s \<and> vk_client s \<noteq> Some n"

lemma gone_flagged: "vk_inv s \<Longrightarrow> gone n s \<Longrightarrow> \<not> vk_closed s \<Longrightarrow> replaced n s"
  by (cases "vk_life s") (auto simp: vk_inv_def gone_def replaced_def in_use_def)

lemma gone_life: "life_step s s' \<Longrightarrow> gone n s \<Longrightarrow> gone n s'"
  by (induction rule: life_step.induct) (auto simp: gone_def close_client_def)

lemma replaced_life: "life_step s s' \<Longrightarrow> vk_inv s \<Longrightarrow> replaced n s \<Longrightarrow> replaced n s'"
  by (induction rule: life_step.induct) (auto simp: replaced_def gone_def close_client_def vk_inv_def)

lemma gone_ops: "gone n (s\<lparr>vk_ops := f\<rparr>) = gone n s" "replaced n (s\<lparr>vk_ops := f\<rparr>) = replaced n s"
  by (simp_all add: gone_def replaced_def)

text \<open>Where an operation that holds a closed client can get to.\<close>

fun on_closed :: "nat \<Rightarrow> 'e vk \<Rightarrow> 'e vk_op option \<Rightarrow> bool" where
  "on_closed n s (Some (Holding c m)) \<longleftrightarrow> m = n"
| "on_closed n s (Some (Failing c m e)) \<longleftrightarrow> m = n"
| "on_closed n s (Some (FlagReread c m e)) \<longleftrightarrow> m = n \<and> replaced n s"
| "on_closed n s (Some (Finished r)) \<longleftrightarrow> r = CacheClosed"
| "on_closed n s _ \<longleftrightarrow> False"

lemma refused_fails: "judge conv c (Refused e) = Inl e"
  by (cases c) simp_all

lemma op_next_closed:
  assumes "vk_inv s" "gone n s" "on_closed n s (Some o1)" "may_answer s o1 rep"
  shows "on_closed n s (Some (op_next conv rep s o1))"
  using assms
  by (cases o1) (auto simp: refused_fails replaced_def gone_def split: vk_reply.splits dest: gone_flagged)

lemma on_closed_cong:
  "(\<And>m. replaced m s \<Longrightarrow> replaced m s') \<Longrightarrow> on_closed n s o1 \<Longrightarrow> on_closed n s' o1"
  by (induction n s o1 rule: on_closed.induct) auto

lemma closed_step:
  assumes "vk_step conv s s'" "vk_inv s" "gone n s \<and> on_closed n s (vk_ops s i)"
  shows "gone n s' \<and> on_closed n s' (vk_ops s' i)"
  using assms
proof (cases rule: vk_step.cases)
  case life
  have "vk_ops s' = vk_ops s"
    using life by (induction rule: life_step.induct) (simp_all add: close_client_def)
  then show ?thesis
    using life assms(2,3) on_closed_cong [of s s' n "vk_ops s i"]
    by (auto dest: gone_life intro: replaced_life)
next
  case (start j c)
  then show ?thesis
    using assms(3) on_closed_cong [of s s' n "vk_ops s i"] by (auto simp: gone_ops)
next
  case (op j o1 rep)
  then show ?thesis
    using assms(2,3) op_next_closed [of s n o1 rep conv]
      on_closed_cong [of s s' n "vk_ops s i"] on_closed_cong [of s s' n "Some (op_next conv rep s o1)"]
    by (auto simp: gone_ops)
qed

lemma closed_run:
  "vk_run conv s s' \<Longrightarrow> vk_inv s \<Longrightarrow> gone n s \<and> on_closed n s (vk_ops s i) \<Longrightarrow>
     gone n s' \<and> on_closed n s' (vk_ops s' i)"
  by (induction rule: rtranclp_induct) (auto dest: closed_step inv_run)

text \<open>An operation only holds clients that have been made.\<close>

fun op_ref :: "'e vk_op option \<Rightarrow> nat option" where
  "op_ref (Some (Holding c n)) = Some n"
| "op_ref (Some (Failing c n e)) = Some n"
| "op_ref (Some (FlagReread c n e)) = Some n"
| "op_ref _ = None"

definition refs_made :: "'e vk \<Rightarrow> bool" where
  "refs_made s \<longleftrightarrow> (\<forall>i. \<forall>n\<in>set_option (op_ref (vk_ops s i)). n < vk_next s)"

lemma life_frame: "life_step s s' \<Longrightarrow> vk_ops s' = vk_ops s \<and> vk_next s \<le> vk_next s'"
  by (induction rule: life_step.induct) (simp_all add: close_client_def)

lemma op_ref_next:
  "op_ref (Some (op_next conv rep s o1)) = Some n \<Longrightarrow>
     op_ref (Some o1) = Some n \<or> vk_client s = Some n"
  by (cases o1) (auto split: if_splits option.splits sum.splits)

lemma refs_made_step:
  assumes "vk_step conv s s'" "vk_inv s" "refs_made s"
  shows "refs_made s'"
  using assms
proof (cases rule: vk_step.cases)
  case life
  then show ?thesis
    using life_frame [of s s'] assms(3) by (fastforce simp: refs_made_def)
next
  case (start j c)
  then show ?thesis
    using assms(3) by (auto simp: refs_made_def)
next
  case (op j o1 rep)
  have "n < vk_next s" if "op_ref (Some (op_next conv rep s o1)) = Some n" for n
    using op_ref_next [OF that]
  proof
    assume "op_ref (Some o1) = Some n"
    then have "n \<in> set_option (op_ref (vk_ops s j))"
      using op by simp
    then show ?thesis
      using assms(3) by (auto simp: refs_made_def)
  next
    assume "vk_client s = Some n"
    then show ?thesis
      using assms(2) by (simp add: vk_inv_def)
  qed
  then show ?thesis
    using op assms(3) by (auto simp: refs_made_def)
qed

lemma refs_made_run: "vk_run conv s s' \<Longrightarrow> vk_inv s \<Longrightarrow> refs_made s \<Longrightarrow> refs_made s'"
  by (induction rule: rtranclp_induct) (auto intro: refs_made_step inv_run)

text \<open>C20:
  An operation whose client was closed, by Close or by a reconnecting Init, before its command was sent
  reports ErrClosed, however the remaining steps of the operation, of Init and of Close interleave, and
  also when the service has been opened again in the meantime.
\<close>

theorem closed_client_reported:
  assumes "vk_run conv new_vk s1" and "vk_ops s1 i = Some (Holding c n)" and "n \<notin> vk_open s1"
    and "vk_run conv s1 s2" and "vk_ops s2 i = Some (Finished r)"
  shows "r = CacheClosed"
proof -
  have "refs_made s1"
    using refs_made_run [OF assms(1) inv_new] by (simp add: refs_made_def new_vk_def)
  then have "n \<in> set_option (op_ref (vk_ops s1 i)) \<Longrightarrow> n < vk_next s1"
    by (auto simp: refs_made_def)
  then have "gone n s1 \<and> on_closed n s1 (vk_ops s1 i)"
    using assms(2,3) by (simp add: gone_def)
  from closed_run [OF assms(4) inv_run [OF assms(1) inv_new] this] show ?thesis
    using assms(5) by simp
qed

section \<open>Init and Close are runs of the steps\<close>

abbreviation life_run :: "'e vk \<Rightarrow> 'e vk \<Rightarrow> bool" where
  "life_run \<equiv> life_step\<^sup>*\<^sup>*"

definition dialing_from :: "'e vk \<Rightarrow> 'e vk \<times> 'w \<Rightarrow> bool" where
  "dialing_from s0 x \<longleftrightarrow> life_run s0 ((fst x)\<lparr>vk_life := Dialing\<rparr>)"

definition connected_from :: "'e vk \<Rightarrow> 'e vk \<times> 'w \<Rightarrow> bool" where
  "connected_from s0 x \<longleftrightarrow> life_run s0 ((fst x)\<lparr>vk_life := Connected\<rparr>)"

lemma run_snoc: "life_run s0 s \<Longrightarrow> life_step s s' \<Longrightarrow> life_run s0 s'"
  by (rule rtranclp.rtrancl_into_rtrancl)

lemma run_make:
  assumes "life_run s0 (s\<lparr>vk_life := Dialing\<rparr>)"
  shows "life_run s0 (s\<lparr>vk_next := Suc (vk_next s), vk_open := insert (vk_next s) (vk_open s),
    vk_life := Made (vk_next s)\<rparr>)"
  using run_snoc [OF assms life_step.make] by simp

lemma run_ping_fails:
  assumes "life_run s0 (s\<lparr>vk_life := Made n\<rparr>)"
  shows "life_run s0 ((close_client n s)\<lparr>vk_life := Dialing\<rparr>)"
  using run_snoc [OF assms life_step.ping_fails] by (simp add: close_client_def)

lemma run_swap:
  assumes "life_run s0 (s\<lparr>vk_life := Made n\<rparr>)"
  shows "life_run s0 (s\<lparr>vk_client := Some n, vk_life := Swapped (vk_client s)\<rparr>)"
  using run_snoc [OF run_snoc [OF assms life_step.ping_ok] life_step.swap] by simp

lemma run_close_prev:
  assumes "life_run s0 (s\<lparr>vk_life := Swapped p\<rparr>)"
  shows "life_run s0 ((case p of None \<Rightarrow> s | Some n \<Rightarrow> close_client n s)\<lparr>vk_life := Connected\<rparr>)"
proof (cases p)
  case None
  then show ?thesis
    using run_snoc [OF assms [unfolded None] life_step.no_prev] by simp
next
  case (Some n)
  then show ?thesis
    using run_snoc [OF assms [unfolded Some] life_step.close_prev] by (simp add: close_client_def)
qed

lemma connect_runs:
  assumes "dialing_from s0 x" "vk_connect env x = (r, x')"
  shows "if r = None then connected_from s0 x' else dialing_from s0 x'"
proof -
  obtain s w where x: "x = (s, w)"
    by fastforce
  let ?n = "vk_next s"
  let ?s1 = "s\<lparr>vk_next := Suc ?n, vk_open := insert ?n (vk_open s)\<rparr>"
  have made: "life_run s0 (?s1\<lparr>vk_life := Made ?n\<rparr>)"
    using run_make assms(1) x by (simp add: dialing_from_def)
  have "life_run s0 ((?s1\<lparr>vk_client := Some ?n\<rparr>)\<lparr>vk_life := Swapped (vk_client s)\<rparr>)"
    using run_swap [OF made] by simp
  from run_close_prev [OF this] run_ping_fails [OF made] show ?thesis
    using assms x
    by (auto simp: vk_connect_def dialing_from_def connected_from_def Let_def
        split: prod.splits option.splits)
qed

interpretation vkc: connector "vk_connect env" "vk_wait env" "dialing_from s0" "connected_from s0" for env s0
proof
  show "dialing_from s0 s'" if "dialing_from s0 s" "vk_connect env s = (Some e, s')" for s s' e
    using connect_runs [OF that] by simp
  show "connected_from s0 s'" if "dialing_from s0 s" "vk_connect env s = (None, s')" for s s'
    using connect_runs [OF that] by simp
  show "dialing_from s0 s'" if "dialing_from s0 s" "vk_wait env d s = (r, s')" for s s' d r
    using that by (auto simp: dialing_from_def vk_wait_def split: prod.splits)
qed

lemma init_runs:
  assumes "vk_life s = Idle" "vk_init env bound (s, w) = (r, s', w')"
  shows "life_run s (s'\<lparr>vk_life := Idle\<rparr>)"
proof (cases bound)
  case (Inl e)
  then show ?thesis
    using assms by (cases s) (auto simp: vk_init_def)
next
  case (Inr cfg)
  obtain r' s1 w1 evs where
    run: "connect_with_retry cfg (vk_connect env) (vk_wait env) (s, w) = (r', (s1, w1), evs)"
    by (metis prod.collapse)
  have "dialing_from s (s, w)"
    using life_step.begin_init [OF assms(1)] by (auto simp: dialing_from_def)
  then have via: "if r' = None then connected_from s (s1, w1) else dialing_from s (s1, w1)"
    using vkc.retry_keeps [OF run] by simp
  show ?thesis
  proof (cases r')
    case None
    then have "life_run s (s1\<lparr>vk_closed := False, vk_life := Idle\<rparr>)"
      using via run_snoc [OF _ life_step.reopen] by (fastforce simp: connected_from_def)
    then show ?thesis
      using assms(2) run Inr None by (auto simp: vk_init_def)
  next
    case (Some e)
    then have "life_run s (s1\<lparr>vk_life := Idle\<rparr>)"
      using via run_snoc [OF _ life_step.give_up] by (fastforce simp: dialing_from_def)
    then show ?thesis
      using assms(2) run Inr Some by (auto simp: vk_init_def)
  qed
qed

lemma close_runs:
  assumes "vk_life s = Idle"
  shows "life_run s ((vk_close s)\<lparr>vk_life := Idle\<rparr>)"
proof -
  let ?s1 = "s\<lparr>vk_closed := True\<rparr>"
  have loaded: "life_run s (?s1\<lparr>vk_life := ClosingRef (vk_client s)\<rparr>)"
    using life_step.load [of "?s1\<lparr>vk_life := Closing\<rparr>"] life_step.begin_close [OF assms]
    by (simp add: converse_rtranclp_into_rtranclp r_into_rtranclp)
  show ?thesis
  proof (cases "vk_client s")
    case None
    then show ?thesis
      using run_snoc [OF loaded [unfolded None] life_step.no_ref] by (simp add: vk_close_def)
  next
    case (Some n)
    then show ?thesis
      using run_snoc [OF loaded [unfolded Some] life_step.close_ref]
      by (simp add: vk_close_def close_client_def)
  qed
qed

text \<open>
  Init with its retries and Close, as functions, are runs of the steps of the state machine, from
  wherever they are called and whatever the client and the context do.
\<close>

theorem vk_init_close_refine:
  assumes "vk_life s = Idle" and "vk_init env bound (s, w) = (r, s', w')"
  shows "life_run s (s'\<lparr>vk_life := Idle\<rparr>) \<and> life_run s ((vk_close s)\<lparr>vk_life := Idle\<rparr>)"
  using init_runs [OF assms] close_runs [OF assms(1)] by simp

section \<open>Witnesses\<close>

text \<open>
  A service that is started, takes a Get up to its command, and is closed before the command is sent.
\<close>

definition demo_vconv :: "(string, string) vk_conv" where
  "demo_vconv = \<lparr>as_bytes = Inr, as_int64 = (\<lambda>m. Inl ''not a number'')\<rparr>"

definition demo_venv :: "(string, unit) vk_env" where
  "demo_venv = \<lparr>ve_new = (\<lambda>w. (None, w)), ve_ping = (\<lambda>n w. (None, w)), ve_wait = (\<lambda>d w. (None, w))\<rparr>"

definition demo_ops :: "string vk_op \<Rightarrow> nat \<Rightarrow> string vk_op option" where
  "demo_ops o1 = [7 \<mapsto> o1]"

definition demo_up :: "string vk" where
  "demo_up =
     \<lparr>vk_client = Some 0, vk_closed = False, vk_open = {0}, vk_next = 1, vk_life = Idle, vk_ops = (\<lambda>_. None)\<rparr>"

definition demo_down :: "string vk" where
  "demo_down = demo_up\<lparr>vk_closed := True, vk_open := {}\<rparr>"

lemma life_is_run: "life_run s s' \<Longrightarrow> vk_run conv s s'"
  by (induction rule: rtranclp_induct) (auto intro: vk_step.life rtranclp.rtrancl_into_rtrancl)

lemma demo_vk_init:
  "vk_init demo_venv (Inr \<lparr>rt_retries = 0, rt_interval = 0\<rparr>) (new_vk, ()) = (None, demo_up, ())"
  by (simp add: vk_init_def demo_venv_def connect_with_retry_def vk_connect_def new_vk_def demo_up_def Let_def)

lemma demo_close: "vk_close (demo_up\<lparr>vk_ops := f\<rparr>) = demo_down\<lparr>vk_ops := f\<rparr>"
  by (simp add: vk_close_def demo_up_def demo_down_def close_client_def)

lemma op_next_ops: "op_next conv rep (s\<lparr>vk_ops := f\<rparr>) o1 = op_next conv rep s o1"
  by (cases o1) simp_all

lemma may_answer_ops: "may_answer (s\<lparr>vk_ops := f\<rparr>) o1 rep = may_answer s o1 rep"
  by (cases o1) simp_all

lemma demo_ops_simps: "demo_ops o1 7 = Some o1" "(demo_ops o1)(7 \<mapsto> o2) = demo_ops o2"
  by (simp_all add: demo_ops_def)

lemma op_run:
  assumes "vk_run conv s0 (s\<lparr>vk_ops := demo_ops o1\<rparr>)" "may_answer s o1 rep"
    "op_next conv rep s o1 = o2"
  shows "vk_run conv s0 (s\<lparr>vk_ops := demo_ops o2\<rparr>)"
proof -
  have "vk_step conv (s\<lparr>vk_ops := demo_ops o1\<rparr>) (s\<lparr>vk_ops := demo_ops o2\<rparr>)"
    using vk_step.op [of "s\<lparr>vk_ops := demo_ops o1\<rparr>" 7 o1 rep conv] assms(2,3)
    by (simp add: op_next_ops may_answer_ops demo_ops_simps)
  with assms(1) show ?thesis
    by (rule rtranclp.rtrancl_into_rtrancl)
qed

lemma demo_started: "vk_run demo_vconv new_vk demo_up"
  using init_runs [OF _ demo_vk_init] by (intro life_is_run) (simp add: new_vk_def demo_up_def)

lemma demo_holding: "vk_run demo_vconv new_vk (demo_up\<lparr>vk_ops := demo_ops (Holding (CmdGet ''k'') 0)\<rparr>)"
proof -
  have "vk_run demo_vconv new_vk (demo_up\<lparr>vk_ops := demo_ops (Started (CmdGet ''k''))\<rparr>)"
    using demo_started vk_step.start [of demo_up 7 demo_vconv "CmdGet ''k''"]
    by (auto simp: demo_up_def demo_ops_def intro: rtranclp.rtrancl_into_rtrancl)
  then have "vk_run demo_vconv new_vk (demo_up\<lparr>vk_ops := demo_ops (FlagRead (CmdGet ''k''))\<rparr>)"
    by (rule op_run [where rep = "Message ''''"]) (simp_all add: demo_up_def)
  then show ?thesis
    by (rule op_run [where rep = "Message ''''"]) (simp_all add: demo_up_def)
qed

lemma demo_closed:
  "vk_run demo_vconv (demo_up\<lparr>vk_ops := f\<rparr>) (demo_down\<lparr>vk_ops := f\<rparr>)"
  using close_runs [of "demo_up\<lparr>vk_ops := f\<rparr>", unfolded demo_close]
  by (intro life_is_run) (simp add: demo_up_def demo_down_def)

theorem vk_clients_exact_witness: "vk_open demo_up = {0}"
  using vk_clients_exact [OF demo_started] by (simp add: acquire_def demo_up_def)

theorem closed_client_reported_witness:
  "(case vk_ops (demo_down\<lparr>vk_ops := demo_ops (Finished CacheClosed)\<rparr>) 7 of
      Some (Finished r) \<Rightarrow> r | _ \<Rightarrow> OkDone) = CacheClosed"
proof -
  let ?h = "demo_ops (Holding (CmdGet ''k'') 0)"
  have down: "vk_run demo_vconv new_vk (demo_down\<lparr>vk_ops := ?h\<rparr>)"
    using demo_holding demo_closed by (rule rtranclp_trans)
  have "vk_run demo_vconv (demo_down\<lparr>vk_ops := ?h\<rparr>)
      (demo_down\<lparr>vk_ops := demo_ops (Failing (CmdGet ''k'') 0 ''closing'')\<rparr>)"
    by (rule op_run [OF rtranclp.rtrancl_refl, where rep = "Refused ''closing''"]) (simp_all add: demo_down_def)
  then have run: "vk_run demo_vconv (demo_down\<lparr>vk_ops := ?h\<rparr>) (demo_down\<lparr>vk_ops := demo_ops (Finished CacheClosed)\<rparr>)"
    by (rule op_run [where rep = "Refused ''''"]) (simp_all add: demo_down_def demo_up_def)
  show ?thesis
    by (rule closed_client_reported [OF down _ _ run]) (simp_all add: demo_ops_def demo_down_def)
qed

theorem vk_init_close_refine_witness:
  "life_run new_vk (demo_up\<lparr>vk_life := Idle\<rparr>)"
  using vk_init_close_refine [OF _ demo_vk_init] by (simp add: new_vk_def)

end
