(* ===== verification/Http_Middleware.thy ===== *)
theory Http_Middleware
  imports Complex_Main Go_Strings
begin

text \<open>
  The middlewares of middleware.go that set response headers: SecurityHeaders and CacheControl with their
  options. The header of a response is a map from canonical names to the value that Set gave last; a
  middleware changes it and calls the next handler, any function of the request and the header.
\<close>

type_synonym header = "string \<rightharpoonup> string"

type_synonym ('q, 'r) http_handler = "'q \<Rightarrow> header \<Rightarrow> 'r"

definition header_set :: "string \<Rightarrow> string \<Rightarrow> header \<Rightarrow> header" where
  "header_set k v h = h(k \<mapsto> v)"

section \<open>SecurityHeaders\<close>

record security_options =
  so_content_type :: string
  so_frame :: string
  so_referrer :: string
  so_permissions :: string
  so_csp :: string
  so_sts :: string
  so_opener :: string
  so_resource :: string

datatype security_option =
    ContentTypeOptions string
  | FrameOptions string
  | ReferrerPolicy string
  | PermissionsPolicy string
  | ContentSecurityPolicy string
  | StrictTransportSecurity string
  | CrossOriginOpenerPolicy string
  | CrossOriginResourcePolicy string

fun apply_security_option :: "security_option \<Rightarrow> security_options \<Rightarrow> security_options" where
  "apply_security_option (ContentTypeOptions v) o1 = o1\<lparr>so_content_type := v\<rparr>"
| "apply_security_option (FrameOptions v) o1 = o1\<lparr>so_frame := v\<rparr>"
| "apply_security_option (ReferrerPolicy v) o1 = o1\<lparr>so_referrer := v\<rparr>"
| "apply_security_option (PermissionsPolicy v) o1 = o1\<lparr>so_permissions := v\<rparr>"
| "apply_security_option (ContentSecurityPolicy v) o1 = o1\<lparr>so_csp := v\<rparr>"
| "apply_security_option (StrictTransportSecurity v) o1 = o1\<lparr>so_sts := v\<rparr>"
| "apply_security_option (CrossOriginOpenerPolicy v) o1 = o1\<lparr>so_opener := v\<rparr>"
| "apply_security_option (CrossOriginResourcePolicy v) o1 = o1\<lparr>so_resource := v\<rparr>"

definition default_security_options :: security_options where
  "default_security_options =
     \<lparr>so_content_type = ''nosniff'', so_frame = ''DENY'', so_referrer = ''strict-origin-when-cross-origin'',
      so_permissions = ''camera=(), microphone=(), geolocation=()'', so_csp = '''', so_sts = '''',
      so_opener = '''', so_resource = ''''\<rparr>"

definition set_unless_empty :: "string \<Rightarrow> string \<Rightarrow> header \<Rightarrow> header" where
  "set_unless_empty k v h = (if v \<noteq> '''' then header_set k v h else h)"

definition security_headers ::
  "security_option list \<Rightarrow> ('q, 'r) http_handler \<Rightarrow> ('q, 'r) http_handler" where
  "security_headers opts =
     (let o1 = fold apply_security_option opts default_security_options in
      (\<lambda>next r h0.
        (let h1 = set_unless_empty ''X-Content-Type-Options'' (so_content_type o1) h0;
             h2 = set_unless_empty ''X-Frame-Options'' (so_frame o1) h1;
             h3 = set_unless_empty ''Referrer-Policy'' (so_referrer o1) h2;
             h4 = set_unless_empty ''Permissions-Policy'' (so_permissions o1) h3;
             h5 = set_unless_empty ''Content-Security-Policy'' (so_csp o1) h4;
             h6 = set_unless_empty ''Strict-Transport-Security'' (so_sts o1) h5;
             h7 = set_unless_empty ''Cross-Origin-Opener-Policy'' (so_opener o1) h6;
             h8 = set_unless_empty ''Cross-Origin-Resource-Policy'' (so_resource o1) h7 in
         next r h8)))"

section \<open>Seconds of a duration\<close>

text \<open>
  Duration.Seconds is the float64 sum of the whole seconds and of the nanoseconds over 1e9, and the code
  converts it to an int. A float64 has 53 bits: \<open>float64\<close> rounds a number between \<open>2 ^ -972\<close> and \<open>2 ^ 53\<close>,
  the range of these values, to the nearest one, ties to even.
\<close>

definition round_even :: "rat \<Rightarrow> int" where
  "round_even x =
     (let n = \<lfloor>x\<rfloor>; d = x - of_int n in
      if d < 1 / 2 then n else if d > 1 / 2 then n + 1 else if even n then n else n + 1)"

fun float_scale :: "nat \<Rightarrow> rat \<Rightarrow> rat \<Rightarrow> rat" where
  "float_scale 0 s x = s"
| "float_scale (Suc fuel) s x = (if x * s < 2 ^ 52 then float_scale fuel (2 * s) x else s)"

definition float64 :: "rat \<Rightarrow> rat" where
  "float64 x =
     (if x < 0 then - (let s = float_scale 1024 1 (- x) in of_int (round_even (- x * s)) / s)
      else if x = 0 then 0
      else (let s = float_scale 1024 1 x in of_int (round_even (x * s)) / s))"

definition go_quot :: "int \<Rightarrow> int \<Rightarrow> int" where
  "go_quot a b = sgn a * (\<bar>a\<bar> div b)"

definition go_rem :: "int \<Rightarrow> int \<Rightarrow> int" where
  "go_rem a b = sgn a * (\<bar>a\<bar> mod b)"

definition seconds :: "int \<Rightarrow> rat" where
  "seconds d = float64 (of_int (go_quot d 1000000000) + float64 (of_int (go_rem d 1000000000) / 1000000000))"

definition float_to_int :: "rat \<Rightarrow> int" where
  "float_to_int x = (if x < 0 then - \<lfloor>- x\<rfloor> else \<lfloor>x\<rfloor>)"

text \<open>The verb \<open>%d\<close>.\<close>

definition digit_char :: "nat \<Rightarrow> char" where
  "digit_char n = char_of (48 + n)"

fun show_nat :: "nat \<Rightarrow> string" where
  "show_nat n = (if n < 10 then [digit_char n] else show_nat (n div 10) @ [digit_char (n mod 10)])"

declare show_nat.simps [simp del]

definition show_int :: "int \<Rightarrow> string" where
  "show_int n = (if n < 0 then CHR ''-'' # show_nat (nat (- n)) else show_nat (nat n))"

section \<open>CacheControl\<close>

record cache_options =
  co_paths :: "string list"
  co_prefixes :: "string list"
  co_suffixes :: "string list"
  co_directives :: "string list"

definition should_cache_path :: "cache_options \<Rightarrow> string \<Rightarrow> bool" where
  "should_cache_path opt path =
     (if co_paths opt = [] \<and> co_prefixes opt = [] \<and> co_suffixes opt = [] then True
      else if path \<in> set (co_paths opt) then True
      else if \<exists>p\<in>set (co_prefixes opt). has_prefix path p then True
      else if \<exists>p\<in>set (co_suffixes opt). has_suffix path p then True
      else False)"

datatype cache_option =
    CachePath string
  | CachePaths "string list"
  | PathPrefix string
  | PathPrefixes "string list"
  | PathSuffix string
  | PathSuffixes "string list"
  | MaxAge int
  | SMaxAge int
  | NoCache
  | NoStore
  | NoTransform
  | MustRevalidate
  | ProxyRevalidate
  | MustUnderstand
  | Private
  | Public
  | Immutable
  | StaleWhileRevalidate int
  | StaleIfError int

definition timed :: "string \<Rightarrow> int \<Rightarrow> string" where
  "timed name d = name @ ''='' @ show_int (float_to_int (seconds d))"

definition add_directive :: "string \<Rightarrow> cache_options \<Rightarrow> cache_options" where
  "add_directive d opt = opt\<lparr>co_directives := co_directives opt @ [d]\<rparr>"

fun apply_cache_option :: "cache_option \<Rightarrow> cache_options \<Rightarrow> cache_options" where
  "apply_cache_option (CachePath p) opt = opt\<lparr>co_paths := co_paths opt @ [p]\<rparr>"
| "apply_cache_option (CachePaths ps) opt = opt\<lparr>co_paths := co_paths opt @ ps\<rparr>"
| "apply_cache_option (PathPrefix p) opt = opt\<lparr>co_prefixes := co_prefixes opt @ [p]\<rparr>"
| "apply_cache_option (PathPrefixes ps) opt = opt\<lparr>co_prefixes := co_prefixes opt @ ps\<rparr>"
| "apply_cache_option (PathSuffix p) opt = opt\<lparr>co_suffixes := co_suffixes opt @ [p]\<rparr>"
| "apply_cache_option (PathSuffixes ps) opt = opt\<lparr>co_suffixes := co_suffixes opt @ ps\<rparr>"
| "apply_cache_option (MaxAge d) opt = add_directive (timed ''max-age'' d) opt"
| "apply_cache_option (SMaxAge d) opt = add_directive (timed ''s-maxage'' d) opt"
| "apply_cache_option NoCache opt = add_directive ''no-cache'' opt"
| "apply_cache_option NoStore opt = add_directive ''no-store'' opt"
| "apply_cache_option NoTransform opt = add_directive ''no-transform'' opt"
| "apply_cache_option MustRevalidate opt = add_directive ''must-revalidate'' opt"
| "apply_cache_option ProxyRevalidate opt = add_directive ''proxy-revalidate'' opt"
| "apply_cache_option MustUnderstand opt = add_directive ''must-understand'' opt"
| "apply_cache_option Private opt = add_directive ''private'' opt"
| "apply_cache_option Public opt = add_directive ''public'' opt"
| "apply_cache_option Immutable opt = add_directive ''immutable'' opt"
| "apply_cache_option (StaleWhileRevalidate d) opt = add_directive (timed ''stale-while-revalidate'' d) opt"
| "apply_cache_option (StaleIfError d) opt = add_directive (timed ''stale-if-error'' d) opt"

definition no_cache_options :: cache_options where
  "no_cache_options = \<lparr>co_paths = [], co_prefixes = [], co_suffixes = [], co_directives = []\<rparr>"

definition cache_control ::
  "cache_option list \<Rightarrow> ('q \<Rightarrow> string) \<Rightarrow> ('q, 'r) http_handler \<Rightarrow> ('q, 'r) http_handler" where
  "cache_control opts url_path =
     (let opt = fold apply_cache_option opts no_cache_options in
      (\<lambda>next r h.
        next r
          (if should_cache_path opt (url_path r) \<and> co_directives opt \<noteq> [] then
             header_set ''Cache-Control'' (join_with '', '' (co_directives opt)) h
           else h)))"

end
