(* ===== verification/Http_Middleware_Properties.thy ===== *)
theory Http_Middleware_Properties
  imports Http_Middleware
begin

text \<open>
  What the header middlewares do to a response: SecurityHeaders sets the last value given for a name, and
  the Cache-Control header read back as a list of directives is what the options asked for.
\<close>

section \<open>Numbers\<close>

fun read_nat :: "nat \<Rightarrow> string \<Rightarrow> nat" where
  "read_nat acc [] = acc"
| "read_nat acc (c # s) = read_nat (acc * 10 + (byte c - 48)) s"

definition read_int :: "string \<Rightarrow> int" where
  "read_int s = (case s of c # r \<Rightarrow> if c = CHR ''-'' then - int (read_nat 0 r) else int (read_nat 0 s) | [] \<Rightarrow> 0)"

lemma read_nat_append: "read_nat acc (s @ t) = read_nat (read_nat acc s) t"
  by (induction s arbitrary: acc) simp_all

lemma byte_digit: "n < 10 \<Longrightarrow> byte (digit_char n) = 48 + n"
  by (simp add: byte_def digit_char_def)

lemma read_show_nat: "read_nat 0 (show_nat n) = n"
proof (induction n rule: show_nat.induct)
  case (1 n)
  show ?case
  proof (cases "n < 10")
    case True
    then show ?thesis
      by (simp add: show_nat.simps [of n] byte_digit)
  next
    case False
    then show ?thesis
      using "1.IH" by (simp add: show_nat.simps [of n] read_nat_append byte_digit)
  qed
qed

lemma show_nat_digits: "show_nat n \<noteq> [] \<and> (\<forall>c\<in>set (show_nat n). 48 \<le> byte c \<and> byte c < 58)"
proof (induction n rule: show_nat.induct)
  case (1 n)
  show ?case
  proof (cases "n < 10")
    case True
    then show ?thesis
      by (simp add: show_nat.simps [of n] byte_digit)
  next
    case False
    then show ?thesis
      using "1.IH" by (auto simp: show_nat.simps [of n] byte_digit)
  qed
qed

lemma show_nat_without:
  assumes "byte c < 48 \<or> 58 \<le> byte c"
  shows "c \<notin> set (show_nat n)"
  using show_nat_digits [of n] assms by auto

lemma show_int_without:
  assumes "byte c < 45 \<or> 58 \<le> byte c"
  shows "c \<notin> set (show_int n)"
proof -
  have "c \<noteq> CHR ''-''"
    using assms by (auto simp: byte_def)
  then show ?thesis
    using show_nat_without [of c] assms by (auto simp: show_int_def)
qed

lemma read_show_int: "read_int (show_int n) = n"
proof (cases "n < 0")
  case True
  then show ?thesis
    by (simp add: read_int_def show_int_def read_show_nat)
next
  case False
  have "CHR ''-'' \<notin> set (show_nat (nat n))"
    by (rule show_nat_without) (simp add: byte_def)
  then show ?thesis
    using False read_show_nat [of "nat n"] show_nat_digits [of "nat n"]
    by (cases "show_nat (nat n)") (auto simp: read_int_def show_int_def)
qed

section \<open>Durations\<close>

lemma round_even_int: "round_even (of_int n) = n"
  by (simp add: round_even_def)

lemma float_scale_power: "\<exists>k. float_scale fuel (2 ^ i) x = 2 ^ k"
proof (induction fuel arbitrary: i)
  case (Suc fuel)
  then show ?case
    using Suc [of "Suc i"] by auto
qed auto

lemma float64_int: "float64 (of_int n) = of_int n"
proof -
  have scaled: "(let s = float_scale 1024 1 (of_int m) in of_int (round_even (of_int m * s)) / s) = (of_int m :: rat)" for m
  proof -
    obtain k where "float_scale 1024 (2 ^ 0) (of_int m) = 2 ^ k"
      using float_scale_power by blast
    moreover have "of_int m * 2 ^ k = (of_int (m * 2 ^ k) :: rat)"
      by simp
    ultimately show ?thesis
      by (simp only: Let_def power_0 round_even_int) simp
  qed
  show ?thesis
    using scaled [of n] scaled [of "- n"] by (simp add: float64_def)
qed

lemma seconds_whole: "seconds (n * 1000000000) = of_int n"
proof -
  have "go_quot (n * 1000000000) 1000000000 = n" "go_rem (n * 1000000000) 1000000000 = 0"
    by (simp_all add: go_quot_def go_rem_def abs_mult sgn_mult sgn_mult_abs)
  then show ?thesis
    using float64_int [of n] float64_int [of 0] by (simp add: seconds_def)
qed

text \<open>
  A duration of whole seconds is given exactly. From \<open>2 ^ 24\<close> seconds on, half a year, the sum can round
  up to the next second.
\<close>

theorem whole_seconds_exact: "float_to_int (seconds (n * 1000000000)) = n"
  by (simp add: seconds_whole float_to_int_def)

theorem seconds_round_up: "float_to_int (seconds (2 ^ 24 * 1000000000 + 999999999)) = 2 ^ 24 + 1"
  by code_simp

section \<open>Cache-Control\<close>

text \<open>What an option asks for: a directive with its name and its seconds, or path filters.\<close>

fun directive_of :: "cache_option \<Rightarrow> (string \<times> int option) option" where
  "directive_of (MaxAge d) = Some (''max-age'', Some (float_to_int (seconds d)))"
| "directive_of (SMaxAge d) = Some (''s-maxage'', Some (float_to_int (seconds d)))"
| "directive_of (StaleWhileRevalidate d) = Some (''stale-while-revalidate'', Some (float_to_int (seconds d)))"
| "directive_of (StaleIfError d) = Some (''stale-if-error'', Some (float_to_int (seconds d)))"
| "directive_of NoCache = Some (''no-cache'', None)"
| "directive_of NoStore = Some (''no-store'', None)"
| "directive_of NoTransform = Some (''no-transform'', None)"
| "directive_of MustRevalidate = Some (''must-revalidate'', None)"
| "directive_of ProxyRevalidate = Some (''proxy-revalidate'', None)"
| "directive_of MustUnderstand = Some (''must-understand'', None)"
| "directive_of Private = Some (''private'', None)"
| "directive_of Public = Some (''public'', None)"
| "directive_of Immutable = Some (''immutable'', None)"
| "directive_of opt = None"

fun filters_of :: "cache_option \<Rightarrow> (string \<Rightarrow> bool) list" where
  "filters_of (CachePath p) = [\<lambda>path. path = p]"
| "filters_of (CachePaths ps) = map (\<lambda>p path. path = p) ps"
| "filters_of (PathPrefix p) = [\<lambda>path. has_prefix path p]"
| "filters_of (PathPrefixes ps) = map (\<lambda>p path. has_prefix path p) ps"
| "filters_of (PathSuffix p) = [\<lambda>path. has_suffix path p]"
| "filters_of (PathSuffixes ps) = map (\<lambda>p path. has_suffix path p) ps"
| "filters_of opt = []"

definition asked_for :: "cache_option list \<Rightarrow> (string \<times> int option) list" where
  "asked_for opts = List.map_filter directive_of opts"

definition path_matches :: "cache_option list \<Rightarrow> string \<Rightarrow> bool" where
  "path_matches opts path \<longleftrightarrow>
     concat (map filters_of opts) = [] \<or> (\<exists>f\<in>set (concat (map filters_of opts)). f path)"

text \<open>A recipient's reading of the header: directives between commas, a space in front dropped.\<close>

definition read_directive :: "string \<Rightarrow> string \<times> int option" where
  "read_directive s =
     (case cut (CHR ''='') (trim_left '' '' s) of None \<Rightarrow> (trim_left '' '' s, None)
      | Some (name, v) \<Rightarrow> (name, Some (read_int v)))"

definition read_cache_control :: "string \<Rightarrow> (string \<times> int option) list" where
  "read_cache_control v = map read_directive (split_at (CHR '','') v)"

fun show_directive :: "string \<times> int option \<Rightarrow> string" where
  "show_directive (name, None) = name"
| "show_directive (name, Some n) = name @ ''='' @ show_int n"

definition token :: "string \<Rightarrow> bool" where
  "token s \<longleftrightarrow> s \<noteq> [] \<and> (\<forall>c\<in>set s. c \<noteq> CHR '' '' \<and> c \<noteq> CHR '','' \<and> c \<noteq> CHR ''='')"

lemma directive_token: "directive_of opt = Some d \<Longrightarrow> token (fst d)"
  by (cases opt) (auto simp: token_def)

lemma shown_no_comma: "token (fst d) \<Longrightarrow> CHR '','' \<notin> set (show_directive d)"
  using show_int_without [of "CHR '',''"]
  by (cases d; cases "snd d") (auto simp: token_def byte_def)

lemma trim_token: "token s \<Longrightarrow> trim_left '' '' (s @ t) = s @ t \<and> trim_left '' '' (CHR '' '' # s @ t) = s @ t"
  by (cases s) (auto simp: token_def trim_left_def)

lemma read_shown:
  assumes "token (fst d)"
  shows "read_directive (show_directive d) = d \<and> read_directive (CHR '' '' # show_directive d) = d"
proof (cases d)
  case (Pair name v)
  have absent: "CHR ''='' \<notin> set name"
    using assms Pair by (auto simp: token_def)
  show ?thesis
  proof (cases v)
    case None
    have "cut (CHR ''='') name = None"
      using absent cut_None by metis
    then show ?thesis
      using trim_token [of name "[]"] assms Pair None by (simp add: read_directive_def)
  next
    case (Some n)
    have "cut (CHR ''='') (name @ ''='' @ show_int n) = Some (name, show_int n)"
      using absent cut_Some by fastforce
    then show ?thesis
      using trim_token [of name "''='' @ show_int n"] assms Pair Some
      by (simp add: read_directive_def read_show_int)
  qed
qed

lemma read_joined:
  "ds \<noteq> [] \<Longrightarrow> \<forall>d\<in>set ds. token (fst d) \<Longrightarrow>
     read_cache_control (join_with '', '' (map show_directive ds)) = ds \<and>
     read_cache_control (CHR '' '' # join_with '', '' (map show_directive ds)) = ds"
proof (induction ds rule: induct_list012)
  case (2 d)
  then show ?case
    using shown_no_comma [of d] read_shown [of d]
    by (auto simp: read_cache_control_def split_at_absent)
next
  case (3 d e ds)
  let ?rest = "CHR '' '' # join_with '', '' (map show_directive (e # ds))"
  have "split_at (CHR '','') (show_directive d @ CHR '','' # ?rest) =
      show_directive d # split_at (CHR '','') ?rest"
    using 3 shown_no_comma [of d] by (intro split_at_sep) simp
  moreover have "split_at (CHR '','') ((CHR '' '' # show_directive d) @ CHR '','' # ?rest) =
      (CHR '' '' # show_directive d) # split_at (CHR '','') ?rest"
    using 3 shown_no_comma [of d] by (intro split_at_sep) simp
  moreover have "read_cache_control ?rest = e # ds"
    using "3.IH"(2) "3.prems" by simp
  ultimately show ?case
    using read_shown [of d] "3.prems" by (simp add: read_cache_control_def)
qed simp

text \<open>Each option adds what it asks for to the options built so far.\<close>

lemma apply_adds:
  "co_directives (apply_cache_option opt c) =
     co_directives c @ (case directive_of opt of None \<Rightarrow> [] | Some d \<Rightarrow> [show_directive d])"
  by (cases opt) (simp_all add: add_directive_def timed_def)

lemma built_directives:
  "co_directives (fold apply_cache_option opts c) = co_directives c @ map show_directive (asked_for opts)"
  by (induction opts arbitrary: c) (simp_all add: asked_for_def apply_adds map_filter_simps split: option.splits)

definition option_filters :: "cache_options \<Rightarrow> (string \<Rightarrow> bool) set" where
  "option_filters c =
     (\<lambda>p path. path = p) ` set (co_paths c) \<union> (\<lambda>p path. has_prefix path p) ` set (co_prefixes c) \<union>
     (\<lambda>p path. has_suffix path p) ` set (co_suffixes c)"

lemma built_filters:
  "option_filters (fold apply_cache_option opts c) = option_filters c \<union> set (concat (map filters_of opts))"
proof (induction opts arbitrary: c)
  case (Cons opt opts)
  have "option_filters (apply_cache_option opt c) = option_filters c \<union> set (filters_of opt)"
    by (cases opt) (auto simp: option_filters_def add_directive_def)
  then show ?case
    using Cons by (simp add: Un_assoc)
qed simp

lemma should_cache_filters:
  "should_cache_path c path \<longleftrightarrow> option_filters c = {} \<or> (\<exists>f\<in>option_filters c. f path)"
  by (auto simp: should_cache_path_def option_filters_def)

lemma should_cache_matches:
  "should_cache_path (fold apply_cache_option opts no_cache_options) path = path_matches opts path"
  by (simp add: should_cache_filters built_filters path_matches_def)
    (simp add: option_filters_def no_cache_options_def)

text \<open>
  CacheControl changes no other header and always calls the next handler. For a path that a filter
  admits, or any path without filters, the header reads back as the directives of the options in order.
\<close>

theorem cache_control_roundtrip:
  fixes serve :: "('q, 'r) http_handler"
  shows "\<exists>h'. cache_control opts url serve r h = serve r h' \<and> h'(''Cache-Control'' := None) = h(''Cache-Control'' := None) \<and>
    (if path_matches opts (url r) \<and> asked_for opts \<noteq> []
     then \<exists>v. h' ''Cache-Control'' = Some v \<and> read_cache_control v = asked_for opts
     else h' ''Cache-Control'' = h ''Cache-Control'')"
proof -
  let ?opt = "fold apply_cache_option opts no_cache_options"
  let ?v = "join_with '', '' (co_directives ?opt)"
  have ds: "co_directives ?opt = map show_directive (asked_for opts)"
    by (simp add: built_directives) (simp add: no_cache_options_def)
  have "\<forall>d\<in>set (asked_for opts). token (fst d)"
    by (auto simp: asked_for_def List.map_filter_def intro: directive_token)
  then have "read_cache_control ?v = asked_for opts" if "asked_for opts \<noteq> []"
    using that read_joined ds by simp
  then show ?thesis
    using ds by (auto simp: cache_control_def Let_def header_set_def should_cache_matches)
qed

section \<open>Security headers\<close>

fun named_value :: "security_option \<Rightarrow> string \<times> string" where
  "named_value (ContentTypeOptions v) = (''X-Content-Type-Options'', v)"
| "named_value (FrameOptions v) = (''X-Frame-Options'', v)"
| "named_value (ReferrerPolicy v) = (''Referrer-Policy'', v)"
| "named_value (PermissionsPolicy v) = (''Permissions-Policy'', v)"
| "named_value (ContentSecurityPolicy v) = (''Content-Security-Policy'', v)"
| "named_value (StrictTransportSecurity v) = (''Strict-Transport-Security'', v)"
| "named_value (CrossOriginOpenerPolicy v) = (''Cross-Origin-Opener-Policy'', v)"
| "named_value (CrossOriginResourcePolicy v) = (''Cross-Origin-Resource-Policy'', v)"

definition security_defaults :: "security_option list" where
  "security_defaults =
     [ContentTypeOptions ''nosniff'', FrameOptions ''DENY'', ReferrerPolicy ''strict-origin-when-cross-origin'',
      PermissionsPolicy ''camera=(), microphone=(), geolocation=()'']"

text \<open>The last value given for a name, starting from the defaults.\<close>

definition last_value :: "security_option list \<Rightarrow> string \<Rightarrow> string option" where
  "last_value opts k = map_of (rev (map named_value (security_defaults @ opts))) k"

text \<open>The options as a map from header names.\<close>

definition option_values :: "security_options \<Rightarrow> (string \<times> string) list" where
  "option_values o1 =
     [(''X-Content-Type-Options'', so_content_type o1), (''X-Frame-Options'', so_frame o1),
      (''Referrer-Policy'', so_referrer o1), (''Permissions-Policy'', so_permissions o1),
      (''Content-Security-Policy'', so_csp o1), (''Strict-Transport-Security'', so_sts o1),
      (''Cross-Origin-Opener-Policy'', so_opener o1), (''Cross-Origin-Resource-Policy'', so_resource o1)]"

lemma apply_updates:
  "map_of (option_values (apply_security_option opt o1)) =
     (map_of (option_values o1))(fst (named_value opt) \<mapsto> snd (named_value opt))"
  by (cases opt) (auto simp: option_values_def fun_eq_iff)

lemma fold_updates:
  "map_of (option_values (fold apply_security_option opts o1)) =
     map_of (option_values o1) ++ map_of (rev (map named_value opts))"
  by (induction opts arbitrary: o1) (simp_all add: apply_updates map_add_def fun_eq_iff split: option.splits)

lemma security_headers_fold:
  "security_headers opts serve r h =
     serve r (fold (\<lambda>(k, v) h. set_unless_empty k v h)
       (option_values (fold apply_security_option opts default_security_options)) h)"
  by (simp add: security_headers_def option_values_def Let_def)

lemma set_all:
  "distinct (map fst kvs) \<Longrightarrow>
     fold (\<lambda>(k, v) h. set_unless_empty k v h) kvs h =
       h ++ (\<lambda>k. case map_of kvs k of Some v \<Rightarrow> if v = '''' then None else Some v | None \<Rightarrow> None)"
proof (induction kvs arbitrary: h)
  case (Cons kv kvs)
  have "fst kv \<notin> dom (map_of kvs)"
    using Cons.prems by (simp add: dom_map_of_conv_image_fst)
  then have "map_of kvs (fst kv) = None"
    by blast
  then show ?case
    using Cons by (auto simp: set_unless_empty_def header_set_def map_add_def fun_eq_iff split: option.splits prod.splits)
qed simp

text \<open>
  SecurityHeaders gives each header the last value the options have for it, or its default; an empty
  value leaves the header as it was.
\<close>

theorem security_headers_last_wins:
  fixes serve :: "('q, 'r) http_handler"
  shows "security_headers opts serve r h =
    serve r (\<lambda>k. case last_value opts k of Some v \<Rightarrow> if v = '''' then h k else Some v | None \<Rightarrow> h k)"
proof -
  let ?o = "fold apply_security_option opts default_security_options"
  let ?given = "map_of (rev (map named_value opts))"
  have distinct: "distinct (map fst (option_values o1))" for o1
    by (simp add: option_values_def)
  have vals: "map_of (option_values ?o) k = (map_of (option_values default_security_options) ++ ?given) k" for k
    by (simp add: fold_updates)
  have "last_value opts k = (map_of (rev (map named_value security_defaults)) ++ ?given) k" for k
    by (simp add: last_value_def)
  moreover have "(map_of (option_values default_security_options) k =
      (case map_of (rev (map named_value security_defaults)) k of None \<Rightarrow> Some '''' | v \<Rightarrow> v)) \<or>
    (map_of (option_values default_security_options) k = map_of (rev (map named_value security_defaults)) k)" for k
    by (simp add: option_values_def default_security_options_def security_defaults_def)
  ultimately have "(case map_of (option_values ?o) k of Some v \<Rightarrow> if v = '''' then None else Some v | None \<Rightarrow> None) =
      (case last_value opts k of Some v \<Rightarrow> if v = '''' then None else Some v | None \<Rightarrow> None)" for k
    using vals by (fastforce simp: map_add_def split: option.splits)
  then show ?thesis
    by (auto simp: security_headers_fold set_all distinct map_add_def fun_eq_iff
        intro!: arg_cong [where f = "serve r"] split: option.splits)
qed

end
