(* ===== verification/Template_Stores.thy ===== *)
theory Template_Stores
  imports Go_Strings "HOL-Library.List_Lexorder" "HOL-Library.Char_ord"
begin

text \<open>
  The template stores (template/memory, fs, dir, db and composite): each gives templates by name, lists
  names in order and, unless it is read-only, takes registrations. A file system is the snapshot \<open>disk\<close>
  of what the calls on it give. Contents are strings of bytes.
\<close>

datatype 'e tpl_error = TplNotFound | TplClosed | TplReadOnly | TplFailed 'e

type_synonym ('e, 'a) tpl_result = "('e tpl_error, 'a) result"

section \<open>Memory\<close>

text \<open>A Go map, and sort.Strings of its keys.\<close>

type_synonym mem_store = "(string \<times> string) list"

definition new_mem_store :: mem_store where
  "new_mem_store = []"

definition mem_get :: "mem_store \<Rightarrow> string \<Rightarrow> ('e, string) tpl_result" where
  "mem_get s name = (case map_of s name of None \<Rightarrow> Inl TplNotFound | Some c \<Rightarrow> Inr c)"

definition mem_list :: "mem_store \<Rightarrow> ('e, string list) tpl_result" where
  "mem_list s = Inr (sort (map fst s))"

definition mem_register :: "string \<Rightarrow> string \<Rightarrow> mem_store \<Rightarrow> 'e tpl_error option \<times> mem_store" where
  "mem_register name content s = (None, AList.update name content s)"

section \<open>File systems\<close>

text \<open>
  What a file system gives: the error of opening its root, the walk, which is the entries it visits with a
  flag for directories and the error it ends with, and the contents of what can be read.
\<close>

record 'e disk =
  dk_open :: "'e option"
  dk_walk :: "(string \<times> bool) list"
  dk_walk_err :: "'e option"
  dk_read :: "string \<rightharpoonup> string"

text \<open>filepath.Ext: the suffix from the last dot of the last element on.\<close>

definition file_ext :: "string \<Rightarrow> string" where
  "file_ext path =
     (let base = rev (takeWhile (\<lambda>c. c \<noteq> CHR ''/'') (rev path)) in
      if CHR ''.'' \<in> set base then CHR ''.'' # rev (takeWhile (\<lambda>c. c \<noteq> CHR ''.'') (rev base)) else [])"

definition html_files :: "(string \<times> bool) list \<Rightarrow> string list" where
  "html_files walk = map fst (filter (\<lambda>(path, is_dir). \<not> is_dir \<and> file_ext path = ''.html'') walk)"

text \<open>
  util.RegisterFS into a store with operation \<open>reg\<close>: files in the order of the walk, up to the first error
  of the walk, a read or a registration.
\<close>

fun register_files ::
  "'e disk \<Rightarrow> (string \<Rightarrow> string \<Rightarrow> 's \<Rightarrow> 'e tpl_error option \<times> 's) \<Rightarrow> 'e \<Rightarrow> string list \<Rightarrow> 's
    \<Rightarrow> 'e tpl_error option \<times> 's" where
  "register_files d reg read_err [] s = (map_option TplFailed (dk_walk_err d), s)"
| "register_files d reg read_err (p # ps) s =
     (case dk_read d p of
        None \<Rightarrow> (Some (TplFailed read_err), s)
      | Some c \<Rightarrow>
          (case reg p c s of
             (Some e, s1) \<Rightarrow> (Some e, s1)
           | (None, s1) \<Rightarrow> register_files d reg read_err ps s1))"

definition register_fs ::
  "'e disk \<Rightarrow> (string \<Rightarrow> string \<Rightarrow> 's \<Rightarrow> 'e tpl_error option \<times> 's) \<Rightarrow> 'e \<Rightarrow> 's
    \<Rightarrow> 'e tpl_error option \<times> 's" where
  "register_fs d reg read_err s = register_files d reg read_err (html_files (dk_walk d)) s"

text \<open>The read-only store over a file system.\<close>

definition fs_get :: "'e disk \<Rightarrow> string \<Rightarrow> ('e, string) tpl_result" where
  "fs_get d name = (case dk_read d name of None \<Rightarrow> Inl TplNotFound | Some c \<Rightarrow> Inr c)"

definition fs_list :: "'e disk \<Rightarrow> ('e, string list) tpl_result" where
  "fs_list d = (case dk_walk_err d of Some e \<Rightarrow> Inl (TplFailed e) | None \<Rightarrow> Inr (sort (html_files (dk_walk d))))"

definition fs_register :: "string \<Rightarrow> string \<Rightarrow> 'e disk \<Rightarrow> 'e tpl_error option \<times> 'e disk" where
  "fs_register name content d = (Some TplReadOnly, d)"

section \<open>Directory\<close>

text \<open>The root is opened on first use; a failure to open it is kept.\<close>

record 'e dir_store =
  tr_overlay :: "(string \<times> string) list"
  tr_root :: bool
  tr_open_err :: "'e option"
  tr_closed :: bool

definition new_dir_store :: "'e dir_store" where
  "new_dir_store = \<lparr>tr_overlay = [], tr_root = False, tr_open_err = None, tr_closed = False\<rparr>"

definition dir_open :: "'e disk \<Rightarrow> 'e dir_store \<Rightarrow> 'e tpl_error option \<times> 'e dir_store" where
  "dir_open d s =
     (if tr_closed s then (Some TplClosed, s)
      else
        (let s1 = (if \<not> tr_root s \<and> tr_open_err s = None
                   then s\<lparr>tr_root := dk_open d = None, tr_open_err := dk_open d\<rparr> else s) in
         (map_option TplFailed (tr_open_err s1), s1)))"

definition with_root ::
  "'e disk \<Rightarrow> ('e dir_store \<Rightarrow> ('e, 'a) tpl_result) \<Rightarrow> 'e dir_store \<Rightarrow> ('e, 'a) tpl_result \<times> 'e dir_store" where
  "with_root d f s =
     (case dir_open d s of
        (Some e, s1) \<Rightarrow> (Inl e, s1)
      | (None, s1) \<Rightarrow> if tr_closed s1 then (Inl TplClosed, s1) else (f s1, s1))"

definition dir_get :: "'e disk \<Rightarrow> string \<Rightarrow> 'e dir_store \<Rightarrow> ('e, string) tpl_result \<times> 'e dir_store" where
  "dir_get d name s =
     (if tr_closed s then (Inl TplClosed, s)
      else case map_of (tr_overlay s) name of
        Some c \<Rightarrow> (Inr c, s)
      | None \<Rightarrow> with_root d (\<lambda>s1. case dk_read d name of None \<Rightarrow> Inl TplNotFound | Some c \<Rightarrow> Inr c) s)"

text \<open>List: the set of names on disk and in the overlay, sorted; the error of the walk is ignored.\<close>

definition dir_list :: "'e disk \<Rightarrow> 'e dir_store \<Rightarrow> ('e, string list) tpl_result \<times> 'e dir_store" where
  "dir_list d s =
     with_root d (\<lambda>s1. Inr (sort (remdups (html_files (dk_walk d) @ map fst (tr_overlay s1))))) s"

definition dir_register :: "string \<Rightarrow> string \<Rightarrow> 'e dir_store \<Rightarrow> 'e tpl_error option \<times> 'e dir_store" where
  "dir_register name content s =
     (if tr_closed s then (Some TplClosed, s)
      else (None, s\<lparr>tr_overlay := AList.update name content (tr_overlay s)\<rparr>))"

definition dir_register_fs :: "'e disk \<Rightarrow> 'e \<Rightarrow> 'e dir_store \<Rightarrow> 'e tpl_error option \<times> 'e dir_store" where
  "dir_register_fs d read_err s =
     (if tr_closed s then (Some TplClosed, s) else register_fs d dir_register read_err s)"

text \<open>Close; the error of closing the root is an argument.\<close>

definition dir_close :: "'e option \<Rightarrow> 'e dir_store \<Rightarrow> 'e tpl_error option \<times> 'e dir_store" where
  "dir_close close_err s =
     (if tr_closed s then (None, s)
      else
        (if tr_root s then map_option TplFailed close_err else None,
         s\<lparr>tr_closed := True, tr_overlay := [], tr_root := False\<rparr>))"

section \<open>Database\<close>

text \<open>
  The table is a list of rows; a statement fails with the error given. GetTemplateContent, ListTemplates,
  UpsertTemplate, TemplateExists and DeleteTemplate are the statements of the queries.
\<close>

record tpl_row =
  tp_namespace :: string
  tp_name :: string
  tp_content :: string

definition row_is :: "string \<Rightarrow> string \<Rightarrow> tpl_row \<Rightarrow> bool" where
  "row_is ns name r \<longleftrightarrow> tp_namespace r = ns \<and> tp_name r = name"

definition get_template_content :: "string \<Rightarrow> string \<Rightarrow> tpl_row list \<Rightarrow> string option" where
  "get_template_content ns name t = map_option tp_content (find (row_is ns name) t)"

definition list_templates :: "string \<Rightarrow> tpl_row list \<Rightarrow> string list" where
  "list_templates ns t = sort (map tp_name (filter (\<lambda>r. tp_namespace r = ns) t))"

definition upsert_template :: "string \<Rightarrow> string \<Rightarrow> string \<Rightarrow> tpl_row list \<Rightarrow> tpl_row list" where
  "upsert_template ns name content t =
     (if find (row_is ns name) t = None
      then t @ [\<lparr>tp_namespace = ns, tp_name = name, tp_content = content\<rparr>]
      else map (\<lambda>r. if row_is ns name r then r\<lparr>tp_content := content\<rparr> else r) t)"

definition delete_template :: "string \<Rightarrow> string \<Rightarrow> tpl_row list \<Rightarrow> nat \<times> tpl_row list" where
  "delete_template ns name t =
     (length (filter (row_is ns name) t), filter (\<lambda>r. \<not> row_is ns name r) t)"

definition tdb_get :: "'e option \<Rightarrow> string \<Rightarrow> tpl_row list \<Rightarrow> string \<Rightarrow> ('e, string) tpl_result" where
  "tdb_get fault ns t name =
     (case fault of
        Some e \<Rightarrow> Inl (TplFailed e)
      | None \<Rightarrow> (case get_template_content ns name t of None \<Rightarrow> Inl TplNotFound | Some c \<Rightarrow> Inr c))"

definition tdb_list :: "'e option \<Rightarrow> string \<Rightarrow> tpl_row list \<Rightarrow> ('e, string list) tpl_result" where
  "tdb_list fault ns t = (case fault of Some e \<Rightarrow> Inl (TplFailed e) | None \<Rightarrow> Inr (list_templates ns t))"

definition tdb_register ::
  "'e option \<Rightarrow> string \<Rightarrow> string \<Rightarrow> string \<Rightarrow> tpl_row list \<Rightarrow> 'e tpl_error option \<times> tpl_row list" where
  "tdb_register fault ns name content t =
     (case fault of Some e \<Rightarrow> (Some (TplFailed e), t) | None \<Rightarrow> (None, upsert_template ns name content t))"

definition tdb_exists :: "'e option \<Rightarrow> string \<Rightarrow> tpl_row list \<Rightarrow> string \<Rightarrow> ('e, bool) tpl_result" where
  "tdb_exists fault ns t name =
     (case fault of Some e \<Rightarrow> Inl (TplFailed e) | None \<Rightarrow> Inr (find (row_is ns name) t \<noteq> None))"

definition tdb_delete ::
  "'e option \<Rightarrow> string \<Rightarrow> string \<Rightarrow> tpl_row list \<Rightarrow> 'e tpl_error option \<times> tpl_row list" where
  "tdb_delete fault ns name t =
     (case fault of
        Some e \<Rightarrow> (Some (TplFailed e), t)
      | None \<Rightarrow>
          (case delete_template ns name t of
             (n, t1) \<Rightarrow> (if n = 0 then Some TplNotFound else None, t1)))"

section \<open>Composite\<close>

text \<open>Over what the writable provider and the readers answer, in their order.\<close>

fun first_found :: "('e, 'a) tpl_result list \<Rightarrow> ('e, 'a) tpl_result" where
  "first_found [] = Inl TplNotFound"
| "first_found (r # rs) = (case r of Inr c \<Rightarrow> Inr c | Inl e \<Rightarrow> first_found rs)"

definition composite_get :: "('e, string) tpl_result \<Rightarrow> ('e, string) tpl_result list \<Rightarrow> ('e, string) tpl_result" where
  "composite_get w rs = first_found (w # rs)"

definition listed :: "('e, string list) tpl_result \<Rightarrow> string list" where
  "listed r = (case r of Inl e \<Rightarrow> [] | Inr names \<Rightarrow> names)"

definition first_err :: "('e, 'a) tpl_result list \<Rightarrow> 'e tpl_error option" where
  "first_err rs = (case find (\<lambda>r. \<not> is_ok r) rs of Some (Inl e) \<Rightarrow> Some e | _ \<Rightarrow> None)"

definition composite_list ::
  "('e, string list) tpl_result \<Rightarrow> ('e, string list) tpl_result list \<Rightarrow> ('e, string list) tpl_result" where
  "composite_list w rs =
     (let seen = remdups (concat (map listed (w # rs))) in
      case (seen, first_err (w # rs)) of
        ([], Some e) \<Rightarrow> Inl e
      | _ \<Rightarrow> Inr (sort seen))"

end
