(* ===== verification/Ui_Engine.thy ===== *)
theory Ui_Engine
  imports Template_Stores
begin

text \<open>
  ui/render.go, ui/static.go and the checks of ui/config.go: the engine that compiles the templates of a
  provider into a cache of pages, rendering into a response, and the guard in front of static files. The
  engine is a value with the fields its mutex guards; Build has one critical section that reads the
  functions and one that swaps its result in, and what runs between them is written out as steps.
  html/template is a record of parameters: whether a text parses after others, and what executing a
  template writes.
\<close>

section \<open>Templates\<close>

text \<open>
  A compiled template: the functions it was compiled with and the texts parsed into it, in order.
\<close>

record 'f compiled =
  ct_funcs :: "(string \<times> 'f) list"
  ct_texts :: "string list"

record ('f, 'd, 'e) html_template =
  ht_parse :: "'f compiled \<Rightarrow> string \<Rightarrow> 'e option"
  ht_execute :: "'f compiled \<Rightarrow> string \<Rightarrow> 'd \<Rightarrow> string \<times> 'e option"

record 'e provider =
  pv_list :: "('e, string list) tpl_result"
  pv_get :: "string \<Rightarrow> ('e, string) tpl_result"

datatype 'e ui_error =
    ListFailed "'e tpl_error"
  | LoadFailed string "'e tpl_error"
  | ParseFailed string 'e
  | NoTemplate string
  | ExecFailed string 'e
  | WriteFailed string 'e
  | UiClosed
  | NoEngine

record template_set =
  ts_layouts :: "(string \<times> string) list"
  ts_partials :: "(string \<times> string) list"
  ts_pages :: "string list"

definition empty_set :: template_set where
  "empty_set = \<lparr>ts_layouts = [], ts_partials = [], ts_pages = []\<rparr>"

definition classify :: "string \<times> string \<Rightarrow> template_set \<Rightarrow> template_set" where
  "classify nc ts =
     (if has_prefix (fst nc) ''layouts/'' then ts\<lparr>ts_layouts := ts_layouts ts @ [nc]\<rparr>
      else if has_prefix (fst nc) ''partials/'' then ts\<lparr>ts_partials := ts_partials ts @ [nc]\<rparr>
      else ts\<lparr>ts_pages := ts_pages ts @ [fst nc]\<rparr>)"

definition page_key :: "string \<Rightarrow> string" where
  "page_key name = trim_suffix name ''.html''"

section \<open>Build\<close>

fun load_templates :: "'e provider \<Rightarrow> string list \<Rightarrow> template_set \<Rightarrow> 'e ui_error + template_set" where
  "load_templates pv [] ts = Inr ts"
| "load_templates pv (n # ns) ts =
     (case pv_get pv n of
        Inl e \<Rightarrow> Inl (LoadFailed n e)
      | Inr c \<Rightarrow> load_templates pv ns (classify (n, c) ts))"

definition load_set :: "'e provider \<Rightarrow> 'e ui_error + template_set" where
  "load_set pv =
     (case pv_list pv of Inl e \<Rightarrow> Inl (ListFailed e) | Inr names \<Rightarrow> load_templates pv names empty_set)"

text \<open>Parsing texts one after the other into a template.\<close>

fun parse_all ::
  "('f, 'd, 'e) html_template \<Rightarrow> 'f compiled \<Rightarrow> (string \<times> string) list \<Rightarrow> 'e ui_error + 'f compiled" where
  "parse_all ht t [] = Inr t"
| "parse_all ht t ((n, c) # ncs) =
     (case ht_parse ht t c of
        Some e \<Rightarrow> Inl (ParseFailed n e)
      | None \<Rightarrow> parse_all ht (t\<lparr>ct_texts := ct_texts t @ [c]\<rparr>) ncs)"

text \<open>compile reads the page once more.\<close>

definition compile ::
  "('f, 'd, 'e) html_template \<Rightarrow> 'e provider \<Rightarrow> template_set \<Rightarrow> (string \<times> 'f) list \<Rightarrow> string
    \<Rightarrow> 'e ui_error + 'f compiled" where
  "compile ht pv ts funcs page =
     (case parse_all ht \<lparr>ct_funcs = funcs, ct_texts = []\<rparr> (ts_layouts ts) of
        Inl e \<Rightarrow> Inl e
      | Inr t1 \<Rightarrow>
          (case parse_all ht t1 (ts_partials ts) of
             Inl e \<Rightarrow> Inl e
           | Inr t2 \<Rightarrow>
               (case pv_get pv page of
                  Inl e \<Rightarrow> Inl (LoadFailed page e)
                | Inr c \<Rightarrow> parse_all ht t2 [(page, c)])))"

fun compile_pages ::
  "('f, 'd, 'e) html_template \<Rightarrow> 'e provider \<Rightarrow> template_set \<Rightarrow> (string \<times> 'f) list \<Rightarrow> string list
    \<Rightarrow> (string \<rightharpoonup> 'f compiled) \<Rightarrow> 'e ui_error + (string \<rightharpoonup> 'f compiled)" where
  "compile_pages ht pv ts funcs [] cache = Inr cache"
| "compile_pages ht pv ts funcs (p # ps) cache =
     (case compile ht pv ts funcs p of
        Inl e \<Rightarrow> Inl e
      | Inr t \<Rightarrow> compile_pages ht pv ts funcs ps (cache(page_key p \<mapsto> t)))"

record 'f engine =
  en_funcs :: "(string \<times> 'f) list"
  en_cache :: "string \<rightharpoonup> 'f compiled"
  en_layout :: string
  en_dev :: bool
  en_built :: bool
  en_has_layouts :: bool

definition new_engine :: "(string \<times> 'f) list \<Rightarrow> string \<Rightarrow> bool \<Rightarrow> 'f engine" where
  "new_engine funcs layout dev =
     \<lparr>en_funcs = funcs, en_cache = (\<lambda>_. None), en_layout = (if layout = '''' then ''base'' else layout),
      en_dev = dev, en_built = False, en_has_layouts = False\<rparr>"

definition add_funcs :: "(string \<times> 'f) list \<Rightarrow> 'f engine \<Rightarrow> 'f engine" where
  "add_funcs fs e = e\<lparr>en_funcs := fold (\<lambda>(k, v). AList.update k v) fs (en_funcs e), en_built := False\<rparr>"

text \<open>
  What Build computes from the templates and a snapshot of the functions, and the swap at its end.
\<close>

definition build_result ::
  "('f, 'd, 'e) html_template \<Rightarrow> 'e provider \<Rightarrow> template_set \<Rightarrow> (string \<times> 'f) list
    \<Rightarrow> 'e ui_error + (string \<rightharpoonup> 'f compiled) \<times> bool" where
  "build_result ht pv ts funcs =
     (case compile_pages ht pv ts funcs (ts_pages ts) (\<lambda>_. None) of
        Inl e \<Rightarrow> Inl e
      | Inr cache \<Rightarrow> Inr (cache, ts_layouts ts \<noteq> []))"

definition swap_in :: "(string \<rightharpoonup> 'f compiled) \<times> bool \<Rightarrow> 'f engine \<Rightarrow> 'f engine" where
  "swap_in r e = e\<lparr>en_cache := fst r, en_has_layouts := snd r, en_built := True\<rparr>"

definition build_engine ::
  "('f, 'd, 'e) html_template \<Rightarrow> 'e provider \<Rightarrow> 'f engine \<Rightarrow> 'e ui_error option \<times> 'f engine" where
  "build_engine ht pv e =
     (case load_set pv of
        Inl err \<Rightarrow> (Some err, e)
      | Inr ts \<Rightarrow>
          (case build_result ht pv ts (en_funcs e) of
             Inl err \<Rightarrow> (Some err, e)
           | Inr r \<Rightarrow> (None, swap_in r e)))"

section \<open>Rendering\<close>

definition lookup_page ::
  "('f, 'd, 'e) html_template \<Rightarrow> 'e provider \<Rightarrow> string \<Rightarrow> 'f engine
    \<Rightarrow> ('e ui_error + 'f compiled \<times> bool) \<times> 'f engine" where
  "lookup_page ht pv name e =
     (case (if \<not> en_built e \<or> en_dev e then build_engine ht pv e else (None, e)) of
        (Some err, e1) \<Rightarrow> (Inl err, e1)
      | (None, e1) \<Rightarrow>
          (case en_cache e1 name of
             None \<Rightarrow> (Inl (NoTemplate name), e1)
           | Some t \<Rightarrow> (Inr (t, en_has_layouts e1), e1)))"

text \<open>
  A response: status and content type once they are sent, and the bytes. Writing a body that is not empty
  sends the status, 200 by default, and as many bytes as the connection takes.
\<close>

record ui_response =
  ur_status :: "int option"
  ur_ctype :: "string option"
  ur_body :: string

definition write_body :: "(string \<Rightarrow> nat \<times> 'e option) \<Rightarrow> string \<Rightarrow> ui_response \<Rightarrow> 'e option \<times> ui_response" where
  "write_body wire s w =
     (if s = [] then (None, w)
      else case wire s of
        (n, e) \<Rightarrow>
          (e, w\<lparr>ur_status := Some (case ur_status w of None \<Rightarrow> 200 | Some st \<Rightarrow> st),
                 ur_body := ur_body w @ take n s\<rparr>))"

definition write_header :: "int \<Rightarrow> ui_response \<Rightarrow> ui_response" where
  "write_header st w = (if ur_status w = None then w\<lparr>ur_status := Some st\<rparr> else w)"

definition set_html :: "ui_response \<Rightarrow> ui_response" where
  "set_html w = (if ur_status w = None then w\<lparr>ur_ctype := Some ''text/html; charset=utf-8''\<rparr> else w)"

definition render_with_status ::
  "('f, 'd, 'e) html_template \<Rightarrow> 'e provider \<Rightarrow> (string \<Rightarrow> nat \<times> 'e option) \<Rightarrow> int \<Rightarrow> string \<Rightarrow> 'd
    \<Rightarrow> ui_response \<Rightarrow> 'f engine \<Rightarrow> 'e ui_error option \<times> ui_response \<times> 'f engine" where
  "render_with_status ht pv wire st name data w e =
     (case lookup_page ht pv name e of
        (Inl err, e1) \<Rightarrow> (Some err, w, e1)
      | (Inr (t, has_layouts), e1) \<Rightarrow>
          (case ht_execute ht t (if has_layouts then en_layout e1 else ''__page__'') data of
             (_, Some err) \<Rightarrow> (Some (ExecFailed name err), w, e1)
           | (out, None) \<Rightarrow>
               (case write_body wire out (write_header st (set_html w)) of
                  (r, w1) \<Rightarrow> (map_option (WriteFailed name) r, w1, e1))))"

definition render_fragment ::
  "('f, 'd, 'e) html_template \<Rightarrow> 'e provider \<Rightarrow> (string \<Rightarrow> nat \<times> 'e option) \<Rightarrow> string \<Rightarrow> 'd
    \<Rightarrow> ui_response \<Rightarrow> 'f engine \<Rightarrow> 'e ui_error option \<times> ui_response \<times> 'f engine" where
  "render_fragment ht pv wire name data w e =
     (case lookup_page ht pv name e of
        (Inl err, e1) \<Rightarrow> (Some err, w, e1)
      | (Inr (t, has_layouts), e1) \<Rightarrow>
          (case ht_execute ht t ''__page__'' data of
             (_, Some err) \<Rightarrow> (Some (ExecFailed name err), w, e1)
           | (out, None) \<Rightarrow>
               (case write_body wire out (set_html w) of
                  (r, w1) \<Rightarrow> (map_option (WriteFailed name) r, w1, e1))))"

section \<open>The service\<close>

text \<open>
  Render and its variants on the service: a closed service answers 503 and returns an error too.
\<close>

definition http_error :: "int \<Rightarrow> string \<Rightarrow> ui_response \<Rightarrow> ui_response" where
  "http_error st msg w =
     (let w1 = (if ur_status w = None then w\<lparr>ur_ctype := Some ''text/plain; charset=utf-8''\<rparr> else w);
          w2 = write_header st w1 in
      w2\<lparr>ur_body := ur_body w2 @ msg @ [CHR 0x0A]\<rparr>)"

definition service_render ::
  "bool \<Rightarrow> (ui_response \<Rightarrow> 'f engine \<Rightarrow> 'e ui_error option \<times> ui_response \<times> 'f engine)
    \<Rightarrow> ui_response \<Rightarrow> 'f engine option \<Rightarrow> 'e ui_error option \<times> ui_response \<times> 'f engine option" where
  "service_render closed render w eng =
     (if closed then (Some UiClosed, http_error 503 ''UI service unavailable'' w, eng)
      else case eng of
        None \<Rightarrow> (Some NoEngine, w, None)
      | Some e \<Rightarrow> (case render w e of (r, w1, e1) \<Rightarrow> (r, w1, Some e1)))"

definition register_funcs :: "(string \<times> 'f) list \<Rightarrow> 'f engine option \<Rightarrow> 'f engine option" where
  "register_funcs fs eng = map_option (add_funcs fs) eng"

definition ui_check_ready :: "bool \<Rightarrow> 'f engine option \<Rightarrow> 'e ui_error option" where
  "ui_check_ready closed eng = (if closed then Some UiClosed else if eng = None then Some NoEngine else None)"

section \<open>Static files\<close>

definition index_any :: "string \<Rightarrow> string \<Rightarrow> string" where
  "index_any cutset s = takeWhile (\<lambda>c. c \<notin> set cutset) s"

text \<open>staticStripPrefix, of StaticStripPrefix, StaticPaths and StaticPath.\<close>

definition static_strip_prefix :: "string \<Rightarrow> string list \<Rightarrow> string \<Rightarrow> string" where
  "static_strip_prefix configured paths path =
     (if configured \<noteq> '''' then configured else if paths \<noteq> [] then '''' else index_any ''*{'' path)"

datatype static_answer = NotFound404 | RedirectTo string | FileAt string

text \<open>
  The start of http.FileServer: a slash in front of the path is added, and a request for index.html is
  sent on to its directory.
\<close>

definition file_server :: "string \<Rightarrow> static_answer" where
  "file_server path =
     (let p = (if has_prefix path ''/'' then path else CHR ''/'' # path) in
      if has_suffix p ''/index.html'' then RedirectTo ''./'' else FileAt p)"

definition static_handler :: "string \<Rightarrow> string \<Rightarrow> static_answer" where
  "static_handler prefix path =
     (if has_suffix path ''/'' \<or> (prefix \<noteq> '''' \<and> path = trim_suffix prefix ''/'') then NotFound404
      else if prefix = '''' then file_server path
      else if has_prefix path prefix then file_server (drop (length prefix) path)
      else NotFound404)"

section \<open>Configuration\<close>

datatype ui_config_error =
    NoWorkingDir
  | StaticDirOutside string
  | StaticDirMissing string
  | StaticDirNotDir string
  | RouteNoSlash string
  | StripNoSlashes string
  | NoLayout

record ui_config =
  uc_static_dir :: string
  uc_static_path :: string
  uc_layout :: string
  uc_strip :: string
  uc_paths :: "string list"

text \<open>
  validateDir, with the file system as a function from absolute paths to whether they exist and are
  directories; \<open>absolute\<close> is filepath.Abs. The code skips it in tests.
\<close>

definition validate_dir ::
  "(string \<Rightarrow> string) \<Rightarrow> (string \<Rightarrow> bool option) \<Rightarrow> string \<Rightarrow> string \<Rightarrow> ui_config_error option" where
  "validate_dir absolute stat dir root =
     (let p = absolute dir in
      if \<not> has_prefix p (root @ ''/'') \<and> p \<noteq> root then Some (StaticDirOutside dir)
      else case stat p of
        None \<Rightarrow> Some (StaticDirMissing dir)
      | Some is_dir \<Rightarrow> if is_dir then None else Some (StaticDirNotDir dir))"

definition validate_route_pattern :: "string \<Rightarrow> ui_config_error option" where
  "validate_route_pattern p = (if has_prefix p ''/'' then None else Some (RouteNoSlash p))"

definition validate_static_path :: "string \<Rightarrow> ui_config_error option" where
  "validate_static_path p = (if has_prefix p ''/'' \<and> has_suffix p ''/'' then None else Some (StripNoSlashes p))"

fun first_error :: "'x option list \<Rightarrow> 'x option" where
  "first_error [] = None"
| "first_error (x # xs) = (case x of Some e \<Rightarrow> Some e | None \<Rightarrow> first_error xs)"

definition validate_routes :: "ui_config \<Rightarrow> ui_config_error option" where
  "validate_routes c =
     first_error
       ((if uc_static_path c \<noteq> '''' then validate_route_pattern (uc_static_path c) else None) #
        map validate_route_pattern (uc_paths c) @
        [if uc_strip c \<noteq> '''' then validate_static_path (uc_strip c) else None])"

definition ui_validate ::
  "string option \<Rightarrow> (string \<Rightarrow> string) \<Rightarrow> (string \<Rightarrow> bool option) \<Rightarrow> bool \<Rightarrow> ui_config \<Rightarrow> ui_config_error option" where
  "ui_validate cwd absolute stat has_fs c =
     (case cwd of
        None \<Rightarrow> Some NoWorkingDir
      | Some wd \<Rightarrow>
          first_error
            [if uc_static_dir c \<noteq> '''' \<and> \<not> has_fs then validate_dir absolute stat (uc_static_dir c) wd else None,
             validate_routes c,
             if uc_layout c = '''' then Some NoLayout else None])"

section \<open>Steps\<close>

text \<open>
  Builds that run beside each other and beside AddFuncs: each has loaded its templates, then takes its
  snapshot of the functions under the read lock, and later swaps its result in under the lock.
\<close>

datatype 'f build_pc = LoadedSet template_set | Snapshotted template_set "(string \<times> 'f) list"

record 'f ui_world =
  uw_engine :: "'f engine"
  uw_builds :: "nat \<Rightarrow> 'f build_pc option"

inductive ui_step :: "('f, 'd, 'e) html_template \<Rightarrow> 'f ui_world \<Rightarrow> 'f ui_world \<Rightarrow> bool" for ht where
  load: "uw_builds s i = None \<Longrightarrow> load_set (pv :: 'e provider) = Inr ts \<Longrightarrow>
    ui_step ht s (s\<lparr>uw_builds := (uw_builds s)(i \<mapsto> LoadedSet ts)\<rparr>)"
| snapshot: "uw_builds s i = Some (LoadedSet ts) \<Longrightarrow>
    ui_step ht s (s\<lparr>uw_builds := (uw_builds s)(i \<mapsto> Snapshotted ts (en_funcs (uw_engine s)))\<rparr>)"
| swap: "uw_builds s i = Some (Snapshotted ts funcs) \<Longrightarrow> build_result ht pv ts funcs = Inr r \<Longrightarrow>
    ui_step ht s (s\<lparr>uw_engine := swap_in r (uw_engine s), uw_builds := (uw_builds s)(i := None)\<rparr>)"
| compile_fails: "uw_builds s i = Some (Snapshotted ts funcs) \<Longrightarrow> build_result ht pv ts funcs = Inl err \<Longrightarrow>
    ui_step ht s (s\<lparr>uw_builds := (uw_builds s)(i := None)\<rparr>)"
| funcs: "ui_step ht s (s\<lparr>uw_engine := add_funcs fs (uw_engine s)\<rparr>)"

end
