(* ===== verification/Template_Stores_Properties.thy ===== *)
theory Template_Stores_Properties
  imports Template_Stores
begin

text \<open>
  The contract of a template provider and the stores that keep it: memory, database, directory, and a
  composite of a writable provider with readers.
\<close>

section \<open>The contract\<close>

text \<open>
  \<open>good\<close> are the states the contract holds in: no fault, not closed, and the representation's own
  invariant. What a provider lists it also gives; a registered template is given and listed.
\<close>

locale template_provider =
  fixes get :: "'s \<Rightarrow> string \<Rightarrow> ('e, string) tpl_result"
    and names :: "'s \<Rightarrow> ('e, string list) tpl_result"
    and register :: "string \<Rightarrow> string \<Rightarrow> 's \<Rightarrow> 'e tpl_error option \<times> 's"
    and good :: "'s \<Rightarrow> bool"
  assumes register_good: "good s \<Longrightarrow> register n c s = (r, s') \<Longrightarrow> good s'"
    and register_get: "good s \<Longrightarrow> register n c s = (None, s') \<Longrightarrow> get s' m = (if m = n then Inr c else get s m)"
    and names_total: "good s \<Longrightarrow> \<exists>ns. names s = Inr ns \<and> sorted ns \<and> distinct ns"
    and names_get: "good s \<Longrightarrow> names s = Inr ns \<Longrightarrow> n \<in> set ns \<Longrightarrow> \<exists>c. get s n = Inr c"
    and register_names: "good s \<Longrightarrow> register n c s = (None, s') \<Longrightarrow> names s = Inr ns \<Longrightarrow> names s' = Inr ns' \<Longrightarrow>
      set ns' = insert n (set ns)"
begin

lemma register_files_ok:
  assumes "good s" "register_files d register re ps s = (None, s')"
  shows "good s' \<and> set ps \<subseteq> dom (dk_read d) \<and>
    (\<forall>m. get s' m = (if m \<in> set ps then Inr (the (dk_read d m)) else get s m))"
  using assms
proof (induction ps arbitrary: s)
  case (Cons p ps)
  then obtain c s1 where c: "dk_read d p = Some c" and s1: "register p c s = (None, s1)"
    and rest: "register_files d register re ps s1 = (None, s')"
    by (auto split: option.splits prod.splits)
  have "good s1"
    using Cons.prems(1) s1 by (rule register_good)
  with Cons.IH rest have IH: "good s' \<and> set ps \<subseteq> dom (dk_read d) \<and>
      (\<forall>m. get s' m = (if m \<in> set ps then Inr (the (dk_read d m)) else get s1 m))"
    by blast
  then show ?case
    using register_get [OF Cons.prems(1) s1] c by auto
qed auto

lemma register_files_names:
  assumes "good s" "register_files d register re ps s = (None, s')" "names s = Inr ns" "names s' = Inr ns'"
  shows "set ns' = set ps \<union> set ns"
  using assms
proof (induction ps arbitrary: s ns)
  case (Cons p ps)
  then obtain c s1 where s1: "register p c s = (None, s1)"
    and rest: "register_files d register re ps s1 = (None, s')"
    by (auto split: option.splits prod.splits)
  have good: "good s1"
    using Cons.prems(1) s1 by (rule register_good)
  obtain ns1 where ns1: "names s1 = Inr ns1"
    using names_total [OF good] by auto
  then have "set ns1 = insert p (set ns)"
    using register_names [OF Cons.prems(1) s1] Cons.prems(3) by blast
  then show ?case
    using Cons.IH [OF good rest ns1 Cons.prems(4)] by simp
qed auto

end

section \<open>Memory and database\<close>

text \<open>What a store that is a map answers.\<close>

definition found :: "string option \<Rightarrow> ('e, string) tpl_result" where
  "found x = (case x of None \<Rightarrow> Inl TplNotFound | Some c \<Rightarrow> Inr c)"

lemma found_if: "found (if b then Some c else x) = (if b then Inr c else found x)"
  by (simp add: found_def)

lemma found_Inr: "(\<exists>c. found x = Inr c) \<longleftrightarrow> x \<noteq> None"
  by (cases x) (simp_all add: found_def)

lemma mem_get_found: "mem_get s n = found (map_of s n)"
  by (simp add: mem_get_def found_def)

interpretation mem: template_provider mem_get mem_list mem_register "\<lambda>s. distinct (map fst s)"
proof
  fix s s' :: mem_store and n c m and r :: "'e tpl_error option" and ns ns'
  assume good: "distinct (map fst s)"
  show "\<exists>ns. (mem_list s :: ('e, string list) tpl_result) = Inr ns \<and> sorted ns \<and> distinct ns"
    using good by (simp add: mem_list_def)
  show "\<exists>c. (mem_get s n :: ('e, string) tpl_result) = Inr c"
    if "(mem_list s :: ('e, string list) tpl_result) = Inr ns" "n \<in> set ns"
    using that by (auto simp: mem_get_found found_Inr mem_list_def map_of_eq_None_iff)
  show "distinct (map fst s')" if "mem_register n c s = (r, s')"
    using that good by (auto simp: mem_register_def distinct_update)
  assume reg: "mem_register n c s = (None :: 'e tpl_error option, s')"
  show "(mem_get s' m :: ('e, string) tpl_result) = (if m = n then Inr c else mem_get s m)"
    using reg by (auto simp: mem_get_found mem_register_def update_conv' found_def)
  show "set ns' = insert n (set ns)"
    if "(mem_list s :: ('e, string list) tpl_result) = Inr ns" "(mem_list s' :: ('e, string list) tpl_result) = Inr ns'"
    using that reg dom_update [of n c s] by (auto simp: mem_list_def mem_register_def dom_map_of_conv_image_fst)
qed

text \<open>Templates of a namespace; a row per namespace and name, as the table's unique key demands.\<close>

definition rows_of :: "string \<Rightarrow> tpl_row list \<Rightarrow> string \<rightharpoonup> string" where
  "rows_of ns t name = get_template_content ns name t"

definition keys_unique :: "tpl_row list \<Rightarrow> bool" where
  "keys_unique t \<longleftrightarrow> distinct (map (\<lambda>r. (tp_namespace r, tp_name r)) t)"

lemma content_append:
  "get_template_content ns m (t @ u) =
     (case get_template_content ns m t of None \<Rightarrow> get_template_content ns m u | Some c \<Rightarrow> Some c)"
  by (induction t) (auto simp: get_template_content_def)

lemma content_map:
  "get_template_content ns m (map (\<lambda>r. if row_is ns' n r then r\<lparr>tp_content := c\<rparr> else r) t) =
     (if ns = ns' \<and> m = n then map_option (\<lambda>_. c) (get_template_content ns m t) else get_template_content ns m t)"
  by (induction t) (auto simp: get_template_content_def row_is_def)

lemma content_None: "find (row_is ns n) t = None \<longleftrightarrow> get_template_content ns n t = None"
  by (simp add: get_template_content_def)

lemma upsert_content:
  "get_template_content ns m (upsert_template ns' n c t) =
     (if ns = ns' \<and> m = n then Some c else get_template_content ns m t)"
  by (auto simp: upsert_template_def content_append content_map content_None split: option.splits)
    (auto simp: get_template_content_def row_is_def)

lemma keys_map:
  "map (\<lambda>r. (tp_namespace r, tp_name r)) (map (\<lambda>r. if row_is ns n r then r\<lparr>tp_content := c\<rparr> else r) t) =
     map (\<lambda>r. (tp_namespace r, tp_name r)) t"
  by (induction t) auto

lemma upsert_unique:
  assumes "keys_unique t"
  shows "keys_unique (upsert_template ns n c t)"
proof (cases "find (row_is ns n) t")
  case None
  then have "\<forall>r\<in>set t. \<not> row_is ns n r"
    by (auto simp: find_None_iff)
  then show ?thesis
    using assms None by (auto simp: upsert_template_def keys_unique_def row_is_def)
next
  case (Some r)
  then show ?thesis
    using assms arg_cong [OF keys_map [of ns n c t], of distinct]
    by (simp only: keys_unique_def upsert_template_def option.distinct if_False)
qed

lemma listed_rows: "set (list_templates ns t) = {n. get_template_content ns n t \<noteq> None}"
  by (induction t) (auto simp: list_templates_def get_template_content_def row_is_def)

lemma listed_distinct: "keys_unique t \<Longrightarrow> distinct (list_templates ns t)"
  by (induction t) (auto simp: keys_unique_def list_templates_def rev_image_eqI)

lemma tdb_get_found: "tdb_get None ns t n = found (get_template_content ns n t)"
  by (simp add: tdb_get_def found_def)

interpretation tdb: template_provider "tdb_get None ns" "tdb_list None ns" "tdb_register None ns" keys_unique
  for ns
proof
  fix t t' :: "tpl_row list" and n c m and r :: "'e tpl_error option" and names names'
  assume good: "keys_unique t"
  show "\<exists>names. (tdb_list None ns t :: ('e, string list) tpl_result) = Inr names \<and> sorted names \<and> distinct names"
    using listed_distinct [OF good, of ns] by (simp add: tdb_list_def) (simp add: list_templates_def)
  show "\<exists>c. (tdb_get None ns t n :: ('e, string) tpl_result) = Inr c"
    if "(tdb_list None ns t :: ('e, string list) tpl_result) = Inr names" "n \<in> set names"
    using that listed_rows [of ns t] by (auto simp: tdb_get_found found_Inr tdb_list_def)
  show "keys_unique t'" if "tdb_register None ns n c t = (r, t')"
    using that good by (auto simp: tdb_register_def intro: upsert_unique)
  assume reg: "tdb_register None ns n c t = (None :: 'e tpl_error option, t')"
  show "(tdb_get None ns t' m :: ('e, string) tpl_result) = (if m = n then Inr c else tdb_get None ns t m)"
    using reg by (auto simp: tdb_get_found tdb_register_def upsert_content found_def)
  show "set names' = insert n (set names)"
    if "(tdb_list None ns t :: ('e, string list) tpl_result) = Inr names"
      "(tdb_list None ns t' :: ('e, string list) tpl_result) = Inr names'"
    using that reg by (auto simp: tdb_list_def tdb_register_def listed_rows upsert_content split: if_splits)
qed

section \<open>Directory\<close>

text \<open>
  A directory store is good while it is not closed and its directory opens and can be read.
\<close>

definition readable :: "'e disk \<Rightarrow> bool" where
  "readable d \<longleftrightarrow> dk_open d = None \<and> set (html_files (dk_walk d)) \<subseteq> dom (dk_read d)"

definition dir_good :: "'e disk \<Rightarrow> 'e dir_store \<Rightarrow> bool" where
  "dir_good d s \<longleftrightarrow> readable d \<and> \<not> tr_closed s \<and> tr_open_err s = None"

lemma dir_open_good:
  "dir_good d s \<Longrightarrow> dir_open d s = (None, s\<lparr>tr_root := True\<rparr>)"
  by (cases "tr_root s") (auto simp: dir_good_def readable_def dir_open_def)

lemma dir_get_good:
  "dir_good d s \<Longrightarrow> fst (dir_get d n s) =
     found (case map_of (tr_overlay s) n of Some c \<Rightarrow> Some c | None \<Rightarrow> dk_read d n)"
  by (auto simp: dir_get_def with_root_def dir_open_good found_def dir_good_def split: option.splits)

lemma dir_list_good:
  "dir_good d s \<Longrightarrow> fst (dir_list d s) = Inr (sort (remdups (html_files (dk_walk d) @ map fst (tr_overlay s))))"
  by (auto simp: dir_list_def with_root_def dir_open_good dir_good_def)

interpretation dirs: template_provider "\<lambda>s n. fst (dir_get d n s)" "\<lambda>s. fst (dir_list d s)" dir_register "dir_good d"
  for d
proof
  fix s s' n c m r ns ns'
  assume good: "dir_good d s"
  show "\<exists>ns. fst (dir_list d s) = Inr ns \<and> sorted ns \<and> distinct ns"
    using good by (simp add: dir_list_good)
  show "\<exists>c. fst (dir_get d n s) = Inr c" if "fst (dir_list d s) = Inr ns" "n \<in> set ns"
    using that good
    by (auto simp: dir_list_good dir_get_good found_Inr map_of_eq_None_iff dir_good_def readable_def
        split: option.splits)
  show good': "dir_good d s'" if "dir_register n c s = (r, s')" for r
    using that good by (auto simp: dir_register_def dir_good_def split: if_splits)
  assume reg: "dir_register n c s = (None, s')"
  show "fst (dir_get d m s') = (if m = n then Inr c else fst (dir_get d m s))"
    using reg good good' [OF reg]
    by (auto simp: dir_get_good dir_register_def update_conv' found_def split: if_splits)
  show "set ns' = insert n (set ns)" if "fst (dir_list d s) = Inr ns" "fst (dir_list d s') = Inr ns'"
    using that reg good good' [OF reg] dom_update [of n c "tr_overlay s"]
    by (auto simp: dir_list_good dir_register_def dom_map_of_conv_image_fst split: if_splits)
qed

section \<open>Composite\<close>

text \<open>
  Readers are what they answer to Get and List. Each gives what it lists.
\<close>

definition comp_get ::
  "('s \<Rightarrow> string \<Rightarrow> ('e, string) tpl_result) \<Rightarrow> ((string \<Rightarrow> ('e, string) tpl_result) \<times> 'l) list \<Rightarrow>
    's \<Rightarrow> string \<Rightarrow> ('e, string) tpl_result" where
  "comp_get wget readers s n = composite_get (wget s n) (map (\<lambda>r. fst r n) readers)"

definition comp_names ::
  "('s \<Rightarrow> ('e, string list) tpl_result) \<Rightarrow> ('g \<times> ('e, string list) tpl_result) list \<Rightarrow>
    's \<Rightarrow> ('e, string list) tpl_result" where
  "comp_names wnames readers s = composite_list (wnames s) (map snd readers)"

lemma first_found_some: "Inr c \<in> set rs \<Longrightarrow> \<exists>c. first_found rs = Inr c"
  by (induction rs) (auto split: sum.splits)

lemma first_found_append_ok: "first_found (Inr c # rs) = Inr c"
  by simp

locale composite_provider =
  w: template_provider wget wnames wregister wgood
  for wget :: "'s \<Rightarrow> string \<Rightarrow> ('e, string) tpl_result" and wnames wregister wgood +
  fixes readers :: "((string \<Rightarrow> ('e, string) tpl_result) \<times> ('e, string list) tpl_result) list"
  assumes reader_gives: "(g, l) \<in> set readers \<Longrightarrow> n \<in> set (listed l) \<Longrightarrow> \<exists>c. g n = Inr c"
    and readers_list: "(g, l) \<in> set readers \<Longrightarrow> is_ok l"
begin

lemma no_list_error:
  assumes "wgood s"
  shows "first_err (wnames s # map snd readers) = None"
proof -
  obtain ns where "wnames s = Inr ns"
    using w.names_total [OF assms] by auto
  then have "\<forall>r\<in>set (wnames s # map snd readers). is_ok r"
    using readers_list by auto
  then have "find (\<lambda>r. \<not> is_ok r) (wnames s # map snd readers) = None"
    by (simp only: find_None_iff) blast
  then show ?thesis
    by (simp only: first_err_def) simp
qed

lemma cnames_good:
  "wgood s \<Longrightarrow> comp_names wnames readers s =
     Inr (sort (remdups (concat (map listed (wnames s # map snd readers)))))"
  by (simp only: comp_names_def composite_list_def no_list_error Let_def) (simp split: list.splits)

lemma listed_good: "wgood s \<Longrightarrow> wnames s = Inr (listed (wnames s))"
  using w.names_total [of s] by (auto simp: listed_def)

end

sublocale composite_provider \<subseteq> comp: template_provider "comp_get wget readers" "comp_names wnames readers" wregister wgood
proof
  fix s s' n c m r ns ns'
  assume good: "wgood s"
  show "\<exists>ns. comp_names wnames readers s = Inr ns \<and> sorted ns \<and> distinct ns"
    by (simp add: cnames_good [OF good])
  show "\<exists>c. comp_get wget readers s n = Inr c" if "comp_names wnames readers s = Inr ns" "n \<in> set ns"
  proof -
    have "n \<in> set (listed (wnames s)) \<or> (\<exists>g l. (g, l) \<in> set readers \<and> n \<in> set (listed l))"
      using that by (auto simp: cnames_good [OF good])
    then have "\<exists>c. Inr c \<in> set (wget s n # map (\<lambda>r. fst r n) readers)"
    proof (elim disjE exE conjE)
      assume "n \<in> set (listed (wnames s))"
      then obtain c where "wget s n = Inr c"
        using w.names_get [OF good listed_good [OF good]] by auto
      then show ?thesis
        by (metis list.set_intros(1))
    next
      fix g l
      assume gl: "(g, l) \<in> set readers" and "n \<in> set (listed l)"
      then obtain c where "g n = Inr c"
        using reader_gives by blast
      then have "Inr c \<in> (\<lambda>r. fst r n) ` set readers"
        using gl by (metis fst_conv rev_image_eqI)
      then show ?thesis
        by auto
    qed
    then obtain c where "Inr c \<in> set (wget s n # map (\<lambda>r. fst r n) readers)" ..
    from first_found_some [OF this] show ?thesis
      by (simp only: comp_get_def composite_get_def)
  qed
  show good': "wgood s'" if "wregister n c s = (r, s')" for r
    using good that by (rule w.register_good)
  assume reg: "wregister n c s = (None, s')"
  show "comp_get wget readers s' m = (if m = n then Inr c else comp_get wget readers s m)"
    using w.register_get [OF good reg] by (simp add: comp_get_def composite_get_def)
  show "set ns' = insert n (set ns)"
    if "comp_names wnames readers s = Inr ns" "comp_names wnames readers s' = Inr ns'"
    using that w.register_names [OF good reg listed_good [OF good] listed_good [OF good' [OF reg]]]
    by (auto simp: cnames_good [OF good] cnames_good [OF good' [OF reg]])
qed

text \<open>Readers over the file systems that can be walked and read.\<close>

definition walkable :: "'e disk \<Rightarrow> bool" where
  "walkable d \<longleftrightarrow> dk_walk_err d = None \<and> set (html_files (dk_walk d)) \<subseteq> dom (dk_read d)"

definition fs_readers :: "'e disk list \<Rightarrow> ((string \<Rightarrow> ('e, string) tpl_result) \<times> ('e, string list) tpl_result) list" where
  "fs_readers ds = map (\<lambda>d. (fs_get d, fs_list d)) (filter walkable ds)"

interpretation cmp: composite_provider mem_get mem_list mem_register "\<lambda>s. distinct (map fst s)" "fs_readers ds"
  for ds
  by unfold_locales
    (auto simp: fs_readers_def walkable_def fs_list_def fs_get_def listed_def dest!: subsetD split: option.splits)

text \<open>
  RegisterFS into a composite store, when it succeeds, makes every .html file of the walk available under
  its path with its content, in front of what the readers have under that name, leaves every other
  template as it was, and adds exactly these names to the list.
\<close>

theorem composite_register_fs:
  fixes d :: "'e disk" and ds :: "'e disk list"
  assumes "distinct (map fst s)" and "register_fs d mem_register re s = (None, s')"
  shows "(\<forall>m. comp_get mem_get (fs_readers ds) s' m =
      (if m \<in> set (html_files (dk_walk d)) then Inr (the (dk_read d m)) else comp_get mem_get (fs_readers ds) s m)) \<and>
    (\<exists>ns ns'. comp_names mem_list (fs_readers ds) s = Inr ns \<and> comp_names mem_list (fs_readers ds) s' = Inr ns' \<and>
      sorted ns' \<and> set ns' = set (html_files (dk_walk d)) \<union> set ns)"
proof -
  have run: "register_files d mem_register re (html_files (dk_walk d)) s = (None, s')"
    using assms(2) by (simp add: register_fs_def)
  have after: "distinct (map fst s') \<and> set (html_files (dk_walk d)) \<subseteq> dom (dk_read d) \<and>
      (\<forall>m. comp_get mem_get (fs_readers ds) s' m =
        (if m \<in> set (html_files (dk_walk d)) then Inr (the (dk_read d m)) else comp_get mem_get (fs_readers ds) s m))"
    by (rule cmp.comp.register_files_ok [OF assms(1) run])
  obtain ns where ns: "comp_names mem_list (fs_readers ds) s = Inr ns"
    using cmp.comp.names_total [OF assms(1)] by blast
  obtain ns' where ns': "comp_names mem_list (fs_readers ds) s' = Inr ns'" "sorted ns'"
    using cmp.comp.names_total [of s' ds] after by blast
  have "set ns' = set (html_files (dk_walk d)) \<union> set ns"
    by (rule cmp.comp.register_files_names [OF assms(1) run ns ns'(1)])
  then show ?thesis
    using after ns ns' by blast
qed

text \<open>The same for the tables of the database store and for a directory store's overlay.\<close>

theorem db_register_fs:
  fixes d :: "'e disk"
  assumes "keys_unique t" and "register_fs d (tdb_register None ns) re t = (None, t')"
  shows "(tdb_get None ns t' m :: ('e, string) tpl_result) =
    (if m \<in> set (html_files (dk_walk d)) then Inr (the (dk_read d m)) else tdb_get None ns t m)"
  using tdb.register_files_ok [OF assms(1) assms(2) [unfolded register_fs_def]] by simp

theorem dir_register_fs_given:
  assumes "dir_good d0 s" and "dir_register_fs d re s = (None, s')"
  shows "fst (dir_get d0 m s') =
    (if m \<in> set (html_files (dk_walk d)) then Inr (the (dk_read d m)) else fst (dir_get d0 m s))"
proof -
  have "register_files d dir_register re (html_files (dk_walk d)) s = (None, s')"
    using assms by (simp add: dir_register_fs_def register_fs_def dir_good_def)
  from dirs.register_files_ok [OF assms(1) this] show ?thesis
    by simp
qed

text \<open>A closed directory store answers ErrClosed to everything, and a second Close succeeds.\<close>

theorem dir_closed_for_good:
  assumes "dir_close close_err s = (r, s1)"
  shows "dir_get d n s1 = (Inl TplClosed, s1) \<and> dir_list d s1 = (Inl TplClosed, s1) \<and>
    dir_register n c s1 = (Some TplClosed, s1) \<and> dir_register_fs d re s1 = (Some TplClosed, s1) \<and>
    dir_close close_err2 s1 = (None, s1) \<and> (tr_closed s \<longrightarrow> r = None)"
proof -
  have "tr_closed s1"
    using assms by (auto simp: dir_close_def split: if_splits)
  then show ?thesis
    using assms
    by (auto simp: dir_get_def dir_list_def with_root_def dir_open_def dir_register_def dir_register_fs_def
        dir_close_def split: if_splits)
qed

text \<open>Get of the composite store turns every error of its providers into ErrTemplateNotFound.\<close>

theorem composite_hides_errors:
  "composite_get (Inl (TplFailed e)) [Inl TplClosed] = Inl TplNotFound"
  by (simp add: composite_get_def)

section \<open>Witness\<close>

definition demo_disk :: "string disk" where
  "demo_disk =
     \<lparr>dk_open = None,
      dk_walk = [(''a'', True), (''a/x.html'', False), (''b.txt'', False), (''home.html'', False)],
      dk_walk_err = None, dk_read = [''a/x.html'' \<mapsto> ''X'', ''b.txt'' \<mapsto> ''B'', ''home.html'' \<mapsto> ''H'']\<rparr>"

lemma demo_files: "html_files (dk_walk demo_disk) = [''a/x.html'', ''home.html'']"
  by (simp add: demo_disk_def html_files_def file_ext_def Let_def)

theorem composite_register_fs_witness:
  "comp_get mem_get (fs_readers [demo_disk]) [(''home.html'', ''H''), (''a/x.html'', ''X'')] ''home.html'' = Inr ''H''"
proof -
  have "register_fs demo_disk mem_register ''io'' [(''home.html'', ''old'')] =
      (None, [(''home.html'', ''H''), (''a/x.html'', ''X'')])"
    by (simp add: register_fs_def demo_files mem_register_def) (simp add: demo_disk_def mem_register_def)
  from composite_register_fs [OF _ this, of "[demo_disk]"] show ?thesis
    by (simp add: demo_files) (simp add: demo_disk_def)
qed

end
