(* ===== verification/Ui_Properties.thy ===== *)
theory Ui_Properties
  imports Ui_Engine Template_Stores_Properties
begin

text \<open>
  What the UI module guarantees: a page is rendered from the layouts, the partials and the page, with the
  functions registered before; an error of a template leaves the response untouched; a cache is the
  result of one whole Build, under any interleaving; no directory is listed.
\<close>

section \<open>Build\<close>

definition is_layout :: "string \<Rightarrow> bool" where
  "is_layout n \<longleftrightarrow> has_prefix n ''layouts/''"

definition is_partial :: "string \<Rightarrow> bool" where
  "is_partial n \<longleftrightarrow> \<not> is_layout n \<and> has_prefix n ''partials/''"

definition is_page :: "string \<Rightarrow> bool" where
  "is_page n \<longleftrightarrow> \<not> is_layout n \<and> \<not> is_partial n"

definition content :: "'e provider \<Rightarrow> string \<Rightarrow> string" where
  "content pv n = (case pv_get pv n of Inr c \<Rightarrow> c | Inl e \<Rightarrow> [])"

text \<open>The set that Build loads: the names in the provider's order, sorted into three.\<close>

definition sorted_into :: "'e provider \<Rightarrow> string list \<Rightarrow> template_set" where
  "sorted_into pv names =
     \<lparr>ts_layouts = map (\<lambda>n. (n, content pv n)) (filter is_layout names),
      ts_partials = map (\<lambda>n. (n, content pv n)) (filter is_partial names),
      ts_pages = filter is_page names\<rparr>"

definition append_set :: "template_set \<Rightarrow> template_set \<Rightarrow> template_set" where
  "append_set a b =
     \<lparr>ts_layouts = ts_layouts a @ ts_layouts b, ts_partials = ts_partials a @ ts_partials b,
      ts_pages = ts_pages a @ ts_pages b\<rparr>"

lemma load_templates_ok:
  "load_templates pv names ts = Inr ts' \<Longrightarrow> ts' = append_set ts (sorted_into pv names)"
proof (induction names arbitrary: ts)
  case Nil
  then show ?case
    by (simp add: append_set_def sorted_into_def)
next
  case (Cons n names)
  then obtain c where c: "pv_get pv n = Inr c" and "load_templates pv names (classify (n, c) ts) = Inr ts'"
    by (auto split: sum.splits)
  then have "ts' = append_set (classify (n, c) ts) (sorted_into pv names)"
    using Cons.IH by blast
  then show ?case
    using c by (simp add: append_set_def sorted_into_def classify_def content_def is_layout_def is_partial_def
        is_page_def)
qed

lemma load_set_ok:
  "load_set pv = Inr ts \<Longrightarrow> \<exists>names. pv_list pv = Inr names \<and> ts = sorted_into pv names"
  using load_templates_ok [of pv _ empty_set ts]
  by (auto simp: load_set_def append_set_def empty_set_def sorted_into_def split: sum.splits)

lemma parse_all_ok:
  "parse_all ht t ncs = Inr t' \<Longrightarrow> t' = t\<lparr>ct_texts := ct_texts t @ map snd ncs\<rparr>"
proof (induction ncs arbitrary: t)
  case (Cons nc ncs)
  then have "parse_all ht (t\<lparr>ct_texts := ct_texts t @ [snd nc]\<rparr>) ncs = Inr t'"
    by (cases nc) (auto split: option.splits)
  from Cons.IH [OF this] show ?case
    by simp
qed simp

lemma compile_ok:
  "compile ht pv ts funcs page = Inr t \<Longrightarrow>
     t = \<lparr>ct_funcs = funcs,
          ct_texts = map snd (ts_layouts ts) @ map snd (ts_partials ts) @ [content pv page]\<rparr>"
  by (auto simp: compile_def content_def split: sum.splits option.splits dest!: parse_all_ok)

text \<open>Build itself never reports a missing template.\<close>

fun says_missing :: "'e ui_error \<Rightarrow> bool" where
  "says_missing (NoTemplate n) = True"
| "says_missing err = False"

lemma load_err: "load_templates pv names ts = Inl err \<Longrightarrow> \<not> says_missing err"
  by (induction names arbitrary: ts) (auto split: sum.splits)

lemma parse_err: "parse_all ht t ncs = Inl err \<Longrightarrow> \<not> says_missing err"
  by (induction ht t ncs rule: parse_all.induct) (auto split: option.splits)

lemma compile_err: "compile ht pv ts funcs p = Inl err \<Longrightarrow> \<not> says_missing err"
  by (auto simp: compile_def simp del: parse_all.simps split: sum.splits dest: parse_err)

lemma pages_err: "compile_pages ht pv ts funcs ps cache = Inl err \<Longrightarrow> \<not> says_missing err"
  by (induction ps arbitrary: cache) (auto split: sum.splits dest: compile_err)

lemma build_err: "build_engine ht pv e = (Some err, e') \<Longrightarrow> e' = e \<and> \<not> says_missing err"
  by (auto simp: build_engine_def build_result_def load_set_def split: sum.splits dest: load_err pages_err)

lemma compile_pages_ok:
  "compile_pages ht pv ts funcs ps cache = Inr cache' \<Longrightarrow>
     cache' name = Some t \<Longrightarrow>
     cache name = Some t \<or> (\<exists>p\<in>set ps. page_key p = name \<and> compile ht pv ts funcs p = Inr t)"
proof (induction ps arbitrary: cache)
  case (Cons p ps)
  then show ?case
    by (fastforce split: sum.splits if_splits)
qed simp

lemma compile_pages_all:
  "compile_pages ht pv ts funcs ps cache = Inr cache' \<Longrightarrow>
     dom cache' = dom cache \<union> page_key ` set ps"
  by (induction ps arbitrary: cache) (auto split: sum.splits)

text \<open>What a page of a provider is compiled to.\<close>

definition page_of :: "'e provider \<Rightarrow> string list \<Rightarrow> (string \<times> 'f) list \<Rightarrow> string \<Rightarrow> 'f compiled" where
  "page_of pv names funcs p =
     \<lparr>ct_funcs = funcs,
      ct_texts = map (content pv) (filter is_layout names) @ map (content pv) (filter is_partial names) @ [content pv p]\<rparr>"

lemma build_ok:
  assumes "build_engine ht pv e = (None, e')"
  obtains names where "pv_list pv = Inr names" "en_built e'" "en_funcs e' = en_funcs e"
    "en_has_layouts e' = (\<exists>n\<in>set names. is_layout n)"
    "dom (en_cache e') = page_key ` {p \<in> set names. is_page p}"
    "\<And>name t. en_cache e' name = Some t \<Longrightarrow>
      \<exists>p\<in>set names. is_page p \<and> page_key p = name \<and> t = page_of pv names (en_funcs e) p"
proof -
  obtain ts cache where ts: "load_set pv = Inr ts"
    and pages: "compile_pages ht pv ts (en_funcs e) (ts_pages ts) (\<lambda>_. None) = Inr cache"
    and e': "e' = swap_in (cache, ts_layouts ts \<noteq> []) e"
    using assms by (auto simp: build_engine_def build_result_def split: sum.splits)
  obtain names where names: "pv_list pv = Inr names" and set: "ts = sorted_into pv names"
    using load_set_ok [OF ts] by blast
  have "\<exists>p\<in>set names. is_page p \<and> page_key p = name \<and> t = page_of pv names (en_funcs e) p"
    if "en_cache e' name = Some t" for name t
  proof -
    have "cache name = Some t"
      using that e' by (simp add: swap_in_def)
    then obtain p where p: "p \<in> set (ts_pages ts)" "page_key p = name"
      "compile ht pv ts (en_funcs e) p = Inr t"
      using compile_pages_ok [OF pages] by fastforce
    then show ?thesis
      using compile_ok [OF p(3)] set
      by (intro bexI [of _ p]) (auto simp: sorted_into_def page_of_def comp_def)
  qed
  moreover have "dom (en_cache e') = page_key ` {p \<in> set names. is_page p}"
    using compile_pages_all [OF pages] e' set by (simp add: swap_in_def sorted_into_def)
  ultimately show ?thesis
    using that [OF names] e' set
    by (auto simp: swap_in_def sorted_into_def filter_empty_conv)
qed

text \<open>C33:
  Looking up a page of an engine that is not built, in particular after AddFuncs, or in development mode,
  gives a template compiled from all layouts, all partials and that page of the provider, in this order,
  with all functions added so far. The layout is used exactly when the provider has one, a failed Build
  leaves the engine as it was, and a page is missing only if the provider has none of that name.
\<close>

theorem lookup_page_fresh:
  assumes "lookup_page ht pv name e = (r, e')" and "\<not> en_built e \<or> en_dev e"
  shows "(case r of
      Inr (t, hl) \<Rightarrow> \<exists>names p. pv_list pv = Inr names \<and> p \<in> set names \<and> is_page p \<and> page_key p = name \<and>
        t = page_of pv names (en_funcs e) p \<and> hl = (\<exists>n\<in>set names. is_layout n)
    | Inl (NoTemplate n) \<Rightarrow> n = name \<and> (\<exists>names. pv_list pv = Inr names \<and>
        name \<notin> page_key ` {p \<in> set names. is_page p})
    | Inl err \<Rightarrow> e' = e)"
proof -
  obtain b e1 where b: "build_engine ht pv e = (b, e1)"
    by fastforce
  show ?thesis
  proof (cases b)
    case (Some err)
    then have "e1 = e" "\<not> says_missing err"
      using b build_err [of ht pv e err e1] by auto
    then show ?thesis
      using assms b Some by (auto simp: lookup_page_def split: ui_error.splits)
  next
    case None
    with b have "build_engine ht pv e = (None, e1)"
      by simp
    then show ?thesis
    proof (rule build_ok)
      fix names
      assume built: "pv_list pv = Inr names" "en_built e1" "en_funcs e1 = en_funcs e"
        "en_has_layouts e1 = (\<exists>n\<in>set names. is_layout n)"
        "dom (en_cache e1) = page_key ` {p \<in> set names. is_page p}"
        "\<And>name t. en_cache e1 name = Some t \<Longrightarrow>
          \<exists>p\<in>set names. is_page p \<and> page_key p = name \<and> t = page_of pv names (en_funcs e) p"
      show ?thesis
      proof (cases "en_cache e1 name")
        case None
        then have "name \<notin> page_key ` {p \<in> set names. is_page p}"
          using built(5) by blast
        then show ?thesis
          using assms b \<open>b = None\<close> None built(1) by (auto simp: lookup_page_def)
      next
        case (Some t)
        then show ?thesis
          using assms b \<open>b = None\<close> built(1,4) built(6) [OF Some] by (auto simp: lookup_page_def)
      qed
    qed
  qed
qed

text \<open>A cached page outside development mode is used as it is.\<close>

lemma lookup_page_cached:
  "en_built e \<Longrightarrow> \<not> en_dev e \<Longrightarrow> lookup_page ht pv name e =
     (case en_cache e name of None \<Rightarrow> Inl (NoTemplate name) | Some t \<Rightarrow> Inr (t, en_has_layouts e), e)"
  by (simp add: lookup_page_def split: option.splits)

section \<open>Rendering\<close>

text \<open>
  RenderWithStatus into a response that has not been started either writes nothing at all and returns the
  error of the lookup or of the template, or sends the status and the HTML content type with a prefix of
  the template's output, the whole of it when it returns nil. A page with layouts is executed at the
  layout's entry, a page without at its own.
\<close>

theorem render_all_or_nothing:
  assumes "render_with_status ht pv wire st name data w e = (r, w', e')"
    and "ur_status w = None" "ur_body w = []"
    and "\<forall>s. snd (wire s) = None \<longrightarrow> fst (wire s) \<ge> length s"
  shows "(case lookup_page ht pv name e of
      (Inl err, e1) \<Rightarrow> r = Some err \<and> w' = w
    | (Inr (t, hl), e1) \<Rightarrow>
        (case ht_execute ht t (if hl then en_layout e1 else ''__page__'') data of
           (out, Some err) \<Rightarrow> r = Some (ExecFailed name err) \<and> w' = w
         | (out, None) \<Rightarrow> ur_status w' = Some st \<and> ur_ctype w' = Some ''text/html; charset=utf-8'' \<and>
             (\<exists>rest. out = ur_body w' @ rest \<and> (r = None \<longrightarrow> rest = []) \<and>
               (r \<noteq> None \<longrightarrow> (\<exists>err. r = Some (WriteFailed name err))))))"
proof -
  obtain l e1 where l: "lookup_page ht pv name e = (l, e1)"
    by fastforce
  show ?thesis
  proof (cases l)
    case (Inl err)
    then show ?thesis
      using assms(1) l by (simp add: render_with_status_def)
  next
    case (Inr th)
    obtain t hl where th: "th = (t, hl)"
      by fastforce
    obtain out x where x: "ht_execute ht t (if hl then en_layout e1 else ''__page__'') data = (out, x)"
      by fastforce
    show ?thesis
    proof (cases x)
      case (Some err)
      then show ?thesis
        using assms(1) l Inr th x by (cases hl) (simp_all add: render_with_status_def)
    next
      case None
      obtain n we where we: "wire out = (n, we)"
        by fastforce
      have "we = None \<Longrightarrow> length out \<le> n"
        using assms(4) we by (metis fst_conv snd_conv)
      moreover have "\<exists>rest. out = take n out @ rest"
        by (metis append_take_drop_id)
      ultimately show ?thesis
        using assms(1-3) l Inr th x None we
        by (cases we; cases "out = []")
          (auto simp: render_with_status_def write_body_def write_header_def set_html_def)
    qed
  qed
qed

text \<open>
  A closed service writes its 503 and returns an error as well; when a handler returns that error, the
  error handler writes a second body behind the first.
\<close>

theorem closed_render_written_twice:
  "service_render True render w eng = (Some UiClosed, http_error 503 ''UI service unavailable'' w, eng) \<and>
   ur_body (http_error 500 ''internal server error'' (http_error 503 ''UI service unavailable''
      \<lparr>ur_status = None, ur_ctype = None, ur_body = []\<rparr>)) =
     ''UI service unavailable'' @ [CHR 0x0A] @ ''internal server error'' @ [CHR 0x0A]"
  by (simp add: service_render_def http_error_def write_header_def)

section \<open>Builds that run beside each other\<close>

text \<open>A cache that is the result of one Build.\<close>

definition whole_build :: "('f, 'd, 'e) html_template \<Rightarrow> 'f engine \<Rightarrow> bool" where
  "whole_build ht e \<longleftrightarrow>
     (\<exists>(pv :: 'e provider) (pv' :: 'e provider) ts funcs. load_set pv = Inr ts \<and> build_result ht pv' ts funcs = Inr (en_cache e, en_has_layouts e))"

definition ui_inv :: "('f, 'd, 'e) html_template \<Rightarrow> 'f ui_world \<Rightarrow> bool" where
  "ui_inv ht s \<longleftrightarrow>
     (\<forall>i ts. (uw_builds s i = Some (LoadedSet ts) \<or> (\<exists>funcs. uw_builds s i = Some (Snapshotted ts funcs))) \<longrightarrow>
       (\<exists>pv :: 'e provider. load_set pv = Inr ts)) \<and>
     (en_built (uw_engine s) \<or> en_cache (uw_engine s) \<noteq> (\<lambda>_. None) \<longrightarrow> whole_build ht (uw_engine s))"

lemma whole_build_funcs: "whole_build ht (add_funcs fs e) = whole_build ht e"
  by (simp add: whole_build_def add_funcs_def)

lemma ui_inv_step: "ui_step ht s s' \<Longrightarrow> ui_inv ht s \<Longrightarrow> ui_inv ht s'"
proof (induction rule: ui_step.induct)
  case (swap s i ts funcs pv r)
  then obtain pv0 :: "'c provider" where "load_set pv0 = Inr ts"
    unfolding ui_inv_def by blast
  then have "whole_build ht (swap_in r (uw_engine s))"
    using swap.hyps(2) unfolding whole_build_def swap_in_def by (cases r) auto
  then show ?case
    using swap.prems by (auto simp: ui_inv_def)
next
  case (funcs s fs)
  then show ?case
    by (auto simp: ui_inv_def whole_build_funcs) (auto simp: add_funcs_def)
qed (auto simp: ui_inv_def)

text \<open>C34:
  Under any interleaving of Builds, AddFuncs and changes of the provider, the pages an engine serves all
  come from one Build: one loading of the templates and one snapshot of the functions.
\<close>

theorem ui_cache_whole:
  fixes ht :: "('f, 'd, 'e) html_template"
  assumes "(ui_step ht)\<^sup>*\<^sup>* \<lparr>uw_engine = new_engine funcs layout dev, uw_builds = (\<lambda>_. None)\<rparr> s"
    and "en_cache (uw_engine s) name = Some t"
  shows "\<exists>(pv :: 'e provider) (pv' :: 'e provider) ts fs. load_set pv = Inr ts \<and>
    build_result ht pv' ts fs = Inr (en_cache (uw_engine s), en_has_layouts (uw_engine s)) \<and> ct_funcs t = fs"
proof -
  have "ui_inv ht \<lparr>uw_engine = new_engine funcs layout dev, uw_builds = (\<lambda>_. None)\<rparr>"
    by (simp add: ui_inv_def new_engine_def)
  with assms(1) have "ui_inv ht s"
    by (induction rule: rtranclp_induct) (auto dest: ui_inv_step)
  then have "whole_build ht (uw_engine s)"
    using assms(2) by (auto simp: ui_inv_def)
  then obtain pv pv' :: "'e provider" and ts fs where parts: "load_set pv = Inr ts"
    "build_result ht pv' ts fs = Inr (en_cache (uw_engine s), en_has_layouts (uw_engine s))"
    unfolding whole_build_def by blast
  from parts(2) have "compile_pages ht pv' ts fs (ts_pages ts) (\<lambda>_. None) = Inr (en_cache (uw_engine s))"
    by (simp add: build_result_def split: sum.splits)
  from compile_pages_ok [OF this assms(2)] obtain p where "compile ht pv' ts fs p = Inr t"
    by auto
  then have "ct_funcs t = fs"
    using compile_ok by fastforce
  then show ?thesis
    using parts by blast
qed

text \<open>A Build with an AddFuncs between its snapshot and its swap.\<close>

lemma build_beside_funcs:
  assumes "load_set pv = Inr ts" "build_result ht pv ts (en_funcs e) = Inr r"
  shows "(ui_step ht)\<^sup>*\<^sup>* \<lparr>uw_engine = e, uw_builds = (\<lambda>_. None)\<rparr>
    \<lparr>uw_engine = swap_in r (add_funcs fs e), uw_builds = (\<lambda>_. None)\<rparr>"
proof -
  let ?s0 = "\<lparr>uw_engine = e, uw_builds = (\<lambda>_. None)\<rparr>"
  let ?s1 = "\<lparr>uw_engine = e, uw_builds = [0 \<mapsto> LoadedSet ts]\<rparr>"
  let ?s2 = "\<lparr>uw_engine = e, uw_builds = [0 \<mapsto> Snapshotted ts (en_funcs e)]\<rparr>"
  let ?s3 = "\<lparr>uw_engine = add_funcs fs e, uw_builds = [0 \<mapsto> Snapshotted ts (en_funcs e)]\<rparr>"
  let ?s4 = "\<lparr>uw_engine = swap_in r (add_funcs fs e), uw_builds = (\<lambda>_. None)\<rparr>"
  have upd_none: "(\<lambda>x. if x = (0 :: nat) then None else None) = (\<lambda>_. None :: 'a build_pc option)"
    "[0 \<mapsto> y](0 := None) = (\<lambda>_ :: nat. None :: 'a build_pc option)" for y
    by auto
  have "ui_step ht ?s0 ?s1"
    using ui_step.load [of ?s0 0 pv ts ht] assms(1) by simp
  moreover have "ui_step ht ?s1 ?s2"
    using ui_step.snapshot [of ?s1 0 ts ht] by simp
  moreover have "ui_step ht ?s2 ?s3"
    using ui_step.funcs [of ht ?s2 fs] by simp
  moreover have "ui_step ht ?s3 ?s4"
    using ui_step.swap [of ?s3 0 ts "en_funcs e" ht pv r] assms(2) by (simp add: upd_none)
  ultimately show ?thesis
    by (meson converse_rtranclp_into_rtranclp rtranclp.rtrancl_refl)
qed

text \<open>
  AddFuncs between the snapshot and the swap of a Build is lost: the swap marks the engine as built, and
  the pages it serves from then on lack the functions.
\<close>

theorem add_funcs_lost:
  assumes "load_set pv = Inr ts" "build_result ht pv ts (en_funcs e) = Inr r" "\<not> en_dev e"
  shows "\<exists>s. (ui_step ht)\<^sup>*\<^sup>* \<lparr>uw_engine = e, uw_builds = (\<lambda>_. None)\<rparr> s \<and>
    en_funcs (uw_engine s) = en_funcs (add_funcs fs e) \<and> en_built (uw_engine s) \<and>
    fst (lookup_page ht pv name (uw_engine s)) =
      (case fst r name of None \<Rightarrow> Inl (NoTemplate name) | Some t \<Rightarrow> Inr (t, snd r))"
proof -
  have "fst (lookup_page ht pv name (swap_in r (add_funcs fs e))) =
      (case fst r name of None \<Rightarrow> Inl (NoTemplate name) | Some t \<Rightarrow> Inr (t, snd r))"
    using assms(3) by (subst lookup_page_cached) (simp_all add: swap_in_def add_funcs_def split: option.splits)
  then show ?thesis
    using build_beside_funcs [OF assms(1,2), of fs]
    by (intro exI [of _ "\<lparr>uw_engine = swap_in r (add_funcs fs e), uw_builds = (\<lambda>_. None)\<rparr>"])
      (simp add: swap_in_def add_funcs_def)
qed

section \<open>Static files\<close>

text \<open>
  What is passed on to the file server is below the prefix, and neither the root nor a directory with a
  slash at its end. A file called index.html is never served: the file server sends its requests on to
  the directory, which the handler refuses.
\<close>

lemma suffix_slash: "has_suffix s ''/'' \<longleftrightarrow> s \<noteq> [] \<and> last s = CHR ''/''"
  by (auto simp: has_suffix_iff) (metis append_butlast_last_id)

lemma strip_not_root:
  assumes "has_prefix path prefix" "path \<noteq> trim_suffix prefix ''/''" "\<not> has_suffix path ''/''"
  shows "drop (length prefix) path \<noteq> []"
proof
  assume "drop (length prefix) path = []"
  then have "path = prefix"
    using assms(1) by (auto simp: has_prefix_iff)
  then show False
    using assms(2,3) by (simp add: trim_suffix_def)
qed

lemma file_server_safe:
  assumes "rest \<noteq> []" "\<not> has_suffix rest ''/''"
  shows "(case file_server rest of
      FileAt p \<Rightarrow> \<not> has_suffix p ''/''
    | RedirectTo p \<Rightarrow> has_suffix rest ''index.html''
    | NotFound404 \<Rightarrow> True)"
proof -
  let ?p = "if has_prefix rest ''/'' then rest else CHR ''/'' # rest"
  have last: "\<not> has_suffix ?p ''/''"
    using assms by (simp add: suffix_slash)
  have "has_suffix rest ''index.html''" if "has_suffix ?p ''/index.html''"
  proof -
    from that obtain t where t: "?p = t @ ''/index.html''"
      unfolding has_suffix_iff ..
    show ?thesis
    proof (cases "has_prefix rest ''/'' \<or> t = []")
      case True
      then have "rest = (t @ ''/'') @ ''index.html'' \<or> rest = [] @ ''index.html''"
        using t by (auto split: if_splits)
      then show ?thesis
        unfolding has_suffix_iff by blast
    next
      case False
      then obtain t' where "rest = t' @ ''/index.html''"
        using t by (cases t) auto
      then have "rest = (t' @ ''/'') @ ''index.html''"
        by simp
      then show ?thesis
        unfolding has_suffix_iff by blast
    qed
  qed
  then show ?thesis
    using last by (simp add: file_server_def Let_def)
qed

theorem static_handler_safe:
  assumes "path \<noteq> []"
  shows "(case static_handler prefix path of
      FileAt p \<Rightarrow> \<not> has_suffix p ''/'' \<and> has_prefix path prefix
    | RedirectTo p \<Rightarrow> has_suffix path ''index.html'' \<and> has_prefix path prefix
    | NotFound404 \<Rightarrow> True)"
proof (cases "has_suffix path ''/'' \<or> (prefix \<noteq> '''' \<and> path = trim_suffix prefix ''/'') \<or> \<not> has_prefix path prefix")
  case True
  then show ?thesis
    by (auto simp: static_handler_def has_prefix_def)
next
  case False
  then obtain t where t: "path = prefix @ t"
    by (auto simp: has_prefix_iff)
  have "t \<noteq> []"
    using False assms strip_not_root [of path prefix] t by (cases "prefix = []") auto
  moreover from this have "\<not> has_suffix t ''/''"
    using False t by (simp add: suffix_slash)
  ultimately have "(case file_server t of
      FileAt p \<Rightarrow> \<not> has_suffix p ''/''
    | RedirectTo p \<Rightarrow> has_suffix t ''index.html''
    | NotFound404 \<Rightarrow> True)"
    by (rule file_server_safe)
  moreover have "static_handler prefix path = file_server t"
    using False t by (auto simp: static_handler_def)
  moreover have "has_suffix t ''index.html'' \<Longrightarrow> has_suffix path ''index.html''"
    using t by (auto simp: has_suffix_iff)
  ultimately show ?thesis
    using False by (auto split: static_answer.splits)
qed

theorem index_html_unreachable: "static_handler ''/static/'' ''/static/index.html'' = RedirectTo ''./'' \<and>
  static_handler ''/static/'' ''/static/'' = NotFound404"
  by (simp add: static_handler_def file_server_def has_prefix_def has_suffix_def trim_suffix_def)

text \<open>With the file system's root as working directory no static directory is accepted.\<close>

theorem root_workdir_rejects:
  "dir = CHR ''/'' # c # p \<Longrightarrow> c \<noteq> CHR ''/'' \<Longrightarrow> validate_dir (\<lambda>d. d) stat dir ''/'' = Some (StaticDirOutside dir)"
  by (simp add: validate_dir_def has_prefix_def)

section \<open>Witnesses\<close>

text \<open>Templates that all parse, and whose output is the entry and the texts.\<close>

definition demo_html :: "(nat, nat, string) html_template" where
  "demo_html =
     \<lparr>ht_parse = (\<lambda>t c. None),
      ht_execute = (\<lambda>t entry d. if d = 0 then ([], Some ''boom'') else (entry @ concat (ct_texts t), None))\<rparr>"

definition demo_provider :: "string provider" where
  "demo_provider =
     \<lparr>pv_list = Inr [''home.html'', ''layouts/base.html''],
      pv_get = (\<lambda>n. if n = ''home.html'' then Inr ''H'' else if n = ''layouts/base.html'' then Inr ''L'' else Inl TplNotFound)\<rparr>"

definition demo_engine :: "nat engine" where
  "demo_engine = new_engine [(''f'', 7)] '''' False"

definition demo_page :: "nat compiled" where
  "demo_page = \<lparr>ct_funcs = [(''f'', 7)], ct_texts = [''L'', ''H'']\<rparr>"

definition demo_set :: template_set where
  "demo_set = \<lparr>ts_layouts = [(''layouts/base.html'', ''L'')], ts_partials = [], ts_pages = [''home.html'']\<rparr>"

lemma demo_execute: "ht_execute demo_html t entry 0 = ([], Some ''boom'')"
  by (simp add: demo_html_def)

lemma demo_load: "load_set demo_provider = Inr demo_set"
  by (simp add: load_set_def demo_provider_def classify_def empty_set_def has_prefix_def demo_set_def)

lemma demo_result:
  "build_result demo_html demo_provider demo_set [(''f'', 7)] = Inr ([''home'' \<mapsto> demo_page], True)"
  by (simp add: build_result_def demo_set_def compile_def demo_html_def demo_provider_def demo_page_def
      page_key_def trim_suffix_def has_suffix_def has_prefix_def)

lemma demo_lookup:
  "lookup_page demo_html demo_provider ''home'' demo_engine =
     (Inr (demo_page, True), swap_in ([''home'' \<mapsto> demo_page], True) demo_engine)"
  using demo_result
  by (simp add: lookup_page_def build_engine_def demo_load demo_engine_def new_engine_def swap_in_def)

theorem lookup_page_fresh_witness:
  "\<exists>names p. pv_list demo_provider = Inr names \<and> p \<in> set names \<and> is_page p \<and> page_key p = ''home'' \<and>
     demo_page = page_of demo_provider names (en_funcs demo_engine) p \<and> True = (\<exists>n\<in>set names. is_layout n)"
  using lookup_page_fresh [OF demo_lookup] by (simp add: demo_engine_def new_engine_def)

theorem render_all_or_nothing_witness:
  "\<exists>w'. render_with_status demo_html demo_provider (\<lambda>s. (length s, None)) 200 ''home'' 0
      \<lparr>ur_status = None, ur_ctype = None, ur_body = []\<rparr> demo_engine =
      (Some (ExecFailed ''home'' ''boom''), w', swap_in ([''home'' \<mapsto> demo_page], True) demo_engine) \<and>
    ur_body w' = []"
proof -
  let ?w = "\<lparr>ur_status = None, ur_ctype = None, ur_body = []\<rparr>"
  let ?wire = "\<lambda>s :: string. (length s, None :: string option)"
  obtain r w' e' where run: "render_with_status demo_html demo_provider ?wire 200 ''home'' 0 ?w demo_engine = (r, w', e')"
    by (metis prod_cases3)
  have "r = Some (ExecFailed ''home'' ''boom'') \<and> w' = ?w"
    using render_all_or_nothing [OF run] by (simp add: demo_lookup demo_execute)
  moreover have "e' = swap_in ([''home'' \<mapsto> demo_page], True) demo_engine"
    using run by (simp add: render_with_status_def demo_lookup demo_execute)
  ultimately show ?thesis
    using run by simp
qed

theorem ui_cache_whole_witness:
  "\<exists>(pv :: string provider) (pv' :: string provider) ts fs. load_set pv = Inr ts \<and>
     build_result demo_html pv' ts fs = Inr ([''home'' \<mapsto> demo_page], True) \<and> ct_funcs demo_page = fs"
proof -
  obtain s where run: "(ui_step demo_html)\<^sup>*\<^sup>* \<lparr>uw_engine = demo_engine, uw_builds = (\<lambda>_. None)\<rparr> s"
    and e: "en_cache (uw_engine s) = [''home'' \<mapsto> demo_page]" "en_has_layouts (uw_engine s)"
  proof
    show "(ui_step demo_html)\<^sup>*\<^sup>* \<lparr>uw_engine = demo_engine, uw_builds = (\<lambda>_. None)\<rparr>
      \<lparr>uw_engine = swap_in ([''home'' \<mapsto> demo_page], True) (add_funcs [] demo_engine), uw_builds = (\<lambda>_. None)\<rparr>"
      by (rule build_beside_funcs [OF demo_load]) (simp add: demo_result demo_engine_def new_engine_def)
  qed (simp_all add: swap_in_def)
  show ?thesis
    using ui_cache_whole [OF run [unfolded demo_engine_def], of "''home''" demo_page] e by simp
qed

end
