(* ===== verification/Sqs_Queue.thy ===== *)
theory Sqs_Queue
  imports Http_Middleware
begin

text \<open>
  queue/sqs/service.go and the options of providers.go: what the service asks of the SQS client and what
  it makes of the answers. The client is a parameter, a function from requests to answers over its own
  state; the requests sent so far are part of the result. Seconds are those of Http_Middleware.
\<close>

section \<open>Options\<close>

datatype enqueue_option = WithDelay int | WithGroupID string | WithDedupeID string | WithJobAttributes "(string \<times> string) list"

record enqueue_options =
  eo_attributes :: "(string \<times> string) list"
  eo_group :: string
  eo_dedupe :: string
  eo_delay :: int

fun apply_enqueue_option :: "enqueue_option \<Rightarrow> enqueue_options \<Rightarrow> enqueue_options" where
  "apply_enqueue_option (WithDelay d) o1 = o1\<lparr>eo_delay := d\<rparr>"
| "apply_enqueue_option (WithGroupID g) o1 = o1\<lparr>eo_group := g\<rparr>"
| "apply_enqueue_option (WithDedupeID g) o1 = o1\<lparr>eo_dedupe := g\<rparr>"
| "apply_enqueue_option (WithJobAttributes as) o1 = o1\<lparr>eo_attributes := as\<rparr>"

definition apply_enqueue_options :: "enqueue_option list \<Rightarrow> enqueue_options" where
  "apply_enqueue_options opts =
     fold apply_enqueue_option opts \<lparr>eo_attributes = [], eo_group = '''', eo_dedupe = '''', eo_delay = 0\<rparr>"

section \<open>Requests and answers\<close>

text \<open>An attribute of a message has a string value or none.\<close>

record sqs_message =
  sm_id :: "string option"
  sm_receipt :: "string option"
  sm_body :: "string option"
  sm_system :: "(string \<times> string) list"
  sm_attributes :: "(string \<times> string option) list"

datatype sqs_request =
    SendMessage string string "int option" "string option" "string option" "(string \<times> string) list"
  | ReceiveMessage string int int int
  | DeleteMessage string string
  | ChangeVisibility string string int

datatype sqs_answer = Accepted | Messages "sqs_message list"

type_synonym ('e, 'w) sqs_client = "sqs_request \<Rightarrow> 'w \<Rightarrow> ('e + sqs_answer) \<times> 'w"

record job =
  jb_id :: string
  jb_receipt :: string
  jb_body :: string
  jb_attributes :: "(string \<times> string) list"

datatype 'e sqs_error =
    QueueClosed
  | QueueNotInitialized
  | BindFailed 'e
  | ClientFailed string 'e
  | Int32Overflow string rat
  | NilClient

record ('e, 'w) sqs =
  sq_client :: "('e, 'w) sqs_client option"
  sq_custom_client :: bool
  sq_wait_seconds :: int
  sq_visibility :: int
  sq_closed :: bool
  sq_sent :: "sqs_request list"
  sq_world :: 'w

definition new_sqs :: "('e, 'w) sqs_client option \<Rightarrow> int \<Rightarrow> int \<Rightarrow> 'w \<Rightarrow> ('e, 'w) sqs" where
  "new_sqs custom wait_seconds visibility w =
     \<lparr>sq_client = custom, sq_custom_client = custom \<noteq> None, sq_wait_seconds = wait_seconds,
      sq_visibility = visibility, sq_closed = False, sq_sent = [], sq_world = w\<rparr>"

text \<open>
  Init, with the error of Bind and what createClient gives: the client, or the step that failed.
\<close>

definition sqs_init ::
  "'e option \<Rightarrow> (string \<times> 'e) + ('e, 'w) sqs_client \<Rightarrow> ('e, 'w) sqs \<Rightarrow> 'e sqs_error option \<times> ('e, 'w) sqs" where
  "sqs_init bind_err made s =
     (case bind_err of
        Some e \<Rightarrow> (Some (BindFailed e), s)
      | None \<Rightarrow>
          (if sq_custom_client s then (None, s\<lparr>sq_closed := False\<rparr>)
           else case made of
             Inl (what, e) \<Rightarrow> (Some (ClientFailed what e), s)
           | Inr c \<Rightarrow> (None, s\<lparr>sq_client := Some c, sq_closed := False\<rparr>)))"

definition sqs_close :: "('e, 'w) sqs \<Rightarrow> ('e, 'w) sqs" where
  "sqs_close s = s\<lparr>sq_closed := True\<rparr>"

definition sqs_check_ready :: "('e, 'w) sqs \<Rightarrow> 'e sqs_error option" where
  "sqs_check_ready s =
     (if sq_client s = None then Some QueueNotInitialized else if sq_closed s then Some QueueClosed else None)"

text \<open>A call of the client. Before Init there is none, and the call panics.\<close>

definition ask_client ::
  "string \<Rightarrow> sqs_request \<Rightarrow> ('e, 'w) sqs \<Rightarrow> ('e sqs_error + sqs_answer) \<times> ('e, 'w) sqs" where
  "ask_client what req s =
     (case sq_client s of
        None \<Rightarrow> (Inl NilClient, s)
      | Some c \<Rightarrow>
          (case c req (sq_world s) of
             (r, w) \<Rightarrow>
               (case r of Inl e \<Rightarrow> Inl (ClientFailed what e) | Inr a \<Rightarrow> Inr a,
                s\<lparr>sq_sent := sq_sent s @ [req], sq_world := w\<rparr>)))"

section \<open>Numbers\<close>

text \<open>
  safeInt32 on a value of a numeric type, and the plain conversion, whose result outside the range Go
  leaves to the platform: the parameter \<open>wild\<close>.
\<close>

definition in_int32 :: "rat \<Rightarrow> bool" where
  "in_int32 n \<longleftrightarrow> \<not> (n > 2147483647 \<or> n < -2147483648)"

definition safe_int32 :: "string \<Rightarrow> rat \<Rightarrow> 'e sqs_error + int" where
  "safe_int32 what n = (if \<not> in_int32 n then Inl (Int32Overflow what n) else Inr (float_to_int n))"

definition int32_of :: "(rat \<Rightarrow> int) \<Rightarrow> rat \<Rightarrow> int" where
  "int32_of wild n = (if in_int32 n then float_to_int n else wild n)"

section \<open>Operations\<close>

definition enqueue ::
  "(rat \<Rightarrow> int) \<Rightarrow> string \<Rightarrow> string \<Rightarrow> enqueue_option list \<Rightarrow> ('e, 'w) sqs
    \<Rightarrow> 'e sqs_error option \<times> ('e, 'w) sqs" where
  "enqueue wild url payload opts s =
     (if sq_closed s then (Some QueueClosed, s)
      else
        (let o1 = apply_enqueue_options opts;
             req = SendMessage url payload
               (if eo_delay o1 > 0 then Some (int32_of wild (seconds (eo_delay o1))) else None)
               (if eo_group o1 \<noteq> '''' then Some (eo_group o1) else None)
               (if eo_dedupe o1 \<noteq> '''' then Some (eo_dedupe o1) else None)
               (eo_attributes o1) in
         case ask_client ''enqueue'' req s of
           (Inl e, s1) \<Rightarrow> (Some e, s1)
         | (Inr a, s1) \<Rightarrow> (None, s1)))"

definition receive_message_params ::
  "int \<Rightarrow> int \<Rightarrow> ('e, 'w) sqs \<Rightarrow> 'e sqs_error + int \<times> int \<times> int" where
  "receive_message_params max_messages wait s =
     (let m = (if max_messages < 1 then 1 else max_messages);
          m = (if m > 10 then 10 else m) in
      case safe_int32 ''wait duration'' (seconds wait) of
        Inl e \<Rightarrow> Inl e
      | Inr w \<Rightarrow>
          (case (if w = 0 then safe_int32 ''wait time'' (of_int (sq_wait_seconds s)) else Inr w) of
             Inl e \<Rightarrow> Inl e
           | Inr w1 \<Rightarrow>
               (case safe_int32 ''maxMessages'' (of_int m) of
                  Inl e \<Rightarrow> Inl e
                | Inr m1 \<Rightarrow>
                    (case safe_int32 ''visibility timeout'' (seconds (sq_visibility s)) of
                       Inl e \<Rightarrow> Inl e
                     | Inr v \<Rightarrow> Inr (m1, w1, v)))))"

text \<open>aws.ToString gives the empty string for nil. Attributes of the message overwrite those of the system.\<close>

definition to_string :: "string option \<Rightarrow> string" where
  "to_string x = (case x of None \<Rightarrow> '''' | Some s \<Rightarrow> s)"

definition job_of :: "sqs_message \<Rightarrow> job" where
  "job_of m =
     \<lparr>jb_id = to_string (sm_id m), jb_receipt = to_string (sm_receipt m), jb_body = to_string (sm_body m),
      jb_attributes =
        fold (\<lambda>(k, v) as. case v of None \<Rightarrow> as | Some x \<Rightarrow> AList.update k x as) (sm_attributes m)
          (fold (\<lambda>(k, v). AList.update k v) (sm_system m) [])\<rparr>"

definition dequeue :: "string \<Rightarrow> int \<Rightarrow> int \<Rightarrow> ('e, 'w) sqs \<Rightarrow> ('e sqs_error + job list) \<times> ('e, 'w) sqs" where
  "dequeue url max_messages wait s =
     (if sq_closed s then (Inl QueueClosed, s)
      else case receive_message_params max_messages wait s of
        Inl e \<Rightarrow> (Inl e, s)
      | Inr (m, w, v) \<Rightarrow>
          (case ask_client ''dequeue'' (ReceiveMessage url m w v) s of
             (Inl e, s1) \<Rightarrow> (Inl e, s1)
           | (Inr (Messages ms), s1) \<Rightarrow> (Inr (map job_of ms), s1)
           | (Inr Accepted, s1) \<Rightarrow> (Inr [], s1)))"

definition ack :: "string \<Rightarrow> job \<Rightarrow> ('e, 'w) sqs \<Rightarrow> 'e sqs_error option \<times> ('e, 'w) sqs" where
  "ack url j s =
     (if sq_closed s then (Some QueueClosed, s)
      else case ask_client ''ack'' (DeleteMessage url (jb_receipt j)) s of
        (Inl e, s1) \<Rightarrow> (Some e, s1) | (Inr a, s1) \<Rightarrow> (None, s1))"

definition nack :: "string \<Rightarrow> job \<Rightarrow> ('e, 'w) sqs \<Rightarrow> 'e sqs_error option \<times> ('e, 'w) sqs" where
  "nack url j s =
     (if sq_closed s then (Some QueueClosed, s)
      else case ask_client ''nack'' (ChangeVisibility url (jb_receipt j) 0) s of
        (Inl e, s1) \<Rightarrow> (Some e, s1) | (Inr a, s1) \<Rightarrow> (None, s1))"

end
