(* ===== verification/Sqs_Properties.thy ===== *)
theory Sqs_Properties
  imports Sqs_Queue Http_Middleware_Properties
begin

text \<open>
  What the queue service asks for and gives: nothing is sent once it is closed, requests keep within the
  limits of SQS, and a job carries its message.
\<close>

section \<open>Requests\<close>

lemma ask_client_sent:
  "ask_client what req s = (r, s') \<Longrightarrow>
     sq_sent s' = sq_sent s @ (if sq_client s = None then [] else [req]) \<and> sq_closed s' = sq_closed s"
  by (auto simp: ask_client_def split: option.splits prod.splits)

text \<open>A closed service sends nothing, whatever it is asked, until the next successful Init.\<close>

theorem closed_queue_silent:
  assumes "sq_closed s"
  shows "enqueue wild url payload opts s = (Some QueueClosed, s) \<and> dequeue url n wait s = (Inl QueueClosed, s) \<and>
    ack url j s = (Some QueueClosed, s) \<and> nack url j s = (Some QueueClosed, s) \<and>
    (sqs_init bind_err made s = (r, s') \<longrightarrow> (sq_closed s' \<longleftrightarrow> r \<noteq> None))"
  using assms
  by (auto simp: enqueue_def dequeue_def ack_def nack_def sqs_init_def split: option.splits sum.splits if_splits)

text \<open>
  Dequeue sends at most one request: for one to ten messages and, when the durations are whole seconds
  and within the limits of SQS, for the wait that was asked for, or the configured one when that is zero.
\<close>

theorem dequeue_within_limits:
  assumes "dequeue url n (w * 1000000000) s = (r, s')" and "\<not> sq_closed s" "sq_client s \<noteq> None"
    and "0 \<le> w" "w \<le> 20" "0 \<le> sq_wait_seconds s" "sq_wait_seconds s \<le> 20"
    and "sq_visibility s = v * 1000000000" "0 \<le> v" "v \<le> 43200"
  shows "\<exists>m. 1 \<le> m \<and> m \<le> 10 \<and> (1 \<le> n \<and> n \<le> 10 \<longrightarrow> m = n) \<and>
    sq_sent s' = sq_sent s @ [ReceiveMessage url m (if w = 0 then sq_wait_seconds s else w) v]"
proof -
  let ?m = "if (if n < 1 then 1 else n) > 10 then 10 else if n < 1 then 1 else n"
  have int: "safe_int32 what (of_int k) = (Inr k :: 'a sqs_error + int)" if "0 \<le> k" "k \<le> 43200" for what k
    using that by (simp add: safe_int32_def in_int32_def float_to_int_def)
  have secs: "seconds (k * 1000000000) = of_int k" for k
    by (rule seconds_whole)
  have "receive_message_params n (w * 1000000000) s =
      (Inr (?m, if w = 0 then sq_wait_seconds s else w, v) :: 'a sqs_error + int \<times> int \<times> int)"
    using assms(4-10) by (simp add: receive_message_params_def secs int Let_def)
  then show ?thesis
    using assms(1-3) ask_client_sent [of "''dequeue''" _ s]
    by (auto simp: dequeue_def split: prod.splits sum.splits sqs_answer.splits intro!: exI [of _ ?m])
qed

lemma half_second: "float_to_int (seconds 500000000) = 0 \<and> in_int32 (seconds 500000000)"
  by code_simp

text \<open>
  A wait below a second is taken for none, and the configured wait, 20 seconds by default, is used. A
  wait of zero cannot ask for an immediate answer either.
\<close>

theorem short_wait_waits_long:
  "receive_message_params 1 500000000 (new_sqs (Some c) 20 30000000000 w) = (Inr (1, 20, 30) :: 'e sqs_error + int \<times> int \<times> int)"
  using half_second seconds_whole [of 30]
  by (simp add: receive_message_params_def new_sqs_def safe_int32_def Let_def) (simp add: in_int32_def float_to_int_def)

text \<open>Before Init the client is nil and Enqueue panics, as the closed flag starts out false.\<close>

theorem enqueue_before_init:
  "enqueue wild url payload opts (new_sqs None ws v w) = (Some NilClient, new_sqs None ws v w)"
  by (simp add: enqueue_def ask_client_def new_sqs_def Let_def)

section \<open>Jobs\<close>

lemma fold_updates_option:
  "map_of (fold (\<lambda>(k, v) as. case v of None \<Rightarrow> as | Some x \<Rightarrow> AList.update k x as) xs as) k =
     (case map_of (rev (List.map_filter (\<lambda>(k, v). map_option (Pair k) v) xs)) k of
        None \<Rightarrow> map_of as k | Some x \<Rightarrow> Some x)"
  by (induction xs arbitrary: as)
    (auto simp: map_filter_simps update_conv' map_add_def split: option.splits)

lemma fold_updates_pairs:
  "map_of (fold (\<lambda>(k, v). AList.update k v) xs as) k =
     (case map_of (rev xs) k of None \<Rightarrow> map_of as k | Some x \<Rightarrow> Some x)"
  by (induction xs arbitrary: as) (auto simp: update_conv' map_add_def split: option.splits)

text \<open>
  A job has the message's body and receipt handle, and as attributes those of the message that have a
  string value, in front of those of the system. Ack and Nack name the message by its receipt.
\<close>

theorem job_of_message:
  "jb_body (job_of m) = to_string (sm_body m) \<and>
   map_of (jb_attributes (job_of m)) k =
     (case map_of (rev (List.map_filter (\<lambda>(k, v). map_option (Pair k) v) (sm_attributes m))) k of
        Some x \<Rightarrow> Some x | None \<Rightarrow> map_of (rev (sm_system m)) k) \<and>
   (\<not> sq_closed s \<and> sq_client s \<noteq> None \<longrightarrow>
      sq_sent (snd (ack url (job_of m) s)) = sq_sent s @ [DeleteMessage url (to_string (sm_receipt m))] \<and>
      sq_sent (snd (nack url (job_of m) s)) = sq_sent s @ [ChangeVisibility url (to_string (sm_receipt m)) 0])"
proof -
  have sent: "sq_sent (snd (ack url j s)) = sq_sent s @ [DeleteMessage url (jb_receipt j)]"
    "sq_sent (snd (nack url j s)) = sq_sent s @ [ChangeVisibility url (jb_receipt j) 0]"
    if "\<not> sq_closed s" "sq_client s \<noteq> None" for j
    using that by (auto simp: ack_def nack_def ask_client_def split: option.splits sum.splits prod.splits)
  have "map_of (jb_attributes (job_of m)) k =
     (case map_of (rev (List.map_filter (\<lambda>(k, v). map_option (Pair k) v) (sm_attributes m))) k of
        Some x \<Rightarrow> Some x | None \<Rightarrow> map_of (rev (sm_system m)) k)"
    by (simp add: job_of_def fold_updates_option fold_updates_pairs split: option.splits)
  then show ?thesis
    using sent [of "job_of m"] by (auto simp: job_of_def)
qed

end
