(* ===== verification/Request_Context.thy ===== *)
theory Request_Context
  imports Http_Errors
begin

text \<open>
  context.go and validation.go: the response a handler writes through its Context, and the binding of
  request bodies. The response writer is that of net/http as far as a handler sees it: the header is
  what Set left when the status is sent, the first final status counts, and writing sends 200. The JSON and
  XML encoders, the decoders and the validator work by reflection and are parameters; the reader that
  limits a body is modelled.
\<close>

section \<open>The response writer\<close>

record writer =
  wr_header :: "string \<rightharpoonup> string"
  wr_sent :: "(int \<times> (string \<rightharpoonup> string)) option"
  wr_body :: string

text \<open>
  The connection: how many bytes of a write it takes, and the error it ends with. WriteHeader panics on a
  number that is no status; an informational status does not end the header.
\<close>

type_synonym wire = "string \<Rightarrow> nat \<times> goerr option"

definition set_header :: "string \<Rightarrow> string \<Rightarrow> writer \<Rightarrow> writer" where
  "set_header k v w = w\<lparr>wr_header := (wr_header w)(k \<mapsto> v)\<rparr>"

definition send_status :: "int \<Rightarrow> writer \<Rightarrow> writer run" where
  "send_status st w =
     (if wr_sent w \<noteq> None then Ran w
      else if st < 100 \<or> st > 999 then Panics (Opaque ''invalid WriteHeader code'' False)
      else if st < 200 \<and> st \<noteq> 101 then Ran w
      else Ran (w\<lparr>wr_sent := Some (st, wr_header w)\<rparr>))"

text \<open>No body goes with 1xx, 204 and 304.\<close>

definition bodyless :: "int \<Rightarrow> bool" where
  "bodyless st \<longleftrightarrow> st < 200 \<or> st = 204 \<or> st = 304"

definition write_bytes :: "wire \<Rightarrow> string \<Rightarrow> writer \<Rightarrow> goerr option \<times> writer" where
  "write_bytes wire s w =
     (let w1 = (if wr_sent w = None then w\<lparr>wr_sent := Some (200, wr_header w)\<rparr> else w) in
      if s = [] then (None, w1)
      else if bodyless (fst (the (wr_sent w1))) then (Some (Opaque ''request method or response status code does not allow body'' False), w1)
      else case wire s of (n, e) \<Rightarrow> (e, w1\<lparr>wr_body := wr_body w1 @ take n s\<rparr>))"

text \<open>A status and then a body; an error is wrapped in the text given.\<close>

definition wrapped :: "string \<Rightarrow> goerr option \<Rightarrow> goerr option" where
  "wrapped what e = map_option (\<lambda>x. Wraps (what @ '': '' @ error_string x) [x]) e"

definition respond :: "wire \<Rightarrow> string \<Rightarrow> int \<Rightarrow> string \<Rightarrow> writer \<Rightarrow> (goerr option \<times> writer) run" where
  "respond wire what st s w =
     (case send_status st w of
        Panics e \<Rightarrow> Panics e
      | Ran w1 \<Rightarrow> (case write_bytes wire s w1 of (e, w2) \<Rightarrow> Ran (wrapped what e, w2)))"

section \<open>Responses of the context\<close>

text \<open>
  JSON: the encoder gives its output, and writes it in one call, or an error before it writes anything.
\<close>

definition ctx_json :: "wire \<Rightarrow> ('v \<Rightarrow> goerr + string) \<Rightarrow> int \<Rightarrow> 'v \<Rightarrow> writer \<Rightarrow> (goerr option \<times> writer) run" where
  "ctx_json wire encode st v w =
     (case send_status st (set_header ''Content-Type'' ''application/json'' w) of
        Panics e \<Rightarrow> Panics e
      | Ran w1 \<Rightarrow>
          (case encode v of
             Inl e \<Rightarrow> Ran (wrapped ''failed to encode JSON'' (Some e), w1)
           | Inr s \<Rightarrow> (case write_bytes wire s w1 of (e, w2) \<Rightarrow> Ran (wrapped ''failed to encode JSON'' e, w2))))"

definition xml_header :: string where
  "xml_header = ''<?xml version='' @ [CHR 0x22] @ ''1.0'' @ [CHR 0x22] @ '' encoding='' @ [CHR 0x22] @ ''UTF-8'' @ [CHR 0x22] @ ''?>'' @ [CHR 0x0A]"

text \<open>
  XML: what Encode writes and its error, and the error of Close, which is joined to it.
\<close>

definition xml_with_content_type ::
  "wire \<Rightarrow> ('v \<Rightarrow> string \<times> goerr option) \<Rightarrow> goerr option \<Rightarrow> int \<Rightarrow> 'v \<Rightarrow> string \<Rightarrow> writer
    \<Rightarrow> (goerr option \<times> writer) run" where
  "xml_with_content_type wire encode close_err st v ctype w =
     (case send_status st (set_header ''Content-Type'' ctype w) of
        Panics e \<Rightarrow> Panics e
      | Ran w1 \<Rightarrow>
          (case write_bytes wire xml_header w1 of
             (Some e, w2) \<Rightarrow> Ran (wrapped ''failed to write XML header'' (Some e), w2)
           | (None, w2) \<Rightarrow>
               (case encode v of
                  (s, enc_err) \<Rightarrow>
                    (case write_bytes wire s w2 of
                       (we, w3) \<Rightarrow>
                         (case (if enc_err \<noteq> None then enc_err else we) of
                            Some e \<Rightarrow>
                              Ran (wrapped ''failed to encode XML''
                                     (Some (case close_err of
                                        None \<Rightarrow> e
                                      | Some c \<Rightarrow> Wraps (error_string e @ [CHR 0x0A] @ error_string c) [e, c])), w3)
                          | None \<Rightarrow> Ran (wrapped ''failed to close XML encoder'' close_err, w3))))))"

definition ctx_xml ::
  "wire \<Rightarrow> ('v \<Rightarrow> string \<times> goerr option) \<Rightarrow> goerr option \<Rightarrow> int \<Rightarrow> 'v \<Rightarrow> writer
    \<Rightarrow> (goerr option \<times> writer) run" where
  "ctx_xml wire encode close_err st v w =
     xml_with_content_type wire encode close_err st v ''application/xml; charset=utf-8'' w"

definition ctx_html :: "wire \<Rightarrow> int \<Rightarrow> string \<Rightarrow> writer \<Rightarrow> (goerr option \<times> writer) run" where
  "ctx_html wire st s w =
     respond wire ''failed to write response'' st s (set_header ''Content-Type'' ''text/html; charset=utf-8'' w)"

definition ctx_text :: "wire \<Rightarrow> int \<Rightarrow> string \<Rightarrow> writer \<Rightarrow> (goerr option \<times> writer) run" where
  "ctx_text wire st s w =
     respond wire ''failed to write response'' st s (set_header ''Content-Type'' ''text/plain; charset=utf-8'' w)"

definition ctx_blob :: "wire \<Rightarrow> int \<Rightarrow> string \<Rightarrow> string \<Rightarrow> writer \<Rightarrow> (goerr option \<times> writer) run" where
  "ctx_blob wire st ctype b w =
     respond wire ''failed to write response'' st b
       (if ctype \<noteq> '''' then set_header ''Content-Type'' ctype w else w)"

definition ctx_no_content :: "writer \<Rightarrow> (goerr option \<times> writer) run" where
  "ctx_no_content w = (case send_status 204 w of Panics e \<Rightarrow> Panics e | Ran w1 \<Rightarrow> Ran (None, w1))"

section \<open>Validation\<close>

text \<open>A violation the validator reports: field, tag and parameter.\<close>

type_synonym violation = "string \<times> string \<times> string"

definition validation_message :: "string \<Rightarrow> string \<Rightarrow> string" where
  "validation_message tag param =
     (if tag = ''required'' then ''is required''
      else if tag = ''email'' then ''must be a valid email address''
      else if tag = ''min'' then ''must be at least '' @ param
      else if tag = ''max'' then ''must be at most '' @ param
      else if tag = ''len'' then ''must be exactly '' @ param @ '' characters''
      else if tag = ''oneof'' then ''must be one of: '' @ param
      else if tag = ''url'' then ''must be a valid URL''
      else if tag = ''uuid'' then ''must be a valid UUID''
      else ''failed the '' @ tag @ '' rule'' @ (if param \<noteq> '''' then '' ('' @ param @ '')'' else ''''))"

definition validation_field_errors :: "violation list \<Rightarrow> field_error list" where
  "validation_field_errors vs =
     map (\<lambda>(f, tag, param). \<lparr>fe_field = f, fe_rule = tag, fe_message = validation_message tag param\<rparr>) vs"

text \<open>
  The name of a field in errors, of its json and form tags: the part of the tag in front of a comma, and
  none for the tag of a field that is not sent.
\<close>

definition tag_name :: "string \<Rightarrow> string" where
  "tag_name tag = takeWhile (\<lambda>c. c \<noteq> CHR '','') tag"

definition validator_field_name :: "string \<Rightarrow> string \<Rightarrow> string \<Rightarrow> string" where
  "validator_field_name json_tag form_tag go_name =
     (let n = (if tag_name json_tag = '''' then tag_name form_tag else tag_name json_tag);
          n = (if n = ''-'' then '''' else n) in
      if n = '''' then go_name else n)"

text \<open>
  validateStruct, with what Struct returns: nothing, or an error and the violations it carries, if it is
  a list of violations.
\<close>

fun with_fields :: "field_error list \<Rightarrow> goerr \<Rightarrow> goerr" where
  "with_fields fs (HErr st code msg _ ds c) = HErr st code msg fs ds c"
| "with_fields fs e = e"

definition validate_struct :: "('v \<Rightarrow> (goerr \<times> violation list option) option) \<Rightarrow> 'v \<Rightarrow> goerr option" where
  "validate_struct check v =
     (case check v of
        None \<Rightarrow> None
      | Some (err, vs) \<Rightarrow>
          (let e = with_cause err (unprocessable ''request validation failed'') in
           Some (case vs of None \<Rightarrow> e | Some vs \<Rightarrow> with_fields (validation_field_errors vs) e)))"

section \<open>Binding\<close>

text \<open>
  What the JSON scanner makes of bytes: the length of a complete first value, an error, or a need for more.
  At the end of the input a value may be complete, as a number is.
\<close>

datatype scanned = ValueEnds nat | Broken goerr | NeedsMore

record 'v json_dec =
  js_scan :: "string \<Rightarrow> scanned"
  js_at_end :: "string \<Rightarrow> bool"
  js_into :: "string \<Rightarrow> goerr + 'v"

datatype read_error = TooLarge | JsonError goerr

text \<open>
  Decode of a decoder over http.MaxBytesReader: the scanner sees the bytes within the limit; only when it
  needs more and there are more is the limit an error. A limit that is not positive is none.
\<close>

definition read_value :: "'v json_dec \<Rightarrow> int \<Rightarrow> string \<Rightarrow> read_error + 'v" where
  "read_value js limit body =
     (let seen = (if limit > 0 then take (nat limit) body else body) in
      case (case js_scan js seen of
              ValueEnds n \<Rightarrow> Inr (take n seen)
            | Broken e \<Rightarrow> Inl (JsonError e)
            | NeedsMore \<Rightarrow>
                if limit > 0 \<and> length body > nat limit then Inl TooLarge
                else if js_at_end js seen then Inr seen
                else Inl (JsonError (Opaque ''unexpected EOF'' False))) of
        Inl e \<Rightarrow> Inl e
      | Inr text \<Rightarrow> (case js_into js text of Inl e \<Rightarrow> Inl (JsonError e) | Inr v \<Rightarrow> Inr v))"

definition max_bytes_error :: goerr where
  "max_bytes_error = Opaque ''http: request body too large'' False"

definition bind_json ::
  "'v json_dec \<Rightarrow> ('v \<Rightarrow> (goerr \<times> violation list option) option) \<Rightarrow> int \<Rightarrow> string \<Rightarrow> goerr option \<times> 'v option" where
  "bind_json js check limit body =
     (case read_value js limit body of
        Inl TooLarge \<Rightarrow>
          (Some (with_cause max_bytes_error (new_error 413 ''payload_too_large'' ''request body is too large'')), None)
      | Inl (JsonError e) \<Rightarrow>
          (Some (with_cause e (new_error 400 ''invalid_json'' ''request body is not valid JSON'')), None)
      | Inr v \<Rightarrow> (validate_struct check v, Some v))"

definition default_max_json_body :: int where
  "default_max_json_body = 1048576"

text \<open>BindForm, with the result of ParseForm and what the form decoder makes of it.\<close>

definition bind_form ::
  "('q \<Rightarrow> goerr + 'f) \<Rightarrow> ('f \<Rightarrow> goerr + 'v) \<Rightarrow> ('v \<Rightarrow> (goerr \<times> violation list option) option) \<Rightarrow> 'q
    \<Rightarrow> goerr option \<times> 'v option" where
  "bind_form parse decode check r =
     (case parse r of
        Inl e \<Rightarrow> (Some (with_cause e (new_error 400 ''invalid_form'' ''request form data could not be parsed'')), None)
      | Inr f \<Rightarrow>
          (case decode f of
             Inl e \<Rightarrow> (Some (with_cause e (new_error 400 ''invalid_form'' ''request form data could not be decoded'')), None)
           | Inr v \<Rightarrow> (validate_struct check v, Some v)))"

text \<open>Principal: the one an authenticator left in the context, or 401.\<close>

definition ctx_principal :: "'p option \<Rightarrow> goerr + 'p" where
  "ctx_principal p = (case p of None \<Rightarrow> Inl (unauthorized ''Unauthorized'') | Some x \<Rightarrow> Inr x)"

text \<open>The constructors with a cause.\<close>

definition caused_error :: "(string \<Rightarrow> goerr) \<Rightarrow> goerr \<Rightarrow> string \<Rightarrow> goerr" where
  "caused_error kind err msg = with_cause err (kind msg)"

section \<open>Properties\<close>

text \<open>
  The response a handler gives through its context is decided by the first status: whatever it calls
  afterwards, the status and the header sent stay, and bytes are only added.
\<close>

definition keeps_sent :: "writer \<Rightarrow> writer \<Rightarrow> bool" where
  "keeps_sent w w' \<longleftrightarrow> wr_sent w' = wr_sent w \<and> (\<exists>more. wr_body w' = wr_body w @ more)"

lemma keeps_refl: "keeps_sent w w"
  by (simp add: keeps_sent_def)

lemma keeps_trans: "keeps_sent w w1 \<Longrightarrow> keeps_sent w1 w2 \<Longrightarrow> keeps_sent w w2"
  by (auto simp: keeps_sent_def)

lemma keeps_header: "keeps_sent w (set_header k v w)"
  by (simp add: keeps_sent_def set_header_def)

lemma send_again: "wr_sent w \<noteq> None \<Longrightarrow> send_status st w = Ran w"
  by (simp add: send_status_def)

lemma write_again:
  assumes "wr_sent w \<noteq> None" "write_bytes wire s w = (e, w')"
  shows "keeps_sent w w'"
  using assms by (auto simp: write_bytes_def keeps_sent_def Let_def split: prod.splits if_splits)

datatype 'v respond_call =
    CallJSON int 'v
  | CallXML int 'v
  | CallHTML int string
  | CallText int string
  | CallBlob int string string
  | CallNoContent
  | CallSetHeader string string

fun ctx_call :: "wire \<Rightarrow> ('v \<Rightarrow> goerr + string) \<Rightarrow> ('v \<Rightarrow> string \<times> goerr option) \<Rightarrow> 'v respond_call \<Rightarrow> writer
    \<Rightarrow> (goerr option \<times> writer) run" where
  "ctx_call wire je xe (CallJSON st v) w = ctx_json wire je st v w"
| "ctx_call wire je xe (CallXML st v) w = ctx_xml wire xe None st v w"
| "ctx_call wire je xe (CallHTML st s) w = ctx_html wire st s w"
| "ctx_call wire je xe (CallText st s) w = ctx_text wire st s w"
| "ctx_call wire je xe (CallBlob st t b) w = ctx_blob wire st t b w"
| "ctx_call wire je xe CallNoContent w = ctx_no_content w"
| "ctx_call wire je xe (CallSetHeader k v) w = Ran (None, set_header k v w)"

lemma respond_again:
  assumes "wr_sent w \<noteq> None"
  shows "\<exists>r w'. respond wire what st s w = Ran (r, w') \<and> keeps_sent w w'"
proof -
  obtain e w' where "write_bytes wire s w = (e, w')"
    by fastforce
  then show ?thesis
    using write_again [OF assms] by (simp add: respond_def send_again [OF assms])
qed

lemma header_sent: "wr_sent w \<noteq> None \<Longrightarrow> wr_sent (set_header k v w) \<noteq> None"
  by (simp add: set_header_def)

theorem first_response_stands:
  assumes "wr_sent w \<noteq> None"
  shows "\<exists>r w'. ctx_call wire je xe c w = Ran (r, w') \<and> keeps_sent w w'"
proof (cases c)
  case (CallJSON st v)
  let ?w = "set_header ''Content-Type'' ''application/json'' w"
  show ?thesis
  proof (cases "je v")
    case (Inl e)
    then show ?thesis
      using CallJSON keeps_header by (simp add: ctx_json_def send_again header_sent [OF assms])
  next
    case (Inr s)
    obtain e w' where "write_bytes wire s ?w = (e, w')"
      by fastforce
    moreover from this have "keeps_sent w w'"
      using write_again header_sent [OF assms] keeps_header keeps_trans by blast
    ultimately show ?thesis
      using CallJSON Inr by (simp add: ctx_json_def send_again header_sent [OF assms])
  qed
next
  case (CallXML st v)
  let ?w = "set_header ''Content-Type'' ''application/xml; charset=utf-8'' w"
  obtain e w1 where w1: "write_bytes wire xml_header ?w = (e, w1)"
    by fastforce
  have kept: "keeps_sent w w1"
    using write_again [OF header_sent [OF assms] w1] keeps_header keeps_trans by blast
  then have sent1: "wr_sent w1 \<noteq> None"
    using assms by (simp add: keeps_sent_def)
  obtain s ee where s: "xe v = (s, ee)"
    by fastforce
  obtain we w2 where w2: "write_bytes wire s w1 = (we, w2)"
    by fastforce
  have "keeps_sent w w2"
    using write_again [OF sent1 w2] kept keeps_trans by blast
  then show ?thesis
    using CallXML w1 w2 s kept
    by (auto simp: ctx_xml_def xml_with_content_type_def send_again header_sent [OF assms] split: option.splits)
next
  case (CallHTML st s)
  then show ?thesis
    using respond_again [OF header_sent [OF assms]] keeps_header keeps_trans
    by (fastforce simp: ctx_html_def)
next
  case (CallText st s)
  then show ?thesis
    using respond_again [OF header_sent [OF assms]] keeps_header keeps_trans
    by (fastforce simp: ctx_text_def)
next
  case (CallBlob st t b)
  then show ?thesis
    using respond_again [OF assms, of wire _ st b]
      respond_again [OF header_sent [OF assms, of "''Content-Type''" t], of wire _ st b] keeps_header keeps_trans
    by (fastforce simp: ctx_blob_def)
next
  case CallNoContent
  then show ?thesis
    using assms keeps_refl by (simp add: ctx_no_content_def send_again)
next
  case (CallSetHeader k v)
  then show ?thesis
    using keeps_header by simp
qed

text \<open>
  JSON sends its status before it encodes: a value that cannot be encoded leaves that status on the
  response, with an empty body, and an error whose own status can no longer be sent.
\<close>

theorem json_error_keeps_status:
  assumes "je v = Inl e" "wr_sent w = None" "200 \<le> st" "st \<le> 999"
  shows "\<exists>r w'. ctx_json wire je st v w = Ran (Some r, w') \<and> wr_body w' = wr_body w \<and>
    fst (the (wr_sent w')) = st \<and> wr_sent w' \<noteq> None \<and> send_status 500 w' = Ran w'"
  using assms by (auto simp: ctx_json_def send_status_def set_header_def wrapped_def)

definition reported :: "violation list option \<Rightarrow> violation list" where
  "reported vs = (case vs of None \<Rightarrow> [] | Some l \<Rightarrow> l)"

text \<open>
  BindJSON: the value is bound exactly when one within the limit is read, decoded and valid; otherwise
  the error is an *Error with the status for the reason, the reason as its cause, and one field for each
  violation, in the validator's order.
\<close>

theorem bind_json_outcome:
  assumes "bind_json js check limit body = (r, v)"
  shows "(case r of
      None \<Rightarrow> \<exists>x. v = Some x \<and> read_value js limit body = Inr x \<and> check x = None
    | Some (HErr st code msg fs ds c) \<Rightarrow>
        (st = 413 \<and> read_value js limit body = Inl TooLarge \<and> fs = [] \<and> 0 < limit \<and> limit < int (length body)) \<or>
        (st = 400 \<and> (\<exists>e. read_value js limit body = Inl (JsonError e) \<and> c = Some e) \<and> fs = []) \<or>
        (st = 422 \<and> (\<exists>x e vs. read_value js limit body = Inr x \<and> check x = Some (e, vs) \<and> c = Some e \<and>
           map (\<lambda>f. (fe_field f, fe_rule f)) fs = map (\<lambda>(f, tag, param). (f, tag)) (reported vs)))
    | Some e \<Rightarrow> False)"
proof (cases "read_value js limit body")
  case (Inl e)
  have "0 < limit \<and> limit < int (length body)" if "e = TooLarge"
    using Inl that by (auto simp: read_value_def Let_def split: sum.splits scanned.splits if_splits)
  then show ?thesis
    using assms Inl by (cases e) (auto simp: bind_json_def new_error_def)
next
  case (Inr x)
  have fields: "map (\<lambda>f. (fe_field f, fe_rule f)) (validation_field_errors l) = map (\<lambda>(f, tag, param). (f, tag)) l" for l
    by (induction l) (auto simp: validation_field_errors_def)
  show ?thesis
  proof (cases "check x")
    case None
    then show ?thesis
      using assms Inr by (simp add: bind_json_def validate_struct_def)
  next
    case (Some ev)
    then show ?thesis
      using assms Inr fields
      by (cases ev; cases "snd ev")
        (auto simp: bind_json_def validate_struct_def unprocessable_def new_error_def Let_def reported_def)
  qed
qed

text \<open>
  Whatever follows the first value is ignored, up to bytes beyond the limit: the scanner's answer depends
  on a prefix only.
\<close>

theorem bind_json_ignores_rest:
  assumes "js_scan js body = ValueEnds n" "n \<le> length body"
    and "\<And>more. js_scan js (body @ more) = ValueEnds n"
    and "limit \<le> 0 \<or> int (length body) \<le> limit"
  shows "bind_json js check limit (body @ junk) = bind_json js check limit body"
proof -
  have seen: "\<exists>more. (if limit > 0 then take (nat limit) (body @ junk) else body @ junk) = body @ more"
    using assms(4) by auto
  have "(if limit > 0 then take (nat limit) body else body) = body"
    using assms(4) by auto
  then have "read_value js limit (body @ junk) = read_value js limit body"
    using seen assms(1-3) by (auto simp: read_value_def Let_def)
  then show ?thesis
    by (simp add: bind_json_def)
qed

end
