(* ===== verification/App_Server.thy ===== *)
theory App_Server
  imports Worker_Lifecycle Router_Tree Http_Middleware
begin

text \<open>
  The App of app.go around its worker: the HTTP server it builds once from the configuration and
  brings up to date when Start binds it, Serve, Stop and Run. The \<open>*http.Server\<close> is the five fields
  Server sets from the configuration, which its callers may change; what ListenAndServe and its
  Shutdown return, the configuration provider's Bind and the CSRF protection's answers are arguments.
\<close>

section \<open>State\<close>

record server_settings =
  st_host :: string
  st_port :: int
  st_read :: int
  st_read_header :: int
  st_write :: int
  st_idle :: int
  st_shutdown :: int
  st_max_json :: int

record server_fields =
  sf_addr :: string
  sf_read :: int
  sf_read_header :: int
  sf_write :: int
  sf_idle :: int

definition server_fields_of :: "server_settings \<Rightarrow> server_fields" where
  "server_fields_of s = \<lparr>sf_addr = st_host s @ '':'' @ show_int (st_port s), sf_read = st_read s,
     sf_read_header = st_read_header s, sf_write = st_write s, sf_idle = st_idle s\<rparr>"

text \<open>Durations in nanoseconds.\<close>

definition default_settings :: server_settings where
  "default_settings = \<lparr>st_host = ''0.0.0.0'', st_port = 8080, st_read = 5 * 10 ^ 9,
     st_read_header = 5 * 10 ^ 9, st_write = 10 * 10 ^ 9, st_idle = 120 * 10 ^ 9,
     st_shutdown = 30 * 10 ^ 9, st_max_json = 2 ^ 20\<rparr>"

text \<open>\<open>ap_srv\<close> is None until srvOnce has run; \<open>ap_handler\<close> says whether handlerOnce has.\<close>

record app =
  ap_worker :: worker
  ap_router :: router
  ap_cfg :: server_settings
  ap_srv :: "server_fields option"
  ap_copied :: server_fields
  ap_settled :: bool
  ap_handler :: bool
  ap_max_json :: int

section \<open>Construction\<close>

text \<open>
  The post-build hook: the router is sealed, then every dependency of a handler must be something
  the container can resolve. Types are the container's, named as the router books them. A panic of
  the router ends the hook, and the worker's Start with it.
\<close>

datatype handler_gap = HandlerGap string string string rtype

fun handler_gaps ::
  "di \<Rightarrow> (string \<times> string \<times> string \<times> string list) list \<Rightarrow> handler_gap option"
where
  "handler_gaps d [] = None"
| "handler_gaps d ((svc, meth, path, deps) # hs) =
     (case List.find (\<lambda>t. \<not> can_resolve_type t d) deps of
        Some t \<Rightarrow> Some (HandlerGap meth path svc t)
      | None \<Rightarrow> handler_gaps d hs)"

definition post_build_hook :: "di \<Rightarrow> router \<Rightarrow> (router_panic, handler_gap option \<times> router) result" where
  "post_build_hook d r =
     (case seal r of
        Inl e \<Rightarrow> Inl e
      | Inr r' \<Rightarrow> Inr (handler_gaps d (bk_pending (rt_book r')), r'))"

text \<open>
  Options are functions, applied in the order they were given. An option of the app can panic, as
  WithTrustedOrigin does on an origin the CSRF protection refuses.
\<close>

datatype app_option =
    WorkerOption "worker \<Rightarrow> worker"
  | AppOption "app \<Rightarrow> (string, app) result"

definition with_ready_func :: "nat \<Rightarrow> app_option" where
  "with_ready_func f = WorkerOption (\<lambda>k. k\<lparr>wk_ready_funcs := wk_ready_funcs k @ [f]\<rparr>)"

definition with_trusted_origin :: "(string \<Rightarrow> string option) \<Rightarrow> string \<Rightarrow> app_option" where
  "with_trusted_origin add origin =
     AppOption (\<lambda>a. case add origin of
        Some e \<Rightarrow> Inl (''gas: failed to add trusted origin: '' @ e)
      | None \<Rightarrow> Inr a)"

fun apply_options :: "app_option list \<Rightarrow> app \<Rightarrow> (string, app) result" where
  "apply_options [] a = Inr a"
| "apply_options (WorkerOption f # os) a = apply_options os (a\<lparr>ap_worker := f (ap_worker a)\<rparr>)"
| "apply_options (AppOption f # os) a = (case f a of Inl e \<Rightarrow> Inl e | Inr a' \<Rightarrow> apply_options os a')"

text \<open>The request scope middleware is an unnamed function, so Use cannot refuse it.\<close>

definition new_app ::
  "nat \<Rightarrow> app_option list \<Rightarrow> di \<Rightarrow> (string, app) result"
where
  "new_app scope_mw os d =
     (case apply_options os
         \<lparr>ap_worker = new_worker d, ap_router = new_router, ap_cfg = default_settings, ap_srv = None,
          ap_copied = \<lparr>sf_addr = '''', sf_read = 0, sf_read_header = 0, sf_write = 0, sf_idle = 0\<rparr>,
          ap_settled = False, ap_handler = False, ap_max_json = st_max_json default_settings\<rparr> of
        Inl e \<Rightarrow> Inl e
      | Inr a \<Rightarrow>
          (case use [MwFunc scope_mw] (ap_router a) of
             Inl _ \<Rightarrow> Inl ''middleware''
           | Inr r \<Rightarrow> Inr (a\<lparr>ap_router := r\<rparr>)))"

section \<open>The server\<close>

definition app_handler :: "app \<Rightarrow> app" where
  "app_handler a = a\<lparr>ap_handler := True\<rparr>"

definition app_server :: "app \<Rightarrow> app" where
  "app_server a =
     (case ap_srv a of
        Some _ \<Rightarrow> a
      | None \<Rightarrow>
          (let f = server_fields_of (ap_cfg a)
           in (app_handler a)\<lparr>ap_srv := Some f, ap_copied := f\<rparr>))"

text \<open>The fields a caller of Server reads.\<close>

definition server_of :: "app \<Rightarrow> server_fields" where
  "server_of a = the (ap_srv (app_server a))"

definition adopt_fields :: "server_fields \<Rightarrow> server_fields \<Rightarrow> server_fields \<Rightarrow> server_fields" where
  "adopt_fields was bound f = \<lparr>
     sf_addr = (if sf_addr f = sf_addr was then sf_addr bound else sf_addr f),
     sf_read = (if sf_read f = sf_read was then sf_read bound else sf_read f),
     sf_read_header = (if sf_read_header f = sf_read_header was then sf_read_header bound else sf_read_header f),
     sf_write = (if sf_write f = sf_write was then sf_write bound else sf_write f),
     sf_idle = (if sf_idle f = sf_idle was then sf_idle bound else sf_idle f)\<rparr>"

definition apply_bound_server :: "app \<Rightarrow> app" where
  "apply_bound_server a =
     (case ap_srv a of
        None \<Rightarrow> a
      | Some f \<Rightarrow>
          if ap_settled a then a
          else (let bound = server_fields_of (ap_cfg a)
                in a\<lparr>ap_settled := True, ap_srv := Some (adopt_fields (ap_copied a) bound f), ap_copied := bound\<rparr>))"

text \<open>Serve up to ListenAndServe: the server is built and its fields are final.\<close>

definition serve_begin :: "app \<Rightarrow> app" where
  "serve_begin a = (app_server a)\<lparr>ap_settled := True\<rparr>"

datatype listen_result = ServerClosed | ListenErr string

definition serve :: "listen_result \<Rightarrow> app \<Rightarrow> string option \<times> app" where
  "serve r a = ((case r of ServerClosed \<Rightarrow> None | ListenErr e \<Rightarrow> Some e), serve_begin a)"

text \<open>What the code of the application does with its App besides starting and stopping it.\<close>

datatype app_act = ActServer | ActHandler | ActSet "server_fields \<Rightarrow> server_fields" | ActServe

fun run_act :: "app_act \<Rightarrow> app \<Rightarrow> app" where
  "run_act ActServer a = app_server a"
| "run_act ActHandler a = app_handler a"
| "run_act (ActSet f) a = (app_server a)\<lparr>ap_srv := Some (f (server_of a))\<rparr>"
| "run_act ActServe a = serve_begin a"

section \<open>Start, Stop and Run\<close>

text \<open>A Bind that fails may have set some fields before; \<open>subs\<close> is what the subscribers of
  AppConfigUpdated do.\<close>

definition bind_config ::
  "(server_settings \<Rightarrow> string option \<times> server_settings) option \<Rightarrow> app_act list \<Rightarrow> app \<Rightarrow> string option \<times> app"
where
  "bind_config prov subs a =
     (case (case prov of None \<Rightarrow> (None, ap_cfg a) | Some bind \<Rightarrow> bind (ap_cfg a)) of
        (Some e, c) \<Rightarrow> (Some e, a\<lparr>ap_cfg := c\<rparr>)
      | (None, c) \<Rightarrow>
          (let a1 = apply_bound_server (a\<lparr>ap_cfg := c, ap_max_json := st_max_json c\<rparr>);
               a2 = a1\<lparr>ap_worker := emit_event ''AppConfigUpdated'' '''' (ap_worker a1)\<rparr>
           in (None, fold run_act subs a2)))"

text \<open>\<open>hooks\<close> is what the services' Inits and the ready hooks do with the app.\<close>

definition start_app ::
  "wenv \<Rightarrow> (server_settings \<Rightarrow> string option \<times> server_settings) option \<Rightarrow> app_act list \<Rightarrow> app_act list \<Rightarrow>
   app \<Rightarrow> outcome \<times> app"
where
  "start_app env prov hooks subs a =
     (let a1 = fold run_act hooks a in
      case start env (ap_worker a1) of
        (Panicked, k) \<Rightarrow> (Panicked, a1\<lparr>ap_worker := k\<rparr>)
      | (Returned es, k) \<Rightarrow>
          if es \<noteq> [] then (Returned es, a1\<lparr>ap_worker := k\<rparr>)
          else (case bind_config prov subs (a1\<lparr>ap_worker := k\<rparr>) of
                  (None, a2) \<Rightarrow> (Returned [], a2)
                | (Some e, a2) \<Rightarrow>
                    (case close_active env (ap_worker a2) of
                       (ces, k2) \<Rightarrow> (let errs = WBindConfig e # ces
                         in (Returned errs, a2\<lparr>ap_worker := k2\<lparr>wk_start_err := errs\<rparr>\<rparr>)))))"

datatype stop_err = StopServer string | StopWorker "werr list"

definition stop_app :: "wenv \<Rightarrow> string option \<Rightarrow> app \<Rightarrow> stop_err list \<times> app" where
  "stop_app env srv_err a =
     (let a1 = app_server a;
          k = emit_event ''SystemServerShuttingDown'' '''' (ap_worker a1);
          es = (case srv_err of None \<Rightarrow> [] | Some e \<Rightarrow> [StopServer e])
      in case shutdown env k of
           (wes, k') \<Rightarrow> (es @ (if wes = [] then [] else [StopWorker wes]), a1\<lparr>ap_worker := k'\<rparr>))"

text \<open>Worker.Run, without an HTTP server, waits for the signal only: \<open>during\<close> is what happens until then.\<close>

definition run_worker :: "wenv \<Rightarrow> (worker \<Rightarrow> worker) \<Rightarrow> worker \<Rightarrow> outcome \<times> worker" where
  "run_worker env during k =
     (case start env k of
        (Panicked, k1) \<Rightarrow> (Panicked, k1)
      | (Returned es, k1) \<Rightarrow>
          if es \<noteq> [] then (Returned es, k1)
          else (case shutdown env (during k1) of (ses, k2) \<Rightarrow> (Returned ses, k2)))"

text \<open>
  App.Run: \<open>during\<close> is everything that happens between a successful Start and the end, \<open>sel\<close> what its
  select saw first: a signal, when the goroutine may or may not have begun to serve, or the end
  of Serve. The route map is log output.
\<close>

datatype run_select = Quit bool | ServeEnded listen_result
datatype run_result = RunPanicked | RunStart "werr list" | RunStop "string option" "stop_err list"

definition run_app ::
  "wenv \<Rightarrow> (server_settings \<Rightarrow> string option \<times> server_settings) option \<Rightarrow> app_act list \<Rightarrow> app_act list \<Rightarrow>
   (app \<Rightarrow> app) \<Rightarrow> run_select \<Rightarrow> string option \<Rightarrow> app \<Rightarrow> run_result \<times> app"
where
  "run_app env prov hooks subs during sel srv_err a =
     (case start_app env prov hooks subs a of
        (Panicked, a1) \<Rightarrow> (RunPanicked, a1)
      | (Returned es, a1) \<Rightarrow>
          if es \<noteq> [] then (RunStart es, a1)
          else (case (case sel of
                        Quit began \<Rightarrow> (None, during (if began then serve_begin a1 else a1))
                      | ServeEnded r \<Rightarrow> (case serve r a1 of (e, a2) \<Rightarrow> (e, during a2))) of
                  (e, a3) \<Rightarrow> (case stop_app env srv_err a3 of (ses, a4) \<Rightarrow> (RunStop e ses, a4))))"

end
