(* ===== verification/App_Properties.thy ===== *)
theory App_Properties
  imports App_Server Worker_Properties
begin

text \<open>
  What the App promises beyond its worker: a bound configuration reaches the server exactly in the
  fields its callers left alone, once, and never a server that is being served; Run and Stop leave
  no service open, whatever fails.
\<close>

section \<open>The server's fields\<close>

text \<open>A settled app has a server.\<close>

definition app_inv :: "app \<Rightarrow> bool" where
  "app_inv a \<longleftrightarrow> (ap_settled a \<longrightarrow> ap_srv a \<noteq> None)"

lemma app_server_simps [simp]:
  "ap_srv (app_server a) = Some (server_of a)" "ap_cfg (app_server a) = ap_cfg a"
  "ap_settled (app_server a) = ap_settled a" "ap_worker (app_server a) = ap_worker a"
  "app_server (app_server a) = app_server a" "server_of (app_server a) = server_of a"
  "ap_router (app_server a) = ap_router a"
  by (simp_all add: app_server_def server_of_def app_handler_def Let_def split: option.split)

lemma run_act_keeps [simp]:
  "ap_cfg (run_act c a) = ap_cfg a" "ap_worker (run_act c a) = ap_worker a"
  "ap_router (run_act c a) = ap_router a"
  by (cases c; simp add: app_handler_def serve_begin_def)+

lemma run_acts_keep [simp]:
  "ap_cfg (fold run_act cs a) = ap_cfg a" "ap_worker (fold run_act cs a) = ap_worker a"
  "ap_router (fold run_act cs a) = ap_router a"
  by (induction cs arbitrary: a) simp_all

lemma apply_bound_keeps [simp]:
  "ap_worker (apply_bound_server a) = ap_worker a" "ap_cfg (apply_bound_server a) = ap_cfg a"
  by (simp_all add: apply_bound_server_def Let_def split: option.split)

lemma app_inv_act: "app_inv a \<Longrightarrow> app_inv (run_act c a)"
  by (cases c) (auto simp: app_inv_def app_handler_def serve_begin_def)

lemma app_inv_acts: "app_inv a \<Longrightarrow> app_inv (fold run_act cs a)"
  by (induction cs arbitrary: a) (simp_all add: app_inv_act)

text \<open>What a list of actions does to the fields a caller of Server sees: the settings, in order.\<close>

fun set_fields_by :: "app_act \<Rightarrow> server_fields \<Rightarrow> server_fields" where
  "set_fields_by (ActSet f) s = f s"
| "set_fields_by _ s = s"

lemma server_of_act: "server_of (run_act c a) = set_fields_by c (server_of a)"
proof (cases c)
  case ActHandler
  then show ?thesis
    by (simp add: server_of_def app_server_def app_handler_def Let_def split: option.split)
next
  case (ActSet f)
  then show ?thesis by (simp add: server_of_def app_server_def)
next
  case ActServe
  then show ?thesis by (simp add: server_of_def app_server_def serve_begin_def app_handler_def Let_def split: option.split)
qed simp

lemma server_of_acts: "server_of (fold run_act cs a) = fold set_fields_by cs (server_of a)"
  by (induction cs arbitrary: a) (simp_all add: server_of_act)

lemma server_of_worker [simp]: "server_of (a\<lparr>ap_worker := k\<rparr>) = server_of a"
  by (simp add: server_of_def app_server_def app_handler_def Let_def split: option.split)

lemma adopt_same [simp]: "adopt_fields was bound was = bound"
  by (simp add: adopt_fields_def)

lemma server_of_bound:
  assumes "app_inv a"
  shows "server_of (apply_bound_server (a\<lparr>ap_cfg := c, ap_max_json := m\<rparr>)) =
    (if ap_settled a then server_of a
     else adopt_fields (ap_copied (app_server a)) (server_fields_of c) (server_of a))"
  using assms
  by (cases "ap_srv a")
    (auto simp: app_inv_def apply_bound_server_def server_of_def app_server_def app_handler_def Let_def)


lemma settled_act: "ap_settled a \<Longrightarrow> ap_settled (run_act c a)"
  by (cases c) (simp_all add: app_handler_def serve_begin_def)

lemma settled_acts: "ap_settled a \<Longrightarrow> ap_settled (fold run_act cs a)"
  by (induction cs arbitrary: a) (simp_all add: settled_act)

lemma start_app_ok:
  assumes "start_app env prov hooks subs a = (Returned [], a')"
  obtains k c where "start env (ap_worker a) = (Returned [], k)"
    and "a' = fold run_act subs ((apply_bound_server ((fold run_act hooks a)\<lparr>ap_worker := k, ap_cfg := c,
           ap_max_json := st_max_json c\<rparr>))\<lparr>ap_worker := emit_event ''AppConfigUpdated'' '''' k\<rparr>)"
    and "ap_cfg a' = c"
proof -
  from assms show ?thesis
    by (auto simp: start_app_def bind_config_def Let_def split: prod.splits outcome.splits if_splits option.splits
        intro!: that)
qed

lemma bound_fields:
  assumes "app_inv a" and "b = fold run_act hooks a" and "start_app env prov hooks subs a = (Returned [], a')"
  shows "server_of a' = fold set_fields_by subs (if ap_settled b then server_of b
      else adopt_fields (ap_copied (app_server b)) (server_fields_of (ap_cfg a')) (server_of b))"
    and "ap_srv b \<noteq> None \<Longrightarrow> ap_settled a'"
proof -
  obtain k c where a': "a' = fold run_act subs ((apply_bound_server (b\<lparr>ap_worker := k, ap_cfg := c,
      ap_max_json := st_max_json c\<rparr>))\<lparr>ap_worker := emit_event ''AppConfigUpdated'' '''' k\<rparr>)" and c: "ap_cfg a' = c"
    using start_app_ok [OF assms(3)] assms(2) by metis
  have inv: "app_inv (b\<lparr>ap_worker := k\<rparr>)" using app_inv_acts [OF assms(1)] assms(2) by (simp add: app_inv_def)
  have cop: "ap_copied (app_server (b\<lparr>ap_worker := k\<rparr>)) = ap_copied (app_server b)"
    by (simp add: app_server_def app_handler_def Let_def split: option.split)
  show "server_of a' = fold set_fields_by subs (if ap_settled b then server_of b
      else adopt_fields (ap_copied (app_server b)) (server_fields_of (ap_cfg a')) (server_of b))"
    using server_of_bound [OF inv, where c = c and m = "st_max_json c"] by (simp add: c) (simp add: a' server_of_acts cop)
  assume "ap_srv b \<noteq> None"
  then show "ap_settled a'" by (auto simp: a' apply_bound_server_def Let_def intro!: settled_acts)
qed

lemma app_inv_start:
  assumes "app_inv a" and "start_app env prov hooks subs a = (Returned [], a')"
  shows "app_inv a'"
proof -
  from assms(2) obtain k c where a': "a' = fold run_act subs ((apply_bound_server
      ((fold run_act hooks a)\<lparr>ap_worker := k, ap_cfg := c, ap_max_json := st_max_json c\<rparr>))
      \<lparr>ap_worker := emit_event ''AppConfigUpdated'' '''' k\<rparr>)"
    by (metis start_app_ok)
  have "app_inv (fold run_act hooks a)" by (rule app_inv_acts [OF assms(1)])
  then show ?thesis unfolding a'
    by (intro app_inv_acts) (auto simp: app_inv_def apply_bound_server_def Let_def split: option.split)
qed

text \<open>The configuration reaches the server where its callers left it alone, and once. After a
  successful Start each field of the server is the one the application set before, if that differs
  from what the server was built with, and the bound one otherwise; what the subscribers of
  AppConfigUpdated set comes on top. A later Start, of a server that was built before the first,
  changes no field by itself, and no Start changes one of a server that Serve has begun with.\<close>

theorem bound_server_exact:
  assumes "app_inv a" and "b = fold run_act hooks a" and "start_app env prov hooks subs a = (Returned [], a')"
  shows "(\<exists>s. server_of a' = fold set_fields_by subs s \<and>
      sf_addr s = (if ap_settled b \<or> sf_addr (server_of b) \<noteq> sf_addr (ap_copied (app_server b))
        then sf_addr (server_of b) else st_host (ap_cfg a') @ '':'' @ show_int (st_port (ap_cfg a'))) \<and>
      (\<forall>(f, g) \<in> {(sf_read, st_read), (sf_read_header, st_read_header), (sf_write, st_write), (sf_idle, st_idle)}.
        f s = (if ap_settled b \<or> f (server_of b) \<noteq> f (ap_copied (app_server b))
          then f (server_of b) else g (ap_cfg a')))) \<and>
    (ap_srv b \<noteq> None \<and> start_app env' prov' hooks' subs' a' = (Returned [], a'') \<longrightarrow>
      server_of a'' = fold set_fields_by (hooks' @ subs') (server_of a'))"
proof (intro conjI impI)
  show "\<exists>s. server_of a' = fold set_fields_by subs s \<and>
      sf_addr s = (if ap_settled b \<or> sf_addr (server_of b) \<noteq> sf_addr (ap_copied (app_server b))
        then sf_addr (server_of b) else st_host (ap_cfg a') @ '':'' @ show_int (st_port (ap_cfg a'))) \<and>
      (\<forall>(f, g) \<in> {(sf_read, st_read), (sf_read_header, st_read_header), (sf_write, st_write), (sf_idle, st_idle)}.
        f s = (if ap_settled b \<or> f (server_of b) \<noteq> f (ap_copied (app_server b))
          then f (server_of b) else g (ap_cfg a')))"
    by (rule exI, rule conjI, rule bound_fields(1) [OF assms]) (simp add: adopt_fields_def server_fields_of_def)
next
  assume "ap_srv b \<noteq> None \<and> start_app env' prov' hooks' subs' a' = (Returned [], a'')"
  then have srv: "ap_srv b \<noteq> None" and again: "start_app env' prov' hooks' subs' a' = (Returned [], a'')"
    by simp_all
  have "ap_settled (fold run_act hooks' a')" by (rule settled_acts [OF bound_fields(2) [OF assms srv]])
  with bound_fields(1) [OF app_inv_start [OF assms(1,3)] refl again]
  show "server_of a'' = fold set_fields_by (hooks' @ subs') (server_of a')" by (simp add: server_of_acts)
qed


text \<open>A demonstration: an Init builds the server and turns the read timeout off, the configuration
  then moves the port and the read timeouts, and a second Start moves the port again.\<close>

definition demo_app :: app where
  "demo_app = \<lparr>ap_worker = new_worker demo_di, ap_router = new_router, ap_cfg = default_settings,
     ap_srv = None, ap_copied = \<lparr>sf_addr = '''', sf_read = 0, sf_read_header = 0, sf_write = 0, sf_idle = 0\<rparr>,
     ap_settled = False, ap_handler = False, ap_max_json = 0\<rparr>"

definition demo_hooks :: "app_act list" where
  "demo_hooks = [ActSet (\<lambda>s. s\<lparr>sf_read := 0\<rparr>)]"

definition demo_bind :: "server_settings \<Rightarrow> string option \<times> server_settings" where
  "demo_bind c = (None, c\<lparr>st_port := 9000, st_read := 7, st_read_header := 8\<rparr>)"

lemma demo_server [simp]:
  "fold run_act demo_hooks demo_app = demo_app\<lparr>ap_handler := True,
     ap_srv := Some ((server_fields_of default_settings)\<lparr>sf_read := 0\<rparr>), ap_copied := server_fields_of default_settings\<rparr>"
  by (simp add: demo_hooks_def demo_app_def app_server_def server_of_def app_handler_def Let_def)

lemma demo_app_inv: "app_inv demo_app"
  by (simp add: app_inv_def demo_app_def)

text \<open>A successful start of the App, where the worker starts and the configuration binds.\<close>

lemma start_app_bound:
  assumes "start env (ap_worker a) = (Returned [], k)" and "bind (ap_cfg a) = (None, c)"
  shows "\<exists>a'. start_app env (Some bind) hooks subs a = (Returned [], a') \<and> ap_cfg a' = c \<and>
    ap_worker a' = emit_event ''AppConfigUpdated'' '''' k"
  using assms by (simp add: start_app_def bind_config_def Let_def)

lemma demo_app_started:
  "\<exists>a'. start_app demo_env (Some demo_bind) demo_hooks [] demo_app = (Returned [], a') \<and>
     ap_cfg a' = default_settings\<lparr>st_port := 9000, st_read := 7, st_read_header := 8\<rparr>"
proof -
  have st: "start demo_env (ap_worker demo_app) = (Returned [], demo_running)"
    by (simp add: demo_start demo_app_def)
  have "demo_bind (ap_cfg demo_app) = (None, default_settings\<lparr>st_port := 9000, st_read := 7, st_read_header := 8\<rparr>)"
    by (simp add: demo_bind_def demo_app_def)
  with st show ?thesis using start_app_bound [where a = demo_app and bind = demo_bind] by blast
qed

theorem bound_server_exact_witness:
  "\<exists>a'. start_app demo_env (Some demo_bind) demo_hooks [] demo_app = (Returned [], a') \<and>
     sf_read (server_of a') = 0 \<and> sf_read_header (server_of a') = 8 \<and>
     sf_addr (server_of a') = ''0.0.0.0:9000''"
proof -
  obtain a' where a': "start_app demo_env (Some demo_bind) demo_hooks [] demo_app = (Returned [], a')"
    and c: "ap_cfg a' = default_settings\<lparr>st_port := 9000, st_read := 7, st_read_header := 8\<rparr>"
    using demo_app_started by blast
  have "char_of (57::nat) = CHR ''9''" "char_of (48::nat) = CHR ''0''" by code_simp+
  then have port: "show_int 9000 = ''9000''" by (simp add: show_int_def show_nat.simps digit_char_def)
  let ?b = "fold run_act demo_hooks demo_app"
  have srv: "server_of ?b = (server_fields_of default_settings)\<lparr>sf_read := 0\<rparr>"
    "ap_copied (app_server ?b) = server_fields_of default_settings" "\<not> ap_settled ?b"
    by (simp_all add: server_of_def app_server_def) (simp add: demo_app_def)
  have "sf_read (server_of a') = 0 \<and> sf_read_header (server_of a') = 8 \<and>
     sf_addr (server_of a') = ''0.0.0.0:9000''"
    using bound_server_exact [OF demo_app_inv refl a'] srv c port
    by (auto simp: server_fields_of_def default_settings_def)
  with a' show ?thesis by blast
qed

section \<open>Nothing stays open\<close>

text \<open>Over its worker the App's Start is the one of Worker_Lifecycle.\<close>

lemma start_app_worker:
  assumes "start_app env prov hooks subs a = (r, a')"
  shows "app_start env (case prov of None \<Rightarrow> None | Some bind \<Rightarrow> fst (bind (ap_cfg a))) (ap_worker a) =
    (r, ap_worker a')"
  using assms
  by (auto simp: start_app_def app_start_def bind_config_def Let_def
      split: prod.splits outcome.splits if_splits option.splits)

text \<open>A first Start of the App that fails leaves no service active.\<close>

lemma app_start_closes:
  assumes "inj_on (we_name env) {v. as_service (we_world env) v}" and "fresh_container d"
    and "wk_good env d k" and "wk_init k = None" and "wk_start_err k = []"
    and "app_start env bind k = (Returned es, k')" and "es \<noteq> []"
  shows "wk_active k' = Map.empty"
proof -
  obtain es1 k1 where s: "start env k = (Returned es1, k1)"
    using assms(6) by (auto simp: app_start_def split: outcome.splits prod.splits)
  note g = good_start [OF assms(1-3) s]
  show ?thesis
  proof (cases "es1 = []")
    case False
    with g assms(4-7) s show ?thesis by (simp add: app_start_def)
  next
    case True
    with assms(6,7) s obtain ces k2 where "close_active env k1 = (ces, k2)" and "k' = k2\<lparr>wk_start_err := es\<rparr>"
      by (auto simp: app_start_def split: prod.splits option.splits)
    with good_close_active [OF conjunct1 [OF g]] show ?thesis by auto
  qed
qed

lemma stop_app_closes:
  assumes "wk_good env d (ap_worker a)" and "\<not> wk_shutdown_once (ap_worker a)"
    and "stop_app env srv_err a = (es, a')"
  shows "wk_good env d (ap_worker a') \<and> wk_active (ap_worker a') = Map.empty \<and>
    {e. StopServer e \<in> set es} = set_option srv_err"
proof -
  let ?k = "emit_event ''SystemServerShuttingDown'' '''' (ap_worker a)"
  let ?k2 = "emit_event ''SystemShuttingDown'' '''' (shutdown_begin ?k)"
  obtain wes k' where c: "close_active env ?k2 = (wes, k')" by fastforce
  have "shutdown env ?k = (wes, k')" using assms(2) c by (simp add: shutdown_def)
  with assms(3) have "ap_worker a' = k'" and
    "es = (case srv_err of None \<Rightarrow> [] | Some e \<Rightarrow> [StopServer e]) @ (if wes = [] then [] else [StopWorker wes])"
    by (auto simp: stop_app_def Let_def)
  with good_close_active [OF _ c, of d] assms(1) show ?thesis by (auto split: option.split)
qed

text \<open>No part of a start touches Shutdown's once.\<close>

lemma close_services_once:
  "close_services env vs k = (es, k') \<Longrightarrow> wk_shutdown_once k' = wk_shutdown_once k"
  by (induction vs arbitrary: k es) (auto simp: log_close_def split: prod.splits)

lemma close_active_once: "close_active env k = (es, k') \<Longrightarrow> wk_shutdown_once k' = wk_shutdown_once k"
  by (auto simp: close_active_def split: prod.splits dest: close_services_once)

lemma track_services_once [simp]: "wk_shutdown_once (track_services env vs k) = wk_shutdown_once k"
  by (induction vs arbitrary: k) auto

lemma init_services_once:
  "init_services env k = (r, k') \<Longrightarrow> wk_shutdown_once k' = wk_shutdown_once k"
  by (auto simp: init_services_def init_services_run_def Let_def
      split: option.splits prod.splits outcome.splits gerr.splits
      dest!: close_services_once close_active_once)

lemma start_once: "start env k = (r, k') \<Longrightarrow> wk_shutdown_once k' = wk_shutdown_once k"
  by (auto simp: start_def start_attempt_def Let_def
      split: option.splits prod.splits outcome.splits if_splits
      dest!: init_services_once close_active_once)

lemma app_start_once: "app_start env bind k = (r, k') \<Longrightarrow> wk_shutdown_once k' = wk_shutdown_once k"
  by (auto simp: app_start_def split: option.splits prod.splits outcome.splits if_splits
      dest!: start_once close_active_once)




end
