(* ===== verification/Spec2Isabelle.thy ===== *)
theory Spec2Isabelle
  imports Di_Properties Di_Concurrency_Properties Event_Bus Worker_Properties Router_Properties Storage_Properties
    Http_Errors Dotenv_Properties Config_Properties Cache_Properties Auth_Tokens Auth_Sessions Migrate_Properties
    Storage_Lock Storage_Provider_Properties Storage_Listing_Properties Storage_Buckets_Properties
    Config_Bind_Properties Auth_ApiKeys_Properties Log_Shipping_Properties Request_Scope
    Db_Properties Valkey_Properties Http_Middleware_Properties
    Ui_Properties Sqs_Properties Request_Context App_Properties
begin

text \<open>
  A verification library for gas, a Go framework for applications: a dependency injection container,
  an event bus, workers and an HTTP router in the root package, and modules for configuration,
  authentication, databases, caching, queues, migrations, templates and object storage. A definition has the name of the function
  it models, in snake case, and the text before it says where it departs from it.

  \<^bold>\<open>The parts and how they interact.\<close> An application registers constructors with the service container.
  The worker has the container build every singleton in dependency order, starts the services,
  publishes what happens on the event bus, and closes them again in reverse order; its kill switch
  closes and restarts single services, and the router, a subscriber of the bus, takes the routes and
  the named middleware of a closed service out of the tree. A handler is called with a scope of the
  container and its error becomes the response. Configuration is loaded from providers into one tree
  before services are built and bound to their structs. Modules are services of this container:
  they share the conventions, not state.

  \<^bold>\<open>Shared vocabulary.\<close> Gas_Prelude: the result type (a Go \<open>(T, error)\<close> is \<open>'e + 'a\<close>, error on the left),
  named collections of facts, lemmas on lists and association lists. Go_Strings: the functions of
  the strings package on lists of bytes. Ordered_Map: internal/ordered_map.go, refined to association
  lists; its locale \<open>keyed_seq\<close> is what the container relies on, interpreted as \<open>om\<close>.

  \<^bold>\<open>Service container\<close> (service_registry.go, di_guard.go, di_errors.go). Di_Container has the state \<open>di\<close>
  (registrations, aliases, instances, inited types, a trace of Init and Close calls) and resolution;
  Di_Topo the topological sort, Di_Build BuildAll and initializedServices, Di_Lifecycle scopes and the
  states reachable by any sequence of operations. Di_Resolution proves the frame every resolution stays
  in; the locale \<open>resolution_frame\<close> turns a relation kept by the single steps into one kept by a whole
  resolution and is interpreted three times (\<open>growing\<close>, \<open>wf_kept\<close>, \<open>guarded\<close>). Recursion is bounded by the
  code's own limit, \<open>max_resolve_depth\<close> = 256 constructors on the stack. Di_Concurrency models
  the same singletons under any number of goroutines as interleaved critical sections, with
  Di_Concurrency_Invariant its invariant; \<open>waits_on\<close> has the code's bound, one step more than there are
  waiting goroutines, and \<open>waits_on_exact\<close> shows that it is enough; a run without new requests ends
  within four steps per request.

  \<^bold>\<open>Event bus, worker, router, errors.\<close> Event_Bus: eventbus.go. Worker_Lifecycle: worker.go and
  service_management.go over the container and the bus; one trace shows every Init and Close, and
  Worker_Properties keeps the table of active services in agreement with it. Router_Tree: router.go, a
  build of the tree as the sequence of calls made on chi. Http_Errors: errors.go and handler.go.
  App_Server: app.go around the worker, with the server it builds from the configuration, Start, Serve,
  Stop and Run; its Start is the worker's step of the same name (\<open>start_app_worker\<close>), so App_Properties
  carries the worker's invariant to Run. Http_Middleware: the middlewares that set headers.
  Request_Context: the response and binding methods of context.go. Request_Scope puts a request together: the scope the middleware gives it, the request logger, the
  handler, and the Close that ends it. Log_Shipping: the handler and the sender of log/httpsink.go, its
  goroutine as labelled steps.

  \<^bold>\<open>Configuration\<close> (config). Dotenv: the .env parser on bytes, with bufio.Scanner's limit of 65536 bytes
  per line. Config_Maps and Config_Store: variables, nested maps, merging, Set and Find, the load of the
  providers. Config_Bind: Bind, which sets the fields of a struct from a map, on Go types as data.

  \<^bold>\<open>Authentication, cache, migrations.\<close> Auth_Tokens and Auth_Sessions: tables as lists of rows and SQL
  statements as atomic steps between which other calls run; Auth_ApiKeys adds the columns of the three
  databases and statements that fail. Memory_Cache: the in-memory cache, each lock
  section a function; Cache_Properties states the contract of a cache as the locale \<open>kv_cache\<close>,
  interpreted on it as \<open>mem\<close>. Migrate_Manager: pending migrations, Down and readiness over the tracking
  table, with faults.

  \<^bold>\<open>Databases, Valkey, SQS.\<close> Conn_Retry: the loop \<open>connectWithRetry\<close> of database and cache/valkey, its
  locale \<open>connector\<close> interpreted on both (\<open>dbc\<close>, \<open>vkc\<close>). Db_Service: the handles of the two modes and the
  transaction helpers; the locale \<open>tx_interface\<close> states what they rely on in a transaction, interpreted on
  database/sql's (\<open>sqltx\<close>). Valkey_Service: Init and Close as functions and as steps beside the
  operations; \<open>vk_init_close_refine\<close> relates the two. Sqs_Queue: the requests to the SQS client.

  \<^bold>\<open>Templates and UI.\<close> Template_Stores: five stores behind one interface, the locale \<open>template_provider\<close>,
  interpreted as \<open>mem\<close>, \<open>tdb\<close> and \<open>dirs\<close>; \<open>composite_provider\<close> gives it for a store made of others.
  Ui_Engine: Build, lookup and rendering, with builds and AddFuncs as interleaved steps.

  \<^bold>\<open>Object storage in a directory\<close> (storage/internal, storage/dir). Storage_Input: names, keys, conditions,
  lengths, ranges. Storage_Lock: the lock file protocol, with holders that give up or crash.
  Storage_Bucket: the objects of a bucket as files; an operation is the list of file system steps it
  takes, a fault record says which of them fail, a crash cuts the list. Storage_Provider: the object
  calls from input check to error. Storage_Listing: pages and continuation tokens. Storage_Buckets:
  creating, deleting and listing buckets, with object operations between the steps of a delete.

  \<^bold>\<open>What the lemmas show.\<close> Each component has a theory of properties (or ends with them): invariants of
  its state under every operation, what each operation returns on each branch, and what the component
  promises to its callers. Every property with hypotheses has a witness, the property applied to a
  concrete value.

  \<^bold>\<open>Bounds and fuel.\<close> Besides those above: \<open>float_scale\<close>, which finds the binary exponent of a
  duration in seconds, has fuel 1024, enough for every number from \<open>2 ^ -972\<close> up; the length reader probes a body at most 100 times, as the code
  does; \<open>list_all_pages\<close> has fuel for a client that follows continuation tokens, and the property shows
  that one page per file of the bucket is enough.

  \<^bold>\<open>Not modelled.\<close> Reflection is replaced by parameters that say what a type is; user code
  (constructors, handlers, hooks, SQL) is a parameter, and so are hash functions, random values, clocks
  and the clients behind the modelled services (chi, drivers, valkey-go, the SQS client, html/template,
  encoders, the HTTP listener). Left out are the parts whose work is done in a third-party package: JWT,
  S3 and SES, the logger adapters and the OTLP format, with the generated SQL and its adapters, and the
  configuration providers that read files and secrets; also the text of most error messages and what is
  logged.
\<close>

end
